(* ===== verification/Prelude.thy ===== *)
theory Prelude
  imports Main "HOL-Library.Word"
begin

text \<open>
  Vocabulary shared by every theory of the development: the machine integers of the code
  (\<open>uint8_t\<close>, \<open>uint32_t\<close>, \<open>uint64_t\<close>/\<open>uintptr_t\<close>), the error numbers of
  \<^verbatim>\<open>include/errno.h\<close>, pointers as optional addresses, the collections of simplification
  rules, and generic lemmas on words, lists and functions that several components use.
\<close>

unbundle bit_operations_syntax

named_theorems dsa_simps \<open>functional behaviour of the intrusive data structures\<close>
named_theorems frame_simps \<open>fields a kernel operation leaves alone\<close>

subsection \<open>Machine integers and pointers\<close>

type_synonym u8 = "8 word"
type_synonym u32 = "32 word"
type_synonym u64 = "64 word"

text \<open>A pointer is the address of the object it points to, or \<^term>\<open>None\<close> for \<open>NULL\<close>.\<close>

type_synonym addr = nat
type_synonym ptr = "addr option"

text \<open>
  \<open>intptr_t\<close> results of system calls travel in a 64 bit register: they are \<^typ>\<open>u64\<close> values
  read as two's complement.
\<close>

abbreviation UINT32_MAX :: u32 where
  "UINT32_MAX \<equiv> - 1"

subsection \<open>Error numbers\<close>

text \<open>The error numbers of \<^verbatim>\<open>include/errno.h\<close>, in the order of the file.\<close>

datatype errno =
    EPERM | ENOENT | ESRCH | EINTR | EIO | ENXIO | E2BIG | ENOEXEC | EBADF | ECHILD
  | EAGAIN | ENOMEM | EACCES | EFAULT | ENOTBLK | EBUSY | EEXIST | EXDEV | ENODEV | ENOTDIR
  | EISDIR | EINVAL | ENFILE | EMFILE | ENOTTY | ETXTBSY | EFBIG | ENOSPC | ESPIPE | EROFS
  | EMLINK | EPIPE | EDOM | ERANGE | EDEADLK | ENAMETOOLONG | ENOLCK | ENOSYS

primrec errno_code :: "errno \<Rightarrow> nat" where
  "errno_code EPERM = 1"
| "errno_code ENOENT = 2"
| "errno_code ESRCH = 3"
| "errno_code EINTR = 4"
| "errno_code EIO = 5"
| "errno_code ENXIO = 6"
| "errno_code E2BIG = 7"
| "errno_code ENOEXEC = 8"
| "errno_code EBADF = 9"
| "errno_code ECHILD = 10"
| "errno_code EAGAIN = 11"
| "errno_code ENOMEM = 12"
| "errno_code EACCES = 13"
| "errno_code EFAULT = 14"
| "errno_code ENOTBLK = 15"
| "errno_code EBUSY = 16"
| "errno_code EEXIST = 17"
| "errno_code EXDEV = 18"
| "errno_code ENODEV = 19"
| "errno_code ENOTDIR = 20"
| "errno_code EISDIR = 21"
| "errno_code EINVAL = 22"
| "errno_code ENFILE = 23"
| "errno_code EMFILE = 24"
| "errno_code ENOTTY = 25"
| "errno_code ETXTBSY = 26"
| "errno_code EFBIG = 27"
| "errno_code ENOSPC = 28"
| "errno_code ESPIPE = 29"
| "errno_code EROFS = 30"
| "errno_code EMLINK = 31"
| "errno_code EPIPE = 32"
| "errno_code EDOM = 33"
| "errno_code ERANGE = 34"
| "errno_code EDEADLK = 35"
| "errno_code ENAMETOOLONG = 36"
| "errno_code ENOLCK = 37"
| "errno_code ENOSYS = 38"

text \<open>
  A C function that returns \<open>int\<close>, 0 on success and \<open>-errno\<close> on failure, returns
  \<^typ>\<open>errno + 'a\<close> in the model. \<open>neg_errno\<close> is the same failure as a system call result.
\<close>

definition neg_errno :: "errno \<Rightarrow> u64" where
  "neg_errno e = - word_of_nat (errno_code e)"

definition is_ok :: "errno + 'a \<Rightarrow> bool" where
  "is_ok r = (case r of Inl _ \<Rightarrow> False | Inr _ \<Rightarrow> True)"

lemma is_ok_simps [simp]: "is_ok (Inr x)" "\<not> is_ok (Inl e)"
  by (simp_all add: is_ok_def)

lemma errno_code_bounds: "1 \<le> errno_code e \<and> errno_code e \<le> 38"
  by (cases e) simp_all

lemma errno_code_inj: "errno_code e = errno_code e' \<Longrightarrow> e = e'"
  by (cases e; cases e'; simp)

lemma sint_neg_errno: "sint (neg_errno e) = - int (errno_code e)"
  by (cases e) (simp_all add: neg_errno_def)

subsection \<open>Words\<close>

lemma unat_sub_le: "b \<le> a \<Longrightarrow> unat (a - b) = unat a - unat b" for a b :: "'a::len word"
  by (rule unat_sub)

lemma unat_add_small:
  "unat a + unat b < 2 ^ LENGTH('a) \<Longrightarrow> unat (a + b) = unat a + unat b" for a b :: "'a::len word"
  by (simp add: unat_word_ariths)

lemma unat_less_exp: "unat a < 2 ^ LENGTH('a)" for a :: "'a::len word"
  by (rule unsigned_less)

lemma unat_word_of_nat: "n < 2 ^ LENGTH('a) \<Longrightarrow> unat (word_of_nat n :: 'a::len word) = n"
  by (simp add: unat_of_nat)

lemma unat_power_lower: "n < LENGTH('a) \<Longrightarrow> unat (2 ^ n :: 'a::len word) = 2 ^ n"
  using unat_word_of_nat[where 'a = 'a, of "2 ^ n"] by simp

lemma unat_drop_bit_eq: "unat (drop_bit k a) = drop_bit k (unat a)" for a :: "'a::len word"
  by (simp add: unsigned_drop_bit_eq take_bit_eq_mod)

lemma unat_pred_pos: "0 < a \<Longrightarrow> unat (a - 1) = unat a - 1" for a :: "'a::len word"
  by (metis gr0_conv_Suc unat_gt_0 unat_minus_one word_greater_zero_iff)

lemma word_pos_unat: "(0 < a) = (0 < unat a)" for a :: "'a::len word"
  by (simp add: word_less_nat_alt)

subsection \<open>Options and lists\<close>

definition opt_hd :: "'a list \<Rightarrow> 'a option" where
  "opt_hd xs = (case xs of [] \<Rightarrow> None | x # _ \<Rightarrow> Some x)"

definition opt_last :: "'a list \<Rightarrow> 'a option" where
  "opt_last xs = (if xs = [] then None else Some (last xs))"

lemma opt_hd_simps [simp]:
  "opt_hd [] = None" "opt_hd (x # xs) = Some x"
  by (simp_all add: opt_hd_def)

lemma opt_hd_None [simp]: "opt_hd xs = None \<longleftrightarrow> xs = []"
  by (cases xs) simp_all

lemma opt_hd_append: "opt_hd (xs @ ys) = (if xs = [] then opt_hd ys else opt_hd xs)"
  by (cases xs) simp_all

lemma opt_last_simps [simp]:
  "opt_last [] = None" "opt_last [x] = Some x"
  "opt_last (xs @ [x]) = Some x" "opt_last (x # y # xs) = opt_last (y # xs)"
  by (simp_all add: opt_last_def)

lemma opt_last_append_Cons [simp]: "opt_last (xs @ y # ys) = opt_last (y # ys)"
  by (simp add: opt_last_def)

lemma opt_last_None [simp]: "opt_last xs = None \<longleftrightarrow> xs = []"
  by (simp add: opt_last_def)

lemma opt_last_append: "opt_last (xs @ ys) = (if ys = [] then opt_last xs else opt_last ys)"
  by (simp add: opt_last_def)

end
