(* ===== verification/Containers.thy ===== *)
theory Containers
  imports Prelude
begin

text \<open>
  The contracts of the intrusive containers of \<^verbatim>\<open>include/lib/dsa\<close>, as locales. A container
  lives in a memory of type \<open>'m\<close> (the heap of link fields together with the container's head
  structure); \<open>rep m xs\<close> says that memory \<open>m\<close> holds a well linked container whose nodes are,
  in order, the addresses \<open>xs\<close>. The clients' facts are proved here once, and each container
  interprets the locale it implements on its own operations.
\<close>

subsection \<open>First in, first out\<close>

locale fifo_queue =
  fixes rep :: "'m \<Rightarrow> addr list \<Rightarrow> bool"
    and init :: "'m \<Rightarrow> 'm"
    and push_back :: "'m \<Rightarrow> addr \<Rightarrow> 'm"
    and pop_front :: "'m \<Rightarrow> ptr \<times> 'm"
    and is_empty :: "'m \<Rightarrow> bool"
  assumes init_law: "rep (init m) []"
    and push_law: "rep m xs \<Longrightarrow> a \<notin> set xs \<Longrightarrow> rep (push_back m a) (xs @ [a])"
    and pop_nil_law: "rep m [] \<Longrightarrow> pop_front m = (None, m)"
    and pop_cons_law: "rep m (a # xs) \<Longrightarrow> fst (pop_front m) = Some a \<and> rep (snd (pop_front m)) xs"
    and empty_law: "rep m xs \<Longrightarrow> is_empty m = (xs = [])"
    and distinct_law: "rep m xs \<Longrightarrow> distinct xs"
begin

fun push_all :: "'m \<Rightarrow> addr list \<Rightarrow> 'm" where
  "push_all m [] = m"
| "push_all m (a # as) = push_all (push_back m a) as"

fun pop_n :: "nat \<Rightarrow> 'm \<Rightarrow> addr list \<times> 'm" where
  "pop_n 0 m = ([], m)"
| "pop_n (Suc n) m =
    (case pop_front m of
       (None, m') \<Rightarrow> ([], m')
     | (Some a, m') \<Rightarrow> (a # fst (pop_n n m'), snd (pop_n n m')))"

lemma push_all_rep:
  "rep m xs \<Longrightarrow> distinct (xs @ as) \<Longrightarrow> rep (push_all m as) (xs @ as)"
proof (induction as arbitrary: m xs)
  case (Cons a as)
  then show ?case using push_law[of m xs a] Cons.IH[of "push_back m a" "xs @ [a]"] by simp
qed simp

lemma pop_n_prefix:
  "rep m (as @ bs) \<Longrightarrow> fst (pop_n (length as) m) = as \<and> rep (snd (pop_n (length as) m)) bs"
proof (induction as arbitrary: m)
  case (Cons a as)
  then show ?case using pop_cons_law[of m a "as @ bs"]
    by (cases "pop_front m") (auto split: prod.splits)
qed simp

text \<open>Nodes come out in the order in which they were pushed, after the nodes already queued.\<close>

lemma fifo_order:
  assumes "rep m xs" and "distinct (xs @ as)"
  shows "fst (pop_n (length xs + length as) (push_all m as)) = xs @ as
       \<and> is_empty (snd (pop_n (length xs + length as) (push_all m as)))"
proof -
  have "rep (push_all m as) ((xs @ as) @ [])"
    using push_all_rep[OF assms] by simp
  from pop_n_prefix[OF this] show ?thesis by (auto dest: empty_law)
qed

end

subsection \<open>Last in, first out\<close>

locale lifo_stack =
  fixes rep :: "'m \<Rightarrow> addr list \<Rightarrow> bool"
    and push :: "'m \<Rightarrow> addr \<Rightarrow> 'm"
    and pop :: "'m \<Rightarrow> ptr \<times> 'm"
    and is_empty :: "'m \<Rightarrow> bool"
  assumes push_law: "rep m xs \<Longrightarrow> a \<notin> set xs \<Longrightarrow> rep (push m a) (a # xs)"
    and pop_nil_law: "rep m [] \<Longrightarrow> pop m = (None, m)"
    and pop_cons_law: "rep m (a # xs) \<Longrightarrow> fst (pop m) = Some a \<and> rep (snd (pop m)) xs"
    and empty_law: "rep m xs \<Longrightarrow> is_empty m = (xs = [])"
    and distinct_law: "rep m xs \<Longrightarrow> distinct xs"
begin

fun push_list :: "'m \<Rightarrow> addr list \<Rightarrow> 'm" where
  "push_list m [] = m"
| "push_list m (a # as) = push_list (push m a) as"

fun drain :: "nat \<Rightarrow> 'm \<Rightarrow> addr list \<times> 'm" where
  "drain 0 m = ([], m)"
| "drain (Suc n) m =
    (case pop m of
       (None, m') \<Rightarrow> ([], m')
     | (Some a, m') \<Rightarrow> (a # fst (drain n m'), snd (drain n m')))"

lemma push_list_rep:
  "rep m xs \<Longrightarrow> distinct (xs @ as) \<Longrightarrow> rep (push_list m as) (rev as @ xs)"
proof (induction as arbitrary: m xs)
  case (Cons a as)
  then show ?case using push_law[of m xs a] Cons.IH[of "push m a" "a # xs"] by auto
qed simp

lemma drain_prefix:
  "rep m (as @ bs) \<Longrightarrow> fst (drain (length as) m) = as \<and> rep (snd (drain (length as) m)) bs"
proof (induction as arbitrary: m)
  case (Cons a as)
  then show ?case using pop_cons_law[of m a "as @ bs"]
    by (cases "pop m") (auto split: prod.splits)
qed simp

text \<open>Nodes come out in the reverse of the order in which they were pushed.\<close>

lemma lifo_order:
  assumes "rep m xs" and "distinct (xs @ as)"
  shows "fst (drain (length as) (push_list m as)) = rev as
       \<and> rep (snd (drain (length as) (push_list m as))) xs"
  using drain_prefix[of "push_list m as" "rev as" xs] push_list_rep[OF assms] by simp

end

end
