(* ===== verification/Stackq.thy ===== *)
theory Stackq
  imports Containers
begin

text \<open>
  \<^verbatim>\<open>include/lib/dsa/stackq.h\<close>: the intrusive stack. Every node carries one link field
  \<open>under\<close>; the heap maps node addresses to that field. The stack is refined to the list of its
  nodes from the top down, and interprets \<open>lifo_stack\<close>.
\<close>

record stackqNode =
  sn_under :: ptr

record stackq =
  sq_top :: ptr

type_synonym stackq_mem = "(addr \<Rightarrow> stackqNode) \<times> stackq"

fun stackqPush :: "stackq_mem \<Rightarrow> addr \<Rightarrow> stackq_mem" where
  "stackqPush (h, q) node =
    (let h = h(node := (h node)\<lparr>sn_under := sq_top q\<rparr>)
     in (h, q\<lparr>sq_top := Some node\<rparr>))"

fun stackqPop :: "stackq_mem \<Rightarrow> ptr \<times> stackq_mem" where
  "stackqPop (h, q) =
    (case sq_top q of
       None \<Rightarrow> (None, (h, q))
     | Some t \<Rightarrow>
         let q = q\<lparr>sq_top := sn_under (h t)\<rparr>;
             h = h(t := (h t)\<lparr>sn_under := None\<rparr>)
         in (Some t, (h, q)))"

fun stackqIsEmpty :: "stackq_mem \<Rightarrow> bool" where
  "stackqIsEmpty (h, q) = (sq_top q = None)"

subsection \<open>Refinement to lists\<close>

fun stackq_links :: "(addr \<Rightarrow> stackqNode) \<Rightarrow> addr list \<Rightarrow> bool" where
  "stackq_links h [] = True"
| "stackq_links h (x # xs) = (sn_under (h x) = opt_hd xs \<and> stackq_links h xs)"

fun stackq_rep :: "stackq_mem \<Rightarrow> addr list \<Rightarrow> bool" where
  "stackq_rep (h, q) xs = (distinct xs \<and> sq_top q = opt_hd xs \<and> stackq_links h xs)"

lemma stackq_links_frame [simp]:
  "a \<notin> set xs \<Longrightarrow> stackq_links (h(a := v)) xs = stackq_links h xs"
  by (induction xs) auto

lemma stackq_push_rep:
  "stackq_rep m xs \<Longrightarrow> a \<notin> set xs \<Longrightarrow> stackq_rep (stackqPush m a) (a # xs)"
  by (cases m) (simp add: Let_def)

lemma stackq_pop_nil: "stackq_rep m [] \<Longrightarrow> stackqPop m = (None, m)"
  by (cases m) simp

lemma stackq_pop_cons:
  "stackq_rep m (a # xs) \<Longrightarrow> fst (stackqPop m) = Some a \<and> stackq_rep (snd (stackqPop m)) xs"
  by (cases m) (simp add: Let_def)

lemma stackq_empty: "stackq_rep m xs \<Longrightarrow> stackqIsEmpty m = (xs = [])"
  by (cases m) simp

lemma stackq_distinct: "stackq_rep m xs \<Longrightarrow> distinct xs"
  by (cases m) simp

interpretation stackq: lifo_stack stackq_rep stackqPush stackqPop stackqIsEmpty
  by unfold_locales
    (simp_all add: stackq_push_rep stackq_pop_nil stackq_pop_cons stackq_empty stackq_distinct)

text \<open>A popped node's link is cleared, whatever the stack held.\<close>

lemma stackq_pop_clears:
  "fst (stackqPop (h, q)) = Some a \<Longrightarrow> sn_under (fst (snd (stackqPop (h, q))) a) = None"
  by (auto simp: Let_def split: option.splits)

end
