(* ===== verification/Sq.thy ===== *)
theory Sq
  imports Containers
begin

text \<open>
  \<^verbatim>\<open>include/lib/dsa/sq.h\<close>: the singly linked intrusive queue. The heap maps node addresses to
  the link field \<open>next\<close>. The queue is refined to the list of its nodes from front to back, and
  interprets \<open>fifo_queue\<close>.
\<close>

record sqListNode =
  sqn_next :: ptr

record sq =
  sqq_front :: ptr
  sqq_back :: ptr

type_synonym sq_mem = "(addr \<Rightarrow> sqListNode) \<times> sq"

fun sqInit :: "sq_mem \<Rightarrow> sq_mem" where
  "sqInit (h, q) = (h, q\<lparr>sqq_front := None, sqq_back := None\<rparr>)"

fun sqPushBack :: "sq_mem \<Rightarrow> addr \<Rightarrow> sq_mem" where
  "sqPushBack (h, q) node =
    (let h = h(node := (h node)\<lparr>sqn_next := None\<rparr>)
     in case sqq_back q of
          Some b \<Rightarrow> (h(b := (h b)\<lparr>sqn_next := Some node\<rparr>), q\<lparr>sqq_back := Some node\<rparr>)
        | None \<Rightarrow> (h, q\<lparr>sqq_back := Some node, sqq_front := Some node\<rparr>))"

fun sqPushFront :: "sq_mem \<Rightarrow> addr \<Rightarrow> sq_mem" where
  "sqPushFront (h, q) node =
    (let h = h(node := (h node)\<lparr>sqn_next := sqq_front q\<rparr>);
         q = q\<lparr>sqq_front := Some node\<rparr>
     in (h, if sqn_next (h node) = None then q\<lparr>sqq_back := Some node\<rparr> else q))"

fun sqPopFront :: "sq_mem \<Rightarrow> ptr \<times> sq_mem" where
  "sqPopFront (h, q) =
    (case sqq_front q of
       None \<Rightarrow> (None, (h, q))
     | Some f \<Rightarrow>
         let q = q\<lparr>sqq_front := sqn_next (h f)\<rparr>
         in if sqq_front q \<noteq> None
            then (Some f, (h(f := (h f)\<lparr>sqn_next := None\<rparr>), q))
            else (Some f, (h, q\<lparr>sqq_back := None\<rparr>)))"

fun sqInsert :: "sq_mem \<Rightarrow> ptr \<Rightarrow> addr \<Rightarrow> sq_mem" where
  "sqInsert (h, q) prev node =
    (case prev of
       None \<Rightarrow> sqPushFront (h, q) node
     | Some p \<Rightarrow>
         (case sqn_next (h p) of
            None \<Rightarrow> sqPushBack (h, q) node
          | Some nxt \<Rightarrow>
              let h = h(p := (h p)\<lparr>sqn_next := Some node\<rparr>);
                  h = h(node := (h node)\<lparr>sqn_next := Some nxt\<rparr>)
              in (h, q)))"

fun sqIsEmpty :: "sq_mem \<Rightarrow> bool" where
  "sqIsEmpty (h, q) = (sqq_front q = None)"

subsection \<open>Refinement to lists\<close>

text \<open>\<open>sq_links h xs n\<close>: the nodes \<open>xs\<close> are linked in order, the last one to \<open>n\<close>.\<close>

fun sq_links :: "(addr \<Rightarrow> sqListNode) \<Rightarrow> addr list \<Rightarrow> ptr \<Rightarrow> bool" where
  "sq_links h [] n = True"
| "sq_links h (x # xs) n =
    (sqn_next (h x) = (case xs of [] \<Rightarrow> n | y # _ \<Rightarrow> Some y) \<and> sq_links h xs n)"

fun sq_rep :: "sq_mem \<Rightarrow> addr list \<Rightarrow> bool" where
  "sq_rep (h, q) xs =
    (distinct xs \<and> sqq_front q = opt_hd xs \<and> sqq_back q = opt_last xs \<and> sq_links h xs None)"

lemma sq_links_frame [simp]:
  "a \<notin> set xs \<Longrightarrow> sq_links (h(a := v)) xs n = sq_links h xs n"
  by (induction xs) auto

lemma sq_links_append:
  "sq_links h (xs @ ys) n =
    (sq_links h xs (case ys of [] \<Rightarrow> n | y # _ \<Rightarrow> Some y) \<and> sq_links h ys n)"
  by (induction xs) (auto split: list.splits)

lemma sq_push_back_rep:
  assumes "sq_rep m xs" and "a \<notin> set xs"
  shows "sq_rep (sqPushBack m a) (xs @ [a])"
proof (cases m)
  case (Pair h q)
  show ?thesis
  proof (cases xs rule: rev_cases)
    case Nil
    then show ?thesis using assms Pair by (simp add: Let_def)
  next
    case (snoc ys y)
    then show ?thesis using assms Pair
      by (auto simp: Let_def sq_links_append opt_hd_append)
  qed
qed

lemma sq_push_front_rep:
  "sq_rep m xs \<Longrightarrow> a \<notin> set xs \<Longrightarrow> sq_rep (sqPushFront m a) (a # xs)"
  by (cases m; cases xs) (auto simp: Let_def)

lemma sq_pop_nil: "sq_rep m [] \<Longrightarrow> sqPopFront m = (None, m)"
  by (cases m) simp

lemma sq_pop_cons:
  "sq_rep m (a # xs) \<Longrightarrow> fst (sqPopFront m) = Some a \<and> sq_rep (snd (sqPopFront m)) xs"
  by (cases m; cases xs) (auto simp: Let_def)

lemma sq_empty: "sq_rep m xs \<Longrightarrow> sqIsEmpty m = (xs = [])"
  by (cases m) simp

lemma sq_distinct: "sq_rep m xs \<Longrightarrow> distinct xs"
  by (cases m) simp

interpretation sq: fifo_queue sq_rep sqInit sqPushBack sqPopFront sqIsEmpty
  by unfold_locales
    (auto simp: sq_push_back_rep sq_pop_nil sq_pop_cons sq_empty sq_distinct)

lemma sq_insert_front: "sqInsert m None a = sqPushFront m a"
  by (cases m) simp

lemma sq_insert_after:
  assumes "sq_rep m (xs @ p # ys)" and "a \<notin> set (xs @ p # ys)"
  shows "sq_rep (sqInsert m (Some p) a) (xs @ p # a # ys)"
proof (cases m)
  case (Pair h q)
  show ?thesis
  proof (cases ys)
    case Nil
    have "sqn_next (h p) = None"
      using assms Nil Pair by (simp add: sq_links_append)
    then show ?thesis
      using sq_push_back_rep[OF assms] Nil Pair by simp
  next
    case (Cons y zs)
    then show ?thesis using assms Pair
      by (auto simp: Let_def sq_links_append opt_hd_append opt_last_append split: list.splits)
  qed
qed

end
