(* ===== verification/Dq.thy ===== *)
theory Dq
  imports Containers
begin

text \<open>
  \<^verbatim>\<open>include/lib/dsa/dq.h\<close>: the doubly linked intrusive queue. The heap maps node addresses to
  the two link fields. The queue is refined to the list of its nodes from front to back: every
  operation of the header, the removal from the middle included, is the expected list
  operation. It interprets both \<open>fifo_queue\<close> and \<open>lifo_stack\<close>.
\<close>

record dqListNode =
  dqn_next :: ptr
  dqn_prev :: ptr

record dq =
  dq_front :: ptr
  dq_back :: ptr

type_synonym dq_mem = "(addr \<Rightarrow> dqListNode) \<times> dq"

text \<open>Assignments through a pointer to a node: \<open>set_next h a p\<close> is \<open>a->next = p\<close>.\<close>

abbreviation set_next :: "(addr \<Rightarrow> dqListNode) \<Rightarrow> addr \<Rightarrow> ptr \<Rightarrow> addr \<Rightarrow> dqListNode" where
  "set_next h a p \<equiv> h(a := (h a)\<lparr>dqn_next := p\<rparr>)"

abbreviation set_prev :: "(addr \<Rightarrow> dqListNode) \<Rightarrow> addr \<Rightarrow> ptr \<Rightarrow> addr \<Rightarrow> dqListNode" where
  "set_prev h a p \<equiv> h(a := (h a)\<lparr>dqn_prev := p\<rparr>)"

fun dqInit :: "dq_mem \<Rightarrow> dq_mem" where
  "dqInit (h, q) = (h, q\<lparr>dq_front := None, dq_back := None\<rparr>)"

fun dqPushBack :: "dq_mem \<Rightarrow> addr \<Rightarrow> dq_mem" where
  "dqPushBack (h, q) node =
    (let h = set_next h node None;
         h = set_prev h node (dq_back q);
         (h, q) = (case dqn_prev (h node) of
                     Some p \<Rightarrow> (set_next h p (Some node), q)
                   | None \<Rightarrow> (h, q\<lparr>dq_front := Some node\<rparr>))
     in (h, q\<lparr>dq_back := Some node\<rparr>))"

fun dqPushFront :: "dq_mem \<Rightarrow> addr \<Rightarrow> dq_mem" where
  "dqPushFront (h, q) node =
    (let h = set_prev h node None;
         h = set_next h node (dq_front q);
         (h, q) = (case dqn_next (h node) of
                     Some n \<Rightarrow> (set_prev h n (Some node), q)
                   | None \<Rightarrow> (h, q\<lparr>dq_back := Some node\<rparr>))
     in (h, q\<lparr>dq_front := Some node\<rparr>))"

fun dqPopFront :: "dq_mem \<Rightarrow> ptr \<times> dq_mem" where
  "dqPopFront (h, q) =
    (case dq_front q of
       None \<Rightarrow> (None, (h, q))
     | Some node \<Rightarrow>
         let q = q\<lparr>dq_front := dqn_next (h node)\<rparr>
         in case dqn_next (h node) of
              Some n \<Rightarrow> (Some node, (set_next (set_prev h n None) node None, q))
            | None \<Rightarrow> (Some node, (h, q\<lparr>dq_back := None\<rparr>)))"

fun dqPopBack :: "dq_mem \<Rightarrow> ptr \<times> dq_mem" where
  "dqPopBack (h, q) =
    (case dq_back q of
       None \<Rightarrow> (None, (h, q))
     | Some node \<Rightarrow>
         let q = q\<lparr>dq_back := dqn_prev (h node)\<rparr>
         in case dqn_prev (h node) of
              Some p \<Rightarrow> (Some node, (set_prev (set_next h p None) node None, q))
            | None \<Rightarrow> (Some node, (h, q\<lparr>dq_front := None\<rparr>)))"

fun dqInsertPrev :: "dq_mem \<Rightarrow> ptr \<Rightarrow> addr \<Rightarrow> dq_mem" where
  "dqInsertPrev (h, q) prev node =
    (case prev of
       None \<Rightarrow> dqPushFront (h, q) node
     | Some p \<Rightarrow>
         (case dqn_next (h p) of
            None \<Rightarrow> dqPushBack (h, q) node
          | Some n \<Rightarrow>
              let h = set_next h p (Some node);
                  h = set_prev h n (Some node);
                  h = set_prev h node (Some p);
                  h = set_next h node (Some n)
              in (h, q)))"

fun dqInsertNext :: "dq_mem \<Rightarrow> ptr \<Rightarrow> addr \<Rightarrow> dq_mem" where
  "dqInsertNext (h, q) nxt node =
    (case nxt of
       None \<Rightarrow> dqPushBack (h, q) node
     | Some n \<Rightarrow>
         (case dqn_prev (h n) of
            None \<Rightarrow> dqPushFront (h, q) node
          | Some p \<Rightarrow>
              let h = set_next h p (Some node);
                  h = set_prev h n (Some node);
                  h = set_prev h node (Some p);
                  h = set_next h node (Some n)
              in (h, q)))"

fun dqDequeue :: "dq_mem \<Rightarrow> addr \<Rightarrow> dq_mem" where
  "dqDequeue (h, q) node =
    (let prev = dqn_prev (h node);
         nxt = dqn_next (h node);
         (h, q) = (case prev of
                     Some p \<Rightarrow> (set_next h p nxt, q)
                   | None \<Rightarrow> (h, q\<lparr>dq_front := nxt\<rparr>));
         (h, q) = (case nxt of
                     Some n \<Rightarrow> (set_prev h n prev, q)
                   | None \<Rightarrow> (h, q\<lparr>dq_back := prev\<rparr>));
         h = set_prev h node None;
         h = set_next h node None
     in (h, q))"

fun dqIsEmpty :: "dq_mem \<Rightarrow> bool" where
  "dqIsEmpty (h, q) = (dq_front q = None)"

subsection \<open>Refinement to lists\<close>

text \<open>
  \<open>dq_links h p xs n\<close>: the nodes \<open>xs\<close> are linked in order in both directions, the first one
  back to \<open>p\<close>, the last one on to \<open>n\<close>.
\<close>

fun dq_links :: "(addr \<Rightarrow> dqListNode) \<Rightarrow> ptr \<Rightarrow> addr list \<Rightarrow> ptr \<Rightarrow> bool" where
  "dq_links h p [] n = True"
| "dq_links h p (x # xs) n =
    (dqn_prev (h x) = p \<and> dqn_next (h x) = (case xs of [] \<Rightarrow> n | y # _ \<Rightarrow> Some y)
     \<and> dq_links h (Some x) xs n)"

fun dq_rep :: "dq_mem \<Rightarrow> addr list \<Rightarrow> bool" where
  "dq_rep (h, q) xs =
    (distinct xs \<and> dq_front q = opt_hd xs \<and> dq_back q = opt_last xs
     \<and> dq_links h None xs None)"

lemma dq_links_frame [simp]:
  "a \<notin> set xs \<Longrightarrow> dq_links (h(a := v)) p xs n = dq_links h p xs n"
  by (induction xs arbitrary: p) auto

lemma dq_links_append:
  "dq_links h p (xs @ ys) n =
    (dq_links h p xs (case ys of [] \<Rightarrow> n | y # _ \<Rightarrow> Some y)
     \<and> dq_links h (if xs = [] then p else opt_last xs) ys n)"
  by (induction xs arbitrary: p) (auto simp: opt_last_def split: list.splits)

lemma dq_push_back_rep:
  assumes "dq_rep m xs" and "a \<notin> set xs"
  shows "dq_rep (dqPushBack m a) (xs @ [a])"
proof (cases m)
  case (Pair h q)
  show ?thesis
  proof (cases xs rule: rev_cases)
    case Nil
    then show ?thesis using assms Pair by (simp add: Let_def)
  next
    case (snoc ys y)
    then show ?thesis using assms Pair
      by (auto simp: Let_def dq_links_append opt_hd_append)
  qed
qed

lemma dq_push_front_rep:
  "dq_rep m xs \<Longrightarrow> a \<notin> set xs \<Longrightarrow> dq_rep (dqPushFront m a) (a # xs)"
  by (cases m; cases xs) (auto simp: Let_def)

lemma dq_pop_front_nil: "dq_rep m [] \<Longrightarrow> dqPopFront m = (None, m)"
  by (cases m) simp

lemma dq_pop_front_cons:
  "dq_rep m (a # xs) \<Longrightarrow> fst (dqPopFront m) = Some a \<and> dq_rep (snd (dqPopFront m)) xs"
  by (cases m; cases xs) (auto simp: Let_def)

lemma dq_pop_back_nil: "dq_rep m [] \<Longrightarrow> dqPopBack m = (None, m)"
  by (cases m) simp

lemma dq_pop_back_snoc:
  assumes "dq_rep m (xs @ [a])"
  shows "fst (dqPopBack m) = Some a \<and> dq_rep (snd (dqPopBack m)) xs"
proof (cases m)
  case (Pair h q)
  show ?thesis
  proof (cases xs rule: rev_cases)
    case Nil
    then show ?thesis using assms Pair by (simp add: Let_def)
  next
    case (snoc ys y)
    then show ?thesis using assms Pair
      by (auto simp: Let_def dq_links_append opt_hd_append)
  qed
qed

lemma dq_empty: "dq_rep m xs \<Longrightarrow> dqIsEmpty m = (xs = [])"
  by (cases m) simp

lemma dq_distinct: "dq_rep m xs \<Longrightarrow> distinct xs"
  by (cases m) simp

interpretation dq: fifo_queue dq_rep dqInit dqPushBack dqPopFront dqIsEmpty
  by unfold_locales
    (auto simp: dq_push_back_rep dq_pop_front_nil dq_pop_front_cons dq_empty dq_distinct)

interpretation dq_stack: lifo_stack dq_rep dqPushFront dqPopFront dqIsEmpty
  by unfold_locales
    (auto simp: dq_push_front_rep dq_pop_front_nil dq_pop_front_cons dq_empty dq_distinct)

text \<open>Insertion after \<open>p\<close> (the header calls it \<open>dqInsertPrev\<close>: \<open>p\<close> becomes the predecessor).\<close>

lemma dq_insert_prev_front: "dqInsertPrev m None a = dqPushFront m a"
  by (cases m) simp

lemma dq_insert_prev_rep:
  assumes "dq_rep m (xs @ p # ys)" and "a \<notin> set (xs @ p # ys)"
  shows "dq_rep (dqInsertPrev m (Some p) a) (xs @ p # a # ys)"
proof (cases m)
  case (Pair h q)
  show ?thesis
  proof (cases ys)
    case Nil
    have "dqn_next (h p) = None"
      using assms Nil Pair by (simp add: dq_links_append)
    then show ?thesis using dq_push_back_rep[OF assms] Nil Pair by simp
  next
    case (Cons y zs)
    then show ?thesis using assms Pair
      by (auto simp: Let_def dq_links_append opt_hd_append opt_last_append split: list.splits)
  qed
qed

lemma dq_insert_next_rep:
  assumes "dq_rep m (xs @ n # ys)" and "a \<notin> set (xs @ n # ys)"
  shows "dq_rep (dqInsertNext m (Some n) a) (xs @ a # n # ys)"
proof (cases m)
  case (Pair h q)
  show ?thesis
  proof (cases xs rule: rev_cases)
    case Nil
    have "dqn_prev (h n) = None"
      using assms Nil Pair by simp
    then show ?thesis using dq_push_front_rep[OF assms] Nil Pair by simp
  next
    case (snoc zs z)
    then show ?thesis using assms Pair
      by (auto simp: Let_def dq_links_append opt_hd_append opt_last_append split: list.splits)
  qed
qed

lemma dq_dequeue_rep:
  assumes "dq_rep m (xs @ a # ys)"
  shows "dq_rep (dqDequeue m a) (xs @ ys)"
proof (cases m)
  case (Pair h q)
  show ?thesis
    using assms Pair
    by (cases xs rule: rev_cases; cases ys)
      (auto simp: Let_def dq_links_append opt_hd_append opt_last_append split: list.splits)
qed

lemma dq_dequeue_clears:
  "dqn_next (fst (dqDequeue m a) a) = None \<and> dqn_prev (fst (dqDequeue m a) a) = None"
  by (cases m) (auto simp: Let_def split: option.splits prod.splits)

text \<open>
  Nothing in \<open>dqDequeue\<close> checks that the node is queued: a node whose links are both \<open>NULL\<close>
  empties the queue it is removed from. The callers must only remove queued nodes.
\<close>

lemma dq_dequeue_unlinked:
  "dqn_next (h a) = None \<Longrightarrow> dqn_prev (h a) = None \<Longrightarrow> dqIsEmpty (dqDequeue (h, q) a)"
  by (simp add: Let_def)

end
