(* ===== verification/DeltaChain.thy ===== *)
theory DeltaChain
  imports Dq
begin

text \<open>
  \<^verbatim>\<open>include/lib/dsa/deltaChain.h\<close>: the timer queue of the kernel. Each node stores the number
  of ticks between its predecessor's expiry and its own. The operations are given twice: here
  on the list of queued nodes (the level the kernel model uses), and in the theory
  \<open>DeltaChainPtr\<close> on linked nodes in memory, which refine these. The chain is specified by its
  \<open>timers\<close>: the queued nodes with the ticks that remain until each expires.
\<close>

record deltaNode =
  expectedEpoch :: u32
  delta :: u32

record deltaChain =
  currentEpoch :: u32
  chain_dq :: "addr list"

type_synonym nodes = "addr \<Rightarrow> deltaNode"

definition deltaChainInit :: "deltaChain \<Rightarrow> deltaChain" where
  "deltaChainInit chain = chain\<lparr>chain_dq := []\<rparr>"

text \<open>
  The walk of \<open>deltaChainInsert\<close>: past every node whose delta is at most what is left of
  \<open>d\<close>, then the node goes in, and its successor's delta shrinks by what was left.
\<close>

fun insert_walk :: "nodes \<Rightarrow> addr \<Rightarrow> u32 \<Rightarrow> addr list \<Rightarrow> nodes \<times> u32 \<times> addr list" where
  "insert_walk ns node d [] = (ns, d, [node])"
| "insert_walk ns node d (c # cs) =
    (if delta (ns c) > d
     then (ns(c := (ns c)\<lparr>delta := delta (ns c) - d\<rparr>), d, node # c # cs)
     else case insert_walk ns node (d - delta (ns c)) cs of
            (ns', d', cs') \<Rightarrow> (ns', d', c # cs'))"

definition deltaChainInsert :: "nodes \<Rightarrow> deltaChain \<Rightarrow> addr \<Rightarrow> u32 \<Rightarrow> nodes \<times> deltaChain" where
  "deltaChainInsert ns chain node d =
    (let ns = ns(node := (ns node)\<lparr>expectedEpoch := currentEpoch chain + d\<rparr>)
     in case insert_walk ns node d (chain_dq chain) of
          (ns, d, dq) \<Rightarrow> (ns(node := (ns node)\<lparr>delta := d\<rparr>), chain\<lparr>chain_dq := dq\<rparr>))"

fun tick_walk :: "nodes \<Rightarrow> addr list \<Rightarrow> nodes" where
  "tick_walk ns [] = ns"
| "tick_walk ns (c # cs) =
    (if delta (ns c) \<noteq> 0 then ns(c := (ns c)\<lparr>delta := delta (ns c) - 1\<rparr>) else tick_walk ns cs)"

definition deltaChainTick :: "nodes \<Rightarrow> deltaChain \<Rightarrow> nodes \<times> deltaChain" where
  "deltaChainTick ns chain =
    (tick_walk ns (chain_dq chain), chain\<lparr>currentEpoch := currentEpoch chain + 1\<rparr>)"

definition deltaChainPopExpired :: "nodes \<Rightarrow> deltaChain \<Rightarrow> ptr \<times> deltaChain" where
  "deltaChainPopExpired ns chain =
    (case chain_dq chain of
       [] \<Rightarrow> (None, chain)
     | c # cs \<Rightarrow> if delta (ns c) > 0 then (None, chain) else (Some c, chain\<lparr>chain_dq := cs\<rparr>))"

definition deltaChainPop :: "nodes \<Rightarrow> deltaChain \<Rightarrow> ptr \<times> nodes \<times> deltaChain" where
  "deltaChainPop ns chain =
    (case chain_dq chain of
       [] \<Rightarrow> (None, ns, chain)
     | [c] \<Rightarrow> (Some c, ns, chain\<lparr>chain_dq := []\<rparr>)
     | c # n # cs \<Rightarrow>
         (Some c, ns(n := (ns n)\<lparr>delta := delta (ns n) + delta (ns c)\<rparr>),
          chain\<lparr>chain_dq := n # cs\<rparr>))"

definition deltaChainIsEmpty :: "deltaChain \<Rightarrow> bool" where
  "deltaChainIsEmpty chain = (chain_dq chain = [])"

definition deltaChainPeek :: "deltaChain \<Rightarrow> ptr" where
  "deltaChainPeek chain = opt_hd (chain_dq chain)"

definition deltaChainTimeUntil :: "nodes \<Rightarrow> deltaChain \<Rightarrow> addr \<Rightarrow> u32" where
  "deltaChainTimeUntil ns chain node = expectedEpoch (ns node) - currentEpoch chain"

subsection \<open>The timers of a chain\<close>

fun timers :: "nodes \<Rightarrow> nat \<Rightarrow> addr list \<Rightarrow> (addr \<times> nat) list" where
  "timers ns acc [] = []"
| "timers ns acc (c # cs) =
    (c, acc + unat (delta (ns c))) # timers ns (acc + unat (delta (ns c))) cs"

definition chain_timers :: "nodes \<Rightarrow> deltaChain \<Rightarrow> (addr \<times> nat) list" where
  "chain_timers ns chain = timers ns 0 (chain_dq chain)"

definition delta_sum :: "nodes \<Rightarrow> addr list \<Rightarrow> nat" where
  "delta_sum ns cs = sum_list (map (\<lambda>c. unat (delta (ns c))) cs)"

text \<open>No node is queued twice, and the last expiry is within 32 bits.\<close>

definition chain_wf :: "nodes \<Rightarrow> deltaChain \<Rightarrow> bool" where
  "chain_wf ns chain = (distinct (chain_dq chain) \<and> delta_sum ns (chain_dq chain) < 2 ^ 32)"

text \<open>Insertion behind every timer that expires no later: ties are first in, first out.\<close>

fun insert_timer :: "addr \<times> nat \<Rightarrow> (addr \<times> nat) list \<Rightarrow> (addr \<times> nat) list" where
  "insert_timer t [] = [t]"
| "insert_timer t (s # ss) = (if snd s > snd t then t # s # ss else s # insert_timer t ss)"

text \<open>The stored epoch of every timer that still runs is the epoch of its expiry.\<close>

definition epochs_ok :: "nodes \<Rightarrow> deltaChain \<Rightarrow> bool" where
  "epochs_ok ns chain = list_all (\<lambda>(c, r). r > 0 \<longrightarrow>
     expectedEpoch (ns c) = currentEpoch chain + word_of_nat r) (chain_timers ns chain)"

lemma delta_sum_simps [simp]:
  "delta_sum ns [] = 0" "delta_sum ns (c # cs) = unat (delta (ns c)) + delta_sum ns cs"
  by (simp_all add: delta_sum_def)

lemma map_fst_timers [simp]: "map fst (timers ns acc cs) = cs"
  by (induction cs arbitrary: acc) auto

lemma timers_fst_in: "(c, r) \<in> set (timers ns acc cs) \<Longrightarrow> c \<in> set cs"
  by (metis image_eqI fst_conv list.set_map map_fst_timers)

lemma timers_frame [simp]: "c \<notin> set cs \<Longrightarrow> timers (ns(c := v)) acc cs = timers ns acc cs"
  by (induction cs arbitrary: acc) auto

lemma delta_sum_frame [simp]: "c \<notin> set cs \<Longrightarrow> delta_sum (ns(c := v)) cs = delta_sum ns cs"
  by (induction cs) auto

lemma timers_cong:
  "(\<And>c. c \<in> set cs \<Longrightarrow> delta (ns c) = delta (ns' c)) \<Longrightarrow> timers ns acc cs = timers ns' acc cs"
  by (induction cs arbitrary: acc) auto

lemma delta_sum_cong:
  "(\<And>c. c \<in> set cs \<Longrightarrow> delta (ns c) = delta (ns' c)) \<Longrightarrow> delta_sum ns cs = delta_sum ns' cs"
  by (induction cs) auto

lemma timers_epoch_upd [simp]:
  "timers (ns(c := (ns c)\<lparr>expectedEpoch := e\<rparr>)) acc cs = timers ns acc cs"
  by (induction cs arbitrary: acc) auto

lemma delta_sum_epoch_upd [simp]:
  "delta_sum (ns(c := (ns c)\<lparr>expectedEpoch := e\<rparr>)) cs = delta_sum ns cs"
  by (induction cs) auto

lemma timers_bounds:
  "(c, r) \<in> set (timers ns acc cs) \<Longrightarrow> acc \<le> r \<and> r \<le> acc + delta_sum ns cs"
proof (induction cs arbitrary: acc)
  case (Cons x xs)
  then show ?case by fastforce
qed simp

lemma timers_sorted: "sorted (map snd (timers ns acc cs))"
proof (induction cs arbitrary: acc)
  case (Cons c cs)
  then show ?case using timers_bounds[of _ _ ns "acc + unat (delta (ns c))" cs] by force
qed simp

subsection \<open>Insertion\<close>

lemma insert_walk_list:
  "insert_walk ns node d cs = (ns', d', cs') \<Longrightarrow>
    \<exists>xs ys. cs = xs @ ys \<and> cs' = xs @ node # ys \<and> d' \<le> d"
proof (induction cs arbitrary: ns d ns' d' cs')
  case (Cons c cs)
  show ?case
  proof (cases "delta (ns c) > d")
    case True
    then show ?thesis using Cons.prems by (intro exI[of _ "[]"] exI[of _ "c # cs"]) auto
  next
    case False
    then obtain cs'' where step: "insert_walk ns node (d - delta (ns c)) cs = (ns', d', cs'')"
        "cs' = c # cs''"
      using Cons.prems by (auto split: prod.splits)
    obtain xs ys where "cs = xs @ ys" "cs'' = xs @ node # ys" "d' \<le> d - delta (ns c)"
      using Cons.IH[OF step(1)] by blast
    moreover have "d - delta (ns c) \<le> d" using False by (simp add: word_sub_le)
    ultimately show ?thesis using step by (intro exI[of _ "c # xs"] exI[of _ ys]) auto
  qed
qed auto

lemma insert_walk_other:
  "insert_walk ns node d cs = (ns', d', cs') \<Longrightarrow> c \<notin> set cs \<Longrightarrow> ns' c = ns c"
  by (induction cs arbitrary: ns d ns' d' cs') (auto split: if_splits prod.splits)

lemma insert_walk_epoch:
  "insert_walk ns node d cs = (ns', d', cs') \<Longrightarrow> expectedEpoch (ns' c) = expectedEpoch (ns c)"
  by (induction cs arbitrary: ns d ns' d' cs') (auto split: if_splits prod.splits)

lemma insert_walk_timers:
  "insert_walk ns node d cs = (ns', d', cs') \<Longrightarrow> distinct cs \<Longrightarrow> node \<notin> set cs \<Longrightarrow>
   timers (ns'(node := (ns' node)\<lparr>delta := d'\<rparr>)) acc cs'
     = insert_timer (node, acc + unat d) (timers ns acc cs)
   \<and> delta_sum (ns'(node := (ns' node)\<lparr>delta := d'\<rparr>)) cs' = max (unat d) (delta_sum ns cs)"
proof (induction cs arbitrary: ns d ns' d' cs' acc)
  case (Cons c cs)
  show ?case
  proof (cases "delta (ns c) > d")
    case True
    then have lt: "unat d < unat (delta (ns c))" by (simp add: word_less_nat_alt)
    have sub: "unat (delta (ns c) - d) = unat (delta (ns c)) - unat d"
      using True by (simp add: unat_sub_le)
    show ?thesis using Cons.prems True lt sub
      by (auto intro!: timers_cong delta_sum_cong)
  next
    case False
    then obtain cs'' where step: "insert_walk ns node (d - delta (ns c)) cs = (ns', d', cs'')"
        "cs' = c # cs''"
      using Cons.prems by (auto split: prod.splits)
    have le: "unat (delta (ns c)) \<le> unat d" using False by (simp add: word_less_nat_alt)
    have sub: "unat (d - delta (ns c)) = unat d - unat (delta (ns c))"
      using False by (simp add: unat_sub_le)
    have "ns' c = ns c" using insert_walk_other[OF step(1)] Cons.prems by simp
    then show ?thesis
      using Cons.IH[OF step(1), of "acc + unat (delta (ns c))"] Cons.prems le sub step by auto
  qed
qed auto

theorem deltaChainInsert_frame [frame_simps]:
  assumes "deltaChainInsert ns chain node d = (ns', chain')"
  shows "c \<noteq> node \<Longrightarrow> c \<notin> set (chain_dq chain) \<Longrightarrow> ns' c = ns c"
    and "currentEpoch chain' = currentEpoch chain"
    and "expectedEpoch (ns' node) = currentEpoch chain + d"
    and "c \<noteq> node \<Longrightarrow> expectedEpoch (ns' c) = expectedEpoch (ns c)"
  using assms
  by (auto simp: deltaChainInsert_def Let_def insert_walk_epoch split: prod.splits
      dest: insert_walk_other[where c = c])

lemma deltaChainInsert_set:
  assumes "deltaChainInsert ns chain node d = (ns', chain')"
  shows "set (chain_dq chain') = insert node (set (chain_dq chain))"
    and "distinct (chain_dq chain) \<Longrightarrow> node \<notin> set (chain_dq chain) \<Longrightarrow> distinct (chain_dq chain')"
  using assms by (auto simp: deltaChainInsert_def Let_def split: prod.splits dest!: insert_walk_list)

lemma deltaChainInsert_spec:
  assumes "deltaChainInsert ns chain node d = (ns', chain')"
    and "chain_wf ns chain" and "node \<notin> set (chain_dq chain)"
  shows "chain_timers ns' chain' = insert_timer (node, unat d) (chain_timers ns chain)"
    and "chain_wf ns' chain'"
proof -
  let ?ns = "ns(node := (ns node)\<lparr>expectedEpoch := currentEpoch chain + d\<rparr>)"
  obtain ns1 d1 dq1 where w: "insert_walk ?ns node d (chain_dq chain) = (ns1, d1, dq1)"
    by (cases "insert_walk ?ns node d (chain_dq chain)") auto
  have r: "ns' = ns1(node := (ns1 node)\<lparr>delta := d1\<rparr>)" "chain' = chain\<lparr>chain_dq := dq1\<rparr>"
    using assms(1) w by (auto simp: deltaChainInsert_def Let_def)
  have wf: "distinct (chain_dq chain)" "delta_sum ns (chain_dq chain) < 2 ^ 32"
    using assms(2) by (auto simp: chain_wf_def)
  note t = insert_walk_timers[OF w wf(1) assms(3), of 0]
  show "chain_timers ns' chain' = insert_timer (node, unat d) (chain_timers ns chain)"
    using t r by (simp add: chain_timers_def)
  have "distinct dq1"
    using insert_walk_list[OF w] wf(1) assms(3) by auto
  moreover have "delta_sum ns' dq1 < 2 ^ 32"
    using t r wf(2) unat_less_exp[of d] by simp
  ultimately show "chain_wf ns' chain'" using r by (simp add: chain_wf_def)
qed

lemma insert_timer_set: "set (insert_timer t ts) = insert t (set ts)"
  by (induction ts) auto

lemma deltaChainInsert_epochs:
  assumes "deltaChainInsert ns chain node d = (ns', chain')"
    and "chain_wf ns chain" and "node \<notin> set (chain_dq chain)" and "epochs_ok ns chain"
  shows "epochs_ok ns' chain'"
proof -
  note t = deltaChainInsert_spec(1)[OF assms(1-3)]
  have "c \<noteq> node" if "(c, r) \<in> set (chain_timers ns chain)" for c r
    using that timers_fst_in assms(3) by (auto simp: chain_timers_def)
  then show ?thesis
    using assms(4) deltaChainInsert_frame(2-4)[OF assms(1)]
    by (fastforce simp: epochs_ok_def list_all_iff t insert_timer_set)
qed

subsection \<open>Ticks\<close>

lemma tick_walk_other: "c \<notin> set cs \<Longrightarrow> tick_walk ns cs c = ns c"
  by (induction cs) auto

lemma tick_walk_epoch [simp]: "expectedEpoch (tick_walk ns cs c) = expectedEpoch (ns c)"
  by (induction cs) auto

lemma timers_shift: "timers ns (acc + k) cs = map (apsnd (\<lambda>r. r + k)) (timers ns acc cs)"
proof (induction cs arbitrary: acc)
  case (Cons c cs)
  have "acc + k + unat (delta (ns c)) = acc + unat (delta (ns c)) + k" by simp
  note e = Cons[of "acc + unat (delta (ns c))", folded this]
  show ?case by (simp add: e)
qed simp

lemma tick_walk_timers:
  "distinct cs \<Longrightarrow> timers (tick_walk ns cs) 0 cs = map (apsnd (\<lambda>r. r - 1)) (timers ns 0 cs)
   \<and> delta_sum (tick_walk ns cs) cs \<le> delta_sum ns cs"
proof (induction cs)
  case (Cons c cs)
  show ?case
  proof (cases "delta (ns c) = 0")
    case True
    then show ?thesis using Cons by (simp add: tick_walk_other)
  next
    case False
    then have pos: "0 < unat (delta (ns c))" by (simp add: unat_gt_0)
    then have pred: "unat (delta (ns c) - 1) = unat (delta (ns c)) - 1"
      using False by (simp add: unat_pred_pos word_greater_zero_iff)
    have "timers ns (unat (delta (ns c)) - 1) cs
        = map (apsnd (\<lambda>r. r - 1)) (timers ns (unat (delta (ns c)) - 1 + 1) cs)"
      by (subst timers_shift) (simp add: o_def apsnd_compose flip: id_def)
    then show ?thesis using False Cons.prems pos pred
      by (simp add: fun_upd_same del: fun_upd_apply)
  qed
qed simp

lemma deltaChainTick_spec:
  assumes "deltaChainTick ns chain = (ns', chain')" and "chain_wf ns chain"
  shows "chain_timers ns' chain' = map (apsnd (\<lambda>r. r - 1)) (chain_timers ns chain)"
    and "chain_wf ns' chain'"
    and "chain_dq chain' = chain_dq chain"
  using assms tick_walk_timers[of "chain_dq chain" ns]
  by (auto simp: deltaChainTick_def chain_timers_def chain_wf_def)

lemma deltaChainTick_epochs:
  assumes "deltaChainTick ns chain = (ns', chain')" and "chain_wf ns chain" and "epochs_ok ns chain"
  shows "epochs_ok ns' chain'"
proof -
  note t = deltaChainTick_spec(1)[OF assms(1,2)]
  have c: "currentEpoch chain' = currentEpoch chain + 1" "\<And>c. expectedEpoch (ns' c) = expectedEpoch (ns c)"
    using assms(1) by (auto simp: deltaChainTick_def)
  have "expectedEpoch (ns c) = currentEpoch chain + 1 + word_of_nat (r - 1)"
    if "(c, r) \<in> set (chain_timers ns chain)" "0 < r - 1" for c r
  proof -
    have "expectedEpoch (ns c) = currentEpoch chain + word_of_nat (Suc (r - 1))"
      using that assms(3) by (auto simp: epochs_ok_def list_all_iff)
    then show ?thesis by simp
  qed
  then show ?thesis by (force simp: epochs_ok_def list_all_iff t c)
qed

subsection \<open>Removal at the front\<close>

lemma deltaChainPopExpired_spec:
  assumes "deltaChainPopExpired ns chain = (r, chain')"
  shows "r = None \<Longrightarrow> chain' = chain \<and> (chain_timers ns chain = [] \<or> 0 < snd (hd (chain_timers ns chain)))"
    and "r = Some c \<Longrightarrow> chain_timers ns chain = (c, 0) # chain_timers ns chain'
           \<and> chain_dq chain = c # chain_dq chain' \<and> currentEpoch chain' = currentEpoch chain"
  using assms
  by (auto simp: deltaChainPopExpired_def chain_timers_def unat_gt_0 word_greater_zero_iff
      split: list.splits if_splits)

lemma deltaChainPopExpired_wf:
  assumes "deltaChainPopExpired ns chain = (r, chain')" and "chain_wf ns chain"
  shows "chain_wf ns chain'"
  using assms by (auto simp: deltaChainPopExpired_def chain_wf_def split: list.splits if_splits)

lemma deltaChainPop_spec:
  assumes "deltaChainPop ns chain = (r, ns', chain')" and "chain_wf ns chain"
  shows "r = opt_hd (chain_dq chain)"
    and "chain_timers ns' chain' = tl (chain_timers ns chain)"
    and "chain_wf ns' chain'"
proof -
  show "r = opt_hd (chain_dq chain)"
    using assms(1) by (auto simp: deltaChainPop_def split: list.splits)
  consider "chain_dq chain = []" | c where "chain_dq chain = [c]"
    | c n cs where "chain_dq chain = c # n # cs"
    by (metis neq_Nil_conv)
  then have "chain_timers ns' chain' = tl (chain_timers ns chain) \<and> chain_wf ns' chain'"
  proof cases
    case 1 then show ?thesis using assms by (auto simp: deltaChainPop_def chain_timers_def chain_wf_def)
  next
    case 2 then show ?thesis using assms by (auto simp: deltaChainPop_def chain_timers_def chain_wf_def)
  next
    case (3 c n cs)
    have "unat (delta (ns n) + delta (ns c)) = unat (delta (ns n)) + unat (delta (ns c))"
      using assms(2) 3 by (intro unat_add_small) (simp add: chain_wf_def)
    then show ?thesis using assms 3
      by (auto simp: deltaChainPop_def chain_timers_def chain_wf_def add.commute)
  qed
  then show "chain_timers ns' chain' = tl (chain_timers ns chain)" "chain_wf ns' chain'" by auto
qed

subsection \<open>Time until expiry\<close>

lemma deltaChainTimeUntil_spec:
  assumes "epochs_ok ns chain" and "(c, r) \<in> set (chain_timers ns chain)" and "0 < r"
    and "chain_wf ns chain"
  shows "unat (deltaChainTimeUntil ns chain c) = r"
proof -
  have "r < 2 ^ 32"
    using assms(2,4) timers_bounds[of c r ns 0 "chain_dq chain"]
    by (auto simp: chain_timers_def chain_wf_def)
  moreover have "deltaChainTimeUntil ns chain c = word_of_nat r"
    using assms(1-3) by (auto simp: deltaChainTimeUntil_def epochs_ok_def list_all_iff)
  ultimately show ?thesis by (simp add: unat_word_of_nat)
qed

subsection \<open>Many ticks\<close>

primrec deltaChainTicks :: "nat \<Rightarrow> nodes \<times> deltaChain \<Rightarrow> nodes \<times> deltaChain" where
  "deltaChainTicks 0 m = m"
| "deltaChainTicks (Suc n) m = (case m of (ns, chain) \<Rightarrow> deltaChainTicks n (deltaChainTick ns chain))"

lemma deltaChainTicks_spec:
  "deltaChainTicks n (ns, chain) = (ns', chain') \<Longrightarrow> chain_wf ns chain \<Longrightarrow>
    chain_timers ns' chain' = map (apsnd (\<lambda>r. r - n)) (chain_timers ns chain)
  \<and> chain_wf ns' chain' \<and> (epochs_ok ns chain \<longrightarrow> epochs_ok ns' chain')"
proof (induction n arbitrary: ns chain)
  case (Suc n)
  obtain ns1 chain1 where t: "deltaChainTick ns chain = (ns1, chain1)" by fastforce
  have e: "epochs_ok ns chain \<Longrightarrow> epochs_ok ns1 chain1"
    by (rule deltaChainTick_epochs[OF t Suc.prems(2)])
  note s = deltaChainTick_spec[OF t Suc.prems(2)]
  have "deltaChainTicks n (ns1, chain1) = (ns', chain')" using Suc.prems t by simp
  from Suc.IH[OF this s(2)] show ?case
    using e by (auto simp: s(1) apsnd_compose o_def)
qed (simp add: apsnd_def map_prod_def case_prod_beta)

text \<open>\<open>n\<close> ticks after a timer was inserted with \<open>d > n\<close> ticks, \<open>d - n\<close> are left, also across the wrap of the epoch.\<close>

lemma deltaChainTimeUntil_exact:
  assumes "chain_wf ns c" and "epochs_ok ns c" and "node \<notin> set (chain_dq c)"
    and "deltaChainTicks n (deltaChainInsert ns c node d) = (ns', c')" and "n < unat d"
  shows "unat (deltaChainTimeUntil ns' c' node) = unat d - n"
proof -
  obtain ns1 c1 where i: "deltaChainInsert ns c node d = (ns1, c1)" by fastforce
  note s = deltaChainInsert_spec[OF i assms(1,3)] deltaChainInsert_epochs[OF i assms(1,3,2)]
  note t = deltaChainTicks_spec[OF assms(4)[unfolded i] s(2)]
  have "(node, unat d - n) \<in> set (chain_timers ns' c')"
    using t s(1) by (force simp: insert_timer_set)
  then show ?thesis
    using deltaChainTimeUntil_spec[of ns' c' node "unat d - n"] t s(3) assms(5) by simp
qed

end
