(* ===== verification/DeltaChainPtr.thy ===== *)
theory DeltaChainPtr
  imports DeltaChain
begin

text \<open>
  The delta chain of \<^verbatim>\<open>deltaChain.h\<close> on linked nodes: the chain holds a \<open>dq_t\<close>, and each
  \<open>deltaNode_t\<close> embeds a \<open>dqListNode_t\<close> (\<open>containerOf\<close> maps the one to the other, so both carry
  the address of the node here). The loops follow the \<open>next\<close> pointers as the code does. Every
  operation refines the operation on lists of the theory \<open>DeltaChain\<close>; on a well linked chain
  the loops end.
\<close>

record deltaChainP =
  cpEpoch :: u32
  cpDq :: dq

type_synonym chain_mem = "nodes \<times> (addr \<Rightarrow> dqListNode) \<times> deltaChainP"

fun deltaChainInitP :: "chain_mem \<Rightarrow> chain_mem" where
  "deltaChainInitP (ns, h, chain) = (case dqInit (h, cpDq chain) of (h, q) \<Rightarrow> (ns, h, chain\<lparr>cpDq := q\<rparr>))"

text \<open>The loop state is \<open>cur\<close>, \<open>prev\<close> and \<open>delta\<close>.\<close>

partial_function (option) insert_loop ::
  "(addr \<Rightarrow> dqListNode) \<Rightarrow> nodes \<Rightarrow> ptr \<Rightarrow> ptr \<Rightarrow> u32 \<Rightarrow> (nodes \<times> ptr \<times> u32) option" where
  "insert_loop h ns cur prev d =
    (case cur of
       None \<Rightarrow> Some (ns, prev, d)
     | Some c \<Rightarrow>
         if delta (ns c) > d
         then Some (ns(c := (ns c)\<lparr>delta := delta (ns c) - d\<rparr>), prev, d)
         else insert_loop h ns (dqn_next (h c)) (Some c) (d - delta (ns c)))"

fun deltaChainInsertP :: "chain_mem \<Rightarrow> addr \<Rightarrow> u32 \<Rightarrow> chain_mem option" where
  "deltaChainInsertP (ns, h, chain) node d =
    (let cur = dq_front (cpDq chain);
         ns = ns(node := (ns node)\<lparr>expectedEpoch := cpEpoch chain + d\<rparr>)
     in case insert_loop h ns cur None d of
          None \<Rightarrow> None
        | Some (ns, prev, d) \<Rightarrow>
            let ns = ns(node := (ns node)\<lparr>delta := d\<rparr>)
            in case dqInsertPrev (h, cpDq chain) prev node of
                 (h, q) \<Rightarrow> Some (ns, h, chain\<lparr>cpDq := q\<rparr>))"

partial_function (option) tick_loop ::
  "(addr \<Rightarrow> dqListNode) \<Rightarrow> nodes \<Rightarrow> ptr \<Rightarrow> nodes option" where
  "tick_loop h ns dqNode =
    (case dqNode of
       None \<Rightarrow> Some ns
     | Some c \<Rightarrow>
         if delta (ns c) \<noteq> 0 then Some (ns(c := (ns c)\<lparr>delta := delta (ns c) - 1\<rparr>))
         else tick_loop h ns (dqn_next (h c)))"

fun deltaChainTickP :: "chain_mem \<Rightarrow> chain_mem option" where
  "deltaChainTickP (ns, h, chain) =
    (let dqNode = dq_front (cpDq chain);
         chain = chain\<lparr>cpEpoch := cpEpoch chain + 1\<rparr>
     in case tick_loop h ns dqNode of None \<Rightarrow> None | Some ns \<Rightarrow> Some (ns, h, chain))"

fun deltaChainPopExpiredP :: "chain_mem \<Rightarrow> ptr \<times> chain_mem" where
  "deltaChainPopExpiredP (ns, h, chain) =
    (case dq_front (cpDq chain) of
       None \<Rightarrow> (None, ns, h, chain)
     | Some c \<Rightarrow>
         if delta (ns c) > 0 then (None, ns, h, chain)
         else case dqPopFront (h, cpDq chain) of
                (_, h, q) \<Rightarrow> (Some c, ns, h, chain\<lparr>cpDq := q\<rparr>))"

fun deltaChainPopP :: "chain_mem \<Rightarrow> ptr \<times> chain_mem" where
  "deltaChainPopP (ns, h, chain) =
    (case dqPopFront (h, cpDq chain) of
       (None, h, q) \<Rightarrow> (None, ns, h, chain\<lparr>cpDq := q\<rparr>)
     | (Some c, h, q) \<Rightarrow>
         (let chain = chain\<lparr>cpDq := q\<rparr>
          in case dq_front q of
               None \<Rightarrow> (Some c, ns, h, chain)
             | Some n \<Rightarrow> (Some c, ns(n := (ns n)\<lparr>delta := delta (ns n) + delta (ns c)\<rparr>), h, chain)))"

fun deltaChainIsEmptyP :: "chain_mem \<Rightarrow> bool" where
  "deltaChainIsEmptyP (ns, h, chain) = dqIsEmpty (h, cpDq chain)"

fun deltaChainPeekP :: "chain_mem \<Rightarrow> ptr" where
  "deltaChainPeekP (ns, h, chain) = dq_front (cpDq chain)"

subsection \<open>Refinement\<close>

text \<open>\<open>chain_refines m ns c\<close>: memory \<open>m\<close> holds the chain \<open>c\<close> over the nodes \<open>ns\<close>.\<close>

fun chain_refines :: "chain_mem \<Rightarrow> nodes \<Rightarrow> deltaChain \<Rightarrow> bool" where
  "chain_refines (ns, h, ch) ns' c =
    (ns = ns' \<and> cpEpoch ch = currentEpoch c \<and> dq_rep (h, cpDq ch) (chain_dq c))"

lemma init_refines: "\<exists>ns c. chain_refines (deltaChainInitP m) ns (deltaChainInit c)"
  by (cases m) (auto simp: deltaChainInit_def intro!: exI[of _ "deltaChain.make e []" for e]
      simp: deltaChain.defs)

text \<open>
  What the pointer walk returns, in terms of the walk over the list: the same memory and the
  same rest, and as \<open>prev\<close> the last node passed.
\<close>

lemma insert_loop_walk:
  assumes "dq_links h p cs None"
  shows "\<exists>xs ys ns' d'. insert_walk ns node d cs = (ns', d', xs @ node # ys) \<and> cs = xs @ ys
    \<and> insert_loop h ns (opt_hd cs) q d = Some (ns', if xs = [] then q else opt_last xs, d')"
  using assms
proof (induction cs arbitrary: ns p q d)
  case Nil
  show ?case by (subst insert_loop.simps) simp
next
  case (Cons c cs)
  have nxt: "dqn_next (h c) = opt_hd cs" and links: "dq_links h (Some c) cs None"
    using Cons.prems by (auto split: list.splits)
  show ?case
  proof (cases "delta (ns c) > d")
    case True
    then show ?thesis
      by (subst insert_loop.simps) (auto intro!: exI[of _ "[]"])
  next
    case False
    obtain xs ys ns' d' where *:
        "insert_walk ns node (d - delta (ns c)) cs = (ns', d', xs @ node # ys)" "cs = xs @ ys"
        "insert_loop h ns (opt_hd cs) (Some c) (d - delta (ns c))
           = Some (ns', if xs = [] then Some c else opt_last xs, d')"
      using Cons.IH[OF links] by blast
    have "insert_loop h ns (opt_hd (c # cs)) q d
        = insert_loop h ns (opt_hd cs) (Some c) (d - delta (ns c))"
      using False nxt by (subst insert_loop.simps) simp
    then have "insert_loop h ns (opt_hd (c # cs)) q d = Some (ns', opt_last (c # xs), d')"
      using *(3) by (cases xs) auto
    then show ?thesis using * False
      by (intro exI[of _ "c # xs"] exI[of _ ys] exI[of _ ns'] exI[of _ d']) auto
  qed
qed

lemma dq_insert_after_prefix:
  assumes "dq_rep (h, q) (xs @ ys)" and "a \<notin> set (xs @ ys)"
  shows "dq_rep (dqInsertPrev (h, q) (if xs = [] then None else opt_last xs) a) (xs @ a # ys)"
proof (cases xs rule: rev_cases)
  case Nil
  then show ?thesis using dq_push_front_rep[of "(h, q)" ys a] assms by simp
next
  case (snoc zs z)
  then show ?thesis using dq_insert_prev_rep[of "(h, q)" zs z ys a] assms
    by (simp del: dqInsertPrev.simps dq_rep.simps)
qed

lemma insert_refines:
  assumes "chain_refines m ns c" and "node \<notin> set (chain_dq c)"
  shows "\<exists>m'. deltaChainInsertP m node d = Some m'
    \<and> (case deltaChainInsert ns c node d of (ns', c') \<Rightarrow> chain_refines m' ns' c')"
proof -
  obtain h ch where m: "m = (ns, h, ch)" and ep: "cpEpoch ch = currentEpoch c"
      and rep: "dq_rep (h, cpDq ch) (chain_dq c)"
    using assms(1) by (cases m) auto
  let ?ns = "ns(node := (ns node)\<lparr>expectedEpoch := currentEpoch c + d\<rparr>)"
  have links: "dq_links h None (chain_dq c) None" and front: "dq_front (cpDq ch) = opt_hd (chain_dq c)"
    using rep by simp_all
  obtain xs ys ns' d' where *:
      "insert_walk ?ns node d (chain_dq c) = (ns', d', xs @ node # ys)" "chain_dq c = xs @ ys"
      "insert_loop h ?ns (opt_hd (chain_dq c)) None d
         = Some (ns', if xs = [] then None else opt_last xs, d')"
    using insert_loop_walk[OF links] by blast
  obtain h' q' where ins:
      "dqInsertPrev (h, cpDq ch) (if xs = [] then None else opt_last xs) node = (h', q')"
    by fastforce
  have "dq_rep (h', q') (xs @ node # ys)"
    using dq_insert_after_prefix[of h "cpDq ch" xs ys node] rep assms(2) *(2) ins by simp
  then show ?thesis
    using m ep front * ins by (simp add: deltaChainInsert_def Let_def del: dqInsertPrev.simps)
qed

lemma tick_loop_walk:
  "dq_links h p cs None \<Longrightarrow> tick_loop h ns (opt_hd cs) = Some (tick_walk ns cs)"
proof (induction cs arbitrary: p)
  case Nil
  show ?case by (subst tick_loop.simps) simp
next
  case (Cons c cs)
  then have "dqn_next (h c) = opt_hd cs" "dq_links h (Some c) cs None"
    by (auto split: list.splits)
  then show ?case using Cons.IH by (subst tick_loop.simps) auto
qed

lemma tick_refines:
  assumes "chain_refines m ns c"
  shows "\<exists>m'. deltaChainTickP m = Some m'
    \<and> (case deltaChainTick ns c of (ns', c') \<Rightarrow> chain_refines m' ns' c')"
  using assms by (cases m) (auto simp: deltaChainTick_def tick_loop_walk)

lemma popExpired_refines:
  assumes "chain_refines m ns c"
  shows "case deltaChainPopExpiredP m of (r, m') \<Rightarrow>
    (case deltaChainPopExpired ns c of (r', c') \<Rightarrow> r = r' \<and> chain_refines m' ns c')"
proof -
  obtain h ch where m: "m = (ns, h, ch)" "cpEpoch ch = currentEpoch c"
      and rep: "dq_rep (h, cpDq ch) (chain_dq c)"
    using assms by (cases m) auto
  show ?thesis
  proof (cases "chain_dq c")
    case Nil
    then show ?thesis using m rep by (simp add: deltaChainPopExpired_def)
  next
    case (Cons x xs)
    obtain r h' q' where pop: "dqPopFront (h, cpDq ch) = (r, h', q')"
      using prod_cases3 by blast
    have "dq_rep (h', q') xs"
      using dq_pop_front_cons[of "(h, cpDq ch)" x xs] rep Cons pop by simp
    then show ?thesis using m rep Cons pop
      by (simp add: deltaChainPopExpired_def del: dqPopFront.simps)
  qed
qed

lemma pop_refines:
  assumes "chain_refines m ns c"
  shows "case deltaChainPopP m of (r, m') \<Rightarrow>
    (case deltaChainPop ns c of (r', ns', c') \<Rightarrow> r = r' \<and> chain_refines m' ns' c')"
proof -
  obtain h ch where m: "m = (ns, h, ch)" "cpEpoch ch = currentEpoch c"
      and rep: "dq_rep (h, cpDq ch) (chain_dq c)"
    using assms by (cases m) auto
  obtain r h' q' where pop: "dqPopFront (h, cpDq ch) = (r, h', q')"
    using prod_cases3 by blast
  show ?thesis
  proof (cases "chain_dq c")
    case Nil
    then have "dqPopFront (h, cpDq ch) = (None, h, cpDq ch)"
      using rep dq_pop_front_nil[of "(h, cpDq ch)"] by simp
    then show ?thesis using m rep Nil by (simp add: deltaChainPop_def del: dqPopFront.simps)
  next
    case (Cons x xs)
    have "r = Some x" "dq_rep (h', q') xs"
      using dq_pop_front_cons[of "(h, cpDq ch)" x xs] rep Cons pop by simp_all
    then show ?thesis using m Cons pop
      by (cases xs) (simp_all add: deltaChainPop_def del: dqPopFront.simps)
  qed
qed

lemma empty_refines: "chain_refines m ns c \<Longrightarrow> deltaChainIsEmptyP m = deltaChainIsEmpty c"
  by (cases m) (simp add: deltaChainIsEmpty_def)

lemma peek_refines: "chain_refines m ns c \<Longrightarrow> deltaChainPeekP m = deltaChainPeek c"
  by (cases m) (simp add: deltaChainPeek_def)

end
