(* ===== verification/McsLock.thy ===== *)
theory McsLock
  imports Prelude "HOL-Library.Sublist"
begin

text \<open>
  \<^verbatim>\<open>include/lib/mcsLock.h\<close>: the queue lock, with any number of CPUs that use it at the same time.
  Each use has a node of its own, and the node names the use. One step is one access to shared memory:
  \<open>mcsNodeInit\<close>, \<open>mcsAcquire\<close>, \<open>mcsRelease\<close> and \<open>mcsTrylock\<close> give the next step of a use that is in
  that function, and \<open>pc\<close> is where it is. A step that has to wait (\<open>spinUntil\<close>) is not enabled. The
  accesses are sequentially consistent, as the default of \<^verbatim>\<open>stdatomic.h\<close> is. The lock is specified as
  a queue: CPUs get it in the order of their arrival, one at a time.
\<close>

subsection \<open>The state and the steps\<close>

text \<open>
  \<open>Outside\<close>: the node is not in use. \<open>Fresh\<close>: initialised. \<open>Linking p\<close>, \<open>Waiting\<close>: in
  \<open>__mcsAcquire\<close>, before the store to the predecessor and in the loop. \<open>Holding\<close>: the lock is held.
  \<open>Leaving\<close>, \<open>Successor\<close>, \<open>HandOver n\<close>: in \<open>__mcsRelease\<close>, before the compare and exchange,
  in the loop, and before the last store.
\<close>

datatype mcsPc = Outside | Fresh | Linking addr | Waiting | Holding | Leaving | Successor | HandOver addr

record mcsState =
  tail :: ptr
  node_next :: "addr \<Rightarrow> ptr"
  node_state :: "addr \<Rightarrow> u32"
  pc :: "addr \<Rightarrow> mcsPc"

definition MCS_LOCKED :: u32 where "MCS_LOCKED = 0"
definition MCS_UNLOCKED :: u32 where "MCS_UNLOCKED = 1"

definition goto :: "addr \<Rightarrow> mcsPc \<Rightarrow> mcsState \<Rightarrow> mcsState" where
  "goto x p s = s\<lparr>pc := (pc s)(x := p)\<rparr>"

definition mcsNodeInit :: "addr \<Rightarrow> mcsState \<Rightarrow> mcsState option" where
  "mcsNodeInit x s =
    (case pc s x of
       Outside \<Rightarrow> Some (goto x Fresh (s\<lparr>node_next := (node_next s)(x := None), node_state := (node_state s)(x := 0)\<rparr>))
     | _ \<Rightarrow> None)"

definition mcsAcquire :: "addr \<Rightarrow> mcsState \<Rightarrow> mcsState option" where
  "mcsAcquire x s =
    (case pc s x of
       Fresh \<Rightarrow>
         (let prev = tail s; s = s\<lparr>tail := Some x\<rparr>
          in case prev of None \<Rightarrow> Some (goto x Holding s) | Some p \<Rightarrow> Some (goto x (Linking p) s))
     | Linking p \<Rightarrow> Some (goto x Waiting (s\<lparr>node_next := (node_next s)(p := Some x)\<rparr>))
     | Waiting \<Rightarrow> if node_state s x = MCS_UNLOCKED then Some (goto x Holding s) else None
     | _ \<Rightarrow> None)"

definition mcsRelease :: "addr \<Rightarrow> mcsState \<Rightarrow> mcsState option" where
  "mcsRelease x s =
    (case pc s x of
       Holding \<Rightarrow> (case node_next s x of None \<Rightarrow> Some (goto x Leaving s) | Some n \<Rightarrow> Some (goto x (HandOver n) s))
     | Leaving \<Rightarrow> if tail s = Some x then Some (goto x Outside (s\<lparr>tail := None\<rparr>)) else Some (goto x Successor s)
     | Successor \<Rightarrow> (case node_next s x of None \<Rightarrow> None | Some n \<Rightarrow> Some (goto x (HandOver n) s))
     | HandOver n \<Rightarrow> Some (goto x Outside (s\<lparr>node_state := (node_state s)(n := MCS_UNLOCKED)\<rparr>))
     | _ \<Rightarrow> None)"

definition mcsTrylock :: "addr \<Rightarrow> mcsState \<Rightarrow> mcsState option" where
  "mcsTrylock x s =
    (case pc s x of
       Fresh \<Rightarrow> if tail s = None then Some (goto x Holding (s\<lparr>tail := Some x\<rparr>)) else Some (goto x Outside s)
     | _ \<Rightarrow> None)"

text \<open>\<open>INITIALIZE_MCSLOCK\<close>, and no node in use.\<close>

definition mcs_start :: mcsState where
  "mcs_start = \<lparr>tail = None, node_next = (\<lambda>_. None), node_state = (\<lambda>_. 0), pc = (\<lambda>_. Outside)\<rparr>"

text \<open>
  A step of any use, and what can be seen of it: \<open>Arrive\<close>, the CPU has taken its place in the queue,
  \<open>Enter\<close>, it has the lock, \<open>Exit\<close>, it has given it up.
\<close>

datatype mcsEvent = Arrive addr | Enter addr | Exit addr

definition mcs_events :: "addr \<Rightarrow> mcsPc \<Rightarrow> mcsPc \<Rightarrow> mcsEvent list" where
  "mcs_events x p q =
    (if p = Fresh \<and> q = Holding then [Arrive x, Enter x]
     else if p = Fresh \<and> (\<exists>r. q = Linking r) then [Arrive x]
     else if q = Holding then [Enter x]
     else if p \<noteq> Fresh \<and> q = Outside then [Exit x] else [])"

inductive mcs_step :: "mcsState \<Rightarrow> mcsEvent list \<Rightarrow> mcsState \<Rightarrow> bool" where
  step: "Some s' \<in> {mcsNodeInit x s, mcsAcquire x s, mcsRelease x s, mcsTrylock x s} \<Longrightarrow>
     mcs_step s (mcs_events x (pc s x) (pc s' x)) s'"

inductive mcs_run :: "mcsEvent list \<Rightarrow> mcsState \<Rightarrow> bool" where
  start: "mcs_run [] mcs_start"
| step: "mcs_run es s \<Longrightarrow> mcs_step s fs s' \<Longrightarrow> mcs_run (es @ fs) s'"

subsection \<open>The invariant\<close>

text \<open>
  \<open>Q\<close> is the queue, first the CPU whose turn it is. Neighbours are linked, unless the second is about
  to store the link; who has the lock is first; everyone else waits with a locked node.
\<close>

definition in_queue :: "mcsPc \<Rightarrow> bool" where
  "in_queue p \<longleftrightarrow> p \<noteq> Outside \<and> p \<noteq> Fresh"

definition first_ok :: "mcsState \<Rightarrow> addr \<Rightarrow> addr list \<Rightarrow> bool" where
  "first_ok s x Q \<longleftrightarrow>
    (case pc s x of
       Waiting \<Rightarrow> node_state s x = MCS_UNLOCKED
     | Holding \<Rightarrow> True
     | Leaving \<Rightarrow> True
     | Successor \<Rightarrow> Q \<noteq> []
     | HandOver n \<Rightarrow> Q \<noteq> [] \<and> n = hd Q \<and> node_next s x = Some n
     | _ \<Rightarrow> False)"

text \<open>The nodes \<open>Q\<close> behind \<open>x\<close>.\<close>

fun linked :: "mcsState \<Rightarrow> addr \<Rightarrow> addr list \<Rightarrow> bool" where
  "linked s x [] \<longleftrightarrow> node_next s x = None"
| "linked s x (y # Q) \<longleftrightarrow> node_state s y = MCS_LOCKED
     \<and> (pc s y = Linking x \<and> node_next s x = None \<or> pc s y = Waiting \<and> node_next s x = Some y)
     \<and> linked s y Q"

definition mcs_inv :: "addr list \<Rightarrow> mcsState \<Rightarrow> bool" where
  "mcs_inv Q s \<longleftrightarrow> distinct Q \<and> (\<forall>x. x \<in> set Q \<longleftrightarrow> in_queue (pc s x))
     \<and> tail s = (if Q = [] then None else Some (last Q))
     \<and> (\<forall>x. pc s x = Fresh \<longrightarrow> node_next s x = None \<and> node_state s x = MCS_LOCKED)
     \<and> (case Q of [] \<Rightarrow> True | x # xs \<Rightarrow> first_ok s x xs \<and> linked s x xs)"

lemma goto_simps [simp]:
  "pc (goto x p s) = (pc s)(x := p)" "tail (goto x p s) = tail s" "node_next (goto x p s) = node_next s"
  "node_state (goto x p s) = node_state s"
  by (simp_all add: goto_def)

lemma linked_cong:
  assumes "\<And>y. y \<in> insert x (set Q) \<Longrightarrow> node_next s' y = node_next s y"
    and "\<And>y. y \<in> set Q \<Longrightarrow> node_state s' y = node_state s y \<and> pc s' y = pc s y"
  shows "linked s' x Q = linked s x Q"
  using assms by (induction Q arbitrary: x) auto

lemma linked_waits: "linked s x Q \<Longrightarrow> y \<in> set Q \<Longrightarrow>
  node_state s y = MCS_LOCKED \<and> (pc s y = Waiting \<or> (\<exists>p. pc s y = Linking p))"
  by (induction Q arbitrary: x) auto

lemma linked_pred: "linked s x Q \<Longrightarrow> y \<in> set Q \<Longrightarrow> pc s y = Linking p \<Longrightarrow> node_next s p = None \<and> p \<in> insert x (set Q)"
  by (induction Q arbitrary: x) auto

lemma linked_append:
  assumes "linked s x Q" "node_state s y = MCS_LOCKED" "node_next s y = None" "y \<notin> insert x (set Q)"
  shows "linked (goto y (Linking (last (x # Q))) (s\<lparr>tail := t\<rparr>)) x (Q @ [y])"
  using assms by (induction Q arbitrary: x) auto

lemma linked_link:
  assumes "linked s x Q" "y \<in> set Q" "pc s y = Linking p" "distinct (x # Q)"
  shows "linked (goto y Waiting (s\<lparr>node_next := (node_next s)(p := Some y)\<rparr>)) x Q"
  using assms
proof (induction Q arbitrary: x)
  case (Cons z Q)
  let ?s = "goto y Waiting (s\<lparr>node_next := (node_next s)(p := Some y)\<rparr>)"
  show ?case
  proof (cases "z = y")
    case True
    then have "p = x" using Cons.prems by simp
    then have "linked ?s z Q = linked s z Q" using Cons.prems True by (intro linked_cong) auto
    then show ?thesis using Cons.prems True \<open>p = x\<close> by (simp add: fun_upd_def)
  next
    case False
    then have y: "y \<in> set Q" and l: "linked s z Q" using Cons.prems by simp_all
    have "p \<in> insert z (set Q)" using linked_pred[OF l y Cons.prems(3)] by simp
    then have "p \<noteq> x" using Cons.prems(4) by auto
    then show ?thesis using Cons.IH[OF l y Cons.prems(3)] Cons.prems False by auto
  qed
qed simp

text \<open>Who is at the head, and who has the lock.\<close>

definition has_lock :: "mcsPc \<Rightarrow> bool" where
  "has_lock p \<longleftrightarrow> p = Holding \<or> p = Leaving \<or> p = Successor \<or> (\<exists>n. p = HandOver n)"

lemma mcs_head:
  assumes "mcs_inv Q s" "in_queue (pc s x)" "\<not> (\<exists>p. pc s x = Linking p)" "pc s x = Waiting \<Longrightarrow> node_state s x = MCS_UNLOCKED"
  obtains xs where "Q = x # xs" "x \<notin> set xs" "distinct xs" "first_ok s x xs" "linked s x xs"
proof (cases Q)
  case Nil then show ?thesis using assms by (auto simp: mcs_inv_def)
next
  case (Cons y ys)
  have l: "linked s y ys" using assms(1) Cons by (simp add: mcs_inv_def)
  have "x \<notin> set ys" using linked_waits[OF l, of x] assms(3,4) by (auto simp: MCS_LOCKED_def MCS_UNLOCKED_def)
  moreover have "x \<in> set Q" using assms(1,2) by (simp add: mcs_inv_def)
  ultimately have "x = y" using Cons by simp
  then show ?thesis using that assms(1) Cons by (simp add: mcs_inv_def)
qed

text \<open>
  The abstract lock: a queue, and whether its first member has the lock. \<open>queue_lock\<close> follows a
  history and is \<open>None\<close> if the history is none of a fair lock.
\<close>

fun queue_event :: "mcsEvent \<Rightarrow> (addr list \<times> bool) option \<Rightarrow> (addr list \<times> bool) option" where
  "queue_event _ None = None"
| "queue_event (Arrive x) (Some (Q, h)) = (if x \<in> set Q then None else Some (Q @ [x], h))"
| "queue_event (Enter x) (Some (Q, h)) = (case Q of y # ys \<Rightarrow> if x = y \<and> \<not> h then Some (Q, True) else None | [] \<Rightarrow> None)"
| "queue_event (Exit x) (Some (Q, h)) = (case Q of y # ys \<Rightarrow> if x = y \<and> h then Some (ys, False) else None | [] \<Rightarrow> None)"

definition queue_lock :: "mcsEvent list \<Rightarrow> (addr list \<times> bool) option" where
  "queue_lock es = fold queue_event es (Some ([], False))"

definition held :: "addr list \<Rightarrow> mcsState \<Rightarrow> bool" where
  "held Q s \<longleftrightarrow> (case Q of [] \<Rightarrow> False | x # _ \<Rightarrow> has_lock (pc s x))"

text \<open>Every step of the code is a step of the abstract lock.\<close>

definition simulates :: "addr list \<Rightarrow> mcsState \<Rightarrow> mcsEvent list \<Rightarrow> mcsState \<Rightarrow> bool" where
  "simulates Q s es s' \<longleftrightarrow> (\<exists>Q'. mcs_inv Q' s' \<and> fold queue_event es (Some (Q, held Q s)) = Some (Q', held Q' s'))"

lemma in_queue_simps [simp]:
  "\<not> in_queue Outside" "\<not> in_queue Fresh" "in_queue (Linking p)" "in_queue Waiting" "in_queue Holding" "in_queue Leaving"
  "in_queue Successor" "in_queue (HandOver n)"
  by (simp_all add: in_queue_def)

lemma has_lock_simps [simp]:
  "\<not> has_lock Outside" "\<not> has_lock Fresh" "\<not> has_lock (Linking p)" "\<not> has_lock Waiting" "has_lock Holding" "has_lock Leaving"
  "has_lock Successor" "has_lock (HandOver n)"
  by (simp_all add: has_lock_def)

text \<open>Steps outside the queue.\<close>

lemma mcs_outside:
  assumes inv: "mcs_inv Q s" and x: "\<not> in_queue (pc s x)" and p: "p = Outside \<or> p = Fresh"
    and s': "\<And>y. y \<noteq> x \<Longrightarrow> node_next s' y = node_next s y \<and> node_state s' y = node_state s y"
      "tail s' = tail s" "pc s' = (pc s)(x := p)" "p = Fresh \<Longrightarrow> node_next s' x = None \<and> node_state s' x = MCS_LOCKED"
  shows "mcs_inv Q s' \<and> held Q s' = held Q s"
proof (cases Q)
  case Nil
  then show ?thesis using inv p s' by (auto simp: mcs_inv_def held_def)
next
  case (Cons y ys)
  have n: "x \<notin> set Q" using inv x by (simp add: mcs_inv_def)
  have e: "node_next s' z = node_next s z \<and> node_state s' z = node_state s z \<and> pc s' z = pc s z" if "z \<in> set Q" for z
    using that n s' by (metis fun_upd_apply)
  have "linked s' y ys = linked s y ys" by (intro linked_cong) (use e Cons in auto)
  moreover have "first_ok s' y ys = first_ok s y ys" using e[of y] Cons by (simp add: first_ok_def split: mcsPc.split)
  ultimately show ?thesis using inv p s' x n Cons by (auto simp: mcs_inv_def held_def)
qed

text \<open>Steps of the first, which leave the others as they are.\<close>

lemma mcs_first:
  assumes inv: "mcs_inv (x # xs) s" and p: "in_queue p" "\<And>q. p \<noteq> Linking q"
    and ok: "first_ok (goto x p s) x xs"
  shows "mcs_inv (x # xs) (goto x p s)"
proof -
  have "x \<notin> set xs" using inv by (simp add: mcs_inv_def)
  then have "linked (goto x p s) x xs = linked s x xs" by (intro linked_cong) auto
  then show ?thesis using inv p ok by (auto simp: mcs_inv_def)
qed

lemma mcs_enter_empty:
  assumes "mcs_inv [] s" "pc s x = Fresh"
  shows "mcs_inv [x] (goto x Holding (s\<lparr>tail := Some x\<rparr>))"
  using assms by (auto simp: mcs_inv_def first_ok_def)

lemma mcs_arrive:
  assumes inv: "mcs_inv Q s" and x: "pc s x = Fresh" and t: "tail s = Some p"
  shows "mcs_inv (Q @ [x]) (goto x (Linking p) (s\<lparr>tail := Some x\<rparr>)) \<and> Q \<noteq> [] \<and> x \<notin> set Q"
proof -
  have ne: "Q \<noteq> []" and l: "p = last Q" using inv t by (auto simp: mcs_inv_def split: if_splits)
  have n: "x \<notin> set Q" using inv x by (simp add: mcs_inv_def)
  obtain y ys where Q: "Q = y # ys" using ne by (cases Q) auto
  have fr: "node_state s x = MCS_LOCKED" "node_next s x = None" using inv x by (simp_all add: mcs_inv_def)
  have "linked s y ys" using inv Q by (simp add: mcs_inv_def)
  then have "linked (goto x (Linking p) (s\<lparr>tail := Some x\<rparr>)) y (ys @ [x])"
    using linked_append[OF _ fr, of y ys] n Q l by simp
  moreover have "first_ok (goto x (Linking p) (s\<lparr>tail := Some x\<rparr>)) y (ys @ [x])"
    using inv Q n by (auto simp: mcs_inv_def first_ok_def split: mcsPc.splits)
  ultimately show ?thesis using inv n Q by (auto simp: mcs_inv_def)
qed

lemma mcs_link:
  assumes inv: "mcs_inv Q s" and x: "pc s x = Linking p"
  shows "mcs_inv Q (goto x Waiting (s\<lparr>node_next := (node_next s)(p := Some x)\<rparr>))"
    and "held Q (goto x Waiting (s\<lparr>node_next := (node_next s)(p := Some x)\<rparr>)) = held Q s"
proof -
  let ?s = "goto x Waiting (s\<lparr>node_next := (node_next s)(p := Some x)\<rparr>)"
  have "x \<in> set Q" using inv x by (simp add: mcs_inv_def)
  then obtain y ys where Q: "Q = y # ys" by (cases Q) auto
  have f: "first_ok s y ys" and l: "linked s y ys" and d: "distinct (y # ys)" using inv Q by (simp_all add: mcs_inv_def)
  have ne: "x \<noteq> y" using f x by (auto simp: first_ok_def)
  then have y: "x \<in> set ys" using \<open>x \<in> set Q\<close> Q by simp
  have pn: "node_next s p = None" "p \<in> set Q" using linked_pred[OF l y x] Q by auto
  have "linked ?s y ys" by (rule linked_link[OF l y x d])
  moreover have "first_ok ?s y ys" using f ne pn(1) by (auto simp: first_ok_def split: mcsPc.splits)
  moreover have "pc s p \<noteq> Fresh" using inv pn(2) by (auto simp: mcs_inv_def)
  ultimately show "mcs_inv Q ?s" using inv x Q by (auto simp: mcs_inv_def)
  show "held Q ?s = held Q s" using ne Q by (simp add: held_def)
qed

lemma mcs_hand_over:
  assumes inv: "mcs_inv (x # xs) s" and x: "pc s x = HandOver n"
  shows "mcs_inv xs (goto x Outside (s\<lparr>node_state := (node_state s)(n := MCS_UNLOCKED)\<rparr>)) \<and> \<not> held xs s"
proof -
  let ?s = "goto x Outside (s\<lparr>node_state := (node_state s)(n := MCS_UNLOCKED)\<rparr>)"
  have f: "first_ok s x xs" and l: "linked s x xs" and d: "distinct (x # xs)" using inv by (simp_all add: mcs_inv_def)
  obtain ys where xs: "xs = n # ys" and nx: "node_next s x = Some n" using f x by (cases xs) (auto simp: first_ok_def)
  have w: "pc s n = Waiting" using l xs nx by auto
  have "linked ?s n ys = linked s n ys" using d xs by (intro linked_cong) auto
  then have "first_ok ?s n ys" "linked ?s n ys" using l xs w d by (auto simp: first_ok_def)
  then show ?thesis using inv xs w d by (auto simp: mcs_inv_def held_def)
qed

subsection \<open>The refinement\<close>

lemma mcsNodeInit_sim:
  assumes "mcs_inv Q s" "mcsNodeInit x s = Some s'" shows "simulates Q s (mcs_events x (pc s x) (pc s' x)) s'"
  using assms mcs_outside[OF assms(1), of x Fresh s']
  by (auto simp: mcsNodeInit_def simulates_def mcs_events_def MCS_LOCKED_def split: mcsPc.splits)

lemma mcsTrylock_sim:
  assumes inv: "mcs_inv Q s" and st: "mcsTrylock x s = Some s'" shows "simulates Q s (mcs_events x (pc s x) (pc s' x)) s'"
proof -
  have x: "pc s x = Fresh" using st by (auto simp: mcsTrylock_def split: mcsPc.splits)
  show ?thesis
  proof (cases "tail s = None")
    case True
    then have Q: "Q = []" using inv by (auto simp: mcs_inv_def split: if_splits)
    have s': "s' = goto x Holding (s\<lparr>tail := Some x\<rparr>)" using st x True by (simp add: mcsTrylock_def)
    have "mcs_inv [x] s'" unfolding s' by (rule mcs_enter_empty) (use inv Q x in simp_all)
    then show ?thesis using Q x s' unfolding simulates_def
      by (intro exI[of _ "[x]"]) (simp add: mcs_events_def held_def)
  next
    case False
    have s': "s' = goto x Outside s" using st x False by (simp add: mcsTrylock_def)
    have "mcs_inv Q s' \<and> held Q s' = held Q s" by (rule mcs_outside[OF inv, of x Outside]) (use x s' in simp_all)
    then show ?thesis using x s' by (auto simp: simulates_def mcs_events_def)
  qed
qed

lemma mcsAcquire_sim:
  assumes inv: "mcs_inv Q s" and st: "mcsAcquire x s = Some s'" shows "simulates Q s (mcs_events x (pc s x) (pc s' x)) s'"
proof (cases "pc s x")
  case Fresh
  show ?thesis
  proof (cases "tail s")
    case None
    then have Q: "Q = []" using inv by (auto simp: mcs_inv_def split: if_splits)
    have s': "s' = goto x Holding (s\<lparr>tail := Some x\<rparr>)" using st Fresh None by (simp add: mcsAcquire_def)
    have "mcs_inv [x] s'" unfolding s' by (rule mcs_enter_empty) (use inv Q Fresh in simp_all)
    then show ?thesis using Q Fresh s' unfolding simulates_def
      by (intro exI[of _ "[x]"]) (simp add: mcs_events_def held_def)
  next
    case (Some p)
    have s': "s' = goto x (Linking p) (s\<lparr>tail := Some x\<rparr>)" using st Fresh Some by (simp add: mcsAcquire_def)
    have a: "mcs_inv (Q @ [x]) s'" "Q \<noteq> []" "x \<notin> set Q" using mcs_arrive[OF inv Fresh Some] unfolding s' by simp_all
    have "held (Q @ [x]) s' = held Q s" using a(2,3) by (cases Q) (auto simp: held_def s')
    then show ?thesis using a Fresh s' unfolding simulates_def
      by (intro exI[of _ "Q @ [x]"]) (simp add: mcs_events_def)
  qed
next
  case (Linking p)
  have s': "s' = goto x Waiting (s\<lparr>node_next := (node_next s)(p := Some x)\<rparr>)" using st Linking by (simp add: mcsAcquire_def)
  show ?thesis using mcs_link[OF inv Linking] Linking unfolding s' simulates_def
    by (intro exI[of _ Q]) (simp add: mcs_events_def)
next
  case Waiting
  have s': "s' = goto x Holding s" and u: "node_state s x = MCS_UNLOCKED"
    using st Waiting by (simp_all add: mcsAcquire_def split: if_splits)
  obtain xs where Q: "Q = x # xs" by (rule mcs_head[OF inv, of x]) (use Waiting u in auto)
  have "mcs_inv Q s'" unfolding s' Q by (rule mcs_first) (use inv Q in \<open>simp_all add: first_ok_def\<close>)
  then show ?thesis using Q Waiting s' unfolding simulates_def
    by (intro exI[of _ Q]) (simp add: mcs_events_def held_def)
qed (use st in \<open>simp_all add: mcsAcquire_def\<close>)

lemma mcsRelease_sim:
  assumes inv: "mcs_inv Q s" and st: "mcsRelease x s = Some s'" shows "simulates Q s (mcs_events x (pc s x) (pc s' x)) s'"
proof -
  have l: "has_lock (pc s x)" using st by (auto simp: mcsRelease_def split: mcsPc.splits)
  obtain xs where Q: "Q = x # xs" and d: "x \<notin> set xs" and f: "first_ok s x xs" and lk: "linked s x xs"
    by (rule mcs_head[OF inv, of x]) (use l in \<open>auto simp: has_lock_def\<close>)
  have stay: "simulates Q s (mcs_events x (pc s x) (pc s' x)) s'"
    if "s' = goto x p s" "in_queue p" "has_lock p" "p \<noteq> Holding" "first_ok (goto x p s) x xs" for p
  proof -
    have "mcs_inv Q s'" unfolding that(1) Q by (rule mcs_first) (use inv Q that in \<open>auto simp: has_lock_def\<close>)
    moreover have "held Q s' \<and> held Q s" using Q that l by (simp add: held_def)
    moreover have "mcs_events x (pc s x) p = []" using that l by (auto simp: mcs_events_def has_lock_def)
    ultimately show ?thesis using that unfolding simulates_def by (intro exI[of _ Q]) simp
  qed
  have next_ok: "xs \<noteq> [] \<and> n = hd xs" if "node_next s x = Some n" for n using lk that by (cases xs) auto
  have h: "held Q s" using Q l by (simp add: held_def)
  show ?thesis
  proof (cases "pc s x")
    case Holding
    then show ?thesis using st stay next_ok by (cases "node_next s x") (auto simp: mcsRelease_def first_ok_def)
  next
    case Leaving
    show ?thesis
    proof (cases "tail s = Some x")
      case True
      have "xs = []" using inv Q True d by (auto simp: mcs_inv_def split: if_splits)
      moreover have s': "s' = goto x Outside (s\<lparr>tail := None\<rparr>)" using st Leaving True by (simp add: mcsRelease_def)
      ultimately have "mcs_inv [] s'" using inv Q by (auto simp: mcs_inv_def)
      then show ?thesis using \<open>xs = []\<close> Q h Leaving s' unfolding simulates_def
        by (intro exI[of _ "[]"]) (simp add: mcs_events_def held_def)
    next
      case False
      have "xs \<noteq> []" using inv Q False by (auto simp: mcs_inv_def)
      then show ?thesis using st Leaving False by (intro stay[of Successor]) (auto simp: mcsRelease_def first_ok_def)
    qed
  next
    case Successor
    then show ?thesis using st stay next_ok by (cases "node_next s x") (auto simp: mcsRelease_def first_ok_def)
  next
    case (HandOver n)
    have s': "s' = goto x Outside (s\<lparr>node_state := (node_state s)(n := MCS_UNLOCKED)\<rparr>)"
      using st HandOver by (simp add: mcsRelease_def)
    have i: "mcs_inv xs s'" and nh: "\<not> held xs s" using mcs_hand_over[of x xs s n] inv Q HandOver s' by simp_all
    have "\<not> held xs s'" using nh d by (cases xs) (auto simp: held_def s')
    then show ?thesis using i Q h HandOver s' unfolding simulates_def
      by (intro exI[of _ xs]) (simp add: mcs_events_def)
  qed (use l in simp_all)
qed

lemma mcs_step_sim: "mcs_step s es s' \<Longrightarrow> mcs_inv Q s \<Longrightarrow> simulates Q s es s'"
  by (induction rule: mcs_step.induct)
    (auto dest: sym intro: mcsNodeInit_sim mcsAcquire_sim mcsRelease_sim mcsTrylock_sim)

theorem mcs_run_refines:
  "mcs_run es s \<Longrightarrow> \<exists>Q. mcs_inv Q s \<and> queue_lock es = Some (Q, held Q s)"
proof (induction rule: mcs_run.induct)
  case start
  show ?case by (rule exI[of _ "[]"]) (simp add: mcs_inv_def mcs_start_def queue_lock_def held_def)
next
  case (step es s fs s')
  then obtain Q where Q: "mcs_inv Q s" "queue_lock es = Some (Q, held Q s)" by blast
  then show ?case using mcs_step_sim[OF step(2) Q(1)] by (auto simp: simulates_def queue_lock_def)
qed

subsection \<open>What the abstract lock gives\<close>

definition arrived :: "mcsEvent list \<Rightarrow> addr list" where
  "arrived es = concat (map (\<lambda>e. case e of Arrive x \<Rightarrow> [x] | _ \<Rightarrow> []) es)"

definition entered :: "mcsEvent list \<Rightarrow> addr list" where
  "entered es = concat (map (\<lambda>e. case e of Enter x \<Rightarrow> [x] | _ \<Rightarrow> []) es)"

lemma queue_lock_snoc: "queue_lock (es @ [e]) = queue_event e (queue_lock es)"
  by (simp add: queue_lock_def)

lemma queue_lock_fifo: "queue_lock es = Some (Q, h) \<Longrightarrow> arrived es = entered es @ (if h then tl Q else Q)"
proof (induction es arbitrary: Q h rule: rev_induct)
  case Nil then show ?case by (simp add: queue_lock_def arrived_def entered_def)
next
  case (snoc e es)
  then obtain Q0 h0 where q: "queue_lock es = Some (Q0, h0)" by (cases "queue_lock es") (auto simp: queue_lock_snoc)
  have "(if h0 \<and> Q0 = [] then False else True)"
    using q
  proof (induction es arbitrary: Q0 h0 rule: rev_induct)
    case (snoc e es)
    then obtain Q1 h1 where "queue_lock es = Some (Q1, h1)" by (cases "queue_lock es") (auto simp: queue_lock_snoc)
    then show ?case using snoc by (cases e) (auto simp: queue_lock_snoc split: list.splits if_splits)
  qed (simp add: queue_lock_def)
  then show ?case using snoc.IH[OF q] snoc.prems q
    by (cases e) (auto simp: queue_lock_snoc arrived_def entered_def split: list.splits if_splits)
qed

lemma mcs_holder_head:
  assumes "mcs_inv Q s" "has_lock (pc s x)" shows "\<exists>xs. Q = x # xs"
  by (rule mcs_head[OF assms(1), of x]) (use assms(2) in \<open>auto simp: has_lock_def\<close>)

text \<open>The first of the queue can go on, or waits for a successor that can.\<close>

lemma mcs_first_goes_on:
  assumes "mcs_inv (x # xs) s" "pc s x \<noteq> Holding"
  shows "\<exists>y \<in> set (x # xs). mcsAcquire y s \<noteq> None \<or> mcsRelease y s \<noteq> None"
proof -
  have f: "first_ok s x xs" and l: "linked s x xs" using assms(1) by (simp_all add: mcs_inv_def)
  show ?thesis
  proof (cases "pc s x = Successor \<and> node_next s x = None")
    case True
    then obtain y ys where "xs = y # ys" using f by (cases xs) (auto simp: first_ok_def)
    then have "pc s y = Linking x" using l True by simp
    then show ?thesis using \<open>xs = y # ys\<close> by (auto simp: mcsAcquire_def)
  next
    case False
    then show ?thesis using f assms(2)
      by (cases "pc s x") (auto simp: first_ok_def mcsAcquire_def mcsRelease_def)
  qed
qed

end
