(* ===== verification/Mem.thy ===== *)
theory Mem
  imports Prelude
begin

text \<open>
  The freestanding helpers of \<^verbatim>\<open>include/stdWorkhorse.h\<close> and \<^verbatim>\<open>src/stdWorkhorse.c\<close>:
  \<open>memcpy\<close>, \<open>memset\<close>, the tear-free accesses behind \<open>READ_ONCE\<close> and \<open>WRITE_ONCE\<close>, the bit
  searches \<open>fls32\<close> and \<open>ffs32\<close>, and the time conversions. Memory is a function from byte
  addresses to bytes.
\<close>

type_synonym mem = "addr \<Rightarrow> u8"

subsection \<open>Byte copies\<close>

text \<open>The loops run over \<open>i\<close>; the first argument is the number of iterations left.\<close>

fun memcpy_loop :: "nat \<Rightarrow> nat \<Rightarrow> addr \<Rightarrow> addr \<Rightarrow> mem \<Rightarrow> mem" where
  "memcpy_loop 0 i dest src m = m"
| "memcpy_loop (Suc n) i dest src m =
    memcpy_loop n (Suc i) dest src (m(dest + i := m (src + i)))"

definition memcpy :: "addr \<Rightarrow> addr \<Rightarrow> u64 \<Rightarrow> mem \<Rightarrow> mem" where
  "memcpy dest src n m = memcpy_loop (unat n) 0 dest src m"

fun memset_loop :: "nat \<Rightarrow> nat \<Rightarrow> addr \<Rightarrow> u8 \<Rightarrow> mem \<Rightarrow> mem" where
  "memset_loop 0 i str c m = m"
| "memset_loop (Suc n) i str c m = memset_loop n (Suc i) str c (m(str + i := c))"

text \<open>The \<open>int\<close> argument is truncated to a \<open>char\<close> by the assignment.\<close>

definition memset :: "addr \<Rightarrow> int \<Rightarrow> u64 \<Rightarrow> mem \<Rightarrow> mem" where
  "memset str c n m = memset_loop (unat n) 0 str (word_of_int c) m"

lemma memset_loop_eq:
  "memset_loop n i str c m a = (if str + i \<le> a \<and> a < str + i + n then c else m a)"
  by (induction n arbitrary: i m) auto

text \<open>
  The copy runs upwards, so it is right when the two regions do not overlap and also when the
  destination starts below the source.
\<close>

lemma memcpy_loop_eq:
  assumes "dest \<le> src \<or> src + i + n \<le> dest + i"
  shows "memcpy_loop n i dest src m a =
         (if dest + i \<le> a \<and> a < dest + i + n then m (a - dest + src) else m a)"
  using assms
proof (induction n arbitrary: i m)
  case (Suc n)
  let ?m = "m(dest + i := m (src + i))"
  have IH: "memcpy_loop n (Suc i) dest src ?m a =
      (if dest + Suc i \<le> a \<and> a < dest + Suc i + n then ?m (a - dest + src) else ?m a)"
    by (rule Suc.IH) (use Suc.prems in auto)
  have "memcpy_loop (Suc n) i dest src m a =
      (if dest + Suc i \<le> a \<and> a < dest + Suc i + n
       then ?m (a - dest + src) else ?m a)"
    using IH by (simp del: fun_upd_apply)
  also have "\<dots> = (if dest + i \<le> a \<and> a < dest + i + Suc n then m (a - dest + src) else m a)"
    using Suc.prems by (auto simp: add.commute)
  finally show ?case .
qed auto

subsection \<open>Accesses of one machine word\<close>

definition load_bytes :: "mem \<Rightarrow> addr \<Rightarrow> nat \<Rightarrow> u8 list" where
  "load_bytes m p n = map (\<lambda>i. m (p + i)) [0..<n]"

definition store_bytes :: "mem \<Rightarrow> addr \<Rightarrow> u8 list \<Rightarrow> mem" where
  "store_bytes m p bs = (\<lambda>a. if p \<le> a \<and> a < p + length bs then bs ! (a - p) else m a)"

text \<open>
  Sizes 1, 2, 4 and 8 are one access: the whole value is read before it is stored. Every other
  size falls back to \<open>memcpy\<close> between two compiler barriers.
\<close>

definition readOnceSize :: "addr \<Rightarrow> addr \<Rightarrow> nat \<Rightarrow> mem \<Rightarrow> mem" where
  "readOnceSize p res sz m =
    (if sz = 1 \<or> sz = 2 \<or> sz = 4 \<or> sz = 8
     then store_bytes m res (load_bytes m p sz)
     else memcpy res p (word_of_nat sz) m)"

definition writeOnceSize :: "addr \<Rightarrow> addr \<Rightarrow> nat \<Rightarrow> mem \<Rightarrow> mem" where
  "writeOnceSize p res sz m =
    (if sz = 1 \<or> sz = 2 \<or> sz = 4 \<or> sz = 8
     then store_bytes m p (load_bytes m res sz)
     else memcpy p res (word_of_nat sz) m)"

lemma once_size_eq:
  assumes "dst \<le> src \<or> src + n \<le> dst" and "n < 2 ^ 64"
  shows "memcpy dst src (word_of_nat n) m = store_bytes m dst (load_bytes m src n)"
proof
  fix a
  have "unat (word_of_nat n :: u64) = n"
    using assms(2) by (simp add: unat_word_of_nat)
  then show "memcpy dst src (word_of_nat n) m a = store_bytes m dst (load_bytes m src n) a"
    using memcpy_loop_eq[of dst src 0 n m a] assms(1)
    by (auto simp: memcpy_def store_bytes_def load_bytes_def add.commute)
qed

subsection \<open>Bit searches\<close>

text \<open>One test of \<open>fls32\<close>: if the bits of \<open>msk\<close> are clear, shift \<open>k\<close> places up.\<close>

definition fls_step :: "u32 \<Rightarrow> nat \<Rightarrow> u32 \<times> int \<Rightarrow> u32 \<times> int" where
  "fls_step msk k vb =
    (if fst vb AND msk = 0 then (push_bit k (fst vb), snd vb - int k) else vb)"

definition fls32 :: "u32 \<Rightarrow> int" where
  "fls32 val =
    (if val = 0 then -1
     else let vb = (val, 31);
              vb = fls_step 0xffff0000 16 vb;
              vb = fls_step 0xff000000 8 vb;
              vb = fls_step 0xf0000000 4 vb;
              vb = fls_step 0xc0000000 2 vb
          in if fst vb AND 0x80000000 = 0 then snd vb - 1 else snd vb)"

definition ffs_step :: "u32 \<Rightarrow> nat \<Rightarrow> u32 \<times> int \<Rightarrow> u32 \<times> int" where
  "ffs_step msk k vb =
    (if fst vb AND msk = 0 then (drop_bit k (fst vb), snd vb + int k) else vb)"

definition ffs32 :: "u32 \<Rightarrow> int" where
  "ffs32 val =
    (if val = 0 then -1
     else let vb = (val, 0);
              vb = ffs_step 0x0000ffff 16 vb;
              vb = ffs_step 0x000000ff 8 vb;
              vb = ffs_step 0x0000000f 4 vb;
              vb = ffs_step 0x00000003 2 vb
          in if fst vb AND 0x00000001 = 0 then snd vb + 1 else snd vb)"

lemma and_high_mask_zero:
  "(v AND NOT (mask n) = 0) = (unat v < 2 ^ n)" if "n < LENGTH('a)" for v :: "'a::len word"
proof -
  have "(v AND NOT (mask n) = 0) = (v AND mask n = v)"
    by (auto simp: bit_eq_iff bit_simps)
  also have "\<dots> = (v < 2 ^ n)"
    using that by (simp add: mask_eq_iff_w2p word_size)
  also have "\<dots> = (unat v < 2 ^ n)"
    using that by (simp add: word_less_nat_alt unat_power_lower)
  finally show ?thesis .
qed

lemma and_low_mask_zero:
  "(v AND mask n = 0) = (2 ^ n dvd unat v)" for v :: "'a::len word"
  by (metis dvd_eq_mod_eq_0 take_bit_eq_mask take_bit_eq_mod unat_0 unat_eq_zero
      unsigned_take_bit_eq)

text \<open>
  State of \<open>fls32\<close> after some tests: the value has been shifted by \<open>31 - bit\<close> without losing a
  bit, and its highest bit is at least \<open>m\<close>.
\<close>

definition fls_inv :: "u32 \<Rightarrow> nat \<Rightarrow> u32 \<times> int \<Rightarrow> bool" where
  "fls_inv v0 m vb = (\<exists>s. snd vb = 31 - int s \<and> unat (fst vb) = unat v0 * 2 ^ s
     \<and> 2 ^ m \<le> unat (fst vb))"

lemma fls_step_inv:
  assumes inv: "fls_inv v0 m vb" and msk: "msk = NOT (mask (32 - k))" and k: "0 < k" "k < 32"
    and m: "32 \<le> m + 2 * k"
  shows "fls_inv v0 (32 - k) (fls_step msk k vb)"
proof -
  obtain s where s: "snd vb = 31 - int s" "unat (fst vb) = unat v0 * 2 ^ s" "2 ^ m \<le> unat (fst vb)"
    using inv by (auto simp: fls_inv_def)
  show ?thesis
  proof (cases "unat (fst vb) < 2 ^ (32 - k)")
    case True
    have "unat (fst vb) * 2 ^ k < 2 ^ (32 - k) * 2 ^ k"
      using True by simp
    also have "(2::nat) ^ (32 - k) * 2 ^ k = 2 ^ 32"
      using k by (metis less_imp_le le_add_diff_inverse2 power_add)
    finally have small: "unat (fst vb) * 2 ^ k < 2 ^ 32" .
    have push: "unat (push_bit k (fst vb)) = unat (fst vb) * 2 ^ k"
      using small unsigned_push_bit_eq[where 'a = nat, of k "fst vb"]
      by (simp add: take_bit_eq_mod push_bit_eq_mult[of k "unat (fst vb)"] del: push_bit_eq_mult)
    have "(2::nat) ^ (32 - k) \<le> 2 ^ (m + k)"
      using m k by (intro power_increasing) auto
    also have "\<dots> \<le> unat (fst vb) * 2 ^ k"
      using s(3) by (simp add: power_add)
    finally have "2 ^ (32 - k) \<le> unat (push_bit k (fst vb))"
      using push by simp
    then show ?thesis
      using True s push k msk
      by (auto simp: fls_inv_def fls_step_def and_high_mask_zero power_add intro!: exI[of _ "s + k"])
  next
    case False
    then show ?thesis
      using s k msk by (auto simp: fls_inv_def fls_step_def and_high_mask_zero intro!: exI[of _ s])
  qed
qed

lemma fls32_bounds:
  assumes "val \<noteq> 0"
  shows "\<exists>b \<le> 31. fls32 val = int b \<and> 2 ^ b \<le> unat val \<and> unat val < 2 ^ (b + 1)"
proof -
  have i0: "fls_inv val 0 (val, 31)"
    using assms by (auto simp: fls_inv_def Suc_le_eq unat_gt_0 intro!: exI[of _ 0])
  define vb where "vb = fls_step 0x80000000 1 (fls_step 0xc0000000 2 (fls_step 0xf0000000 4
      (fls_step 0xff000000 8 (fls_step 0xffff0000 16 (val, 31)))))"
  have m: "(0xffff0000::u32) = NOT (mask (32 - 16))" "(0xff000000::u32) = NOT (mask (32 - 8))"
      "(0xf0000000::u32) = NOT (mask (32 - 4))" "(0xc0000000::u32) = NOT (mask (32 - 2))"
      "(0x80000000::u32) = NOT (mask (32 - 1))"
    by (simp_all add: mask_eq_exp_minus_1)
  have "fls_inv val 31 vb"
    using fls_step_inv[OF fls_step_inv[OF fls_step_inv[OF fls_step_inv[OF fls_step_inv[OF i0
      m(1)] m(2)] m(3)] m(4)] m(5)] by (simp add: vb_def)
  then obtain s where s: "snd vb = 31 - int s" "unat (fst vb) = unat val * 2 ^ s"
      "2 ^ 31 \<le> unat (fst vb)"
    by (auto simp: fls_inv_def)
  have lim: "unat val * 2 ^ s < 2 ^ 32"
    using s(2) unat_less_exp[of "fst vb"] by simp
  have s31: "s \<le> 31"
  proof (rule ccontr)
    assume "\<not> s \<le> 31"
    then have "(2::nat) ^ 32 \<le> 2 ^ s" by (intro power_increasing) auto
    moreover have "1 \<le> unat val" using assms by (simp add: Suc_le_eq unat_gt_0)
    ultimately have "(2::nat) ^ 32 \<le> unat val * 2 ^ s" by (metis mult_le_mono nat_mult_1)
    then show False using lim by simp
  qed
  have "(2::nat) ^ (31 - s) * 2 ^ s \<le> unat val * 2 ^ s"
    using s s31 by (simp add: power_add[symmetric])
  moreover have "unat val * 2 ^ s < 2 ^ (31 - s + 1) * 2 ^ s"
    using lim s31 by (simp add: power_add[symmetric] del: power_Suc)
  moreover have "fls32 val = snd vb"
    using assms by (simp add: fls32_def Let_def vb_def fls_step_def)
  ultimately show ?thesis using s(1) s31
    by (intro exI[of _ "31 - s"]) (auto simp: of_nat_diff)
qed

text \<open>
  State of \<open>ffs32\<close> after some tests: the value has been shifted down by \<open>bit\<close> without losing a
  bit, and one of its \<open>m\<close> lowest bits is set.
\<close>

definition ffs_inv :: "u32 \<Rightarrow> nat \<Rightarrow> u32 \<times> int \<Rightarrow> bool" where
  "ffs_inv v0 m vb = (\<exists>s. snd vb = int s \<and> unat v0 = unat (fst vb) * 2 ^ s
     \<and> \<not> 2 ^ m dvd unat (fst vb))"

lemma ffs_step_inv:
  assumes inv: "ffs_inv v0 m vb" and msk: "msk = mask k" and m: "m \<le> 2 * k"
  shows "ffs_inv v0 k (ffs_step msk k vb)"
proof -
  obtain s where s: "snd vb = int s" "unat v0 = unat (fst vb) * 2 ^ s" "\<not> 2 ^ m dvd unat (fst vb)"
    using inv by (auto simp: ffs_inv_def)
  show ?thesis
  proof (cases "2 ^ k dvd unat (fst vb)")
    case True
    then obtain q where q: "unat (fst vb) = 2 ^ k * q" ..
    have drop: "unat (drop_bit k (fst vb)) = q"
      using q unat_drop_bit_eq[of k "fst vb"] by (simp add: drop_bit_eq_div)
    have "\<not> 2 ^ k dvd q"
    proof
      assume "2 ^ k dvd q"
      then have "2 ^ (2 * k) dvd unat (fst vb)"
        using q by (simp add: mult_2 power_add mult_dvd_mono)
      then show False using s(3) m le_imp_power_dvd dvd_trans by blast
    qed
    then show ?thesis
      using True s q drop msk
      by (auto simp: ffs_inv_def ffs_step_def and_low_mask_zero power_add mult.commute mult.left_commute
          intro!: exI[of _ "s + k"])
  next
    case False
    then show ?thesis
      using s msk by (auto simp: ffs_inv_def ffs_step_def and_low_mask_zero intro!: exI[of _ s])
  qed
qed

lemma ffs32_bounds:
  assumes "val \<noteq> 0"
  shows "\<exists>b \<le> 31. ffs32 val = int b \<and> 2 ^ b dvd unat val \<and> \<not> 2 ^ (b + 1) dvd unat val"
proof -
  have pos: "0 < unat val" using assms by (simp add: unat_gt_0)
  have "\<not> 2 ^ 32 dvd unat val"
    using pos unat_less_exp[of val] by (auto dest: dvd_imp_le)
  then have i0: "ffs_inv val 32 (val, 0)"
    by (auto simp: ffs_inv_def)
  define vb where "vb = ffs_step 0x00000001 1 (ffs_step 0x00000003 2 (ffs_step 0x0000000f 4
      (ffs_step 0x000000ff 8 (ffs_step 0x0000ffff 16 (val, 0)))))"
  have m: "(0x0000ffff::u32) = mask 16" "(0x000000ff::u32) = mask 8"
      "(0x0000000f::u32) = mask 4" "(0x00000003::u32) = mask 2" "(0x00000001::u32) = mask 1"
    by (simp_all add: mask_eq_exp_minus_1)
  have "ffs_inv val 1 vb"
    using ffs_step_inv[OF ffs_step_inv[OF ffs_step_inv[OF ffs_step_inv[OF ffs_step_inv[OF i0
      m(1)] m(2)] m(3)] m(4)] m(5)] by (simp add: vb_def)
  then obtain s where s: "snd vb = int s" "unat val = unat (fst vb) * 2 ^ s" "odd (unat (fst vb))"
    by (auto simp: ffs_inv_def)
  have "s \<le> 31"
  proof (rule ccontr)
    assume "\<not> s \<le> 31"
    then have "(2::nat) ^ 32 dvd 2 ^ s" by (intro le_imp_power_dvd) simp
    then have "2 ^ 32 dvd unat val" unfolding s(2) by (rule dvd_mult)
    then show False using \<open>\<not> 2 ^ 32 dvd unat val\<close> by simp
  qed
  moreover have "ffs32 val = snd vb"
    using assms by (simp add: ffs32_def Let_def vb_def ffs_step_def)
  moreover have "\<not> 2 ^ (s + 1) dvd unat val"
    using s by (simp add: power_add mult.commute)
  ultimately show ?thesis using s(1,2) by (intro exI[of _ s]) auto
qed

subsection \<open>Time conversions and single bits\<close>

definition msToTicks :: "u64 \<Rightarrow> u64 \<Rightarrow> u64" where
  "msToTicks ms freqHz = (ms * freqHz) div 1000"

definition usToTicks :: "u64 \<Rightarrow> u64 \<Rightarrow> u64" where
  "usToTicks us freqHz = (us * freqHz) div 1000000"

definition testBitLe :: "u64 \<Rightarrow> nat \<Rightarrow> bool" where
  "testBitLe val b = (drop_bit b val AND 1 \<noteq> 0)"

lemma testBitLe_bit: "testBitLe val b = bit val b"
  by (simp add: testBitLe_def and_one_eq bit_iff_odd_drop_bit odd_iff_mod_2_eq_one)

text \<open>Both routines write exactly the bytes they should.\<close>

lemma memcpy_memset_exact:
  assumes "dest \<le> src \<or> src + unat n \<le> dest"
  shows "memcpy dest src n m a = (if dest \<le> a \<and> a < dest + unat n then m (a - dest + src) else m a)"
    "memset dest c n m a = (if dest \<le> a \<and> a < dest + unat n then word_of_int c else m a)"
  using memcpy_loop_eq[of dest src 0 "unat n" m a] memset_loop_eq[of "unat n" 0 dest "word_of_int c" m a]
    assms by (simp_all add: memcpy_def memset_def)

end
