(* ===== verification/Bitmap.thy ===== *)
theory Bitmap
  imports Mem
begin

text \<open>
  \<^verbatim>\<open>include/lib/dsa/bitmap.h\<close>: bit sets in byte arrays. An array is a function from indices
  to bytes. \<open>bm_test\<close> reads a bit as \<open>BITMAP_TEST\<close> does; the searches are shown to find the
  highest and the lowest set bit at or above a lower bound.
\<close>

type_synonym bitmap = "nat \<Rightarrow> u8"

definition bm_set :: "bitmap \<Rightarrow> nat \<Rightarrow> bitmap" where
  "bm_set name b = name(b div 8 := name (b div 8) OR push_bit (b mod 8) 1)"

definition bm_unset :: "bitmap \<Rightarrow> nat \<Rightarrow> bitmap" where
  "bm_unset name b = name(b div 8 := name (b div 8) AND NOT (push_bit (b mod 8) 1))"

definition bm_test :: "bitmap \<Rightarrow> nat \<Rightarrow> bool" where
  "bm_test name b = (name (b div 8) AND push_bit (b mod 8) 1 \<noteq> 0)"

definition bm_set_all :: "bitmap \<Rightarrow> nat \<Rightarrow> bitmap" where
  "bm_set_all name sz = memset 0 0xff (word_of_nat sz) name"

definition bm_unset_all :: "bitmap \<Rightarrow> nat \<Rightarrow> bitmap" where
  "bm_unset_all name sz = memset 0 0 (word_of_nat sz) name"

text \<open>
  The loop counters of the searches are 64 bit signed and never leave \<open>-1 .. 2\<^sup>3\<^sup>2 - 1\<close>;
  \<open>bitmapFls_loop bm low n\<close> is the loop with \<open>i = n - 1\<close>.
\<close>

fun bitmapFls_loop :: "bitmap \<Rightarrow> nat \<Rightarrow> nat \<Rightarrow> int" where
  "bitmapFls_loop bm low 0 = -1"
| "bitmapFls_loop bm low (Suc i) =
    (if i < low then -1
     else if bm (i div 8) AND push_bit (i mod 8) 1 \<noteq> 0 then int i
     else bitmapFls_loop bm low i)"

definition bitmapFls :: "bitmap \<Rightarrow> u32 \<Rightarrow> u32 \<Rightarrow> int" where
  "bitmapFls bm bitCnt lowBound =
    (if bitCnt = 0 then -1 else bitmapFls_loop bm (unat lowBound) (unat bitCnt))"

function bitmapFfs_loop :: "bitmap \<Rightarrow> nat \<Rightarrow> nat \<Rightarrow> int" where
  "bitmapFfs_loop bm cnt i =
    (if i < cnt
     then if bm (i div 8) AND push_bit (i mod 8) 1 \<noteq> 0 then int i
          else bitmapFfs_loop bm cnt (i + 1)
     else -1)"
  by pat_completeness auto
termination by (relation "measure (\<lambda>(bm, cnt, i). cnt - i)") auto

declare bitmapFfs_loop.simps [simp del]

definition bitmapFfs :: "bitmap \<Rightarrow> u32 \<Rightarrow> u32 \<Rightarrow> int" where
  "bitmapFfs bm bitCnt lowBound =
    (if bitCnt = 0 then -1 else bitmapFfs_loop bm (unat bitCnt) (unat lowBound))"

text \<open>The byte count is computed in 32 bits before it is widened to \<open>size_t\<close>.\<close>

definition bitmapIsEmpty :: "bitmap \<Rightarrow> u32 \<Rightarrow> bool" where
  "bitmapIsEmpty bm bitCnt = list_all (\<lambda>i. bm i = 0) [0..<unat ((bitCnt + 7) div 8)]"

subsection \<open>Single bits\<close>

lemma bm_test_bit: "bm_test bm b = bit (bm (b div 8)) (b mod 8)"
by (simp only: bm_test_def bit_iff_and_push_bit_not_eq_0)

lemma div_mod_8_eq: "(a div 8 = b div 8 \<and> a mod 8 = b mod 8) = (a = b)" for a b :: nat
  by (metis div_mult_mod_eq)

lemma bm_test_set: "bm_test (bm_set bm a) b = (a = b \<or> bm_test bm b)"
  using div_mod_8_eq[of a b] by (auto simp: bm_test_bit bm_set_def bit_simps)

lemma bm_test_unset: "bm_test (bm_unset bm a) b = (a \<noteq> b \<and> bm_test bm b)"
  using div_mod_8_eq[of a b] by (auto simp: bm_test_bit bm_unset_def bit_simps)

lemma bm_test_set_all:
  assumes "sz < 2 ^ 64" shows "bm_test (bm_set_all bm sz) b = (b < 8 * sz \<or> bm_test bm b)"
proof -
  have "bit (0xff :: u8) (b mod 8)"
  proof -
    have "(0xff :: u8) = mask 8" by (simp add: mask_eq_exp_minus_1)
    then show ?thesis by (simp only: bit_mask_iff) (simp add: possible_bit_def)
  qed
  then show ?thesis using assms
    by (auto simp: bm_test_bit bm_set_all_def memset_def memset_loop_eq unat_word_of_nat)
qed

lemma bm_test_unset_all:
  assumes "sz < 2 ^ 64" shows "bm_test (bm_unset_all bm sz) b = (8 * sz \<le> b \<and> bm_test bm b)"
  using assms by (auto simp: bm_test_bit bm_unset_all_def memset_def memset_loop_eq unat_word_of_nat)

subsection \<open>Searches\<close>

lemma bm_test_fold: "(bm (i div 8) AND 2 ^ (i mod 8) = 0) = (\<not> bm_test bm i)"
  by (simp add: bm_test_def)

lemma bitmapFls_loop_spec:
  "(if \<exists>b. low \<le> b \<and> b < n \<and> bm_test bm b
    then \<exists>b. bitmapFls_loop bm low n = int b \<and> low \<le> b \<and> b < n \<and> bm_test bm b
         \<and> (\<forall>c. b < c \<and> c < n \<longrightarrow> \<not> bm_test bm c)
    else bitmapFls_loop bm low n = -1)"
proof (induction n)
  case (Suc i)
  show ?case
  proof (cases "i < low \<or> bm_test bm i")
    case True
    then show ?thesis by (auto simp: bm_test_fold)
  next
    case False
    then have "(\<exists>b. low \<le> b \<and> b < Suc i \<and> bm_test bm b) = (\<exists>b. low \<le> b \<and> b < i \<and> bm_test bm b)"
      by (metis less_Suc_eq)
    then show ?thesis using Suc False
      by (auto simp: bm_test_fold less_Suc_eq split: if_splits)
  qed
qed simp

lemma bitmapFfs_loop_spec:
  "(if \<exists>b. i \<le> b \<and> b < cnt \<and> bm_test bm b
    then \<exists>b. bitmapFfs_loop bm cnt i = int b \<and> i \<le> b \<and> b < cnt \<and> bm_test bm b
         \<and> (\<forall>c. i \<le> c \<and> c < b \<longrightarrow> \<not> bm_test bm c)
    else bitmapFfs_loop bm cnt i = -1)"
proof (induction bm cnt i rule: bitmapFfs_loop.induct)
  case (1 bm cnt i)
  show ?case
  proof (cases "i < cnt \<and> \<not> bm_test bm i")
    case False
    then show ?thesis
      by (subst (2) bitmapFfs_loop.simps, subst bitmapFfs_loop.simps)
        (auto simp: bm_test_fold)
  next
    case True
    then have ex: "(\<exists>b. i \<le> b \<and> b < cnt \<and> bm_test bm b) = (\<exists>b. i + 1 \<le> b \<and> b < cnt \<and> bm_test bm b)"
      by (auto simp: Suc_le_eq) (metis le_less)+
    have step: "bitmapFfs_loop bm cnt i = bitmapFfs_loop bm cnt (i + 1)"
      using True by (subst bitmapFfs_loop.simps) (simp add: bm_test_def)
    have "\<forall>b. (\<forall>c. i + 1 \<le> c \<and> c < b \<longrightarrow> \<not> bm_test bm c) \<longrightarrow> (\<forall>c. i \<le> c \<and> c < b \<longrightarrow> \<not> bm_test bm c)"
      using True by (auto simp: Suc_le_eq) (metis le_less)
    then show ?thesis
      using 1 True unfolding ex step by (auto simp: bm_test_fold split: if_splits)
  qed
qed

text \<open>The same as the extreme elements of the set of candidates.\<close>

definition bm_range :: "bitmap \<Rightarrow> nat \<Rightarrow> nat \<Rightarrow> nat set" where
  "bm_range bm low n = {b. low \<le> b \<and> b < n \<and> bm_test bm b}"

lemma finite_bm_range: "finite (bm_range bm low n)"
  by (rule finite_subset[of _ "{..<n}"]) (auto simp: bm_range_def)

lemma bm_range_empty: "(bm_range bm low n = {}) = (\<not> (\<exists>b. low \<le> b \<and> b < n \<and> bm_test bm b))"
  by (auto simp: bm_range_def)

lemma bitmapFls_loop_Max:
  "bitmapFls_loop bm low n = (if bm_range bm low n = {} then -1 else int (Max (bm_range bm low n)))"
proof (cases "bm_range bm low n = {}")
  case True
  then show ?thesis using bitmapFls_loop_spec[of low n bm] unfolding bm_range_empty by simp
next
  case False
  then obtain b where b: "bitmapFls_loop bm low n = int b" "low \<le> b" "b < n" "bm_test bm b"
      "\<And>c. b < c \<Longrightarrow> c < n \<Longrightarrow> \<not> bm_test bm c"
    using bitmapFls_loop_spec[of low n bm] unfolding bm_range_empty by (auto split: if_splits)
  have "Max (bm_range bm low n) = b"
  proof (rule Max_eqI[OF finite_bm_range])
    show "b \<in> bm_range bm low n" using b by (simp add: bm_range_def)
    show "y \<le> b" if "y \<in> bm_range bm low n" for y
      using that b(5)[of y] by (auto simp: bm_range_def not_less[symmetric])
  qed
  then show ?thesis using b(1) False by simp
qed

lemma bitmapFfs_loop_Min:
  "bitmapFfs_loop bm n low = (if bm_range bm low n = {} then -1 else int (Min (bm_range bm low n)))"
proof (cases "bm_range bm low n = {}")
  case True
  then show ?thesis using bitmapFfs_loop_spec[of low n bm] unfolding bm_range_empty by simp
next
  case False
  then obtain b where b: "bitmapFfs_loop bm n low = int b" "low \<le> b" "b < n" "bm_test bm b"
      "\<And>c. low \<le> c \<Longrightarrow> c < b \<Longrightarrow> \<not> bm_test bm c"
    using bitmapFfs_loop_spec[of low n bm] unfolding bm_range_empty by (auto split: if_splits)
  have "Min (bm_range bm low n) = b"
  proof (rule Min_eqI[OF finite_bm_range])
    show "b \<in> bm_range bm low n" using b by (simp add: bm_range_def)
    show "b \<le> y" if "y \<in> bm_range bm low n" for y
      using that b(5)[of y] by (auto simp: bm_range_def not_less[symmetric])
  qed
  then show ?thesis using b(1) False by simp
qed

lemma bitmapFls_Max:
  "bitmapFls bm cnt low = (if {b. unat low \<le> b \<and> b < unat cnt \<and> bm_test bm b} = {} then -1
     else int (Max {b. unat low \<le> b \<and> b < unat cnt \<and> bm_test bm b}))"
  unfolding bm_range_def[symmetric] by (simp add: bitmapFls_def bitmapFls_loop_Max bm_range_def)

lemma bitmapFfs_Min:
  "bitmapFfs bm cnt low = (if {b. unat low \<le> b \<and> b < unat cnt \<and> bm_test bm b} = {} then -1
     else int (Min {b. unat low \<le> b \<and> b < unat cnt \<and> bm_test bm b}))"
  unfolding bm_range_def[symmetric] by (simp add: bitmapFfs_def bitmapFfs_loop_Min bm_range_def)

lemma byte_zero_iff: "(v = 0) = (\<forall>k < 8. \<not> bit v k)" for v :: u8
  by (auto simp: bit_eq_iff dest: bit_imp_le_length)

lemma bitmapIsEmpty_spec:
  assumes "unat bitCnt + 7 < 2 ^ 32"
  shows "bitmapIsEmpty bm bitCnt = (\<forall>b < 8 * ((unat bitCnt + 7) div 8). \<not> bm_test bm b)"
proof -
  let ?n = "(unat bitCnt + 7) div 8"
  have "unat ((bitCnt + 7) div 8) = ?n"
    using assms by (simp add: unat_div unat_add_small)
  moreover have "(\<forall>b < 8 * ?n. \<not> bm_test bm b) = (\<forall>i < ?n. \<forall>k < 8. \<not> bit (bm i) k)"
  proof (intro iffI allI impI)
    fix i k assume all: "\<forall>b < 8 * ?n. \<not> bm_test bm b" and "i < ?n" "k < (8::nat)"
    then have "8 * i + k < 8 * ?n" by linarith
    then have "\<not> bm_test bm (8 * i + k)" using all by blast
    then show "\<not> bit (bm i) k" using \<open>k < 8\<close> by (simp add: bm_test_bit)
  next
    fix b assume "\<forall>i < ?n. \<forall>k < 8. \<not> bit (bm i) k" and "b < 8 * ?n"
    then show "\<not> bm_test bm b" by (simp add: bm_test_bit less_mult_imp_div_less mult.commute)
  qed
  ultimately show ?thesis
    by (simp add: bitmapIsEmpty_def list_all_iff byte_zero_iff Ball_def)
qed

text \<open>The 32 bit byte count wraps for the seven largest sizes: the set is then reported empty.\<close>

lemma bitmapIsEmpty_wraps: "bitmapIsEmpty bm (- 7)"
  by (simp add: bitmapIsEmpty_def)

end
