(* ===== verification/Kernel.thy ===== *)
theory Kernel
  imports DeltaChain Bitmap
begin

text \<open>
  The kernel's data: tasks (\<^verbatim>\<open>kSchedTask.h\<close>), domains (\<^verbatim>\<open>kDomainUniverse.h\<close>), the per-CPU tick
  machine (\<^verbatim>\<open>kTick.h\<close>), and the whole kernel state. Tasks and domains are objects at
  addresses. The timer nodes that a thread embeds live in two separate memories, indexed by the
  address of the thread (\<open>containerOf\<close> is then the identity). The intrusive containers of the tick machine are the
  lists that the theories \<open>Stackq\<close>, \<open>Sq\<close> and \<open>DeltaChainPtr\<close> refine to linked nodes.
\<close>

subsection \<open>Tasks\<close>

datatype kSchedTaskType = K_TASK_INVALID | K_TASK_THREAD | K_TASK_LSR | K_TASK_IDLE

datatype kSchedState =
    K_TASK_STATE_INVALID
  | K_TASK_STATE_READY
  | K_TASK_STATE_RUNNING
  | K_TASK_STATE_THREAD_THROTTLED
  | K_TASK_STATE_LSR_DORMANT
  | K_TASK_STATE_THREAD_DEFTICK_YIELD
  | K_TASK_STATE_THREAD_DEFTICK_THROTTLE
  | K_TASK_STATE_THREAD_DEFTICK_SLEEP
  | K_TASK_STATE_DEFTICK_PENDING
  | K_TASK_STATE_THREAD_SLEEP
  | K_TASK_STATE_PENDING
  | K_TASK_STATE_LSR_PENDING
  | K_TASK_STATE_FAILURE

definition K_SCHED_TASK_ACTIVATED :: "kSchedState \<Rightarrow> bool" where
  "K_SCHED_TASK_ACTIVATED st \<longleftrightarrow>
    \<not> (st = K_TASK_STATE_INVALID \<or> st = K_TASK_STATE_THREAD_THROTTLED
     \<or> st = K_TASK_STATE_LSR_DORMANT \<or> st = K_TASK_STATE_THREAD_SLEEP
     \<or> st = K_TASK_STATE_FAILURE)"

text \<open>A callback is the address of a function of the plugin that registered it.\<close>

record kSchedTaskCallbacks =
  tickCallbackFn :: ptr
  inCallbackFn :: ptr
  outCallbackFn :: ptr
  activationCallbackFn :: ptr
  responseCallbackFn :: ptr

record kSchedTick =
  currentBudget :: u32
  budget :: u32
  period :: u32
  sleepTicks :: u32
  lag :: bool

datatype kDomainInvocationType =
    K_INVOCATION_INVALID
  | K_INVOCATION_IPC
  | K_INVOCATION_EXCEPTION_VMEM_FAULT
  | K_INVOCATION_EXCEPTION_ILLEGAL_OPCODE
  | K_INVOCATION_EXCEPTION_ALIGNMENT
  | K_INVOCATION_EXCEPTION_DEBUG
  | K_INVOCATION_EXCEPTION_ARITHMETIC
  | K_INVOCATION_EXCEPTION_OTHER

record kDomainInvocationEntry =
  invokingDomain :: ptr
  invType :: kDomainInvocationType
  returnAddress :: u64
  vmemFaultAddress :: u64
  errorCode :: u64

text \<open>The anonymous structure \<open>domain\<close> of a task.\<close>

record kTaskDomain =
  curDomain :: ptr
  invocationStack :: "nat \<Rightarrow> kDomainInvocationEntry"
  invocationStackDepth :: u32

text \<open>
  The tagged union \<open>taggedInfo\<close> is flattened: \<open>ttype\<close> is its tag, \<open>tick\<close> the tick state of a
  thread, \<open>threadTpr\<close> and \<open>lsrVector\<close> the task priority and the interrupt vector in the
  architecture parts of a thread and of an LSR. The
  scheduling policy's part of the union is kept by the policy (see \<open>pol\<close> below).
\<close>

record kSchedTask =
  cpuId :: u32
  taskId :: u32
  tstate :: kSchedState
  ttype :: kSchedTaskType
  tick :: kSchedTick
  lsrVector :: u8
  callbacks :: kSchedTaskCallbacks
  tdomain :: kTaskDomain
  threadTpr :: u8

subsection \<open>Domains\<close>

record kDomainEntryPoint =
  entry_pc :: u64
  valid :: bool

record kDomainInvocationInfo =
  invokePermMap :: bitmap
  start_pc :: u64
  invocationIpc :: kDomainEntryPoint
  invocationExceptionVmemFault :: kDomainEntryPoint
  invocationExceptionIllegalOpcode :: kDomainEntryPoint
  invocationExceptionAlignment :: kDomainEntryPoint
  invocationExceptionDebug :: kDomainEntryPoint
  invocationExceptionArithmetic :: kDomainEntryPoint
  invocationExceptionOther :: kDomainEntryPoint

record kDomain =
  domId :: u32
  invocationInfo :: kDomainInvocationInfo

subsection \<open>The tick machine and the kernel state\<close>

record kTickMachine =
  runningTask :: ptr
  replenishmentChain :: deltaChain
  sleepChain :: deltaChain
  deferredTicks :: "addr list"
  pendingLsrChain :: "addr list"
  pendingTaskLsr :: ptr

text \<open>
  What the kernel asks of the rest of the system, in order: calls into the architecture layer
  and into the callbacks that plugins and the architecture register. The callbacks of the
  architecture for activations and responses read the CPU they run on and \<open>gPluginsDone\<close>; the event
  has both. Contexts are saved and restored, and page tables loaded, on the CPU that the event names.
\<close>

datatype event =
    EvSaveCtx u32 addr
  | EvRestoreCtx u32 addr
  | EvEnterDomain u32 ptr
  | EvTaskCtxInit addr u64
  | EvIdleCtxInit addr
  | EvSyscallSetReturnAddress u64
  | EvExceptionSetReturnAddress u64
  | EvActivation u32 bool addr
  | EvResponse u32 bool addr
  | EvHandoff u32
  | EvArmTimer u32
  | EvCallback addr addr

text \<open>
  Faults are recorded. A failed \<open>K_DYNAMIC_ASSERT\<close> prints a message and goes on, and so does the
  model. A \<open>NULL\<close> dereference and a loop that has not ended within its bound end the operation.
\<close>

datatype fault = AssertFailed | NullDeref | StuckLoop

record 'p kstate =
  thisCpu :: u32
  tasks :: "addr \<Rightarrow> kSchedTask"
  replenishNodes :: nodes
  sleepNodes :: nodes
  gTickMachines :: "u32 \<Rightarrow> kTickMachine"
  archLsrs :: "u32 \<Rightarrow> u8 \<Rightarrow> addr list"
  domains :: "addr \<Rightarrow> kDomain"
  domainTable :: "nat \<Rightarrow> ptr"
  kTasks :: "nat \<Rightarrow> ptr"
  gPluginsDone :: bool
  gOpsInitialized :: bool
  pol :: 'p
  trace :: "event list"
  faults :: "fault list"

text \<open>
  The scheduler's function table. \<open>pop\<close> returns the chosen task, \<open>shouldReschedule\<close> its answer,
  with the new state.
\<close>

record 'p kSchedOps =
  kSchedInitFn :: "'p kstate \<Rightarrow> 'p kstate"
  kSchedTickTransitionCallbackFn :: "'p kstate \<Rightarrow> 'p kstate"
  kSchedPushFn :: "addr \<Rightarrow> 'p kstate \<Rightarrow> 'p kstate"
  kSchedTaskPopFn :: "'p kstate \<Rightarrow> ptr \<times> 'p kstate"
  kSchedTaskTickCallbackFn :: "addr \<Rightarrow> 'p kstate \<Rightarrow> 'p kstate"
  kSchedShouldRescheduleFn :: "'p kstate \<Rightarrow> bool \<times> 'p kstate"
  kSchedTaskLsrOutCallbackFn :: "addr \<Rightarrow> 'p kstate \<Rightarrow> 'p kstate"
  kSchedGetIdleFn :: "u32 \<Rightarrow> 'p kstate \<Rightarrow> ptr \<times> 'p kstate"

datatype algorithm = DS | BCS

text \<open>
  The configuration (\<open>CONFIG_*\<close>) and what the architecture answers: which CPU ids are valid.
  \<open>idleAddr c\<close> is the address of the idle task in the scheduler structure of CPU \<open>c\<close>.
\<close>

record 'p kEnv =
  alg :: algorithm
  ops :: "'p kSchedOps"
  idleAddr :: "u32 \<Rightarrow> addr"
  cpuValid :: "u32 \<Rightarrow> bool"
  KMAX_CPUS :: nat
  KMAX_TASKS :: nat
  KMAX_DOMAINS :: nat
  INVOCATION_DEPTH :: nat
  KTICK_MS :: u64

subsection \<open>Updates\<close>

definition upd_task :: "addr \<Rightarrow> (kSchedTask \<Rightarrow> kSchedTask) \<Rightarrow> 'p kstate \<Rightarrow> 'p kstate" where
  "upd_task t f s = s\<lparr>tasks := (tasks s)(t := f (tasks s t))\<rparr>"

definition upd_machine :: "u32 \<Rightarrow> (kTickMachine \<Rightarrow> kTickMachine) \<Rightarrow> 'p kstate \<Rightarrow> 'p kstate" where
  "upd_machine c f s = s\<lparr>gTickMachines := (gTickMachines s)(c := f (gTickMachines s c))\<rparr>"

definition upd_tick :: "(kSchedTick \<Rightarrow> kSchedTick) \<Rightarrow> kSchedTask \<Rightarrow> kSchedTask" where
  "upd_tick f t = t\<lparr>tick := f (tick t)\<rparr>"

definition upd_domain :: "(kTaskDomain \<Rightarrow> kTaskDomain) \<Rightarrow> kSchedTask \<Rightarrow> kSchedTask" where
  "upd_domain f t = t\<lparr>tdomain := f (tdomain t)\<rparr>"

definition emit :: "event \<Rightarrow> 'p kstate \<Rightarrow> 'p kstate" where
  "emit e s = s\<lparr>trace := e # trace s\<rparr>"

definition fault :: "fault \<Rightarrow> 'p kstate \<Rightarrow> 'p kstate" where
  "fault f s = s\<lparr>faults := f # faults s\<rparr>"

definition K_DYNAMIC_ASSERT :: "bool \<Rightarrow> 'p kstate \<Rightarrow> 'p kstate" where
  "K_DYNAMIC_ASSERT c s = (if c then s else fault AssertFailed s)"

definition run_callback :: "ptr \<Rightarrow> addr \<Rightarrow> 'p kstate \<Rightarrow> 'p kstate" where
  "run_callback fn t s = (case fn of None \<Rightarrow> s | Some f \<Rightarrow> emit (EvCallback f t) s)"

lemma assert_True [simp]: "K_DYNAMIC_ASSERT True s = s"
  by (simp add: K_DYNAMIC_ASSERT_def)

lemma assert_holds: "c \<Longrightarrow> K_DYNAMIC_ASSERT c s = s"
  by (simp add: K_DYNAMIC_ASSERT_def)

lemma upd_task_simps [simp]:
  "tasks (upd_task t f s) = (tasks s)(t := f (tasks s t))"
  "thisCpu (upd_task t f s) = thisCpu s"
  "replenishNodes (upd_task t f s) = replenishNodes s"
  "sleepNodes (upd_task t f s) = sleepNodes s"
  "gTickMachines (upd_task t f s) = gTickMachines s"
  "archLsrs (upd_task t f s) = archLsrs s"
  "domains (upd_task t f s) = domains s"
  "domainTable (upd_task t f s) = domainTable s"
  "kTasks (upd_task t f s) = kTasks s"
  "gPluginsDone (upd_task t f s) = gPluginsDone s"
  "gOpsInitialized (upd_task t f s) = gOpsInitialized s"
  "pol (upd_task t f s) = pol s"
  "trace (upd_task t f s) = trace s"
  "faults (upd_task t f s) = faults s"
  by (simp_all add: upd_task_def)

lemma upd_machine_simps [simp]:
  "gTickMachines (upd_machine c m s) = (gTickMachines s)(c := m (gTickMachines s c))"
  "thisCpu (upd_machine c m s) = thisCpu s"
  "tasks (upd_machine c m s) = tasks s"
  "replenishNodes (upd_machine c m s) = replenishNodes s"
  "sleepNodes (upd_machine c m s) = sleepNodes s"
  "archLsrs (upd_machine c m s) = archLsrs s"
  "domains (upd_machine c m s) = domains s"
  "domainTable (upd_machine c m s) = domainTable s"
  "kTasks (upd_machine c m s) = kTasks s"
  "gPluginsDone (upd_machine c m s) = gPluginsDone s"
  "gOpsInitialized (upd_machine c m s) = gOpsInitialized s"
  "pol (upd_machine c m s) = pol s"
  "trace (upd_machine c m s) = trace s"
  "faults (upd_machine c m s) = faults s"
  by (simp_all add: upd_machine_def)

lemma emit_simps [simp]:
  "trace (emit e s) = e # trace s"
  "thisCpu (emit e s) = thisCpu s"
  "tasks (emit e s) = tasks s"
  "replenishNodes (emit e s) = replenishNodes s"
  "sleepNodes (emit e s) = sleepNodes s"
  "gTickMachines (emit e s) = gTickMachines s"
  "archLsrs (emit e s) = archLsrs s"
  "domains (emit e s) = domains s"
  "domainTable (emit e s) = domainTable s"
  "kTasks (emit e s) = kTasks s"
  "gPluginsDone (emit e s) = gPluginsDone s"
  "gOpsInitialized (emit e s) = gOpsInitialized s"
  "pol (emit e s) = pol s"
  "faults (emit e s) = faults s"
  by (simp_all add: emit_def)

text \<open>Everything but the trace and the faults: what callbacks into the environment leave alone.\<close>

definition core_eq :: "'p kstate \<Rightarrow> 'p kstate \<Rightarrow> bool" where
  "core_eq s s' \<longleftrightarrow> s' = s\<lparr>trace := trace s'\<rparr>"

lemma run_callback_simps [simp]:
  "thisCpu (run_callback f t s) = thisCpu s"
  "tasks (run_callback f t s) = tasks s"
  "replenishNodes (run_callback f t s) = replenishNodes s"
  "sleepNodes (run_callback f t s) = sleepNodes s"
  "gTickMachines (run_callback f t s) = gTickMachines s"
  "archLsrs (run_callback f t s) = archLsrs s"
  "domains (run_callback f t s) = domains s"
  "domainTable (run_callback f t s) = domainTable s"
  "kTasks (run_callback f t s) = kTasks s"
  "gPluginsDone (run_callback f t s) = gPluginsDone s"
  "gOpsInitialized (run_callback f t s) = gOpsInitialized s"
  "pol (run_callback f t s) = pol s"
  "faults (run_callback f t s) = faults s"
  by (simp_all add: run_callback_def split: option.splits)

end
