(* ===== verification/Sched.thy ===== *)
theory Sched
  imports Kernel
begin

text \<open>
  \<^verbatim>\<open>kSched.c\<close> and \<^verbatim>\<open>kSched.h\<close>: the task table and the dispatch through the installed function
  table. \<open>gOps\<close> is \<open>NULL\<close> until \<open>kSchedOpsInit\<close> installs the table of the policy that the
  kernel is built with (\<open>ops E\<close>); \<open>with_ops\<close> is the assertion and the dereference that open
  every dispatcher.
\<close>

definition ARRAY_LEN_kTasks :: "'p kEnv \<Rightarrow> nat" where
  "ARRAY_LEN_kTasks E = KMAX_TASKS E + KMAX_CPUS E"

definition kSchedTaskAdd :: "'p kEnv \<Rightarrow> u32 \<Rightarrow> addr \<Rightarrow> 'p kstate \<Rightarrow> (errno + unit) \<times> 'p kstate" where
  "kSchedTaskAdd E tid t s =
    (if unat tid \<ge> ARRAY_LEN_kTasks E \<or> kTasks s (unat tid) \<noteq> None then (Inl EINVAL, s)
     else (Inr (), upd_task t (\<lambda>r. r\<lparr>taskId := tid\<rparr>)
                     (s\<lparr>kTasks := (kTasks s)(unat tid := Some t)\<rparr>)))"

definition kSchedTaskGet :: "'p kEnv \<Rightarrow> u32 \<Rightarrow> 'p kstate \<Rightarrow> ptr" where
  "kSchedTaskGet E tid s =
    (if unat tid \<ge> ARRAY_LEN_kTasks E \<or> kTasks s (unat tid) = None then None
     else kTasks s (unat tid))"

definition kSchedTaskCanAdd :: "'p kEnv \<Rightarrow> u32 \<Rightarrow> 'p kstate \<Rightarrow> bool" where
  "kSchedTaskCanAdd E tid s \<longleftrightarrow> unat tid < ARRAY_LEN_kTasks E \<and> kTasks s (unat tid) = None"

definition kSchedOpsInit :: "'p kstate \<Rightarrow> (errno + unit) \<times> 'p kstate" where
  "kSchedOpsInit s =
    (if gOpsInitialized s then (Inl EINVAL, s) else (Inr (), s\<lparr>gOpsInitialized := True\<rparr>))"

definition with_ops :: "('p kstate \<Rightarrow> 'p kstate) \<Rightarrow> 'p kstate \<Rightarrow> 'p kstate" where
  "with_ops f s =
    (let s = K_DYNAMIC_ASSERT (gOpsInitialized s) s
     in if gOpsInitialized s then f s else fault NullDeref s)"

definition kSchedInit :: "'p kEnv \<Rightarrow> 'p kstate \<Rightarrow> 'p kstate" where
  "kSchedInit E = with_ops (kSchedInitFn (ops E))"

definition kSchedTickTransitionCallback :: "'p kEnv \<Rightarrow> 'p kstate \<Rightarrow> 'p kstate" where
  "kSchedTickTransitionCallback E = with_ops (kSchedTickTransitionCallbackFn (ops E))"

definition kSchedTaskPush :: "'p kEnv \<Rightarrow> addr \<Rightarrow> 'p kstate \<Rightarrow> 'p kstate" where
  "kSchedTaskPush E t = with_ops (kSchedPushFn (ops E) t)"

definition kSchedTaskPop :: "'p kEnv \<Rightarrow> 'p kstate \<Rightarrow> ptr \<times> 'p kstate" where
  "kSchedTaskPop E s =
    (let s = K_DYNAMIC_ASSERT (gOpsInitialized s) s
     in if gOpsInitialized s then kSchedTaskPopFn (ops E) s else (None, fault NullDeref s))"

definition kSchedTaskTickCallback :: "'p kEnv \<Rightarrow> addr \<Rightarrow> 'p kstate \<Rightarrow> 'p kstate" where
  "kSchedTaskTickCallback E t = with_ops (kSchedTaskTickCallbackFn (ops E) t)"

definition kSchedShouldReschedule :: "'p kEnv \<Rightarrow> 'p kstate \<Rightarrow> bool \<times> 'p kstate" where
  "kSchedShouldReschedule E s =
    (let s = K_DYNAMIC_ASSERT (gOpsInitialized s) s
     in if gOpsInitialized s then kSchedShouldRescheduleFn (ops E) s else (False, fault NullDeref s))"

definition kSchedTaskLsrOutCallback :: "'p kEnv \<Rightarrow> addr \<Rightarrow> 'p kstate \<Rightarrow> 'p kstate" where
  "kSchedTaskLsrOutCallback E t = with_ops (kSchedTaskLsrOutCallbackFn (ops E) t)"

definition kSchedGetIdle :: "'p kEnv \<Rightarrow> u32 \<Rightarrow> 'p kstate \<Rightarrow> ptr \<times> 'p kstate" where
  "kSchedGetIdle E c s =
    (let s = K_DYNAMIC_ASSERT (gOpsInitialized s) s
     in if gOpsInitialized s then kSchedGetIdleFn (ops E) c s else (None, fault NullDeref s))"

definition K_SCHED_IDLE_TASK_ID :: "'p kEnv \<Rightarrow> 'p kstate \<Rightarrow> u32" where
  "K_SCHED_IDLE_TASK_ID E s = word_of_nat (KMAX_TASKS E) + thisCpu s"

text \<open>
  With assertions enabled, \<open>kSchedTaskAdd\<close> is called inside the assertion.
\<close>

definition kSchedTaskIdleInit :: "'p kEnv \<Rightarrow> addr \<Rightarrow> 'p kstate \<Rightarrow> 'p kstate" where
  "kSchedTaskIdleInit E idle s =
    (let s = upd_task idle (\<lambda>r. r\<lparr>cpuId := thisCpu s, ttype := K_TASK_IDLE,
                                   tstate := K_TASK_STATE_READY\<rparr>) s;
         s = emit (EvIdleCtxInit idle) s;
         (r, s) = kSchedTaskAdd E (K_SCHED_IDLE_TASK_ID E s) idle s;
         s = K_DYNAMIC_ASSERT (is_ok r) s
     in emit (EvActivation (thisCpu s) (gPluginsDone s) idle) s)"

lemma with_ops_simp [simp]: "gOpsInitialized s \<Longrightarrow> with_ops f s = f s"
  by (simp add: with_ops_def)

subsection \<open>The task table\<close>

lemma kSchedTaskAdd_can: "is_ok (fst (kSchedTaskAdd E tid t s)) = kSchedTaskCanAdd E tid s"
  by (auto simp: kSchedTaskAdd_def kSchedTaskCanAdd_def)

lemma kSchedTaskAdd_get:
  assumes "kSchedTaskCanAdd E tid s"
  shows "kSchedTaskGet E tid (snd (kSchedTaskAdd E tid t s)) = Some t"
    and "taskId (tasks (snd (kSchedTaskAdd E tid t s)) t) = tid"
    and "tid' \<noteq> tid \<Longrightarrow> kSchedTaskGet E tid' (snd (kSchedTaskAdd E tid t s)) = kSchedTaskGet E tid' s"
  using assms
  by (auto simp: kSchedTaskAdd_def kSchedTaskCanAdd_def kSchedTaskGet_def unsigned_word_eqI
      dest: word_unat_eq_iff[THEN iffD2])

lemma kSchedTaskAdd_error:
  "\<not> kSchedTaskCanAdd E tid s \<Longrightarrow> kSchedTaskAdd E tid t s = (Inl EINVAL, s)"
  by (auto simp: kSchedTaskAdd_def kSchedTaskCanAdd_def)

end
