(* ===== verification/Tick.thy ===== *)
theory Tick
  imports Sched
begin

text \<open>
  \<^verbatim>\<open>kTick.c\<close>: the tick machine. \<open>kTickTaskLoadNextState\<close> is the one place where a task
  changes state: it puts the task into the container of its new state and reports the change
  to the callbacks. The entries are \<open>kTickTransition\<close> (one per tick and CPU), \<open>kTickLsrPush\<close>,
  \<open>kTickLsrPushCurrent\<close> and \<open>kTickReschedule\<close> (the interrupt path) and \<open>kTickSwitchRunningTask\<close>
  (the running task gives the CPU up). The loops that empty a container take as fuel the number
  of nodes it holds when they start; running out of it would record \<open>StuckLoop\<close>.
\<close>

abbreviation mach :: "'p kstate \<Rightarrow> kTickMachine" where
  "mach s \<equiv> gTickMachines s (thisCpu s)"

definition upd_mach :: "(kTickMachine \<Rightarrow> kTickMachine) \<Rightarrow> 'p kstate \<Rightarrow> 'p kstate" where
  "upd_mach f s = upd_machine (thisCpu s) f s"

definition deref :: "ptr \<Rightarrow> (addr \<Rightarrow> 'p kstate \<Rightarrow> 'p kstate) \<Rightarrow> 'p kstate \<Rightarrow> 'p kstate" where
  "deref p f s = (case p of None \<Rightarrow> fault NullDeref s | Some t \<Rightarrow> f t s)"

definition kTickGetMachine :: "'p kstate \<Rightarrow> kTickMachine" where
  "kTickGetMachine s = mach s"

definition kTickGetRunningTask :: "'p kstate \<Rightarrow> ptr" where
  "kTickGetRunningTask s = runningTask (kTickGetMachine s)"

definition kTickThrottleTimeLeft :: "addr \<Rightarrow> 'p kstate \<Rightarrow> u32" where
  "kTickThrottleTimeLeft t s =
    deltaChainTimeUntil (replenishNodes s) (replenishmentChain (mach s)) t"

definition replenish_insert :: "u32 \<Rightarrow> addr \<Rightarrow> u32 \<Rightarrow> 'p kstate \<Rightarrow> 'p kstate" where
  "replenish_insert c t d s =
    (case deltaChainInsert (replenishNodes s) (replenishmentChain (gTickMachines s c)) t d of
       (ns, chain) \<Rightarrow>
         upd_machine c (\<lambda>m. m\<lparr>replenishmentChain := chain\<rparr>) (s\<lparr>replenishNodes := ns\<rparr>))"

definition sleep_insert :: "u32 \<Rightarrow> addr \<Rightarrow> u32 \<Rightarrow> 'p kstate \<Rightarrow> 'p kstate" where
  "sleep_insert c t d s =
    (case deltaChainInsert (sleepNodes s) (sleepChain (gTickMachines s c)) t d of
       (ns, chain) \<Rightarrow>
         upd_machine c (\<lambda>m. m\<lparr>sleepChain := chain\<rparr>) (s\<lparr>sleepNodes := ns\<rparr>))"

text \<open>\<open>kCpuTaskLsrPush\<close> as the architecture implements it: back to the stack of its vector.\<close>

definition kCpuTaskLsrPush :: "'p kEnv \<Rightarrow> addr \<Rightarrow> 'p kstate \<Rightarrow> 'p kstate" where
  "kCpuTaskLsrPush E t s =
    (let c = cpuId (tasks s t);
         s = K_DYNAMIC_ASSERT (cpuValid E c) s;
         v = lsrVector (tasks s t)
     in s\<lparr>archLsrs := (archLsrs s)(c := (archLsrs s c)(v := t # archLsrs s c v))\<rparr>)"

subsection \<open>Changing the state of a task\<close>

definition load_throttled :: "'p kEnv \<Rightarrow> addr \<Rightarrow> 'p kstate \<Rightarrow> 'p kstate" where
  "load_throttled E t s =
    (let s = K_DYNAMIC_ASSERT (ttype (tasks s t) = K_TASK_THREAD) s
     in case alg E of
          DS \<Rightarrow> s
        | BCS \<Rightarrow>
            let tk = tick (tasks s t);
                p = period tk
            in if lag tk
               then let s = K_DYNAMIC_ASSERT (sleepTicks tk > 0) s;
                        s = K_DYNAMIC_ASSERT (period tk \<ge> sleepTicks tk) s;
                        p = p - (sleepTicks tk - 1);
                        s = upd_task t (upd_tick (\<lambda>k. k\<lparr>lag := False\<rparr>)) s
                    in replenish_insert (thisCpu s) t p s
               else replenish_insert (thisCpu s) t p s)"

definition load_running :: "addr \<Rightarrow> 'p kstate \<Rightarrow> 'p kstate" where
  "load_running t s =
    (let s = K_DYNAMIC_ASSERT (ttype (tasks s t) \<noteq> K_TASK_IDLE \<or> curDomain (tdomain (tasks s t)) = None) s;
         s = (if ttype (tasks s t) \<noteq> K_TASK_IDLE
              then emit (EvEnterDomain (thisCpu s) (curDomain (tdomain (tasks s t)))) s else s);
         s = emit (EvRestoreCtx (thisCpu s) t) s;
         s = upd_mach (\<lambda>m. m\<lparr>runningTask := Some t\<rparr>) s
     in run_callback (inCallbackFn (callbacks (tasks s t))) t s)"

text \<open>The \<open>switch\<close> over the new state.\<close>

fun load_enter :: "'p kEnv \<Rightarrow> addr \<Rightarrow> kSchedState \<Rightarrow> 'p kstate \<Rightarrow> 'p kstate" where
  "load_enter E t K_TASK_STATE_READY s =
    kSchedTaskPush E t (K_DYNAMIC_ASSERT (ttype (tasks s t) \<noteq> K_TASK_LSR) s)"
| "load_enter E t K_TASK_STATE_RUNNING s = load_running t s"
| "load_enter E t K_TASK_STATE_THREAD_THROTTLED s = load_throttled E t s"
| "load_enter E t K_TASK_STATE_LSR_DORMANT s =
    kCpuTaskLsrPush E t (K_DYNAMIC_ASSERT (ttype (tasks s t) = K_TASK_LSR) s)"
| "load_enter E t K_TASK_STATE_THREAD_DEFTICK_YIELD s =
    upd_mach (\<lambda>m. m\<lparr>deferredTicks := t # deferredTicks m\<rparr>)
      (K_DYNAMIC_ASSERT (ttype (tasks s t) = K_TASK_THREAD) s)"
| "load_enter E t K_TASK_STATE_THREAD_DEFTICK_THROTTLE s =
    upd_mach (\<lambda>m. m\<lparr>deferredTicks := t # deferredTicks m\<rparr>)
      (K_DYNAMIC_ASSERT (ttype (tasks s t) = K_TASK_THREAD) s)"
| "load_enter E t K_TASK_STATE_THREAD_DEFTICK_SLEEP s =
    upd_mach (\<lambda>m. m\<lparr>deferredTicks := t # deferredTicks m\<rparr>)
      (K_DYNAMIC_ASSERT (ttype (tasks s t) = K_TASK_THREAD) s)"
| "load_enter E t K_TASK_STATE_DEFTICK_PENDING s =
    upd_mach (\<lambda>m. m\<lparr>pendingTaskLsr := Some t, deferredTicks := t # deferredTicks m\<rparr>)
      (K_DYNAMIC_ASSERT (ttype (tasks s t) \<noteq> K_TASK_LSR) s)"
| "load_enter E t K_TASK_STATE_THREAD_SLEEP s =
    (let s = K_DYNAMIC_ASSERT (ttype (tasks s t) = K_TASK_THREAD) s;
         n = sleepTicks (tick (tasks s t));
         s = K_DYNAMIC_ASSERT (n > 0) s
     in sleep_insert (thisCpu s) t n s)"
| "load_enter E t K_TASK_STATE_PENDING s =
    upd_mach (\<lambda>m. m\<lparr>pendingTaskLsr := Some t\<rparr>)
      (K_DYNAMIC_ASSERT (ttype (tasks s t) \<noteq> K_TASK_LSR) s)"
| "load_enter E t K_TASK_STATE_LSR_PENDING s =
    upd_mach (\<lambda>m. m\<lparr>pendingLsrChain := t # pendingLsrChain m\<rparr>)
      (K_DYNAMIC_ASSERT (ttype (tasks s t) = K_TASK_LSR) s)"
| "load_enter E t K_TASK_STATE_FAILURE s = s"
| "load_enter E t K_TASK_STATE_INVALID s = K_DYNAMIC_ASSERT False s"

text \<open>The activation and response callbacks; the flag says whether one of them ran.\<close>

definition load_report ::
  "addr \<Rightarrow> kSchedState \<Rightarrow> kSchedState \<Rightarrow> 'p kstate \<Rightarrow> bool \<times> 'p kstate" where
  "load_report t old new s =
    (let was = K_SCHED_TASK_ACTIVATED old;
         now = K_SCHED_TASK_ACTIVATED new;
         cbs = callbacks (tasks s t)
     in if now \<and> \<not> was
        then let s = K_DYNAMIC_ASSERT (new \<noteq> K_TASK_STATE_RUNNING) s;
                 s = emit (EvActivation (thisCpu s) (gPluginsDone s) t) s
             in (True, run_callback (activationCallbackFn cbs) t s)
        else if \<not> now \<and> was
        then let s = emit (EvResponse (thisCpu s) (gPluginsDone s) t) s
             in (True, run_callback (responseCallbackFn cbs) t s)
        else (False, s))"

definition load_leave :: "'p kEnv \<Rightarrow> addr \<Rightarrow> kSchedState \<Rightarrow> bool \<Rightarrow> 'p kstate \<Rightarrow> 'p kstate" where
  "load_leave E t old callbackRan s =
    (if old = K_TASK_STATE_RUNNING
     then let s = (if ttype (tasks s t) = K_TASK_LSR then kSchedTaskLsrOutCallback E t s else s)
          in if \<not> callbackRan then run_callback (outCallbackFn (callbacks (tasks s t))) t s else s
     else s)"

definition kTickTaskLoadNextState :: "'p kEnv \<Rightarrow> addr \<Rightarrow> kSchedState \<Rightarrow> 'p kstate \<Rightarrow> 'p kstate" where
  "kTickTaskLoadNextState E t nextState s =
    (let oldState = tstate (tasks s t);
         s = K_DYNAMIC_ASSERT (ttype (tasks s t) \<noteq> K_TASK_INVALID) s;
         s = K_DYNAMIC_ASSERT (nextState \<noteq> K_TASK_STATE_INVALID) s
     in if oldState = nextState then s
        else let s = upd_task t (\<lambda>r. r\<lparr>tstate := nextState\<rparr>) s;
                 s = load_enter E t nextState s;
                 (callbackRan, s) = load_report t oldState nextState s
             in load_leave E t oldState callbackRan s)"

definition kTickTaskRunCallbacks :: "'p kEnv \<Rightarrow> addr \<Rightarrow> 'p kstate \<Rightarrow> 'p kstate" where
  "kTickTaskRunCallbacks E t s =
    run_callback (tickCallbackFn (callbacks (tasks s t))) t (kSchedTaskTickCallback E t s)"

definition kTickSchedTaskPop :: "'p kEnv \<Rightarrow> 'p kstate \<Rightarrow> ptr \<times> 'p kstate" where
  "kTickSchedTaskPop E s =
    (case kSchedTaskPop E s of
       (None, s) \<Rightarrow> (None, fault NullDeref (fault AssertFailed s))
     | (Some t, s) \<Rightarrow>
         let s = K_DYNAMIC_ASSERT (tstate (tasks s t) = K_TASK_STATE_READY) s;
             s = K_DYNAMIC_ASSERT (ttype (tasks s t) \<noteq> K_TASK_LSR) s
         in (Some t, s))"

text \<open>\<open>kTickTaskLoadNextState(kTickSchedTaskPop(), K_TASK_STATE_RUNNING)\<close>\<close>

definition run_next :: "'p kEnv \<Rightarrow> 'p kstate \<Rightarrow> 'p kstate" where
  "run_next E s =
    (case kTickSchedTaskPop E s of
       (p, s) \<Rightarrow> deref p (\<lambda>t. kTickTaskLoadNextState E t K_TASK_STATE_RUNNING) s)"

subsection \<open>The phases of a tick\<close>

definition replenish_task :: "'p kEnv \<Rightarrow> addr \<Rightarrow> 'p kstate \<Rightarrow> 'p kstate" where
  "replenish_task E t s =
    (let s = K_DYNAMIC_ASSERT (ttype (tasks s t) = K_TASK_THREAD) s
     in case alg E of
          BCS \<Rightarrow>
            let s = K_DYNAMIC_ASSERT (tstate (tasks s t) = K_TASK_STATE_THREAD_THROTTLED) s;
                s = upd_task t (upd_tick (\<lambda>k. k\<lparr>currentBudget := budget k\<rparr>)) s
            in kTickTaskLoadNextState E t K_TASK_STATE_READY s
        | DS \<Rightarrow>
            let s = upd_task t (upd_tick (\<lambda>k. k\<lparr>currentBudget := budget k\<rparr>)) s;
                s = replenish_insert (thisCpu s) t (period (tick (tasks s t))) s
            in if tstate (tasks s t) = K_TASK_STATE_THREAD_THROTTLED
               then kTickTaskLoadNextState E t K_TASK_STATE_READY s else s)"

fun replenish_loop :: "'p kEnv \<Rightarrow> nat \<Rightarrow> 'p kstate \<Rightarrow> 'p kstate" where
  "replenish_loop E n s =
    (case deltaChainPopExpired (replenishNodes s) (replenishmentChain (mach s)) of
       (None, _) \<Rightarrow> s
     | (Some t, chain) \<Rightarrow>
         (case n of
            0 \<Rightarrow> fault StuckLoop s
          | Suc n \<Rightarrow>
              let s = upd_mach (\<lambda>m. m\<lparr>replenishmentChain := chain\<rparr>) s
              in replenish_loop E n (replenish_task E t s)))"

definition kTickReplenishmentPeriod :: "'p kEnv \<Rightarrow> 'p kstate \<Rightarrow> 'p kstate" where
  "kTickReplenishmentPeriod E s =
    (case deltaChainTick (replenishNodes s) (replenishmentChain (mach s)) of
       (ns, chain) \<Rightarrow>
         let s = upd_mach (\<lambda>m. m\<lparr>replenishmentChain := chain\<rparr>) (s\<lparr>replenishNodes := ns\<rparr>)
         in replenish_loop E (length (chain_dq chain)) s)"

definition deferred_task :: "'p kEnv \<Rightarrow> addr \<Rightarrow> 'p kstate \<Rightarrow> 'p kstate" where
  "deferred_task E t s =
    (let state = tstate (tasks s t);
         s = K_DYNAMIC_ASSERT (ttype (tasks s t) \<noteq> K_TASK_LSR) s
     in if ttype (tasks s t) = K_TASK_IDLE
        then let s = K_DYNAMIC_ASSERT (state = K_TASK_STATE_DEFTICK_PENDING) s
             in kTickTaskLoadNextState E t K_TASK_STATE_PENDING (kTickTaskRunCallbacks E t s)
        else
          let s = K_DYNAMIC_ASSERT (state = K_TASK_STATE_THREAD_DEFTICK_YIELD
                \<or> state = K_TASK_STATE_THREAD_DEFTICK_THROTTLE
                \<or> state = K_TASK_STATE_DEFTICK_PENDING
                \<or> state = K_TASK_STATE_THREAD_DEFTICK_SLEEP) s;
              s = K_DYNAMIC_ASSERT (currentBudget (tick (tasks s t)) > 0) s;
              s = upd_task t (upd_tick (\<lambda>k. k\<lparr>currentBudget :=
                    (if state = K_TASK_STATE_THREAD_DEFTICK_THROTTLE then 0
                     else currentBudget k - 1)\<rparr>)) s
          in if state = K_TASK_STATE_THREAD_DEFTICK_SLEEP
             then kTickTaskLoadNextState E t K_TASK_STATE_THREAD_SLEEP (kTickTaskRunCallbacks E t s)
             else
               let nextState = (if state = K_TASK_STATE_DEFTICK_PENDING then K_TASK_STATE_PENDING
                                else K_TASK_STATE_READY);
                   (nextState, s) =
                     (if currentBudget (tick (tasks s t)) = 0
                      then if period (tick (tasks s t)) > 0
                              \<and> (alg E = DS \<longrightarrow> kTickThrottleTimeLeft t s > 1)
                           then (K_TASK_STATE_THREAD_THROTTLED,
                                 if state = K_TASK_STATE_DEFTICK_PENDING
                                 then upd_mach (\<lambda>m. m\<lparr>pendingTaskLsr := None\<rparr>) s else s)
                           else (nextState,
                                 upd_task t (upd_tick (\<lambda>k. k\<lparr>currentBudget := budget k\<rparr>)) s)
                      else (nextState, s))
               in kTickTaskLoadNextState E t nextState (kTickTaskRunCallbacks E t s))"

fun deferred_loop :: "'p kEnv \<Rightarrow> nat \<Rightarrow> 'p kstate \<Rightarrow> 'p kstate" where
  "deferred_loop E n s =
    (case deferredTicks (mach s) of
       [] \<Rightarrow> s
     | t # ts \<Rightarrow>
         (case n of
            0 \<Rightarrow> fault StuckLoop s
          | Suc n \<Rightarrow>
              let s = upd_mach (\<lambda>m. m\<lparr>deferredTicks := ts\<rparr>) s
              in deferred_loop E n (deferred_task E t s)))"

definition kTickHandleDeferredTicks :: "'p kEnv \<Rightarrow> 'p kstate \<Rightarrow> 'p kstate" where
  "kTickHandleDeferredTicks E s = deferred_loop E (length (deferredTicks (mach s))) s"

definition kTickRunningTask :: "'p kEnv \<Rightarrow> 'p kstate \<Rightarrow> 'p kstate" where
  "kTickRunningTask E s =
    deref (runningTask (mach s)) (\<lambda>t s.
      let s = K_DYNAMIC_ASSERT (tstate (tasks s t) = K_TASK_STATE_RUNNING) s;
          s = (if ttype (tasks s t) = K_TASK_THREAD
               then let s = K_DYNAMIC_ASSERT (currentBudget (tick (tasks s t)) > 0) s;
                        s = upd_task t (upd_tick (\<lambda>k. k\<lparr>currentBudget := currentBudget k - 1\<rparr>)) s;
                        shouldThrottle = (period (tick (tasks s t)) > 0
                          \<and> (alg E = DS \<longrightarrow> kTickThrottleTimeLeft t s > 1))
                    in if currentBudget (tick (tasks s t)) = 0 \<and> \<not> shouldThrottle
                       then upd_task t (upd_tick (\<lambda>k. k\<lparr>currentBudget := budget k\<rparr>)) s
                       else s
               else s)
      in kTickTaskRunCallbacks E t s) s"

definition woken_task :: "'p kEnv \<Rightarrow> addr \<Rightarrow> 'p kstate \<Rightarrow> 'p kstate" where
  "woken_task E t s =
    (let s = K_DYNAMIC_ASSERT (ttype (tasks s t) = K_TASK_THREAD) s;
         s = K_DYNAMIC_ASSERT (sleepTicks (tick (tasks s t)) > 0) s;
         tk = tick (tasks s t);
         s = (if currentBudget tk = 0
              then case alg E of
                     BCS \<Rightarrow>
                       if period tk \<ge> sleepTicks tk
                       then upd_task t (upd_tick (\<lambda>k. k\<lparr>lag := True\<rparr>)) s
                       else upd_task t (upd_tick (\<lambda>k. k\<lparr>currentBudget := budget k\<rparr>)) s
                   | DS \<Rightarrow>
                       if period tk = 0
                       then upd_task t (upd_tick (\<lambda>k. k\<lparr>currentBudget := budget k\<rparr>)) s
                       else s
              else s);
         nextState = (if currentBudget (tick (tasks s t)) = 0 then K_TASK_STATE_THREAD_THROTTLED
                      else K_TASK_STATE_READY)
     in kTickTaskLoadNextState E t nextState s)"

fun sleep_loop :: "'p kEnv \<Rightarrow> nat \<Rightarrow> 'p kstate \<Rightarrow> 'p kstate" where
  "sleep_loop E n s =
    (case deltaChainPopExpired (sleepNodes s) (sleepChain (mach s)) of
       (None, _) \<Rightarrow> s
     | (Some t, chain) \<Rightarrow>
         (case n of
            0 \<Rightarrow> fault StuckLoop s
          | Suc n \<Rightarrow>
              let s = upd_mach (\<lambda>m. m\<lparr>sleepChain := chain\<rparr>) s
              in sleep_loop E n (woken_task E t s)))"

definition kTickSleepPeriod :: "'p kEnv \<Rightarrow> 'p kstate \<Rightarrow> 'p kstate" where
  "kTickSleepPeriod E s =
    (case deltaChainTick (sleepNodes s) (sleepChain (mach s)) of
       (ns, chain) \<Rightarrow>
         let s = upd_mach (\<lambda>m. m\<lparr>sleepChain := chain\<rparr>) (s\<lparr>sleepNodes := ns\<rparr>)
         in sleep_loop E (length (chain_dq chain)) s)"

definition kTickPrepareLeaveRunningState :: "'p kstate \<Rightarrow> 'p kstate" where
  "kTickPrepareLeaveRunningState s =
    (case kTickGetRunningTask s of
       None \<Rightarrow> fault NullDeref (fault AssertFailed s)
     | Some t \<Rightarrow>
         let s = K_DYNAMIC_ASSERT (tstate (tasks s t) = K_TASK_STATE_RUNNING) s;
             s = upd_mach (\<lambda>m. m\<lparr>runningTask := None\<rparr>) s
         in emit (EvSaveCtx (thisCpu s) t) s)"

definition kTickReschedulingPoint :: "'p kEnv \<Rightarrow> 'p kstate \<Rightarrow> 'p kstate" where
  "kTickReschedulingPoint E s =
    (case kTickGetRunningTask s of
       None \<Rightarrow> fault NullDeref (fault AssertFailed s)
     | Some t \<Rightarrow>
         let s = K_DYNAMIC_ASSERT (tstate (tasks s t) = K_TASK_STATE_RUNNING) s;
             budgetDone = (ttype (tasks s t) = K_TASK_THREAD \<and> currentBudget (tick (tasks s t)) = 0);
             (reschedule, s) =
               (if \<not> budgetDone \<and> ttype (tasks s t) \<noteq> K_TASK_LSR then kSchedShouldReschedule E s
                else (False, s))
         in if budgetDone \<or> reschedule
            then let s = kTickPrepareLeaveRunningState s;
                     s = kTickTaskLoadNextState E t
                           (if reschedule then K_TASK_STATE_READY else K_TASK_STATE_THREAD_THROTTLED) s
                 in run_next E s
            else s)"

definition kTickTransition :: "'p kEnv \<Rightarrow> 'p kstate \<Rightarrow> 'p kstate" where
  "kTickTransition E s =
    (let s = kSchedTickTransitionCallback E s;
         s = (if alg E = BCS then kTickReplenishmentPeriod E s else s);
         s = kTickHandleDeferredTicks E s;
         s = kTickRunningTask E s;
         s = (if alg E = DS then kTickReplenishmentPeriod E s else s);
         s = kTickSleepPeriod E s
     in kTickReschedulingPoint E s)"

subsection \<open>Interrupts and switches\<close>

definition kTickLsrPush :: "'p kEnv \<Rightarrow> addr \<Rightarrow> 'p kstate \<Rightarrow> 'p kstate" where
  "kTickLsrPush E t s = kTickTaskLoadNextState E t K_TASK_STATE_LSR_PENDING s"

definition kTickLsrPushCurrent :: "'p kEnv \<Rightarrow> 'p kstate \<Rightarrow> 'p kstate" where
  "kTickLsrPushCurrent E s =
    (case runningTask (mach s) of
       None \<Rightarrow> s
     | Some t \<Rightarrow>
         let s = K_DYNAMIC_ASSERT (tstate (tasks s t) = K_TASK_STATE_RUNNING) s;
             s = kTickPrepareLeaveRunningState s
         in kTickTaskLoadNextState E t
              (if ttype (tasks s t) = K_TASK_LSR then K_TASK_STATE_LSR_PENDING
               else K_TASK_STATE_DEFTICK_PENDING) s)"

text \<open>The part of \<open>kTickReschedule\<close> after the running task has left: choose what runs next.\<close>

definition resume_pending :: "'p kEnv \<Rightarrow> addr \<Rightarrow> 'p kstate \<Rightarrow> 'p kstate" where
  "resume_pending E t s =
    (let s = K_DYNAMIC_ASSERT (ttype (tasks s t) \<noteq> K_TASK_LSR) s;
         s = (if ttype (tasks s t) = K_TASK_THREAD
              then K_DYNAMIC_ASSERT (currentBudget (tick (tasks s t)) \<noteq> 0) s else s);
         s = upd_mach (\<lambda>m. m\<lparr>pendingTaskLsr := None\<rparr>) s;
         s = (if tstate (tasks s t) = K_TASK_STATE_DEFTICK_PENDING
              then (case deferredTicks (mach s) of
                      [] \<Rightarrow> K_DYNAMIC_ASSERT False s
                    | d # ds \<Rightarrow>
                        K_DYNAMIC_ASSERT (d = t) (upd_mach (\<lambda>m. m\<lparr>deferredTicks := ds\<rparr>) s))
              else s);
         s = kTickTaskLoadNextState E t K_TASK_STATE_RUNNING s
     in kTickReschedulingPoint E s)"

definition dispatch_next :: "'p kEnv \<Rightarrow> ptr \<Rightarrow> 'p kstate \<Rightarrow> 'p kstate" where
  "dispatch_next E pendingTask s =
    (case pendingLsrChain (mach s) of
       l # ls \<Rightarrow>
         let s = upd_mach (\<lambda>m. m\<lparr>pendingLsrChain := ls\<rparr>) s;
             s = K_DYNAMIC_ASSERT (ttype (tasks s l) = K_TASK_LSR) s
         in kTickTaskLoadNextState E l K_TASK_STATE_RUNNING s
     | [] \<Rightarrow>
         (case pendingTask of
            None \<Rightarrow> run_next E s
          | Some t \<Rightarrow> resume_pending E t s))"

definition kTickReschedule :: "'p kEnv \<Rightarrow> 'p kstate \<Rightarrow> 'p kstate" where
  "kTickReschedule E s =
    (let pendingTask = pendingTaskLsr (mach s)
     in case runningTask (mach s) of
          Some t \<Rightarrow>
            let s = K_DYNAMIC_ASSERT (tstate (tasks s t) = K_TASK_STATE_RUNNING) s
            in if ttype (tasks s t) = K_TASK_LSR then s
               else let s = K_DYNAMIC_ASSERT (pendingTask = None) s
                    in if pendingLsrChain (mach s) = [] then s
                       else let s = kTickPrepareLeaveRunningState s;
                                s = kTickTaskLoadNextState E t K_TASK_STATE_DEFTICK_PENDING s
                            in dispatch_next E pendingTask s
        | None \<Rightarrow> dispatch_next E pendingTask s)"

definition kTickSwitchRunningTask :: "'p kEnv \<Rightarrow> kSchedState \<Rightarrow> 'p kstate \<Rightarrow> 'p kstate" where
  "kTickSwitchRunningTask E newState s =
    (let running = kTickGetRunningTask s;
         s = kTickPrepareLeaveRunningState s;
         s = deref running (\<lambda>t. kTickTaskLoadNextState E t newState) s
     in kTickReschedule E s)"

definition kTickPluginTaskThreadInit :: "'p kEnv \<Rightarrow> addr \<Rightarrow> 'p kstate \<Rightarrow> 'p kstate" where
  "kTickPluginTaskThreadInit E t s =
    (let s = K_DYNAMIC_ASSERT (\<not> gPluginsDone s) s;
         s = K_DYNAMIC_ASSERT (ttype (tasks s t) = K_TASK_THREAD) s;
         s = (if alg E = DS \<and> period (tick (tasks s t)) > 0
              then replenish_insert (cpuId (tasks s t)) t (period (tick (tasks s t))) s else s);
         s = K_DYNAMIC_ASSERT (tstate (tasks s t) = K_TASK_STATE_READY) s;
         s = kSchedTaskPush E t s
     in emit (EvActivation (thisCpu s) (gPluginsDone s) t) s)"

end
