(* ===== verification/Domain.thy ===== *)
theory Domain
  imports Tick
begin

text \<open>
  \<^verbatim>\<open>kDomainUniverse.c\<close>: the table of domains, and the invocation stack of the running task. The
  stack is specified by the list of its entries (\<open>inv_stack\<close>). A function that dereferences
  \<open>NULL\<close> records the fault and ends with \<open>EFAULT\<close>.
\<close>

subsection \<open>The domain table\<close>

definition kDomainUniverseGet :: "'p kEnv \<Rightarrow> u32 \<Rightarrow> 'p kstate \<Rightarrow> ptr" where
  "kDomainUniverseGet E did s =
    (if unat did \<ge> KMAX_DOMAINS E \<or> domainTable s (unat did) = None then None
     else domainTable s (unat did))"

definition kDomainUniverseAdd :: "'p kEnv \<Rightarrow> u32 \<Rightarrow> addr \<Rightarrow> 'p kstate \<Rightarrow> (errno + unit) \<times> 'p kstate" where
  "kDomainUniverseAdd E did d s =
    (if unat did \<ge> KMAX_DOMAINS E \<or> domainTable s (unat did) \<noteq> None then (Inl EINVAL, s)
     else (Inr (), s\<lparr>domainTable := (domainTable s)(unat did := Some d),
                     domains := (domains s)(d := (domains s d)\<lparr>domId := did\<rparr>)\<rparr>))"

definition kDomainUniverseCanAdd :: "'p kEnv \<Rightarrow> u32 \<Rightarrow> 'p kstate \<Rightarrow> bool" where
  "kDomainUniverseCanAdd E did s \<longleftrightarrow> unat did < KMAX_DOMAINS E \<and> domainTable s (unat did) = None"

definition kDomainUniverseAuthenticateInvocation ::
  "'p kEnv \<Rightarrow> u32 \<Rightarrow> ptr \<Rightarrow> 'p kstate \<Rightarrow> bool \<times> 'p kstate" where
  "kDomainUniverseAuthenticateInvocation E did invoking s =
    (if unat did < KMAX_DOMAINS E
     then (case domainTable s (unat did) of
             None \<Rightarrow> (False, s)
           | Some d \<Rightarrow>
               if valid (invocationIpc (invocationInfo (domains s d)))
               then (case invoking of
                       None \<Rightarrow> (False, fault NullDeref s)
                     | Some i \<Rightarrow> (bm_test (invokePermMap (invocationInfo (domains s i))) (unat did), s))
               else (False, s))
     else (False, s))"

text \<open>
  Who may invoke whom: the domain is in the table, it has a valid entry point for invocations, and
  the bit of its number is set in the permission map of the invoking domain.
\<close>

definition may_invoke :: "'p kEnv \<Rightarrow> u32 \<Rightarrow> addr \<Rightarrow> 'p kstate \<Rightarrow> bool" where
  "may_invoke E did i s \<longleftrightarrow>
    (\<exists>d. kDomainUniverseGet E did s = Some d \<and> valid (invocationIpc (invocationInfo (domains s d))))
    \<and> bm_test (invokePermMap (invocationInfo (domains s i))) (unat did)"

lemma authenticate_may_invoke:
  "kDomainUniverseAuthenticateInvocation E did (Some i) s = (may_invoke E did i s, s)"
  by (simp add: kDomainUniverseAuthenticateInvocation_def may_invoke_def kDomainUniverseGet_def
      split: option.splits)

text \<open>A domain that has been added is found under its number, and no other entry changes.\<close>

lemma kDomainUniverseAdd_get:
  assumes "kDomainUniverseCanAdd E did s"
  shows "fst (kDomainUniverseAdd E did d s) = Inr ()"
    and "kDomainUniverseGet E did (snd (kDomainUniverseAdd E did d s)) = Some d"
    and "domId (domains (snd (kDomainUniverseAdd E did d s)) d) = did"
    and "did' \<noteq> did \<Longrightarrow> kDomainUniverseGet E did' (snd (kDomainUniverseAdd E did d s)) = kDomainUniverseGet E did' s"
  using assms
  by (auto simp: kDomainUniverseAdd_def kDomainUniverseCanAdd_def kDomainUniverseGet_def
      dest: word_unat_eq_iff[THEN iffD2])

lemma kDomainUniverseAdd_error:
  "\<not> kDomainUniverseCanAdd E did s \<Longrightarrow> kDomainUniverseAdd E did d s = (Inl EINVAL, s)"
  by (auto simp: kDomainUniverseAdd_def kDomainUniverseCanAdd_def)

subsection \<open>The invocation stack\<close>

text \<open>The \<open>switch\<close> over the kind of invocation: which entry point it uses.\<close>

definition entry_point :: "kDomainInvocationType \<Rightarrow> kDomainInvocationInfo \<Rightarrow> kDomainEntryPoint option" where
  "entry_point ty i =
    (case ty of
       K_INVOCATION_IPC \<Rightarrow> Some (invocationIpc i)
     | K_INVOCATION_EXCEPTION_VMEM_FAULT \<Rightarrow> Some (invocationExceptionVmemFault i)
     | K_INVOCATION_EXCEPTION_ILLEGAL_OPCODE \<Rightarrow> Some (invocationExceptionIllegalOpcode i)
     | K_INVOCATION_EXCEPTION_ALIGNMENT \<Rightarrow> Some (invocationExceptionAlignment i)
     | K_INVOCATION_EXCEPTION_DEBUG \<Rightarrow> Some (invocationExceptionDebug i)
     | K_INVOCATION_EXCEPTION_ARITHMETIC \<Rightarrow> Some (invocationExceptionArithmetic i)
     | K_INVOCATION_EXCEPTION_OTHER \<Rightarrow> Some (invocationExceptionOther i)
     | K_INVOCATION_INVALID \<Rightarrow> None)"

definition push_entry :: "ptr \<Rightarrow> kDomainInvocationEntry \<Rightarrow> kTaskDomain \<Rightarrow> kTaskDomain" where
  "push_entry invoked e d =
    d\<lparr>curDomain := invoked,
      invocationStack := (invocationStack d)(unat (invocationStackDepth d) := e),
      invocationStackDepth := invocationStackDepth d + 1\<rparr>"

definition kDomainPushInvocationEntry ::
  "'p kEnv \<Rightarrow> ptr \<Rightarrow> kDomainInvocationType \<Rightarrow> u64 \<Rightarrow> u64 \<Rightarrow> u64 \<Rightarrow> 'p kstate \<Rightarrow> (errno + u64) \<times> 'p kstate" where
  "kDomainPushInvocationEntry E invokedDomain ty ret vmemFault err s =
    (case kTickGetRunningTask s of
       None \<Rightarrow> (Inl EFAULT, fault NullDeref s)
     | Some t \<Rightarrow>
         let depth = invocationStackDepth (tdomain (tasks s t));
             s = K_DYNAMIC_ASSERT (unat depth \<le> INVOCATION_DEPTH E) s
         in if unat depth = INVOCATION_DEPTH E
            then (Inl (if ty = K_INVOCATION_IPC then EINVAL else EFAULT), s)
            else if ty = K_INVOCATION_INVALID then (Inl EINVAL, s)
            else (case invokedDomain of
                    None \<Rightarrow> (Inl EFAULT, fault NullDeref s)
                  | Some d \<Rightarrow>
                      (case entry_point ty (invocationInfo (domains s d)) of
                         None \<Rightarrow> (Inl EINVAL, s)
                       | Some ep \<Rightarrow>
                           if \<not> valid ep then (Inl EINVAL, s)
                           else (Inr (entry_pc ep),
                             upd_task t (upd_domain (push_entry invokedDomain
                               \<lparr>invokingDomain = curDomain (tdomain (tasks s t)), invType = ty,
                                returnAddress = ret, vmemFaultAddress = vmemFault, errorCode = err\<rparr>)) s))))"

definition pop_entry :: "kTaskDomain \<Rightarrow> kTaskDomain" where
  "pop_entry d =
    (let depth = invocationStackDepth d - 1;
         e = invocationStack d (unat depth)
     in d\<lparr>invocationStack := (invocationStack d)(unat depth := e\<lparr>invType := K_INVOCATION_INVALID\<rparr>),
          invocationStackDepth := depth, curDomain := invokingDomain e\<rparr>)"

definition kDomainPopInvocationEntry :: "'p kstate \<Rightarrow> (errno + u64 \<times> ptr) \<times> 'p kstate" where
  "kDomainPopInvocationEntry s =
    (case kTickGetRunningTask s of
       None \<Rightarrow> (Inl EFAULT, fault NullDeref s)
     | Some t \<Rightarrow>
         let d = tdomain (tasks s t);
             depth = invocationStackDepth d
         in if depth = 0 then (Inl EINVAL, s)
            else let e = invocationStack d (unat (depth - 1))
                 in (Inr (returnAddress e, invokingDomain e), upd_task t (upd_domain pop_entry) s))"

text \<open>
  \<open>kDomainReadInvocationEntry\<close> returns a pointer to the top entry: the task whose stack it is in
  and the index.
\<close>

definition kDomainReadInvocationEntry :: "'p kstate \<Rightarrow> (addr \<times> nat) option \<times> 'p kstate" where
  "kDomainReadInvocationEntry s =
    (case kTickGetRunningTask s of
       None \<Rightarrow> (None, fault NullDeref s)
     | Some t \<Rightarrow>
         let depth = invocationStackDepth (tdomain (tasks s t))
         in if depth = 0 then (None, s) else (Some (t, unat (depth - 1)), s))"

definition stack_entry :: "'p kstate \<Rightarrow> addr \<times> nat \<Rightarrow> kDomainInvocationEntry" where
  "stack_entry s p = invocationStack (tdomain (tasks s (fst p))) (snd p)"

subsection \<open>The stack as a list\<close>

definition inv_stack :: "kTaskDomain \<Rightarrow> kDomainInvocationEntry list" where
  "inv_stack d = map (invocationStack d) [0..<unat (invocationStackDepth d)]"

text \<open>
  The stack of a task is within its bound, and each of its entries names a kind of invocation and
  the domain to return to, with an error code that a system call can return.
\<close>

definition dom_ok :: "nat \<Rightarrow> kTaskDomain \<Rightarrow> bool" where
  "dom_ok n d \<longleftrightarrow> length (inv_stack d) \<le> n
     \<and> (\<forall>e \<in> set (inv_stack d). invokingDomain e \<noteq> None \<and> invType e \<noteq> K_INVOCATION_INVALID
          \<and> 0 \<le> sint (errorCode e))"

lemma inv_stack_length [simp]: "length (inv_stack d) = unat (invocationStackDepth d)"
  by (simp add: inv_stack_def)

lemma push_entry_fields [simp]:
  "curDomain (push_entry p e d) = p"
  "invocationStackDepth (push_entry p e d) = invocationStackDepth d + 1"
  by (simp_all add: push_entry_def)

lemma push_entry_stack:
  assumes "unat (invocationStackDepth d) < 2 ^ 32 - 1"
  shows "inv_stack (push_entry p e d) = inv_stack d @ [e]"
proof -
  have "unat (invocationStackDepth d + 1) = Suc (unat (invocationStackDepth d))"
    using unat_add_small[of "invocationStackDepth d" 1] assms by simp
  then show ?thesis by (simp add: inv_stack_def push_entry_def)
qed

lemma pop_entry_stack:
  assumes "invocationStackDepth d \<noteq> 0"
  shows "inv_stack d = inv_stack (pop_entry d) @ [invocationStack d (unat (invocationStackDepth d - 1))]"
    and "curDomain (pop_entry d) = invokingDomain (last (inv_stack d))"
proof -
  have n: "unat (invocationStackDepth d) = Suc (unat (invocationStackDepth d - 1))"
    using unat_minus_one[OF assms] assms by (simp add: unat_gt_0)
  then show "inv_stack d = inv_stack (pop_entry d) @ [invocationStack d (unat (invocationStackDepth d - 1))]"
    by (simp add: inv_stack_def pop_entry_def Let_def)
  then show "curDomain (pop_entry d) = invokingDomain (last (inv_stack d))"
    by (simp add: pop_entry_def Let_def)
qed

lemma push_entry_ok:
  assumes "dom_ok n d" "unat (invocationStackDepth d) < n" "n < 2 ^ 32"
    and "invokingDomain e \<noteq> None" "invType e \<noteq> K_INVOCATION_INVALID" "0 \<le> sint (errorCode e)"
  shows "dom_ok n (push_entry p e d)"
proof -
  have "inv_stack (push_entry p e d) = inv_stack d @ [e]"
    by (rule push_entry_stack) (use assms(2,3) in simp)
  then show ?thesis using assms unfolding dom_ok_def by (auto simp del: inv_stack_length) simp
qed

lemma pop_entry_ok:
  assumes "dom_ok n d" "invocationStackDepth d \<noteq> 0"
  shows "dom_ok n (pop_entry d) \<and> curDomain (pop_entry d) \<noteq> None"
proof -
  obtain e where e: "inv_stack d = inv_stack (pop_entry d) @ [e]" "curDomain (pop_entry d) = invokingDomain e"
    using pop_entry_stack[OF assms(2)] by simp
  have "length (inv_stack d) = Suc (length (inv_stack (pop_entry d)))" unfolding e(1) by simp
  then show ?thesis using assms(1) e(2) unfolding dom_ok_def e(1) by (auto simp del: inv_stack_length)
qed

text \<open>Popping undoes pushing.\<close>

lemma pop_push:
  assumes "unat (invocationStackDepth d) < 2 ^ 32 - 1"
  shows "curDomain (pop_entry (push_entry p e d)) = invokingDomain e"
    and "inv_stack (pop_entry (push_entry p e d)) = inv_stack d"
    and "invocationStackDepth (pop_entry (push_entry p e d)) = invocationStackDepth d"
proof -
  let ?d = "push_entry p e d"
  have n: "unat (invocationStackDepth d + 1) = Suc (unat (invocationStackDepth d))"
    using unat_add_small[of "invocationStackDepth d" 1] assms by simp
  then have nz: "invocationStackDepth ?d \<noteq> 0" by (metis Zero_not_Suc push_entry_fields(2) unat_0)
  have "inv_stack d @ [e] = inv_stack (pop_entry ?d) @ [invocationStack ?d (unat (invocationStackDepth ?d - 1))]"
    using pop_entry_stack(1)[OF nz] push_entry_stack[OF assms] by simp
  then show "inv_stack (pop_entry ?d) = inv_stack d" by simp
  show "curDomain (pop_entry ?d) = invokingDomain e"
    using pop_entry_stack(2)[OF nz] push_entry_stack[OF assms] by simp
  show "invocationStackDepth (pop_entry ?d) = invocationStackDepth d"
    by (simp add: pop_entry_def Let_def)
qed

subsection \<open>The operations on the running task\<close>

lemma upd_domain_fields [simp]:
  "tdomain (upd_domain f r) = f (tdomain r)" "ttype (upd_domain f r) = ttype r" "cpuId (upd_domain f r) = cpuId r"
  "tstate (upd_domain f r) = tstate r" "tick (upd_domain f r) = tick r" "lsrVector (upd_domain f r) = lsrVector r"
  "callbacks (upd_domain f r) = callbacks r" "taskId (upd_domain f r) = taskId r" "threadTpr (upd_domain f r) = threadTpr r"
  by (simp_all add: upd_domain_def)

text \<open>
  The outcome of a push on a well formed stack: it fails, and changes nothing, exactly when the
  stack is full or the domain has no valid entry point of the kind.
\<close>

lemma kDomainPush_cases:
  assumes t: "kTickGetRunningTask s = Some t" and ok: "dom_ok (INVOCATION_DEPTH E) (tdomain (tasks s t))"
  shows "kDomainPushInvocationEntry E (Some d) ty ret vm err s =
    (if unat (invocationStackDepth (tdomain (tasks s t))) = INVOCATION_DEPTH E
     then (Inl (if ty = K_INVOCATION_IPC then EINVAL else EFAULT), s)
     else (case entry_point ty (invocationInfo (domains s d)) of
             None \<Rightarrow> (Inl EINVAL, s)
           | Some ep \<Rightarrow>
               if \<not> valid ep then (Inl EINVAL, s)
               else (Inr (entry_pc ep), upd_task t (upd_domain (push_entry (Some d)
                 \<lparr>invokingDomain = curDomain (tdomain (tasks s t)), invType = ty,
                  returnAddress = ret, vmemFaultAddress = vm, errorCode = err\<rparr>)) s)))"
proof -
  have "K_DYNAMIC_ASSERT (unat (invocationStackDepth (tdomain (tasks s t))) \<le> INVOCATION_DEPTH E) s = s"
    using ok by (simp add: dom_ok_def assert_holds)
  then show ?thesis using t
    by (cases ty) (simp_all add: kDomainPushInvocationEntry_def Let_def entry_point_def)
qed

text \<open>
  The tables of domains and of tasks are maps: a free number within the table is accepted, the entry is then
  found under it, and no other entry changes; any other request is refused and changes nothing.
\<close>

lemma domain_table_add_get:
  shows "if unat did < KMAX_DOMAINS E \<and> kDomainUniverseGet E did s = None
    then \<exists>s'. kDomainUniverseAdd E did d s = (Inr (), s') \<and> domId (domains s' d) = did
      \<and> (\<lambda>i. kDomainUniverseGet E i s') = (\<lambda>i. kDomainUniverseGet E i s)(did \<mapsto> d)
    else kDomainUniverseAdd E did d s = (Inl EINVAL, s)"
proof -
  have c: "(unat did < KMAX_DOMAINS E \<and> kDomainUniverseGet E did s = None) = kDomainUniverseCanAdd E did s"
    by (auto simp: kDomainUniverseGet_def kDomainUniverseCanAdd_def)
  let ?r = "kDomainUniverseAdd E did d s"
  have "?r = (Inr (), snd ?r)" if "kDomainUniverseCanAdd E did s"
    using kDomainUniverseAdd_get(1)[OF that, of d] by (cases ?r) simp
  then show ?thesis unfolding c
    using kDomainUniverseAdd_get(2-4)[of E did s] kDomainUniverseAdd_error[of E did s d] by (simp add: fun_eq_iff split: if_split) blast
qed

lemma task_table_add_get:
  shows "if unat tid < KMAX_TASKS E + KMAX_CPUS E \<and> kSchedTaskGet E tid s = None
    then \<exists>s'. kSchedTaskAdd E tid t s = (Inr (), s') \<and> taskId (tasks s' t) = tid
      \<and> (\<lambda>i. kSchedTaskGet E i s') = (\<lambda>i. kSchedTaskGet E i s)(tid \<mapsto> t)
    else kSchedTaskAdd E tid t s = (Inl EINVAL, s)"
proof -
  have c: "(unat tid < KMAX_TASKS E + KMAX_CPUS E \<and> kSchedTaskGet E tid s = None) = kSchedTaskCanAdd E tid s"
    by (auto simp: kSchedTaskGet_def kSchedTaskCanAdd_def ARRAY_LEN_kTasks_def)
  let ?r = "kSchedTaskAdd E tid t s"
  have "?r = (Inr (), snd ?r)" if "kSchedTaskCanAdd E tid s"
    using that by (cases ?r) (auto simp: kSchedTaskAdd_def kSchedTaskCanAdd_def)
  then show ?thesis unfolding c
    using kSchedTaskAdd_get[of E tid s] kSchedTaskAdd_error[of E tid s t] by (simp add: fun_eq_iff split: if_split) blast
qed

end
