(* ===== verification/Syscall.thy ===== *)
theory Syscall
  imports Domain
begin

text \<open>
  \<^verbatim>\<open>kSyscall.c\<close> and \<^verbatim>\<open>kSyscallHandler.c\<close>. A result is the bits of the \<open>intptr_t\<close> that the code
  returns. \<open>kCpuSelfIpi(fn)\<close> raises an interrupt on the own CPU whose handler calls \<open>fn\<close>, and goes on
  when the interrupted task runs again: the model calls \<open>fn\<close>. \<open>rip\<close> is the return address of the system
  call, which the architecture keeps in the saved registers; setting it is an event.
\<close>

subsection \<open>The numbers of the interface\<close>

definition WORKHORSE_SYS_INVOCATION_CTRL :: u64 where "WORKHORSE_SYS_INVOCATION_CTRL = 0"
definition WORKHORSE_SYS_SCHED_CTRL :: u64 where "WORKHORSE_SYS_SCHED_CTRL = 1"
definition WORKHORSE_SYS_GET_DOM_ID :: u64 where "WORKHORSE_SYS_GET_DOM_ID = 2"
definition WORKHORSE_SYS_GET_TASK_ID :: u64 where "WORKHORSE_SYS_GET_TASK_ID = 3"
definition WORKHORSE_SYS_GET_TASK_TYPE :: u64 where "WORKHORSE_SYS_GET_TASK_TYPE = 4"
definition WORKHORSE_SYS_GET_CPU_ID :: u64 where "WORKHORSE_SYS_GET_CPU_ID = 5"

definition WORKHORSE_INVOCATION_CTRL_DO_RETURN :: u64 where "WORKHORSE_INVOCATION_CTRL_DO_RETURN = 0"
definition WORKHORSE_INVOCATION_CTRL_DO_IPC :: u64 where "WORKHORSE_INVOCATION_CTRL_DO_IPC = 1"
definition WORKHORSE_INVOCATION_CTRL_GET_INVOCATIONS_AVAIL :: u64 where
  "WORKHORSE_INVOCATION_CTRL_GET_INVOCATIONS_AVAIL = 2"
definition WORKHORSE_INVOCATION_CTRL_GET_INVOKING_DOM_ID :: u64 where
  "WORKHORSE_INVOCATION_CTRL_GET_INVOKING_DOM_ID = 3"
definition WORKHORSE_INVOCATION_CTRL_GET_INVOCATION_TYPE :: u64 where
  "WORKHORSE_INVOCATION_CTRL_GET_INVOCATION_TYPE = 4"
definition WORKHORSE_INVOCATION_CTRL_GET_RETURN_ADDRESS :: u64 where
  "WORKHORSE_INVOCATION_CTRL_GET_RETURN_ADDRESS = 5"
definition WORKHORSE_INVOCATION_CTRL_GET_VMEM_FAULT_ADDRESS :: u64 where
  "WORKHORSE_INVOCATION_CTRL_GET_VMEM_FAULT_ADDRESS = 6"
definition WORKHORSE_INVOCATION_CTRL_GET_ERROR_CODE :: u64 where
  "WORKHORSE_INVOCATION_CTRL_GET_ERROR_CODE = 7"
definition WORKHORSE_INVOCATION_CTRL_SET_RETURN_ADDRESS :: u64 where
  "WORKHORSE_INVOCATION_CTRL_SET_RETURN_ADDRESS = 8"

definition WORKHORSE_SCHED_CTRL_YIELD :: u64 where "WORKHORSE_SCHED_CTRL_YIELD = 0"
definition WORKHORSE_SCHED_CTRL_THROTTLE :: u64 where "WORKHORSE_SCHED_CTRL_THROTTLE = 1"
definition WORKHORSE_SCHED_CTRL_LSR_DONE :: u64 where "WORKHORSE_SCHED_CTRL_LSR_DONE = 2"
definition WORKHORSE_SCHED_CTRL_FAILURE :: u64 where "WORKHORSE_SCHED_CTRL_FAILURE = 3"
definition WORKHORSE_SCHED_CTRL_SLEEP_MS :: u64 where "WORKHORSE_SCHED_CTRL_SLEEP_MS = 4"

lemmas sys_numbers =
  WORKHORSE_SYS_INVOCATION_CTRL_def WORKHORSE_SYS_SCHED_CTRL_def WORKHORSE_SYS_GET_DOM_ID_def
  WORKHORSE_SYS_GET_TASK_ID_def WORKHORSE_SYS_GET_TASK_TYPE_def WORKHORSE_SYS_GET_CPU_ID_def
  WORKHORSE_INVOCATION_CTRL_DO_RETURN_def WORKHORSE_INVOCATION_CTRL_DO_IPC_def
  WORKHORSE_INVOCATION_CTRL_GET_INVOCATIONS_AVAIL_def WORKHORSE_INVOCATION_CTRL_GET_INVOKING_DOM_ID_def
  WORKHORSE_INVOCATION_CTRL_GET_INVOCATION_TYPE_def WORKHORSE_INVOCATION_CTRL_GET_RETURN_ADDRESS_def
  WORKHORSE_INVOCATION_CTRL_GET_VMEM_FAULT_ADDRESS_def WORKHORSE_INVOCATION_CTRL_GET_ERROR_CODE_def
  WORKHORSE_INVOCATION_CTRL_SET_RETURN_ADDRESS_def
  WORKHORSE_SCHED_CTRL_YIELD_def WORKHORSE_SCHED_CTRL_THROTTLE_def WORKHORSE_SCHED_CTRL_LSR_DONE_def
  WORKHORSE_SCHED_CTRL_FAILURE_def WORKHORSE_SCHED_CTRL_SLEEP_MS_def

text \<open>\<open>WORKHORSE_INVOCATION_TYPE_*\<close>\<close>

fun invocation_type_number :: "kDomainInvocationType \<Rightarrow> u64" where
  "invocation_type_number K_INVOCATION_IPC = 0"
| "invocation_type_number K_INVOCATION_EXCEPTION_VMEM_FAULT = 1"
| "invocation_type_number K_INVOCATION_EXCEPTION_ILLEGAL_OPCODE = 2"
| "invocation_type_number K_INVOCATION_EXCEPTION_ALIGNMENT = 3"
| "invocation_type_number K_INVOCATION_EXCEPTION_DEBUG = 4"
| "invocation_type_number K_INVOCATION_EXCEPTION_ARITHMETIC = 5"
| "invocation_type_number K_INVOCATION_EXCEPTION_OTHER = 6"
| "invocation_type_number K_INVOCATION_INVALID = 0"

subsection \<open>Invocations\<close>

definition with_running :: "(addr \<Rightarrow> 'p kstate \<Rightarrow> u64 \<times> 'p kstate) \<Rightarrow> 'p kstate \<Rightarrow> u64 \<times> 'p kstate" where
  "with_running f s =
    (case kTickGetRunningTask s of None \<Rightarrow> (neg_errno EFAULT, fault NullDeref s) | Some t \<Rightarrow> f t s)"

definition enter_if_new :: "ptr \<Rightarrow> ptr \<Rightarrow> u64 \<Rightarrow> 'p kstate \<Rightarrow> u64 \<times> 'p kstate" where
  "enter_if_new newDomain curDom newPc s =
    (let s = (if newDomain \<noteq> curDom then emit (EvEnterDomain (thisCpu s) newDomain) s else s)
     in (0, emit (EvSyscallSetReturnAddress newPc) s))"

definition kInvocationCtrlDoReturn :: "'p kstate \<Rightarrow> u64 \<times> 'p kstate" where
  "kInvocationCtrlDoReturn = with_running (\<lambda>t s.
     let curDom = curDomain (tdomain (tasks s t))
     in case kDomainPopInvocationEntry s of
          (Inl e, s) \<Rightarrow> (neg_errno e, s)
        | (Inr (newPc, newDomain), s) \<Rightarrow> enter_if_new newDomain curDom newPc s)"

definition kInvocationCtrlDoIpc :: "'p kEnv \<Rightarrow> u64 \<Rightarrow> u64 \<Rightarrow> 'p kstate \<Rightarrow> u64 \<times> 'p kstate" where
  "kInvocationCtrlDoIpc E rip did = with_running (\<lambda>t s.
     let curDom = curDomain (tdomain (tasks s t))
     in case kDomainUniverseAuthenticateInvocation E (ucast did) curDom s of
          (False, s) \<Rightarrow> (neg_errno EINVAL, s)
        | (True, s) \<Rightarrow>
            let newDomain = kDomainUniverseGet E (ucast did) s
            in case kDomainPushInvocationEntry E newDomain K_INVOCATION_IPC rip 0 0 s of
                 (Inl e, s) \<Rightarrow> (neg_errno e, s)
               | (Inr newPc, s) \<Rightarrow> enter_if_new newDomain curDom newPc s)"

definition kInvocationCtrlGetInvocationsAvail :: "'p kEnv \<Rightarrow> 'p kstate \<Rightarrow> u64 \<times> 'p kstate" where
  "kInvocationCtrlGetInvocationsAvail E = with_running (\<lambda>t s.
     let bound = (word_of_nat (INVOCATION_DEPTH E) :: u32);
         depth = invocationStackDepth (tdomain (tasks s t));
         s = K_DYNAMIC_ASSERT (bound \<ge> depth) s
     in (ucast (bound - depth), s))"

text \<open>The functions that read the top entry of the stack.\<close>

definition with_entry ::
  "(addr \<times> nat \<Rightarrow> kDomainInvocationEntry \<Rightarrow> 'p kstate \<Rightarrow> u64 \<times> 'p kstate) \<Rightarrow> 'p kstate \<Rightarrow> u64 \<times> 'p kstate" where
  "with_entry f s =
    (case kDomainReadInvocationEntry s of
       (None, s) \<Rightarrow> (neg_errno EINVAL, s)
     | (Some p, s) \<Rightarrow> f p (stack_entry s p) s)"

definition kInvocationCtrlGetInvokingDomId :: "'p kstate \<Rightarrow> u64 \<times> 'p kstate" where
  "kInvocationCtrlGetInvokingDomId = with_entry (\<lambda>_ e s.
     case invokingDomain e of
       None \<Rightarrow> (neg_errno EFAULT, fault NullDeref (K_DYNAMIC_ASSERT False s))
     | Some d \<Rightarrow> (ucast (domId (domains s d)), s))"

definition kInvocationCtrlGetInvocationType :: "'p kstate \<Rightarrow> u64 \<times> 'p kstate" where
  "kInvocationCtrlGetInvocationType = with_entry (\<lambda>_ e s.
     (invocation_type_number (invType e), K_DYNAMIC_ASSERT (invType e \<noteq> K_INVOCATION_INVALID) s))"

definition kInvocationCtrlGetReturnAddress :: "'p kstate \<Rightarrow> u64 \<times> 'p kstate" where
  "kInvocationCtrlGetReturnAddress = with_entry (\<lambda>_ e s.
     if invType e = K_INVOCATION_IPC then (neg_errno EINVAL, s) else (returnAddress e, s))"

definition kInvocationCtrlGetVmemFaultAddress :: "'p kstate \<Rightarrow> u64 \<times> 'p kstate" where
  "kInvocationCtrlGetVmemFaultAddress = with_entry (\<lambda>_ e s.
     if invType e \<noteq> K_INVOCATION_EXCEPTION_VMEM_FAULT then (neg_errno EINVAL, s)
     else (vmemFaultAddress e, s))"

definition kInvocationCtrlGetErrorCode :: "'p kstate \<Rightarrow> u64 \<times> 'p kstate" where
  "kInvocationCtrlGetErrorCode = with_entry (\<lambda>_ e s.
     if invType e = K_INVOCATION_IPC then (neg_errno EINVAL, s)
     else (errorCode e, K_DYNAMIC_ASSERT (0 \<le> sint (errorCode e)) s))"

definition set_return :: "nat \<Rightarrow> u64 \<Rightarrow> kTaskDomain \<Rightarrow> kTaskDomain" where
  "set_return i a d = d\<lparr>invocationStack := (invocationStack d)(i := (invocationStack d i)\<lparr>returnAddress := a\<rparr>)\<rparr>"

definition kInvocationCtrlSetReturnAddress :: "u64 \<Rightarrow> 'p kstate \<Rightarrow> u64 \<times> 'p kstate" where
  "kInvocationCtrlSetReturnAddress a = with_entry (\<lambda>p e s.
     if invType e = K_INVOCATION_IPC then (neg_errno EINVAL, s)
     else (0, upd_task (fst p) (upd_domain (set_return (snd p) a)) s))"

definition kSysInvocationCtrl :: "'p kEnv \<Rightarrow> u64 \<Rightarrow> u64 \<Rightarrow> u64 \<Rightarrow> 'p kstate \<Rightarrow> u64 \<times> 'p kstate" where
  "kSysInvocationCtrl E rip ctrl val s =
    (if ctrl = WORKHORSE_INVOCATION_CTRL_DO_RETURN then kInvocationCtrlDoReturn s
     else if ctrl = WORKHORSE_INVOCATION_CTRL_DO_IPC then kInvocationCtrlDoIpc E rip val s
     else if ctrl = WORKHORSE_INVOCATION_CTRL_GET_INVOCATIONS_AVAIL then kInvocationCtrlGetInvocationsAvail E s
     else if ctrl = WORKHORSE_INVOCATION_CTRL_GET_INVOKING_DOM_ID then kInvocationCtrlGetInvokingDomId s
     else if ctrl = WORKHORSE_INVOCATION_CTRL_GET_INVOCATION_TYPE then kInvocationCtrlGetInvocationType s
     else if ctrl = WORKHORSE_INVOCATION_CTRL_GET_RETURN_ADDRESS then kInvocationCtrlGetReturnAddress s
     else if ctrl = WORKHORSE_INVOCATION_CTRL_GET_VMEM_FAULT_ADDRESS then kInvocationCtrlGetVmemFaultAddress s
     else if ctrl = WORKHORSE_INVOCATION_CTRL_GET_ERROR_CODE then kInvocationCtrlGetErrorCode s
     else if ctrl = WORKHORSE_INVOCATION_CTRL_SET_RETURN_ADDRESS then kInvocationCtrlSetReturnAddress val s
     else (neg_errno EINVAL, s))"

lemma neg_errno_nonzero: "neg_errno e \<noteq> 0"
  by (cases e) (simp_all add: neg_errno_def)

text \<open>
  The outcomes of an invocation. \<open>ipc_entry\<close> is the entry that the stack gets and \<open>ipc_target\<close> the
  domain that is entered.
\<close>

abbreviation ipc_entry :: "addr \<Rightarrow> u64 \<Rightarrow> kDomainInvocationEntry" where
  "ipc_entry i rip \<equiv> \<lparr>invokingDomain = Some i, invType = K_INVOCATION_IPC, returnAddress = rip,
     vmemFaultAddress = 0, errorCode = 0\<rparr>"

abbreviation ipc_target :: "'p kEnv \<Rightarrow> u64 \<Rightarrow> 'p kstate \<Rightarrow> ptr" where
  "ipc_target E did s \<equiv> kDomainUniverseGet E (ucast did) s"

lemma kInvocationCtrlDoIpc_cases:
  assumes t: "kTickGetRunningTask s = Some t" and ok: "dom_ok (INVOCATION_DEPTH E) (tdomain (tasks s t))"
    and i: "curDomain (tdomain (tasks s t)) = Some i"
  shows "kInvocationCtrlDoIpc E rip did s =
    (if may_invoke E (ucast did) i s \<and> length (inv_stack (tdomain (tasks s t))) < INVOCATION_DEPTH E
     then enter_if_new (ipc_target E did s) (Some i)
            (entry_pc (invocationIpc (invocationInfo (domains s (the (ipc_target E did s))))))
            (upd_task t (upd_domain (push_entry (ipc_target E did s) (ipc_entry i rip))) s)
     else (neg_errno EINVAL, s))"
proof (cases "may_invoke E (ucast did) i s")
  case False
  then show ?thesis using t i by (simp add: kInvocationCtrlDoIpc_def with_running_def authenticate_may_invoke)
next
  case True
  then obtain d where d: "ipc_target E did s = Some d" "valid (invocationIpc (invocationInfo (domains s d)))"
    by (auto simp: may_invoke_def)
  have "length (inv_stack (tdomain (tasks s t))) \<le> INVOCATION_DEPTH E" using ok by (simp add: dom_ok_def)
  then show ?thesis using True t i d
    by (simp add: kInvocationCtrlDoIpc_def with_running_def authenticate_may_invoke
      kDomainPush_cases[OF t ok] entry_point_def Let_def)
qed

lemma enter_if_new_fields [simp]:
  "fst (enter_if_new a b pc s) = 0" "tasks (snd (enter_if_new a b pc s)) = tasks s"
  "gTickMachines (snd (enter_if_new a b pc s)) = gTickMachines s" "thisCpu (snd (enter_if_new a b pc s)) = thisCpu s"
  "trace (snd (enter_if_new a b pc s)) =
    EvSyscallSetReturnAddress pc # (if a \<noteq> b then [EvEnterDomain (thisCpu s) a] else []) @ trace s"
  by (simp_all add: enter_if_new_def Let_def)

lemma kInvocationCtrlDoReturn_cases:
  assumes "kTickGetRunningTask s = Some t"
  shows "kInvocationCtrlDoReturn s =
    (let d = tdomain (tasks s t); e = last (inv_stack d) in
     if inv_stack d = [] then (neg_errno EINVAL, s)
     else enter_if_new (invokingDomain e) (curDomain d) (returnAddress e) (upd_task t (upd_domain pop_entry) s))"
proof (cases "invocationStackDepth (tdomain (tasks s t)) = 0")
  case True
  then show ?thesis using assms
    by (simp add: kInvocationCtrlDoReturn_def with_running_def kDomainPopInvocationEntry_def inv_stack_def)
next
  case False
  note e = pop_entry_stack(1)[OF False]
  then have "last (inv_stack (tdomain (tasks s t)))
      = invocationStack (tdomain (tasks s t)) (unat (invocationStackDepth (tdomain (tasks s t)) - 1))"
    by (metis last_snoc)
  moreover have "inv_stack (tdomain (tasks s t)) \<noteq> []" using False by (simp add: inv_stack_def unat_eq_0)
  ultimately show ?thesis using assms False
    by (simp add: kInvocationCtrlDoReturn_def with_running_def kDomainPopInvocationEntry_def Let_def)
qed

subsection \<open>Scheduling\<close>

definition kSchedCtrlYield :: "'p kEnv \<Rightarrow> 'p kstate \<Rightarrow> 'p kstate" where
  "kSchedCtrlYield E = kTickSwitchRunningTask E K_TASK_STATE_THREAD_DEFTICK_YIELD"

definition kSchedCtrlThrottle :: "'p kEnv \<Rightarrow> 'p kstate \<Rightarrow> 'p kstate" where
  "kSchedCtrlThrottle E = kTickSwitchRunningTask E K_TASK_STATE_THREAD_DEFTICK_THROTTLE"

definition kSchedCtrlLsrDone :: "'p kEnv \<Rightarrow> 'p kstate \<Rightarrow> 'p kstate" where
  "kSchedCtrlLsrDone E = kTickSwitchRunningTask E K_TASK_STATE_LSR_DORMANT"

definition kSchedCtrlFailure :: "'p kEnv \<Rightarrow> 'p kstate \<Rightarrow> 'p kstate" where
  "kSchedCtrlFailure E = kTickSwitchRunningTask E K_TASK_STATE_FAILURE"

definition kSchedCtrlSleepMs :: "'p kEnv \<Rightarrow> 'p kstate \<Rightarrow> 'p kstate" where
  "kSchedCtrlSleepMs E = kTickSwitchRunningTask E K_TASK_STATE_THREAD_DEFTICK_SLEEP"

definition kCpuSelfIpi :: "('p kstate \<Rightarrow> 'p kstate) \<Rightarrow> 'p kstate \<Rightarrow> 'p kstate" where
  "kCpuSelfIpi fn s = fn s"

definition sleep_ticks :: "u64 \<Rightarrow> u64 \<Rightarrow> u32" where
  "sleep_ticks tick_ms val = ucast (val div tick_ms + (if val mod tick_ms \<noteq> 0 then 1 else 0))"

definition kSysSchedCtrl :: "'p kEnv \<Rightarrow> u64 \<Rightarrow> u64 \<Rightarrow> 'p kstate \<Rightarrow> u64 \<times> 'p kstate" where
  "kSysSchedCtrl E ctrl val = with_running (\<lambda>t s.
     let ty = ttype (tasks s t)
     in if ctrl = WORKHORSE_SCHED_CTRL_YIELD
        then (if ty = K_TASK_THREAD then (0, kCpuSelfIpi (kSchedCtrlYield E) s) else (neg_errno EINVAL, s))
        else if ctrl = WORKHORSE_SCHED_CTRL_THROTTLE
        then (if ty = K_TASK_THREAD then (0, kCpuSelfIpi (kSchedCtrlThrottle E) s) else (neg_errno EINVAL, s))
        else if ctrl = WORKHORSE_SCHED_CTRL_LSR_DONE
        then (if ty = K_TASK_LSR then (0, kCpuSelfIpi (kSchedCtrlLsrDone E) s) else (neg_errno EINVAL, s))
        else if ctrl = WORKHORSE_SCHED_CTRL_FAILURE
        then (if ty = K_TASK_THREAD \<or> ty = K_TASK_LSR then (0, kCpuSelfIpi (kSchedCtrlFailure E) s)
              else (neg_errno EINVAL, s))
        else if ctrl = WORKHORSE_SCHED_CTRL_SLEEP_MS
        then (if ty \<noteq> K_TASK_THREAD \<or> val > 2 ^ 32 - 1 then (neg_errno EINVAL, s)
              else if val = 0 then (0, s)
              else (0, kCpuSelfIpi (kSchedCtrlSleepMs E)
                         (upd_task t (upd_tick (\<lambda>k. k\<lparr>sleepTicks := sleep_ticks (KTICK_MS E) val\<rparr>)) s)))
        else (neg_errno EINVAL, s))"

subsection \<open>Queries\<close>

definition kSysGetDomId :: "'p kstate \<Rightarrow> u64 \<times> 'p kstate" where
  "kSysGetDomId s =
    (let s = K_DYNAMIC_ASSERT (kTickGetRunningTask s \<noteq> None) s
     in with_running (\<lambda>t s. case curDomain (tdomain (tasks s t)) of
          None \<Rightarrow> (neg_errno EFAULT, fault NullDeref (K_DYNAMIC_ASSERT False s))
        | Some d \<Rightarrow> (ucast (domId (domains s d)), s)) s)"

definition kSysGetTaskId :: "'p kstate \<Rightarrow> u64 \<times> 'p kstate" where
  "kSysGetTaskId s =
    (let s = K_DYNAMIC_ASSERT (kTickGetRunningTask s \<noteq> None) s
     in with_running (\<lambda>t s. (ucast (taskId (tasks s t)), s)) s)"

text \<open>\<open>WORKHORSE_TASK_TYPE_*\<close>\<close>

definition kSysGetTaskType :: "'p kstate \<Rightarrow> u64 \<times> 'p kstate" where
  "kSysGetTaskType s =
    (let s = K_DYNAMIC_ASSERT (kTickGetRunningTask s \<noteq> None) s
     in with_running (\<lambda>t s. case ttype (tasks s t) of
          K_TASK_THREAD \<Rightarrow> (0, s)
        | K_TASK_LSR \<Rightarrow> (1, s)
        | K_TASK_IDLE \<Rightarrow> (2, s)
        | K_TASK_INVALID \<Rightarrow> (neg_errno EFAULT, K_DYNAMIC_ASSERT False s)) s)"

text \<open>
  \<open>g\<close> is the value of the macro \<open>KSYS_GET_CPU_ID\<close>, which the build does not define: the
  configuration defines \<open>CONFIG_KSYS_GET_CPU_ID\<close>.
\<close>

definition kSysGetCpuId :: "bool \<Rightarrow> 'p kstate \<Rightarrow> u64 \<times> 'p kstate" where
  "kSysGetCpuId g s =
    (if g then (let cpu = ucast (thisCpu s) in (cpu, K_DYNAMIC_ASSERT (0 \<le> sint cpu) s))
     else (neg_errno EINVAL, s))"

definition kSyscallHandler :: "'p kEnv \<Rightarrow> bool \<Rightarrow> u64 \<Rightarrow> u64 \<Rightarrow> u64 \<Rightarrow> u64 \<Rightarrow> 'p kstate \<Rightarrow> u64 \<times> 'p kstate" where
  "kSyscallHandler E g rip sys param1 param2 s =
    (if sys = WORKHORSE_SYS_INVOCATION_CTRL then kSysInvocationCtrl E rip param1 param2 s
     else if sys = WORKHORSE_SYS_SCHED_CTRL then kSysSchedCtrl E param1 param2 s
     else if sys = WORKHORSE_SYS_GET_DOM_ID then kSysGetDomId s
     else if sys = WORKHORSE_SYS_GET_TASK_ID then kSysGetTaskId s
     else if sys = WORKHORSE_SYS_GET_TASK_TYPE then kSysGetTaskType s
     else if sys = WORKHORSE_SYS_GET_CPU_ID then kSysGetCpuId g s
     else (neg_errno EINVAL, s))"

text \<open>The ticks of a sleep: the milliseconds rounded up to whole ticks, at least one.\<close>

lemma sleep_ticks_ceiling:
  assumes "0 < ms" "ms \<le> 2 ^ 32 - 1" "0 < tick_ms"
  shows "unat (sleep_ticks tick_ms ms) = (unat ms + unat tick_ms - 1) div unat tick_ms"
    and "0 < sleep_ticks tick_ms ms"
proof -
  let ?m = "unat ms" and ?k = "unat tick_ms"
  have k: "0 < ?k" and m: "0 < ?m" using assms(1,3) by (simp_all add: unat_gt_0 word_greater_zero_iff)
  have mb: "?m \<le> 2 ^ 32 - 1" using assms(2) by (simp add: word_le_nat_alt)
  define q where "q = ?m div ?k + (if ?m mod ?k \<noteq> 0 then 1 else 0)"
  have c: "q = (?m + ?k - 1) div ?k"
  proof (cases "?m mod ?k = 0")
    case True
    then obtain d where d: "?m = ?k * d" by (metis dvd_eq_mod_eq_0 dvd_def)
    have e: "?m + ?k - 1 = (?k - 1) + d * ?k" using k unfolding d by (simp add: mult.commute)
    have "(?m + ?k - 1) div ?k = d" unfolding e by (subst div_mult_self1) (use k in simp_all)
    then show ?thesis using True k by (simp add: q_def d)
  next
    case False
    have e: "?m + ?k - 1 = (?m mod ?k - 1) + (?m div ?k + 1) * ?k"
    proof -
      have "(?m div ?k + 1) * ?k = ?m div ?k * ?k + ?k" by simp
      moreover have "0 < ?m mod ?k" using False by simp
      ultimately show ?thesis using div_mult_mod_eq[of ?m ?k] by linarith
    qed
    have "?m mod ?k - 1 < ?k" using k by (simp add: less_imp_diff_less)
    then have "(?m + ?k - 1) div ?k = ?m div ?k + 1" unfolding e by (subst div_mult_self1) (use k in simp_all)
    then show ?thesis using False by (simp add: q_def)
  qed
  have q: "0 < q" "q \<le> ?m"
  proof -
    show "0 < q" using m k by (auto simp: q_def div_greater_zero_iff)
    show "q \<le> ?m"
    proof (cases "?m mod ?k = 0")
      case True then show ?thesis by (simp add: q_def div_le_dividend)
    next
      case False
      then have "?k \<ge> 2" using k by (cases "?k = 1") auto
      then have "?m div ?k < ?m" using m by simp
      then show ?thesis by (simp add: q_def)
    qed
  qed
  let ?w = "ms div tick_ms + (if ms mod tick_ms \<noteq> 0 then 1 else 0)"
  have "unat (ms div tick_ms + 1) = ?m div ?k + 1"
  proof -
    have "?m div ?k \<le> ?m" by (rule div_le_dividend)
    then have "?m div ?k \<le> 4294967295" using order_trans[OF _ mb] by simp
    then have "unat (ms div tick_ms) + unat (1::u64) < 2 ^ LENGTH(64)" by (simp add: unat_div)
    then show ?thesis using unat_add_small[of "ms div tick_ms" 1] by (simp add: unat_div)
  qed
  then have w: "unat ?w = q"
    by (simp add: q_def unat_div word_unat_eq_iff unat_mod)
  have "unat (sleep_ticks tick_ms ms) = q"
    unfolding sleep_ticks_def unsigned_ucast_eq by (simp only: unsigned_take_bit_eq w) (use q mb in \<open>simp add: take_bit_nat_def\<close>)
  then show "unat (sleep_ticks tick_ms ms) = (?m + ?k - 1) div ?k" "0 < sleep_ticks tick_ms ms"
    using c q(1) by (simp_all add: word_less_nat_alt)
qed

text \<open>A sleep lasts the milliseconds that were asked for, rounded up to whole ticks, and at least one.\<close>

lemma sleep_rounds_up:
  assumes "kTickGetRunningTask s = Some t" and "ttype (tasks s t) = K_TASK_THREAD"
    and "0 < ms" "ms \<le> 2 ^ 32 - 1" "0 < KTICK_MS E"
  shows "\<exists>k. kSysSchedCtrl E WORKHORSE_SCHED_CTRL_SLEEP_MS ms s =
      (0, kTickSwitchRunningTask E K_TASK_STATE_THREAD_DEFTICK_SLEEP (upd_task t (upd_tick (\<lambda>r. r\<lparr>sleepTicks := k\<rparr>)) s))
    \<and> unat k = (unat ms + unat (KTICK_MS E) - 1) div unat (KTICK_MS E) \<and> 0 < k"
  using sleep_ticks_ceiling[OF assms(3,4,5)] assms
  by (intro exI[of _ "sleep_ticks (KTICK_MS E) ms"])
    (auto simp: kSysSchedCtrl_def with_running_def sys_numbers kCpuSelfIpi_def kSchedCtrlSleepMs_def Let_def dest: leD)

end
