(* ===== verification/Handlers.thy ===== *)
theory Handlers
  imports Syscall
begin

text \<open>
  The handlers that the architecture calls (\<^verbatim>\<open>src/import/\<close>), and the part of \<^verbatim>\<open>ia32eCpu.c\<close> that
  decides which of them an interrupt, an exception or a system call reaches. What the hardware
  supplies, such as the vector, the registers and the fault address, is an argument.
\<close>

subsection \<open>Several CPUs\<close>

text \<open>
  \<open>kCpuInvokeAllRendezvous\<close> has every CPU run a routine and waits for all of them. Each runs on
  its own CPU, so the model runs them one after the other, in the order of \<open>cpus\<close>.
\<close>

definition on_cpu :: "u32 \<Rightarrow> ('p kstate \<Rightarrow> 'p kstate) \<Rightarrow> 'p kstate \<Rightarrow> 'p kstate" where
  "on_cpu c f s = (f (s\<lparr>thisCpu := c\<rparr>))\<lparr>thisCpu := thisCpu s\<rparr>"

definition kCpuInvokeAllRendezvous :: "u32 list \<Rightarrow> ('p kstate \<Rightarrow> 'p kstate) \<Rightarrow> 'p kstate \<Rightarrow> 'p kstate" where
  "kCpuInvokeAllRendezvous cpus f s = fold (\<lambda>c. on_cpu c f) cpus s"

text \<open>\<open>desync\<close> is \<open>CONFIG_KTICK_DESYNCHRONIZED\<close>.\<close>

definition kTickHandler :: "'p kEnv \<Rightarrow> bool \<Rightarrow> u32 list \<Rightarrow> 'p kstate \<Rightarrow> 'p kstate" where
  "kTickHandler E desync cpus s =
    (if desync then kTickTransition E s else kCpuInvokeAllRendezvous cpus (kTickTransition E) s)"

subsection \<open>Long service routines\<close>

datatype kLsrHandlerOp = K_LSR_OP_INVALID | K_LSR_OP_PUSH | K_LSR_OP_PUSH_CURRENT | K_LSR_OP_RESCHEDULE

definition kLsrHandler :: "'p kEnv \<Rightarrow> kLsrHandlerOp \<Rightarrow> ptr \<Rightarrow> 'p kstate \<Rightarrow> 'p kstate" where
  "kLsrHandler E op lsr s =
    (case op of
       K_LSR_OP_PUSH \<Rightarrow> deref lsr (kTickLsrPush E) s
     | K_LSR_OP_PUSH_CURRENT \<Rightarrow> kTickLsrPushCurrent E s
     | K_LSR_OP_RESCHEDULE \<Rightarrow> kTickReschedule E s
     | K_LSR_OP_INVALID \<Rightarrow> s)"

definition set_lsrs :: "u32 \<Rightarrow> u8 \<Rightarrow> addr list \<Rightarrow> 'p kstate \<Rightarrow> 'p kstate" where
  "set_lsrs c v ls s = s\<lparr>archLsrs := (archLsrs s)(c := (archLsrs s c)(v := ls))\<rparr>"

text \<open>
  The loop of \<open>ia32eIsrExternalHandler\<close>, with its flag \<open>pushed\<close>. It takes the LSRs of the vector
  off their stack one by one.
\<close>

fun lsr_loop :: "'p kEnv \<Rightarrow> u8 \<Rightarrow> nat \<Rightarrow> bool \<Rightarrow> 'p kstate \<Rightarrow> bool \<times> 'p kstate" where
  "lsr_loop E v n pushed s =
    (case archLsrs s (thisCpu s) v of
       [] \<Rightarrow> (pushed, s)
     | t # ts \<Rightarrow>
         (case n of
            0 \<Rightarrow> (pushed, fault StuckLoop s)
          | Suc n \<Rightarrow>
              let s = set_lsrs (thisCpu s) v ts s;
                  s = (if \<not> pushed then kLsrHandler E K_LSR_OP_PUSH_CURRENT None s else s);
                  s = K_DYNAMIC_ASSERT (ttype (tasks s t) = K_TASK_LSR) s;
                  s = K_DYNAMIC_ASSERT (tstate (tasks s t) = K_TASK_STATE_LSR_DORMANT) s;
                  s = kLsrHandler E K_LSR_OP_PUSH (Some t) s
              in lsr_loop E v n True s))"

definition ia32eIsrExternalHandler :: "'p kEnv \<Rightarrow> bool \<Rightarrow> u8 \<Rightarrow> 'p kstate \<Rightarrow> 'p kstate" where
  "ia32eIsrExternalHandler E handoffDone v s =
    (if \<not> handoffDone then s
     else case lsr_loop E v (length (archLsrs s (thisCpu s) v)) False s of
            (pushed, s) \<Rightarrow> if pushed then kLsrHandler E K_LSR_OP_RESCHEDULE None s else s)"

subsection \<open>Exceptions\<close>

definition IA32E_CANONICAL :: "u64 \<Rightarrow> bool" where
  "IA32E_CANONICAL p \<longleftrightarrow> drop_bit 47 p = 0 \<or> drop_bit 47 p = 0x1ffff"

definition ia32eCpuExceptionSetReturnAddress :: "u64 \<Rightarrow> 'p kstate \<Rightarrow> 'p kstate" where
  "ia32eCpuExceptionSetReturnAddress a s =
    K_DYNAMIC_ASSERT (IA32E_CANONICAL a) (emit (EvExceptionSetReturnAddress a) s)"

definition kExceptionHandler ::
  "'p kEnv \<Rightarrow> bool \<Rightarrow> kDomainInvocationType \<Rightarrow> u64 \<Rightarrow> u64 \<Rightarrow> u64 \<Rightarrow> 'p kstate \<Rightarrow> 'p kstate" where
  "kExceptionHandler E fail ty ret vmemFault err s =
    (let s = K_DYNAMIC_ASSERT (kTickGetRunningTask s \<noteq> None) s
     in deref (kTickGetRunningTask s) (\<lambda>t s.
          let d = curDomain (tdomain (tasks s t));
              s = K_DYNAMIC_ASSERT (d \<noteq> None) s
          in if \<not> fail
             then (case kDomainPushInvocationEntry E d ty ret vmemFault err s of
                     (Inr newPc, s) \<Rightarrow> ia32eCpuExceptionSetReturnAddress newPc s
                   | (Inl e, s) \<Rightarrow> kTickSwitchRunningTask E K_TASK_STATE_FAILURE s)
             else kTickSwitchRunningTask E K_TASK_STATE_FAILURE s) s)"

text \<open>The kind of exception that a vector raises in user mode.\<close>

definition exception_type :: "u8 \<Rightarrow> kDomainInvocationType" where
  "exception_type v =
    (if v = 14 then K_INVOCATION_EXCEPTION_VMEM_FAULT
     else if v = 6 then K_INVOCATION_EXCEPTION_ILLEGAL_OPCODE
     else if v = 17 then K_INVOCATION_EXCEPTION_ALIGNMENT
     else if v = 1 \<or> v = 3 then K_INVOCATION_EXCEPTION_DEBUG
     else if v = 0 \<or> v = 16 \<or> v = 19 then K_INVOCATION_EXCEPTION_ARITHMETIC
     else K_INVOCATION_EXCEPTION_OTHER)"

definition ia32eExceptionHandlerUser :: "'p kEnv \<Rightarrow> u8 \<Rightarrow> u64 \<Rightarrow> u64 \<Rightarrow> u64 \<Rightarrow> 'p kstate \<Rightarrow> 'p kstate" where
  "ia32eExceptionHandlerUser E v rip cr2 errcode =
    kExceptionHandler E False (exception_type v) rip (if v = 14 then cr2 else 0) errcode"

subsection \<open>Events between CPUs\<close>

definition ia32eIsrEventHandler ::
  "'p kEnv \<Rightarrow> bool \<Rightarrow> u32 list \<Rightarrow> bool \<Rightarrow> u32 \<Rightarrow> ('p kstate \<Rightarrow> 'p kstate) option \<Rightarrow> 'p kstate \<Rightarrow> 'p kstate" where
  "ia32eIsrEventHandler E desync cpus handoffDone ipiSender fn s =
    (let rendezvous = (thisCpu s \<noteq> ipiSender);
         rendezvous = (if desync then rendezvous \<and> \<not> handoffDone else rendezvous)
     in if rendezvous then (case fn of None \<Rightarrow> s | Some f \<Rightarrow> f s) else kTickHandler E desync cpus s)"

subsection \<open>System calls\<close>

record ia32eRegs =
  r15 :: u64
  r14 :: u64
  r13 :: u64
  r12 :: u64
  r11 :: u64
  r10 :: u64
  r9 :: u64
  r8 :: u64
  rsi :: u64
  rdi :: u64
  rdx :: u64
  rcx :: u64
  rbx :: u64
  rax :: u64
  rbp :: u64

definition zero_regs :: ia32eRegs where
  "zero_regs = \<lparr>r15 = 0, r14 = 0, r13 = 0, r12 = 0, r11 = 0, r10 = 0, r9 = 0, r8 = 0, rsi = 0, rdi = 0, rdx = 0,
     rcx = 0, rbx = 0, rax = 0, rbp = 0\<rparr>"

text \<open>The return address that the handler has left in the saved registers.\<close>

fun return_address :: "event list \<Rightarrow> u64 \<Rightarrow> u64" where
  "return_address [] a = a"
| "return_address (EvSyscallSetReturnAddress b # es) a = b"
| "return_address (_ # es) a = return_address es a"

definition ia32eSyscallHandler :: "'p kEnv \<Rightarrow> bool \<Rightarrow> ia32eRegs \<Rightarrow> 'p kstate \<Rightarrow> ia32eRegs \<times> 'p kstate" where
  "ia32eSyscallHandler E g regs s =
    (case kSyscallHandler E g (rcx regs) (rax regs) (rdi regs) (rsi regs) s of
       (ret, s') \<Rightarrow>
         (regs\<lparr>rax := ret,
               rcx := return_address (take (length (trace s') - length (trace s)) (trace s')) (rcx regs)\<rparr>, s'))"

text \<open>The values of the enumeration \<open>kDomainInvocationType_t\<close>, and \<open>WORKHORSE_INVOCATION_TYPE_OTHER\<close>.\<close>

definition invocation_kind :: "nat \<Rightarrow> kDomainInvocationType" where
  "invocation_kind k =
    (if k < 8 then [K_INVOCATION_INVALID, K_INVOCATION_IPC, K_INVOCATION_EXCEPTION_VMEM_FAULT,
       K_INVOCATION_EXCEPTION_ILLEGAL_OPCODE, K_INVOCATION_EXCEPTION_ALIGNMENT, K_INVOCATION_EXCEPTION_DEBUG,
       K_INVOCATION_EXCEPTION_ARITHMETIC, K_INVOCATION_EXCEPTION_OTHER] ! k
     else K_INVOCATION_INVALID)"

definition WORKHORSE_INVOCATION_TYPE_OTHER :: nat where
  "WORKHORSE_INVOCATION_TYPE_OTHER = 6"

text \<open>
  What \<open>ia32eSyscallHandlerStrict\<close> does after \<open>ia32eSyscallHandler\<close>, when the task that made the
  system call continues: an address that the return instruction cannot take is an exception.
\<close>

definition strict_exit :: "'p kEnv \<Rightarrow> bool \<Rightarrow> ia32eRegs \<Rightarrow> 'p kstate \<Rightarrow> ia32eRegs \<times> 'p kstate" where
  "strict_exit E g regs s =
    (if IA32E_CANONICAL (rcx regs) then (regs, s)
     else
       let s = K_DYNAMIC_ASSERT (kTickGetRunningTask s \<noteq> None) s
       in case kTickGetRunningTask s of
            None \<Rightarrow> (regs, fault NullDeref s)
          | Some t \<Rightarrow>
              let d = curDomain (tdomain (tasks s t));
                  s = K_DYNAMIC_ASSERT (d \<noteq> None) s
              in (case kDomainPushInvocationEntry E d (invocation_kind WORKHORSE_INVOCATION_TYPE_OTHER) (rcx regs) 0 0 s of
                    (Inl e, s) \<Rightarrow>
                      (regs, snd (kSyscallHandler E g (rcx regs) WORKHORSE_SYS_SCHED_CTRL WORKHORSE_SCHED_CTRL_FAILURE 0 s))
                  | (Inr newPc, s) \<Rightarrow> (regs\<lparr>rcx := newPc\<rparr>, K_DYNAMIC_ASSERT (IA32E_CANONICAL newPc) s)))"

definition ia32eSyscallHandlerStrict :: "'p kEnv \<Rightarrow> bool \<Rightarrow> ia32eRegs \<Rightarrow> 'p kstate \<Rightarrow> ia32eRegs \<times> 'p kstate" where
  "ia32eSyscallHandlerStrict E g regs s =
    (case ia32eSyscallHandler E g regs s of (regs, s) \<Rightarrow> strict_exit E g regs s)"

end
