(* ===== verification/TickInv.thy ===== *)
theory TickInv
  imports Tick
begin

text \<open>
  The invariant of the tick machine, and the contract of a scheduling policy. The contract is
  the locale \<open>sched_policy\<close>; inside it every operation of \<^verbatim>\<open>kTick.c\<close> is shown to keep the
  invariant and to record no fault. The policies interpret the locale.
\<close>

subsection \<open>The invariant\<close>

definition DEFTICK_STATES :: "kSchedState set" where
  "DEFTICK_STATES = {K_TASK_STATE_THREAD_DEFTICK_YIELD, K_TASK_STATE_THREAD_DEFTICK_THROTTLE,
     K_TASK_STATE_THREAD_DEFTICK_SLEEP, K_TASK_STATE_DEFTICK_PENDING}"

text \<open>States in which a thread holds budget.\<close>

definition BUDGET_STATES :: "kSchedState set" where
  "BUDGET_STATES = DEFTICK_STATES \<union> {K_TASK_STATE_READY, K_TASK_STATE_RUNNING, K_TASK_STATE_PENDING}"

text \<open>States in which a thread can be ticked without passing through the scheduler first.\<close>

definition TICKED_STATES :: "kSchedState set" where
  "TICKED_STATES = DEFTICK_STATES \<union> {K_TASK_STATE_RUNNING, K_TASK_STATE_PENDING}"

definition state_ok :: "kSchedTaskType \<Rightarrow> kSchedState \<Rightarrow> bool" where
  "state_ok ty st \<longleftrightarrow>
    (case ty of
       K_TASK_INVALID \<Rightarrow> False
     | K_TASK_THREAD \<Rightarrow>
         st \<notin> {K_TASK_STATE_INVALID, K_TASK_STATE_LSR_DORMANT, K_TASK_STATE_LSR_PENDING}
     | K_TASK_LSR \<Rightarrow>
         st \<in> {K_TASK_STATE_RUNNING, K_TASK_STATE_LSR_DORMANT, K_TASK_STATE_LSR_PENDING,
               K_TASK_STATE_FAILURE}
     | K_TASK_IDLE \<Rightarrow>
         st \<in> {K_TASK_STATE_READY, K_TASK_STATE_RUNNING, K_TASK_STATE_DEFTICK_PENDING,
               K_TASK_STATE_PENDING})"

definition live :: "'p kstate \<Rightarrow> u32 \<Rightarrow> addr \<Rightarrow> bool" where
  "live s c t \<longleftrightarrow> ttype (tasks s t) \<noteq> K_TASK_INVALID \<and> cpuId (tasks s t) = c"

text \<open>
  \<open>place_inv\<close>: the containers of machine \<open>M\<close> that hold task \<open>t\<close> are those its state names. A
  detached task (flag \<open>d\<close>) has been taken out of its container and is about to change state.
\<close>

definition place_inv ::
  "algorithm \<Rightarrow> kTickMachine \<Rightarrow> (u8 \<Rightarrow> addr list) \<Rightarrow> bool \<Rightarrow> addr \<Rightarrow> kSchedTask \<Rightarrow> bool" where
  "place_inv a M L d t r \<longleftrightarrow>
     (runningTask M = Some t \<longleftrightarrow> tstate r = K_TASK_STATE_RUNNING \<and> \<not> d)
   \<and> (t \<in> set (deferredTicks M) \<longleftrightarrow> tstate r \<in> DEFTICK_STATES \<and> \<not> d)
   \<and> (t \<in> set (pendingLsrChain M) \<longleftrightarrow> tstate r = K_TASK_STATE_LSR_PENDING \<and> \<not> d)
   \<and> (t \<in> set (chain_dq (sleepChain M)) \<longleftrightarrow> tstate r = K_TASK_STATE_THREAD_SLEEP \<and> \<not> d)
   \<and> (t \<in> set (chain_dq (replenishmentChain M)) \<longleftrightarrow>
        (case a of BCS \<Rightarrow> tstate r = K_TASK_STATE_THREAD_THROTTLED \<and> \<not> d
                 | DS \<Rightarrow> ttype r = K_TASK_THREAD \<and> period (tick r) > 0))
   \<and> (\<not> d \<longrightarrow> (pendingTaskLsr M = Some t \<longleftrightarrow>
        tstate r \<in> {K_TASK_STATE_PENDING, K_TASK_STATE_DEFTICK_PENDING}))
   \<and> (\<not> d \<and> tstate r = K_TASK_STATE_DEFTICK_PENDING \<longrightarrow> opt_hd (deferredTicks M) = Some t)
   \<and> (ttype r = K_TASK_LSR \<longrightarrow>
        (t \<in> set (L (lsrVector r)) \<longleftrightarrow> tstate r = K_TASK_STATE_LSR_DORMANT \<and> \<not> d))"

text \<open>
  \<open>local_inv\<close>: what the task's own fields satisfy. An exempt task (flag \<open>b\<close>) has been ticked
  and has not yet been throttled.
\<close>

definition local_inv :: "(u32 \<Rightarrow> addr) \<Rightarrow> u32 \<Rightarrow> bool \<Rightarrow> bool \<Rightarrow> addr \<Rightarrow> kSchedTask \<Rightarrow> bool" where
  "local_inv idle c d b t r \<longleftrightarrow>
     state_ok (ttype r) (tstate r)
   \<and> (ttype r = K_TASK_IDLE \<longrightarrow> t = idle c \<and> curDomain (tdomain r) = None)
   \<and> (ttype r \<noteq> K_TASK_IDLE \<longrightarrow> curDomain (tdomain r) \<noteq> None)
   \<and> (ttype r = K_TASK_THREAD \<longrightarrow>
        budget (tick r) > 0
      \<and> (tstate r \<in> BUDGET_STATES \<and> \<not> b \<longrightarrow> currentBudget (tick r) > 0)
      \<and> (tstate r \<in> {K_TASK_STATE_THREAD_SLEEP, K_TASK_STATE_THREAD_DEFTICK_SLEEP} \<longrightarrow>
           sleepTicks (tick r) > 0)
      \<and> (tstate r = K_TASK_STATE_THREAD_THROTTLED \<longrightarrow> period (tick r) > 0)
      \<and> (lag (tick r) \<longrightarrow> d))"

text \<open>The containers themselves: no duplicates, and nothing but tasks of this CPU.\<close>

definition machine_inv :: "'p kstate \<Rightarrow> u32 \<Rightarrow> bool" where
  "machine_inv s c \<longleftrightarrow>
    (let M = gTickMachines s c in
       distinct (deferredTicks M) \<and> distinct (pendingLsrChain M)
     \<and> chain_wf (sleepNodes s) (sleepChain M)
     \<and> chain_wf (replenishNodes s) (replenishmentChain M)
     \<and> (\<forall>t \<in> set (deferredTicks M). live s c t)
     \<and> (\<forall>t \<in> set (pendingLsrChain M). live s c t)
     \<and> (\<forall>t \<in> set (chain_dq (sleepChain M)). live s c t)
     \<and> (\<forall>t \<in> set (chain_dq (replenishmentChain M)). live s c t)
     \<and> (\<forall>t. runningTask M = Some t \<longrightarrow> live s c t)
     \<and> (\<forall>t. pendingTaskLsr M = Some t \<longrightarrow> live s c t)
     \<and> (\<forall>v. distinct (archLsrs s c v))
     \<and> (\<forall>v. \<forall>t \<in> set (archLsrs s c v).
          live s c t \<and> ttype (tasks s t) = K_TASK_LSR \<and> lsrVector (tasks s t) = v))"

definition tick_inv :: "'p kEnv \<Rightarrow> u32 \<Rightarrow> addr set \<Rightarrow> addr set \<Rightarrow> 'p kstate \<Rightarrow> bool" where
  "tick_inv E c D B s \<longleftrightarrow>
     gOpsInitialized s \<and> cpuValid E c \<and> machine_inv s c
   \<and> live s c (idleAddr E c) \<and> ttype (tasks s (idleAddr E c)) = K_TASK_IDLE
   \<and> (\<forall>t. live s c t \<longrightarrow>
        place_inv (alg E) (gTickMachines s c) (archLsrs s c) (t \<in> D) t (tasks s t)
      \<and> local_inv (idleAddr E) c (t \<in> D) (t \<in> B) t (tasks s t))"

text \<open>The threads that the policy of CPU \<open>c\<close> must hold.\<close>

definition ready_set :: "'p kstate \<Rightarrow> u32 \<Rightarrow> addr set \<Rightarrow> addr set" where
  "ready_set s c D = {t. live s c t \<and> ttype (tasks s t) = K_TASK_THREAD
                         \<and> tstate (tasks s t) = K_TASK_STATE_READY \<and> t \<notin> D}"

subsection \<open>The contract of a scheduling policy\<close>

text \<open>A policy operation changes nothing but the policy's own data.\<close>

definition pol_only :: "'p kstate \<Rightarrow> 'p kstate \<Rightarrow> bool" where
  "pol_only s s' \<longleftrightarrow> s' = s\<lparr>pol := pol s'\<rparr>"

text \<open>
  What an operation on CPU \<open>c\<close> keeps, apart from the threads in \<open>V\<close>: that threads can be
  ticked, that threads are known, and the other CPUs.
\<close>

definition policy_keeps ::
  "(u32 \<Rightarrow> addr set \<Rightarrow> 'p kstate \<Rightarrow> bool) \<Rightarrow> (addr \<Rightarrow> 'p kstate \<Rightarrow> bool) \<Rightarrow>
   (addr \<Rightarrow> 'p kstate \<Rightarrow> bool) \<Rightarrow> u32 \<Rightarrow> addr set \<Rightarrow> 'p kstate \<Rightarrow> 'p kstate \<Rightarrow> bool" where
  "policy_keeps pinv tickable known c V s s' \<longleftrightarrow>
     pol_only s s'
   \<and> (\<forall>u. u \<notin> V \<longrightarrow> tickable u s \<longrightarrow> tickable u s')
   \<and> (\<forall>u. known u s \<longrightarrow> known u s')
   \<and> (\<forall>c' Q. c' \<noteq> c \<longrightarrow> pinv c' Q s \<longrightarrow> pinv c' Q s')"

text \<open>States that a policy cannot tell apart.\<close>

definition pol_same :: "'p kstate \<Rightarrow> 'p kstate \<Rightarrow> bool" where
  "pol_same s s' \<longleftrightarrow> pol s' = pol s
     \<and> (\<forall>t. ttype (tasks s' t) = ttype (tasks s t) \<and> cpuId (tasks s' t) = cpuId (tasks s t))"

locale sched_policy =
  fixes E :: "'p kEnv"
    and pinv :: "u32 \<Rightarrow> addr set \<Rightarrow> 'p kstate \<Rightarrow> bool"
    and tickable :: "addr \<Rightarrow> 'p kstate \<Rightarrow> bool"
    and known :: "addr \<Rightarrow> 'p kstate \<Rightarrow> bool"
  assumes pinv_same: "pol_same s s' \<Longrightarrow> pinv c Q s \<Longrightarrow> pinv c Q s'"
    and tickable_same: "pol_same s s' \<Longrightarrow> tickable t s \<Longrightarrow> tickable t s'"
    and known_same: "pol_same s s' \<Longrightarrow> known t s \<Longrightarrow> known t s'"
    and tick_law: "pinv (thisCpu s) Q s \<Longrightarrow>
      pinv (thisCpu s) Q (kSchedTickTransitionCallbackFn (ops E) s)
      \<and> policy_keeps pinv tickable known (thisCpu s) Q s (kSchedTickTransitionCallbackFn (ops E) s)"
    and push_law: "pinv (cpuId (tasks s t)) Q s \<Longrightarrow> ttype (tasks s t) = K_TASK_THREAD \<Longrightarrow> t \<notin> Q
      \<Longrightarrow> known t s \<Longrightarrow>
      pinv (cpuId (tasks s t)) (insert t Q) (kSchedPushFn (ops E) t s)
      \<and> policy_keeps pinv tickable known (cpuId (tasks s t)) (insert t Q) s (kSchedPushFn (ops E) t s)"
    and push_idle_law: "pinv (cpuId (tasks s t)) Q s \<Longrightarrow> ttype (tasks s t) = K_TASK_IDLE \<Longrightarrow>
      pinv (cpuId (tasks s t)) Q (kSchedPushFn (ops E) t s)
      \<and> policy_keeps pinv tickable known (cpuId (tasks s t)) {} s (kSchedPushFn (ops E) t s)"
    and pop_law: "pinv (thisCpu s) Q s \<Longrightarrow> Q = ready_set s (thisCpu s) {} \<Longrightarrow>
      policy_keeps pinv tickable known (thisCpu s) Q s (snd (kSchedTaskPopFn (ops E) s))
      \<and> (if Q = {}
         then fst (kSchedTaskPopFn (ops E) s) = Some (idleAddr E (thisCpu s))
            \<and> pinv (thisCpu s) {} (snd (kSchedTaskPopFn (ops E) s))
         else \<exists>t \<in> Q. fst (kSchedTaskPopFn (ops E) s) = Some t
            \<and> pinv (thisCpu s) (Q - {t}) (snd (kSchedTaskPopFn (ops E) s))
            \<and> tickable t (snd (kSchedTaskPopFn (ops E) s)))"
    and callback_law: "pinv (thisCpu s) Q s \<Longrightarrow> cpuId (tasks s t) = thisCpu s \<Longrightarrow> t \<notin> Q \<Longrightarrow>
      known t s \<or> ttype (tasks s t) \<noteq> K_TASK_THREAD \<Longrightarrow> tickable t s \<Longrightarrow>
      (tstate (tasks s t) = K_TASK_STATE_THREAD_DEFTICK_SLEEP \<Longrightarrow> sleepTicks (tick (tasks s t)) > 0) \<Longrightarrow>
      pinv (thisCpu s) Q (kSchedTaskTickCallbackFn (ops E) t s)
      \<and> policy_keeps pinv tickable known (thisCpu s) {t} s (kSchedTaskTickCallbackFn (ops E) t s)
      \<and> (ttype (tasks s t) = K_TASK_THREAD \<longrightarrow> currentBudget (tick (tasks s t)) > 0 \<longrightarrow>
         tstate (tasks s t) \<noteq> K_TASK_STATE_THREAD_DEFTICK_SLEEP \<longrightarrow>
         tickable t (kSchedTaskTickCallbackFn (ops E) t s))"
    and resched_law: "pinv (thisCpu s) Q s \<Longrightarrow> runningTask (mach s) = Some r \<Longrightarrow>
      tstate (tasks s r) = K_TASK_STATE_RUNNING \<Longrightarrow> cpuId (tasks s r) = thisCpu s \<Longrightarrow> r \<notin> Q \<Longrightarrow>
      pinv (thisCpu s) Q (snd (kSchedShouldRescheduleFn (ops E) s))
      \<and> policy_keeps pinv tickable known (thisCpu s) Q s (snd (kSchedShouldRescheduleFn (ops E) s))
      \<and> (fst (kSchedShouldRescheduleFn (ops E) s) \<longrightarrow> Q \<noteq> {})"
    and lsr_out_law: "pinv (cpuId (tasks s t)) Q s \<Longrightarrow> ttype (tasks s t) = K_TASK_LSR \<Longrightarrow>
      pinv (cpuId (tasks s t)) Q (kSchedTaskLsrOutCallbackFn (ops E) t s)
      \<and> policy_keeps pinv tickable known (cpuId (tasks s t)) {} s
          (kSchedTaskLsrOutCallbackFn (ops E) t s)"
    and tickable_other: "ttype (tasks s t) \<noteq> K_TASK_THREAD \<Longrightarrow> tickable t s"
begin

text \<open>The invariant of CPU \<open>c\<close>, with the policy's part.\<close>

definition kinv :: "u32 \<Rightarrow> addr set \<Rightarrow> addr set \<Rightarrow> 'p kstate \<Rightarrow> bool" where
  "kinv c D B s \<longleftrightarrow> tick_inv E c D B s \<and> pinv c (ready_set s c D) s
     \<and> (\<forall>t. live s c t \<longrightarrow> ttype (tasks s t) = K_TASK_THREAD \<longrightarrow>
          known t s \<and> (tstate (tasks s t) \<in> TICKED_STATES \<and> t \<notin> B \<longrightarrow> tickable t s))"

end

end
