(* ===== verification/TickReport.thy ===== *)
theory TickReport
  imports TickLoad
begin

text \<open>
  What the kernel reports to the architecture: a task that becomes active is reported once by the
  activation callback, one that stops being active once by the response callback, on the CPU that the
  task belongs to. \<open>replay\<close> reads a list of events and follows the set of active tasks. In the same
  way \<open>owners\<close> follows whose context is loaded on each CPU, and \<open>spaces\<close> whose page table;
  \<open>reported\<close> says that the events of an operation explain how all of this has changed.
\<close>

subsection \<open>Reading the events\<close>

definition activated :: "'p kstate \<Rightarrow> addr \<Rightarrow> bool" where
  "activated s t \<longleftrightarrow> K_SCHED_TASK_ACTIVATED (tstate (tasks s t))"

fun replay :: "(addr \<Rightarrow> bool) \<Rightarrow> event list \<Rightarrow> (addr \<Rightarrow> bool) option" where
  "replay A [] = Some A"
| "replay A (EvActivation c d t # es) = (if A t then None else replay (A(t := True)) es)"
| "replay A (EvResponse c d t # es) = (if A t then replay (A(t := False)) es else None)"
| "replay A (e # es) = replay A es"

fun silent :: "event \<Rightarrow> bool" where
  "silent (EvActivation c d t) = False"
| "silent (EvResponse c d t) = False"
| "silent (EvHandoff c) = False"
| "silent e = True"

text \<open>Neither a report nor an operation on a context or a page table.\<close>

fun still :: "event \<Rightarrow> bool" where
  "still (EvCallback f t) = True"
| "still (EvArmTimer c) = True"
| "still (EvSyscallSetReturnAddress pc) = True"
| "still (EvExceptionSetReturnAddress pc) = True"
| "still e = False"

lemma still_silent: "still e \<Longrightarrow> silent e"
  by (cases e) auto

text \<open>
  A context is saved on the CPU where it is loaded, and loaded on a CPU where none is; \<open>own c\<close> are
  the tasks of CPU \<open>c\<close>.
\<close>

fun owners :: "(u32 \<Rightarrow> ptr) \<Rightarrow> event list \<Rightarrow> (u32 \<Rightarrow> ptr) option" where
  "owners W [] = Some W"
| "owners W (EvSaveCtx c t # es) = (if W c = Some t then owners (W(c := None)) es else None)"
| "owners W (EvRestoreCtx c t # es) = (if W c = None then owners (W(c := Some t)) es else None)"
| "owners W (e # es) = owners W es"

fun spaces :: "(u32 \<Rightarrow> ptr) \<Rightarrow> event list \<Rightarrow> (u32 \<Rightarrow> ptr)" where
  "spaces sp [] = sp"
| "spaces sp (EvEnterDomain c d # es) = spaces (sp(c := d)) es"
| "spaces sp (e # es) = spaces sp es"

fun ctx_own :: "(u32 \<Rightarrow> addr \<Rightarrow> bool) \<Rightarrow> event \<Rightarrow> bool" where
  "ctx_own own (EvSaveCtx c t) = own c t"
| "ctx_own own (EvRestoreCtx c t) = own c t"
| "ctx_own own (EvTaskCtxInit t pc) = False"
| "ctx_own own (EvIdleCtxInit t) = False"
| "ctx_own own e = True"

lemma still_ctx_own: "still e \<Longrightarrow> ctx_own own e"
  by (cases e) auto

lemma owners_append: "owners A (es @ fs) = Option.bind (owners A es) (\<lambda>B. owners B fs)"
  by (induction A es rule: owners.induct) (auto simp del: fun_upd_apply)

lemma spaces_append: "spaces sp (es @ fs) = spaces (spaces sp es) fs"
  by (induction sp es rule: spaces.induct) (auto simp del: fun_upd_apply)

lemma still_owners: "list_all still es \<Longrightarrow> owners A es = Some A" "list_all still es \<Longrightarrow> spaces sp es = sp"
  by (induction es) (auto elim!: still.elims)

definition running :: "'p kstate \<Rightarrow> u32 \<Rightarrow> ptr" where
  "running s c = runningTask (gTickMachines s c)"

text \<open>The page table of the domain of the task that runs is loaded; an idle task uses any.\<close>

definition paged :: "'p kstate \<Rightarrow> (u32 \<Rightarrow> ptr) \<Rightarrow> bool" where
  "paged s sp \<longleftrightarrow> (\<forall>c t. running s c = Some t \<and> cpuId (tasks s t) = c \<and> ttype (tasks s t) \<noteq> K_TASK_IDLE
     \<longrightarrow> sp c = curDomain (tdomain (tasks s t)))"

definition switched :: "'p kstate \<Rightarrow> 'p kstate \<Rightarrow> event list \<Rightarrow> bool" where
  "switched s s' es \<longleftrightarrow> owners (running s) es = Some (running s')
     \<and> (\<forall>sp. paged s sp \<longrightarrow> paged s' (spaces sp es))"

lemma switched_trans: "switched s s' es \<Longrightarrow> switched s' s'' fs \<Longrightarrow> switched s s'' (es @ fs)"
  by (simp add: switched_def owners_append spaces_append)

lemma switched_still:
  assumes "list_all still es" "running s' = running s"
    and "\<And>t. ttype (tasks s' t) = ttype (tasks s t)" "\<And>t. cpuId (tasks s' t) = cpuId (tasks s t)"
    and "\<And>t. curDomain (tdomain (tasks s' t)) = curDomain (tdomain (tasks s t))"
  shows "switched s s' es"
  using assms by (simp add: switched_def still_owners paged_def)

text \<open>An event of CPU \<open>c\<close> that concerns a task of the set \<open>own\<close>; \<open>d\<close> is \<open>gPluginsDone\<close>.\<close>

fun report_on :: "u32 \<Rightarrow> (addr \<Rightarrow> bool) \<Rightarrow> bool \<Rightarrow> event \<Rightarrow> bool" where
  "report_on c own d (EvActivation c' d' t) = (c' = c \<and> own t \<and> d' = d)"
| "report_on c own d (EvResponse c' d' t) = (c' = c \<and> own t \<and> d' = d)"
| "report_on c own d (EvHandoff c') = False"
| "report_on c own d (EvSaveCtx c' t) = (c' = c \<and> own t)"
| "report_on c own d (EvRestoreCtx c' t) = (c' = c \<and> own t)"
| "report_on c own d (EvTaskCtxInit t pc) = False"
| "report_on c own d (EvIdleCtxInit t) = False"
| "report_on c own d e = True"

definition reported :: "u32 \<Rightarrow> 'p kstate \<Rightarrow> 'p kstate \<Rightarrow> bool" where
  "reported c s s' \<longleftrightarrow> (\<exists>es. trace s' = rev es @ trace s \<and> replay (activated s) es = Some (activated s')
     \<and> list_all (report_on c (live s c) (gPluginsDone s)) es \<and> switched s s' es)"

lemma replay_append: "replay A (es @ fs) = Option.bind (replay A es) (\<lambda>B. replay B fs)"
  by (induction A es rule: replay.induct) (auto simp del: fun_upd_apply)

lemma silent_replay: "list_all silent es \<Longrightarrow> replay A es = Some A"
proof (induction es)
  case (Cons e es) then show ?case by (cases e) auto
qed simp

lemma still_report_on: "still e \<Longrightarrow> report_on c own d e"
  by (cases e) auto

lemma reported_refl [simp]: "reported c s s"
  unfolding reported_def by (rule exI[of _ "[]"]) (simp add: switched_still)

lemma reported_trans:
  assumes "reported c s s'" "reported c s' s''"
    and "\<And>t. ttype (tasks s' t) = ttype (tasks s t) \<and> cpuId (tasks s' t) = cpuId (tasks s t)" "gPluginsDone s' = gPluginsDone s"
  shows "reported c s s''"
proof -
  obtain es where 1: "trace s' = rev es @ trace s" "replay (activated s) es = Some (activated s')"
      "list_all (report_on c (live s c) (gPluginsDone s)) es" "switched s s' es"
    using assms(1) by (auto simp: reported_def)
  have "live s' c = live s c" using assms(3) by (simp add: live_def fun_eq_iff)
  then obtain fs where 2: "trace s'' = rev fs @ trace s'" "replay (activated s') fs = Some (activated s'')"
      "list_all (report_on c (live s c) (gPluginsDone s)) fs" "switched s' s'' fs"
    using assms(2-4) by (auto simp: reported_def)
  show ?thesis
    unfolding reported_def using 1 2 by (intro exI[of _ "es @ fs"]) (simp add: replay_append switched_trans[of s s'])
qed

text \<open>The same for events of several CPUs: each report runs on the CPU of its task.\<close>

definition report_own :: "(u32 \<Rightarrow> addr \<Rightarrow> bool) \<Rightarrow> bool \<Rightarrow> event \<Rightarrow> bool" where
  "report_own own d e \<longleftrightarrow> (\<exists>c. report_on c (own c) d e)"

definition accounted :: "'p kstate \<Rightarrow> 'p kstate \<Rightarrow> bool" where
  "accounted s s' \<longleftrightarrow> (\<exists>es. trace s' = rev es @ trace s \<and> replay (activated s) es = Some (activated s')
     \<and> list_all (report_own (live s) (gPluginsDone s)) es \<and> switched s s' es)"

lemma report_own_simps [simp]:
  "report_own own d (EvActivation c d' t) \<longleftrightarrow> own c t \<and> d' = d"
  "report_own own d (EvResponse c d' t) \<longleftrightarrow> own c t \<and> d' = d"
  "\<not> report_own own d (EvHandoff c)"
  "report_own own d (EvSaveCtx c t) \<longleftrightarrow> own c t"
  "report_own own d (EvRestoreCtx c t) \<longleftrightarrow> own c t"
  "\<not> report_own own d (EvTaskCtxInit t pc)" "\<not> report_own own d (EvIdleCtxInit t)"
  by (auto simp: report_own_def)

lemma report_own_ctx: "report_own own d e \<Longrightarrow> ctx_own own e"
  by (cases e) auto

lemma reported_accounted: "reported c s s' \<Longrightarrow> accounted s s'"
  unfolding reported_def accounted_def report_own_def by (auto elim!: list.pred_mono_strong)

lemma accounted_refl [simp]: "accounted s s"
  by (rule reported_accounted[OF reported_refl])

lemma accounted_trans:
  assumes "accounted s s'" "accounted s' s''"
    and "\<And>t. ttype (tasks s' t) = ttype (tasks s t) \<and> cpuId (tasks s' t) = cpuId (tasks s t)" "gPluginsDone s' = gPluginsDone s"
  shows "accounted s s''"
proof -
  obtain es where 1: "trace s' = rev es @ trace s" "replay (activated s) es = Some (activated s')"
      "list_all (report_own (live s) (gPluginsDone s)) es" "switched s s' es"
    using assms(1) by (auto simp: accounted_def)
  have "live s' = live s" using assms(3) by (simp add: live_def fun_eq_iff)
  then obtain fs where 2: "trace s'' = rev fs @ trace s'" "replay (activated s') fs = Some (activated s'')"
      "list_all (report_own (live s) (gPluginsDone s)) fs" "switched s' s'' fs"
    using assms(2-4) by (auto simp: accounted_def)
  show ?thesis
    unfolding accounted_def using 1 2 by (intro exI[of _ "es @ fs"]) (simp add: replay_append switched_trans[of s s'])
qed

lemma activated_cpu [simp]: "activated (s\<lparr>thisCpu := c\<rparr>) = activated s" "activated (emit e s) = activated s"
  by (simp_all add: activated_def fun_eq_iff)

lemma running_cpu [simp]: "running (s\<lparr>thisCpu := c\<rparr>) = running s" "paged (s\<lparr>thisCpu := c\<rparr>) = paged s"
  by (simp_all add: running_def paged_def fun_eq_iff)

lemma switched_cpu [simp]: "switched (s\<lparr>thisCpu := c\<rparr>) s' = switched s s'" "switched s (s'\<lparr>thisCpu := c\<rparr>) = switched s s'"
  by (intro ext, simp add: switched_def)+

lemma accounted_cpu [simp]: "accounted (s\<lparr>thisCpu := c\<rparr>) s' = accounted s s'" "accounted s (s'\<lparr>thisCpu := c\<rparr>) = accounted s s'"
proof -
  have "live (s\<lparr>thisCpu := c\<rparr>) = live s" by (simp add: live_def fun_eq_iff)
  then show "accounted (s\<lparr>thisCpu := c\<rparr>) s' = accounted s s'" "accounted s (s'\<lparr>thisCpu := c\<rparr>) = accounted s s'"
    by (simp_all add: accounted_def)
qed

subsection \<open>Operations that report nothing\<close>

definition quiet :: "'p kstate \<Rightarrow> 'p kstate \<Rightarrow> bool" where
  "quiet s s' \<longleftrightarrow> (\<exists>es. trace s' = rev es @ trace s \<and> list_all still es)
     \<and> (\<forall>t. tstate (tasks s' t) = tstate (tasks s t) \<and> cpuId (tasks s' t) = cpuId (tasks s t)
          \<and> ttype (tasks s' t) = ttype (tasks s t)
          \<and> curDomain (tdomain (tasks s' t)) = curDomain (tdomain (tasks s t)))
     \<and> running s' = running s \<and> thisCpu s' = thisCpu s \<and> gPluginsDone s' = gPluginsDone s"

lemma quiet_same:
  assumes "trace s' = trace s" "tasks s' = tasks s" "thisCpu s' = thisCpu s" "gPluginsDone s' = gPluginsDone s"
    and "\<And>c. runningTask (gTickMachines s' c) = runningTask (gTickMachines s c)"
  shows "quiet s s'"
  unfolding quiet_def using assms by (intro conjI exI[of _ "[]"]) (simp_all add: running_def fun_eq_iff)

lemma quiet_refl [simp]: "quiet s s"
  by (rule quiet_same) simp_all

lemma quiet_trans [trans]:
  assumes "quiet s s'" "quiet s' s''" shows "quiet s s''"
proof -
  obtain es where "trace s' = rev es @ trace s" "list_all still es" using assms(1) by (auto simp: quiet_def)
  moreover obtain fs where "trace s'' = rev fs @ trace s'" "list_all still fs" using assms(2) by (auto simp: quiet_def)
  ultimately have "trace s'' = rev (es @ fs) @ trace s \<and> list_all still (es @ fs)" by simp
  then show ?thesis using assms unfolding quiet_def by metis
qed

lemma quiet_emit [simp]: "still e \<Longrightarrow> quiet s (emit e s)"
  unfolding quiet_def by (intro conjI exI[of _ "[e]"]) (simp_all add: running_def fun_eq_iff)

lemma quiet_run_callback [simp]: "quiet s (run_callback f t s)"
  by (simp add: run_callback_def split: option.split)

lemma quiet_assert [simp]: "quiet s (K_DYNAMIC_ASSERT b s)"
  by (rule quiet_same) (simp_all add: K_DYNAMIC_ASSERT_def fault_def)

lemma quiet_upd_mach [simp]: "(\<And>m. runningTask (f m) = runningTask m) \<Longrightarrow> quiet s (upd_mach f s)"
  by (rule quiet_same) (simp_all add: upd_mach_def)

lemma quiet_upd_tick [simp]: "quiet s (upd_task t (upd_tick f) s)"
  unfolding quiet_def by (intro conjI exI[of _ "[]"]) (simp_all add: running_def fun_eq_iff)

lemma quiet_pol_only: "pol_only s s' \<Longrightarrow> quiet s s'"
  by (rule quiet_same) (cases s; cases s'; simp add: pol_only_def)+

lemma quiet_switched:
  assumes "quiet s s'"
  shows "\<exists>es. trace s' = rev es @ trace s \<and> list_all still es \<and> list_all silent es
    \<and> list_all (report_on c own d) es \<and> switched s s' es"
proof -
  obtain es where es: "trace s' = rev es @ trace s" "list_all still es" using assms by (auto simp: quiet_def)
  have "list_all silent es" "list_all (report_on c own d) es"
    using es(2) by (auto elim!: list.pred_mono_strong intro: still_silent still_report_on)
  moreover have "switched s s' es"
    using assms by (intro switched_still[OF es(2)]) (auto simp: quiet_def)
  ultimately show ?thesis using es by blast
qed

text \<open>The same, for an operation that may load the context of a task of CPU \<open>c\<close>.\<close>

definition calm :: "u32 \<Rightarrow> 'p kstate \<Rightarrow> 'p kstate \<Rightarrow> bool" where
  "calm c s s' \<longleftrightarrow> (\<exists>es. trace s' = rev es @ trace s \<and> list_all silent es
       \<and> list_all (report_on c (live s c) (gPluginsDone s)) es \<and> switched s s' es)
     \<and> (\<forall>t. tstate (tasks s' t) = tstate (tasks s t) \<and> cpuId (tasks s' t) = cpuId (tasks s t)
          \<and> ttype (tasks s' t) = ttype (tasks s t))
     \<and> thisCpu s' = thisCpu s \<and> gPluginsDone s' = gPluginsDone s"

lemma quiet_calm: "quiet s s' \<Longrightarrow> calm c s s'"
  using quiet_switched[of s s' c "live s c" "gPluginsDone s"] unfolding calm_def by (auto simp: quiet_def)

lemma calm_reported:
  assumes "calm c s s'" shows "reported c s s'"
proof -
  obtain es where es: "trace s' = rev es @ trace s" "list_all silent es"
      "list_all (report_on c (live s c) (gPluginsDone s)) es" "switched s s' es" using assms by (auto simp: calm_def)
  have "activated s' = activated s" using assms by (simp add: calm_def activated_def fun_eq_iff)
  then show ?thesis using es silent_replay[of es] unfolding reported_def by (intro exI[of _ es]) simp
qed

lemma quiet_reported: "quiet s s' \<Longrightarrow> reported c s s'"
  by (rule calm_reported[OF quiet_calm])

lemma quiet_insert [simp]: "quiet s (replenish_insert c t d s)" "quiet s (sleep_insert c t d s)"
  by (rule quiet_same; simp add: replenish_insert_def sleep_insert_def split: prod.split)+

lemma quiet_lsr_push [simp]: "quiet s (kCpuTaskLsrPush E t s)"
  by (rule quiet_same) (simp_all add: kCpuTaskLsrPush_def K_DYNAMIC_ASSERT_def fault_def Let_def)

lemma quiet_fault [simp]: "quiet s (fault f s)"
  by (rule quiet_same) (simp_all add: fault_def)

lemma quiet_with_ops: "quiet s (f s) \<Longrightarrow> quiet s (with_ops f s)"
  by (cases "gOpsInitialized s") (simp_all add: with_ops_def quiet_trans[OF quiet_assert quiet_fault] K_DYNAMIC_ASSERT_def fault_def quiet_same)

lemmas quiet_steps = quiet_trans[OF _ quiet_emit] quiet_trans[OF _ quiet_run_callback] quiet_trans[OF _ quiet_assert]
  quiet_trans[OF _ quiet_upd_mach] quiet_trans[OF _ quiet_upd_tick] quiet_trans[OF _ quiet_insert(1)]
  quiet_trans[OF _ quiet_insert(2)] quiet_trans[OF _ quiet_lsr_push] quiet_refl

subsection \<open>A change of state\<close>

text \<open>A task that starts to run: the page table of its domain and its context are loaded.\<close>

lemma calm_running:
  assumes "runningTask (gTickMachines s c) = None" "thisCpu s = c" "live s c t"
  shows "calm c s (load_running t s)"
proof -
  let ?s' = "load_running t s"
  let ?i = "ttype (tasks s t) = K_TASK_IDLE"
  let ?es = "(if ?i then [] else [EvEnterDomain c (curDomain (tdomain (tasks s t)))]) @ [EvRestoreCtx c t]
    @ (case inCallbackFn (callbacks (tasks s t)) of None \<Rightarrow> [] | Some f \<Rightarrow> [EvCallback f t])"
  have f: "tasks ?s' = tasks s" "thisCpu ?s' = thisCpu s" "gPluginsDone ?s' = gPluginsDone s"
    by (simp_all add: load_running_def Let_def K_DYNAMIC_ASSERT_def fault_def)
  have tr: "trace ?s' = rev ?es @ trace s"
    using assms(2) by (simp add: load_running_def Let_def K_DYNAMIC_ASSERT_def fault_def run_callback_def split: option.split)
  have r: "running ?s' = (running s)(c := Some t)"
    using assms(2) by (auto simp: load_running_def Let_def K_DYNAMIC_ASSERT_def fault_def running_def upd_mach_def)
  have "owners (running s) ?es = Some (running ?s')"
    unfolding r using assms(1) by (simp add: running_def split: option.split)
  moreover have sp: "spaces sp ?es = (if ?i then sp else sp(c := curDomain (tdomain (tasks s t))))" for sp
    by (simp split: option.split)
  have "paged ?s' (spaces sp ?es)" if "paged s sp" for sp
    using that unfolding sp paged_def f r by auto
  ultimately have "switched s ?s' ?es" unfolding switched_def by blast
  moreover have "list_all silent ?es" "list_all (report_on c (live s c) (gPluginsDone s)) ?es"
    using assms(3) by (simp_all split: option.split)
  ultimately show ?thesis unfolding calm_def using tr f by (intro conjI exI[of _ ?es]) auto
qed

lemma quiet_throttled: "quiet s (load_throttled E t s)"
  unfolding load_throttled_def Let_def by (cases "alg E") (auto intro!: quiet_steps)

lemma quiet_enter:
  assumes "ns \<noteq> K_TASK_STATE_READY" "ns \<noteq> K_TASK_STATE_RUNNING" shows "quiet s (load_enter E t ns s)"
  using assms by (cases ns) (auto simp: quiet_throttled Let_def intro!: quiet_steps)

lemma quiet_leave:
  assumes "\<lbrakk>old = K_TASK_STATE_RUNNING; ttype (tasks s t) = K_TASK_LSR\<rbrakk> \<Longrightarrow> quiet s (kSchedTaskLsrOutCallback E t s)"
  shows "quiet s (load_leave E t old cb s)"
  using assms by (auto simp: load_leave_def Let_def intro: quiet_trans)

text \<open>A task that leaves the CPU: its context is saved.\<close>

lemma save_reported:
  assumes t: "runningTask (gTickMachines s c) = Some t" and c: "thisCpu s = c" and l: "live s c t"
  shows "reported c s (emit (EvSaveCtx c t) (upd_mach (\<lambda>m. m\<lparr>runningTask := None\<rparr>) s))"
proof -
  let ?s' = "emit (EvSaveCtx c t) (upd_mach (\<lambda>m. m\<lparr>runningTask := None\<rparr>) s)"
  have r: "running ?s' = (running s)(c := None)" using c by (auto simp: running_def upd_mach_def)
  have "switched s ?s' [EvSaveCtx c t]"
    using t unfolding switched_def by (simp add: r paged_def) (simp add: running_def)
  moreover have "activated ?s' = activated s" by (simp add: activated_def fun_eq_iff)
  ultimately show ?thesis unfolding reported_def using l by (intro exI[of _ "[EvSaveCtx c t]"]) simp
qed

text \<open>The report itself, after task \<open>t\<close> has changed its state from \<open>old\<close> to \<open>ns\<close>.\<close>

lemma load_report_reported:
  assumes q: "calm c (upd_task t (\<lambda>r. r\<lparr>tstate := ns\<rparr>) s) s2" and c: "thisCpu s = c" "live s c t"
  shows "reported c s (snd (load_report t (tstate (tasks s t)) ns s2))"
proof -
  let ?old = "tstate (tasks s t)"
  let ?s1 = "upd_task t (\<lambda>r. r\<lparr>tstate := ns\<rparr>) s"
  let ?s3 = "snd (load_report t ?old ns s2)"
  let ?e = "if K_SCHED_TASK_ACTIVATED ns \<and> \<not> K_SCHED_TASK_ACTIVATED ?old then [EvActivation c (gPluginsDone s) t]
    else if \<not> K_SCHED_TASK_ACTIVATED ns \<and> K_SCHED_TASK_ACTIVATED ?old then [EvResponse c (gPluginsDone s) t] else []"
  have lv: "live ?s1 c = live s c" by (simp add: live_def fun_eq_iff)
  obtain es where es: "trace s2 = rev es @ trace s" "list_all silent es"
      "list_all (report_on c (live s c) (gPluginsDone s)) es" "switched ?s1 s2 es" using q lv by (auto simp: calm_def)
  have sw1: "switched s ?s1 []" by (rule switched_still) (simp_all add: running_def fun_eq_iff)
  have s2: "tstate (tasks s2 u) = (if u = t then ns else tstate (tasks s u))" "thisCpu s2 = c"
      "gPluginsDone s2 = gPluginsDone s" for u
    using q c by (auto simp: calm_def)
  obtain fs where fs: "trace ?s3 = rev (?e @ fs) @ trace s2" "list_all still fs"
  proof -
    have "\<exists>fs. trace ?s3 = rev (?e @ fs) @ trace s2 \<and> list_all still fs"
      using s2 by (auto simp: load_report_def Let_def run_callback_def K_DYNAMIC_ASSERT_def fault_def split: option.split
        intro: exI[of _ "[]"] exI[of _ "[EvCallback _ _]"])
    then show ?thesis using that by blast
  qed
  have si: "list_all silent fs" "list_all (report_on c (live s c) (gPluginsDone s)) fs"
    using fs(2) by (auto elim!: list.pred_mono_strong intro: still_silent still_report_on)
  have "running ?s3 = running s2" "tasks ?s3 = tasks s2"
    by (auto simp: load_report_def Let_def K_DYNAMIC_ASSERT_def fault_def running_def fun_eq_iff)
  then have "switched s2 ?s3 (?e @ fs)"
    using fs(2) by (simp add: switched_def owners_append spaces_append still_owners paged_def)
  then have sw: "switched s ?s3 (es @ ?e @ fs)"
    using switched_trans[OF switched_trans[OF sw1 es(4)]] by simp
  have "activated ?s3 = (activated s)(t := K_SCHED_TASK_ACTIVATED ns)"
    using s2 by (auto simp: activated_def fun_eq_iff load_report_def Let_def K_DYNAMIC_ASSERT_def fault_def)
  then have "replay (activated s) (es @ ?e @ fs) = Some (activated ?s3)"
    using es(2) si(1) by (auto simp: replay_append silent_replay activated_def fun_eq_iff)
  moreover have "list_all (report_on c (live s c) (gPluginsDone s)) (es @ ?e @ fs)"
    using es(3) si(2) c by (auto simp: list_all_iff)
  ultimately show ?thesis unfolding reported_def using es(1) fs(1) sw by (intro exI[of _ "es @ ?e @ fs"]) simp
qed

lemma load_report_fields:
  "cpuId (tasks (snd (load_report t old ns s)) u) = cpuId (tasks s u)"
  "gPluginsDone (snd (load_report t old ns s)) = gPluginsDone s"
  "ttype (tasks (snd (load_report t old ns s)) u) = ttype (tasks s u)"
  by (auto simp: load_report_def Let_def K_DYNAMIC_ASSERT_def fault_def)

lemma kTickTaskLoadNextState_reported:
  assumes pre: "load_pre E t ns s" and c: "thisCpu s = c" "cpuId (tasks s t) = c"
    and nr: "ns = K_TASK_STATE_RUNNING \<Longrightarrow> runningTask (gTickMachines s c) = None"
    and en: "ns = K_TASK_STATE_READY \<Longrightarrow> pol_only (upd_task t (\<lambda>r. r\<lparr>tstate := ns\<rparr>) s)
      (kSchedPushFn (ops E) t (upd_task t (\<lambda>r. r\<lparr>tstate := ns\<rparr>) s))"
    and lv: "\<And>s3. \<lbrakk>s3 = snd (load_report t (tstate (tasks s t)) ns (load_enter E t ns (upd_task t (\<lambda>r. r\<lparr>tstate := ns\<rparr>) s)));
      tstate (tasks s t) = K_TASK_STATE_RUNNING; ttype (tasks s t) = K_TASK_LSR\<rbrakk>
      \<Longrightarrow> pol_only s3 (kSchedTaskLsrOutCallbackFn (ops E) t s3)"
  shows "reported c s (kTickTaskLoadNextState E t ns s)"
proof -
  let ?s1 = "upd_task t (\<lambda>r. r\<lparr>tstate := ns\<rparr>) s"
  let ?s2 = "load_enter E t ns ?s1"
  let ?s3 = "snd (load_report t (tstate (tasks s t)) ns ?s2)"
  have l: "live s c t" using pre c by (auto simp: load_pre_def state_ok_def live_def)
  consider (ready) "ns = K_TASK_STATE_READY" | (running) "ns = K_TASK_STATE_RUNNING"
    | (other) "ns \<noteq> K_TASK_STATE_READY" "ns \<noteq> K_TASK_STATE_RUNNING" by blast
  then have q: "calm c ?s1 ?s2"
  proof cases
    case ready
    note True = ready
    then have "ttype (tasks ?s1 t) \<noteq> K_TASK_LSR" "gOpsInitialized ?s1" using pre by (auto simp: load_pre_def state_ok_def)
    then have "?s2 = kSchedPushFn (ops E) t ?s1" using True by (simp add: kSchedTaskPush_def assert_holds)
    then show ?thesis using quiet_calm[OF quiet_pol_only[OF en[OF True]]] by simp
  next
    case running
    then show ?thesis using calm_running[of ?s1 c t] nr c l by (simp add: live_def)
  qed (simp add: quiet_calm quiet_enter)
  have ty: "ttype (tasks ?s3 t) = ttype (tasks s t)"
    using q by (simp add: load_report_fields calm_def)
  have r: "reported c s ?s3" by (rule load_report_reported[OF q c(1) l])
  have cp: "ttype (tasks ?s3 u) = ttype (tasks s u) \<and> cpuId (tasks ?s3 u) = cpuId (tasks s u)"
      "gPluginsDone ?s3 = gPluginsDone s" for u
    using q by (auto simp: load_report_fields calm_def)
  have "quiet ?s3 (load_leave E t (tstate (tasks s t)) cb ?s3)" for cb
  proof (rule quiet_leave)
    assume a: "tstate (tasks s t) = K_TASK_STATE_RUNNING" "ttype (tasks ?s3 t) = K_TASK_LSR"
    then have "ttype (tasks s t) = K_TASK_LSR" using ty by simp
    then show "quiet ?s3 (kSchedTaskLsrOutCallback E t ?s3)"
      unfolding kSchedTaskLsrOutCallback_def using lv[OF refl a(1)] by (intro quiet_with_ops quiet_pol_only)
  qed
  then show ?thesis unfolding load_unfold[OF pre] Let_def
    by (intro reported_trans[OF r quiet_reported] cp)
qed

text \<open>An LSR that stops running: the policy's callback at the end.\<close>

lemma load_lsr_out:
  assumes pre: "load_pre E t ns s" and old: "tstate (tasks s t) = K_TASK_STATE_RUNNING"
    and lsr: "ttype (tasks s t) = K_TASK_LSR"
  shows "\<exists>s3. s3 = snd (load_report t (tstate (tasks s t)) ns (load_enter E t ns (upd_task t (\<lambda>r. r\<lparr>tstate := ns\<rparr>) s)))
    \<and> tick_same (load_core E t ns s) s3 \<and> pol_same s s3
    \<and> (pol_only s3 (kSchedTaskLsrOutCallbackFn (ops E) t s3) \<longrightarrow>
         tick_same s3 (kTickTaskLoadNextState E t ns s)
       \<and> pol_same (kSchedTaskLsrOutCallbackFn (ops E) t s3) (kTickTaskLoadNextState E t ns s))"
proof -
  let ?s1 = "upd_task t (\<lambda>r. r\<lparr>tstate := ns\<rparr>) s"
  let ?s2 = "load_enter E t ns ?s1"
  let ?r = "load_report t (tstate (tasks s t)) ns ?s2"
  let ?s3 = "snd ?r"
  have ns: "ns \<noteq> K_TASK_STATE_READY" using pre lsr by (auto simp: load_pre_def state_ok_def)
  have 1: "tick_same (load_core E t ns s) ?s2" "pol_same ?s1 ?s2"
    using load_enter_core[OF pre refl ns] by (auto simp: load_core_def)
  have act: "K_SCHED_TASK_ACTIVATED (tstate (tasks s t)) \<or> ns \<noteq> K_TASK_STATE_RUNNING"
    using pre by (auto simp: load_pre_def)
  note 2 = load_report_same[OF act, of ?s2 t]
  have c3: "tick_same (load_core E t ns s) ?s3" using tick_same_trans[OF 1(1) 2(1)] .
  have p3: "pol_same s ?s3"
    using pol_same_trans[OF 1(2) 2(2)] by (simp add: pol_same_def)
  have ops: "gOpsInitialized ?s3"
    using pre c3 by (cases ns) (auto simp: load_pre_def tick_same_def load_core_def Let_def)
  have ty: "ttype (tasks ?s3 t) = K_TASK_LSR" using p3 lsr by (simp add: pol_same_def)
  have "pol_only ?s3 (kSchedTaskLsrOutCallbackFn (ops E) t ?s3) \<longrightarrow>
         tick_same ?s3 (kTickTaskLoadNextState E t ns s)
       \<and> pol_same (kSchedTaskLsrOutCallbackFn (ops E) t ?s3) (kTickTaskLoadNextState E t ns s)"
    unfolding load_unfold[OF pre] Let_def using old ty ops
    by (auto simp: load_leave_def Let_def kSchedTaskLsrOutCallback_def
        intro: tick_same_trans[OF pol_only_tick_same] pol_only_tick_same)
  then show ?thesis using c3 p3 by blast
qed

text \<open>A task that starts to run was active before: nothing is reported.\<close>

definition silent_trace :: "u32 \<Rightarrow> 'p kstate \<Rightarrow> 'p kstate \<Rightarrow> bool" where
  "silent_trace c s s' \<longleftrightarrow> (\<exists>es. trace s' = rev es @ trace s \<and> list_all silent es
     \<and> list_all (report_on c (live s c) (gPluginsDone s)) es \<and> switched s s' es)"

lemma load_running_silent:
  assumes "quiet s0 s" "K_SCHED_TASK_ACTIVATED (tstate (tasks s t))" "tstate (tasks s t) \<noteq> K_TASK_STATE_RUNNING"
    and "runningTask (gTickMachines s c) = None" "thisCpu s = c" "live s c t"
  shows "silent_trace c s0 (kTickTaskLoadNextState E t K_TASK_STATE_RUNNING s)"
proof -
  let ?a = "K_DYNAMIC_ASSERT (ttype (tasks s t) \<noteq> K_TASK_INVALID) s"
  let ?b = "upd_task t (\<lambda>r. r\<lparr>tstate := K_TASK_STATE_RUNNING\<rparr>) ?a"
  have act: "K_SCHED_TASK_ACTIVATED K_TASK_STATE_RUNNING" by (simp add: K_SCHED_TASK_ACTIVATED_def)
  have s': "kTickTaskLoadNextState E t K_TASK_STATE_RUNNING s = load_running t ?b"
    using assms(2,3) act by (simp add: kTickTaskLoadNextState_def Let_def load_report_def load_leave_def)
  have b: "gTickMachines ?b = gTickMachines s" "thisCpu ?b = thisCpu s" "trace ?b = trace s"
      "ttype (tasks ?b u) = ttype (tasks s u)" "cpuId (tasks ?b u) = cpuId (tasks s u)" "gPluginsDone ?b = gPluginsDone s"
      "curDomain (tdomain (tasks ?b u)) = curDomain (tdomain (tasks s u))" for u
    by (simp_all add: K_DYNAMIC_ASSERT_def fault_def)
  have lv: "live ?b c = live s0 c" "live s c = live s0 c" "gPluginsDone s = gPluginsDone s0"
    using assms(1) b(4,5) by (simp_all add: live_def quiet_def fun_eq_iff)
  have "calm c ?b (load_running t ?b)"
    using assms(4-6) b lv by (intro calm_running) simp_all
  then obtain es where es: "trace (load_running t ?b) = rev es @ trace s" "list_all silent es"
      "list_all (report_on c (live s0 c) (gPluginsDone s0)) es" "switched ?b (load_running t ?b) es"
    using lv b by (auto simp: calm_def)
  obtain fs where fs: "trace s = rev fs @ trace s0" "list_all silent fs"
      "list_all (report_on c (live s0 c) (gPluginsDone s0)) fs" "switched s0 s fs"
    using quiet_switched[OF assms(1)] by blast
  have "switched s ?b []" using b by (intro switched_still) (simp_all add: running_def fun_eq_iff)
  then have "switched s0 (load_running t ?b) (fs @ es)"
    using switched_trans[OF switched_trans[OF fs(4)] es(4)] by fastforce
  then show ?thesis unfolding silent_trace_def s' using es fs by (intro exI[of _ "fs @ es"]) simp
qed

end
