(* ===== verification/TickAttach.thy ===== *)
theory TickAttach
  imports TickReport
begin

text \<open>
  Putting a detached task into a container, and taking one out: each keeps the invariant of the
  tick machine. \<open>cpu_frame\<close> is what an operation on one CPU leaves alone.
\<close>

subsection \<open>Frames\<close>

text \<open>The fields of a task that the tick machine never changes.\<close>

definition static_same :: "kSchedTask \<Rightarrow> kSchedTask \<Rightarrow> bool" where
  "static_same r r' \<longleftrightarrow>
     cpuId r' = cpuId r \<and> taskId r' = taskId r \<and> ttype r' = ttype r \<and> lsrVector r' = lsrVector r
   \<and> callbacks r' = callbacks r \<and> tdomain r' = tdomain r \<and> threadTpr r' = threadTpr r
   \<and> budget (tick r') = budget (tick r) \<and> period (tick r') = period (tick r)"

definition cpu_frame :: "u32 \<Rightarrow> 'p kstate \<Rightarrow> 'p kstate \<Rightarrow> bool" where
  "cpu_frame c s s' \<longleftrightarrow>
     thisCpu s' = thisCpu s
   \<and> (\<forall>c'. c' \<noteq> c \<longrightarrow> gTickMachines s' c' = gTickMachines s c' \<and> archLsrs s' c' = archLsrs s c')
   \<and> (\<forall>u. cpuId (tasks s u) \<noteq> c \<longrightarrow> tasks s' u = tasks s u
        \<and> replenishNodes s' u = replenishNodes s u \<and> sleepNodes s' u = sleepNodes s u)
   \<and> (\<forall>u. static_same (tasks s u) (tasks s' u))
   \<and> gOpsInitialized s' = gOpsInitialized s \<and> domains s' = domains s
   \<and> domainTable s' = domainTable s \<and> kTasks s' = kTasks s
   \<and> gPluginsDone s' = gPluginsDone s \<and> faults s' = faults s"

lemma static_same_refl [simp]: "static_same r r"
  by (simp add: static_same_def)

lemma cpu_frame_refl [simp]: "cpu_frame c s s"
  by (simp add: cpu_frame_def)

lemma cpu_frame_trans [trans]: "cpu_frame c s s' \<Longrightarrow> cpu_frame c s' s'' \<Longrightarrow> cpu_frame c s s''"
  by (auto simp: cpu_frame_def static_same_def)

lemma tick_same_frame: "tick_same s s' \<Longrightarrow> cpu_frame c s s'"
  by (simp add: tick_same_def cpu_frame_def)

lemma cpu_frame_live: "cpu_frame c s s' \<Longrightarrow> live s' c' t = live s c' t"
  by (simp add: cpu_frame_def live_def static_same_def)

lemma chain_wf_cong:
  "(\<And>x. x \<in> set (chain_dq ch) \<Longrightarrow> ns' x = ns x) \<Longrightarrow> chain_wf ns' ch = chain_wf ns ch"
  by (simp add: chain_wf_def cong: delta_sum_cong)

text \<open>The invariant of a CPU survives what happens on another.\<close>

lemma tick_inv_frame:
  assumes fr: "cpu_frame c s s'" and ne: "c' \<noteq> c" and inv: "tick_inv E c' D B s"
  shows "tick_inv E c' D B s'"
proof -
  have lv: "live s' c' t = live s c' t" for t using fr by (rule cpu_frame_live)
  have same: "tasks s' t = tasks s t" "replenishNodes s' t = replenishNodes s t"
      "sleepNodes s' t = sleepNodes s t" if "live s c' t" for t
    using that fr ne by (auto simp: live_def cpu_frame_def)
  have M: "gTickMachines s' c' = gTickMachines s c'" "archLsrs s' c' = archLsrs s c'"
      "gOpsInitialized s' = gOpsInitialized s"
    using fr ne by (auto simp: cpu_frame_def)
  have mi: "machine_inv s c'" using inv by (simp add: tick_inv_def)
  have wf: "chain_wf (sleepNodes s') (sleepChain (gTickMachines s c'))"
      "chain_wf (replenishNodes s') (replenishmentChain (gTickMachines s c'))"
    using mi same chain_wf_cong[of "sleepChain (gTickMachines s c')" "sleepNodes s'" "sleepNodes s"]
      chain_wf_cong[of "replenishmentChain (gTickMachines s c')" "replenishNodes s'" "replenishNodes s"]
    by (auto simp: machine_inv_def Let_def)
  have "machine_inv s' c'"
    using mi wf same unfolding machine_inv_def Let_def M lv by auto
  then show ?thesis using inv lv same M by (simp add: tick_inv_def)
qed

subsection \<open>Changing one task\<close>

lemma tick_inv_change:
  assumes inv: "tick_inv E c D B s" and t: "live s c t"
    and others: "\<And>u. u \<noteq> t \<Longrightarrow> tasks s' u = tasks s u"
    and ty: "ttype (tasks s' t) = ttype (tasks s t)" "cpuId (tasks s' t) = cpuId (tasks s t)"
    and ops: "gOpsInitialized s'"
    and mi: "machine_inv s' c"
    and places: "\<And>u. u \<noteq> t \<Longrightarrow> live s c u \<Longrightarrow>
        place_inv (alg E) (gTickMachines s c) (archLsrs s c) (u \<in> D) u (tasks s u) \<Longrightarrow>
        place_inv (alg E) (gTickMachines s' c) (archLsrs s' c) (u \<in> D) u (tasks s u)"
    and place: "place_inv (alg E) (gTickMachines s' c) (archLsrs s' c) (t \<in> D') t (tasks s' t)"
    and loc: "local_inv (idleAddr E) c (t \<in> D') (t \<in> B') t (tasks s' t)"
    and D: "\<And>u. u \<noteq> t \<Longrightarrow> (u \<in> D') = (u \<in> D)" and B: "\<And>u. u \<noteq> t \<Longrightarrow> (u \<in> B') = (u \<in> B)"
  shows "tick_inv E c D' B' s'"
proof -
  have lv: "live s' c u = live s c u" for u
    using others ty by (cases "u = t") (auto simp: live_def)
  have idle: "ttype (tasks s' (idleAddr E c)) = K_TASK_IDLE"
    using inv others ty by (cases "idleAddr E c = t") (auto simp: tick_inv_def)
  have "place_inv (alg E) (gTickMachines s' c) (archLsrs s' c) (u \<in> D') u (tasks s' u)
      \<and> local_inv (idleAddr E) c (u \<in> D') (u \<in> B') u (tasks s' u)" if "live s c u" for u
  proof (cases "u = t")
    case True
    then show ?thesis using place loc by simp
  next
    case False
    then show ?thesis
      using inv that others[OF False] places[OF False that] D[OF False] B[OF False]
      by (simp add: tick_inv_def)
  qed
  then show ?thesis using inv ops mi lv idle by (simp add: tick_inv_def)
qed

text \<open>A well formed machine stays so when one task's record changes within its type.\<close>

lemma live_upd:
  "ttype (f (tasks s t)) = ttype (tasks s t) \<Longrightarrow> cpuId (f (tasks s t)) = cpuId (tasks s t) \<Longrightarrow>
   live (upd_task t f s) c u = live s c u"
  by (auto simp: live_def)

text \<open>
  What \<open>load_core\<close> needs from the containers and from the task's fields.
\<close>

definition attach_pre :: "'p kEnv \<Rightarrow> addr \<Rightarrow> kSchedState \<Rightarrow> 'p kstate \<Rightarrow> bool" where
  "attach_pre E t ns s \<longleftrightarrow>
     load_pre E t ns s
   \<and> (ns \<in> DEFTICK_STATES \<or> ns = K_TASK_STATE_PENDING \<longrightarrow> pendingTaskLsr (mach s) \<in> {None, Some t})
   \<and> (ns \<notin> {K_TASK_STATE_PENDING, K_TASK_STATE_DEFTICK_PENDING} \<longrightarrow> pendingTaskLsr (mach s) \<noteq> Some t)
   \<and> (ns = K_TASK_STATE_RUNNING \<longrightarrow> runningTask (mach s) = None)
   \<and> (ttype (tasks s t) = K_TASK_THREAD \<longrightarrow>
        (ns \<in> BUDGET_STATES \<longrightarrow> currentBudget (tick (tasks s t)) > 0)
      \<and> (ns = K_TASK_STATE_THREAD_DEFTICK_SLEEP \<longrightarrow> sleepTicks (tick (tasks s t)) > 0)
      \<and> (ns = K_TASK_STATE_THREAD_THROTTLED \<longrightarrow> period (tick (tasks s t)) > 0)
      \<and> (lag (tick (tasks s t)) \<longrightarrow> ns = K_TASK_STATE_THREAD_THROTTLED \<and> alg E = BCS))"

lemma load_core_tasks:
  "tasks (load_core E t ns s) = (tasks s)(t := (if ns = K_TASK_STATE_THREAD_THROTTLED \<and> alg E = BCS
      then upd_tick (\<lambda>k. k\<lparr>lag := False\<rparr>) ((tasks s t)\<lparr>tstate := ns\<rparr>) else (tasks s t)\<lparr>tstate := ns\<rparr>))"
  by (cases ns) (simp_all add: load_core_def Let_def fun_eq_iff)

lemma load_core_fields [simp]:
  "thisCpu (load_core E t ns s) = thisCpu s"
  "gOpsInitialized (load_core E t ns s) = gOpsInitialized s"
  "domains (load_core E t ns s) = domains s" "domainTable (load_core E t ns s) = domainTable s"
  "kTasks (load_core E t ns s) = kTasks s" "gPluginsDone (load_core E t ns s) = gPluginsDone s"
  "faults (load_core E t ns s) = faults s"
  "cpuId (tasks (load_core E t ns s) u) = cpuId (tasks s u)"
  "ttype (tasks (load_core E t ns s) u) = ttype (tasks s u)"
  "lsrVector (tasks (load_core E t ns s) u) = lsrVector (tasks s u)"
  by (cases ns; simp add: load_core_def Let_def)+

lemma load_core_live [simp]: "live (load_core E t ns s) c u = live s c u"
  by (simp add: live_def)

lemma load_core_replenishNodes:
  "ns \<noteq> K_TASK_STATE_THREAD_THROTTLED \<or> alg E = DS \<Longrightarrow> replenishNodes (load_core E t ns s) = replenishNodes s"
  by (cases ns) (auto simp: load_core_def Let_def)

lemma load_core_sleepNodes:
  "ns \<noteq> K_TASK_STATE_THREAD_SLEEP \<Longrightarrow> sleepNodes (load_core E t ns s) = sleepNodes s"
  by (cases ns) (auto simp: load_core_def Let_def)

abbreviation plain_state :: "'p kEnv \<Rightarrow> kSchedState \<Rightarrow> bool" where
  "plain_state E ns \<equiv> ns \<notin> {K_TASK_STATE_THREAD_THROTTLED, K_TASK_STATE_THREAD_SLEEP}
     \<or> (ns = K_TASK_STATE_THREAD_THROTTLED \<and> alg E = DS)"

lemma load_core_machine:
  assumes "plain_state E ns"
  shows "runningTask (gTickMachines (load_core E t ns s) (thisCpu s)) =
      (if ns = K_TASK_STATE_RUNNING then Some t else runningTask (mach s))"
    "deferredTicks (gTickMachines (load_core E t ns s) (thisCpu s)) =
      (if ns \<in> DEFTICK_STATES then t # deferredTicks (mach s) else deferredTicks (mach s))"
    "pendingLsrChain (gTickMachines (load_core E t ns s) (thisCpu s)) =
      (if ns = K_TASK_STATE_LSR_PENDING then t # pendingLsrChain (mach s) else pendingLsrChain (mach s))"
    "pendingTaskLsr (gTickMachines (load_core E t ns s) (thisCpu s)) =
      (if ns \<in> {K_TASK_STATE_PENDING, K_TASK_STATE_DEFTICK_PENDING} then Some t else pendingTaskLsr (mach s))"
    "sleepChain (gTickMachines (load_core E t ns s) (thisCpu s)) = sleepChain (mach s)"
    "replenishmentChain (gTickMachines (load_core E t ns s) (thisCpu s)) = replenishmentChain (mach s)"
  using assms by (cases ns; simp add: load_core_def Let_def DEFTICK_STATES_def)+

lemma load_core_archLsrs:
  "archLsrs (load_core E t ns s) = (if ns = K_TASK_STATE_LSR_DORMANT
     then (archLsrs s)(cpuId (tasks s t) := (archLsrs s (cpuId (tasks s t)))
            (lsrVector (tasks s t) := t # archLsrs s (cpuId (tasks s t)) (lsrVector (tasks s t))))
     else archLsrs s)"
  by (cases ns) (simp_all add: load_core_def Let_def)

lemma load_core_throttled:
  assumes "alg E = BCS"
    and "deltaChainInsert (replenishNodes s) (replenishmentChain (mach s)) t
           (lag_period (tick (tasks s t))) = (ns', ch')"
  shows "replenishNodes (load_core E t K_TASK_STATE_THREAD_THROTTLED s) = ns'"
    and "gTickMachines (load_core E t K_TASK_STATE_THREAD_THROTTLED s) =
           (gTickMachines s)(thisCpu s := (mach s)\<lparr>replenishmentChain := ch'\<rparr>)"
  using assms by (simp_all add: load_core_def replenish_insert_def)

lemma load_core_sleep:
  assumes "deltaChainInsert (sleepNodes s) (sleepChain (mach s)) t (sleepTicks (tick (tasks s t))) = (ns', ch')"
  shows "sleepNodes (load_core E t K_TASK_STATE_THREAD_SLEEP s) = ns'"
    and "gTickMachines (load_core E t K_TASK_STATE_THREAD_SLEEP s) =
           (gTickMachines s)(thisCpu s := (mach s)\<lparr>sleepChain := ch'\<rparr>)"
  using assms by (simp_all add: load_core_def sleep_insert_def)

subsection \<open>Putting a detached task into its container\<close>

lemma detached_places:
  assumes "tick_inv E c D B s" "live s c t" "t \<in> D"
  shows "runningTask (gTickMachines s c) \<noteq> Some t" "t \<notin> set (deferredTicks (gTickMachines s c))"
    "t \<notin> set (pendingLsrChain (gTickMachines s c))" "t \<notin> set (chain_dq (sleepChain (gTickMachines s c)))"
    "alg E = BCS \<Longrightarrow> t \<notin> set (chain_dq (replenishmentChain (gTickMachines s c)))"
    "t \<notin> set (archLsrs s c v)"
proof -
  have *: "place_inv (alg E) (gTickMachines s c) (archLsrs s c) True t (tasks s t)" "machine_inv s c"
    using assms by (auto simp: tick_inv_def)
  show "runningTask (gTickMachines s c) \<noteq> Some t" "t \<notin> set (deferredTicks (gTickMachines s c))"
    "t \<notin> set (pendingLsrChain (gTickMachines s c))" "t \<notin> set (chain_dq (sleepChain (gTickMachines s c)))"
    "alg E = BCS \<Longrightarrow> t \<notin> set (chain_dq (replenishmentChain (gTickMachines s c)))"
    using *(1) by (auto simp: place_inv_def)
  show "t \<notin> set (archLsrs s c v)"
    using * by (auto simp: place_inv_def machine_inv_def Let_def)
qed

lemma attach_local:
  assumes inv: "tick_inv E c D B s" and t: "live s c t" and pre: "attach_pre E t ns s"
  shows "local_inv (idleAddr E) c False False t (tasks (load_core E t ns s) t)"
proof -
  let ?r = "tasks s t" and ?r' = "tasks (load_core E t ns s) t"
  have l: "local_inv (idleAddr E) c (t \<in> D) (t \<in> B) t ?r"
    using inv t by (simp add: tick_inv_def)
  have f: "ttype ?r' = ttype ?r" "tstate ?r' = ns" "tdomain ?r' = tdomain ?r"
      "budget (tick ?r') = budget (tick ?r)" "currentBudget (tick ?r') = currentBudget (tick ?r)"
      "sleepTicks (tick ?r') = sleepTicks (tick ?r)" "period (tick ?r') = period (tick ?r)"
      "lag (tick ?r') = (lag (tick ?r) \<and> \<not> (ns = K_TASK_STATE_THREAD_THROTTLED \<and> alg E = BCS))"
    by (simp_all add: load_core_tasks)
  have p: "state_ok (ttype ?r) ns" "ns = K_TASK_STATE_THREAD_SLEEP \<longrightarrow> sleepTicks (tick ?r) > 0"
    using pre by (simp_all add: attach_pre_def load_pre_def)
  have q: "ttype ?r = K_TASK_THREAD \<longrightarrow>
        (ns \<in> BUDGET_STATES \<longrightarrow> currentBudget (tick ?r) > 0)
      \<and> (ns = K_TASK_STATE_THREAD_DEFTICK_SLEEP \<longrightarrow> sleepTicks (tick ?r) > 0)
      \<and> (ns = K_TASK_STATE_THREAD_THROTTLED \<longrightarrow> period (tick ?r) > 0)
      \<and> (lag (tick ?r) \<longrightarrow> ns = K_TASK_STATE_THREAD_THROTTLED \<and> alg E = BCS)"
    using pre unfolding attach_pre_def by (elim conjE)
  show ?thesis
    unfolding local_inv_def f using l[unfolded local_inv_def] p q by simp
qed

lemma attach_machine_simple:
  assumes inv: "tick_inv E c D B s" and c: "thisCpu s = c" and t: "live s c t" "t \<in> D"
    and pre: "attach_pre E t ns s"
    and ns: "plain_state E ns"
  shows "machine_inv (load_core E t ns s) c"
proof -
  let ?s' = "load_core E t ns s"
  note d = detached_places[OF inv t]
  have mi: "machine_inv s c" using inv by (simp add: tick_inv_def)
  have n: "replenishNodes ?s' = replenishNodes s" "sleepNodes ?s' = sleepNodes s"
    using ns by (auto intro!: load_core_replenishNodes load_core_sleepNodes)
  have dorm: "ns = K_TASK_STATE_LSR_DORMANT \<longrightarrow> ttype (tasks s t) = K_TASK_LSR"
    using pre by (auto simp: attach_pre_def load_pre_def state_ok_def split: kSchedTaskType.splits)
  have cpu: "cpuId (tasks s t) = c" using t by (simp add: live_def)
  note m = load_core_machine[OF ns, of t s, unfolded c]
  have L: "archLsrs ?s' c v = (if ns = K_TASK_STATE_LSR_DORMANT \<and> v = lsrVector (tasks s t)
      then t # archLsrs s c v else archLsrs s c v)" for v
    using cpu by (simp add: load_core_archLsrs)
  note mi' = mi[unfolded machine_inv_def Let_def]
  have 1: "distinct (deferredTicks (gTickMachines ?s' c))" "distinct (pendingLsrChain (gTickMachines ?s' c))"
    using mi' d(2,3) by (simp_all add: m(2,3))
  have 2: "\<forall>t \<in> set (deferredTicks (gTickMachines ?s' c)). live s c t"
      "\<forall>t \<in> set (pendingLsrChain (gTickMachines ?s' c)). live s c t"
    using mi' t(1) by (simp_all add: m(2,3))
  have 3: "\<forall>u. runningTask (gTickMachines ?s' c) = Some u \<longrightarrow> live s c u"
      "\<forall>u. pendingTaskLsr (gTickMachines ?s' c) = Some u \<longrightarrow> live s c u"
    using mi' t(1) by (simp_all add: m(1,4))
  have 4: "distinct (archLsrs ?s' c v)" for v
    using mi' d(6) by (simp add: L)
  have 5: "live s c u \<and> ttype (tasks s u) = K_TASK_LSR \<and> lsrVector (tasks s u) = v"
    if "u \<in> set (archLsrs ?s' c v)" for u v
    using mi' t(1) dorm that by (auto simp: L split: if_splits)
  have 6: "chain_wf (sleepNodes s) (sleepChain (gTickMachines s c))"
      "chain_wf (replenishNodes s) (replenishmentChain (gTickMachines s c))"
      "\<forall>t \<in> set (chain_dq (sleepChain (gTickMachines s c))). live s c t"
      "\<forall>t \<in> set (chain_dq (replenishmentChain (gTickMachines s c))). live s c t"
    using mi' by simp_all
  show ?thesis
    unfolding machine_inv_def Let_def n m(5,6) load_core_live load_core_fields
    by (intro conjI 1 2 3 6) (use 4 5 in \<open>simp_all\<close>)
qed

lemma attach_place_simple:
  assumes inv: "tick_inv E c D B s" and c: "thisCpu s = c" and t: "live s c t" "t \<in> D"
    and pre: "attach_pre E t ns s"
    and ns: "plain_state E ns"
  shows "place_inv (alg E) (gTickMachines (load_core E t ns s) c) (archLsrs (load_core E t ns s) c) False t
           (tasks (load_core E t ns s) t)"
proof -
  have p: "place_inv (alg E) (gTickMachines s c) (archLsrs s c) True t (tasks s t)"
    using inv t by (auto simp: tick_inv_def)
  have cpu: "cpuId (tasks s t) = c" using t by (simp add: live_def)
  show ?thesis
    using p pre ns c cpu load_core_machine[OF ns, of t s]
    by (cases ns; cases "ttype (tasks s t)"; cases "alg E";
        simp add: place_inv_def load_core_archLsrs load_core_tasks
          attach_pre_def load_pre_def state_ok_def DEFTICK_STATES_def)
qed

lemma place_inv_others:
  assumes "u \<noteq> t" "place_inv a M L d u r"
    and "runningTask M' = (if rn then Some t else runningTask M)" "rn \<longrightarrow> runningTask M = None"
    and "deferredTicks M' = (if df then t # deferredTicks M else deferredTicks M)"
    and "pendingLsrChain M' = (if lp then t # pendingLsrChain M else pendingLsrChain M)"
    and "pendingTaskLsr M' = (if pd then Some t else pendingTaskLsr M)"
    and "df \<or> pd \<longrightarrow> pendingTaskLsr M \<in> {None, Some t}"
    and "sleepChain M' = sleepChain M" "replenishmentChain M' = replenishmentChain M"
    and "\<And>v. (u \<in> set (L' v)) = (u \<in> set (L v))"
  shows "place_inv a M' L' d u r"
proof -
  note p = assms(2)[unfolded place_inv_def]
  have p6: "\<not> d \<longrightarrow> (pendingTaskLsr M = Some u \<longleftrightarrow> tstate r \<in> {K_TASK_STATE_PENDING, K_TASK_STATE_DEFTICK_PENDING})"
    using p by (elim conjE)
  have p7: "\<not> d \<and> tstate r = K_TASK_STATE_DEFTICK_PENDING \<longrightarrow> opt_hd (deferredTicks M) = Some u"
    using p by (elim conjE)
  have 1: "(runningTask M' = Some u) = (runningTask M = Some u)" using assms(1,3,4) by auto
  have 2: "(u \<in> set (deferredTicks M')) = (u \<in> set (deferredTicks M))" using assms(1,5) by auto
  have 3: "(u \<in> set (pendingLsrChain M')) = (u \<in> set (pendingLsrChain M))" using assms(1,6) by auto
  have 5: "(pendingTaskLsr M' = Some u) = (pendingTaskLsr M = Some u)" using assms(1,7,8) by auto
  have 6: "\<not> d \<and> tstate r = K_TASK_STATE_DEFTICK_PENDING \<longrightarrow> opt_hd (deferredTicks M') = Some u"
  proof
    assume a: "\<not> d \<and> tstate r = K_TASK_STATE_DEFTICK_PENDING"
    then have "pendingTaskLsr M = Some u" "opt_hd (deferredTicks M) = Some u" using p6 p7 by auto
    then show "opt_hd (deferredTicks M') = Some u" using assms(1,5,8) by auto
  qed
  show ?thesis
    unfolding place_inv_def 1 2 3 5 assms(9,10,11)
    using p 6 by (elim conjE) (intro conjI)
qed

lemma attach_others_simple:
  assumes inv: "tick_inv E c D B s" and c: "thisCpu s = c" and t: "live s c t" "t \<in> D"
    and pre: "attach_pre E t ns s"
    and ns: "plain_state E ns"
    and u: "u \<noteq> t" "place_inv (alg E) (gTickMachines s c) (archLsrs s c) (u \<in> D) u (tasks s u)"
  shows "place_inv (alg E) (gTickMachines (load_core E t ns s) c) (archLsrs (load_core E t ns s) c)
           (u \<in> D) u (tasks s u)"
proof (rule place_inv_others[OF u])
  note m = load_core_machine[OF ns, of t s, unfolded c]
  show "runningTask (gTickMachines (load_core E t ns s) c) =
      (if ns = K_TASK_STATE_RUNNING then Some t else runningTask (gTickMachines s c))" by (rule m(1))
  show "deferredTicks (gTickMachines (load_core E t ns s) c) =
      (if ns \<in> DEFTICK_STATES then t # deferredTicks (gTickMachines s c) else deferredTicks (gTickMachines s c))"
    by (rule m(2))
  show "pendingLsrChain (gTickMachines (load_core E t ns s) c) =
      (if ns = K_TASK_STATE_LSR_PENDING then t # pendingLsrChain (gTickMachines s c) else pendingLsrChain (gTickMachines s c))"
    by (rule m(3))
  show "pendingTaskLsr (gTickMachines (load_core E t ns s) c) =
      (if ns \<in> {K_TASK_STATE_PENDING, K_TASK_STATE_DEFTICK_PENDING} then Some t else pendingTaskLsr (gTickMachines s c))"
    by (rule m(4))
  show "sleepChain (gTickMachines (load_core E t ns s) c) = sleepChain (gTickMachines s c)" by (rule m(5))
  show "replenishmentChain (gTickMachines (load_core E t ns s) c) = replenishmentChain (gTickMachines s c)"
    by (rule m(6))
  show "ns = K_TASK_STATE_RUNNING \<longrightarrow> runningTask (gTickMachines s c) = None"
    using pre c by (simp add: attach_pre_def)
  show "ns \<in> DEFTICK_STATES \<or> ns \<in> {K_TASK_STATE_PENDING, K_TASK_STATE_DEFTICK_PENDING} \<longrightarrow>
      pendingTaskLsr (gTickMachines s c) \<in> {None, Some t}"
    using pre c by (auto simp: attach_pre_def DEFTICK_STATES_def)
  show "(u \<in> set (archLsrs (load_core E t ns s) c v)) = (u \<in> set (archLsrs s c v))" for v
    using u by (simp add: load_core_archLsrs)
qed

lemma load_core_frame:
  assumes inv: "tick_inv E c D B s" and c: "thisCpu s = c" and t: "live s c t"
  shows "cpu_frame c s (load_core E t ns s)"
proof -
  have cpu: "cpuId (tasks s t) = c" using t by (simp add: live_def)
  have mi: "machine_inv s c" using inv by (simp add: tick_inv_def)
  have st: "static_same (tasks s u) (tasks (load_core E t ns s) u)" for u
    by (auto simp: load_core_tasks static_same_def)
  have oth: "tasks (load_core E t ns s) u = tasks s u" if "cpuId (tasks s u) \<noteq> c" for u
    using that cpu by (auto simp: load_core_tasks)
  have mach: "gTickMachines (load_core E t ns s) c' = gTickMachines s c'
      \<and> archLsrs (load_core E t ns s) c' = archLsrs s c'" if "c' \<noteq> c" for c'
    using that c cpu
    by (cases ns) (auto simp: load_core_def Let_def replenish_insert_def sleep_insert_def split: prod.splits)
  have rep: "replenishNodes (load_core E t ns s) u = replenishNodes s u" if u: "cpuId (tasks s u) \<noteq> c" for u
  proof (cases "ns = K_TASK_STATE_THREAD_THROTTLED \<and> alg E = BCS")
    case True
    obtain ns' ch' where ins: "deltaChainInsert (replenishNodes s) (replenishmentChain (mach s)) t
        (lag_period (tick (tasks s t))) = (ns', ch')" by fastforce
    have "u \<noteq> t" "u \<notin> set (chain_dq (replenishmentChain (mach s)))"
      using u cpu mi c by (auto simp: machine_inv_def Let_def live_def)
    then show ?thesis
      using deltaChainInsert_frame(1)[OF ins] load_core_throttled(1)[OF _ ins] True by simp
  next
    case False
    then show ?thesis by (metis algorithm.exhaust load_core_replenishNodes)
  qed
  have slp: "sleepNodes (load_core E t ns s) u = sleepNodes s u" if u: "cpuId (tasks s u) \<noteq> c" for u
  proof (cases "ns = K_TASK_STATE_THREAD_SLEEP")
    case True
    obtain ns' ch' where ins: "deltaChainInsert (sleepNodes s) (sleepChain (mach s)) t
        (sleepTicks (tick (tasks s t))) = (ns', ch')" by fastforce
    have "u \<noteq> t" "u \<notin> set (chain_dq (sleepChain (mach s)))"
      using u cpu mi c by (auto simp: machine_inv_def Let_def live_def)
    then show ?thesis
      using deltaChainInsert_frame(1)[OF ins] load_core_sleep(1)[OF ins] True by simp
  next
    case False
    then show ?thesis by (simp add: load_core_sleepNodes)
  qed
  show ?thesis using st oth mach rep slp by (simp add: cpu_frame_def)
qed

lemma tick_inv_load:
  assumes inv: "tick_inv E c D B s" and c: "thisCpu s = c" and t: "live s c t" "t \<in> D"
    and pre: "attach_pre E t ns s"
  shows "tick_inv E c (D - {t}) (B - {t}) (load_core E t ns s)"
proof (rule tick_inv_change[OF inv t(1)])
  let ?s' = "load_core E t ns s"
  note d = detached_places[OF inv t]
  have mi: "machine_inv s c" using inv by (simp add: tick_inv_def)
  have cpu: "cpuId (tasks s t) = c" using t by (simp add: live_def)
  have p: "place_inv (alg E) (gTickMachines s c) (archLsrs s c) True t (tasks s t)"
    using inv t by (auto simp: tick_inv_def)
  show "gOpsInitialized ?s'" using inv by (simp add: tick_inv_def)
  show "local_inv (idleAddr E) c (t \<in> D - {t}) (t \<in> B - {t}) t (tasks ?s' t)"
    using attach_local[OF inv t(1) pre] by simp
  show "tasks ?s' u = tasks s u" if "u \<noteq> t" for u using that by (simp add: load_core_tasks)
  have goals: "machine_inv ?s' c
    \<and> place_inv (alg E) (gTickMachines ?s' c) (archLsrs ?s' c) False t (tasks ?s' t)
    \<and> (\<forall>u. u \<noteq> t \<longrightarrow> place_inv (alg E) (gTickMachines s c) (archLsrs s c) (u \<in> D) u (tasks s u) \<longrightarrow>
         place_inv (alg E) (gTickMachines ?s' c) (archLsrs ?s' c) (u \<in> D) u (tasks s u))"
  proof -
    consider (simple) "plain_state E ns"
      | (throttled) "ns = K_TASK_STATE_THREAD_THROTTLED" "alg E = BCS"
      | (sleep) "ns = K_TASK_STATE_THREAD_SLEEP"
      by (cases "alg E") auto
    then show ?thesis
    proof cases
      case simple
      then show ?thesis
        using attach_machine_simple[OF inv c t pre] attach_place_simple[OF inv c t pre]
          attach_others_simple[OF inv c t pre] by blast
    next
      case throttled
      obtain ns' ch' where ins: "deltaChainInsert (replenishNodes s) (replenishmentChain (mach s)) t
          (lag_period (tick (tasks s t))) = (ns', ch')" by fastforce
      note r = load_core_throttled[OF throttled(2) ins]
      have wf: "chain_wf (replenishNodes s) (replenishmentChain (mach s))"
          "t \<notin> set (chain_dq (replenishmentChain (mach s)))"
        using mi d throttled c by (auto simp: machine_inv_def Let_def)
      note i = deltaChainInsert_spec(2)[OF ins wf] deltaChainInsert_set(1)[OF ins]
      have a: "archLsrs ?s' = archLsrs s" "sleepNodes ?s' = sleepNodes s"
        using throttled by (simp_all add: load_core_archLsrs load_core_sleepNodes)
      have "machine_inv ?s' c"
        using mi i t c throttled(1) r a by (simp add: machine_inv_def Let_def)
      moreover have "place_inv (alg E) (gTickMachines ?s' c) (archLsrs ?s' c) False t (tasks ?s' t)"
        using p pre throttled i c
        by (auto simp: place_inv_def r a load_core_tasks attach_pre_def load_pre_def state_ok_def
            DEFTICK_STATES_def)
      ultimately show ?thesis using i c throttled r a by (simp add: place_inv_def)
    next
      case sleep
      obtain ns' ch' where ins: "deltaChainInsert (sleepNodes s) (sleepChain (mach s)) t
          (sleepTicks (tick (tasks s t))) = (ns', ch')" by fastforce
      note r = load_core_sleep[OF ins]
      have wf: "chain_wf (sleepNodes s) (sleepChain (mach s))" "t \<notin> set (chain_dq (sleepChain (mach s)))"
        using mi d c by (auto simp: machine_inv_def Let_def)
      note i = deltaChainInsert_spec(2)[OF ins wf] deltaChainInsert_set(1)[OF ins]
      have a: "archLsrs ?s' = archLsrs s" "replenishNodes ?s' = replenishNodes s"
        using sleep by (simp_all add: load_core_archLsrs load_core_replenishNodes)
      have "machine_inv ?s' c"
        using mi i t c sleep r a by (simp add: machine_inv_def Let_def)
      moreover have "place_inv (alg E) (gTickMachines ?s' c) (archLsrs ?s' c) False t (tasks ?s' t)"
        using p pre sleep i c
        by (auto simp: place_inv_def r a load_core_tasks attach_pre_def load_pre_def state_ok_def
            DEFTICK_STATES_def split: algorithm.splits)
      ultimately show ?thesis using i c sleep r a by (simp add: place_inv_def)
    qed
  qed
  then show "machine_inv ?s' c" by blast
  show "place_inv (alg E) (gTickMachines ?s' c) (archLsrs ?s' c) (t \<in> D - {t}) t (tasks ?s' t)"
    using goals by simp
  show "place_inv (alg E) (gTickMachines ?s' c) (archLsrs ?s' c) (u \<in> D) u (tasks s u)"
    if "u \<noteq> t" "place_inv (alg E) (gTickMachines s c) (archLsrs s c) (u \<in> D) u (tasks s u)" for u
    using goals that by blast
qed auto

end
