(* ===== verification/TickKinv.thy ===== *)
theory TickKinv
  imports TickAttach
begin

text \<open>
  The invariant of a CPU with the policy's part (\<open>kinv\<close>), and what happens to it when a task
  changes state or is taken out of a container. \<open>cpu_step\<close> collects what an operation on one
  CPU leaves alone.
\<close>

context sched_policy
begin

definition cpu_keeps :: "u32 \<Rightarrow> 'p kstate \<Rightarrow> 'p kstate \<Rightarrow> bool" where
  "cpu_keeps c s s' \<longleftrightarrow> cpu_frame c s s'
     \<and> (\<forall>u. known u s \<longrightarrow> known u s')
     \<and> (\<forall>u. cpuId (tasks s u) \<noteq> c \<longrightarrow> tickable u s \<longrightarrow> tickable u s')
     \<and> (\<forall>c' Q. c' \<noteq> c \<longrightarrow> pinv c' Q s \<longrightarrow> pinv c' Q s')"

lemma cpu_keeps_trans [trans]: "cpu_keeps c s s' \<Longrightarrow> cpu_keeps c s' s'' \<Longrightarrow> cpu_keeps c s s''"
  by (auto simp: cpu_keeps_def static_same_def intro: cpu_frame_trans) (auto simp: cpu_frame_def static_same_def)

lemma pol_same_keeps: "pol_same s s' \<Longrightarrow> cpu_frame c s s' \<Longrightarrow> cpu_keeps c s s'"
  by (auto simp: cpu_keeps_def intro: pinv_same tickable_same known_same)

lemma policy_cpu_keeps:
  assumes "policy_keeps pinv tickable known c V s s'" and "\<forall>u \<in> V. cpuId (tasks s u) = c"
  shows "cpu_keeps c s s'"
  using assms by (auto simp: policy_keeps_def cpu_keeps_def intro: tick_same_frame pol_only_tick_same)

text \<open>An operation that reports what it does to the active tasks.\<close>

definition cpu_step :: "u32 \<Rightarrow> 'p kstate \<Rightarrow> 'p kstate \<Rightarrow> bool" where
  "cpu_step c s s' \<longleftrightarrow> cpu_frame c s s'
     \<and> (\<forall>u. known u s \<longrightarrow> known u s')
     \<and> (\<forall>u. cpuId (tasks s u) \<noteq> c \<longrightarrow> tickable u s \<longrightarrow> tickable u s')
     \<and> (\<forall>c' Q. c' \<noteq> c \<longrightarrow> pinv c' Q s \<longrightarrow> pinv c' Q s')
     \<and> reported c s s'"

lemma cpu_step_iff: "cpu_step c s s' \<longleftrightarrow> cpu_keeps c s s' \<and> reported c s s'"
  by (auto simp: cpu_step_def cpu_keeps_def)

lemma cpu_step_refl [simp]: "cpu_step c s s"
  by (simp add: cpu_step_def)

lemma cpu_step_trans [trans]: "cpu_step c s s' \<Longrightarrow> cpu_step c s' s'' \<Longrightarrow> cpu_step c s s''"
  unfolding cpu_step_iff
  by (intro conjI cpu_keeps_trans[of c s s' s''] reported_trans[of c s s' s''])
    (auto simp: cpu_keeps_def cpu_frame_def static_same_def)

lemma pol_same_step: "pol_same s s' \<Longrightarrow> quiet s s' \<Longrightarrow> cpu_frame c s s' \<Longrightarrow> cpu_step c s s'"
  by (simp add: cpu_step_iff pol_same_keeps quiet_reported)

lemma keeps_step:
  assumes "policy_keeps pinv tickable known c V s s'" and "\<forall>u \<in> V. cpuId (tasks s u) = c"
  shows "cpu_step c s s'"
  using policy_cpu_keeps[OF assms] assms(1)
  by (simp add: cpu_step_iff policy_keeps_def quiet_pol_only quiet_reported)

lemma cpu_step_faults: "cpu_step c s s' \<Longrightarrow> faults s' = faults s"
  by (simp add: cpu_step_def cpu_frame_def)

lemma cpu_step_cpu: "cpu_step c s s' \<Longrightarrow> thisCpu s' = thisCpu s"
  by (simp add: cpu_step_def cpu_frame_def)

lemma cpu_step_live: "cpu_step c s s' \<Longrightarrow> live s' c' t = live s c' t"
  by (auto simp: cpu_step_def cpu_frame_live)

lemma cpu_step_static: "cpu_step c s s' \<Longrightarrow> static_same (tasks s t) (tasks s' t)"
  by (simp add: cpu_step_def cpu_frame_def)

lemma ready_set_other:
  "cpu_frame c s s' \<Longrightarrow> c' \<noteq> c \<Longrightarrow> ready_set s' c' D = ready_set s c' D"
  by (auto simp: ready_set_def live_def cpu_frame_def static_same_def)

lemma kinv_frame:
  assumes st: "cpu_step c s s'" and ne: "c' \<noteq> c" and inv: "kinv c' D B s"
  shows "kinv c' D B s'"
proof -
  have fr: "cpu_frame c s s'" using st by (simp add: cpu_step_def)
  have "tick_inv E c' D B s'" using tick_inv_frame[OF fr ne] inv by (simp add: kinv_def)
  moreover have "pinv c' (ready_set s' c' D) s'"
    using st ne inv ready_set_other[OF fr ne] by (simp add: kinv_def cpu_step_def)
  moreover have "known t s' \<and> (tstate (tasks s' t) \<in> TICKED_STATES \<and> t \<notin> B \<longrightarrow> tickable t s')"
    if "live s' c' t" "ttype (tasks s' t) = K_TASK_THREAD" for t
  proof -
    have "live s c' t" using that(1) st cpu_step_live by metis
    moreover have "tasks s' t = tasks s t"
      using \<open>live s c' t\<close> fr ne by (auto simp: cpu_frame_def live_def)
    ultimately show ?thesis
      using inv that(2) st ne by (auto simp: kinv_def cpu_step_def live_def)
  qed
  ultimately show ?thesis by (simp add: kinv_def)
qed

lemma kinv_same:
  assumes "tick_same s s'" and "pol_same s s'" and "kinv c D B s"
  shows "kinv c D B s'"
  using assms tick_inv_same[OF assms(1)] ready_set_same[OF assms(1)] live_same[OF assms(1)]
  by (auto simp: kinv_def tick_same_def intro: pinv_same tickable_same known_same)

text \<open>A policy operation inside the kernel keeps the invariant.\<close>

lemma kinv_policy:
  assumes k: "policy_keeps pinv tickable known c V s s'" and p: "pinv c (ready_set s c D) s'"
    and inv: "kinv c D B s"
    and V: "\<And>u. u \<in> V \<Longrightarrow> live s c u \<Longrightarrow> ttype (tasks s u) = K_TASK_THREAD \<Longrightarrow>
              tstate (tasks s u) \<in> TICKED_STATES \<Longrightarrow> u \<notin> B \<Longrightarrow> tickable u s'"
  shows "kinv c D B s'"
proof -
  have same: "tick_same s s'" using k by (simp add: policy_keeps_def pol_only_tick_same)
  have t: "tasks s' = tasks s" using same by (simp add: tick_same_def)
  have "tickable u s'" if "live s c u" "ttype (tasks s u) = K_TASK_THREAD"
      "tstate (tasks s u) \<in> TICKED_STATES" "u \<notin> B" for u
    using V[OF _ that] k inv that by (cases "u \<in> V") (auto simp: policy_keeps_def kinv_def)
  then show ?thesis
    using inv p k tick_inv_same[OF same] ready_set_same[OF same] live_same[OF same] t
    by (auto simp: kinv_def policy_keeps_def)
qed

subsection \<open>A detached task changes state\<close>

lemma ready_set_load:
  assumes "live s c t" "t \<in> D"
  shows "ready_set (load_core E t ns s) c (D - {t}) =
    (if ns = K_TASK_STATE_READY \<and> ttype (tasks s t) = K_TASK_THREAD then insert t (ready_set s c D)
     else ready_set s c D)"
  using assms by (auto simp: ready_set_def load_core_tasks live_def)

lemma tickable_live_others:
  assumes "kinv c D B s" "live s c u" "ttype (tasks s u) = K_TASK_THREAD"
    "tstate (tasks s u) \<in> TICKED_STATES" "u \<notin> B"
  shows "tickable u s"
  using assms by (simp add: kinv_def)

lemma kinv_load_aux:
  assumes inv: "kinv c D B s" and c: "thisCpu s = c" and t: "live s c t" "t \<in> D"
    and pre: "attach_pre E t ns s"
    and tk: "ns \<in> TICKED_STATES \<Longrightarrow> ttype (tasks s t) = K_TASK_THREAD \<Longrightarrow> tickable t s"
    and same: "tick_same (load_core E t ns s) s'"
    and step: "cpu_step c s s'"
    and p: "pinv c (ready_set (load_core E t ns s) c (D - {t})) s'"
    and others: "\<And>u. live s c u \<Longrightarrow> ttype (tasks s u) = K_TASK_THREAD \<Longrightarrow> (u = t \<longrightarrow> ns \<in> TICKED_STATES) \<Longrightarrow>
        (u \<noteq> t \<longrightarrow> tstate (tasks s u) \<in> TICKED_STATES) \<Longrightarrow> tickable u s \<Longrightarrow> tickable u s'"
  shows "kinv c (D - {t}) (B - {t}) s'"
proof -
  have ti: "tick_inv E c (D - {t}) (B - {t}) s'"
    using tick_inv_load[OF _ c t pre, of B] inv tick_inv_same[OF same] by (simp add: kinv_def)
  have tasks: "tasks s' = tasks (load_core E t ns s)" using same by (simp add: tick_same_def)
  have "known u s' \<and> (tstate (tasks s' u) \<in> TICKED_STATES \<and> u \<notin> B - {t} \<longrightarrow> tickable u s')"
    if "live s' c u" "ttype (tasks s' u) = K_TASK_THREAD" for u
  proof -
    have u: "live s c u" "ttype (tasks s u) = K_TASK_THREAD"
      using that cpu_step_live[OF step] by (auto simp: tasks)
    have "known u s'" using inv u step by (auto simp: kinv_def cpu_step_def)
    moreover have "tickable u s'" if "tstate (tasks s' u) \<in> TICKED_STATES" "u \<notin> B - {t}"
    proof (cases "u = t")
      case True
      then have "ns \<in> TICKED_STATES" using that tasks by (simp add: load_core_tasks split: if_splits)
      then show ?thesis using others[OF u] tk u True by simp
    next
      case False
      then have "tstate (tasks s u) \<in> TICKED_STATES" using that tasks by (simp add: load_core_tasks)
      then show ?thesis using others[OF u] False that inv u by (simp add: kinv_def)
    qed
    ultimately show ?thesis by blast
  qed
  moreover have "pinv c (ready_set s' c (D - {t})) s'"
    using p ready_set_same[OF same] by simp
  ultimately show ?thesis using ti by (simp add: kinv_def)
qed

lemma kinv_load:
  assumes inv: "kinv c D B s" and c: "thisCpu s = c" and t: "live s c t" "t \<in> D"
    and pre: "attach_pre E t ns s"
    and tk: "ns \<in> TICKED_STATES \<Longrightarrow> ttype (tasks s t) = K_TASK_THREAD \<Longrightarrow> tickable t s"
  shows "kinv c (D - {t}) (B - {t}) (kTickTaskLoadNextState E t ns s)
       \<and> cpu_step c s (kTickTaskLoadNextState E t ns s)
       \<and> tick_same (load_core E t ns s) (kTickTaskLoadNextState E t ns s)"
proof -
  let ?s' = "kTickTaskLoadNextState E t ns s"
  let ?Q = "ready_set s c D"
  have lp: "load_pre E t ns s" using pre by (simp add: attach_pre_def)
  have nr: "ns = K_TASK_STATE_RUNNING \<Longrightarrow> runningTask (gTickMachines s c) = None" using pre c by (simp add: attach_pre_def)
  have cpu: "cpuId (tasks s t) = c" using t by (simp add: live_def)
  have pv: "pinv c ?Q s" using inv by (simp add: kinv_def)
  have ti: "tick_inv E c D B s" using inv by (simp add: kinv_def)
  have frame: "cpu_frame c s ?s'" if "tick_same (load_core E t ns s) ?s'"
    using cpu_frame_trans[OF load_core_frame[OF ti c t(1)] tick_same_frame[OF that]] .
  have tQ: "t \<notin> ?Q" using t by (simp add: ready_set_def)
  consider (ready) "ns = K_TASK_STATE_READY"
    | (lsr) "tstate (tasks s t) = K_TASK_STATE_RUNNING" "ttype (tasks s t) = K_TASK_LSR"
    | (plain) "ns \<noteq> K_TASK_STATE_READY" "tstate (tasks s t) \<noteq> K_TASK_STATE_RUNNING \<or> ttype (tasks s t) \<noteq> K_TASK_LSR"
    by blast
  then show ?thesis
  proof cases
    case plain
    have rep: "reported c s ?s'"
      by (rule kTickTaskLoadNextState_reported[OF lp c cpu nr]) (use plain in auto)
    have s: "tick_same (load_core E t ns s) ?s'" "pol_same s ?s'"
      using load_plain[OF lp plain] by auto
    have step: "cpu_step c s ?s'" using pol_same_keeps[OF s(2) frame[OF s(1)]] rep by (simp add: cpu_step_iff)
    have "kinv c (D - {t}) (B - {t}) ?s'"
      by (rule kinv_load_aux[OF inv c t pre tk s(1) step])
        (use plain ready_set_load[OF t] pinv_same[OF s(2) pv] tickable_same[OF s(2)] in auto)
    then show ?thesis using s step by blast
  next
    case lsr
    obtain s3 where e3: "s3 = snd (load_report t (tstate (tasks s t)) ns
          (load_enter E t ns (upd_task t (\<lambda>r. r\<lparr>tstate := ns\<rparr>) s)))"
        and s3: "tick_same (load_core E t ns s) s3" "pol_same s s3"
        and out: "pol_only s3 (kSchedTaskLsrOutCallbackFn (ops E) t s3) \<Longrightarrow>
          tick_same s3 ?s' \<and> pol_same (kSchedTaskLsrOutCallbackFn (ops E) t s3) ?s'"
      using load_lsr_out[OF lp lsr] by blast
    have f3: "cpuId (tasks s3 t) = c" "ttype (tasks s3 t) = K_TASK_LSR"
      using s3(2) cpu lsr by (simp_all add: pol_same_def)
    let ?s4 = "kSchedTaskLsrOutCallbackFn (ops E) t s3"
    have law: "pinv c ?Q ?s4" "policy_keeps pinv tickable known c {} s3 ?s4"
      using lsr_out_law[of s3 t ?Q] pinv_same[OF s3(2) pv] f3 by auto
    have o: "tick_same s3 ?s'" "pol_same ?s4 ?s'"
      using out law(2) by (auto simp: policy_keeps_def)
    have same: "tick_same (load_core E t ns s) ?s'" using tick_same_trans[OF s3(1) o(1)] .
    have st3: "cpu_keeps c s s3"
      using pol_same_keeps[OF s3(2) cpu_frame_trans[OF load_core_frame[OF ti c t(1)] tick_same_frame[OF s3(1)]]] .
    have st4: "cpu_keeps c s3 ?s4" by (rule policy_cpu_keeps[OF law(2)]) simp
    have fr5: "cpu_frame c ?s4 ?s'"
    proof -
      have "tick_same s3 ?s4" using law(2) by (simp add: policy_keeps_def pol_only_tick_same)
      then have "tick_same ?s4 ?s'" using o(1) by (simp add: tick_same_def)
      then show ?thesis by (rule tick_same_frame)
    qed
    have ns: "ns \<noteq> K_TASK_STATE_READY" using lp lsr by (auto simp: load_pre_def state_ok_def)
    have rep: "reported c s ?s'"
      by (rule kTickTaskLoadNextState_reported[OF lp c cpu nr]) (use ns law(2) e3 in \<open>auto simp: policy_keeps_def\<close>)
    have step: "cpu_step c s ?s'"
      using cpu_keeps_trans[OF cpu_keeps_trans[OF st3 st4] pol_same_keeps[OF o(2) fr5]] rep by (simp add: cpu_step_iff)
    have "kinv c (D - {t}) (B - {t}) ?s'"
      by (rule kinv_load_aux[OF inv c t pre tk same step])
        (use ns ready_set_load[OF t] pinv_same[OF o(2) law(1)] law(2) tickable_same[OF o(2)]
          tickable_same[OF s3(2)] in \<open>auto simp: policy_keeps_def\<close>)
    then show ?thesis using same step by blast
  next
    case ready
    let ?s1 = "upd_task t (\<lambda>r. r\<lparr>tstate := K_TASK_STATE_READY\<rparr>) s"
    let ?s2 = "kSchedPushFn (ops E) t ?s1"
    have s1: "pol_same s ?s1" by (simp add: pol_same_def)
    have f1: "cpuId (tasks ?s1 t) = c" "ttype (tasks ?s1 t) = ttype (tasks s t)" using cpu by simp_all
    have ty: "ttype (tasks s t) = K_TASK_THREAD \<or> ttype (tasks s t) = K_TASK_IDLE"
      using lp ready by (auto simp: load_pre_def state_ok_def split: kSchedTaskType.splits)
    let ?V = "if ttype (tasks s t) = K_TASK_THREAD then insert t ?Q else {}"
    have law: "pinv c (ready_set (load_core E t ns s) c (D - {t})) ?s2
        \<and> policy_keeps pinv tickable known c ?V ?s1 ?s2"
    proof (cases "ttype (tasks s t) = K_TASK_THREAD")
      case True
      have "known t ?s1" using inv t True known_same[OF s1] by (auto simp: kinv_def)
      then show ?thesis
        using push_law[of ?s1 t ?Q] pinv_same[OF s1 pv] f1 True tQ ready ready_set_load[OF t] by simp
    next
      case False
      then show ?thesis
        using push_idle_law[of ?s1 t ?Q] pinv_same[OF s1 pv] f1 ty ready ready_set_load[OF t] by simp
    qed
    have o: "tick_same (load_core E t ns s) ?s'" "pol_same ?s2 ?s'"
      using load_ready[of E t s] lp ready law by (auto simp: Let_def policy_keeps_def)
    have V: "\<forall>u \<in> ?V. cpuId (tasks ?s1 u) = c" using cpu by (auto simp: ready_set_def live_def)
    have st2: "cpu_keeps c ?s1 ?s2" using policy_cpu_keeps law V by blast
    have rep: "reported c s ?s'"
      by (rule kTickTaskLoadNextState_reported[OF lp c cpu nr])
        (use law ready lp in \<open>auto simp: policy_keeps_def load_pre_def state_ok_def\<close>)
    have fr1: "cpu_frame c s ?s1" using cpu by (auto simp: cpu_frame_def static_same_def)
    have fr2: "cpu_frame c ?s2 ?s'"
    proof -
      have "tick_same ?s1 ?s2" using law by (auto simp: policy_keeps_def pol_only_tick_same)
      moreover have "tick_same ?s1 ?s'" using o(1) ready by (simp add: load_core_def)
      ultimately have "tick_same ?s2 ?s'" by (simp add: tick_same_def)
      then show ?thesis by (rule tick_same_frame)
    qed
    have step: "cpu_step c s ?s'"
      using cpu_keeps_trans[OF cpu_keeps_trans[OF pol_same_keeps[OF s1 fr1] st2] pol_same_keeps[OF o(2) fr2]] rep
      by (simp add: cpu_step_iff)
    have keep: "tickable u ?s'" if "u \<notin> ?V" "tickable u s" for u
      using that law tickable_same[OF s1] tickable_same[OF o(2)] by (auto simp: policy_keeps_def)
    have nt: "K_TASK_STATE_READY \<notin> TICKED_STATES" by (simp add: TICKED_STATES_def DEFTICK_STATES_def)
    have "kinv c (D - {t}) (B - {t}) ?s'"
    proof (rule kinv_load_aux[OF inv c t pre tk o(1) step])
      show "pinv c (ready_set (load_core E t ns s) c (D - {t})) ?s'"
        using pinv_same[OF o(2)] law by blast
      fix u assume u: "live s c u" "u = t \<longrightarrow> ns \<in> TICKED_STATES"
        "u \<noteq> t \<longrightarrow> tstate (tasks s u) \<in> TICKED_STATES" "tickable u s"
      then have "u \<notin> ?V" using nt ready by (auto simp: ready_set_def)
      then show "tickable u ?s'" using keep u by blast
    qed
    then show ?thesis using o step by blast
  qed
qed

end

end
