(* ===== verification/TickDetach.thy ===== *)
theory TickDetach
  imports TickKinv
begin

text \<open>
  Taking a task out of the container of its state, changing its budget, and running its tick
  callbacks: each keeps the invariant, with the task marked as detached or exempt.
\<close>

subsection \<open>The tick machine\<close>

lemma tick_inv_running:
  assumes "tick_inv E c D B s" "runningTask (gTickMachines s c) = Some t"
  shows "live s c t" "tstate (tasks s t) = K_TASK_STATE_RUNNING" "t \<notin> D"
proof -
  show l: "live s c t" using assms by (auto simp: tick_inv_def machine_inv_def Let_def)
  have "place_inv (alg E) (gTickMachines s c) (archLsrs s c) (t \<in> D) t (tasks s t)"
    using assms l by (simp add: tick_inv_def)
  then show "tstate (tasks s t) = K_TASK_STATE_RUNNING" "t \<notin> D"
    using assms(2) by (auto simp: place_inv_def)
qed

lemma tick_inv_deferred:
  assumes "tick_inv E c D B s" "t \<in> set (deferredTicks (gTickMachines s c))"
  shows "live s c t" "tstate (tasks s t) \<in> DEFTICK_STATES" "t \<notin> D"
proof -
  show l: "live s c t" using assms by (auto simp: tick_inv_def machine_inv_def Let_def)
  have "place_inv (alg E) (gTickMachines s c) (archLsrs s c) (t \<in> D) t (tasks s t)"
    using assms l by (simp add: tick_inv_def)
  then show "tstate (tasks s t) \<in> DEFTICK_STATES" "t \<notin> D"
    using assms(2) by (auto simp: place_inv_def)
qed

lemma tick_inv_lsr_chain:
  assumes "tick_inv E c D B s" "t \<in> set (pendingLsrChain (gTickMachines s c))"
  shows "live s c t" "tstate (tasks s t) = K_TASK_STATE_LSR_PENDING" "t \<notin> D"
    "ttype (tasks s t) = K_TASK_LSR"
proof -
  show l: "live s c t" using assms by (auto simp: tick_inv_def machine_inv_def Let_def)
  have p: "place_inv (alg E) (gTickMachines s c) (archLsrs s c) (t \<in> D) t (tasks s t)"
    "local_inv (idleAddr E) c (t \<in> D) (t \<in> B) t (tasks s t)"
    using assms l by (simp_all add: tick_inv_def)
  then show st: "tstate (tasks s t) = K_TASK_STATE_LSR_PENDING" "t \<notin> D"
    using assms(2) by (auto simp: place_inv_def)
  show "ttype (tasks s t) = K_TASK_LSR"
    using p(2) st by (auto simp: local_inv_def state_ok_def split: kSchedTaskType.splits)
qed

lemma tick_inv_sleep_chain:
  assumes "tick_inv E c D B s" "t \<in> set (chain_dq (sleepChain (gTickMachines s c)))"
  shows "live s c t" "tstate (tasks s t) = K_TASK_STATE_THREAD_SLEEP" "t \<notin> D"
    "ttype (tasks s t) = K_TASK_THREAD"
proof -
  show l: "live s c t" using assms by (auto simp: tick_inv_def machine_inv_def Let_def)
  have p: "place_inv (alg E) (gTickMachines s c) (archLsrs s c) (t \<in> D) t (tasks s t)"
    "local_inv (idleAddr E) c (t \<in> D) (t \<in> B) t (tasks s t)"
    using assms l by (simp_all add: tick_inv_def)
  then show st: "tstate (tasks s t) = K_TASK_STATE_THREAD_SLEEP" "t \<notin> D"
    using assms(2) by (auto simp: place_inv_def)
  show "ttype (tasks s t) = K_TASK_THREAD"
    using p(2) st by (auto simp: local_inv_def state_ok_def split: kSchedTaskType.splits)
qed

lemma tick_inv_replenish_chain:
  assumes "tick_inv E c D B s" "t \<in> set (chain_dq (replenishmentChain (gTickMachines s c)))"
  shows "live s c t" "ttype (tasks s t) = K_TASK_THREAD" "period (tick (tasks s t)) > 0"
    "alg E = BCS \<Longrightarrow> tstate (tasks s t) = K_TASK_STATE_THREAD_THROTTLED \<and> t \<notin> D"
proof -
  show l: "live s c t" using assms by (auto simp: tick_inv_def machine_inv_def Let_def)
  have p: "place_inv (alg E) (gTickMachines s c) (archLsrs s c) (t \<in> D) t (tasks s t)"
    "local_inv (idleAddr E) c (t \<in> D) (t \<in> B) t (tasks s t)"
    using assms l by (simp_all add: tick_inv_def)
  show st: "alg E = BCS \<Longrightarrow> tstate (tasks s t) = K_TASK_STATE_THREAD_THROTTLED \<and> t \<notin> D"
    using assms(2) p(1) by (auto simp: place_inv_def)
  show ty: "ttype (tasks s t) = K_TASK_THREAD"
  proof (cases "alg E")
    case DS then show ?thesis using assms(2) p(1) by (auto simp: place_inv_def)
  next
    case BCS then show ?thesis
      using st p(2) by (auto simp: local_inv_def state_ok_def split: kSchedTaskType.splits)
  qed
  show "period (tick (tasks s t)) > 0"
  proof (cases "alg E")
    case DS then show ?thesis using assms(2) p(1) by (auto simp: place_inv_def)
  next
    case BCS then show ?thesis using st p(2) ty by (auto simp: local_inv_def)
  qed
qed

lemma tick_inv_pending:
  assumes "tick_inv E c D B s" "pendingTaskLsr (gTickMachines s c) = Some t" "t \<notin> D"
  shows "live s c t" "tstate (tasks s t) \<in> {K_TASK_STATE_PENDING, K_TASK_STATE_DEFTICK_PENDING}"
    "ttype (tasks s t) \<noteq> K_TASK_LSR" "ttype (tasks s t) \<noteq> K_TASK_INVALID"
    "tstate (tasks s t) = K_TASK_STATE_DEFTICK_PENDING \<Longrightarrow> opt_hd (deferredTicks (gTickMachines s c)) = Some t"
proof -
  show l: "live s c t" using assms by (auto simp: tick_inv_def machine_inv_def Let_def)
  have p: "place_inv (alg E) (gTickMachines s c) (archLsrs s c) (t \<in> D) t (tasks s t)"
    "local_inv (idleAddr E) c (t \<in> D) (t \<in> B) t (tasks s t)"
    using assms(1) l by (simp_all add: tick_inv_def)
  then show st: "tstate (tasks s t) \<in> {K_TASK_STATE_PENDING, K_TASK_STATE_DEFTICK_PENDING}"
    using assms(2,3) by (auto simp: place_inv_def)
  show "ttype (tasks s t) \<noteq> K_TASK_LSR" "ttype (tasks s t) \<noteq> K_TASK_INVALID"
    using p(2) st by (auto simp: local_inv_def state_ok_def)
  show "opt_hd (deferredTicks (gTickMachines s c)) = Some t"
    if "tstate (tasks s t) = K_TASK_STATE_DEFTICK_PENDING"
    using p(1) assms(3) that by (auto simp: place_inv_def)
qed

text \<open>An update of the machine alone, which affects the places of one task at most.\<close>

lemma tick_inv_mach:
  assumes inv: "tick_inv E c D B s" and c: "thisCpu s = c" and t: "live s c t"
    and mi: "machine_inv (upd_mach f s) c"
    and places: "\<And>u. u \<noteq> t \<Longrightarrow> live s c u \<Longrightarrow>
        place_inv (alg E) (gTickMachines s c) (archLsrs s c) (u \<in> D) u (tasks s u) \<Longrightarrow>
        place_inv (alg E) (f (gTickMachines s c)) (archLsrs s c) (u \<in> D) u (tasks s u)"
    and place: "place_inv (alg E) (f (gTickMachines s c)) (archLsrs s c) True t (tasks s t)"
  shows "tick_inv E c (insert t D) B (upd_mach f s)"
proof (rule tick_inv_change[OF inv t])
  show "gOpsInitialized (upd_mach f s)" using inv by (simp add: tick_inv_def)
  have "local_inv (idleAddr E) c (t \<in> D) (t \<in> B) t (tasks s t)"
    using inv t by (simp add: tick_inv_def)
  then show "local_inv (idleAddr E) c (t \<in> insert t D) (t \<in> B) t (tasks (upd_mach f s) t)"
    by (auto simp: local_inv_def)
qed (use c mi places place in auto)

lemma place_inv_not:
  assumes "place_inv a M L False t r"
  shows "tstate r \<noteq> K_TASK_STATE_RUNNING \<Longrightarrow> runningTask M \<noteq> Some t"
    "tstate r \<notin> DEFTICK_STATES \<Longrightarrow> t \<notin> set (deferredTicks M)"
    "tstate r \<noteq> K_TASK_STATE_LSR_PENDING \<Longrightarrow> t \<notin> set (pendingLsrChain M)"
    "tstate r \<noteq> K_TASK_STATE_THREAD_SLEEP \<Longrightarrow> t \<notin> set (chain_dq (sleepChain M))"
    "a = BCS \<Longrightarrow> tstate r \<noteq> K_TASK_STATE_THREAD_THROTTLED \<Longrightarrow> t \<notin> set (chain_dq (replenishmentChain M))"
    "tstate r \<noteq> K_TASK_STATE_LSR_DORMANT \<Longrightarrow> ttype r = K_TASK_LSR \<Longrightarrow> t \<notin> set (L (lsrVector r))"
  using assms by (simp_all add: place_inv_def)

lemma place_inv_gone:
  assumes "place_inv a M L False t r"
    and "runningTask M' \<noteq> Some t" "t \<notin> set (deferredTicks M')" "t \<notin> set (pendingLsrChain M')"
    and "t \<notin> set (chain_dq (sleepChain M'))"
    and "a = BCS \<Longrightarrow> t \<notin> set (chain_dq (replenishmentChain M'))"
    and "a = DS \<Longrightarrow> replenishmentChain M' = replenishmentChain M"
    and "ttype r = K_TASK_LSR \<Longrightarrow> t \<notin> set (L (lsrVector r))"
  shows "place_inv a M' L True t r"
  using assms by (cases a) (simp_all add: place_inv_def)

lemma state_sets:
  "K_TASK_STATE_RUNNING \<notin> DEFTICK_STATES" "K_TASK_STATE_LSR_PENDING \<notin> DEFTICK_STATES"
  "K_TASK_STATE_LSR_DORMANT \<notin> DEFTICK_STATES" "K_TASK_STATE_THREAD_SLEEP \<notin> DEFTICK_STATES"
  "K_TASK_STATE_THREAD_THROTTLED \<notin> DEFTICK_STATES" "K_TASK_STATE_PENDING \<notin> DEFTICK_STATES"
  "K_TASK_STATE_READY \<notin> DEFTICK_STATES" "K_TASK_STATE_FAILURE \<notin> DEFTICK_STATES"
  "st \<in> DEFTICK_STATES \<Longrightarrow> st \<noteq> K_TASK_STATE_RUNNING \<and> st \<noteq> K_TASK_STATE_LSR_PENDING
     \<and> st \<noteq> K_TASK_STATE_LSR_DORMANT \<and> st \<noteq> K_TASK_STATE_THREAD_SLEEP
     \<and> st \<noteq> K_TASK_STATE_THREAD_THROTTLED \<and> st \<noteq> K_TASK_STATE_PENDING \<and> st \<noteq> K_TASK_STATE_READY
     \<and> st \<noteq> K_TASK_STATE_FAILURE \<and> st \<noteq> K_TASK_STATE_INVALID"
  by (auto simp: DEFTICK_STATES_def)

lemma detach_running:
  assumes inv: "tick_inv E c D B s" and c: "thisCpu s = c"
    and t: "runningTask (gTickMachines s c) = Some t"
  shows "tick_inv E c (insert t D) B (upd_mach (\<lambda>m. m\<lparr>runningTask := None\<rparr>) s)"
proof -
  note r = tick_inv_running[OF inv t]
  have mi: "machine_inv s c" and p: "place_inv (alg E) (gTickMachines s c) (archLsrs s c) False t (tasks s t)"
    using inv r by (auto simp: tick_inv_def)
  show ?thesis
  proof (rule tick_inv_mach[OF inv c r(1)])
    show "machine_inv (upd_mach (\<lambda>m. m\<lparr>runningTask := None\<rparr>) s) c"
      using mi c by (simp add: machine_inv_def Let_def live_def)
    show "place_inv (alg E) ((gTickMachines s c)\<lparr>runningTask := None\<rparr>) (archLsrs s c) True t (tasks s t)"
      by (rule place_inv_gone[OF p]) (use place_inv_not[OF p] r state_sets in simp_all)
    show "place_inv (alg E) ((gTickMachines s c)\<lparr>runningTask := None\<rparr>) (archLsrs s c) (u \<in> D) u (tasks s u)"
      if "u \<noteq> t" "place_inv (alg E) (gTickMachines s c) (archLsrs s c) (u \<in> D) u (tasks s u)" for u
      using that t by (simp add: place_inv_def)
  qed
qed

lemma detach_deferred:
  assumes inv: "tick_inv E c D B s" and c: "thisCpu s = c"
    and t: "deferredTicks (gTickMachines s c) = t # ts"
  shows "tick_inv E c (insert t D) B (upd_mach (\<lambda>m. m\<lparr>deferredTicks := ts\<rparr>) s)"
proof -
  have tin: "t \<in> set (deferredTicks (gTickMachines s c))" using t by simp
  note r = tick_inv_deferred[OF inv tin]
  have mi: "machine_inv s c" and p: "place_inv (alg E) (gTickMachines s c) (archLsrs s c) False t (tasks s t)"
    using inv r by (auto simp: tick_inv_def)
  have ts: "t \<notin> set ts" using mi t by (simp add: machine_inv_def Let_def)
  show ?thesis
  proof (rule tick_inv_mach[OF inv c r(1)])
    show "machine_inv (upd_mach (\<lambda>m. m\<lparr>deferredTicks := ts\<rparr>) s) c"
      using mi c t by (simp add: machine_inv_def Let_def live_def)
    show "place_inv (alg E) ((gTickMachines s c)\<lparr>deferredTicks := ts\<rparr>) (archLsrs s c) True t (tasks s t)"
      by (rule place_inv_gone[OF p]) (use place_inv_not[OF p] r ts state_sets(9)[OF r(2)] in simp_all)
    show "place_inv (alg E) ((gTickMachines s c)\<lparr>deferredTicks := ts\<rparr>) (archLsrs s c) (u \<in> D) u (tasks s u)"
      if "u \<noteq> t" "place_inv (alg E) (gTickMachines s c) (archLsrs s c) (u \<in> D) u (tasks s u)" for u
    proof -
      have "\<not> (u \<notin> D \<and> tstate (tasks s u) = K_TASK_STATE_DEFTICK_PENDING)"
        using that t by (simp add: place_inv_def) blast?
      then show ?thesis using that t by (cases "u \<in> D") (simp_all add: place_inv_def)
    qed
  qed
qed

lemma detach_lsr:
  assumes inv: "tick_inv E c D B s" and c: "thisCpu s = c"
    and t: "pendingLsrChain (gTickMachines s c) = t # ts"
  shows "tick_inv E c (insert t D) B (upd_mach (\<lambda>m. m\<lparr>pendingLsrChain := ts\<rparr>) s)"
proof -
  have tin: "t \<in> set (pendingLsrChain (gTickMachines s c))" using t by simp
  note r = tick_inv_lsr_chain[OF inv tin]
  have mi: "machine_inv s c" and p: "place_inv (alg E) (gTickMachines s c) (archLsrs s c) False t (tasks s t)"
    using inv r by (auto simp: tick_inv_def)
  have ts: "t \<notin> set ts" using mi t by (simp add: machine_inv_def Let_def)
  show ?thesis
  proof (rule tick_inv_mach[OF inv c r(1)])
    show "machine_inv (upd_mach (\<lambda>m. m\<lparr>pendingLsrChain := ts\<rparr>) s) c"
      using mi c t by (simp add: machine_inv_def Let_def live_def)
    show "place_inv (alg E) ((gTickMachines s c)\<lparr>pendingLsrChain := ts\<rparr>) (archLsrs s c) True t (tasks s t)"
      by (rule place_inv_gone[OF p]) (use place_inv_not[OF p] r ts state_sets in simp_all)
    show "place_inv (alg E) ((gTickMachines s c)\<lparr>pendingLsrChain := ts\<rparr>) (archLsrs s c) (u \<in> D) u (tasks s u)"
      if "u \<noteq> t" "place_inv (alg E) (gTickMachines s c) (archLsrs s c) (u \<in> D) u (tasks s u)" for u
      using that t by (simp add: place_inv_def)
  qed
qed

lemma detach_sleep:
  assumes inv: "tick_inv E c D B s" and c: "thisCpu s = c"
    and pop: "deltaChainPopExpired (sleepNodes s) (sleepChain (gTickMachines s c)) = (Some t, ch)"
  shows "tick_inv E c (insert t D) B (upd_mach (\<lambda>m. m\<lparr>sleepChain := ch\<rparr>) s)"
proof -
  have dq: "chain_dq (sleepChain (gTickMachines s c)) = t # chain_dq ch"
    using deltaChainPopExpired_spec(2)[OF pop] by simp
  then have tin: "t \<in> set (chain_dq (sleepChain (gTickMachines s c)))" by simp
  note r = tick_inv_sleep_chain[OF inv tin]
  have mi: "machine_inv s c" and p: "place_inv (alg E) (gTickMachines s c) (archLsrs s c) False t (tasks s t)"
    using inv r by (auto simp: tick_inv_def)
  have wf: "chain_wf (sleepNodes s) ch"
    using deltaChainPopExpired_wf[OF pop] mi by (simp add: machine_inv_def Let_def)
  have ts: "t \<notin> set (chain_dq ch)" using mi dq by (simp add: machine_inv_def Let_def chain_wf_def)
  show ?thesis
  proof (rule tick_inv_mach[OF inv c r(1)])
    show "machine_inv (upd_mach (\<lambda>m. m\<lparr>sleepChain := ch\<rparr>) s) c"
      using mi c dq wf by (simp add: machine_inv_def Let_def live_def)
    show "place_inv (alg E) ((gTickMachines s c)\<lparr>sleepChain := ch\<rparr>) (archLsrs s c) True t (tasks s t)"
      by (rule place_inv_gone[OF p]) (use place_inv_not[OF p] r ts state_sets in simp_all)
    show "place_inv (alg E) ((gTickMachines s c)\<lparr>sleepChain := ch\<rparr>) (archLsrs s c) (u \<in> D) u (tasks s u)"
      if "u \<noteq> t" "place_inv (alg E) (gTickMachines s c) (archLsrs s c) (u \<in> D) u (tasks s u)" for u
      using that dq by (simp add: place_inv_def)
  qed
qed

lemma detach_throttled_bcs:
  assumes inv: "tick_inv E c D B s" and c: "thisCpu s = c" and bcs: "alg E = BCS"
    and pop: "deltaChainPopExpired (replenishNodes s) (replenishmentChain (gTickMachines s c)) = (Some t, ch)"
  shows "tick_inv E c (insert t D) B (upd_mach (\<lambda>m. m\<lparr>replenishmentChain := ch\<rparr>) s)"
proof -
  have dq: "chain_dq (replenishmentChain (gTickMachines s c)) = t # chain_dq ch"
    using deltaChainPopExpired_spec(2)[OF pop] by simp
  then have tin: "t \<in> set (chain_dq (replenishmentChain (gTickMachines s c)))" by simp
  note r = tick_inv_replenish_chain[OF inv tin]
  have mi: "machine_inv s c" and p: "place_inv (alg E) (gTickMachines s c) (archLsrs s c) False t (tasks s t)"
    using inv r bcs by (auto simp: tick_inv_def)
  have wf: "chain_wf (replenishNodes s) ch"
    using deltaChainPopExpired_wf[OF pop] mi by (simp add: machine_inv_def Let_def)
  have ts: "t \<notin> set (chain_dq ch)" using mi dq by (simp add: machine_inv_def Let_def chain_wf_def)
  show ?thesis
  proof (rule tick_inv_mach[OF inv c r(1)])
    show "machine_inv (upd_mach (\<lambda>m. m\<lparr>replenishmentChain := ch\<rparr>) s) c"
      using mi c dq wf by (simp add: machine_inv_def Let_def live_def)
    show "place_inv (alg E) ((gTickMachines s c)\<lparr>replenishmentChain := ch\<rparr>) (archLsrs s c) True t (tasks s t)"
      by (rule place_inv_gone[OF p]) (use place_inv_not[OF p] r ts bcs state_sets in simp_all)
    show "place_inv (alg E) ((gTickMachines s c)\<lparr>replenishmentChain := ch\<rparr>) (archLsrs s c) (u \<in> D) u (tasks s u)"
      if "u \<noteq> t" "place_inv (alg E) (gTickMachines s c) (archLsrs s c) (u \<in> D) u (tasks s u)" for u
      using that dq bcs by (simp add: place_inv_def)
  qed
qed

text \<open>A throttled thread of the deferrable server and a ready task are in no container.\<close>

lemma detach_trivial:
  assumes inv: "tick_inv E c D B s" and t: "live s c t" and d: "t \<notin> D"
    and st: "tstate (tasks s t) = K_TASK_STATE_READY
      \<or> tstate (tasks s t) = K_TASK_STATE_THREAD_THROTTLED \<and> alg E = DS"
  shows "tick_inv E c (insert t D) B s"
proof (rule tick_inv_change[OF inv t])
  have l: "local_inv (idleAddr E) c False (t \<in> B) t (tasks s t)"
    and p: "place_inv (alg E) (gTickMachines s c) (archLsrs s c) False t (tasks s t)"
    using inv t d by (auto simp: tick_inv_def)
  show "local_inv (idleAddr E) c (t \<in> insert t D) (t \<in> B) t (tasks s t)"
    using l by (simp add: local_inv_def)
  have a: "alg E = BCS \<Longrightarrow> tstate (tasks s t) = K_TASK_STATE_READY" using st by auto
  show "place_inv (alg E) (gTickMachines s c) (archLsrs s c) (t \<in> insert t D) t (tasks s t)"
    unfolding insert_iff simp_thms
    by (rule place_inv_gone[OF p]) (use place_inv_not[OF p] st a state_sets in \<open>elim disjE; simp\<close>)+
  show "gOpsInitialized s" "machine_inv s c" using inv by (simp_all add: tick_inv_def)
qed auto

text \<open>The pending task leaves: nobody is pending.\<close>

lemma clear_pending:
  assumes inv: "tick_inv E c D B s" and c: "thisCpu s = c" and t: "t \<in> D"
    and p: "pendingTaskLsr (gTickMachines s c) = Some t"
  shows "tick_inv E c D B (upd_mach (\<lambda>m. m\<lparr>pendingTaskLsr := None\<rparr>) s)"
proof -
  have l: "live s c t" using inv p by (auto simp: tick_inv_def machine_inv_def Let_def)
  have mi: "machine_inv s c" and pl: "place_inv (alg E) (gTickMachines s c) (archLsrs s c) True t (tasks s t)"
    using inv l t by (auto simp: tick_inv_def)
  have "tick_inv E c (insert t D) B (upd_mach (\<lambda>m. m\<lparr>pendingTaskLsr := None\<rparr>) s)"
  proof (rule tick_inv_mach[OF inv c l])
    show "machine_inv (upd_mach (\<lambda>m. m\<lparr>pendingTaskLsr := None\<rparr>) s) c"
      using mi c by (simp add: machine_inv_def Let_def live_def)
    show "place_inv (alg E) ((gTickMachines s c)\<lparr>pendingTaskLsr := None\<rparr>) (archLsrs s c) True t (tasks s t)"
      using pl by (simp add: place_inv_def)
    show "place_inv (alg E) ((gTickMachines s c)\<lparr>pendingTaskLsr := None\<rparr>) (archLsrs s c) (u \<in> D) u (tasks s u)"
      if "u \<noteq> t" "place_inv (alg E) (gTickMachines s c) (archLsrs s c) (u \<in> D) u (tasks s u)" for u
      using that p by (simp add: place_inv_def)
  qed
  then show ?thesis using t by (simp add: insert_absorb)
qed

lemma detach_pending:
  assumes inv: "tick_inv E c D B s" and c: "thisCpu s = c"
    and p: "pendingTaskLsr (gTickMachines s c) = Some t" "t \<notin> D"
    and st: "tstate (tasks s t) = K_TASK_STATE_PENDING"
  shows "tick_inv E c (insert t D) B (upd_mach (\<lambda>m. m\<lparr>pendingTaskLsr := None\<rparr>) s)"
proof -
  have l: "live s c t" using inv p by (auto simp: tick_inv_def machine_inv_def Let_def)
  have mi: "machine_inv s c" and pl: "place_inv (alg E) (gTickMachines s c) (archLsrs s c) False t (tasks s t)"
    using inv l p by (auto simp: tick_inv_def)
  show ?thesis
  proof (rule tick_inv_mach[OF inv c l])
    show "machine_inv (upd_mach (\<lambda>m. m\<lparr>pendingTaskLsr := None\<rparr>) s) c"
      using mi c by (simp add: machine_inv_def Let_def live_def)
    show "place_inv (alg E) ((gTickMachines s c)\<lparr>pendingTaskLsr := None\<rparr>) (archLsrs s c) True t (tasks s t)"
      by (rule place_inv_gone[OF pl]) (use place_inv_not[OF pl] st state_sets in simp_all)
    show "place_inv (alg E) ((gTickMachines s c)\<lparr>pendingTaskLsr := None\<rparr>) (archLsrs s c) (u \<in> D) u (tasks s u)"
      if "u \<noteq> t" "place_inv (alg E) (gTickMachines s c) (archLsrs s c) (u \<in> D) u (tasks s u)" for u
      using that p by (simp add: place_inv_def)
  qed
qed

subsection \<open>With the policy\<close>

lemma upd_mach_frame:
  assumes "thisCpu s = c" shows "cpu_frame c s (upd_mach f s)"
  using assms by (simp add: cpu_frame_def)

lemma upd_tick_frame:
  assumes "cpuId (tasks s t) = c" and "\<And>k. budget (f k) = budget k" "\<And>k. period (f k) = period k"
  shows "cpu_frame c s (upd_task t (upd_tick f) s)"
  using assms by (auto simp: cpu_frame_def static_same_def)

text \<open>Budget changes: the task becomes exempt until its budget is looked at.\<close>

lemma tick_inv_budget:
  assumes inv: "tick_inv E c D B s" and t: "live s c t"
    and f: "\<And>k. budget (f k) = budget k" "\<And>k. period (f k) = period k"
      "\<And>k. sleepTicks (f k) = sleepTicks k" "\<And>k. lag (f k) \<Longrightarrow> lag k \<or> t \<in> D"
  shows "tick_inv E c D (insert t B) (upd_task t (upd_tick f) s)"
proof (rule tick_inv_change[OF inv t])
  let ?s' = "upd_task t (upd_tick f) s"
  have l: "local_inv (idleAddr E) c (t \<in> D) (t \<in> B) t (tasks s t)"
    and p: "place_inv (alg E) (gTickMachines s c) (archLsrs s c) (t \<in> D) t (tasks s t)"
    using inv t by (simp_all add: tick_inv_def)
  have mi: "machine_inv s c" using inv by (simp add: tick_inv_def)
  have lv: "live ?s' c u = live s c u" for u by (auto simp: live_def)
  have ty: "ttype (tasks ?s' u) = ttype (tasks s u)" "lsrVector (tasks ?s' u) = lsrVector (tasks s u)" for u
    by auto
  show "machine_inv ?s' c"
    using mi unfolding machine_inv_def Let_def lv ty by simp
  show "local_inv (idleAddr E) c (t \<in> D) (t \<in> insert t B) t (tasks ?s' t)"
  proof -
    have "lag (f (tick (tasks s t))) \<Longrightarrow> t \<in> D" if "ttype (tasks s t) = K_TASK_THREAD"
      using l f(4)[of "tick (tasks s t)"] that by (simp add: local_inv_def) blast
    then show ?thesis using l by (simp add: local_inv_def f)
  qed
  show "place_inv (alg E) (gTickMachines ?s' c) (archLsrs ?s' c) (t \<in> D) t (tasks ?s' t)"
    using p by (cases "alg E") (simp_all add: place_inv_def f)
qed (use inv in \<open>auto simp: tick_inv_def\<close>)

lemma tick_inv_unexempt:
  assumes inv: "tick_inv E c D B s"
    and b: "ttype (tasks s t) = K_TASK_THREAD \<Longrightarrow> tstate (tasks s t) \<in> BUDGET_STATES \<Longrightarrow>
      currentBudget (tick (tasks s t)) > 0"
  shows "tick_inv E c D (B - {t}) s"
proof -
  have "local_inv (idleAddr E) c (u \<in> D) (u \<in> B - {t}) u (tasks s u)" if "live s c u" for u
  proof -
    have "local_inv (idleAddr E) c (u \<in> D) (u \<in> B) u (tasks s u)" using inv that by (simp add: tick_inv_def)
    then show ?thesis using b by (cases "u = t") (simp_all add: local_inv_def)
  qed
  then show ?thesis using inv by (simp add: tick_inv_def)
qed

context sched_policy
begin

lemma kinv_change:
  assumes inv: "kinv c D B s" and ti: "tick_inv E c D' B' s'" and ps: "pol_same s s'"
    and rs: "ready_set s' c D' = ready_set s c D"
    and tk: "\<And>u. tstate (tasks s' u) \<in> TICKED_STATES \<Longrightarrow> u \<notin> B' \<Longrightarrow>
        (tstate (tasks s u) \<in> TICKED_STATES \<and> u \<notin> B) \<or> tickable u s"
  shows "kinv c D' B' s'"
proof -
  have eq: "live s' c u = live s c u" "ttype (tasks s' u) = ttype (tasks s u)" for u
    using ps by (simp_all add: live_def pol_same_def)
  show ?thesis
    using inv ti rs pinv_same[OF ps] known_same[OF ps] tickable_same[OF ps] tk
    by (fastforce simp: kinv_def eq)
qed

lemma kinv_leave_running:
  assumes inv: "kinv c D B s" and c: "thisCpu s = c" and t: "runningTask (gTickMachines s c) = Some t"
  shows "kinv c (insert t D) B (kTickPrepareLeaveRunningState s)
       \<and> cpu_step c s (kTickPrepareLeaveRunningState s)
       \<and> tick_same (upd_mach (\<lambda>m. m\<lparr>runningTask := None\<rparr>) s) (kTickPrepareLeaveRunningState s)"
proof -
  let ?s1 = "upd_mach (\<lambda>m. m\<lparr>runningTask := None\<rparr>) s"
  have ti: "tick_inv E c D B s" using inv by (simp add: kinv_def)
  note r = tick_inv_running[OF ti t]
  have s': "kTickPrepareLeaveRunningState s = emit (EvSaveCtx (thisCpu s) t) ?s1"
    using t r c by (simp add: kTickPrepareLeaveRunningState_def kTickGetRunningTask_def kTickGetMachine_def)
  have "kinv c (insert t D) B ?s1"
    by (rule kinv_change[OF inv detach_running[OF ti c t]]) (use r in \<open>auto simp: ready_set_def live_def\<close>)
  then have "kinv c (insert t D) B (emit (EvSaveCtx (thisCpu s) t) ?s1)"
    by (rule kinv_same[rotated 2]) simp_all
  moreover have "cpu_keeps c s (emit (EvSaveCtx (thisCpu s) t) ?s1)"
    by (rule pol_same_keeps[OF pol_same_trans[OF pol_same_upd_mach pol_same_emit]
        cpu_frame_trans[OF upd_mach_frame[OF c] tick_same_frame[OF tick_same_emit]]])
  then have "cpu_step c s (emit (EvSaveCtx (thisCpu s) t) ?s1)"
    unfolding cpu_step_iff using save_reported[OF t c] r c by simp
  ultimately show ?thesis unfolding s' by simp
qed

text \<open>Detaching by an update of the machine.\<close>

lemma kinv_detach:
  assumes inv: "kinv c D B s" and c: "thisCpu s = c"
    and ti: "tick_inv E c (insert t D) B (upd_mach f s)"
    and nr: "tstate (tasks s t) \<noteq> K_TASK_STATE_READY" and f: "\<And>m. runningTask (f m) = runningTask m"
  shows "kinv c (insert t D) B (upd_mach f s) \<and> cpu_step c s (upd_mach f s)"
proof
  show "kinv c (insert t D) B (upd_mach f s)"
    by (rule kinv_change[OF inv ti]) (use nr in \<open>auto simp: ready_set_def live_def\<close>)
  show "cpu_step c s (upd_mach f s)"
    by (intro pol_same_step upd_mach_frame[OF c] pol_same_upd_mach quiet_upd_mach) (simp add: f)
qed

lemma kinv_mach:
  assumes inv: "kinv c D B s" and c: "thisCpu s = c" and ti: "tick_inv E c D B (upd_mach f s)"
    and f: "\<And>m. runningTask (f m) = runningTask m"
  shows "kinv c D B (upd_mach f s) \<and> cpu_step c s (upd_mach f s)"
proof
  show "kinv c D B (upd_mach f s)"
    by (rule kinv_change[OF inv ti]) (auto simp: ready_set_def live_def)
  show "cpu_step c s (upd_mach f s)"
    by (intro pol_same_step upd_mach_frame[OF c] pol_same_upd_mach quiet_upd_mach) (simp add: f)
qed

lemma kinv_budget:
  assumes inv: "kinv c D B s" and t: "live s c t"
    and f: "\<And>k. budget (f k) = budget k" "\<And>k. period (f k) = period k"
      "\<And>k. sleepTicks (f k) = sleepTicks k" "\<And>k. lag (f k) \<Longrightarrow> lag k \<or> t \<in> D"
  shows "kinv c D (insert t B) (upd_task t (upd_tick f) s) \<and> cpu_step c s (upd_task t (upd_tick f) s)"
proof -
  let ?s' = "upd_task t (upd_tick f) s"
  have ti: "tick_inv E c D B s" using inv by (simp add: kinv_def)
  have ps: "pol_same s ?s'" by (simp add: pol_same_def)
  have "kinv c D (insert t B) ?s'"
    by (rule kinv_change[OF inv tick_inv_budget[OF ti t f] ps])
      (auto simp: ready_set_def live_def split: if_splits)
  moreover have "cpu_frame c s ?s'" using t f by (intro upd_tick_frame) (simp_all add: live_def)
  ultimately show ?thesis using pol_same_step[OF ps quiet_upd_tick] by blast
qed

lemma kinv_unexempt:
  assumes inv: "kinv c D B s"
    and b: "ttype (tasks s t) = K_TASK_THREAD \<Longrightarrow> tstate (tasks s t) \<in> BUDGET_STATES \<Longrightarrow>
      currentBudget (tick (tasks s t)) > 0"
    and tk: "ttype (tasks s t) = K_TASK_THREAD \<Longrightarrow> tstate (tasks s t) \<in> TICKED_STATES \<Longrightarrow> tickable t s"
  shows "kinv c D (B - {t}) s"
proof -
  have "tick_inv E c D (B - {t}) s" using tick_inv_unexempt[of E c D B s t] inv b by (simp add: kinv_def)
  moreover have "tickable u s" if "live s c u" "ttype (tasks s u) = K_TASK_THREAD"
      "tstate (tasks s u) \<in> TICKED_STATES" "u \<notin> B - {t}" for u
    using inv tk that by (cases "u = t") (simp_all add: kinv_def)
  ultimately show ?thesis using inv by (simp add: kinv_def)
qed

lemma kinv_exempt: "kinv c D B s \<Longrightarrow> kinv c D (insert t B) s"
  by (auto simp: kinv_def tick_inv_def local_inv_def)

text \<open>The tick callbacks of a task that can be ticked.\<close>

lemma kinv_callbacks:
  assumes inv: "kinv c D B s" and c: "thisCpu s = c" and t: "live s c t"
    and nq: "tstate (tasks s t) \<noteq> K_TASK_STATE_READY \<or> t \<in> D" and tk: "tickable t s"
    and tb: "t \<in> B \<or> ttype (tasks s t) \<noteq> K_TASK_THREAD"
  shows "kinv c D B (kTickTaskRunCallbacks E t s)
       \<and> cpu_step c s (kTickTaskRunCallbacks E t s)
       \<and> tick_same s (kTickTaskRunCallbacks E t s)
       \<and> (ttype (tasks s t) = K_TASK_THREAD \<longrightarrow> currentBudget (tick (tasks s t)) > 0 \<longrightarrow>
          tstate (tasks s t) \<noteq> K_TASK_STATE_THREAD_DEFTICK_SLEEP \<longrightarrow>
          tickable t (kTickTaskRunCallbacks E t s))"
proof -
  let ?Q = "ready_set s c D"
  let ?s1 = "kSchedTaskTickCallbackFn (ops E) t s"
  let ?s' = "kTickTaskRunCallbacks E t s"
  have ops: "gOpsInitialized s" using inv by (simp add: kinv_def tick_inv_def)
  have s': "?s' = run_callback (tickCallbackFn (callbacks (tasks s t))) t ?s1"
    using ops by (simp add: kTickTaskRunCallbacks_def kSchedTaskTickCallback_def)
  have sl: "sleepTicks (tick (tasks s t)) > 0"
    if "tstate (tasks s t) = K_TASK_STATE_THREAD_DEFTICK_SLEEP" "ttype (tasks s t) = K_TASK_THREAD"
  proof -
    have "local_inv (idleAddr E) c (t \<in> D) (t \<in> B) t (tasks s t)"
      using inv t by (simp add: kinv_def tick_inv_def)
    then show ?thesis using that by (simp add: local_inv_def)
  qed
  have thr: "ttype (tasks s t) = K_TASK_THREAD" if "tstate (tasks s t) = K_TASK_STATE_THREAD_DEFTICK_SLEEP"
  proof -
    have "state_ok (ttype (tasks s t)) (tstate (tasks s t))"
      using inv t by (simp add: kinv_def tick_inv_def local_inv_def)
    then show ?thesis using that by (auto simp: state_ok_def split: kSchedTaskType.splits)
  qed
  have law: "pinv c ?Q ?s1 \<and> policy_keeps pinv tickable known c {t} s ?s1
      \<and> (ttype (tasks s t) = K_TASK_THREAD \<longrightarrow> currentBudget (tick (tasks s t)) > 0 \<longrightarrow>
         tstate (tasks s t) \<noteq> K_TASK_STATE_THREAD_DEFTICK_SLEEP \<longrightarrow> tickable t ?s1)"
    unfolding c[symmetric]
  proof (rule callback_law)
    show "pinv (thisCpu s) (ready_set s (thisCpu s) D) s" using inv c by (simp add: kinv_def)
    show "cpuId (tasks s t) = thisCpu s" using t c by (simp add: live_def)
    show "t \<notin> ready_set s (thisCpu s) D" using nq by (auto simp: ready_set_def)
    show "known t s \<or> ttype (tasks s t) \<noteq> K_TASK_THREAD" using inv t by (auto simp: kinv_def)
  qed (use tk sl thr in auto)
  have k1: "kinv c D B ?s1"
    by (rule kinv_policy[OF _ _ inv]) (use law tb in auto)
  have "kinv c D B ?s'" unfolding s'
    by (rule kinv_same[OF _ _ k1]) simp_all
  moreover have ts: "tick_same s ?s'" unfolding s'
    using law by (auto simp: policy_keeps_def intro: tick_same_trans[OF pol_only_tick_same])
  moreover have "cpu_step c s ?s'"
  proof -
    have "cpu_step c s ?s1" using keeps_step law t by (fastforce simp: live_def)
    moreover have "cpu_step c ?s1 ?s'" unfolding s'
      by (intro pol_same_step tick_same_frame) simp_all
    ultimately show ?thesis by (rule cpu_step_trans)
  qed
  moreover have "tickable t ?s'" if "tickable t ?s1"
    unfolding s' using that by (rule tickable_same[rotated]) simp
  ultimately show ?thesis using law by blast
qed

end

end
