(* ===== verification/TickPhases.thy ===== *)
theory TickPhases
  imports TickDetach
begin

text \<open>
  The phases of \<open>kTickTransition\<close>: the deferred ticks, the running task, the replenishments and
  the sleepers. Each phase keeps the invariant, ends within its bound, and records no fault.
\<close>

subsection \<open>What a phase does not touch\<close>

definition mach_step :: "'p kEnv \<Rightarrow> u32 \<Rightarrow> 'p kstate \<Rightarrow> 'p kstate \<Rightarrow> bool" where
  "mach_step E c s s' \<longleftrightarrow>
    (let M = gTickMachines s c; M' = gTickMachines s' c in
       runningTask M' = runningTask M \<and> pendingLsrChain M' = pendingLsrChain M
     \<and> (pendingTaskLsr M = None \<longrightarrow> pendingTaskLsr M' = None)
     \<and> (alg E = DS \<longrightarrow> replenishmentChain M' = replenishmentChain M
                     \<and> replenishNodes s' = replenishNodes s))"

lemma mach_step_refl [simp]: "mach_step E c s s"
  by (simp add: mach_step_def)

lemma mach_step_trans [trans]: "mach_step E c s s' \<Longrightarrow> mach_step E c s' s'' \<Longrightarrow> mach_step E c s s''"
  by (simp add: mach_step_def Let_def)

lemma tick_same_mach_step: "tick_same s s' \<Longrightarrow> mach_step E c s s'"
  by (simp add: tick_same_def mach_step_def)

lemma load_core_same:
  "tick_same s s' \<Longrightarrow> tick_same (load_core E t ns s) (load_core E t ns s')"
  by (cases ns)
    (auto simp: tick_same_def load_core_def Let_def replenish_insert_def sleep_insert_def split: prod.splits)

lemma attach_pre_same: "tick_same s s' \<Longrightarrow> attach_pre E t ns s' = attach_pre E t ns s"
  by (simp add: tick_same_def attach_pre_def load_pre_def)

lemma load_core_step:
  assumes "thisCpu s = c"
    and "ns \<in> {K_TASK_STATE_READY, K_TASK_STATE_THREAD_THROTTLED, K_TASK_STATE_THREAD_SLEEP}
      \<or> ns = K_TASK_STATE_PENDING \<and> pendingTaskLsr (gTickMachines s c) \<noteq> None"
  shows "mach_step E c s (load_core E t ns s)
    \<and> deferredTicks (gTickMachines (load_core E t ns s) c) = deferredTicks (gTickMachines s c)
    \<and> (ns \<noteq> K_TASK_STATE_THREAD_SLEEP \<longrightarrow>
        sleepChain (gTickMachines (load_core E t ns s) c) = sleepChain (gTickMachines s c)
        \<and> sleepNodes (load_core E t ns s) = sleepNodes s)
    \<and> (ns \<noteq> K_TASK_STATE_THREAD_THROTTLED \<longrightarrow>
        replenishmentChain (gTickMachines (load_core E t ns s) c) = replenishmentChain (gTickMachines s c)
        \<and> replenishNodes (load_core E t ns s) = replenishNodes s)"
  using assms
  by (cases ns)
    (auto simp: mach_step_def Let_def load_core_def replenish_insert_def sleep_insert_def split: prod.splits)

lemma attach_preI:
  assumes inv: "tick_inv E c D B s" and c: "thisCpu s = c" and t: "live s c t"
    and st: "state_ok (ttype (tasks s t)) ns" "tstate (tasks s t) \<noteq> ns"
    and run: "ns = K_TASK_STATE_RUNNING \<Longrightarrow>
      K_SCHED_TASK_ACTIVATED (tstate (tasks s t)) \<and> runningTask (gTickMachines s c) = None"
    and pend: "ns \<in> DEFTICK_STATES \<or> ns = K_TASK_STATE_PENDING \<Longrightarrow>
      pendingTaskLsr (gTickMachines s c) \<in> {None, Some t}"
    and npend: "ns \<notin> {K_TASK_STATE_PENDING, K_TASK_STATE_DEFTICK_PENDING} \<Longrightarrow>
      pendingTaskLsr (gTickMachines s c) \<noteq> Some t"
    and bud: "ttype (tasks s t) = K_TASK_THREAD \<Longrightarrow> ns \<in> BUDGET_STATES \<Longrightarrow> currentBudget (tick (tasks s t)) > 0"
    and slp: "ttype (tasks s t) = K_TASK_THREAD \<Longrightarrow>
      ns \<in> {K_TASK_STATE_THREAD_SLEEP, K_TASK_STATE_THREAD_DEFTICK_SLEEP} \<Longrightarrow> sleepTicks (tick (tasks s t)) > 0"
    and thr: "ttype (tasks s t) = K_TASK_THREAD \<Longrightarrow> ns = K_TASK_STATE_THREAD_THROTTLED \<Longrightarrow>
      period (tick (tasks s t)) > 0"
    and lag: "ttype (tasks s t) = K_TASK_THREAD \<Longrightarrow> lag (tick (tasks s t)) \<Longrightarrow>
      ns = K_TASK_STATE_THREAD_THROTTLED \<and> alg E = BCS \<and> sleepTicks (tick (tasks s t)) > 0
      \<and> sleepTicks (tick (tasks s t)) \<le> period (tick (tasks s t))"
  shows "attach_pre E t ns s"
proof -
  have l: "local_inv (idleAddr E) c (t \<in> D) (t \<in> B) t (tasks s t)" and o: "gOpsInitialized s" "cpuValid E c"
    using inv t by (simp_all add: tick_inv_def)
  have cpu: "cpuId (tasks s t) = c" using t by (simp add: live_def)
  have idle: "ttype (tasks s t) = K_TASK_IDLE \<longrightarrow> curDomain (tdomain (tasks s t)) = None"
    using l by (simp add: local_inv_def)
  have ty: "ns = K_TASK_STATE_THREAD_SLEEP \<or> ns = K_TASK_STATE_THREAD_THROTTLED \<Longrightarrow>
      ttype (tasks s t) = K_TASK_THREAD"
    using st(1) by (auto simp: state_ok_def split: kSchedTaskType.splits)
  have "load_pre E t ns s"
    unfolding load_pre_def
  proof (intro conjI impI)
    show "sleepTicks (tick (tasks s t)) > 0" if "ns = K_TASK_STATE_THREAD_SLEEP"
      using slp ty that by blast
    show "sleepTicks (tick (tasks s t)) > 0" "sleepTicks (tick (tasks s t)) \<le> period (tick (tasks s t))"
      if "ns = K_TASK_STATE_THREAD_THROTTLED" "lag (tick (tasks s t))"
      using lag ty that by blast+
  qed (use o st run idle cpu in simp_all)
  then show ?thesis
    unfolding attach_pre_def c
  proof (intro conjI impI)
    show "0 < sleepTicks (tick (tasks s t))"
      if "ttype (tasks s t) = K_TASK_THREAD" "ns = K_TASK_STATE_THREAD_DEFTICK_SLEEP"
      using slp that by blast
    show "ns = K_TASK_STATE_THREAD_THROTTLED" "alg E = BCS"
      if "ttype (tasks s t) = K_TASK_THREAD" "lag (tick (tasks s t))"
      using lag that by blast+
  qed (use run pend npend bud thr in simp_all)
qed

subsection \<open>Deferred ticks\<close>

context sched_policy
begin

text \<open>A detached, exempt thread is ticked and put into the container of its next state.\<close>

lemma tick_then_load:
  assumes inv: "kinv c {t} B s" and c: "thisCpu s = c" and t: "live s c t"
    and tb: "t \<in> B \<or> ttype (tasks s t) \<noteq> K_TASK_THREAD"
    and tk: "tickable t s" and pre: "attach_pre E t ns s"
    and ns: "ns \<in> TICKED_STATES \<Longrightarrow> ttype (tasks s t) = K_TASK_THREAD \<Longrightarrow>
      tstate (tasks s t) \<noteq> K_TASK_STATE_THREAD_DEFTICK_SLEEP \<and> currentBudget (tick (tasks s t)) > 0"
  shows "kinv c {} (B - {t}) (kTickTaskLoadNextState E t ns (kTickTaskRunCallbacks E t s))
    \<and> cpu_step c s (kTickTaskLoadNextState E t ns (kTickTaskRunCallbacks E t s))
    \<and> tick_same (load_core E t ns s) (kTickTaskLoadNextState E t ns (kTickTaskRunCallbacks E t s))"
proof -
  let ?s1 = "kTickTaskRunCallbacks E t s"
  have 1: "kinv c {t} B ?s1" "cpu_step c s ?s1" "tick_same s ?s1"
      "ttype (tasks s t) = K_TASK_THREAD \<Longrightarrow> currentBudget (tick (tasks s t)) > 0 \<Longrightarrow>
       tstate (tasks s t) \<noteq> K_TASK_STATE_THREAD_DEFTICK_SLEEP \<Longrightarrow> tickable t ?s1"
    using kinv_callbacks[OF inv c t _ tk tb] by auto
  have f: "thisCpu ?s1 = c" "live ?s1 c t" "attach_pre E t ns ?s1" "tasks ?s1 = tasks s"
    using 1(3) c t pre live_same[OF 1(3)] attach_pre_same[OF 1(3)] by (simp_all add: tick_same_def)
  have "kinv c ({t} - {t}) (B - {t}) (kTickTaskLoadNextState E t ns ?s1)
      \<and> cpu_step c ?s1 (kTickTaskLoadNextState E t ns ?s1)
      \<and> tick_same (load_core E t ns ?s1) (kTickTaskLoadNextState E t ns ?s1)"
    by (rule kinv_load[OF 1(1) f(1,2) _ f(3)]) (use 1(4) ns f(4) in auto)
  then show ?thesis
    using cpu_step_trans[OF 1(2)] tick_same_trans[OF load_core_same[OF 1(3)]] by auto
qed

lemma state_ok_deferred:
  "state_ok ty st \<Longrightarrow> st \<in> DEFTICK_STATES \<Longrightarrow>
     ty = K_TASK_THREAD \<or> ty = K_TASK_IDLE \<and> st = K_TASK_STATE_DEFTICK_PENDING"
  by (auto simp: state_ok_def DEFTICK_STATES_def split: kSchedTaskType.splits)

lemma kinv_tickable:
  "kinv c D B s \<Longrightarrow> live s c t \<Longrightarrow> tstate (tasks s t) \<in> TICKED_STATES \<Longrightarrow> t \<notin> B \<Longrightarrow> tickable t s"
  by (cases "ttype (tasks s t) = K_TASK_THREAD") (auto simp: kinv_def intro: tickable_other)

definition deferred_ok :: "u32 \<Rightarrow> 'p kstate \<Rightarrow> 'p kstate \<Rightarrow> bool" where
  "deferred_ok c s s' \<longleftrightarrow> kinv c {} {} s' \<and> cpu_step c s s' \<and> mach_step E c s s'
     \<and> deferredTicks (gTickMachines s' c) = deferredTicks (gTickMachines s c)"

lemma deferred_finish:
  assumes "kinv c {} {} s' \<and> cpu_step c s1 s' \<and> tick_same (load_core E t ns s1) s'"
    and "cpu_step c s s1" "mach_step E c s s1"
    and "deferredTicks (gTickMachines s1 c) = deferredTicks (gTickMachines s c)"
    and "thisCpu s1 = c"
    and "ns \<in> {K_TASK_STATE_READY, K_TASK_STATE_THREAD_THROTTLED, K_TASK_STATE_THREAD_SLEEP}
      \<or> ns = K_TASK_STATE_PENDING \<and> pendingTaskLsr (gTickMachines s1 c) \<noteq> None"
  shows "deferred_ok c s s'"
proof -
  note st = load_core_step[OF assms(5,6), of E t]
  have "mach_step E c s s'"
    using mach_step_trans[OF assms(3) mach_step_trans[OF _ tick_same_mach_step]] st assms(1) by blast
  moreover have "deferredTicks (gTickMachines s' c) = deferredTicks (gTickMachines s c)"
    using st assms(1,4) by (simp add: tick_same_def)
  ultimately show ?thesis
    using assms(1) cpu_step_trans[OF assms(2)] by (simp add: deferred_ok_def)
qed

lemma upd_tick_mach_step: "mach_step E c s (upd_task t (upd_tick f) s)"
  by (simp add: mach_step_def)

lemma deferred_task_ok:
  assumes inv: "kinv c {t} {} s" and c: "thisCpu s = c" and t: "live s c t"
    and st: "tstate (tasks s t) \<in> DEFTICK_STATES"
    and pend: "(pendingTaskLsr (gTickMachines s c) = Some t) =
      (tstate (tasks s t) = K_TASK_STATE_DEFTICK_PENDING)"
    and nolag: "ttype (tasks s t) = K_TASK_THREAD \<Longrightarrow> \<not> lag (tick (tasks s t))"
  shows "deferred_ok c s (deferred_task E t s)"
proof -
  have ti: "tick_inv E c {t} {} s" using inv by (simp add: kinv_def)
  have l: "local_inv (idleAddr E) c True False t (tasks s t)" using ti t by (auto simp: tick_inv_def)
  have so: "state_ok (ttype (tasks s t)) (tstate (tasks s t))" using l by (simp add: local_inv_def)
  have tk: "tickable t s" using kinv_tickable[OF inv t] st by (simp add: TICKED_STATES_def)
  consider (idle) "ttype (tasks s t) = K_TASK_IDLE" "tstate (tasks s t) = K_TASK_STATE_DEFTICK_PENDING"
    | (thread) "ttype (tasks s t) = K_TASK_THREAD" using state_ok_deferred[OF so st] by blast
  then show ?thesis
  proof cases
    case idle
    have pre: "attach_pre E t K_TASK_STATE_PENDING s"
      by (rule attach_preI[OF ti c t]) (use idle pend in \<open>auto simp: state_ok_def\<close>)
    have "deferred_task E t s =
        kTickTaskLoadNextState E t K_TASK_STATE_PENDING (kTickTaskRunCallbacks E t s)"
      using idle by (simp add: deferred_task_def Let_def)
    moreover have "kinv c {} ({} - {t}) (kTickTaskLoadNextState E t K_TASK_STATE_PENDING (kTickTaskRunCallbacks E t s))
        \<and> cpu_step c s (kTickTaskLoadNextState E t K_TASK_STATE_PENDING (kTickTaskRunCallbacks E t s))
        \<and> tick_same (load_core E t K_TASK_STATE_PENDING s)
            (kTickTaskLoadNextState E t K_TASK_STATE_PENDING (kTickTaskRunCallbacks E t s))"
      by (rule tick_then_load[OF inv c t _ tk pre]) (use idle in auto)
    ultimately show ?thesis
      using pend idle by (intro deferred_finish[of c _ s t K_TASK_STATE_PENDING]) (auto simp: c)
  next
    case thread
    let ?f = "\<lambda>k. k\<lparr>currentBudget := (if tstate (tasks s t) = K_TASK_STATE_THREAD_DEFTICK_THROTTLE then 0
        else currentBudget k - 1)\<rparr>"
    let ?s1 = "upd_task t (upd_tick ?f) s"
    have cb: "currentBudget (tick (tasks s t)) > 0" "budget (tick (tasks s t)) > 0"
      using l thread st by (simp_all add: local_inv_def BUDGET_STATES_def)
    have 1: "kinv c {t} {t} ?s1" "cpu_step c s ?s1"
      using kinv_budget[OF inv t, of ?f] by simp_all
    have ti1: "tick_inv E c {t} {t} ?s1" using 1(1) by (simp add: kinv_def)
    have f1: "thisCpu ?s1 = c" "live ?s1 c t" using c t by (simp_all add: live_def)
    have tk1: "tickable t ?s1" by (rule tickable_same[OF _ tk]) (simp add: pol_same_def)
    have m1: "mach_step E c s ?s1" by (rule upd_tick_mach_step)
    have def: "deferred_task E t s =
      (if tstate (tasks s t) = K_TASK_STATE_THREAD_DEFTICK_SLEEP
       then kTickTaskLoadNextState E t K_TASK_STATE_THREAD_SLEEP (kTickTaskRunCallbacks E t ?s1)
       else
         let nextState = (if tstate (tasks s t) = K_TASK_STATE_DEFTICK_PENDING then K_TASK_STATE_PENDING
                          else K_TASK_STATE_READY);
             (nextState, s) =
               (if currentBudget (tick (tasks ?s1 t)) = 0
                then if period (tick (tasks ?s1 t)) > 0
                        \<and> (alg E = DS \<longrightarrow> kTickThrottleTimeLeft t ?s1 > 1)
                     then (K_TASK_STATE_THREAD_THROTTLED,
                           if tstate (tasks s t) = K_TASK_STATE_DEFTICK_PENDING
                           then upd_mach (\<lambda>m. m\<lparr>pendingTaskLsr := None\<rparr>) ?s1 else ?s1)
                     else (nextState,
                           upd_task t (upd_tick (\<lambda>k. k\<lparr>currentBudget := budget k\<rparr>)) ?s1)
                else (nextState, ?s1))
         in kTickTaskLoadNextState E t nextState (kTickTaskRunCallbacks E t s))"
    proof -
      have "K_DYNAMIC_ASSERT (ttype (tasks s t) \<noteq> K_TASK_LSR) s = s"
        "K_DYNAMIC_ASSERT (currentBudget (tick (tasks s t)) > 0) s = s"
        "K_DYNAMIC_ASSERT (tstate (tasks s t) = K_TASK_STATE_THREAD_DEFTICK_YIELD
                \<or> tstate (tasks s t) = K_TASK_STATE_THREAD_DEFTICK_THROTTLE
                \<or> tstate (tasks s t) = K_TASK_STATE_DEFTICK_PENDING
                \<or> tstate (tasks s t) = K_TASK_STATE_THREAD_DEFTICK_SLEEP) s = s"
        using thread cb st by (auto intro!: assert_holds simp: DEFTICK_STATES_def)
      then show ?thesis
        using thread by (simp only: deferred_task_def Let_def kSchedTaskType.distinct if_False)
    qed
    let ?ns = "if tstate (tasks s t) = K_TASK_STATE_DEFTICK_PENDING then K_TASK_STATE_PENDING
               else K_TASK_STATE_READY"
    consider (sleep) "tstate (tasks s t) = K_TASK_STATE_THREAD_DEFTICK_SLEEP"
      | (left) "tstate (tasks s t) \<noteq> K_TASK_STATE_THREAD_DEFTICK_SLEEP" "currentBudget (tick (tasks ?s1 t)) \<noteq> 0"
      | (throttle) "tstate (tasks s t) \<noteq> K_TASK_STATE_THREAD_DEFTICK_SLEEP" "currentBudget (tick (tasks ?s1 t)) = 0"
          "period (tick (tasks ?s1 t)) > 0 \<and> (alg E = DS \<longrightarrow> kTickThrottleTimeLeft t ?s1 > 1)"
      | (refill) "tstate (tasks s t) \<noteq> K_TASK_STATE_THREAD_DEFTICK_SLEEP" "currentBudget (tick (tasks ?s1 t)) = 0"
          "\<not> (period (tick (tasks ?s1 t)) > 0 \<and> (alg E = DS \<longrightarrow> kTickThrottleTimeLeft t ?s1 > 1))"
      by blast
    then show ?thesis
    proof cases
      case sleep
      have d: "deferred_task E t s = kTickTaskLoadNextState E t K_TASK_STATE_THREAD_SLEEP (kTickTaskRunCallbacks E t ?s1)"
        using def sleep by simp
      have pre: "attach_pre E t K_TASK_STATE_THREAD_SLEEP ?s1"
        by (rule attach_preI[OF ti1 f1])
          (use thread sleep pend nolag l in \<open>auto simp: state_ok_def local_inv_def BUDGET_STATES_def DEFTICK_STATES_def\<close>)
      show ?thesis
        using tick_then_load[OF 1(1) f1 _ tk1 pre] 1 m1 f1 unfolding d
        by (intro deferred_finish[of c _ ?s1 t K_TASK_STATE_THREAD_SLEEP])
          (auto simp: TICKED_STATES_def DEFTICK_STATES_def)
    next
      case left
      have d: "deferred_task E t s = kTickTaskLoadNextState E t ?ns (kTickTaskRunCallbacks E t ?s1)"
        using def left by (simp add: Let_def)
      have pre: "attach_pre E t ?ns ?s1"
        by (rule attach_preI[OF ti1 f1])
          (use thread left pend nolag st in \<open>auto simp: state_ok_def word_greater_zero_iff DEFTICK_STATES_def
             split: if_splits\<close>)
      show ?thesis
        using tick_then_load[OF 1(1) f1 _ tk1 pre] 1 m1 f1 left thread pend unfolding d
        by (intro deferred_finish[of c _ ?s1 t ?ns]) (auto simp: word_greater_zero_iff)
    next
      case refill
      let ?s2 = "upd_task t (upd_tick (\<lambda>k. k\<lparr>currentBudget := budget k\<rparr>)) ?s1"
      have d: "deferred_task E t s = kTickTaskLoadNextState E t ?ns (kTickTaskRunCallbacks E t ?s2)"
        using def refill by (simp only: Let_def if_False if_True prod.case refl)
      have 2: "kinv c {t} {t} ?s2" "cpu_step c ?s1 ?s2"
        using kinv_budget[OF 1(1) f1(2), of "\<lambda>k. k\<lparr>currentBudget := budget k\<rparr>"] by simp_all
      have ti2: "tick_inv E c {t} {t} ?s2" using 2(1) by (simp add: kinv_def)
      have f2: "thisCpu ?s2 = c" "live ?s2 c t" using c t by (simp_all add: live_def)
      have tk2: "tickable t ?s2" by (rule tickable_same[OF _ tk1]) (simp add: pol_same_def)
      have pre: "attach_pre E t ?ns ?s2"
        by (rule attach_preI[OF ti2 f2])
          (use thread refill(1) pend nolag st cb in \<open>auto simp: state_ok_def DEFTICK_STATES_def split: if_splits\<close>)
      show ?thesis
        using tick_then_load[OF 2(1) f2 _ tk2 pre] cpu_step_trans[OF 1(2) 2(2)]
          mach_step_trans[OF m1 upd_tick_mach_step] f2 refill(1) thread pend cb unfolding d
        by (intro deferred_finish[of c _ ?s2 t ?ns]) auto
    next
      case throttle
      let ?s2 = "if tstate (tasks s t) = K_TASK_STATE_DEFTICK_PENDING
                 then upd_mach (\<lambda>m. m\<lparr>pendingTaskLsr := None\<rparr>) ?s1 else ?s1"
      have d: "deferred_task E t s =
          kTickTaskLoadNextState E t K_TASK_STATE_THREAD_THROTTLED (kTickTaskRunCallbacks E t ?s2)"
        using def throttle(1) by (simp only: Let_def if_P[OF throttle(2)] if_P[OF throttle(3)] if_False prod.case)
      have 2: "kinv c {t} {t} ?s2 \<and> cpu_step c ?s1 ?s2"
        using kinv_mach[OF 1(1) f1(1) clear_pending[OF ti1 f1(1)]] 1(1) pend by simp
      have ti2: "tick_inv E c {t} {t} ?s2" using 2 by (simp add: kinv_def)
      have f2: "thisCpu ?s2 = c" "live ?s2 c t" "tasks ?s2 = tasks ?s1" using c t by (simp_all add: live_def)
      have tk2: "tickable t ?s2" by (rule tickable_same[OF _ tk1]) simp
      have m2: "mach_step E c ?s1 ?s2" using c by (simp add: mach_step_def)
      have pre: "attach_pre E t K_TASK_STATE_THREAD_THROTTLED ?s2"
        by (rule attach_preI[OF ti2 f2(1,2)])
          (use thread throttle pend nolag st c in \<open>auto simp: f2(3) state_ok_def DEFTICK_STATES_def BUDGET_STATES_def
             split: if_splits\<close>)
      have "deferredTicks (gTickMachines ?s2 c) = deferredTicks (gTickMachines s c)" using c by simp
      then show ?thesis
        using tick_then_load[OF conjunct1[OF 2] f2(1,2) _ tk2 pre] cpu_step_trans[OF 1(2) conjunct2[OF 2]]
          mach_step_trans[OF m1 m2] f2(1) unfolding d
        by (intro deferred_finish[of c _ ?s2 t K_TASK_STATE_THREAD_THROTTLED])
          (auto simp: TICKED_STATES_def DEFTICK_STATES_def)
    qed
  qed
qed

lemma deferred_loop_ok:
  assumes "kinv c {} {} s" and "thisCpu s = c"
    and "length (deferredTicks (gTickMachines s c)) \<le> n"
  shows "kinv c {} {} (deferred_loop E n s) \<and> cpu_step c s (deferred_loop E n s)
       \<and> mach_step E c s (deferred_loop E n s)
       \<and> deferredTicks (gTickMachines (deferred_loop E n s) c) = []"
  using assms
proof (induction n arbitrary: s)
  case 0
  then show ?case by simp
next
  case (Suc n)
  show ?case
  proof (cases "deferredTicks (gTickMachines s c)")
    case Nil
    then show ?thesis using Suc.prems by simp
  next
    case (Cons t ts)
    let ?s1 = "upd_mach (\<lambda>m. m\<lparr>deferredTicks := ts\<rparr>) s"
    have ti: "tick_inv E c {} {} s" using Suc.prems by (simp add: kinv_def)
    have tin: "t \<in> set (deferredTicks (gTickMachines s c))" using Cons by simp
    note r = tick_inv_deferred[OF ti tin]
    have l: "local_inv (idleAddr E) c False False t (tasks s t)"
      and p: "place_inv (alg E) (gTickMachines s c) (archLsrs s c) False t (tasks s t)"
      using ti r by (auto simp: tick_inv_def)
    have 1: "kinv c {t} {} ?s1" "cpu_step c s ?s1"
      using kinv_detach[OF Suc.prems(1,2) detach_deferred[OF ti Suc.prems(2) Cons]] r state_sets(9)[OF r(2)]
      by auto
    have f1: "thisCpu ?s1 = c" "live ?s1 c t" using Suc.prems(2) r by (simp_all add: live_def)
    have ok: "deferred_ok c ?s1 (deferred_task E t ?s1)"
    proof (rule deferred_task_ok[OF 1(1) f1])
      show "tstate (tasks ?s1 t) \<in> DEFTICK_STATES" using r by simp
      show "(pendingTaskLsr (gTickMachines ?s1 c) = Some t) = (tstate (tasks ?s1 t) = K_TASK_STATE_DEFTICK_PENDING)"
        using p Suc.prems(2) state_sets(9)[OF r(2)] by (simp add: place_inv_def)
      show "\<not> lag (tick (tasks ?s1 t))" if "ttype (tasks ?s1 t) = K_TASK_THREAD"
        using l that by (simp add: local_inv_def)
    qed
    let ?s2 = "deferred_task E t ?s1"
    have 2: "kinv c {} {} ?s2" "cpu_step c ?s1 ?s2" "mach_step E c ?s1 ?s2"
        "deferredTicks (gTickMachines ?s2 c) = ts"
      using ok Suc.prems(2) by (simp_all add: deferred_ok_def)
    have c2: "thisCpu ?s2 = c" using cpu_step_cpu[OF 2(2)] f1 by simp
    note IH = Suc.IH[OF 2(1) c2]
    have m1: "mach_step E c s ?s1" using Suc.prems(2) by (simp add: mach_step_def)
    have "deferred_loop E (Suc n) s = deferred_loop E n ?s2"
      using Cons Suc.prems(2) by (simp add: Let_def)
    then show ?thesis
      using IH 2(4) Cons Suc.prems(3) cpu_step_trans[OF 1(2) cpu_step_trans[OF 2(2)]]
        mach_step_trans[OF m1 mach_step_trans[OF 2(3)]] by (simp del: deferred_loop.simps)
  qed
qed

lemma kTickHandleDeferredTicks_ok:
  assumes "kinv c {} {} s" and "thisCpu s = c"
  shows "kinv c {} {} (kTickHandleDeferredTicks E s) \<and> cpu_step c s (kTickHandleDeferredTicks E s)
       \<and> mach_step E c s (kTickHandleDeferredTicks E s)
       \<and> deferredTicks (gTickMachines (kTickHandleDeferredTicks E s) c) = []"
  unfolding kTickHandleDeferredTicks_def using deferred_loop_ok[OF assms] assms(2) by simp

subsection \<open>The running task\<close>

text \<open>
  After its tick the running thread is exempt. If its budget is used up it has a period, and in
  the deferrable server its replenishment is more than a tick away.
\<close>

definition throttle_due :: "u32 \<Rightarrow> addr \<Rightarrow> 'p kstate \<Rightarrow> bool" where
  "throttle_due c t s \<longleftrightarrow> ttype (tasks s t) = K_TASK_THREAD \<and> currentBudget (tick (tasks s t)) = 0"

lemma kTickRunningTask_ok:
  assumes inv: "kinv c {} {} s" and c: "thisCpu s = c" and t: "runningTask (gTickMachines s c) = Some t"
  shows "let s' = kTickRunningTask E s in
    kinv c {} {t} s' \<and> cpu_step c s s' \<and> mach_step E c s s'
    \<and> deferredTicks (gTickMachines s' c) = deferredTicks (gTickMachines s c)
    \<and> (throttle_due c t s' \<longrightarrow> period (tick (tasks s' t)) > 0
         \<and> (alg E = DS \<longrightarrow> deltaChainTimeUntil (replenishNodes s) (replenishmentChain (gTickMachines s c)) t > 1))
    \<and> (\<not> throttle_due c t s' \<longrightarrow> tickable t s')"
proof -
  have ti: "tick_inv E c {} {} s" using inv by (simp add: kinv_def)
  note r = tick_inv_running[OF ti t]
  have l: "local_inv (idleAddr E) c False False t (tasks s t)" using ti r by (auto simp: tick_inv_def)
  have tk: "tickable t s" using kinv_tickable[OF inv r(1)] r by (simp add: TICKED_STATES_def)
  show ?thesis
  proof (cases "ttype (tasks s t) = K_TASK_THREAD")
    case False
    let ?s' = "kTickTaskRunCallbacks E t s"
    have e: "kTickRunningTask E s = ?s'"
      using t c r False by (simp add: kTickRunningTask_def deref_def Let_def)
    have k: "kinv c {} {} ?s'" "cpu_step c s ?s'" "tick_same s ?s'"
      using kinv_callbacks[OF inv c r(1) _ tk] r False by auto
    have ty: "ttype (tasks ?s' t) \<noteq> K_TASK_THREAD" using k(3) False by (simp add: tick_same_def)
    show ?thesis
      unfolding e Let_def throttle_due_def
      using kinv_exempt[OF k(1), of t] k tick_same_mach_step[OF k(3)] ty tickable_other
      by (auto simp: tick_same_def)
  next
    case True
    let ?f = "\<lambda>k. k\<lparr>currentBudget := currentBudget k - 1\<rparr>"
    let ?s1 = "upd_task t (upd_tick ?f) s"
    let ?due = "period (tick (tasks s t)) > 0 \<and> (alg E = DS \<longrightarrow> kTickThrottleTimeLeft t s > 1)"
    let ?s2 = "if currentBudget (tick (tasks ?s1 t)) = 0 \<and> \<not> ?due
               then upd_task t (upd_tick (\<lambda>k. k\<lparr>currentBudget := budget k\<rparr>)) ?s1 else ?s1"
    let ?s' = "kTickTaskRunCallbacks E t ?s2"
    have cb: "currentBudget (tick (tasks s t)) > 0" "budget (tick (tasks s t)) > 0"
      using l True r by (simp_all add: local_inv_def BUDGET_STATES_def)
    have tl: "kTickThrottleTimeLeft t ?s1 = kTickThrottleTimeLeft t s"
      by (simp add: kTickThrottleTimeLeft_def)
    have e: "kTickRunningTask E s = ?s'"
      using t c r True cb tl by (simp add: kTickRunningTask_def deref_def Let_def)
    have 1: "kinv c {} {t} ?s1" "cpu_step c s ?s1" using kinv_budget[OF inv r(1), of ?f] by simp_all
    have l1: "live ?s1 c t" using r by (simp add: live_def)
    have 2: "kinv c {} {t} ?s2 \<and> cpu_step c ?s1 ?s2"
      using kinv_budget[OF 1(1) l1, of "\<lambda>k. k\<lparr>currentBudget := budget k\<rparr>"] 1 by simp
    have f2: "thisCpu ?s2 = c" "live ?s2 c t" "tstate (tasks ?s2 t) = K_TASK_STATE_RUNNING"
        "ttype (tasks ?s2 t) = K_TASK_THREAD" "period (tick (tasks ?s2 t)) = period (tick (tasks s t))"
      using c r True by (simp_all add: live_def)
    have tk2: "tickable t ?s2" by (rule tickable_same[OF _ tk]) (simp add: pol_same_def)
    have 3: "kinv c {} {t} ?s'" "cpu_step c ?s2 ?s'" "tick_same ?s2 ?s'"
        "currentBudget (tick (tasks ?s2 t)) > 0 \<Longrightarrow> tickable t ?s'"
      using kinv_callbacks[OF conjunct1[OF 2] f2(1,2) _ tk2] f2(3,4) by auto
    have m2: "mach_step E c s ?s2" by (simp add: mach_step_def)
    have d: "deferredTicks (gTickMachines ?s2 c) = deferredTicks (gTickMachines s c)" by simp
    have due: "?due" if "currentBudget (tick (tasks ?s2 t)) = 0"
    proof (rule ccontr)
      assume "\<not> ?due"
      then show False using that cb by (auto split: if_splits)
    qed
    have tasks: "tasks ?s' = tasks ?s2" "gTickMachines ?s' = gTickMachines ?s2" using 3(3) by (simp_all add: tick_same_def)
    show ?thesis
      unfolding e Let_def throttle_due_def tasks
      using 3 cpu_step_trans[OF 1(2) cpu_step_trans[OF conjunct2[OF 2] 3(2)]]
        mach_step_trans[OF m2 tick_same_mach_step[OF 3(3)]] due f2(4,5) d c
      by (auto simp: kTickThrottleTimeLeft_def word_greater_zero_iff simp del: upd_task_simps)
  qed
qed

end

end
