(* ===== verification/TickTimers.thy ===== *)
theory TickTimers
  imports TickPhases
begin

text \<open>
  The replenishment and sleep phases. The loops pop the expired nodes of a delta chain; the
  number of expired nodes bounds the number of iterations, also in the deferrable server, which
  puts every popped node back with its (positive) period.
\<close>

subsection \<open>Expired timers\<close>

definition expired_count :: "nodes \<Rightarrow> deltaChain \<Rightarrow> nat" where
  "expired_count ns ch = length (filter (\<lambda>tr. snd tr = 0) (chain_timers ns ch))"

lemma expired_count_le: "expired_count ns ch \<le> length (chain_dq ch)"
proof -
  have "length (chain_timers ns ch) = length (chain_dq ch)"
    unfolding chain_timers_def by (metis length_map map_fst_timers)
  then show ?thesis using length_filter_le[of "\<lambda>tr. snd tr = 0" "chain_timers ns ch"]
    by (simp add: expired_count_def)
qed

lemma expired_insert_timer:
  "length (filter (\<lambda>tr. snd tr = 0) (insert_timer t ts))
    = length (filter (\<lambda>tr. snd tr = 0) ts) + (if snd t = 0 then 1 else 0)"
  by (induction ts) auto

lemma pop_none_expired:
  assumes "deltaChainPopExpired ns ch = (None, ch')"
  shows "\<forall>tr \<in> set (chain_timers ns ch). snd tr > 0"
proof -
  have "chain_timers ns ch = [] \<or> 0 < snd (hd (chain_timers ns ch))"
    using deltaChainPopExpired_spec(1)[OF assms] by simp
  moreover have "sorted (map snd (chain_timers ns ch))"
    by (simp add: chain_timers_def timers_sorted)
  ultimately show ?thesis
    by (cases "chain_timers ns ch") fastforce+
qed

lemma expired_count_pop:
  "deltaChainPopExpired ns ch = (Some t, ch') \<Longrightarrow> expired_count ns ch = Suc (expired_count ns ch')"
  by (drule deltaChainPopExpired_spec(2)[OF _ refl]) (simp add: expired_count_def)

lemma timer_unique:
  assumes "chain_wf ns ch" "(u, k) \<in> set (chain_timers ns ch)" "(u, k') \<in> set (chain_timers ns ch)"
  shows "k = k'"
proof -
  have "distinct (map fst (chain_timers ns ch))"
    using assms(1) by (simp add: chain_timers_def chain_wf_def)
  then show ?thesis using assms(2,3) by (metis eq_key_imp_eq_value)
qed

text \<open>All timers of the deferrable server's replenishment chain run, and their epochs are right.\<close>

definition timer_inv :: "'p kEnv \<Rightarrow> u32 \<Rightarrow> 'p kstate \<Rightarrow> bool" where
  "timer_inv E c s \<longleftrightarrow> (alg E = DS \<longrightarrow>
     epochs_ok (replenishNodes s) (replenishmentChain (gTickMachines s c))
   \<and> (\<forall>tr \<in> set (chain_timers (replenishNodes s) (replenishmentChain (gTickMachines s c))). snd tr > 0))"

lemma timer_inv_step: "mach_step E c s s' \<Longrightarrow> timer_inv E c s \<Longrightarrow> timer_inv E c s'"
  by (simp add: mach_step_def timer_inv_def Let_def)

definition mach_keep :: "u32 \<Rightarrow> 'p kstate \<Rightarrow> 'p kstate \<Rightarrow> bool" where
  "mach_keep c s s' \<longleftrightarrow>
     runningTask (gTickMachines s' c) = runningTask (gTickMachines s c)
   \<and> pendingLsrChain (gTickMachines s' c) = pendingLsrChain (gTickMachines s c)
   \<and> (pendingTaskLsr (gTickMachines s c) = None \<longrightarrow> pendingTaskLsr (gTickMachines s' c) = None)"

lemma mach_keep_refl [simp]: "mach_keep c s s"
  by (simp add: mach_keep_def)

lemma mach_keep_trans [trans]: "mach_keep c s s' \<Longrightarrow> mach_keep c s' s'' \<Longrightarrow> mach_keep c s s''"
  by (simp add: mach_keep_def)

lemma mach_step_keep: "mach_step E c s s' \<Longrightarrow> mach_keep c s s'"
  by (simp add: mach_step_def mach_keep_def Let_def)

abbreviation rep_timers :: "u32 \<Rightarrow> 'p kstate \<Rightarrow> (addr \<times> nat) list" where
  "rep_timers c s \<equiv> chain_timers (replenishNodes s) (replenishmentChain (gTickMachines s c))"

abbreviation rep_expired :: "u32 \<Rightarrow> 'p kstate \<Rightarrow> nat" where
  "rep_expired c s \<equiv> expired_count (replenishNodes s) (replenishmentChain (gTickMachines s c))"

subsection \<open>Replenishment\<close>

text \<open>A node goes back into the chain it came from.\<close>

lemma tick_inv_reinsert:
  assumes inv: "tick_inv E c D B s" and c: "thisCpu s = c" and ds: "alg E = DS"
    and pop: "deltaChainPopExpired (replenishNodes s) (replenishmentChain (gTickMachines s c)) = (Some t, ch)"
    and s': "s' = replenish_insert c t d (upd_mach (\<lambda>m. m\<lparr>replenishmentChain := ch\<rparr>) s)"
  shows "tick_inv E c D B s'" "cpu_frame c s s'" "tasks s' = tasks s" "thisCpu s' = c"
    "pol_same s s'" "mach_keep c s s'"
    "deferredTicks (gTickMachines s' c) = deferredTicks (gTickMachines s c)"
    "rep_timers c s' = insert_timer (t, unat d) (chain_timers (replenishNodes s) ch)"
    "epochs_ok (replenishNodes s) (replenishmentChain (gTickMachines s c)) \<Longrightarrow>
     epochs_ok (replenishNodes s') (replenishmentChain (gTickMachines s' c))"
    "sleepNodes s' = sleepNodes s" "sleepChain (gTickMachines s' c) = sleepChain (gTickMachines s c)"
    "quiet s s'"
proof -
  have pp: "chain_dq (replenishmentChain (gTickMachines s c)) = t # chain_dq ch"
      "currentEpoch ch = currentEpoch (replenishmentChain (gTickMachines s c))"
      "chain_timers (replenishNodes s) (replenishmentChain (gTickMachines s c)) =
         (t, 0) # chain_timers (replenishNodes s) ch"
    using deltaChainPopExpired_spec(2)[OF pop refl] by simp_all
  have mi: "machine_inv s c" using inv by (simp add: tick_inv_def)
  have wf0: "chain_wf (replenishNodes s) (replenishmentChain (gTickMachines s c))"
    using mi by (simp add: machine_inv_def Let_def)
  have wf: "chain_wf (replenishNodes s) ch" by (rule deltaChainPopExpired_wf[OF pop wf0])
  have tn: "t \<notin> set (chain_dq ch)" using wf0 pp by (simp add: chain_wf_def)
  have tc: "cpuId (tasks s t) = c" using mi pp by (simp add: machine_inv_def Let_def live_def)
  obtain ns' ch' where ins: "deltaChainInsert (replenishNodes s) ch t d = (ns', ch')" by fastforce
  have S: "s' = upd_machine c (\<lambda>m. m\<lparr>replenishmentChain := ch'\<rparr>)
      ((upd_mach (\<lambda>m. m\<lparr>replenishmentChain := ch\<rparr>) s)\<lparr>replenishNodes := ns'\<rparr>)"
    using ins c by (simp add: s' replenish_insert_def)
  have M: "gTickMachines s' c = (gTickMachines s c)\<lparr>replenishmentChain := ch'\<rparr>" "replenishNodes s' = ns'"
      "tasks s' = tasks s" "archLsrs s' = archLsrs s" "sleepNodes s' = sleepNodes s" "gOpsInitialized s' = gOpsInitialized s"
    using c by (simp_all add: S)
  note i = deltaChainInsert_spec[OF ins wf tn] deltaChainInsert_set(1)[OF ins]
  have dq: "set (chain_dq ch') = set (chain_dq (replenishmentChain (gTickMachines s c)))"
    using i(3) pp by simp
  have lv: "live s' c u = live s c u" for u by (simp add: live_def M)
  have "machine_inv s' c"
    using mi i(2) dq unfolding machine_inv_def Let_def lv M by simp
  moreover have "place_inv (alg E) (gTickMachines s' c) (archLsrs s' c) d' u r
      = place_inv (alg E) (gTickMachines s c) (archLsrs s c) d' u r" for d' u r
    unfolding M place_inv_def by (simp add: dq)
  ultimately show "tick_inv E c D B s'"
    using inv unfolding tick_inv_def lv M(3,6) by simp
  have other: "ns' u = replenishNodes s u" if "cpuId (tasks s u) \<noteq> c" for u
  proof (rule deltaChainInsert_frame(1)[OF ins])
    show "u \<noteq> t" using tc that by auto
    show "u \<notin> set (chain_dq ch)" using mi pp that by (auto simp: machine_inv_def Let_def live_def)
  qed
  show "cpu_frame c s s'" using other c by (auto simp: cpu_frame_def S)
  show "quiet s s'" by (rule quiet_same) (simp_all add: S)
  show "tasks s' = tasks s" "thisCpu s' = c" "pol_same s s'" "sleepNodes s' = sleepNodes s"
    using c by (simp_all add: S pol_same_def)
  show "mach_keep c s s'" "deferredTicks (gTickMachines s' c) = deferredTicks (gTickMachines s c)"
      "sleepChain (gTickMachines s' c) = sleepChain (gTickMachines s c)"
    by (simp_all add: M mach_keep_def)
  show "rep_timers c s' = insert_timer (t, unat d) (chain_timers (replenishNodes s) ch)"
    using i(1) by (simp add: M)
  show "epochs_ok (replenishNodes s') (replenishmentChain (gTickMachines s' c))"
    if "epochs_ok (replenishNodes s) (replenishmentChain (gTickMachines s c))"
  proof -
    have "epochs_ok (replenishNodes s) ch" using that pp by (simp add: epochs_ok_def)
    from deltaChainInsert_epochs[OF ins wf tn this] show ?thesis by (simp add: M)
  qed
qed

lemma tick_inv_place:
  "tick_inv E c {} B s \<Longrightarrow> live s c t \<Longrightarrow>
   place_inv (alg E) (gTickMachines s c) (archLsrs s c) False t (tasks s t)"
  by (simp add: tick_inv_def)

lemma place_throttled_pending:
  "place_inv a M L False t r \<Longrightarrow> tstate r = K_TASK_STATE_THREAD_THROTTLED \<Longrightarrow> pendingTaskLsr M \<noteq> Some t"
  by (simp add: place_inv_def)

context sched_policy
begin

text \<open>
  What one iteration of the loop does: one expired timer less, every running timer kept, and the
  tasks of the running timers untouched.
\<close>

definition replenish_ok :: "u32 \<Rightarrow> addr set \<Rightarrow> 'p kstate \<Rightarrow> 'p kstate \<Rightarrow> bool" where
  "replenish_ok c B s s' \<longleftrightarrow>
     kinv c {} B s' \<and> cpu_step c s s' \<and> mach_keep c s s'
   \<and> deferredTicks (gTickMachines s' c) = deferredTicks (gTickMachines s c)
   \<and> (\<forall>u k. (u, k) \<in> set (rep_timers c s) \<longrightarrow> 0 < k \<longrightarrow> (u, k) \<in> set (rep_timers c s'))
   \<and> (\<forall>u k. alg E = DS \<longrightarrow> (u, k) \<in> set (rep_timers c s) \<longrightarrow> 0 < k \<longrightarrow> tasks s' u = tasks s u)
   \<and> (epochs_ok (replenishNodes s) (replenishmentChain (gTickMachines s c)) \<longrightarrow>
      epochs_ok (replenishNodes s') (replenishmentChain (gTickMachines s' c)))"

lemma replenish_ok_trans:
  assumes 1: "replenish_ok c B s s'" and 2: "replenish_ok c B s' s''"
  shows "replenish_ok c B s s''"
proof -
  have t: "\<And>u k. (u, k) \<in> set (rep_timers c s) \<Longrightarrow> 0 < k \<Longrightarrow> (u, k) \<in> set (rep_timers c s')"
    and e: "\<And>u k. alg E = DS \<Longrightarrow> (u, k) \<in> set (rep_timers c s) \<Longrightarrow> 0 < k \<Longrightarrow> tasks s' u = tasks s u"
    using 1 by (simp_all add: replenish_ok_def)
  have t': "\<And>u k. (u, k) \<in> set (rep_timers c s') \<Longrightarrow> 0 < k \<Longrightarrow> (u, k) \<in> set (rep_timers c s'')"
    and e': "\<And>u k. alg E = DS \<Longrightarrow> (u, k) \<in> set (rep_timers c s') \<Longrightarrow> 0 < k \<Longrightarrow> tasks s'' u = tasks s' u"
    using 2 by (simp_all add: replenish_ok_def)
  show ?thesis
    unfolding replenish_ok_def
  proof (intro conjI allI impI)
    show "kinv c {} B s''" using 2 by (simp add: replenish_ok_def)
    show "cpu_step c s s''" using 1 2 cpu_step_trans by (auto simp: replenish_ok_def)
    show "mach_keep c s s''" using 1 2 mach_keep_trans by (auto simp: replenish_ok_def)
    show "deferredTicks (gTickMachines s'' c) = deferredTicks (gTickMachines s c)"
      using 1 2 by (simp add: replenish_ok_def)
    show "epochs_ok (replenishNodes s'') (replenishmentChain (gTickMachines s'' c))"
      if "epochs_ok (replenishNodes s) (replenishmentChain (gTickMachines s c))"
      using 1 2 that by (simp add: replenish_ok_def)
    fix u k assume uk: "(u, k) \<in> set (rep_timers c s)" "0 < k"
    show "(u, k) \<in> set (rep_timers c s'')" by (rule t'[OF t[OF uk] uk(2)])
    show "tasks s'' u = tasks s u" if "alg E = DS"
      using e'[OF that t[OF uk] uk(2)] e[OF that uk] by simp
  qed
qed

lemma replenish_bcs:
  assumes inv: "kinv c {} {} s" and c: "thisCpu s = c" and bcs: "alg E = BCS"
    and pop: "deltaChainPopExpired (replenishNodes s) (replenishmentChain (gTickMachines s c)) = (Some t, ch)"
  shows "let s' = replenish_task E t (upd_mach (\<lambda>m. m\<lparr>replenishmentChain := ch\<rparr>) s) in
    replenish_ok c {} s s' \<and> Suc (rep_expired c s') = rep_expired c s"
proof -
  let ?s1 = "upd_mach (\<lambda>m. m\<lparr>replenishmentChain := ch\<rparr>) s"
  let ?f = "\<lambda>k. k\<lparr>currentBudget := budget k\<rparr>"
  let ?s2 = "upd_task t (upd_tick ?f) ?s1"
  let ?s' = "kTickTaskLoadNextState E t K_TASK_STATE_READY ?s2"
  have ti: "tick_inv E c {} {} s" using inv by (simp add: kinv_def)
  have pp: "chain_dq (replenishmentChain (gTickMachines s c)) = t # chain_dq ch"
      "chain_timers (replenishNodes s) (replenishmentChain (gTickMachines s c)) =
         (t, 0) # chain_timers (replenishNodes s) ch"
      "currentEpoch ch = currentEpoch (replenishmentChain (gTickMachines s c))"
    using deltaChainPopExpired_spec(2)[OF pop refl] by simp_all
  have tin: "t \<in> set (chain_dq (replenishmentChain (gTickMachines s c)))" using pp by simp
  note r = tick_inv_replenish_chain[OF ti tin]
  have l: "local_inv (idleAddr E) c False False t (tasks s t)"
    and p: "place_inv (alg E) (gTickMachines s c) (archLsrs s c) False t (tasks s t)"
    using ti r by (auto simp: tick_inv_def)
  have st: "tstate (tasks s t) = K_TASK_STATE_THREAD_THROTTLED" using r bcs by simp
  have 1: "kinv c {t} {} ?s1" "cpu_step c s ?s1"
    using kinv_detach[OF inv c detach_throttled_bcs[OF ti c bcs pop]] st by simp_all
  have l1: "live ?s1 c t" using r by (simp add: live_def)
  have 2: "kinv c {t} {t} ?s2" "cpu_step c ?s1 ?s2"
    using kinv_budget[OF 1(1) l1, of ?f] by simp_all
  have f2: "thisCpu ?s2 = c" "live ?s2 c t" using c r by (simp_all add: live_def)
  have ti2: "tick_inv E c {t} {t} ?s2" using 2(1) by (simp add: kinv_def)
  have np: "pendingTaskLsr (gTickMachines s c) \<noteq> Some t" using p st by (simp add: place_inv_def)
  have pre: "attach_pre E t K_TASK_STATE_READY ?s2"
    by (rule attach_preI[OF ti2 f2]) (use r l st np c in \<open>simp_all add: state_ok_def local_inv_def state_sets\<close>)
  have 3: "kinv c ({t} - {t}) ({t} - {t}) ?s' \<and> cpu_step c ?s2 ?s' \<and> tick_same (load_core E t K_TASK_STATE_READY ?s2) ?s'"
    by (rule kinv_load[OF 2(1) f2 _ pre]) (simp_all add: TICKED_STATES_def DEFTICK_STATES_def)
  have e: "replenish_task E t ?s1 = ?s'"
    using bcs r st by (simp add: replenish_task_def Let_def)
  have g: "gTickMachines ?s' c = (gTickMachines s c)\<lparr>replenishmentChain := ch\<rparr>" "replenishNodes ?s' = replenishNodes s"
    using 3 c by (simp_all add: tick_same_def load_core_def)
  have step: "cpu_step c s ?s'"
    using cpu_step_trans[OF 1(2) cpu_step_trans[OF 2(2)]] 3 by blast
  have "replenish_ok c {} s ?s'"
    unfolding replenish_ok_def
    using 3 step bcs pp by (auto simp: g mach_keep_def epochs_ok_def)
  then show ?thesis
    unfolding e Let_def using expired_count_pop[OF pop] by (simp add: g)
qed

lemma replenish_ds:
  assumes inv: "kinv c {} B s" and c: "thisCpu s = c" and ds: "alg E = DS"
    and pop: "deltaChainPopExpired (replenishNodes s) (replenishmentChain (gTickMachines s c)) = (Some t, ch)"
    and B: "\<forall>u \<in> B. \<exists>k. (u, k) \<in> set (rep_timers c s) \<and> 0 < k"
  shows "let s' = replenish_task E t (upd_mach (\<lambda>m. m\<lparr>replenishmentChain := ch\<rparr>) s) in
    replenish_ok c B s s' \<and> Suc (rep_expired c s') = rep_expired c s"
proof -
  let ?f = "\<lambda>k. k\<lparr>currentBudget := budget k\<rparr>"
  let ?s1 = "upd_task t (upd_tick ?f) s"
  let ?pop = "upd_mach (\<lambda>m. m\<lparr>replenishmentChain := ch\<rparr>)"
  let ?d = "period (tick (tasks s t))"
  let ?s2 = "replenish_insert c t ?d (?pop ?s1)"
  have ti: "tick_inv E c {} B s" using inv by (simp add: kinv_def)
  have pp: "chain_dq (replenishmentChain (gTickMachines s c)) = t # chain_dq ch"
      "rep_timers c s = (t, 0) # chain_timers (replenishNodes s) ch"
    using deltaChainPopExpired_spec(2)[OF pop refl] by simp_all
  have tin: "t \<in> set (chain_dq (replenishmentChain (gTickMachines s c)))" using pp by simp
  note r = tick_inv_replenish_chain[OF ti tin]
  have mi: "machine_inv s c" using ti by (simp add: tick_inv_def)
  have uniq: "u \<noteq> t" if "(u, k) \<in> set (rep_timers c s)" "0 < k" for u k
  proof
    assume "u = t"
    have "chain_wf (replenishNodes s) (replenishmentChain (gTickMachines s c))"
      using mi by (simp add: machine_inv_def Let_def)
    from timer_unique[OF this that(1), of 0] show False using \<open>u = t\<close> pp(2) that by simp
  qed
  have tB: "t \<notin> B" using B uniq by blast
  have l: "local_inv (idleAddr E) c False False t (tasks s t)"
    and p: "place_inv (alg E) (gTickMachines s c) (archLsrs s c) False t (tasks s t)"
    using ti r tB by (auto simp: tick_inv_def)
  have bud: "budget (tick (tasks s t)) > 0" using l r by (simp add: local_inv_def)
  have 1: "kinv c {} (insert t B) ?s1" "cpu_step c s ?s1"
    using kinv_budget[OF inv r(1), of ?f] by simp_all
  have "kinv c {} (insert t B - {t}) ?s1"
  proof (rule kinv_unexempt[OF 1(1)])
    show "currentBudget (tick (tasks ?s1 t)) > 0" using bud by simp
    show "tickable t ?s1" if "tstate (tasks ?s1 t) \<in> TICKED_STATES"
    proof (rule tickable_same)
      show "pol_same s ?s1" by (simp add: pol_same_def)
      show "tickable t s" using kinv_tickable[OF inv r(1) _ tB] that by simp
    qed
  qed
  then have k1: "kinv c {} B ?s1" using tB by (simp add: insert_Diff_if)
  have ti1: "tick_inv E c {} B ?s1" using k1 by (simp add: kinv_def)
  have c1: "thisCpu ?s1 = c" using c by simp
  have pop1: "deltaChainPopExpired (replenishNodes ?s1) (replenishmentChain (gTickMachines ?s1 c)) = (Some t, ch)"
    using pop by simp
  note R = tick_inv_reinsert[OF ti1 c1 ds pop1 refl, of ?d]
  have 2: "kinv c {} B ?s2"
    by (rule kinv_change[OF k1 R(1) R(5)]) (use R(3) in \<open>auto simp: ready_set_def live_def\<close>)
  have st2: "cpu_step c s ?s2"
    by (rule cpu_step_trans[OF 1(2) pol_same_step[OF R(5) R(12) R(2)]])
  have t2: "tasks ?s2 u = tasks s u" if "u \<noteq> t" for u using R(3) that by simp
  have d0: "unat ?d > 0" using r(3) by (simp add: word_pos_unat)
  have ex: "Suc (rep_expired c ?s2) = rep_expired c s"
    using R(8) pp(2) d0 by (simp add: expired_count_def expired_insert_timer)
  have ok2: "replenish_ok c B s ?s2"
    unfolding replenish_ok_def
  proof (intro conjI allI impI)
    show "(u, k) \<in> set (rep_timers c ?s2)" if "(u, k) \<in> set (rep_timers c s)" "0 < k" for u k
      using that R(8) pp(2) by (auto simp: insert_timer_set)
    show "epochs_ok (replenishNodes ?s2) (replenishmentChain (gTickMachines ?s2 c))"
      if "epochs_ok (replenishNodes s) (replenishmentChain (gTickMachines s c))"
      using R(9) that by simp
    show "mach_keep c s ?s2" using R(6) by (simp add: mach_keep_def)
    show "deferredTicks (gTickMachines ?s2 c) = deferredTicks (gTickMachines s c)" using R(7) by simp
  qed (use 2 st2 t2 uniq in auto)
  have comm: "upd_task t (upd_tick ?f) (?pop s) = ?pop ?s1"
    by (simp add: upd_task_def upd_mach_def upd_machine_def)
  have e: "replenish_task E t (?pop s) =
      (if tstate (tasks ?s2 t) = K_TASK_STATE_THREAD_THROTTLED
       then kTickTaskLoadNextState E t K_TASK_STATE_READY ?s2 else ?s2)"
    using ds r(2) c by (simp add: replenish_task_def Let_def comm del: upd_mach_fields(1)) simp
  show ?thesis
  proof (cases "tstate (tasks ?s2 t) = K_TASK_STATE_THREAD_THROTTLED")
    case False
    then show ?thesis unfolding e Let_def using ok2 ex by simp
  next
    case True
    let ?s' = "kTickTaskLoadNextState E t K_TASK_STATE_READY ?s2"
    have l2: "live ?s2 c t" using r(1) by (simp add: live_def R(3))
    have ti2: "tick_inv E c {} B ?s2" using 2 by (simp add: kinv_def)
    have 3: "kinv c {t} B ?s2"
      by (rule kinv_change[OF 2 detach_trivial[OF ti2 l2]]) (use True ds in \<open>auto simp: ready_set_def\<close>)
    have ti3: "tick_inv E c {t} B ?s2" using 3 by (simp add: kinv_def)
    have tr: "tasks ?s2 t = upd_tick ?f (tasks s t)" using R(3) by simp
    have stt: "tstate (tasks s t) = K_TASK_STATE_THREAD_THROTTLED" using True tr by simp
    have np: "pendingTaskLsr (gTickMachines ?s2 c) \<noteq> Some t"
      by (rule place_throttled_pending[OF tick_inv_place[OF ti2 l2] True])
    have pre: "attach_pre E t K_TASK_STATE_READY ?s2"
      by (rule attach_preI[OF ti3 R(4) l2])
        (use r l True np bud in \<open>simp_all add: tr state_ok_def local_inv_def state_sets\<close>)
    have 4: "kinv c ({t} - {t}) (B - {t}) ?s' \<and> cpu_step c ?s2 ?s'
        \<and> tick_same (load_core E t K_TASK_STATE_READY ?s2) ?s'"
      by (rule kinv_load[OF 3 R(4) l2 _ pre]) (simp_all add: TICKED_STATES_def DEFTICK_STATES_def)
    have g: "gTickMachines ?s' = gTickMachines ?s2" "replenishNodes ?s' = replenishNodes ?s2"
        "\<And>u. u \<noteq> t \<Longrightarrow> tasks ?s' u = tasks ?s2 u"
      using 4 by (simp_all add: tick_same_def load_core_def)
    have "replenish_ok c B s ?s'"
      unfolding replenish_ok_def
    proof (intro conjI allI impI)
      fix u k assume uk: "(u, k) \<in> set (rep_timers c s)" "0 < k"
      show "(u, k) \<in> set (rep_timers c ?s')"
        using uk ok2 by (simp add: g replenish_ok_def)
      show "tasks ?s' u = tasks s u" using g(3) t2 uniq[OF uk] by simp
    next
      show "cpu_step c s ?s'" using cpu_step_trans[OF st2] 4 by blast
    qed (use 4 tB ok2 in \<open>simp_all add: g mach_keep_def replenish_ok_def\<close>)
    then show ?thesis unfolding e Let_def using True ex by (simp add: g)
  qed
qed

text \<open>The loop: every expired timer is served, and nothing else.\<close>

lemma replenish_step:
  assumes inv: "kinv c {} B s" and c: "thisCpu s = c"
    and bcs: "alg E = BCS \<Longrightarrow> B = {}"
    and ds: "alg E = DS \<Longrightarrow> \<forall>u \<in> B. \<exists>k. (u, k) \<in> set (rep_timers c s) \<and> 0 < k"
    and pop: "deltaChainPopExpired (replenishNodes s) (replenishmentChain (gTickMachines s c)) = (Some t, ch)"
  shows "let s' = replenish_task E t (upd_mach (\<lambda>m. m\<lparr>replenishmentChain := ch\<rparr>) s) in
    replenish_ok c B s s' \<and> Suc (rep_expired c s') = rep_expired c s"
proof (cases "alg E")
  case DS
  then show ?thesis using replenish_ds[OF inv c DS pop ds[OF DS]] by simp
next
  case BCS
  then have "B = {}" using bcs by simp
  then show ?thesis using replenish_bcs[OF _ c BCS pop] inv by simp
qed

lemma replenish_ok_refl: "kinv c {} B s \<Longrightarrow> replenish_ok c B s s"
  by (simp add: replenish_ok_def)

lemma replenish_loop_ok:
  assumes "kinv c {} B s" and "thisCpu s = c" and "rep_expired c s \<le> n"
    and "alg E = BCS \<Longrightarrow> B = {}"
    and "alg E = DS \<Longrightarrow> \<forall>u \<in> B. \<exists>k. (u, k) \<in> set (rep_timers c s) \<and> 0 < k"
  shows "replenish_ok c B s (replenish_loop E n s) \<and> rep_expired c (replenish_loop E n s) = 0"
  using assms
proof (induction n arbitrary: s)
  case 0
  have "fst (deltaChainPopExpired (replenishNodes s) (replenishmentChain (gTickMachines s c))) = None"
    using 0(3) expired_count_pop[of "replenishNodes s" "replenishmentChain (gTickMachines s c)"]
    by (cases "deltaChainPopExpired (replenishNodes s) (replenishmentChain (gTickMachines s c))"; cases "fst (deltaChainPopExpired (replenishNodes s) (replenishmentChain (gTickMachines s c)))") auto
  then show ?case using 0 replenish_ok_refl by (auto split: prod.splits option.splits)
next
  case (Suc n)
  show ?case
  proof (cases "deltaChainPopExpired (replenishNodes s) (replenishmentChain (gTickMachines s c))")
    case (Pair r ch)
    show ?thesis
    proof (cases r)
      case None
      have pop: "deltaChainPopExpired (replenishNodes s) (replenishmentChain (gTickMachines s c)) = (None, ch)"
        using Pair None by simp
      have "\<forall>tr \<in> set (rep_timers c s). snd tr > 0" by (rule pop_none_expired[OF pop])
      then have "rep_expired c s = 0" by (auto simp: expired_count_def filter_empty_conv)
      moreover have "replenish_loop E (Suc n) s = s"
        using pop Suc.prems(2) by (subst replenish_loop.simps) simp
      ultimately show ?thesis using Suc.prems(1) replenish_ok_refl by simp
    next
      case (Some t)
      let ?s1 = "replenish_task E t (upd_mach (\<lambda>m. m\<lparr>replenishmentChain := ch\<rparr>) s)"
      have pop: "deltaChainPopExpired (replenishNodes s) (replenishmentChain (gTickMachines s c)) = (Some t, ch)"
        using Pair Some by simp
      have 1: "replenish_ok c B s ?s1" "Suc (rep_expired c ?s1) = rep_expired c s"
        using replenish_step[OF Suc.prems(1,2,4,5) pop] unfolding Let_def by blast+
      have k1: "kinv c {} B ?s1" "cpu_step c s ?s1" using 1(1) by (simp_all add: replenish_ok_def)
      have c1: "thisCpu ?s1 = c" using cpu_step_cpu[OF k1(2)] Suc.prems(2) by simp
      have B1: "\<forall>u \<in> B. \<exists>k. (u, k) \<in> set (rep_timers c ?s1) \<and> 0 < k" if "alg E = DS"
        using Suc.prems(5)[OF that] 1(1) unfolding replenish_ok_def by blast
      have e: "replenish_loop E (Suc n) s = replenish_loop E n ?s1"
        using pop Suc.prems(2) by (subst replenish_loop.simps) (simp add: Let_def del: replenish_loop.simps)
      have "rep_expired c ?s1 \<le> n" using 1(2) Suc.prems(3) by simp
      then show ?thesis
        unfolding e using Suc.IH[OF k1(1) c1 _ Suc.prems(4) B1] replenish_ok_trans[OF 1(1)] by blast
    qed
  qed
qed

text \<open>One tick of the replenishment chain.\<close>

lemma rep_tick:
  assumes inv: "kinv c D B s" and c: "thisCpu s = c"
    and tick: "deltaChainTick (replenishNodes s) (replenishmentChain (gTickMachines s c)) = (ns, ch)"
    and s': "s' = upd_mach (\<lambda>m. m\<lparr>replenishmentChain := ch\<rparr>) (s\<lparr>replenishNodes := ns\<rparr>)"
  shows "kinv c D B s'" "cpu_step c s s'" "tasks s' = tasks s" "mach_keep c s s'"
    "deferredTicks (gTickMachines s' c) = deferredTicks (gTickMachines s c)"
    "rep_timers c s' = map (apsnd (\<lambda>r. r - 1)) (rep_timers c s)"
    "epochs_ok (replenishNodes s) (replenishmentChain (gTickMachines s c)) \<Longrightarrow>
     epochs_ok (replenishNodes s') (replenishmentChain (gTickMachines s' c))"
    "replenishmentChain (gTickMachines s' c) = ch" "replenishNodes s' = ns"
proof -
  have ti: "tick_inv E c D B s" using inv by (simp add: kinv_def)
  have mi: "machine_inv s c" using ti by (simp add: tick_inv_def)
  have wf: "chain_wf (replenishNodes s) (replenishmentChain (gTickMachines s c))"
    using mi by (simp add: machine_inv_def Let_def)
  note t = deltaChainTick_spec[OF tick wf]
  have M: "gTickMachines s' c = (gTickMachines s c)\<lparr>replenishmentChain := ch\<rparr>" "replenishNodes s' = ns"
      "tasks s' = tasks s" "archLsrs s' = archLsrs s" "sleepNodes s' = sleepNodes s" "gOpsInitialized s' = gOpsInitialized s"
    using c by (simp_all add: s' upd_mach_def)
  have lv: "live s' c u = live s c u" for u by (simp add: live_def M)
  have "machine_inv s' c" using mi t(2,3) unfolding machine_inv_def Let_def lv M by simp
  moreover have "place_inv (alg E) (gTickMachines s' c) (archLsrs s' c) d u r
      = place_inv (alg E) (gTickMachines s c) (archLsrs s c) d u r" for d u r
    unfolding M place_inv_def by (simp add: t(3))
  ultimately have ti': "tick_inv E c D B s'"
    using ti unfolding tick_inv_def lv M(3,6) by simp
  have ps: "pol_same s s'" by (simp add: s' pol_same_def upd_mach_def)
  show "kinv c D B s'"
    by (rule kinv_change[OF inv ti' ps]) (auto simp: ready_set_def lv M)
  have other: "ns u = replenishNodes s u" if "cpuId (tasks s u) \<noteq> c" for u
  proof -
    have "u \<notin> set (chain_dq (replenishmentChain (gTickMachines s c)))"
      using mi that by (auto simp: machine_inv_def Let_def live_def)
    then show ?thesis using tick by (auto simp: deltaChainTick_def tick_walk_other)
  qed
  then have "cpu_frame c s s'" using c by (simp add: cpu_frame_def s' upd_mach_def)
  moreover have "quiet s s'" by (rule quiet_same) (use c in \<open>simp_all add: s' upd_mach_def\<close>)
  ultimately show "cpu_step c s s'" by (intro pol_same_step[OF ps])
  show "tasks s' = tasks s" "replenishmentChain (gTickMachines s' c) = ch" "replenishNodes s' = ns"
      "mach_keep c s s'" "deferredTicks (gTickMachines s' c) = deferredTicks (gTickMachines s c)"
    by (simp_all add: M mach_keep_def)
  show "rep_timers c s' = map (apsnd (\<lambda>r. r - 1)) (rep_timers c s)" using t(1) by (simp add: M)
  show "epochs_ok (replenishNodes s') (replenishmentChain (gTickMachines s' c))"
    if "epochs_ok (replenishNodes s) (replenishmentChain (gTickMachines s c))"
    using deltaChainTick_epochs[OF tick wf that] by (simp add: M)
qed

lemma kTickReplenishmentPeriod_ok:
  assumes inv: "kinv c {} B s" and c: "thisCpu s = c" and tinv: "timer_inv E c s"
    and bcs: "alg E = BCS \<Longrightarrow> B = {}"
    and ds: "alg E = DS \<Longrightarrow> \<forall>u \<in> B. \<exists>k. (u, k) \<in> set (rep_timers c s) \<and> 1 < k"
  shows "let s' = kTickReplenishmentPeriod E s in
    kinv c {} B s' \<and> cpu_step c s s' \<and> mach_keep c s s' \<and> timer_inv E c s'
    \<and> deferredTicks (gTickMachines s' c) = deferredTicks (gTickMachines s c)
    \<and> (\<forall>u \<in> B. tasks s' u = tasks s u)"
proof -
  obtain ns ch where t: "deltaChainTick (replenishNodes s) (replenishmentChain (gTickMachines s c)) = (ns, ch)"
    by fastforce
  let ?s1 = "upd_mach (\<lambda>m. m\<lparr>replenishmentChain := ch\<rparr>) (s\<lparr>replenishNodes := ns\<rparr>)"
  let ?s' = "replenish_loop E (length (chain_dq ch)) ?s1"
  note r = rep_tick[OF inv c t refl]
  have e: "kTickReplenishmentPeriod E s = ?s'"
    using t c by (simp add: kTickReplenishmentPeriod_def Let_def del: replenish_loop.simps)
  have c1: "thisCpu ?s1 = c" using c by (simp add: upd_mach_def)
  have le: "rep_expired c ?s1 \<le> length (chain_dq ch)"
    by (simp only: r(8,9) expired_count_le)
  have B1: "\<forall>u \<in> B. \<exists>k. (u, k) \<in> set (rep_timers c ?s1) \<and> 0 < k" if a: "alg E = DS"
  proof
    fix u assume "u \<in> B"
    then obtain k where "(u, k) \<in> set (rep_timers c s)" "1 < k" using ds[OF a] by blast
    then have "(u, k - 1) \<in> set (rep_timers c ?s1) \<and> 0 < k - 1" unfolding r(6) by force
    then show "\<exists>k. (u, k) \<in> set (rep_timers c ?s1) \<and> 0 < k" by blast
  qed
  have 2: "replenish_ok c B ?s1 ?s'" "rep_expired c ?s' = 0"
    using replenish_loop_ok[OF r(1) c1 le bcs B1] by simp_all
  have ti: "timer_inv E c ?s'"
    unfolding timer_inv_def
  proof (intro impI conjI)
    assume ds: "alg E = DS"
    show "epochs_ok (replenishNodes ?s') (replenishmentChain (gTickMachines ?s' c))"
      using 2(1) r(7) tinv ds by (simp add: replenish_ok_def timer_inv_def)
    show "\<forall>tr \<in> set (rep_timers c ?s'). 0 < snd tr"
      using 2(2) by (auto simp: expired_count_def filter_empty_conv)
  qed
  have keep: "tasks ?s' u = tasks s u" if u: "u \<in> B" for u
  proof (cases "alg E")
    case DS
    then obtain k where "(u, k) \<in> set (rep_timers c ?s1)" "0 < k" using B1 u by blast
    then have "tasks ?s' u = tasks ?s1 u" using 2(1) DS unfolding replenish_ok_def by blast
    then show ?thesis using r(3) by simp
  next
    case BCS then show ?thesis using bcs u by simp
  qed
  show ?thesis
    unfolding e Let_def
    using 2(1) r(5) ti keep cpu_step_trans[OF r(2)] mach_keep_trans[OF r(4)]
    by (simp add: replenish_ok_def)
qed

subsection \<open>Sleepers\<close>

text \<open>What waking the sleepers leaves alone: all tasks but those that slept.\<close>

definition wake_ok :: "u32 \<Rightarrow> addr set \<Rightarrow> 'p kstate \<Rightarrow> 'p kstate \<Rightarrow> bool" where
  "wake_ok c B s s' \<longleftrightarrow> kinv c {} B s' \<and> cpu_step c s s' \<and> mach_step E c s s'
     \<and> deferredTicks (gTickMachines s' c) = deferredTicks (gTickMachines s c)
     \<and> (\<forall>u. tstate (tasks s u) \<noteq> K_TASK_STATE_THREAD_SLEEP \<longrightarrow> tasks s' u = tasks s u)"

lemma wake_ok_trans: "wake_ok c B s s' \<Longrightarrow> wake_ok c B s' s'' \<Longrightarrow> wake_ok c B s s''"
  unfolding wake_ok_def
  by (intro conjI allI impI) (auto intro: cpu_step_trans mach_step_trans)

text \<open>The woken thread, its budget looked at, goes into the container of its next state.\<close>

lemma woken_finish:
  assumes inv: "kinv c {t} B s" and c: "thisCpu s = c" and t: "live s c t" and tB: "t \<notin> B"
    and ty: "ttype (tasks s t) = K_TASK_THREAD" "tstate (tasks s t) = K_TASK_STATE_THREAD_SLEEP"
    and np: "pendingTaskLsr (gTickMachines s c) \<noteq> Some t"
    and f: "\<And>k. budget (f k) = budget k" "\<And>k. period (f k) = period k" "\<And>k. sleepTicks (f k) = sleepTicks k"
    and ns: "ns = K_TASK_STATE_READY \<and> currentBudget (f (tick (tasks s t))) > 0 \<and> \<not> lag (f (tick (tasks s t)))
      \<or> ns = K_TASK_STATE_THREAD_THROTTLED \<and> period (tick (tasks s t)) > 0
        \<and> (lag (f (tick (tasks s t))) \<longrightarrow> alg E = BCS \<and> sleepTicks (tick (tasks s t)) > 0
             \<and> sleepTicks (tick (tasks s t)) \<le> period (tick (tasks s t)))"
  shows "let s' = kTickTaskLoadNextState E t ns (upd_task t (upd_tick f) s) in
    wake_ok c B s s' \<and> sleepChain (gTickMachines s' c) = sleepChain (gTickMachines s c)
    \<and> sleepNodes s' = sleepNodes s"
proof -
  let ?s1 = "upd_task t (upd_tick f) s"
  let ?s' = "kTickTaskLoadNextState E t ns ?s1"
  have 1: "kinv c {t} (insert t B) ?s1" "cpu_step c s ?s1"
    using kinv_budget[OF inv t f] by simp_all
  have f1: "thisCpu ?s1 = c" "live ?s1 c t" using c t by (simp_all add: live_def)
  have ti1: "tick_inv E c {t} (insert t B) ?s1" using 1(1) by (simp add: kinv_def)
  have pre: "attach_pre E t ns ?s1"
    by (rule attach_preI[OF ti1 f1]) (use ns ty f np in \<open>auto simp: state_ok_def DEFTICK_STATES_def BUDGET_STATES_def\<close>)
  have n: "ns \<in> {K_TASK_STATE_READY, K_TASK_STATE_THREAD_THROTTLED, K_TASK_STATE_THREAD_SLEEP}
      \<or> ns = K_TASK_STATE_PENDING \<and> pendingTaskLsr (gTickMachines ?s1 c) \<noteq> None"
    "ns \<notin> TICKED_STATES" "ns \<noteq> K_TASK_STATE_THREAD_SLEEP"
    using ns by (auto simp: TICKED_STATES_def DEFTICK_STATES_def)
  have 2: "kinv c ({t} - {t}) (insert t B - {t}) ?s' \<and> cpu_step c ?s1 ?s' \<and> tick_same (load_core E t ns ?s1) ?s'"
    by (rule kinv_load[OF 1(1) f1 _ pre]) (use n in auto)
  note st = load_core_step[OF f1(1) n(1), of E t]
  have m: "mach_step E c s ?s1" by (rule upd_tick_mach_step)
  have "mach_step E c s ?s'"
    using mach_step_trans[OF m mach_step_trans[OF _ tick_same_mach_step]] st 2 by blast
  moreover have "tasks ?s' u = tasks s u" if "tstate (tasks s u) \<noteq> K_TASK_STATE_THREAD_SLEEP" for u
    using 2 that ty(2) by (auto simp: tick_same_def load_core_tasks)
  ultimately show ?thesis
    unfolding Let_def wake_ok_def
    using 2 st n(3) tB cpu_step_trans[OF 1(2)] by (simp add: tick_same_def insert_Diff_if)
qed

lemma woken_task_ok:
  assumes inv: "kinv c {t} B s" and c: "thisCpu s = c" and t: "live s c t" and tB: "t \<notin> B"
    and ty: "ttype (tasks s t) = K_TASK_THREAD" "tstate (tasks s t) = K_TASK_STATE_THREAD_SLEEP"
    and np: "pendingTaskLsr (gTickMachines s c) \<noteq> Some t" and nolag: "\<not> lag (tick (tasks s t))"
  shows "let s' = woken_task E t s in
    wake_ok c B s s' \<and> sleepChain (gTickMachines s' c) = sleepChain (gTickMachines s c)
    \<and> sleepNodes s' = sleepNodes s"
proof -
  let ?k = "tick (tasks s t)"
  let ?id = "\<lambda>k::kSchedTick. k"
  let ?fill = "\<lambda>k. k\<lparr>currentBudget := budget k\<rparr>"
  let ?lag = "\<lambda>k. k\<lparr>lag := True\<rparr>"
  have l: "local_inv (idleAddr E) c True False t (tasks s t)"
    using inv t tB by (auto simp: kinv_def tick_inv_def)
  have b: "budget ?k > 0" "sleepTicks ?k > 0" using l ty by (simp_all add: local_inv_def)
  have id: "upd_task t (upd_tick ?id) s = s" by (simp add: upd_task_def upd_tick_def)
  note fin = woken_finish[OF inv c t tB ty np]
  have e: "woken_task E t s = (let s = (if currentBudget ?k = 0
              then case alg E of
                     BCS \<Rightarrow> if period ?k \<ge> sleepTicks ?k then upd_task t (upd_tick ?lag) s else upd_task t (upd_tick ?fill) s
                   | DS \<Rightarrow> if period ?k = 0 then upd_task t (upd_tick ?fill) s else s
              else s)
     in kTickTaskLoadNextState E t (if currentBudget (tick (tasks s t)) = 0 then K_TASK_STATE_THREAD_THROTTLED
                      else K_TASK_STATE_READY) s)"
    using ty b by (simp only: woken_task_def Let_def assert_holds)
  consider (ready) "currentBudget ?k \<noteq> 0"
    | (lag) "currentBudget ?k = 0" "alg E = BCS" "period ?k \<ge> sleepTicks ?k"
    | (fill) "currentBudget ?k = 0" "alg E = BCS \<and> \<not> period ?k \<ge> sleepTicks ?k \<or> alg E = DS \<and> period ?k = 0"
    | (throttle) "currentBudget ?k = 0" "alg E = DS" "period ?k \<noteq> 0"
    by (cases "alg E") auto
  then show ?thesis
  proof cases
    case ready
    have w: "woken_task E t s = kTickTaskLoadNextState E t K_TASK_STATE_READY (upd_task t (upd_tick ?id) s)"
      using ready unfolding e id by (simp add: Let_def)
    show ?thesis unfolding w by (rule fin) (use ready nolag in \<open>auto simp: word_greater_zero_iff\<close>)
  next
    case lag
    have w: "woken_task E t s = kTickTaskLoadNextState E t K_TASK_STATE_THREAD_THROTTLED (upd_task t (upd_tick ?lag) s)"
      using lag unfolding e by (simp add: Let_def)
    have "period ?k > 0" using b(2) lag(3) by simp
    then show ?thesis unfolding w by (intro fin) (use lag b in auto)
  next
    case fill
    have w: "woken_task E t s = kTickTaskLoadNextState E t K_TASK_STATE_READY (upd_task t (upd_tick ?fill) s)"
      using fill b(1) unfolding e by (auto simp: Let_def)
    show ?thesis unfolding w by (rule fin) (use b nolag in auto)
  next
    case throttle
    have w: "woken_task E t s = kTickTaskLoadNextState E t K_TASK_STATE_THREAD_THROTTLED (upd_task t (upd_tick ?id) s)"
      using throttle unfolding e id by (simp add: Let_def)
    show ?thesis unfolding w by (rule fin) (use throttle nolag in \<open>auto simp: word_greater_zero_iff\<close>)
  qed
qed

lemma sleep_loop_ok:
  assumes "kinv c {} B s" and "thisCpu s = c"
    and "length (chain_dq (sleepChain (gTickMachines s c))) \<le> n"
    and "\<forall>u \<in> B. tstate (tasks s u) = K_TASK_STATE_RUNNING"
  shows "wake_ok c B s (sleep_loop E n s)"
  using assms
proof (induction n arbitrary: s)
  case 0
  then show ?case by (simp add: deltaChainPopExpired_def wake_ok_def)
next
  case (Suc n)
  obtain r ch where p: "deltaChainPopExpired (sleepNodes s) (sleepChain (gTickMachines s c)) = (r, ch)"
    by fastforce
  show ?case
  proof (cases r)
    case None
    then have "sleep_loop E (Suc n) s = s" using p Suc.prems(2) by (subst sleep_loop.simps) simp
    then show ?thesis using Suc.prems(1) by (simp add: wake_ok_def)
  next
    case (Some t)
    have pop: "deltaChainPopExpired (sleepNodes s) (sleepChain (gTickMachines s c)) = (Some t, ch)"
      using p Some by simp
    have dq: "chain_dq (sleepChain (gTickMachines s c)) = t # chain_dq ch"
      using deltaChainPopExpired_spec(2)[OF pop refl] by simp
    let ?s1 = "upd_mach (\<lambda>m. m\<lparr>sleepChain := ch\<rparr>) s"
    let ?s2 = "woken_task E t ?s1"
    have ti: "tick_inv E c {} B s" using Suc.prems(1) by (simp add: kinv_def)
    have "t \<in> set (chain_dq (sleepChain (gTickMachines s c)))" using dq by simp
    note r = tick_inv_sleep_chain[OF ti this]
    have tB: "t \<notin> B" using Suc.prems(4) r(2) by auto
    have l: "local_inv (idleAddr E) c False False t (tasks s t)"
      and pl: "place_inv (alg E) (gTickMachines s c) (archLsrs s c) False t (tasks s t)"
      using ti r tB by (auto simp: tick_inv_def)
    have 1: "kinv c {t} B ?s1" "cpu_step c s ?s1"
      using kinv_detach[OF Suc.prems(1,2) detach_sleep[OF ti Suc.prems(2) pop]] r(2) by simp_all
    have f1: "thisCpu ?s1 = c" "live ?s1 c t" using Suc.prems(2) r by (simp_all add: live_def)
    have w: "wake_ok c B ?s1 ?s2" "sleepChain (gTickMachines ?s2 c) = ch"
      using woken_task_ok[OF 1(1) f1 tB] r l pl Suc.prems(2)
      unfolding Let_def by (simp_all add: place_inv_def local_inv_def)
    have m1: "mach_step E c s ?s1" using Suc.prems(2) by (simp add: mach_step_def)
    have w2: "wake_ok c B s ?s2"
      using w(1) cpu_step_trans[OF 1(2)] mach_step_trans[OF m1] Suc.prems(2) by (simp add: wake_ok_def)
    have k2: "kinv c {} B ?s2" "thisCpu ?s2 = c" "\<forall>u \<in> B. tstate (tasks ?s2 u) = K_TASK_STATE_RUNNING"
      using w2 cpu_step_cpu Suc.prems(2,4) by (auto simp: wake_ok_def)
    have "sleep_loop E (Suc n) s = sleep_loop E n ?s2"
      using pop Suc.prems(2) by (subst sleep_loop.simps) (simp add: Let_def del: sleep_loop.simps)
    moreover have "wake_ok c B ?s2 (sleep_loop E n ?s2)"
      by (rule Suc.IH[OF k2(1,2) _ k2(3)]) (use w(2) dq Suc.prems(3) in simp)
    ultimately show ?thesis using wake_ok_trans[OF w2] by (simp del: sleep_loop.simps)
  qed
qed

lemma sleep_tick:
  assumes inv: "kinv c {} B s" and c: "thisCpu s = c"
    and tick: "deltaChainTick (sleepNodes s) (sleepChain (gTickMachines s c)) = (ns, ch)"
    and s': "s' = upd_mach (\<lambda>m. m\<lparr>sleepChain := ch\<rparr>) (s\<lparr>sleepNodes := ns\<rparr>)"
  shows "wake_ok c B s s'" "sleepChain (gTickMachines s' c) = ch" "tasks s' = tasks s"
proof -
  have ti: "tick_inv E c {} B s" using inv by (simp add: kinv_def)
  have mi: "machine_inv s c" using ti by (simp add: tick_inv_def)
  have wf: "chain_wf (sleepNodes s) (sleepChain (gTickMachines s c))"
    using mi by (simp add: machine_inv_def Let_def)
  note t = deltaChainTick_spec[OF tick wf]
  have M: "gTickMachines s' c = (gTickMachines s c)\<lparr>sleepChain := ch\<rparr>" "sleepNodes s' = ns"
      "tasks s' = tasks s" "archLsrs s' = archLsrs s" "replenishNodes s' = replenishNodes s"
      "gOpsInitialized s' = gOpsInitialized s"
    using c by (simp_all add: s' upd_mach_def)
  have lv: "live s' c u = live s c u" for u by (simp add: live_def M)
  have "machine_inv s' c" using mi t(2,3) unfolding machine_inv_def Let_def lv M by simp
  moreover have "place_inv (alg E) (gTickMachines s' c) (archLsrs s' c) d u r
      = place_inv (alg E) (gTickMachines s c) (archLsrs s c) d u r" for d u r
    unfolding M place_inv_def by (simp add: t(3))
  ultimately have ti': "tick_inv E c {} B s'"
    using ti unfolding tick_inv_def lv M(3,6) by simp
  have ps: "pol_same s s'" by (simp add: s' pol_same_def upd_mach_def)
  have k: "kinv c {} B s'"
    by (rule kinv_change[OF inv ti' ps]) (auto simp: ready_set_def lv M)
  have other: "ns u = sleepNodes s u" if "cpuId (tasks s u) \<noteq> c" for u
  proof -
    have "u \<notin> set (chain_dq (sleepChain (gTickMachines s c)))"
      using mi that by (auto simp: machine_inv_def Let_def live_def)
    then show ?thesis using tick by (auto simp: deltaChainTick_def tick_walk_other)
  qed
  then have "cpu_frame c s s'" using c by (simp add: cpu_frame_def s' upd_mach_def)
  moreover have quiet: "quiet s s'" by (rule quiet_same) (use c in \<open>simp_all add: s' upd_mach_def\<close>)
  ultimately show "wake_ok c B s s'"
    using k pol_same_step[OF ps quiet] by (simp add: wake_ok_def M mach_step_def)
  show "sleepChain (gTickMachines s' c) = ch" "tasks s' = tasks s" by (simp_all add: M)
qed

lemma kTickSleepPeriod_ok:
  assumes inv: "kinv c {} B s" and c: "thisCpu s = c"
    and B: "\<forall>u \<in> B. tstate (tasks s u) = K_TASK_STATE_RUNNING"
  shows "wake_ok c B s (kTickSleepPeriod E s)"
proof -
  obtain ns ch where t: "deltaChainTick (sleepNodes s) (sleepChain (gTickMachines s c)) = (ns, ch)"
    by fastforce
  let ?s1 = "upd_mach (\<lambda>m. m\<lparr>sleepChain := ch\<rparr>) (s\<lparr>sleepNodes := ns\<rparr>)"
  note r = sleep_tick[OF inv c t refl]
  have c1: "thisCpu ?s1 = c" using c by (simp add: upd_mach_def)
  have "wake_ok c B ?s1 (sleep_loop E (length (chain_dq ch)) ?s1)"
    by (rule sleep_loop_ok[OF _ c1]) (use r B in \<open>simp_all add: wake_ok_def\<close>)
  moreover have "kTickSleepPeriod E s = sleep_loop E (length (chain_dq ch)) ?s1"
    using t c by (simp add: kTickSleepPeriod_def Let_def del: sleep_loop.simps)
  ultimately show ?thesis using wake_ok_trans[OF r(1)] by (simp del: sleep_loop.simps)
qed

end

end
