(* ===== verification/TickSwitch.thy ===== *)
theory TickSwitch
  imports TickTimers
begin

text \<open>
  Choosing what runs: the pop of the next task, the rescheduling point, the whole tick
  transition, and the interrupt and switch entries of \<^verbatim>\<open>kTick.c\<close>. Every entry leads from a state
  in which a task runs back to such a state, and records no fault.
\<close>

context sched_policy
begin

subsection \<open>The states between the entries\<close>

text \<open>
  \<open>kmid\<close>: the invariant inside an interrupt, when the running task may have been put aside.
  \<open>kbound\<close>: the invariant when the kernel is left: a task runs, and no LSR waits unless an LSR runs.
\<close>

definition kmid :: "u32 \<Rightarrow> 'p kstate \<Rightarrow> bool" where
  "kmid c s \<longleftrightarrow> kinv c {} {} s \<and> timer_inv E c s
     \<and> (\<forall>r. runningTask (gTickMachines s c) = Some r \<longrightarrow> ttype (tasks s r) \<noteq> K_TASK_LSR \<longrightarrow>
          pendingTaskLsr (gTickMachines s c) = None)"

definition kbound :: "u32 \<Rightarrow> 'p kstate \<Rightarrow> bool" where
  "kbound c s \<longleftrightarrow> kmid c s \<and> (\<exists>r. runningTask (gTickMachines s c) = Some r
     \<and> (ttype (tasks s r) \<noteq> K_TASK_LSR \<longrightarrow> pendingLsrChain (gTickMachines s c) = []))"

text \<open>A task other than an LSR has been made the running task; all else that matters is kept.\<close>

definition run_ok :: "u32 \<Rightarrow> 'p kstate \<Rightarrow> 'p kstate \<Rightarrow> bool" where
  "run_ok c s s' \<longleftrightarrow> kinv c {} {} s' \<and> cpu_step c s s'
     \<and> (\<exists>r. runningTask (gTickMachines s' c) = Some r \<and> ttype (tasks s' r) \<noteq> K_TASK_LSR)
     \<and> pendingTaskLsr (gTickMachines s' c) = pendingTaskLsr (gTickMachines s c)
     \<and> pendingLsrChain (gTickMachines s' c) = pendingLsrChain (gTickMachines s c)
     \<and> (timer_inv E c s \<longrightarrow> timer_inv E c s')"

lemma timer_inv_same:
  "replenishNodes s' = replenishNodes s \<Longrightarrow>
   replenishmentChain (gTickMachines s' c) = replenishmentChain (gTickMachines s c) \<Longrightarrow>
   timer_inv E c s \<Longrightarrow> timer_inv E c s'"
  by (simp add: timer_inv_def)

lemma timer_inv_ds: "(alg E = DS \<Longrightarrow> replenishNodes s' = replenishNodes s) \<Longrightarrow>
   (alg E = DS \<Longrightarrow> replenishmentChain (gTickMachines s' c) = replenishmentChain (gTickMachines s c)) \<Longrightarrow>
   timer_inv E c s \<Longrightarrow> timer_inv E c s'"
  by (simp add: timer_inv_def)

subsection \<open>The next task\<close>

lemma ready_idle:
  assumes "tick_inv E c {} {} s" and "runningTask (gTickMachines s c) = None"
    and "pendingTaskLsr (gTickMachines s c) = None"
  shows "live s c (idleAddr E c)" "ttype (tasks s (idleAddr E c)) = K_TASK_IDLE"
    "tstate (tasks s (idleAddr E c)) = K_TASK_STATE_READY"
proof -
  show l: "live s c (idleAddr E c)" and ty: "ttype (tasks s (idleAddr E c)) = K_TASK_IDLE"
    using assms(1) by (simp_all add: tick_inv_def)
  have "place_inv (alg E) (gTickMachines s c) (archLsrs s c) False (idleAddr E c) (tasks s (idleAddr E c))"
      "local_inv (idleAddr E) c False False (idleAddr E c) (tasks s (idleAddr E c))"
    using assms(1) l by (simp_all add: tick_inv_def)
  then show "tstate (tasks s (idleAddr E c)) = K_TASK_STATE_READY"
    using assms(2,3) ty by (simp add: place_inv_def local_inv_def state_ok_def)
qed

lemma kTickSchedTaskPop_ok:
  assumes inv: "kinv c {} {} s" and c: "thisCpu s = c"
    and idle: "runningTask (gTickMachines s c) = None" "pendingTaskLsr (gTickMachines s c) = None"
  shows "\<exists>t s'. kTickSchedTaskPop E s = (Some t, s') \<and> kinv c {t} {} s' \<and> cpu_step c s s'
    \<and> quiet s s' \<and> tick_same s s' \<and> live s c t \<and> tstate (tasks s t) = K_TASK_STATE_READY
    \<and> ttype (tasks s t) \<noteq> K_TASK_LSR \<and> tickable t s'
    \<and> (if ready_set s c {} = {} then t = idleAddr E c else t \<in> ready_set s c {})"
proof -
  let ?Q = "ready_set s c {}"
  let ?s' = "snd (kSchedTaskPopFn (ops E) s)"
  have ti: "tick_inv E c {} {} s" using inv by (simp add: kinv_def)
  note ri = ready_idle[OF ti idle]
  have pv: "pinv (thisCpu s) ?Q s" using inv c by (simp add: kinv_def)
  note law = pop_law[OF pv, unfolded c, OF refl]
  have keeps: "policy_keeps pinv tickable known c ?Q s ?s'" by (rule conjunct1[OF law])
  have same: "tick_same s ?s'" using keeps by (simp add: policy_keeps_def pol_only_tick_same)
  have cpus: "\<forall>u \<in> ?Q. cpuId (tasks s u) = c" by (simp add: ready_set_def live_def)
  obtain t where t: "fst (kSchedTaskPopFn (ops E) s) = Some t" "pinv c (?Q - {t}) ?s'"
      "live s c t" "tstate (tasks s t) = K_TASK_STATE_READY" "tickable t ?s'"
      "ttype (tasks s t) \<noteq> K_TASK_LSR" "if ?Q = {} then t = idleAddr E c else t \<in> ?Q"
  proof (cases "?Q = {}")
    case True
    have "fst (kSchedTaskPopFn (ops E) s) = Some (idleAddr E c)" "pinv c {} ?s'"
      using conjunct2[OF law] by (simp_all only: True simp_thms if_True)
    moreover have "tickable (idleAddr E c) ?s'"
      using ri(2) same by (intro tickable_other) (simp add: tick_same_def)
    ultimately show ?thesis
      using that[of "idleAddr E c"] ri unfolding True by simp
  next
    case False
    have "\<exists>t \<in> ?Q. fst (kSchedTaskPopFn (ops E) s) = Some t \<and> pinv c (?Q - {t}) ?s' \<and> tickable t ?s'"
      using conjunct2[OF law] by (simp only: False if_False)
    then obtain t where "t \<in> ?Q" "fst (kSchedTaskPopFn (ops E) s) = Some t" "pinv c (?Q - {t}) ?s'"
        "tickable t ?s'" by blast
    moreover have "live s c t" "tstate (tasks s t) = K_TASK_STATE_READY" "ttype (tasks s t) \<noteq> K_TASK_LSR"
      using calculation(1) by (simp_all add: ready_set_def)
    ultimately show ?thesis using that False by simp
  qed
  have det: "tick_inv E c {t} {} s" using detach_trivial[OF ti t(3)] t(4) by simp
  have rs: "ready_set ?s' c {t} = ?Q - {t}"
    unfolding ready_set_same[OF same] by (auto simp: ready_set_def)
  have "kinv c {t} {} ?s'"
    unfolding kinv_def rs
  proof (intro conjI allI impI t(2) tick_inv_same[OF same, THEN iffD2, OF det])
    fix u assume u: "live ?s' c u" "ttype (tasks ?s' u) = K_TASK_THREAD"
    then have k: "known u s" "tstate (tasks s u) \<in> TICKED_STATES \<Longrightarrow> tickable u s"
      using inv same by (auto simp: kinv_def live_same[OF same] tick_same_def)
    show "known u ?s'" using k keeps by (simp add: policy_keeps_def)
    show "tickable u ?s'" if st: "tstate (tasks ?s' u) \<in> TICKED_STATES \<and> u \<notin> {}"
    proof -
      have "tstate (tasks s u) \<in> TICKED_STATES" using st same by (simp add: tick_same_def)
      moreover have "u \<notin> ?Q"
        using calculation by (auto simp: ready_set_def TICKED_STATES_def DEFTICK_STATES_def)
      ultimately show ?thesis using k keeps by (simp add: policy_keeps_def)
    qed
  qed
  moreover have "kTickSchedTaskPop E s = (Some t, ?s')"
  proof -
    have "gOpsInitialized s" using ti by (simp add: tick_inv_def)
    moreover have "tasks ?s' = tasks s" using same by (simp add: tick_same_def)
    ultimately show ?thesis
      using t(1,4,6) by (cases "kSchedTaskPopFn (ops E) s") (simp add: kTickSchedTaskPop_def kSchedTaskPop_def)
  qed
  moreover have "cpu_step c s ?s'" by (rule keeps_step[OF keeps cpus])
  moreover have "quiet s ?s'" using keeps by (simp add: policy_keeps_def quiet_pol_only)
  ultimately show ?thesis using same t(3-7) by (intro exI conjI)
qed

lemma load_running_ok:
  assumes inv: "kinv c {t} {} s" and c: "thisCpu s = c" and t: "live s c t"
    and st: "tstate (tasks s t) \<in> {K_TASK_STATE_READY, K_TASK_STATE_PENDING, K_TASK_STATE_DEFTICK_PENDING}
      \<or> ttype (tasks s t) = K_TASK_LSR \<and> tstate (tasks s t) = K_TASK_STATE_LSR_PENDING"
    and nr: "runningTask (gTickMachines s c) = None" "pendingTaskLsr (gTickMachines s c) \<noteq> Some t"
    and tk: "tickable t s" and nolag: "ttype (tasks s t) = K_TASK_THREAD \<Longrightarrow> \<not> lag (tick (tasks s t))"
  shows "let s' = kTickTaskLoadNextState E t K_TASK_STATE_RUNNING s in
    kinv c {} {} s' \<and> cpu_step c s s' \<and> ttype (tasks s' t) = ttype (tasks s t)
    \<and> gTickMachines s' c = (gTickMachines s c)\<lparr>runningTask := Some t\<rparr> \<and> replenishNodes s' = replenishNodes s"
proof -
  have ti: "tick_inv E c {t} {} s" using inv by (simp add: kinv_def)
  have l: "local_inv (idleAddr E) c True False t (tasks s t)"
    using ti t by (auto simp: tick_inv_def)
  let ?s' = "kTickTaskLoadNextState E t K_TASK_STATE_RUNNING s"
  have act: "K_SCHED_TASK_ACTIVATED (tstate (tasks s t))" "tstate (tasks s t) \<noteq> K_TASK_STATE_RUNNING"
    using st by (elim disjE conjE insertE; simp add: K_SCHED_TASK_ACTIVATED_def)+
  have ok: "state_ok (ttype (tasks s t)) K_TASK_STATE_RUNNING"
    using t by (cases "ttype (tasks s t)") (simp_all add: state_ok_def live_def)
  have bud: "currentBudget (tick (tasks s t)) > 0" if "ttype (tasks s t) = K_TASK_THREAD"
  proof -
    have "tstate (tasks s t) \<in> BUDGET_STATES"
      using st that by (auto simp: BUDGET_STATES_def DEFTICK_STATES_def)
    then show ?thesis using l that by (simp add: local_inv_def)
  qed
  have pre: "attach_pre E t K_TASK_STATE_RUNNING s"
    by (rule attach_preI[OF ti c t ok]) (use act nr bud nolag state_sets in simp_all)
  have 1: "kinv c ({t} - {t}) ({} - {t}) ?s' \<and> cpu_step c s ?s' \<and> tick_same (load_core E t K_TASK_STATE_RUNNING s) ?s'"
    by (rule kinv_load[OF inv c t _ pre]) (use tk in auto)
  have "gTickMachines (load_core E t K_TASK_STATE_RUNNING s) c = (gTickMachines s c)\<lparr>runningTask := Some t\<rparr>"
    using c by (simp add: load_core_def)
  then show ?thesis
    using 1 by (simp add: Let_def tick_same_def load_core_replenishNodes)
qed

lemma kinv_nolag:
  "kinv c {} B s \<Longrightarrow> live s c t \<Longrightarrow> ttype (tasks s t) = K_TASK_THREAD \<Longrightarrow> \<not> lag (tick (tasks s t))"
  by (auto simp: kinv_def tick_inv_def local_inv_def)

lemma run_next_ok:
  assumes inv: "kinv c {} {} s" and c: "thisCpu s = c"
    and idle: "runningTask (gTickMachines s c) = None" "pendingTaskLsr (gTickMachines s c) = None"
  shows "run_ok c s (run_next E s)"
    and "\<exists>t. runningTask (gTickMachines (run_next E s) c) = Some t
      \<and> (if ready_set s c {} = {} then t = idleAddr E c else t \<in> ready_set s c {})"
    and "silent_trace c s (run_next E s)"
proof -
  obtain t s1 where p: "kTickSchedTaskPop E s = (Some t, s1)" "kinv c {t} {} s1" "cpu_step c s s1"
      "tick_same s s1" "live s c t" "tstate (tasks s t) = K_TASK_STATE_READY"
      "ttype (tasks s t) \<noteq> K_TASK_LSR" "tickable t s1"
      "if ready_set s c {} = {} then t = idleAddr E c else t \<in> ready_set s c {}" "quiet s s1"
    using kTickSchedTaskPop_ok[OF inv c idle] by blast
  have f: "thisCpu s1 = c" "live s1 c t" "tasks s1 = tasks s" "gTickMachines s1 = gTickMachines s"
      "replenishNodes s1 = replenishNodes s"
    using p(4,5) c by (simp_all add: tick_same_def live_def)
  let ?s' = "kTickTaskLoadNextState E t K_TASK_STATE_RUNNING s1"
  have e: "run_next E s = ?s'" using p(1) by (simp add: run_next_def deref_def)
  have 1: "kinv c {} {} ?s'" "cpu_step c s1 ?s'" "ttype (tasks ?s' t) = ttype (tasks s t)"
      "gTickMachines ?s' c = (gTickMachines s c)\<lparr>runningTask := Some t\<rparr>" "replenishNodes ?s' = replenishNodes s"
    using load_running_ok[OF p(2) f(1,2) _ _ _ p(8)] p(6) idle kinv_nolag[OF inv p(5)]
    unfolding Let_def f(3,4,5) by simp_all
  show "\<exists>t. runningTask (gTickMachines (run_next E s) c) = Some t
      \<and> (if ready_set s c {} = {} then t = idleAddr E c else t \<in> ready_set s c {})"
    unfolding e using 1(4) p(9) by simp
  show "silent_trace c s (run_next E s)"
    unfolding e by (rule load_running_silent[OF p(10)]) (use f idle in \<open>simp_all add: p(6) K_SCHED_TASK_ACTIVATED_def\<close>)
  show "run_ok c s (run_next E s)"
    unfolding run_ok_def e
    using 1 p(7) cpu_step_trans[OF p(3)] timer_inv_same[of ?s' s c] by simp
qed

subsection \<open>The rescheduling point\<close>

text \<open>The running task leaves: what the machine looks like then.\<close>

lemma leave_load:
  assumes inv: "kinv c D B s" and c: "thisCpu s = c" and t: "runningTask (gTickMachines s c) = Some t"
    and B: "B \<subseteq> {t}" "t \<in> B \<Longrightarrow> ns \<notin> BUDGET_STATES"
    and ok: "state_ok (ttype (tasks s t)) ns" "ns \<noteq> K_TASK_STATE_RUNNING" "ns \<noteq> K_TASK_STATE_THREAD_SLEEP"
      "ns \<noteq> K_TASK_STATE_PENDING"
    and pend: "ns \<in> DEFTICK_STATES \<Longrightarrow> pendingTaskLsr (gTickMachines s c) = None"
    and slp: "ns = K_TASK_STATE_THREAD_DEFTICK_SLEEP \<Longrightarrow> sleepTicks (tick (tasks s t)) > 0"
    and thr: "ns = K_TASK_STATE_THREAD_THROTTLED \<Longrightarrow> period (tick (tasks s t)) > 0"
  shows "let s' = kTickTaskLoadNextState E t ns (kTickPrepareLeaveRunningState s) in
    kinv c D {} s' \<and> cpu_step c s s' \<and> runningTask (gTickMachines s' c) = None
    \<and> (ns \<noteq> K_TASK_STATE_LSR_DORMANT \<longrightarrow> archLsrs s' = archLsrs s) \<and> (\<forall>u. u \<noteq> t \<longrightarrow> tasks s' u = tasks s u)
    \<and> pendingTaskLsr (gTickMachines s' c) =
        (if ns = K_TASK_STATE_DEFTICK_PENDING then Some t else pendingTaskLsr (gTickMachines s c))
    \<and> pendingLsrChain (gTickMachines s' c) =
        (if ns = K_TASK_STATE_LSR_PENDING then t # pendingLsrChain (gTickMachines s c)
         else pendingLsrChain (gTickMachines s c))
    \<and> ttype (tasks s' t) = ttype (tasks s t) \<and> tstate (tasks s' t) = ns
    \<and> (timer_inv E c s \<longrightarrow> timer_inv E c s')"
proof -
  let ?s1 = "kTickPrepareLeaveRunningState s"
  let ?s' = "kTickTaskLoadNextState E t ns ?s1"
  have ti: "tick_inv E c D B s" using inv by (simp add: kinv_def)
  note r = tick_inv_running[OF ti t]
  have l: "local_inv (idleAddr E) c False (t \<in> B) t (tasks s t)"
    and p: "place_inv (alg E) (gTickMachines s c) (archLsrs s c) False t (tasks s t)"
    using ti r by (auto simp: tick_inv_def)
  have 1: "kinv c (insert t D) B ?s1" "cpu_step c s ?s1" "tick_same (upd_mach (\<lambda>m. m\<lparr>runningTask := None\<rparr>) s) ?s1"
    using kinv_leave_running[OF inv c t] by simp_all
  have f: "thisCpu ?s1 = c" "tasks ?s1 = tasks s" "replenishNodes ?s1 = replenishNodes s"
      "gTickMachines ?s1 c = (gTickMachines s c)\<lparr>runningTask := None\<rparr>" "live ?s1 c t"
    using 1(3) c r(1) by (simp_all add: tick_same_def live_def)
  have ti1: "tick_inv E c (insert t D) B ?s1" using 1(1) by (simp add: kinv_def)
  have np: "pendingTaskLsr (gTickMachines s c) \<noteq> Some t" using p r(2) by (simp add: place_inv_def)
  have nolag: "\<not> lag (tick (tasks s t))" if "ttype (tasks s t) = K_TASK_THREAD"
    using l that by (simp add: local_inv_def)
  have bud: "currentBudget (tick (tasks s t)) > 0" if "ttype (tasks s t) = K_TASK_THREAD" "ns \<in> BUDGET_STATES"
    using l B(2) r(2) that by (auto simp: local_inv_def BUDGET_STATES_def)
  have pre: "attach_pre E t ns ?s1"
    by (rule attach_preI[OF ti1 f(1,5)])
      (use r ok pend np slp thr nolag bud in \<open>simp_all add: f(2,4), blast?\<close>)
  have tk: "tickable t ?s1" if "ns \<in> TICKED_STATES"
  proof -
    have "t \<notin> B" using that B(2) ok(2,4) by (auto simp: TICKED_STATES_def BUDGET_STATES_def)
    then have "tickable t s" using kinv_tickable[OF inv r(1)] r(2) by (simp add: TICKED_STATES_def)
    moreover have "pol_same s ?s1"
      using r(2) t c by (simp add: kTickPrepareLeaveRunningState_def kTickGetRunningTask_def
        kTickGetMachine_def pol_same_def)
    ultimately show ?thesis by (rule tickable_same[rotated])
  qed
  have 2: "kinv c (insert t D - {t}) (B - {t}) ?s' \<and> cpu_step c ?s1 ?s' \<and> tick_same (load_core E t ns ?s1) ?s'"
    by (rule kinv_load[OF 1(1) f(1,5) _ pre]) (use tk in auto)
  have B0: "B - {t} = {}" "insert t D - {t} = D" using B(1) r(3) by blast+
  have M: "runningTask (gTickMachines (load_core E t ns ?s1) c) = None"
    "pendingLsrChain (gTickMachines (load_core E t ns ?s1) c) =
      (if ns = K_TASK_STATE_LSR_PENDING then t # pendingLsrChain (gTickMachines s c) else pendingLsrChain (gTickMachines s c))"
    "pendingTaskLsr (gTickMachines (load_core E t ns ?s1) c) =
      (if ns = K_TASK_STATE_DEFTICK_PENDING then Some t else pendingTaskLsr (gTickMachines s c))"
    "alg E = DS \<Longrightarrow> replenishmentChain (gTickMachines (load_core E t ns ?s1) c) = replenishmentChain (gTickMachines s c)"
    using f(1,4) ok(2-4)
    by (cases ns; simp add: load_core_def Let_def replenish_insert_def sleep_insert_def split: prod.splits)+
  have "timer_inv E c s \<Longrightarrow> timer_inv E c ?s'"
    by (rule timer_inv_ds[of ?s' s c]) (use 2 M(4) f(3) in \<open>simp_all add: tick_same_def load_core_replenishNodes\<close>)
  then show ?thesis
    unfolding Let_def
    using 2 B0 cpu_step_trans[OF 1(2)] M(1-3) f(2) 1(3)
    by (simp add: tick_same_def load_core_tasks load_core_archLsrs)
qed

definition resched_ok :: "u32 \<Rightarrow> addr \<Rightarrow> 'p kstate \<Rightarrow> 'p kstate \<Rightarrow> bool" where
  "resched_ok c t s s' \<longleftrightarrow> kinv c {} {} s' \<and> cpu_step c s s'
     \<and> (\<exists>r. runningTask (gTickMachines s' c) = Some r
          \<and> (ttype (tasks s' r) = K_TASK_LSR) = (ttype (tasks s t) = K_TASK_LSR))
     \<and> pendingTaskLsr (gTickMachines s' c) = pendingTaskLsr (gTickMachines s c)
     \<and> pendingLsrChain (gTickMachines s' c) = pendingLsrChain (gTickMachines s c)
     \<and> (timer_inv E c s \<longrightarrow> timer_inv E c s')"

lemma leave_run_next:
  assumes inv: "kinv c {} B s" and c: "thisCpu s = c" and t: "runningTask (gTickMachines s c) = Some t"
    and B: "B \<subseteq> {t}" "t \<in> B \<Longrightarrow> ns = K_TASK_STATE_THREAD_THROTTLED"
    and ty: "ttype (tasks s t) \<noteq> K_TASK_LSR" and pend: "pendingTaskLsr (gTickMachines s c) = None"
    and ns: "ns = K_TASK_STATE_READY \<or> ns = K_TASK_STATE_THREAD_THROTTLED
      \<and> ttype (tasks s t) = K_TASK_THREAD \<and> period (tick (tasks s t)) > 0"
  shows "resched_ok c t s (run_next E (kTickTaskLoadNextState E t ns (kTickPrepareLeaveRunningState s)))"
proof -
  let ?s1 = "kTickTaskLoadNextState E t ns (kTickPrepareLeaveRunningState s)"
  have ti: "tick_inv E c {} B s" using inv by (simp add: kinv_def)
  note r = tick_inv_running[OF ti t]
  have so: "state_ok (ttype (tasks s t)) ns"
    using ns r(1) ty by (cases "ttype (tasks s t)") (auto simp: state_ok_def live_def)
  have n: "ns \<noteq> K_TASK_STATE_RUNNING" "ns \<noteq> K_TASK_STATE_THREAD_SLEEP" "ns \<noteq> K_TASK_STATE_PENDING"
      "ns \<notin> DEFTICK_STATES" "ns \<noteq> K_TASK_STATE_DEFTICK_PENDING" "ns \<noteq> K_TASK_STATE_LSR_PENDING"
    using ns state_sets by auto
  have bn: "t \<in> B \<Longrightarrow> ns \<notin> BUDGET_STATES" using B(2) by (auto simp: BUDGET_STATES_def DEFTICK_STATES_def)
  have 1: "kinv c {} {} ?s1" "cpu_step c s ?s1" "runningTask (gTickMachines ?s1 c) = None"
      "pendingTaskLsr (gTickMachines ?s1 c) = None"
      "pendingLsrChain (gTickMachines ?s1 c) = pendingLsrChain (gTickMachines s c)"
      "timer_inv E c s \<longrightarrow> timer_inv E c ?s1"
    using leave_load[OF inv c t B(1) bn so n(1,2,3)] n pend ns unfolding Let_def by auto
  have c1: "thisCpu ?s1 = c" using cpu_step_cpu[OF 1(2)] c by simp
  have "run_ok c ?s1 (run_next E ?s1)" by (rule run_next_ok(1)[OF 1(1) c1 1(3,4)])
  then show ?thesis
    unfolding resched_ok_def run_ok_def using 1 pend ty cpu_step_trans[OF 1(2)] by auto
qed

lemma kTickReschedulingPoint_ok:
  assumes inv: "kinv c {} B s" and c: "thisCpu s = c" and t: "runningTask (gTickMachines s c) = Some t"
    and B: "B \<subseteq> {t}" "t \<in> B \<Longrightarrow> throttle_due c t s"
    and due: "throttle_due c t s \<Longrightarrow> period (tick (tasks s t)) > 0"
    and pend: "ttype (tasks s t) \<noteq> K_TASK_LSR \<Longrightarrow> pendingTaskLsr (gTickMachines s c) = None"
  shows "resched_ok c t s (kTickReschedulingPoint E s)"
proof -
  have ti: "tick_inv E c {} B s" using inv by (simp add: kinv_def)
  note r = tick_inv_running[OF ti t]
  have run: "kTickGetRunningTask s = Some t" using t c by (simp add: kTickGetRunningTask_def kTickGetMachine_def)
  consider (due) "throttle_due c t s" | (lsr) "ttype (tasks s t) = K_TASK_LSR"
    | (ask) "\<not> throttle_due c t s" "ttype (tasks s t) \<noteq> K_TASK_LSR" by blast
  then show ?thesis
  proof cases
    case due
    have d: "ttype (tasks s t) = K_TASK_THREAD" "currentBudget (tick (tasks s t)) = 0"
      using due by (simp_all add: throttle_due_def)
    have "kTickReschedulingPoint E s = run_next E (kTickTaskLoadNextState E t K_TASK_STATE_THREAD_THROTTLED
        (kTickPrepareLeaveRunningState s))"
      using run r(2) d by (simp add: kTickReschedulingPoint_def Let_def)
    then show ?thesis
      using leave_run_next[OF inv c t B(1)] d pend assms(6)[OF due] by simp
  next
    case lsr
    have "B = {}" using B lsr by (auto simp: throttle_due_def)
    moreover have "kTickReschedulingPoint E s = s"
      using run r(2) lsr by (simp add: kTickReschedulingPoint_def Let_def)
    ultimately show ?thesis using inv t by (simp add: resched_ok_def)
  next
    case ask
    have B0: "B = {}" using B ask by auto
    let ?s1 = "snd (kSchedShouldReschedule E s)"
    have ops: "gOpsInitialized s" using ti by (simp add: tick_inv_def)
    have sr: "kSchedShouldReschedule E s = kSchedShouldRescheduleFn (ops E) s"
      using ops by (simp add: kSchedShouldReschedule_def)
    have rq: "t \<notin> ready_set s (thisCpu s) {}" using r(2) by (simp add: ready_set_def)
    have pv: "pinv (thisCpu s) (ready_set s (thisCpu s) {}) s" using inv c B0 by (simp add: kinv_def)
    have law: "pinv c (ready_set s c {}) ?s1" "policy_keeps pinv tickable known c (ready_set s c {}) s ?s1"
      using resched_law[OF pv _ r(2) _ rq] t r(1) c unfolding sr by (auto simp: live_def)
    have same: "tick_same s ?s1" using law(2) by (simp add: policy_keeps_def pol_only_tick_same)
    have k1: "kinv c {} {} ?s1"
      by (rule kinv_policy[OF law(2,1)])
        (use inv B0 in \<open>auto simp: ready_set_def TICKED_STATES_def DEFTICK_STATES_def\<close>)
    have st1: "cpu_step c s ?s1"
      by (rule keeps_step[OF law(2)]) (simp add: ready_set_def live_def)
    have f: "thisCpu ?s1 = c" "tasks ?s1 = tasks s" "gTickMachines ?s1 = gTickMachines s"
        "replenishNodes ?s1 = replenishNodes s"
      using same c by (simp_all add: tick_same_def)
    have e: "kTickReschedulingPoint E s = (if fst (kSchedShouldReschedule E s)
        then run_next E (kTickTaskLoadNextState E t K_TASK_STATE_READY (kTickPrepareLeaveRunningState ?s1))
        else ?s1)"
      using run r(2) ask by (cases "kSchedShouldReschedule E s")
        (auto simp: kTickReschedulingPoint_def Let_def throttle_due_def)
    have base: "resched_ok c t s ?s1"
      unfolding resched_ok_def using k1 st1 f t timer_inv_same[of ?s1 s c] by simp
    show ?thesis
    proof (cases "fst (kSchedShouldReschedule E s)")
      case False then show ?thesis using base e by simp
    next
      case True
      have "resched_ok c t ?s1 (run_next E (kTickTaskLoadNextState E t K_TASK_STATE_READY
          (kTickPrepareLeaveRunningState ?s1)))"
        by (rule leave_run_next[OF k1 f(1)]) (use t ask pend in \<open>simp_all add: f\<close>)
      then show ?thesis
        using base True cpu_step_trans[OF st1] unfolding e resched_ok_def by (simp add: f)
    qed
  qed
qed

subsection \<open>The tick\<close>

lemma kSchedTickTransitionCallback_ok:
  assumes inv: "kinv c {} {} s" and c: "thisCpu s = c"
  shows "kinv c {} {} (kSchedTickTransitionCallback E s) \<and> cpu_step c s (kSchedTickTransitionCallback E s)
    \<and> tick_same s (kSchedTickTransitionCallback E s)"
proof -
  let ?s1 = "kSchedTickTransitionCallbackFn (ops E) s"
  have e: "kSchedTickTransitionCallback E s = ?s1"
    using inv by (simp add: kSchedTickTransitionCallback_def kinv_def tick_inv_def)
  have pv: "pinv (thisCpu s) (ready_set s c {}) s" using inv c by (simp add: kinv_def)
  note law = tick_law[OF pv, unfolded c]
  have keeps: "policy_keeps pinv tickable known c (ready_set s c {}) s ?s1" using law by blast
  have "kinv c {} {} ?s1"
    by (rule kinv_policy[OF keeps conjunct1[OF law] inv])
      (auto simp: ready_set_def TICKED_STATES_def DEFTICK_STATES_def)
  moreover have "cpu_step c s ?s1" by (rule keeps_step[OF keeps]) (simp add: ready_set_def live_def)
  moreover have "tick_same s ?s1" using keeps by (simp add: policy_keeps_def pol_only_tick_same)
  ultimately show ?thesis unfolding e by blast
qed

text \<open>A running thread that is due for throttling has a replenishment timer that still runs.\<close>

lemma running_timer:
  assumes inv: "kinv c {} B s" and tinv: "timer_inv E c s" and ds: "alg E = DS" and t: "live s c t"
    and ty: "ttype (tasks s t) = K_TASK_THREAD" "period (tick (tasks s t)) > 0"
    and left: "deltaChainTimeUntil (replenishNodes s) (replenishmentChain (gTickMachines s c)) t > 1"
  shows "\<exists>k. (t, k) \<in> set (rep_timers c s) \<and> 1 < k"
proof -
  have ti: "tick_inv E c {} B s" using inv by (simp add: kinv_def)
  have wf: "chain_wf (replenishNodes s) (replenishmentChain (gTickMachines s c))"
    using ti by (simp add: tick_inv_def machine_inv_def Let_def)
  have "t \<in> set (chain_dq (replenishmentChain (gTickMachines s c)))"
    using ti t ty ds by (simp add: tick_inv_def place_inv_def)
  then have "t \<in> fst ` set (rep_timers c s)"
    by (metis chain_timers_def list.set_map map_fst_timers)
  then obtain k where k: "(t, k) \<in> set (rep_timers c s)" by auto
  have e: "epochs_ok (replenishNodes s) (replenishmentChain (gTickMachines s c))" and pos: "0 < k"
    using tinv ds k by (auto simp: timer_inv_def)
  have "unat (deltaChainTimeUntil (replenishNodes s) (replenishmentChain (gTickMachines s c)) t) = k"
    by (rule deltaChainTimeUntil_spec[OF e k pos wf])
  then have "1 < k" using left by (simp add: word_less_nat_alt)
  then show ?thesis using k by blast
qed

lemma kinv_not_due:
  assumes "kinv c {} {} s" "live s c t" "tstate (tasks s t) = K_TASK_STATE_RUNNING"
  shows "\<not> throttle_due c t s"
  using assms by (auto simp: kinv_def tick_inv_def local_inv_def throttle_due_def BUDGET_STATES_def)

text \<open>The first half of the tick, up to the tick of the running task.\<close>

lemma tick_front:
  assumes inv: "kinv c {} {} s" and tinv: "timer_inv E c s" and c: "thisCpu s = c"
    and t: "runningTask (gTickMachines s c) = Some t"
    and s4: "s4 = kTickRunningTask E (kTickHandleDeferredTicks E
      ((if alg E = BCS then kTickReplenishmentPeriod E else id) (kSchedTickTransitionCallback E s)))"
    and B: "B = (if throttle_due c t s4 then {t} else {})"
  shows "kinv c {} B s4" "cpu_step c s s4" "timer_inv E c s4" "mach_keep c s s4"
    "throttle_due c t s4 \<Longrightarrow> period (tick (tasks s4 t)) > 0
       \<and> (alg E = DS \<longrightarrow> (\<exists>k. (t, k) \<in> set (rep_timers c s4) \<and> 1 < k))"
proof -
  let ?s1 = "kSchedTickTransitionCallback E s"
  let ?s2 = "(if alg E = BCS then kTickReplenishmentPeriod E else id) ?s1"
  let ?s3 = "kTickHandleDeferredTicks E ?s2"
  have 1: "kinv c {} {} ?s1" "cpu_step c s ?s1" "tick_same s ?s1"
    using kSchedTickTransitionCallback_ok[OF inv c] by simp_all
  have c1: "thisCpu ?s1 = c" using cpu_step_cpu[OF 1(2)] c by simp
  have t1: "timer_inv E c ?s1"
    by (rule timer_inv_same[OF _ _ tinv]) (use 1(3) in \<open>simp_all add: tick_same_def\<close>)
  have m1: "mach_keep c s ?s1" using 1(3) by (simp add: tick_same_def mach_keep_def)
  have 2: "kinv c {} {} ?s2 \<and> cpu_step c ?s1 ?s2 \<and> mach_keep c ?s1 ?s2 \<and> timer_inv E c ?s2"
  proof (cases "alg E")
    case BCS
    then show ?thesis using kTickReplenishmentPeriod_ok[OF 1(1) c1 t1] by (simp add: Let_def)
  next
    case DS then show ?thesis using 1 t1 by simp
  qed
  have c2: "thisCpu ?s2 = c" using cpu_step_cpu conjunct1[OF conjunct2[OF 2]] c1 by metis
  have 3: "kinv c {} {} ?s3" "cpu_step c ?s2 ?s3" "mach_step E c ?s2 ?s3"
    using kTickHandleDeferredTicks_ok[OF conjunct1[OF 2] c2] by simp_all
  have c3: "thisCpu ?s3 = c" using cpu_step_cpu[OF 3(2)] c2 by simp
  have t3: "timer_inv E c ?s3" using timer_inv_step[OF 3(3)] 2 by simp
  have k3: "mach_keep c s ?s3"
    using mach_keep_trans[OF m1 mach_keep_trans[OF _ mach_step_keep[OF 3(3)]]] 2 by blast
  have r3: "runningTask (gTickMachines ?s3 c) = Some t" using k3 t by (simp add: mach_keep_def)
  note 4 = kTickRunningTask_ok[OF 3(1) c3 r3, folded s4, unfolded Let_def]
  have k4: "mach_keep c ?s3 s4" using 4 mach_step_keep by blast
  have t4: "timer_inv E c s4" using 4 timer_inv_step[OF _ t3] by blast
  show "timer_inv E c s4" by (rule t4)
  show "mach_keep c s s4" by (rule mach_keep_trans[OF k3 k4])
  show "cpu_step c s s4"
    using cpu_step_trans[OF 1(2) cpu_step_trans[OF _ cpu_step_trans[OF 3(2)]]] 2 4 by blast
  have k: "kinv c {} {t} s4" using 4 by blast
  have ti4: "tick_inv E c {} {t} s4" using k by (simp add: kinv_def)
  have r4: "runningTask (gTickMachines s4 c) = Some t" using k4 r3 by (simp add: mach_keep_def)
  note live4 = tick_inv_running[OF ti4 r4]
  show "kinv c {} B s4"
  proof (cases "throttle_due c t s4")
    case True then show ?thesis using k B by simp
  next
    case False
    have "kinv c {} ({t} - {t}) s4"
      by (rule kinv_unexempt[OF k]) (use False 4 in \<open>auto simp: throttle_due_def word_greater_zero_iff\<close>)
    then show ?thesis using B False by simp
  qed
  show "period (tick (tasks s4 t)) > 0 \<and> (alg E = DS \<longrightarrow> (\<exists>k. (t, k) \<in> set (rep_timers c s4) \<and> 1 < k))"
    if due: "throttle_due c t s4"
  proof (intro conjI impI)
    show p: "period (tick (tasks s4 t)) > 0" using 4 due by blast
    assume ds: "alg E = DS"
    have same: "replenishmentChain (gTickMachines s4 c) = replenishmentChain (gTickMachines ?s3 c)"
        "replenishNodes s4 = replenishNodes ?s3"
      using 4 ds by (auto simp: mach_step_def Let_def)
    show "\<exists>k. (t, k) \<in> set (rep_timers c s4) \<and> 1 < k"
      by (rule running_timer[OF k t4 ds live4(1)])
        (use 4 due ds p same in \<open>auto simp: throttle_due_def\<close>)
  qed
qed

lemma kTickTransition_ok:
  assumes b: "kbound c s" and c: "thisCpu s = c"
  shows "kbound c (kTickTransition E s)" "cpu_step c s (kTickTransition E s)"
proof -
  obtain t where t: "runningTask (gTickMachines s c) = Some t" using b by (auto simp: kbound_def)
  have inv: "kinv c {} {} s" and tinv: "timer_inv E c s"
    using b by (simp_all add: kbound_def kmid_def)
  have ti: "tick_inv E c {} {} s" using inv by (simp add: kinv_def)
  define s4 where "s4 = kTickRunningTask E (kTickHandleDeferredTicks E
      ((if alg E = BCS then kTickReplenishmentPeriod E else id) (kSchedTickTransitionCallback E s)))"
  define B where "B = (if throttle_due c t s4 then {t} else {})"
  define s5 where "s5 = (if alg E = DS then kTickReplenishmentPeriod E s4 else s4)"
  define s6 where "s6 = kTickSleepPeriod E s5"
  have e: "kTickTransition E s = kTickReschedulingPoint E s6"
    by (cases "alg E") (simp_all add: kTickTransition_def s4_def s5_def s6_def Let_def)
  note f = tick_front[OF inv tinv c t s4_def B_def]
  have c4: "thisCpu s4 = c" using cpu_step_cpu[OF f(2)] c by simp
  have 5: "kinv c {} B s5 \<and> cpu_step c s4 s5 \<and> mach_keep c s4 s5 \<and> timer_inv E c s5
      \<and> (\<forall>u \<in> B. tasks s5 u = tasks s4 u)"
  proof (cases "alg E")
    case BCS then show ?thesis using f by (simp add: s5_def)
  next
    case DS
    have "\<forall>u \<in> B. \<exists>k. (u, k) \<in> set (rep_timers c s4) \<and> 1 < k"
      using f(5) DS by (simp add: B_def)
    then show ?thesis
      using kTickReplenishmentPeriod_ok[OF f(1) c4 f(3)] DS unfolding s5_def Let_def by simp
  qed
  have c5: "thisCpu s5 = c" using 5 c4 cpu_step_cpu by metis
  have k5: "mach_keep c s s5" using 5 mach_keep_trans[OF f(4)] by blast
  have r5: "runningTask (gTickMachines s5 c) = Some t" using k5 t by (simp add: mach_keep_def)
  have ti5: "tick_inv E c {} B s5" using 5 by (simp add: kinv_def)
  note run5 = tick_inv_running[OF ti5 r5]
  have 6: "wake_ok c B s5 s6"
    unfolding s6_def
    by (rule kTickSleepPeriod_ok[OF conjunct1[OF 5] c5]) (use run5 in \<open>simp add: B_def\<close>)
  have w: "kinv c {} B s6" "cpu_step c s5 s6" "mach_step E c s5 s6" "tasks s6 t = tasks s5 t"
    using 6 run5(2) by (simp_all add: wake_ok_def)
  have c6: "thisCpu s6 = c" using cpu_step_cpu[OF w(2)] c5 by simp
  have k6: "mach_keep c s s6" by (rule mach_keep_trans[OF k5 mach_step_keep[OF w(3)]])
  have r6: "runningTask (gTickMachines s6 c) = Some t" using k6 t by (simp add: mach_keep_def)
  have t6: "timer_inv E c s6" using timer_inv_step[OF w(3)] 5 by blast
  have st: "cpu_step c s s6" using cpu_step_trans[OF f(2) cpu_step_trans[OF _ w(2)]] 5 by blast
  have ty: "ttype (tasks s6 t) = ttype (tasks s t)"
    using cpu_step_static[OF st] by (simp add: static_same_def)
  have dueB: "throttle_due c t s4" "tasks s6 t = tasks s4 t" if "throttle_due c t s6"
  proof -
    have "B \<noteq> {}"
      using that kinv_not_due[of c s6 t] w(1,4) run5(1,2) cpu_step_live[OF w(2)] by auto
    then show "throttle_due c t s4" by (auto simp: B_def split: if_splits)
    then show "tasks s6 t = tasks s4 t" using 5 w(4) by (simp add: B_def)
  qed
  have "resched_ok c t s6 (kTickReschedulingPoint E s6)"
  proof (rule kTickReschedulingPoint_ok[OF w(1) c6 r6])
    show "B \<subseteq> {t}" by (simp add: B_def)
    show "throttle_due c t s6" if "t \<in> B"
    proof -
      have "throttle_due c t s4" using that by (simp add: B_def split: if_splits)
      moreover have "tasks s6 t = tasks s4 t" using that 5 w(4) by simp
      ultimately show ?thesis by (simp add: throttle_due_def)
    qed
    show "period (tick (tasks s6 t)) > 0" if "throttle_due c t s6"
      using dueB[OF that] f(5) by simp
    show "pendingTaskLsr (gTickMachines s6 c) = None" if "ttype (tasks s6 t) \<noteq> K_TASK_LSR"
      using that b t k6 by (simp add: ty kbound_def kmid_def mach_keep_def)
  qed
  then have r: "kinv c {} {} (kTickTransition E s)" "cpu_step c s6 (kTickTransition E s)"
      "\<exists>r. runningTask (gTickMachines (kTickTransition E s) c) = Some r
        \<and> (ttype (tasks (kTickTransition E s) r) = K_TASK_LSR) = (ttype (tasks s6 t) = K_TASK_LSR)"
      "pendingTaskLsr (gTickMachines (kTickTransition E s) c) = pendingTaskLsr (gTickMachines s6 c)"
      "pendingLsrChain (gTickMachines (kTickTransition E s) c) = pendingLsrChain (gTickMachines s6 c)"
      "timer_inv E c (kTickTransition E s)"
    using t6 unfolding e resched_ok_def by simp_all
  show "cpu_step c s (kTickTransition E s)" by (rule cpu_step_trans[OF st r(2)])
  have nl: "pendingTaskLsr (gTickMachines s6 c) = None \<and> pendingLsrChain (gTickMachines s6 c) = []"
    if "ttype (tasks s6 t) \<noteq> K_TASK_LSR"
    using that b t k6 by (simp add: ty kbound_def kmid_def mach_keep_def)
  show "kbound c (kTickTransition E s)"
    using r nl unfolding kbound_def kmid_def by auto
qed

subsection \<open>Interrupts and switches\<close>

lemma cpu_step_ttype: "cpu_step c s s' \<Longrightarrow> ttype (tasks s' t) = ttype (tasks s t)"
  using cpu_step_static by (simp add: static_same_def)

lemma run_ok_bound:
  assumes "run_ok c s s'" and "timer_inv E c s" and "pendingTaskLsr (gTickMachines s c) = None"
    and "pendingLsrChain (gTickMachines s c) = []"
  shows "kbound c s' \<and> cpu_step c s s'"
  using assms by (auto simp: run_ok_def kbound_def kmid_def)

text \<open>A pending LSR is started; whatever task waits goes on waiting.\<close>

lemma dispatch_lsr:
  assumes inv: "kinv c {} {} s" and tinv: "timer_inv E c s" and c: "thisCpu s = c"
    and nr: "runningTask (gTickMachines s c) = None"
    and ch: "pendingLsrChain (gTickMachines s c) = l # ls"
  shows "kbound c (dispatch_next E p s) \<and> cpu_step c s (dispatch_next E p s)"
    and "runningTask (gTickMachines (dispatch_next E p s) c) = Some l"
proof -
  let ?s1 = "upd_mach (\<lambda>m. m\<lparr>pendingLsrChain := ls\<rparr>) s"
  let ?s' = "kTickTaskLoadNextState E l K_TASK_STATE_RUNNING ?s1"
  have ti: "tick_inv E c {} {} s" using inv by (simp add: kinv_def)
  have "l \<in> set (pendingLsrChain (gTickMachines s c))" using ch by simp
  note r = tick_inv_lsr_chain[OF ti this]
  have p: "place_inv (alg E) (gTickMachines s c) (archLsrs s c) False l (tasks s l)"
    using ti r by (auto simp: tick_inv_def)
  have np: "pendingTaskLsr (gTickMachines s c) \<noteq> Some l" using p r(2) by (simp add: place_inv_def)
  have 1: "kinv c {l} {} ?s1" "cpu_step c s ?s1"
    using kinv_detach[OF inv c detach_lsr[OF ti c ch]] r(2) by simp_all
  have f: "thisCpu ?s1 = c" "live ?s1 c l" "tasks ?s1 = tasks s"
      "gTickMachines ?s1 c = (gTickMachines s c)\<lparr>pendingLsrChain := ls\<rparr>" "replenishNodes ?s1 = replenishNodes s"
    using c r(1) by (simp_all add: live_def)
  have 2: "kinv c {} {} ?s'" "cpu_step c ?s1 ?s'" "ttype (tasks ?s' l) = K_TASK_LSR"
      "gTickMachines ?s' c = (gTickMachines ?s1 c)\<lparr>runningTask := Some l\<rparr>" "replenishNodes ?s' = replenishNodes ?s1"
    using load_running_ok[OF 1(1) f(1,2) _ _ _ tickable_other] r nr np unfolding Let_def f(3,4) by simp_all
  have e: "dispatch_next E p s = ?s'"
    using ch c r(4) by (simp add: dispatch_next_def)
  have "timer_inv E c ?s'"
    by (rule timer_inv_same[OF _ _ tinv]) (use 2(4,5) f(4,5) in simp_all)
  then have "kbound c ?s'"
    using 2 f(4) by (simp add: kbound_def kmid_def)
  then show "kbound c (dispatch_next E p s) \<and> cpu_step c s (dispatch_next E p s)"
    unfolding e using cpu_step_trans[OF 1(2) 2(2)] by simp
  show "runningTask (gTickMachines (dispatch_next E p s) c) = Some l" unfolding e using 2(4) by simp
qed

text \<open>The task that an LSR had interrupted goes on.\<close>

lemma machine_commute:
  "(m::kTickMachine)\<lparr>pendingTaskLsr := p, deferredTicks := d\<rparr> = m\<lparr>deferredTicks := d, pendingTaskLsr := p\<rparr>"
  by (cases m) simp

lemma detach_interrupted:
  assumes inv: "kinv c {} {} s" and c: "thisCpu s = c" and p: "pendingTaskLsr (gTickMachines s c) = Some t"
    and s1: "s1 = (let s = upd_mach (\<lambda>m. m\<lparr>pendingTaskLsr := None\<rparr>) s
      in if tstate (tasks s t) = K_TASK_STATE_DEFTICK_PENDING
         then (case deferredTicks (mach s) of
                 [] \<Rightarrow> K_DYNAMIC_ASSERT False s
               | d # ds \<Rightarrow> K_DYNAMIC_ASSERT (d = t) (upd_mach (\<lambda>m. m\<lparr>deferredTicks := ds\<rparr>) s))
         else s)"
  shows "kinv c {t} {} s1 \<and> cpu_step c s s1 \<and> tasks s1 = tasks s \<and> pol s1 = pol s
    \<and> replenishNodes s1 = replenishNodes s
    \<and> pendingTaskLsr (gTickMachines s1 c) = None
    \<and> runningTask (gTickMachines s1 c) = runningTask (gTickMachines s c)
    \<and> pendingLsrChain (gTickMachines s1 c) = pendingLsrChain (gTickMachines s c)
    \<and> replenishmentChain (gTickMachines s1 c) = replenishmentChain (gTickMachines s c)"
proof -
  have ti: "tick_inv E c {} {} s" using inv by (simp add: kinv_def)
  note r = tick_inv_pending[OF ti p, simplified]
  show ?thesis
  proof (cases "tstate (tasks s t) = K_TASK_STATE_DEFTICK_PENDING")
    case False
    then have st: "tstate (tasks s t) = K_TASK_STATE_PENDING" using r(2) by simp
    have e: "s1 = upd_mach (\<lambda>m. m\<lparr>pendingTaskLsr := None\<rparr>) s" using st by (simp add: s1)
    have "kinv c {t} {} s1 \<and> cpu_step c s s1"
      unfolding e by (rule kinv_detach[OF inv c detach_pending[OF ti c p _ st]]) (use st in simp_all)
    then show ?thesis using c by (simp add: e)
  next
    case True
    obtain ds where ds: "deferredTicks (gTickMachines s c) = t # ds"
      using r(5)[OF True] by (cases "deferredTicks (gTickMachines s c)") auto
    let ?s2 = "upd_mach (\<lambda>m. m\<lparr>deferredTicks := ds\<rparr>) s"
    have e: "s1 = upd_mach (\<lambda>m. m\<lparr>pendingTaskLsr := None\<rparr>) ?s2"
      using True ds c by (simp add: s1 upd_mach_def upd_machine_def machine_commute)
    have 1: "kinv c {t} {} ?s2" "cpu_step c s ?s2"
      using kinv_detach[OF inv c detach_deferred[OF ti c ds]] True by simp_all
    have c2: "thisCpu ?s2 = c" using c by simp
    have ti2: "tick_inv E c {t} {} ?s2" using 1(1) by (simp add: kinv_def)
    have "kinv c {t} {} s1 \<and> cpu_step c ?s2 s1"
      unfolding e by (rule kinv_mach[OF 1(1) c2 clear_pending[OF ti2 c2]]) (use p c in simp_all)
    then show ?thesis using cpu_step_trans[OF 1(2)] c by (simp add: e)
  qed
qed

lemma resume_pending_ok:
  assumes inv: "kinv c {} {} s" and tinv: "timer_inv E c s" and c: "thisCpu s = c"
    and nr: "runningTask (gTickMachines s c) = None" and ch: "pendingLsrChain (gTickMachines s c) = []"
    and p: "pendingTaskLsr (gTickMachines s c) = Some t"
  shows "kbound c (resume_pending E t s) \<and> cpu_step c s (resume_pending E t s)"
proof -
  define s1 where "s1 = (let s = upd_mach (\<lambda>m. m\<lparr>pendingTaskLsr := None\<rparr>) s
      in if tstate (tasks s t) = K_TASK_STATE_DEFTICK_PENDING
         then (case deferredTicks (mach s) of
                 [] \<Rightarrow> K_DYNAMIC_ASSERT False s
               | d # ds \<Rightarrow> K_DYNAMIC_ASSERT (d = t) (upd_mach (\<lambda>m. m\<lparr>deferredTicks := ds\<rparr>) s))
         else s)"
  let ?s2 = "kTickTaskLoadNextState E t K_TASK_STATE_RUNNING s1"
  have ti: "tick_inv E c {} {} s" using inv by (simp add: kinv_def)
  note r = tick_inv_pending[OF ti p, simplified]
  note d = detach_interrupted[OF inv c p s1_def]
  have c1: "thisCpu s1 = c" using d cpu_step_cpu c by metis
  have l1: "live s1 c t" using d r(1) by (simp add: live_def)
  have tk: "tickable t s1"
  proof -
    have "tickable t s" by (rule kinv_tickable[OF inv r(1)]) (use r(2) in \<open>auto simp: TICKED_STATES_def DEFTICK_STATES_def\<close>)
    then show ?thesis by (rule tickable_same[rotated]) (use d in \<open>simp add: pol_same_def\<close>)
  qed
  have nolag: "\<not> lag (tick (tasks s t))" if "ttype (tasks s t) = K_TASK_THREAD"
    by (rule kinv_nolag[OF inv r(1) that])
  have 2: "kinv c {} {} ?s2" "cpu_step c s1 ?s2" "ttype (tasks ?s2 t) = ttype (tasks s t)"
      "gTickMachines ?s2 c = (gTickMachines s1 c)\<lparr>runningTask := Some t\<rparr>" "replenishNodes ?s2 = replenishNodes s1"
    using load_running_ok[OF conjunct1[OF d] c1 l1 _ _ _ tk] d r(2) nr nolag unfolding Let_def by simp_all
  have bud: "currentBudget (tick (tasks s t)) \<noteq> 0" if "ttype (tasks s t) = K_TASK_THREAD"
  proof -
    have "local_inv (idleAddr E) c False False t (tasks s t)" using ti r(1) by (simp add: tick_inv_def)
    moreover have "tstate (tasks s t) \<in> BUDGET_STATES"
      using r(2) by (auto simp: BUDGET_STATES_def DEFTICK_STATES_def)
    ultimately show ?thesis using that by (simp add: local_inv_def word_greater_zero_iff)
  qed
  have e: "resume_pending E t s = kTickReschedulingPoint E ?s2"
  proof -
    have a: "K_DYNAMIC_ASSERT (ttype (tasks s t) \<noteq> K_TASK_LSR) s = s"
      "(if ttype (tasks s t) = K_TASK_THREAD
        then K_DYNAMIC_ASSERT (currentBudget (tick (tasks s t)) \<noteq> 0) s else s) = s"
      using r(3) bud by (simp_all add: assert_holds)
    show ?thesis
      unfolding resume_pending_def a(1) Let_def[of s] a(2) s1_def unfolding Let_def by (rule refl)
  qed
  have c2: "thisCpu ?s2 = c" using cpu_step_cpu[OF 2(2)] c1 by simp
  have r2: "runningTask (gTickMachines ?s2 c) = Some t" using 2(4) by simp
  have ti2: "tick_inv E c {} {} ?s2" using 2(1) by (simp add: kinv_def)
  have nd: "\<not> throttle_due c t ?s2"
    by (rule kinv_not_due[OF 2(1)]) (use tick_inv_running[OF ti2 r2] in simp_all)
  have ro: "resched_ok c t ?s2 (kTickReschedulingPoint E ?s2)"
    by (rule kTickReschedulingPoint_ok[OF 2(1) c2 r2]) (use nd 2(4) d in simp_all)
  have t2: "timer_inv E c ?s2"
    by (rule timer_inv_same[OF _ _ tinv]) (use 2(4,5) d in simp_all)
  have st2: "cpu_step c s ?s2" using d cpu_step_trans[OF _ 2(2)] by blast
  have "kbound c (kTickReschedulingPoint E ?s2)"
    using ro t2 2(3,4) d ch r(3) by (auto simp: resched_ok_def kbound_def kmid_def)
  moreover have "cpu_step c ?s2 (kTickReschedulingPoint E ?s2)" using ro by (simp add: resched_ok_def)
  ultimately show ?thesis unfolding e using cpu_step_trans[OF st2] by blast
qed

lemma dispatch_next_ok:
  assumes inv: "kinv c {} {} s" and tinv: "timer_inv E c s" and c: "thisCpu s = c"
    and nr: "runningTask (gTickMachines s c) = None"
    and p: "pendingLsrChain (gTickMachines s c) = [] \<Longrightarrow> p = pendingTaskLsr (gTickMachines s c)"
  shows "kbound c (dispatch_next E p s) \<and> cpu_step c s (dispatch_next E p s)"
proof (cases "pendingLsrChain (gTickMachines s c)")
  case (Cons l ls)
  show ?thesis by (rule dispatch_lsr[OF inv tinv c nr Cons])
next
  case Nil
  show ?thesis
  proof (cases "pendingTaskLsr (gTickMachines s c)")
    case None
    have "dispatch_next E p s = run_next E s" using p[OF Nil] Nil None c by (simp add: dispatch_next_def)
    then show ?thesis using run_ok_bound[OF run_next_ok(1)[OF inv c nr None] tinv None Nil] by simp
  next
    case (Some t)
    have "dispatch_next E p s = resume_pending E t s" using p[OF Nil] Nil Some c by (simp add: dispatch_next_def)
    then show ?thesis using resume_pending_ok[OF inv tinv c nr Nil Some] by simp
  qed
qed

lemma kTickReschedule_ok:
  assumes m: "kmid c s" and c: "thisCpu s = c"
  shows "kbound c (kTickReschedule E s) \<and> cpu_step c s (kTickReschedule E s)"
proof -
  have inv: "kinv c {} {} s" and tinv: "timer_inv E c s" using m by (simp_all add: kmid_def)
  have ti: "tick_inv E c {} {} s" using inv by (simp add: kinv_def)
  show ?thesis
  proof (cases "runningTask (gTickMachines s c)")
    case None
    have "kTickReschedule E s = dispatch_next E (pendingTaskLsr (gTickMachines s c)) s"
      using None c by (simp add: kTickReschedule_def)
    then show ?thesis using dispatch_next_ok[OF inv tinv c None] by simp
  next
    case (Some t)
    note r = tick_inv_running[OF ti Some]
    show ?thesis
    proof (cases "ttype (tasks s t) = K_TASK_LSR \<or> pendingLsrChain (gTickMachines s c) = []")
      case True
      have "kTickReschedule E s = s"
        using Some r(2) True m c by (auto simp: kTickReschedule_def kmid_def)
      then show ?thesis using m Some True by (auto simp: kbound_def)
    next
      case False
      let ?s1 = "kTickTaskLoadNextState E t K_TASK_STATE_DEFTICK_PENDING (kTickPrepareLeaveRunningState s)"
      have pend: "pendingTaskLsr (gTickMachines s c) = None" using m Some False by (simp add: kmid_def)
      have so: "state_ok (ttype (tasks s t)) K_TASK_STATE_DEFTICK_PENDING"
        using r(1) False by (cases "ttype (tasks s t)") (auto simp: state_ok_def live_def)
      have 1: "kinv c {} {} ?s1" "cpu_step c s ?s1" "runningTask (gTickMachines ?s1 c) = None"
          "pendingLsrChain (gTickMachines ?s1 c) = pendingLsrChain (gTickMachines s c)" "timer_inv E c ?s1"
        using leave_load[OF inv c Some _ _ so] pend tinv unfolding Let_def by auto
      have c1: "thisCpu ?s1 = c" using cpu_step_cpu[OF 1(2)] c by simp
      have e: "kTickReschedule E s = dispatch_next E None ?s1"
        using Some r(2) False pend c by (simp add: kTickReschedule_def)
      have "kbound c (dispatch_next E None ?s1) \<and> cpu_step c ?s1 (dispatch_next E None ?s1)"
        by (rule dispatch_next_ok[OF 1(1,5) c1 1(3)]) (use 1(4) False in simp)
      then show ?thesis unfolding e using cpu_step_trans[OF 1(2)] by blast
    qed
  qed
qed

lemma kTickSwitchRunningTask_ok:
  assumes b: "kbound c s" and c: "thisCpu s = c" and t: "runningTask (gTickMachines s c) = Some t"
    and so: "state_ok (ttype (tasks s t)) ns"
    and ns: "ns \<in> {K_TASK_STATE_THREAD_DEFTICK_YIELD, K_TASK_STATE_THREAD_DEFTICK_THROTTLE,
      K_TASK_STATE_THREAD_DEFTICK_SLEEP, K_TASK_STATE_LSR_DORMANT, K_TASK_STATE_FAILURE}"
    and slp: "ns = K_TASK_STATE_THREAD_DEFTICK_SLEEP \<Longrightarrow> sleepTicks (tick (tasks s t)) > 0"
  shows "kbound c (kTickSwitchRunningTask E ns s) \<and> cpu_step c s (kTickSwitchRunningTask E ns s)"
proof -
  let ?s1 = "kTickTaskLoadNextState E t ns (kTickPrepareLeaveRunningState s)"
  have inv: "kinv c {} {} s" and tinv: "timer_inv E c s" using b by (simp_all add: kbound_def kmid_def)
  have pend: "pendingTaskLsr (gTickMachines s c) = None" if "ns \<in> DEFTICK_STATES"
  proof -
    have "ttype (tasks s t) \<noteq> K_TASK_LSR" using that so by (auto simp: state_ok_def DEFTICK_STATES_def)
    then show ?thesis using b t by (simp add: kbound_def kmid_def)
  qed
  have n: "ns \<noteq> K_TASK_STATE_RUNNING" "ns \<noteq> K_TASK_STATE_THREAD_SLEEP" "ns \<noteq> K_TASK_STATE_PENDING"
      "ns \<noteq> K_TASK_STATE_THREAD_THROTTLED"
    using ns by auto
  have 1: "kinv c {} {} ?s1" "cpu_step c s ?s1" "runningTask (gTickMachines ?s1 c) = None" "timer_inv E c ?s1"
    using leave_load[OF inv c t _ _ so n(1-3) pend slp] n(4) tinv unfolding Let_def by auto
  have c1: "thisCpu ?s1 = c" using cpu_step_cpu[OF 1(2)] c by simp
  have m1: "kmid c ?s1" using 1 by (simp add: kmid_def)
  have e: "kTickSwitchRunningTask E ns s = kTickReschedule E ?s1"
    using t c by (simp add: kTickSwitchRunningTask_def kTickGetRunningTask_def kTickGetMachine_def deref_def)
  show ?thesis unfolding e using kTickReschedule_ok[OF m1 c1] cpu_step_trans[OF 1(2)] by blast
qed

lemma push_current:
  assumes inv: "kinv c D {} s" and tinv: "timer_inv E c s" and c: "thisCpu s = c"
    and pl: "\<And>r. runningTask (gTickMachines s c) = Some r \<Longrightarrow> ttype (tasks s r) \<noteq> K_TASK_LSR \<Longrightarrow>
      pendingTaskLsr (gTickMachines s c) = None"
  shows "kinv c D {} (kTickLsrPushCurrent E s) \<and> cpu_step c s (kTickLsrPushCurrent E s)
    \<and> runningTask (gTickMachines (kTickLsrPushCurrent E s) c) = None \<and> timer_inv E c (kTickLsrPushCurrent E s)
    \<and> archLsrs (kTickLsrPushCurrent E s) = archLsrs s
    \<and> (\<forall>t. pendingTaskLsr (gTickMachines (kTickLsrPushCurrent E s) c) = Some t \<longrightarrow>
        pendingTaskLsr (gTickMachines s c) = Some t \<or> runningTask (gTickMachines s c) = Some t)
    \<and> (\<forall>u. runningTask (gTickMachines s c) \<noteq> Some u \<longrightarrow> tasks (kTickLsrPushCurrent E s) u = tasks s u)"
proof (cases "runningTask (gTickMachines s c)")
  case None then show ?thesis using inv tinv c by (simp add: kTickLsrPushCurrent_def)
next
  case (Some t)
  let ?ns = "if ttype (tasks s t) = K_TASK_LSR then K_TASK_STATE_LSR_PENDING else K_TASK_STATE_DEFTICK_PENDING"
  let ?s1 = "kTickTaskLoadNextState E t ?ns (kTickPrepareLeaveRunningState s)"
  have ti: "tick_inv E c D {} s" using inv by (simp add: kinv_def)
  note r = tick_inv_running[OF ti Some]
  have "local_inv (idleAddr E) c (t \<in> D) False t (tasks s t)" using ti r(1) by (simp add: tick_inv_def)
  then have so: "state_ok (ttype (tasks s t)) ?ns"
    by (cases "ttype (tasks s t)") (auto simp: state_ok_def local_inv_def)
  have pend: "?ns \<in> DEFTICK_STATES \<Longrightarrow> pendingTaskLsr (gTickMachines s c) = None"
    using pl[OF Some] by (auto simp: DEFTICK_STATES_def split: if_splits)
  have 1: "kinv c D {} ?s1" "cpu_step c s ?s1" "runningTask (gTickMachines ?s1 c) = None" "timer_inv E c ?s1"
      "archLsrs ?s1 = archLsrs s" "\<forall>u. u \<noteq> t \<longrightarrow> tasks ?s1 u = tasks s u"
      "pendingTaskLsr (gTickMachines ?s1 c) =
        (if ?ns = K_TASK_STATE_DEFTICK_PENDING then Some t else pendingTaskLsr (gTickMachines s c))"
    using leave_load[OF inv c Some _ _ so _ _ _ pend] tinv unfolding Let_def by auto
  have "kTickPrepareLeaveRunningState (K_DYNAMIC_ASSERT (tstate (tasks s t) = K_TASK_STATE_RUNNING) s)
      = kTickPrepareLeaveRunningState s" using r(2) by simp
  moreover have "tasks (kTickPrepareLeaveRunningState s) = tasks s"
    using Some c r(2) by (simp add: kTickPrepareLeaveRunningState_def kTickGetRunningTask_def kTickGetMachine_def)
  ultimately have e: "kTickLsrPushCurrent E s = ?s1"
    using Some c by (simp add: kTickLsrPushCurrent_def Let_def)
  show ?thesis unfolding e using 1 Some by (simp split: if_splits)
qed

text \<open>A dormant LSR that has been taken off the stack of its vector becomes pending.\<close>

lemma kTickLsrPush_ok:
  assumes inv: "kinv c {t} {} s" and tinv: "timer_inv E c s" and c: "thisCpu s = c" and t: "live s c t"
    and ty: "ttype (tasks s t) = K_TASK_LSR" "tstate (tasks s t) = K_TASK_STATE_LSR_DORMANT"
    and np: "pendingTaskLsr (gTickMachines s c) \<noteq> Some t"
  shows "let s' = kTickLsrPush E t s in kinv c {} {} s' \<and> cpu_step c s s' \<and> timer_inv E c s'
    \<and> gTickMachines s' c = (gTickMachines s c)\<lparr>pendingLsrChain := t # pendingLsrChain (gTickMachines s c)\<rparr>
    \<and> archLsrs s' = archLsrs s \<and> (\<forall>u. u \<noteq> t \<longrightarrow> tasks s' u = tasks s u)"
proof -
  let ?s' = "kTickTaskLoadNextState E t K_TASK_STATE_LSR_PENDING s"
  have ti: "tick_inv E c {t} {} s" using inv by (simp add: kinv_def)
  have pre: "attach_pre E t K_TASK_STATE_LSR_PENDING s"
    by (rule attach_preI[OF ti c t]) (use ty np state_sets in \<open>simp_all add: state_ok_def\<close>)
  have 1: "kinv c ({t} - {t}) ({} - {t}) ?s' \<and> cpu_step c s ?s' \<and> tick_same (load_core E t K_TASK_STATE_LSR_PENDING s) ?s'"
    by (rule kinv_load[OF inv c t _ pre]) (use ty in simp_all)
  have g: "gTickMachines (load_core E t K_TASK_STATE_LSR_PENDING s) c =
      (gTickMachines s c)\<lparr>pendingLsrChain := t # pendingLsrChain (gTickMachines s c)\<rparr>"
    using c by (simp add: load_core_def)
  have "timer_inv E c ?s'"
    by (rule timer_inv_same[OF _ _ tinv]) (use 1 g in \<open>simp_all add: tick_same_def load_core_replenishNodes\<close>)
  then show ?thesis
    using 1 g by (simp add: Let_def kTickLsrPush_def tick_same_def load_core_archLsrs load_core_tasks)
qed

end

end
