(* ===== verification/KernelInv.thy ===== *)
theory KernelInv
  imports Handlers TickSwitch
begin

text \<open>
  The invariant of the whole kernel: every online CPU satisfies the invariant of its tick machine
  between two events (\<open>kbound\<close>), the invocation stacks are well formed, and no fault has been
  recorded. Each handler keeps it, and leaves the tasks of the other CPUs as they are.
\<close>

subsection \<open>Domains\<close>

text \<open>The valid entry points of a domain are addresses that the CPU can return to.\<close>

definition entries_canonical :: "'p kstate \<Rightarrow> addr \<Rightarrow> bool" where
  "entries_canonical s d \<longleftrightarrow> (\<forall>ty ep. entry_point ty (invocationInfo (domains s d)) = Some ep \<longrightarrow> valid ep \<longrightarrow>
     IA32E_CANONICAL (entry_pc ep))"

definition known_domain :: "'p kstate \<Rightarrow> ptr \<Rightarrow> bool" where
  "known_domain s p \<longleftrightarrow> p \<in> range (domainTable s) - {None}"

text \<open>
  The domains of the table are canonical; the current domain of a task and the domains its stack
  returns to are in the table; the stack is well formed.
\<close>

definition task_domain_inv :: "nat \<Rightarrow> 'p kstate \<Rightarrow> kSchedTask \<Rightarrow> bool" where
  "task_domain_inv n s r \<longleftrightarrow> dom_ok n (tdomain r)
     \<and> (curDomain (tdomain r) \<noteq> None \<longrightarrow> known_domain s (curDomain (tdomain r)))
     \<and> (\<forall>e \<in> set (inv_stack (tdomain r)). known_domain s (invokingDomain e))"

definition domain_inv :: "'p kEnv \<Rightarrow> 'p kstate \<Rightarrow> bool" where
  "domain_inv E s \<longleftrightarrow> 0 < INVOCATION_DEPTH E \<and> INVOCATION_DEPTH E < 2 ^ 32
     \<and> (\<forall>i d. domainTable s i = Some d \<longrightarrow> entries_canonical s d)
     \<and> (\<forall>t. ttype (tasks s t) \<noteq> K_TASK_INVALID \<longrightarrow> task_domain_inv (INVOCATION_DEPTH E) s (tasks s t))"

lemma domain_inv_same:
  assumes "domain_inv E s" "domains s' = domains s" "domainTable s' = domainTable s"
    and "\<And>t. ttype (tasks s' t) = ttype (tasks s t) \<and> tdomain (tasks s' t) = tdomain (tasks s t)"
  shows "domain_inv E s'"
  using assms by (simp add: domain_inv_def entries_canonical_def task_domain_inv_def known_domain_def)

lemma domain_inv_task:
  assumes "domain_inv E s" "ttype (f (tasks s t)) = ttype (tasks s t)"
    and "ttype (tasks s t) \<noteq> K_TASK_INVALID \<Longrightarrow> task_domain_inv (INVOCATION_DEPTH E) s (f (tasks s t))"
  shows "domain_inv E (upd_task t f s)"
  using assms by (auto simp: domain_inv_def entries_canonical_def task_domain_inv_def known_domain_def)

lemma known_domain_canonical:
  assumes "domain_inv E s" "known_domain s (Some d)" "entry_point ty (invocationInfo (domains s d)) = Some ep" "valid ep"
  shows "IA32E_CANONICAL (entry_pc ep)"
proof -
  obtain i where "domainTable s i = Some d" using assms(2) by (auto simp: known_domain_def)
  then show ?thesis using assms unfolding domain_inv_def entries_canonical_def by blast
qed

subsection \<open>Changing the task of an address\<close>

definition task_same :: "kSchedTask \<Rightarrow> kSchedTask \<Rightarrow> bool" where
  "task_same r r' \<longleftrightarrow> ttype r' = ttype r \<and> threadTpr r' = threadTpr r \<and> cpuId r' = cpuId r \<and> tstate r' = tstate r \<and> lsrVector r' = lsrVector r
     \<and> tick r' = (tick r)\<lparr>sleepTicks := sleepTicks (tick r')\<rparr>
     \<and> (sleepTicks (tick r') = sleepTicks (tick r) \<or> 0 < sleepTicks (tick r'))
     \<and> (curDomain (tdomain r') = None) = (curDomain (tdomain r) = None)"

lemma task_same_refl [simp]: "task_same r r"
  by (simp add: task_same_def)

lemma tick_inv_task:
  assumes inv: "tick_inv E c D B s" and same: "task_same (tasks s t) (f (tasks s t))"
  shows "tick_inv E c D B (upd_task t f s)"
proof -
  let ?s = "upd_task t f s"
  have ts: "task_same (tasks s u) (tasks ?s u)" for u using same by simp
  then have eq: "ttype (tasks ?s u) = ttype (tasks s u)" "lsrVector (tasks ?s u) = lsrVector (tasks s u)"
      "cpuId (tasks ?s u) = cpuId (tasks s u)" for u
    by (simp_all add: task_same_def)
  have lv: "live ?s c u = live s c u" for u unfolding live_def eq by (rule refl)
  have tk: "period (tick r') = period (tick r) \<and> budget (tick r') = budget (tick r)
      \<and> currentBudget (tick r') = currentBudget (tick r) \<and> lag (tick r') = lag (tick r)"
    if "task_same r r'" for r r'
  proof -
    have e: "tick r' = (tick r)\<lparr>sleepTicks := sleepTicks (tick r')\<rparr>" using that by (simp add: task_same_def)
    show ?thesis by (subst (1 2 3 4) e) simp
  qed
  have p: "place_inv a M L d u r \<Longrightarrow> place_inv a M L d u r'" if "task_same r r'" for a M L d u r r'
    using that tk[OF that] by (cases a) (simp_all add: place_inv_def task_same_def)
  have l: "local_inv i c d b u r \<Longrightarrow> local_inv i c d b u r'" if "task_same r r'" for i d b u r r'
    using that tk[OF that] unfolding local_inv_def task_same_def by auto
  have "machine_inv s c" using inv by (simp add: tick_inv_def)
  then have "machine_inv ?s c" unfolding machine_inv_def Let_def lv eq by simp
  then show ?thesis
    using inv lv eq p[OF ts] l[OF ts] unfolding tick_inv_def by (simp del: upd_task_simps(1))
qed

context sched_policy
begin

lemma kinv_task:
  assumes inv: "kinv c D B s" and same: "task_same (tasks s t) (f (tasks s t))"
  shows "kinv c D B (upd_task t f s)"
proof (rule kinv_change[OF inv])
  show "tick_inv E c D B (upd_task t f s)" by (rule tick_inv_task[where f = f, OF _ same]) (use inv in \<open>simp add: kinv_def\<close>)
  show "pol_same s (upd_task t f s)" using same by (simp add: pol_same_def task_same_def)
  show "ready_set (upd_task t f s) c D = ready_set s c D"
    using same by (auto simp: ready_set_def live_def task_same_def)
  fix u assume "tstate (tasks (upd_task t f s) u) \<in> TICKED_STATES" "u \<notin> B"
  then show "tstate (tasks s u) \<in> TICKED_STATES \<and> u \<notin> B \<or> tickable u s"
    using same by (auto simp: task_same_def split: if_splits)
qed

lemma kbound_task:
  assumes b: "kbound c s" and same: "task_same (tasks s t) (f (tasks s t))"
  shows "kbound c (upd_task t f s)"
proof -
  have "kinv c {} {} (upd_task t f s)" using kinv_task[where f = f, OF _ same] b by (simp add: kbound_def kmid_def)
  moreover have "ttype (tasks (upd_task t f s) u) = ttype (tasks s u)" for u
    using same by (simp add: task_same_def)
  ultimately show ?thesis using b by (simp add: kbound_def kmid_def timer_inv_def del: upd_task_simps(1))
qed

text \<open>What the invariant does not look at.\<close>

lemma kmid_same:
  assumes "kmid c s" "pol s' = pol s" "tasks s' = tasks s" "gTickMachines s' = gTickMachines s"
    "archLsrs s' = archLsrs s" "replenishNodes s' = replenishNodes s" "sleepNodes s' = sleepNodes s"
    "gOpsInitialized s' = gOpsInitialized s"
  shows "kmid c s'"
proof -
  have ps: "pol_same s s'" using assms by (simp add: pol_same_def)
  have lv: "live s' c t = live s c t" for t using assms by (simp add: live_def)
  have "tick_inv E c {} {} s'"
    using assms lv unfolding kmid_def kinv_def tick_inv_def machine_inv_def Let_def by simp
  moreover have "ready_set s' c {} = ready_set s c {}" using assms by (simp add: ready_set_def live_def)
  ultimately have "kinv c {} {} s'"
    using assms lv pinv_same[OF ps] tickable_same[OF ps] known_same[OF ps] by (simp add: kmid_def kinv_def)
  then show ?thesis using assms by (simp add: kmid_def timer_inv_def)
qed

lemma kbound_same:
  assumes "kbound c s" "pol s' = pol s" "tasks s' = tasks s" "gTickMachines s' = gTickMachines s"
    "archLsrs s' = archLsrs s" "replenishNodes s' = replenishNodes s" "sleepNodes s' = sleepNodes s"
    "gOpsInitialized s' = gOpsInitialized s"
  shows "kbound c s'"
  using assms kmid_same[OF _ assms(2-8)] by (simp add: kbound_def)

lemma kbound_cpu [simp]: "kbound c (s\<lparr>thisCpu := x\<rparr>) = kbound c s"
  using kbound_same[of c s "s\<lparr>thisCpu := x\<rparr>"] kbound_same[of c "s\<lparr>thisCpu := x\<rparr>" s] by auto

lemma kbound_emit: "kbound c s \<Longrightarrow> kbound c (emit e s)"
  by (rule kbound_same) simp_all

text \<open>An operation on another CPU.\<close>

lemma kmid_other:
  assumes st: "cpu_step c s s'" and ne: "c' \<noteq> c" and b: "kmid c' s"
  shows "kmid c' s'"
proof -
  have fr: "cpu_frame c s s'" using st by (simp add: cpu_step_def)
  have k: "kinv c' {} {} s" using b by (simp add: kmid_def)
  have M: "gTickMachines s' c' = gTickMachines s c'" using fr ne by (simp add: cpu_frame_def)
  have ty: "ttype (tasks s' t) = ttype (tasks s t)" for t using cpu_step_ttype[OF st] .
  have "machine_inv s c'" using k by (simp add: kinv_def tick_inv_def)
  then have n: "replenishNodes s' t = replenishNodes s t"
    if "t \<in> set (chain_dq (replenishmentChain (gTickMachines s c')))" for t
    using that fr ne by (auto simp: machine_inv_def Let_def live_def cpu_frame_def)
  have tm: "chain_timers (replenishNodes s') (replenishmentChain (gTickMachines s c'))
      = chain_timers (replenishNodes s) (replenishmentChain (gTickMachines s c'))"
    unfolding chain_timers_def by (rule timers_cong) (simp add: n)
  have "epochs_ok (replenishNodes s') (replenishmentChain (gTickMachines s c'))"
    if "epochs_ok (replenishNodes s) (replenishmentChain (gTickMachines s c'))"
  proof -
    have "u \<in> set (chain_dq (replenishmentChain (gTickMachines s c')))"
      if "(u, r) \<in> set (chain_timers (replenishNodes s) (replenishmentChain (gTickMachines s c')))" for u r
      using that timers_fst_in unfolding chain_timers_def by fast
    then show ?thesis using that n unfolding epochs_ok_def tm by (fastforce simp: list_all_iff)
  qed
  then have "timer_inv E c' s'" using b tm M by (simp add: kmid_def timer_inv_def)
  then show ?thesis using kinv_frame[OF st ne k] b M ty by (simp add: kmid_def)
qed

lemma kbound_other:
  assumes st: "cpu_step c s s'" and ne: "c' \<noteq> c" and b: "kbound c' s"
  shows "kbound c' s'"
proof -
  have "cpu_frame c s s'" using st by (simp add: cpu_step_def)
  then have "gTickMachines s' c' = gTickMachines s c'" using ne by (simp add: cpu_frame_def)
  then show ?thesis using kmid_other[OF st ne] b cpu_step_ttype[OF st] by (simp add: kbound_def)
qed

subsection \<open>The invariant of the kernel\<close>

definition sys_inv :: "u32 set \<Rightarrow> 'p kstate \<Rightarrow> bool" where
  "sys_inv cs s \<longleftrightarrow> (\<forall>c \<in> cs. kbound c s) \<and> domain_inv E s \<and> faults s = []"

text \<open>What a handler on CPU \<open>c\<close> keeps: the tasks of the other CPUs, and every task's place.\<close>

definition sys_frame :: "u32 \<Rightarrow> 'p kstate \<Rightarrow> 'p kstate \<Rightarrow> bool" where
  "sys_frame c s s' \<longleftrightarrow> thisCpu s' = thisCpu s
     \<and> (\<forall>u. cpuId (tasks s u) \<noteq> c \<longrightarrow> tasks s' u = tasks s u)
     \<and> (\<forall>u. cpuId (tasks s' u) = cpuId (tasks s u) \<and> ttype (tasks s' u) = ttype (tasks s u))
     \<and> (\<forall>c'. c' \<noteq> c \<longrightarrow> gTickMachines s' c' = gTickMachines s c')
     \<and> domains s' = domains s \<and> domainTable s' = domainTable s \<and> kTasks s' = kTasks s
     \<and> (\<forall>u. lsrVector (tasks s' u) = lsrVector (tasks s u) \<and> threadTpr (tasks s' u) = threadTpr (tasks s u))
     \<and> gPluginsDone s' = gPluginsDone s \<and> reported c s s'"

lemma sys_frame_refl [simp]: "sys_frame c s s"
  by (simp add: sys_frame_def)

lemma sys_frame_trans: "sys_frame c s s' \<Longrightarrow> sys_frame c s' s'' \<Longrightarrow> sys_frame c s s''"
  using reported_trans[of c s s' s''] by (simp add: sys_frame_def)

lemma cpu_step_frame: "cpu_step c s s' \<Longrightarrow> sys_frame c s s'"
  by (simp add: cpu_step_def cpu_frame_def sys_frame_def static_same_def)

lemma domain_inv_step: "cpu_step c s s' \<Longrightarrow> domain_inv E s \<Longrightarrow> domain_inv E s'"
  using cpu_step_static[of c s s'] domain_inv_same[of E s s']
  by (simp add: cpu_step_def cpu_frame_def static_same_def)

text \<open>A step on a CPU that satisfies its invariant afterwards.\<close>

lemma sys_step:
  assumes inv: "sys_inv cs s" and st: "cpu_step c s s'" and b: "kbound c s'"
  shows "sys_inv cs s' \<and> sys_frame c s s'"
proof -
  have "kbound c' s'" if "c' \<in> cs" for c'
    using that inv kbound_other[OF st] b by (cases "c' = c") (auto simp: sys_inv_def)
  moreover have "domain_inv E s'" using domain_inv_step[OF st] inv by (simp add: sys_inv_def)
  moreover have "faults s' = []" using inv cpu_step_faults[OF st] by (simp add: sys_inv_def)
  ultimately show ?thesis using cpu_step_frame[OF st] by (simp add: sys_inv_def)
qed

lemma sys_task:
  assumes inv: "sys_inv cs s" and same: "task_same (tasks s t) (f (tasks s t))" and c: "cpuId (tasks s t) = c"
    and d: "task_domain_inv (INVOCATION_DEPTH E) s (f (tasks s t))"
    and cd: "curDomain (tdomain (f (tasks s t))) = curDomain (tdomain (tasks s t))"
  shows "sys_inv cs (upd_task t f s) \<and> sys_frame c s (upd_task t f s)"
proof -
  have "domain_inv E (upd_task t f s)"
    by (rule domain_inv_task[where f = f, OF _ _ d]) (use inv same in \<open>simp_all add: sys_inv_def task_same_def\<close>)
  moreover have "kbound c' (upd_task t f s)" if "c' \<in> cs" for c'
    using kbound_task[where f = f, OF _ same] inv that by (simp add: sys_inv_def)
  moreover have "reported c s (upd_task t f s)"
    by (rule quiet_reported) (use same cd in \<open>auto simp: quiet_def task_same_def running_def intro: exI[of _ "[]"]\<close>)
  ultimately show ?thesis using inv same c by (auto simp: sys_inv_def sys_frame_def task_same_def)
qed

lemma sys_emit: "still e \<Longrightarrow> sys_inv cs s \<Longrightarrow> sys_inv cs (emit e s) \<and> sys_frame c s (emit e s)"
  using domain_inv_same[of E s "emit e s"] kbound_emit quiet_reported[OF quiet_emit, of e c s]
  by (auto simp: sys_inv_def sys_frame_def)

text \<open>The running task moves to another domain: the page table of the new domain is loaded.\<close>

definition enter_domain :: "ptr \<Rightarrow> ptr \<Rightarrow> 'p kstate \<Rightarrow> 'p kstate" where
  "enter_domain a b s = (if a \<noteq> b then emit (EvEnterDomain (thisCpu s) a) s else s)"

lemma sys_enter:
  assumes inv: "sys_inv cs s" and same: "task_same (tasks s t) (f (tasks s t))" and c: "cpuId (tasks s t) = c"
    and d: "task_domain_inv (INVOCATION_DEPTH E) s (f (tasks s t))"
    and th: "thisCpu s = c" and rt: "runningTask (gTickMachines s c) = Some t"
    and a: "curDomain (tdomain (f (tasks s t))) = a" "curDomain (tdomain (tasks s t)) = b"
  shows "sys_inv cs (enter_domain a b (upd_task t f s)) \<and> sys_frame c s (enter_domain a b (upd_task t f s))"
proof -
  let ?s = "upd_task t f s" and ?s' = "enter_domain a b (upd_task t f s)"
  have "domain_inv E ?s"
    by (rule domain_inv_task[where f = f, OF _ _ d]) (use inv same in \<open>simp_all add: sys_inv_def task_same_def\<close>)
  moreover have "kbound c' ?s" if "c' \<in> cs" for c'
    using kbound_task[where f = f, OF _ same] inv that by (simp add: sys_inv_def)
  ultimately have i: "sys_inv cs ?s'"
    using domain_inv_same[of E ?s "emit e ?s" for e] kbound_emit inv by (auto simp: sys_inv_def enter_domain_def)
  let ?es = "if a \<noteq> b then [EvEnterDomain c a] else []"
  have r: "running ?s' = running s" "tasks ?s' = tasks ?s" "trace ?s' = rev ?es @ trace s"
    using th by (auto simp: enter_domain_def running_def fun_eq_iff)
  have "switched s ?s' ?es"
    unfolding switched_def r(1) paged_def r(2) using a same c rt by (auto simp: task_same_def running_def)
  moreover have "activated ?s' = activated s" using same by (auto simp: activated_def fun_eq_iff r(2) task_same_def)
  ultimately have "reported c s ?s'" unfolding reported_def using r(3) by (intro exI[of _ ?es]) simp
  then show ?thesis using i same c by (auto simp: sys_frame_def task_same_def enter_domain_def)
qed

end

end
