(* ===== verification/HandlerInv.thy ===== *)
theory HandlerInv
  imports KernelInv
begin

text \<open>
  Every handler keeps the invariant of the kernel: the tick, interrupts with LSRs, system calls,
  exceptions and the check on the way out of a system call.
\<close>

subsection \<open>Interrupts\<close>

lemma set_lsrs_fields [simp]:
  "archLsrs (set_lsrs c v ls s) = (archLsrs s)(c := (archLsrs s c)(v := ls))"
  "tasks (set_lsrs c v ls s) = tasks s" "gTickMachines (set_lsrs c v ls s) = gTickMachines s"
  "thisCpu (set_lsrs c v ls s) = thisCpu s" "pol (set_lsrs c v ls s) = pol s"
  "replenishNodes (set_lsrs c v ls s) = replenishNodes s" "sleepNodes (set_lsrs c v ls s) = sleepNodes s"
  "gOpsInitialized (set_lsrs c v ls s) = gOpsInitialized s" "faults (set_lsrs c v ls s) = faults s"
  "domains (set_lsrs c v ls s) = domains s" "domainTable (set_lsrs c v ls s) = domainTable s"
  "kTasks (set_lsrs c v ls s) = kTasks s" "gPluginsDone (set_lsrs c v ls s) = gPluginsDone s"
  "trace (set_lsrs c v ls s) = trace s"
  by (simp_all add: set_lsrs_def)

lemma tick_inv_dormant:
  assumes "tick_inv E c D B s" "t \<in> set (archLsrs s c v)"
  shows "live s c t" "ttype (tasks s t) = K_TASK_LSR" "lsrVector (tasks s t) = v"
    "tstate (tasks s t) = K_TASK_STATE_LSR_DORMANT" "t \<notin> D"
proof -
  show l: "live s c t" and ty: "ttype (tasks s t) = K_TASK_LSR" "lsrVector (tasks s t) = v"
    using assms by (auto simp: tick_inv_def machine_inv_def Let_def)
  have "place_inv (alg E) (gTickMachines s c) (archLsrs s c) (t \<in> D) t (tasks s t)"
    using assms l by (simp add: tick_inv_def)
  then show "tstate (tasks s t) = K_TASK_STATE_LSR_DORMANT" "t \<notin> D"
    using assms(2) ty by (auto simp: place_inv_def)
qed

lemma detach_dormant:
  assumes inv: "tick_inv E c D B s" and t: "archLsrs s c v = t # ts"
  shows "tick_inv E c (insert t D) B (set_lsrs c v ts s)"
proof -
  have tin: "t \<in> set (archLsrs s c v)" using t by simp
  note r = tick_inv_dormant[OF inv tin]
  have mi: "machine_inv s c" and p: "place_inv (alg E) (gTickMachines s c) (archLsrs s c) (t \<in> D) t (tasks s t)"
    and l: "local_inv (idleAddr E) c (t \<in> D) (t \<in> B) t (tasks s t)"
    using inv r(1) by (auto simp: tick_inv_def)
  have d: "distinct (t # ts)" using mi t unfolding machine_inv_def Let_def by metis
  show ?thesis
  proof (rule tick_inv_change[OF inv r(1)])
    show "machine_inv (set_lsrs c v ts s) c"
    proof -
      have a: "live s c u \<and> ttype (tasks s u) = K_TASK_LSR \<and> lsrVector (tasks s u) = v" if "u \<in> set ts" for u
        using tick_inv_dormant[OF inv, of u v] that t by simp
      have lv: "live (set_lsrs c v ts s) c u = live s c u" for u by (simp add: live_def)
      have A: "live s c u \<and> ttype (tasks s u) = K_TASK_LSR \<and> lsrVector (tasks s u) = w"
        if "u \<in> set (archLsrs (set_lsrs c v ts s) c w)" for u w
      proof (cases "w = v")
        case True then show ?thesis using that a by simp
      next
        case False
        then have "u \<in> set (archLsrs s c w)" using that by simp
        from tick_inv_dormant(1-3)[OF inv this] show ?thesis by simp
      qed
      have D: "distinct (archLsrs (set_lsrs c v ts s) c w)" for w
        using mi d by (cases "w = v") (simp_all add: machine_inv_def Let_def)
      have "\<forall>w. \<forall>u \<in> set (archLsrs (set_lsrs c v ts s) c w).
          live s c u \<and> ttype (tasks s u) = K_TASK_LSR \<and> lsrVector (tasks s u) = w"
        "\<forall>w. distinct (archLsrs (set_lsrs c v ts s) c w)"
        using A D by blast+
      then show ?thesis using mi unfolding machine_inv_def Let_def lv set_lsrs_fields(2-7) by blast
    qed
    show "place_inv (alg E) (gTickMachines (set_lsrs c v ts s) c) (archLsrs (set_lsrs c v ts s) c)
        (t \<in> insert t D) t (tasks (set_lsrs c v ts s) t)"
      using p r d state_sets(3) by (cases "alg E") (simp_all add: place_inv_def)
    show "local_inv (idleAddr E) c (t \<in> insert t D) (t \<in> B) t (tasks (set_lsrs c v ts s) t)"
      using l r by (simp add: local_inv_def)
    fix u assume "u \<noteq> t" "place_inv (alg E) (gTickMachines s c) (archLsrs s c) (u \<in> D) u (tasks s u)"
    then show "place_inv (alg E) (gTickMachines (set_lsrs c v ts s) c) (archLsrs (set_lsrs c v ts s) c) (u \<in> D) u (tasks s u)"
      using t by (cases "lsrVector (tasks s u) = v") (simp_all add: place_inv_def)
  next
    show "(u \<in> insert t D) = (u \<in> D)" if "u \<noteq> t" for u using that by simp
  qed (use inv in \<open>simp_all add: tick_inv_def\<close>)
qed

lemma dormant_not_pending:
  assumes "tick_inv E c D B s" "t \<in> set (archLsrs s c v)"
  shows "pendingTaskLsr (gTickMachines s c) \<noteq> Some t"
proof -
  note r = tick_inv_dormant[OF assms]
  have "place_inv (alg E) (gTickMachines s c) (archLsrs s c) (t \<in> D) t (tasks s t)"
    using assms(1) r(1) by (simp add: tick_inv_def)
  then show ?thesis using r(4,5) by (simp add: place_inv_def)
qed

context sched_policy
begin

text \<open>One round of the loop.\<close>

lemma lsr_round:
  assumes inv: "kinv c {} {} s" and tinv: "timer_inv E c s" and c: "thisCpu s = c"
    and pl: "\<And>r. runningTask (gTickMachines s c) = Some r \<Longrightarrow> ttype (tasks s r) \<noteq> K_TASK_LSR \<Longrightarrow>
      pendingTaskLsr (gTickMachines s c) = None"
    and nr: "pushed \<Longrightarrow> runningTask (gTickMachines s c) = None"
    and t: "archLsrs s c v = t # ts"
    and s': "s' = (let s = set_lsrs (thisCpu s) v ts s;
                  s = (if \<not> pushed then kLsrHandler E K_LSR_OP_PUSH_CURRENT None s else s);
                  s = K_DYNAMIC_ASSERT (ttype (tasks s t) = K_TASK_LSR) s;
                  s = K_DYNAMIC_ASSERT (tstate (tasks s t) = K_TASK_STATE_LSR_DORMANT) s
              in kLsrHandler E K_LSR_OP_PUSH (Some t) s)"
  shows "kinv c {} {} s' \<and> timer_inv E c s' \<and> cpu_step c s s' \<and> runningTask (gTickMachines s' c) = None
    \<and> archLsrs s' = (archLsrs s)(c := (archLsrs s c)(v := ts))
    \<and> opt_hd (pendingLsrChain (gTickMachines s' c)) = Some t"
proof -
  let ?s1 = "set_lsrs c v ts s"
  let ?s2 = "if \<not> pushed then kTickLsrPushCurrent E ?s1 else ?s1"
  have ti: "tick_inv E c {} {} s" using inv by (simp add: kinv_def)
  have tin: "t \<in> set (archLsrs s c v)" using t by simp
  note r = tick_inv_dormant[OF ti tin]
  have ps1: "pol_same s ?s1" by (simp add: pol_same_def)
  have k1: "kinv c {t} {} ?s1"
    by (rule kinv_change[OF inv _ ps1])
      (use detach_dormant[OF ti t] r in \<open>auto simp: ready_set_def live_def\<close>)
  have st1: "cpu_step c s ?s1" by (rule pol_same_step[OF ps1 quiet_same]) (simp_all add: cpu_frame_def)
  have t1: "timer_inv E c ?s1" using tinv by (simp add: timer_inv_def)
  have c1: "thisCpu ?s1 = c" using c by simp
  have pl1: "pendingTaskLsr (gTickMachines ?s1 c) = None"
    if "runningTask (gTickMachines ?s1 c) = Some r" "ttype (tasks ?s1 r) \<noteq> K_TASK_LSR" for r
    using pl[of r] that by simp
  have np: "pendingTaskLsr (gTickMachines s c) \<noteq> Some t" "runningTask (gTickMachines s c) \<noteq> Some t"
    using dormant_not_pending[OF ti tin] tick_inv_running(2)[OF ti, of t] r(4) by auto
  have k2: "kinv c {t} {} ?s2 \<and> cpu_step c ?s1 ?s2 \<and> runningTask (gTickMachines ?s2 c) = None
      \<and> timer_inv E c ?s2 \<and> archLsrs ?s2 = archLsrs ?s1 \<and> pendingTaskLsr (gTickMachines ?s2 c) \<noteq> Some t
      \<and> tasks ?s2 t = tasks s t"
  proof (cases pushed)
    case True then show ?thesis using k1 t1 nr np by simp
  next
    case False
    then show ?thesis using push_current[OF k1 t1 c1] pl1 np by simp blast
  qed
  then have ti2: "tick_inv E c {t} {} ?s2" by (simp add: kinv_def)
  have st2: "static_same (tasks s t) (tasks ?s2 t)"
    using cpu_step_static[OF cpu_step_trans[OF st1], of ?s2 t] k2 by blast
  have ty2: "ttype (tasks ?s2 t) = K_TASK_LSR" "live ?s2 c t"
    using st2 r(1,2) by (auto simp: static_same_def live_def)
  have dm2: "tstate (tasks ?s2 t) = K_TASK_STATE_LSR_DORMANT"
    using k2 r(4) by simp
  have c2: "thisCpu ?s2 = c" using k2 cpu_step_cpu c1 by metis
  note p = kTickLsrPush_ok[where s = ?s2 and t = t and c = c, unfolded Let_def]
  have e: "s' = kTickLsrPush E t ?s2"
    using c ty2(1) dm2 unfolding s' by (cases pushed) (simp_all add: kLsrHandler_def deref_def Let_def)
  show ?thesis
    unfolding e using p k2 c2 ty2 dm2 cpu_step_trans[OF cpu_step_trans[OF st1]] by auto
qed

declare lsr_loop.simps [simp del]

lemma lsr_loop_ok:
  assumes "kinv c {} {} s" "timer_inv E c s" "thisCpu s = c"
    and "\<And>r. runningTask (gTickMachines s c) = Some r \<Longrightarrow> ttype (tasks s r) \<noteq> K_TASK_LSR \<Longrightarrow>
      pendingTaskLsr (gTickMachines s c) = None"
    and "pushed \<Longrightarrow> runningTask (gTickMachines s c) = None" "length (archLsrs s c v) \<le> n"
    and "lsr_loop E v n pushed s = (p, s')"
  shows "kinv c {} {} s' \<and> timer_inv E c s' \<and> cpu_step c s s' \<and> p = (pushed \<or> archLsrs s c v \<noteq> [])
    \<and> (p \<longrightarrow> runningTask (gTickMachines s' c) = None) \<and> (archLsrs s c v = [] \<longrightarrow> s' = s) \<and> archLsrs s' c v = []
    \<and> (archLsrs s c v \<noteq> [] \<longrightarrow> opt_hd (pendingLsrChain (gTickMachines s' c)) = Some (last (archLsrs s c v)))"
  using assms
proof (induction n arbitrary: s pushed)
  case 0
  then show ?case by (simp add: lsr_loop.simps[of _ _ 0])
next
  case (Suc n s pushed)
  show ?case
  proof (cases "archLsrs s c v")
    case Nil
    then show ?thesis using Suc.prems by (auto simp: lsr_loop.simps[of _ _ "Suc n"])
  next
    case (Cons t ts)
    define s1 where "s1 = (let s = set_lsrs (thisCpu s) v ts s;
                  s = (if \<not> pushed then kLsrHandler E K_LSR_OP_PUSH_CURRENT None s else s);
                  s = K_DYNAMIC_ASSERT (ttype (tasks s t) = K_TASK_LSR) s;
                  s = K_DYNAMIC_ASSERT (tstate (tasks s t) = K_TASK_STATE_LSR_DORMANT) s
              in kLsrHandler E K_LSR_OP_PUSH (Some t) s)"
    have r: "kinv c {} {} s1 \<and> timer_inv E c s1 \<and> cpu_step c s s1 \<and> runningTask (gTickMachines s1 c) = None
        \<and> archLsrs s1 = (archLsrs s)(c := (archLsrs s c)(v := ts))
        \<and> opt_hd (pendingLsrChain (gTickMachines s1 c)) = Some t"
      by (rule lsr_round[OF Suc.prems(1-3) _ Suc.prems(5) Cons s1_def]) (rule Suc.prems(4))
    have e: "lsr_loop E v n True s1 = (p, s')"
      using Suc.prems(7) Cons Suc.prems(3) unfolding s1_def Let_def lsr_loop.simps[of _ _ "Suc n"]
      by (cases pushed) simp_all
    have c1: "thisCpu s1 = c" using r cpu_step_cpu Suc.prems(3) by metis
    have "kinv c {} {} s' \<and> timer_inv E c s' \<and> cpu_step c s1 s' \<and> p = (True \<or> archLsrs s1 c v \<noteq> [])
        \<and> (p \<longrightarrow> runningTask (gTickMachines s' c) = None) \<and> (archLsrs s1 c v = [] \<longrightarrow> s' = s1) \<and> archLsrs s' c v = []
        \<and> (archLsrs s1 c v \<noteq> [] \<longrightarrow> opt_hd (pendingLsrChain (gTickMachines s' c)) = Some (last (archLsrs s1 c v)))"
      by (rule Suc.IH[OF _ _ c1 _ _ _ e]) (use r Suc.prems(6) Cons in simp_all)
    then show ?thesis using r cpu_step_trans[of c s s1 s'] Cons by auto
  qed
qed

theorem ia32eIsrExternalHandler_ok:
  assumes b: "kbound c s" and c: "thisCpu s = c"
  shows "kbound c (ia32eIsrExternalHandler E h v s) \<and> cpu_step c s (ia32eIsrExternalHandler E h v s)"
    and "h \<Longrightarrow> archLsrs s c v \<noteq> [] \<Longrightarrow>
      runningTask (gTickMachines (ia32eIsrExternalHandler E h v s) c) = Some (last (archLsrs s c v))"
proof -
  obtain p s' where l: "lsr_loop E v (length (archLsrs s c v)) False s = (p, s')" by fastforce
  have k: "kinv c {} {} s" "timer_inv E c s" using b by (simp_all add: kbound_def kmid_def)
  have o: "kinv c {} {} s' \<and> timer_inv E c s' \<and> cpu_step c s s' \<and> p = (False \<or> archLsrs s c v \<noteq> [])
      \<and> (p \<longrightarrow> runningTask (gTickMachines s' c) = None) \<and> (archLsrs s c v = [] \<longrightarrow> s' = s) \<and> archLsrs s' c v = []
      \<and> (archLsrs s c v \<noteq> [] \<longrightarrow> opt_hd (pendingLsrChain (gTickMachines s' c)) = Some (last (archLsrs s c v)))"
    by (rule lsr_loop_ok[OF k c _ _ order_refl l]) (use b in \<open>simp_all add: kbound_def kmid_def\<close>)
  have e: "ia32eIsrExternalHandler E h v s = (if h then if p then kTickReschedule E s' else s' else s)"
    using l c by (simp add: ia32eIsrExternalHandler_def kLsrHandler_def)
  have c': "thisCpu s' = c" using o cpu_step_cpu c by metis
  show "kbound c (ia32eIsrExternalHandler E h v s) \<and> cpu_step c s (ia32eIsrExternalHandler E h v s)"
  proof (cases "h \<and> p")
    case False then show ?thesis using e o b by auto
  next
    case True
    then have m: "kmid c s'" using o by (simp add: kmid_def)
    show ?thesis using kTickReschedule_ok[OF m c'] cpu_step_trans[of c s s'] o True e by auto
  qed
  show "runningTask (gTickMachines (ia32eIsrExternalHandler E h v s) c) = Some (last (archLsrs s c v))"
    if h and ne: "archLsrs s c v \<noteq> []"
  proof -
    obtain ls where ch: "pendingLsrChain (gTickMachines s' c) = last (archLsrs s c v) # ls"
      using o ne by (cases "pendingLsrChain (gTickMachines s' c)") auto
    have nr: "runningTask (gTickMachines s' c) = None" using o ne by blast
    have "kTickReschedule E s' = dispatch_next E (pendingTaskLsr (gTickMachines s' c)) s'"
      using nr c' by (simp add: kTickReschedule_def)
    moreover have "runningTask (gTickMachines (dispatch_next E (pendingTaskLsr (gTickMachines s' c)) s') c)
        = Some (last (archLsrs s c v))"
      using dispatch_lsr(2)[OF _ _ c' nr ch] o by blast
    ultimately show ?thesis using e o that by simp
  qed
qed

subsection \<open>The running task\<close>

text \<open>A handler runs on CPU \<open>c\<close> on behalf of a task other than the idle task.\<close>

definition on_behalf :: "u32 set \<Rightarrow> u32 \<Rightarrow> addr \<Rightarrow> 'p kstate \<Rightarrow> bool" where
  "on_behalf cs c t s \<longleftrightarrow> sys_inv cs s \<and> c \<in> cs \<and> thisCpu s = c
     \<and> runningTask (gTickMachines s c) = Some t \<and> ttype (tasks s t) \<noteq> K_TASK_IDLE"

definition sys_ok :: "u32 set \<Rightarrow> u32 \<Rightarrow> 'p kstate \<Rightarrow> 'p kstate \<Rightarrow> bool" where
  "sys_ok cs c s s' \<longleftrightarrow> sys_inv cs s' \<and> sys_frame c s s'"

lemma on_behalf_D:
  assumes "on_behalf cs c t s"
  shows "sys_inv cs s" "kbound c s" "thisCpu s = c" "kTickGetRunningTask s = Some t" "live s c t"
    "ttype (tasks s t) \<noteq> K_TASK_INVALID" "cpuId (tasks s t) = c" "tstate (tasks s t) = K_TASK_STATE_RUNNING"
    "curDomain (tdomain (tasks s t)) \<noteq> None" "task_domain_inv (INVOCATION_DEPTH E) s (tasks s t)"
    "domain_inv E s" "dom_ok (INVOCATION_DEPTH E) (tdomain (tasks s t))" "sys_ok cs c s s"
    "runningTask (gTickMachines s c) = Some t" "ttype (tasks s t) = K_TASK_THREAD \<or> ttype (tasks s t) = K_TASK_LSR"
    "known_domain s (curDomain (tdomain (tasks s t)))"
proof -
  show b: "sys_inv cs s" "kbound c s" "thisCpu s = c" "kTickGetRunningTask s = Some t" "sys_ok cs c s s"
      "runningTask (gTickMachines s c) = Some t" and d: "domain_inv E s"
    using assms by (auto simp: on_behalf_def sys_inv_def sys_ok_def kTickGetRunningTask_def kTickGetMachine_def)
  have ti: "tick_inv E c {} {} s" using b(2) by (simp add: kbound_def kmid_def kinv_def)
  have t: "runningTask (gTickMachines s c) = Some t" using assms by (simp add: on_behalf_def)
  note r = tick_inv_running[OF ti t]
  show l: "live s c t" and "tstate (tasks s t) = K_TASK_STATE_RUNNING" using r by simp_all
  then show v: "ttype (tasks s t) \<noteq> K_TASK_INVALID" and "cpuId (tasks s t) = c" by (simp_all add: live_def)
  then show "ttype (tasks s t) = K_TASK_THREAD \<or> ttype (tasks s t) = K_TASK_LSR"
    using assms by (cases "ttype (tasks s t)") (simp_all add: on_behalf_def)
  have "local_inv (idleAddr E) c False False t (tasks s t)" using ti l by (simp add: tick_inv_def)
  then show cd: "curDomain (tdomain (tasks s t)) \<noteq> None" using assms by (simp add: local_inv_def on_behalf_def)
  show td: "task_domain_inv (INVOCATION_DEPTH E) s (tasks s t)" using d v by (simp add: domain_inv_def)
  then show "dom_ok (INVOCATION_DEPTH E) (tdomain (tasks s t))" by (simp add: task_domain_inv_def)
  show "known_domain s (curDomain (tdomain (tasks s t)))" using td cd by (simp add: task_domain_inv_def)
qed

lemma sys_ok_emit: "still e \<Longrightarrow> sys_ok cs c s s' \<Longrightarrow> sys_ok cs c s (emit e s')"
  using sys_emit[where cs = cs and s = s' and c = c and e = e] sys_frame_trans[of c s s'] by (auto simp: sys_ok_def)

lemma sys_ok_step: "sys_inv cs s \<Longrightarrow> kbound c s' \<and> cpu_step c s s' \<Longrightarrow> sys_ok cs c s s'"
  using sys_step[of cs s c s'] by (simp add: sys_ok_def)

lemma sys_ok_trans: "sys_ok cs c s s' \<Longrightarrow> sys_ok cs c s' s'' \<Longrightarrow> sys_ok cs c s s''"
  using sys_frame_trans by (auto simp: sys_ok_def)

lemma with_running_eq: "on_behalf cs c t s \<Longrightarrow> with_running f s = f t s"
  using on_behalf_D(4) by (simp add: with_running_def)

subsection \<open>Invocations\<close>

lemma push_ok:
  assumes ob: "on_behalf cs c t s" and d: "known_domain s (Some d)" and e: "0 \<le> sint err"
    and p: "kDomainPushInvocationEntry E (Some d) ty ret vm err s = (r, s')"
  shows "(\<forall>er. r = Inl er \<longrightarrow> s' = s)
    \<and> (\<forall>pc. r = Inr pc \<longrightarrow> IA32E_CANONICAL pc
         \<and> sys_ok cs c s (enter_domain (Some d) (curDomain (tdomain (tasks s t))) s'))"
proof -
  note D = on_behalf_D[OF ob]
  let ?e = "\<lparr>invokingDomain = curDomain (tdomain (tasks s t)), invType = ty,
                  returnAddress = ret, vmemFaultAddress = vm, errorCode = err\<rparr>"
  have n: "0 < INVOCATION_DEPTH E" "INVOCATION_DEPTH E < 2 ^ 32" using D(11) by (simp_all add: domain_inv_def)
  note eq = kDomainPush_cases[OF D(4,12), of d ty ret vm err]
  show ?thesis
  proof (cases "\<exists>er. r = Inl er")
    case True
    then have "s' = s" using eq p by (auto split: if_splits option.splits)
    then show ?thesis using True D(13) by auto
  next
    case False
    then obtain ep where ep: "unat (invocationStackDepth (tdomain (tasks s t))) \<noteq> INVOCATION_DEPTH E"
        "entry_point ty (invocationInfo (domains s d)) = Some ep" "valid ep" "r = Inr (entry_pc ep)"
        "s' = upd_task t (upd_domain (push_entry (Some d) ?e)) s"
      using eq p by (auto split: if_splits option.splits)
    have ty: "ty \<noteq> K_INVOCATION_INVALID" using ep(2) by (auto simp: entry_point_def)
    have lt: "unat (invocationStackDepth (tdomain (tasks s t))) < INVOCATION_DEPTH E"
      using ep(1) D(12) by (simp add: dom_ok_def)
    have st: "inv_stack (push_entry (Some d) ?e (tdomain (tasks s t))) = inv_stack (tdomain (tasks s t)) @ [?e]"
      by (rule push_entry_stack) (use lt n in simp)
    have "dom_ok (INVOCATION_DEPTH E) (push_entry (Some d) ?e (tdomain (tasks s t)))"
      by (rule push_entry_ok[OF D(12) lt n(2)]) (use D(9) ty e in simp_all)
    then have td: "task_domain_inv (INVOCATION_DEPTH E) s (upd_domain (push_entry (Some d) ?e) (tasks s t))"
      using D(10,16) d st by (auto simp: task_domain_inv_def)
    let ?s' = "enter_domain (Some d) (curDomain (tdomain (tasks s t))) s'"
    have "sys_inv cs ?s' \<and> sys_frame c s ?s'"
      unfolding ep(5) by (rule sys_enter[where f = "upd_domain (push_entry (Some d) ?e)", OF D(1) _ D(7) td D(3,14)])
        (use D(9) in \<open>simp_all add: task_same_def\<close>)
    moreover have "IA32E_CANONICAL (entry_pc ep)" by (rule known_domain_canonical[OF D(11) d ep(2,3)])
    ultimately show ?thesis using ep(4) by (simp add: sys_ok_def)
  qed
qed

lemma pop_ok:
  assumes ob: "on_behalf cs c t s" and p: "kDomainPopInvocationEntry s = (r, s')"
  shows "(\<forall>er. r = Inl er \<longrightarrow> s' = s) \<and> (\<forall>pc newD. r = Inr (pc, newD) \<longrightarrow>
    sys_ok cs c s (enter_domain newD (curDomain (tdomain (tasks s t))) s'))"
proof (cases "invocationStackDepth (tdomain (tasks s t)) = 0")
  case True
  then show ?thesis using p on_behalf_D(4,13)[OF ob] by (auto simp: kDomainPopInvocationEntry_def)
next
  case False
  note D = on_behalf_D[OF ob]
  have e: "s' = upd_task t (upd_domain pop_entry) s" "\<forall>er. r \<noteq> Inl er"
      "\<forall>pc newD. r = Inr (pc, newD) \<longrightarrow> newD = curDomain (pop_entry (tdomain (tasks s t)))"
    using p D(4) False by (auto simp: kDomainPopInvocationEntry_def Let_def pop_entry_def)
  note ok = pop_entry_ok[OF D(12) False] and st = pop_entry_stack[OF False]
  have cur: "curDomain (pop_entry (tdomain (tasks s t))) \<in> invokingDomain ` set (inv_stack (tdomain (tasks s t)))"
    using st by (simp add: image_iff)
  have sub: "set (inv_stack (pop_entry (tdomain (tasks s t)))) \<subseteq> set (inv_stack (tdomain (tasks s t)))"
    using st(1) by (metis Un_upper1 set_append)
  have td: "task_domain_inv (INVOCATION_DEPTH E) s (upd_domain pop_entry (tasks s t))"
    using D(10) ok cur sub by (auto simp: task_domain_inv_def)
  let ?s' = "enter_domain (curDomain (pop_entry (tdomain (tasks s t)))) (curDomain (tdomain (tasks s t))) s'"
  have "sys_inv cs ?s' \<and> sys_frame c s ?s'"
    unfolding e(1) by (rule sys_enter[where f = "upd_domain pop_entry", OF D(1) _ D(7) td D(3,14)])
      (use D(9) ok in \<open>auto simp: task_same_def\<close>)
  then show ?thesis using e(2,3) unfolding sys_ok_def by blast
qed

lemma enter_if_new_ok: "sys_ok cs c s (enter_domain a b s') \<Longrightarrow> sys_ok cs c s (snd (enter_if_new a b pc s'))"
  by (simp add: enter_if_new_def Let_def sys_ok_emit flip: enter_domain_def)

lemma kInvocationCtrlDoReturn_ok:
  assumes ob: "on_behalf cs c t s" shows "sys_ok cs c s (snd (kInvocationCtrlDoReturn s))"
proof -
  obtain r s' where p: "kDomainPopInvocationEntry s = (r, s')" by fastforce
  show ?thesis using pop_ok[OF ob p] p enter_if_new_ok on_behalf_D(13)[OF ob]
    by (auto simp: kInvocationCtrlDoReturn_def with_running_eq[OF ob] split: sum.splits)
qed

lemma kInvocationCtrlDoIpc_ok:
  assumes ob: "on_behalf cs c t s" shows "sys_ok cs c s (snd (kInvocationCtrlDoIpc E rip did s))"
proof -
  note D = on_behalf_D[OF ob]
  obtain i where i: "curDomain (tdomain (tasks s t)) = Some i" using D(9) by blast
  show ?thesis
  proof (cases "may_invoke E (ucast did) i s")
    case False
    then show ?thesis using i D(13)
      by (simp add: kInvocationCtrlDoIpc_def with_running_eq[OF ob] authenticate_may_invoke)
  next
    case True
    then obtain d where d: "kDomainUniverseGet E (ucast did) s = Some d" by (auto simp: may_invoke_def)
    then have k: "known_domain s (Some d)"
      by (auto simp: kDomainUniverseGet_def known_domain_def image_iff split: if_splits) (metis)
    obtain r s' where p: "kDomainPushInvocationEntry E (Some d) K_INVOCATION_IPC rip 0 0 s = (r, s')" by fastforce
    show ?thesis using push_ok[OF ob k _ p] p True d i enter_if_new_ok D(13)
      by (auto simp: kInvocationCtrlDoIpc_def with_running_eq[OF ob] authenticate_may_invoke split: sum.splits)
  qed
qed

text \<open>The functions that read the top entry.\<close>

lemma with_entry_ok:
  assumes ob: "on_behalf cs c t s"
    and f: "\<And>i. i < unat (invocationStackDepth (tdomain (tasks s t))) \<Longrightarrow>
      invocationStack (tdomain (tasks s t)) i \<in> set (inv_stack (tdomain (tasks s t))) \<Longrightarrow>
      sys_ok cs c s (snd (f (t, i) (invocationStack (tdomain (tasks s t)) i) s))"
  shows "sys_ok cs c s (snd (with_entry f s))"
proof (cases "invocationStackDepth (tdomain (tasks s t)) = 0")
  case True
  then show ?thesis using on_behalf_D(4,13)[OF ob] by (simp add: with_entry_def kDomainReadInvocationEntry_def)
next
  case False
  let ?i = "unat (invocationStackDepth (tdomain (tasks s t)) - 1)"
  have i: "?i < unat (invocationStackDepth (tdomain (tasks s t)))"
    using unat_minus_one[OF False] False by (simp add: unat_gt_0)
  have "with_entry f s = f (t, ?i) (invocationStack (tdomain (tasks s t)) ?i) s"
    using on_behalf_D(4)[OF ob] False
    by (simp add: with_entry_def kDomainReadInvocationEntry_def Let_def stack_entry_def)
  then show ?thesis using f[OF i] i by (simp add: inv_stack_def)
qed

lemma set_return_fields [simp]:
  "curDomain (set_return i a d) = curDomain d" "invocationStackDepth (set_return i a d) = invocationStackDepth d"
  "invocationStack (set_return i a d) j =
    (if j = i then (invocationStack d i)\<lparr>returnAddress := a\<rparr> else invocationStack d j)"
  by (simp_all add: set_return_def)

lemma kInvocationCtrlSetReturnAddress_ok:
  assumes ob: "on_behalf cs c t s" shows "sys_ok cs c s (snd (kInvocationCtrlSetReturnAddress a s))"
  unfolding kInvocationCtrlSetReturnAddress_def
proof (rule with_entry_ok[OF ob])
  fix i assume i: "i < unat (invocationStackDepth (tdomain (tasks s t)))"
  note D = on_behalf_D[OF ob]
  let ?d = "tdomain (tasks s t)"
  have "\<forall>e \<in> set (inv_stack (set_return i a ?d)). \<exists>e' \<in> set (inv_stack ?d).
      invokingDomain e = invokingDomain e' \<and> invType e = invType e' \<and> errorCode e = errorCode e'"
    by (auto simp: inv_stack_def)
  then have td: "task_domain_inv (INVOCATION_DEPTH E) s (upd_domain (set_return i a) (tasks s t))"
    using D(10) unfolding task_domain_inv_def dom_ok_def by (fastforce simp: inv_stack_length)
  have "sys_inv cs (upd_task t (upd_domain (set_return i a)) s) \<and> sys_frame c s (upd_task t (upd_domain (set_return i a)) s)"
    by (rule sys_task[where f = "upd_domain (set_return i a)", OF D(1) _ D(7) td]) (simp_all add: task_same_def)
  then show "sys_ok cs c s (snd (if invType (invocationStack ?d i) = K_INVOCATION_IPC then (neg_errno EINVAL, s)
      else (0, upd_task (fst (t, i)) (upd_domain (set_return (snd (t, i)) a)) s)))"
    using D(13) by (simp add: sys_ok_def)
qed

lemma kSysInvocationCtrl_ok:
  assumes ob: "on_behalf cs c t s" shows "sys_ok cs c s (snd (kSysInvocationCtrl E rip ctrl val s))"
proof -
  note D = on_behalf_D[OF ob]
  have entry: "invokingDomain e \<noteq> None \<and> invType e \<noteq> K_INVOCATION_INVALID \<and> 0 \<le> sint (errorCode e)"
    if "e \<in> set (inv_stack (tdomain (tasks s t)))" for e
    using D(12) that by (auto simp: dom_ok_def)
  have "sys_ok cs c s (snd (kInvocationCtrlGetInvokingDomId s))"
    unfolding kInvocationCtrlGetInvokingDomId_def
    by (rule with_entry_ok[OF ob], drule entry) (use D(13) in auto)
  moreover have "sys_ok cs c s (snd (kInvocationCtrlGetInvocationType s))"
    unfolding kInvocationCtrlGetInvocationType_def
    by (rule with_entry_ok[OF ob], drule entry) (use D(13) in \<open>simp add: assert_holds\<close>)
  moreover have "sys_ok cs c s (snd (kInvocationCtrlGetReturnAddress s))"
    unfolding kInvocationCtrlGetReturnAddress_def
    by (rule with_entry_ok[OF ob]) (use D(13) in simp)
  moreover have "sys_ok cs c s (snd (kInvocationCtrlGetVmemFaultAddress s))"
    unfolding kInvocationCtrlGetVmemFaultAddress_def
    by (rule with_entry_ok[OF ob]) (use D(13) in simp)
  moreover have "sys_ok cs c s (snd (kInvocationCtrlGetErrorCode s))"
    unfolding kInvocationCtrlGetErrorCode_def
    by (rule with_entry_ok[OF ob], drule entry) (use D(13) in \<open>simp add: assert_holds\<close>)
  moreover have "sys_ok cs c s (snd (kInvocationCtrlGetInvocationsAvail E s))"
  proof -
    have "unat (word_of_nat (INVOCATION_DEPTH E) :: u32) = INVOCATION_DEPTH E"
      using D(11) by (simp add: domain_inv_def unsigned_of_nat take_bit_nat_eq_self)
    then have "invocationStackDepth (tdomain (tasks s t)) \<le> word_of_nat (INVOCATION_DEPTH E)"
      using D(12) by (simp add: dom_ok_def word_le_nat_alt)
    then show ?thesis using D(13)
      by (simp add: kInvocationCtrlGetInvocationsAvail_def with_running_eq[OF ob] Let_def assert_holds)
  qed
  ultimately show ?thesis
    using kInvocationCtrlDoReturn_ok[OF ob] kInvocationCtrlDoIpc_ok[OF ob] kInvocationCtrlSetReturnAddress_ok[OF ob] D(13)
    by (simp add: kSysInvocationCtrl_def)
qed

subsection \<open>Scheduling calls and queries\<close>

lemma switch_ok:
  assumes ob: "on_behalf cs c t s" and so: "state_ok (ttype (tasks s t)) ns"
    and ns: "ns \<in> {K_TASK_STATE_THREAD_DEFTICK_YIELD, K_TASK_STATE_THREAD_DEFTICK_THROTTLE,
      K_TASK_STATE_THREAD_DEFTICK_SLEEP, K_TASK_STATE_LSR_DORMANT, K_TASK_STATE_FAILURE}"
    and slp: "ns = K_TASK_STATE_THREAD_DEFTICK_SLEEP \<Longrightarrow> sleepTicks (tick (tasks s t)) > 0"
  shows "sys_ok cs c s (kTickSwitchRunningTask E ns s)"
  using sys_ok_step[OF on_behalf_D(1)[OF ob]] kTickSwitchRunningTask_ok[OF on_behalf_D(2,3,14)[OF ob] so ns slp]
  by blast

lemma sleep_ok:
  assumes ob: "on_behalf cs c t s" and ty: "ttype (tasks s t) = K_TASK_THREAD" and k: "0 < k"
  shows "sys_ok cs c s (kSchedCtrlSleepMs E (upd_task t (upd_tick (\<lambda>m. m\<lparr>sleepTicks := k\<rparr>)) s))"
proof -
  let ?f = "upd_tick (\<lambda>m. m\<lparr>sleepTicks := k\<rparr>)"
  let ?s = "upd_task t ?f s"
  note D = on_behalf_D[OF ob]
  have "task_domain_inv (INVOCATION_DEPTH E) s (?f (tasks s t))" using D(10) by (simp add: task_domain_inv_def)
  from sys_task[where f = ?f, OF D(1) _ D(7) this] have o: "sys_ok cs c s ?s"
    using k by (simp add: task_same_def sys_ok_def upd_tick_def)
  have ob': "on_behalf cs c t ?s" using ob o by (simp add: on_behalf_def sys_ok_def)
  have "sys_ok cs c ?s (kSchedCtrlSleepMs E ?s)" unfolding kSchedCtrlSleepMs_def
    by (rule switch_ok[OF ob']) (use ty k in \<open>simp_all add: state_ok_def\<close>)
  then show ?thesis using sys_ok_trans[OF o] by blast
qed

lemma kSysSchedCtrl_ok:
  assumes ob: "on_behalf cs c t s" and k: "0 < KTICK_MS E"
  shows "sys_ok cs c s (snd (kSysSchedCtrl E ctrl val s))"
proof -
  note D = on_behalf_D[OF ob]
  note d = kSchedCtrlYield_def kSchedCtrlThrottle_def kSchedCtrlLsrDone_def kSchedCtrlFailure_def
  have th: "sys_ok cs c s (kSchedCtrlYield E s)" "sys_ok cs c s (kSchedCtrlThrottle E s)"
    if "ttype (tasks s t) = K_TASK_THREAD"
    unfolding d by (rule switch_ok[OF ob]; use that in \<open>simp add: state_ok_def\<close>)+
  have lsr: "sys_ok cs c s (kSchedCtrlLsrDone E s)" if "ttype (tasks s t) = K_TASK_LSR"
    unfolding d by (rule switch_ok[OF ob]) (use that in \<open>simp_all add: state_ok_def\<close>)
  have fail: "sys_ok cs c s (kSchedCtrlFailure E s)"
    unfolding d by (rule switch_ok[OF ob]) (use D(15) in \<open>auto simp: state_ok_def\<close>)
  have sl: "sys_ok cs c s (kSchedCtrlSleepMs E
      (upd_task t (upd_tick (\<lambda>m. m\<lparr>sleepTicks := sleep_ticks (KTICK_MS E) val\<rparr>)) s))"
    if "ttype (tasks s t) = K_TASK_THREAD" "val \<noteq> 0" "\<not> 2 ^ 32 - 1 < val"
    by (rule sleep_ok[OF ob that(1)], rule sleep_ticks_ceiling(2)) (use that k in \<open>simp_all add: word_greater_zero_iff\<close>)
  show ?thesis
    unfolding kSysSchedCtrl_def with_running_eq[OF ob] Let_def kCpuSelfIpi_def
    using th lsr fail sl D(13) by simp
qed

lemma kSyscallHandler_ok:
  assumes ob: "on_behalf cs c t s" and k: "0 < KTICK_MS E"
  shows "sys_ok cs c s (snd (kSyscallHandler E g rip sys p1 p2 s))"
proof -
  note D = on_behalf_D[OF ob]
  have "0 \<le> sint (ucast (thisCpu s) :: u64)"
  proof -
    have "\<not> bit (ucast (thisCpu s) :: u64) 63" by (auto simp: bit_ucast_iff dest: bit_imp_le_length)
    then show ?thesis by (simp add: sint_uint signed_take_bit_eq_if_positive bit_uint_iff)
  qed
  then have "sys_ok cs c s (snd (kSysGetCpuId g s))" using D(13) by (simp add: kSysGetCpuId_def Let_def assert_holds)
  moreover have "sys_ok cs c s (snd (kSysGetDomId s))" "sys_ok cs c s (snd (kSysGetTaskId s))"
      "sys_ok cs c s (snd (kSysGetTaskType s))"
    using D(4,9,13,15)
    by (auto simp: kSysGetDomId_def kSysGetTaskId_def kSysGetTaskType_def with_running_def split: option.splits)
  ultimately show ?thesis
    using kSysInvocationCtrl_ok[OF ob] kSysSchedCtrl_ok[OF ob k] D(13) by (simp add: kSyscallHandler_def)
qed

subsection \<open>Exceptions and the way out of a system call\<close>

lemma kExceptionHandler_ok:
  assumes ob: "on_behalf cs c t s" and e: "0 \<le> sint err"
  shows "sys_ok cs c s (kExceptionHandler E fail ty ret vm err s)"
proof -
  note D = on_behalf_D[OF ob]
  obtain d where d: "curDomain (tdomain (tasks s t)) = Some d" using D(9) by blast
  have k: "known_domain s (Some d)" using D(16) d by simp
  have f: "sys_ok cs c s (kTickSwitchRunningTask E K_TASK_STATE_FAILURE s)"
    by (rule switch_ok[OF ob]) (use D(15) in \<open>auto simp: state_ok_def\<close>)
  obtain r s' where p: "kDomainPushInvocationEntry E (Some d) ty ret vm err s = (r, s')" by fastforce
  show ?thesis using push_ok[OF ob k e p] f p D(4) d
    by (auto simp: kExceptionHandler_def deref_def Let_def ia32eCpuExceptionSetReturnAddress_def assert_holds
        sys_ok_emit enter_domain_def split: sum.splits)
qed

lemma strict_exit_ok:
  assumes ob: "on_behalf cs c t s" and k: "0 < KTICK_MS E"
  shows "sys_ok cs c s (snd (strict_exit E g regs s))"
    and "IA32E_CANONICAL (rcx (fst (strict_exit E g regs s)))
      \<or> snd (strict_exit E g regs s) = kTickSwitchRunningTask E K_TASK_STATE_FAILURE s"
proof -
  note D = on_behalf_D[OF ob]
  obtain d where d: "curDomain (tdomain (tasks s t)) = Some d" using D(9) by blast
  have kd: "known_domain s (Some d)" using D(16) d by simp
  let ?k = "invocation_kind WORKHORSE_INVOCATION_TYPE_OTHER"
  obtain r s' where p: "kDomainPushInvocationEntry E (Some d) ?k (rcx regs) 0 0 s = (r, s')" by fastforce
  note po = push_ok[OF ob kd _ p, simplified]
  have fail: "snd (kSyscallHandler E g (rcx regs) WORKHORSE_SYS_SCHED_CTRL WORKHORSE_SCHED_CTRL_FAILURE 0 s)
      = kTickSwitchRunningTask E K_TASK_STATE_FAILURE s"
    using D(15) by (auto simp: kSyscallHandler_def sys_numbers kSysSchedCtrl_def with_running_eq[OF ob] Let_def
        kCpuSelfIpi_def kSchedCtrlFailure_def)
  show "sys_ok cs c s (snd (strict_exit E g regs s))"
    using po p D(4,13) d kSyscallHandler_ok[OF ob k]
    by (auto simp: strict_exit_def Let_def assert_holds enter_domain_def split: sum.splits)
  show "IA32E_CANONICAL (rcx (fst (strict_exit E g regs s)))
      \<or> snd (strict_exit E g regs s) = kTickSwitchRunningTask E K_TASK_STATE_FAILURE s"
    using po p D(4) d fail by (auto simp: strict_exit_def Let_def assert_holds split: sum.splits)
qed

end

end
