(* ===== verification/System.thy ===== *)
theory System
  imports HandlerInv
begin

text \<open>
  The kernel after boot as a transition system: an event reaches a CPU, and its handler runs.
  Reachable states satisfy the invariant of the kernel, so no assertion of the code fails, no
  \<open>NULL\<close> is dereferenced and no loop goes on for ever.
\<close>

subsection \<open>Events\<close>

text \<open>
  \<open>Exception v rip cr2 err\<close> is an exception in user mode. \<open>SyscallExit\<close> is the check of the return
  address when a system call ends.
\<close>

datatype cpuEvent =
    Tick
  | Interrupt u8
  | SystemCall ia32eRegs
  | SyscallExit ia32eRegs
  | Exception u8 u64 u64 u64

text \<open>
  The CPUs that are online, \<open>CONFIG_KTICK_DESYNCHRONIZED\<close>, and the macro \<open>KSYS_GET_CPU_ID\<close>.
\<close>

record sysConf =
  onlineCpus :: "u32 list"
  desynchronized :: bool
  getCpuIdMacro :: bool

fun handle :: "'p kEnv \<Rightarrow> sysConf \<Rightarrow> cpuEvent \<Rightarrow> 'p kstate \<Rightarrow> 'p kstate" where
  "handle E C Tick s = kTickHandler E (desynchronized C) (onlineCpus C) s"
| "handle E C (Interrupt v) s = ia32eIsrExternalHandler E True v s"
| "handle E C (SystemCall regs) s = snd (ia32eSyscallHandler E (getCpuIdMacro C) regs s)"
| "handle E C (SyscallExit regs) s = snd (strict_exit E (getCpuIdMacro C) regs s)"
| "handle E C (Exception v rip cr2 err) s = ia32eExceptionHandlerUser E v rip cr2 err s"

text \<open>
  System calls and exceptions in user mode come from a thread or an LSR, and the hardware's error
  codes are small.
\<close>

definition user_mode :: "u32 \<Rightarrow> 'p kstate \<Rightarrow> bool" where
  "user_mode c s \<longleftrightarrow> (\<exists>t. runningTask (gTickMachines s c) = Some t \<and> ttype (tasks s t) \<noteq> K_TASK_IDLE)"

fun event_ok :: "u32 \<Rightarrow> cpuEvent \<Rightarrow> 'p kstate \<Rightarrow> bool" where
  "event_ok c Tick s = True"
| "event_ok c (Interrupt v) s = True"
| "event_ok c (SystemCall regs) s = user_mode c s"
| "event_ok c (SyscallExit regs) s = user_mode c s"
| "event_ok c (Exception v rip cr2 err) s = (user_mode c s \<and> 0 \<le> sint err)"

inductive kernel_step :: "'p kEnv \<Rightarrow> sysConf \<Rightarrow> 'p kstate \<Rightarrow> 'p kstate \<Rightarrow> bool" for E C where
  event: "c \<in> set (onlineCpus C) \<Longrightarrow> event_ok c ev s \<Longrightarrow> kernel_step E C s (on_cpu c (handle E C ev) s)"

inductive reachable :: "'p kEnv \<Rightarrow> sysConf \<Rightarrow> 'p kstate \<Rightarrow> 'p kstate \<Rightarrow> bool" for E C s0 where
  start: "reachable E C s0 s0"
| step: "reachable E C s0 s \<Longrightarrow> kernel_step E C s s' \<Longrightarrow> reachable E C s0 s'"

text \<open>
  The kernel is sound: no fault has been recorded, domains and invocation stacks are well formed, and
  on every CPU a task runs, every task is in exactly the containers its state names, the policy holds
  exactly the ready threads, and nothing waits behind a task that an LSR may interrupt.
\<close>

definition kernel_ok :: "'p kEnv \<Rightarrow> (u32 \<Rightarrow> addr set \<Rightarrow> 'p kstate \<Rightarrow> bool) \<Rightarrow> u32 list \<Rightarrow> 'p kstate \<Rightarrow> bool" where
  "kernel_ok E pinv cpus s \<longleftrightarrow> faults s = [] \<and> domain_inv E s
     \<and> (\<forall>c \<in> set cpus. tick_inv E c {} {} s \<and> timer_inv E c s \<and> pinv c (ready_set s c {}) s
          \<and> (\<exists>r. runningTask (gTickMachines s c) = Some r
               \<and> (ttype (tasks s r) \<noteq> K_TASK_LSR \<longrightarrow>
                    pendingLsrChain (gTickMachines s c) = [] \<and> pendingTaskLsr (gTickMachines s c) = None)))"

text \<open>
  What no event changes: the domains and their permissions, the task table, and the kind, the CPU and
  the interrupt priority of every task.
\<close>

definition confined :: "'p kstate \<Rightarrow> 'p kstate \<Rightarrow> bool" where
  "confined s s' \<longleftrightarrow> domains s' = domains s \<and> domainTable s' = domainTable s \<and> kTasks s' = kTasks s
     \<and> gPluginsDone s' = gPluginsDone s
     \<and> (\<forall>t. ttype (tasks s' t) = ttype (tasks s t) \<and> cpuId (tasks s' t) = cpuId (tasks s t)
          \<and> lsrVector (tasks s' t) = lsrVector (tasks s t) \<and> threadTpr (tasks s' t) = threadTpr (tasks s t))"

lemma confined_refl [simp]: "confined s s"
  by (simp add: confined_def)

lemma confined_trans: "confined s s' \<Longrightarrow> confined s' s'' \<Longrightarrow> confined s s''"
  by (simp add: confined_def)

text \<open>A step of the system: nothing of this changes, and the reports explain which tasks are active.\<close>

definition system_step :: "'p kstate \<Rightarrow> 'p kstate \<Rightarrow> bool" where
  "system_step s s' \<longleftrightarrow> confined s s' \<and> accounted s s'"

lemma system_step_refl [simp]: "system_step s s"
  by (simp add: system_step_def)

lemma system_step_trans: "system_step s s' \<Longrightarrow> system_step s' s'' \<Longrightarrow> system_step s s''"
  unfolding system_step_def using confined_trans[of s s' s''] accounted_trans[of s s' s''] by (simp add: confined_def)

lemma system_step_cpu [simp]:
  "system_step (s\<lparr>thisCpu := c\<rparr>) s' = system_step s s'" "system_step s (s'\<lparr>thisCpu := c\<rparr>) = system_step s s'"
  by (simp_all add: system_step_def confined_def)

inductive_simps kernel_step_simps: "kernel_step E C s s'"

text \<open>
  The tasks and the machine of CPU \<open>c\<close> are the same. An event acts on its own CPU only, but the tick
  that all CPUs share: that one is a tick of each of them, one after the other, and none of these ticks
  acts on another CPU.
\<close>

definition cpu_same :: "u32 \<Rightarrow> 'p kstate \<Rightarrow> 'p kstate \<Rightarrow> bool" where
  "cpu_same c s s' \<longleftrightarrow> (\<forall>t. cpuId (tasks s t) = c \<longrightarrow> tasks s' t = tasks s t) \<and> gTickMachines s' c = gTickMachines s c"

definition own_cpu_only :: "'p kEnv \<Rightarrow> sysConf \<Rightarrow> u32 \<Rightarrow> cpuEvent \<Rightarrow> 'p kstate \<Rightarrow> bool" where
  "own_cpu_only E C c ev s \<longleftrightarrow>
    (let s' = on_cpu c (handle E C ev) s;
         earlier = (\<lambda>c'. kCpuInvokeAllRendezvous (takeWhile (\<lambda>x. x \<noteq> c') (onlineCpus C)) (kTickTransition E) s)
     in if ev = Tick \<and> \<not> desynchronized C
        then \<forall>c'. cpu_same c' s (earlier c')
          \<and> cpu_same c' (if c' \<in> set (onlineCpus C) then on_cpu c' (kTickTransition E) (earlier c') else s) s'
        else \<forall>c'. c' \<noteq> c \<longrightarrow> cpu_same c' s s')"

lemma cpu_same_refl [simp]: "cpu_same c s s"
  by (simp add: cpu_same_def)

lemma cpu_same_cpu [simp]:
  "cpu_same c (s\<lparr>thisCpu := x\<rparr>) s' = cpu_same c s s'" "cpu_same c s (s'\<lparr>thisCpu := x\<rparr>) = cpu_same c s s'"
  by (simp_all add: cpu_same_def)

lemma cpu_same_trans: "cpu_same c s s' \<Longrightarrow> cpu_same c s' s'' \<Longrightarrow> cpu_same c s s''"
  by (simp add: cpu_same_def)

lemma invoke_all_this: "thisCpu (kCpuInvokeAllRendezvous cpus f s) = thisCpu s"
  unfolding kCpuInvokeAllRendezvous_def by (induction cpus arbitrary: s) (simp_all add: on_cpu_def)

lemma invoke_all_cpu:
  "kCpuInvokeAllRendezvous cpus f (s\<lparr>thisCpu := c\<rparr>) = (kCpuInvokeAllRendezvous cpus f s)\<lparr>thisCpu := c\<rparr>"
  unfolding kCpuInvokeAllRendezvous_def
proof (induction cpus arbitrary: s)
  case (Cons x cpus)
  have "on_cpu x f (s\<lparr>thisCpu := c\<rparr>) = (on_cpu x f s)\<lparr>thisCpu := c\<rparr>" by (simp add: on_cpu_def)
  then show ?case using Cons.IH[of "on_cpu x f s"] by simp
qed simp

context sched_policy
begin

lemma sys_inv_cpu [simp]: "sys_inv cs (s\<lparr>thisCpu := x\<rparr>) = sys_inv cs s"
proof -
  have "domain_inv E (s\<lparr>thisCpu := x\<rparr>) = domain_inv E s"
    by (simp add: domain_inv_def entries_canonical_def task_domain_inv_def known_domain_def)
  then show ?thesis by (simp add: sys_inv_def)
qed

lemma sys_inv_kernel_ok: "sys_inv (set cpus) s \<Longrightarrow> kernel_ok E pinv cpus s"
  by (fastforce simp: kernel_ok_def sys_inv_def kbound_def kmid_def kinv_def)

lemma on_cpu_ok:
  assumes "sys_inv cs s" and "\<And>s. sys_inv cs s \<Longrightarrow> thisCpu s = c \<Longrightarrow> sys_inv cs (f s)"
  shows "sys_inv cs (on_cpu c f s)"
  using assms(2)[of "s\<lparr>thisCpu := c\<rparr>"] assms(1) by (simp add: on_cpu_def)

lemma tick_ok:
  assumes "sys_inv cs s" "thisCpu s = c" "c \<in> cs"
  shows "sys_ok cs c s (kTickTransition E s)"
  using sys_ok_step[OF assms(1)] kTickTransition_ok[OF _ assms(2)] assms by (simp add: sys_inv_def)

lemma invoke_all_ok:
  assumes "sys_inv cs s" "set cpus \<subseteq> cs"
  shows "sys_inv cs (kCpuInvokeAllRendezvous cpus (kTickTransition E) s)"
  using assms
proof (induction cpus arbitrary: s)
  case (Cons c cpus)
  have "sys_inv cs (on_cpu c (kTickTransition E) s)"
    by (rule on_cpu_ok[OF Cons.prems(1)]) (use tick_ok Cons.prems(2) in \<open>auto simp: sys_ok_def\<close>)
  from Cons.IH[OF this] show ?case using Cons.prems(2) by (simp add: kCpuInvokeAllRendezvous_def)
qed (simp add: kCpuInvokeAllRendezvous_def)

text \<open>Every event but the tick of all CPUs at once acts on its own CPU only.\<close>

lemma handle_own_cpu:
  assumes inv: "sys_inv (set (onlineCpus C)) s" and c: "thisCpu s = c" "c \<in> set (onlineCpus C)"
    and ev: "event_ok c ev s" and k: "0 < KTICK_MS E" and own: "ev \<noteq> Tick \<or> desynchronized C"
  shows "sys_ok (set (onlineCpus C)) c s (handle E C ev s)"
proof (cases ev)
  case Tick
  then show ?thesis using tick_ok[OF inv c] own by (simp add: kTickHandler_def)
next
  case (Interrupt v)
  have "kbound c s" using inv c by (simp add: sys_inv_def)
  then show ?thesis using Interrupt sys_ok_step[OF inv] ia32eIsrExternalHandler_ok(1)[OF _ c(1)] by simp
next
  case (SystemCall regs)
  obtain t where "on_behalf (set (onlineCpus C)) c t s"
    using ev SystemCall inv c by (auto simp: user_mode_def on_behalf_def)
  from kSyscallHandler_ok[OF this k] show ?thesis
    using SystemCall by (simp add: ia32eSyscallHandler_def split: prod.splits) (metis snd_conv)
next
  case (SyscallExit regs)
  obtain t where "on_behalf (set (onlineCpus C)) c t s"
    using ev SyscallExit inv c by (auto simp: user_mode_def on_behalf_def)
  from strict_exit_ok(1)[OF this k] show ?thesis using SyscallExit by simp
next
  case (Exception v rip cr2 err)
  obtain t where "on_behalf (set (onlineCpus C)) c t s"
    using ev Exception inv c by (auto simp: user_mode_def on_behalf_def)
  from kExceptionHandler_ok[OF this] show ?thesis using Exception ev by (simp add: ia32eExceptionHandlerUser_def)
qed

lemma kernel_step_inv:
  assumes "kernel_step E C s s'" and inv: "sys_inv (set (onlineCpus C)) s" and k: "0 < KTICK_MS E"
  shows "sys_inv (set (onlineCpus C)) s'"
  using assms(1)
proof (cases rule: kernel_step.cases)
  case (event c ev)
  let ?s = "s\<lparr>thisCpu := c\<rparr>"
  have i: "sys_inv (set (onlineCpus C)) ?s" using inv by simp
  have e: "event_ok c ev ?s" using event(3) by (cases ev) (simp_all add: user_mode_def)
  have "sys_inv (set (onlineCpus C)) (handle E C ev ?s)"
  proof (cases "ev \<noteq> Tick \<or> desynchronized C")
    case True
    then show ?thesis using handle_own_cpu[OF i _ event(2) e k] by (simp add: sys_ok_def)
  next
    case False
    then show ?thesis using invoke_all_ok[OF i, of "onlineCpus C"] by (simp add: kTickHandler_def)
  qed
  then show ?thesis using event(1) by (simp add: on_cpu_def)
qed

theorem reachable_inv:
  assumes "reachable E C s0 s" and "sys_inv (set (onlineCpus C)) s0" and "0 < KTICK_MS E"
  shows "sys_inv (set (onlineCpus C)) s"
  using assms by (induction rule: reachable.induct) (auto intro: kernel_step_inv)

text \<open>An event on one CPU leaves the tasks and the machines of the others alone.\<close>

lemma sys_ok_others: "sys_ok cs c s s' \<Longrightarrow> c' \<noteq> c \<Longrightarrow> cpu_same c' s s'"
  by (auto simp: sys_ok_def sys_frame_def cpu_same_def)

lemma tick_others:
  assumes "sys_inv cs s" "c \<in> cs"
  shows "sys_inv cs (on_cpu c (kTickTransition E) s)" "c' \<noteq> c \<Longrightarrow> cpu_same c' s (on_cpu c (kTickTransition E) s)"
proof -
  note t = tick_ok[of cs "s\<lparr>thisCpu := c\<rparr>" c]
  show "sys_inv cs (on_cpu c (kTickTransition E) s)" using t assms by (simp add: on_cpu_def sys_ok_def)
  show "cpu_same c' s (on_cpu c (kTickTransition E) s)" if "c' \<noteq> c"
    using sys_ok_others[OF t that] assms by (simp add: on_cpu_def)
qed

lemma invoke_all_others:
  assumes "sys_inv cs s" "set cpus \<subseteq> cs" "c \<notin> set cpus"
  shows "cpu_same c s (kCpuInvokeAllRendezvous cpus (kTickTransition E) s)"
  using assms
proof (induction cpus arbitrary: s)
  case (Cons x cpus)
  have i: "sys_inv cs (on_cpu x (kTickTransition E) s)" "cpu_same c s (on_cpu x (kTickTransition E) s)"
    using tick_others(1)[OF Cons.prems(1), of x] tick_others(2)[OF Cons.prems(1), of x c] Cons.prems(2,3) by auto
  show ?case using cpu_same_trans[OF i(2) Cons.IH[OF i(1)]] Cons.prems(2,3) by (simp add: kCpuInvokeAllRendezvous_def)
qed (simp add: kCpuInvokeAllRendezvous_def)

lemma shared_tick:
  fixes c cpus s
  assumes inv: "sys_inv cs s" and cpus: "set cpus \<subseteq> cs" "distinct cpus"
  defines "earlier \<equiv> kCpuInvokeAllRendezvous (takeWhile (\<lambda>x. x \<noteq> c) cpus) (kTickTransition E) s"
  shows "cpu_same c s earlier"
    and "cpu_same c (if c \<in> set cpus then on_cpu c (kTickTransition E) earlier else s)
      (kCpuInvokeAllRendezvous cpus (kTickTransition E) s)"
proof -
  let ?I = "\<lambda>cpus. kCpuInvokeAllRendezvous cpus (kTickTransition E)"
  have sub: "set (takeWhile (\<lambda>x. x \<noteq> c) cpus) \<subseteq> cs" using set_takeWhileD cpus(1) by fast
  show "cpu_same c s earlier"
    unfolding earlier_def by (rule invoke_all_others[OF inv sub]) (auto dest: set_takeWhileD)
  show "cpu_same c (if c \<in> set cpus then on_cpu c (kTickTransition E) earlier else s) (?I cpus s)"
  proof (cases "c \<in> set cpus")
    case False
    then show ?thesis using invoke_all_others[OF inv cpus(1)] by simp
  next
    case True
    then obtain xs ys where s: "cpus = xs @ c # ys" "c \<notin> set xs" by (meson split_list_first)
    then have e: "takeWhile (\<lambda>x. x \<noteq> c) cpus = xs" by (auto simp: takeWhile_append)
    have "sys_inv cs (?I xs s)" by (rule invoke_all_ok[OF inv]) (use s cpus in simp)
    then have i: "sys_inv cs (on_cpu c (kTickTransition E) (?I xs s))" by (rule tick_others(1)) (use True cpus in blast)
    have "?I cpus s = ?I ys (on_cpu c (kTickTransition E) (?I xs s))" by (simp add: s kCpuInvokeAllRendezvous_def)
    then show ?thesis using invoke_all_others[OF i, of ys c] True cpus s e by (simp add: earlier_def)
  qed
qed

theorem step_own_cpu:
  assumes inv: "sys_inv (set (onlineCpus C)) s" and c: "c \<in> set (onlineCpus C)" and ev: "event_ok c ev s"
    and k: "0 < KTICK_MS E" and d: "distinct (onlineCpus C)"
  shows "own_cpu_only E C c ev s"
proof (cases "ev = Tick \<and> \<not> desynchronized C")
  case True
  then have "on_cpu c (handle E C ev) s = kCpuInvokeAllRendezvous (onlineCpus C) (kTickTransition E) s"
    by (simp add: on_cpu_def kTickHandler_def invoke_all_cpu flip: invoke_all_this[of "onlineCpus C" "kTickTransition E" s])
  then show ?thesis unfolding own_cpu_only_def Let_def if_P[OF True] using shared_tick[OF inv order_refl d] by simp
next
  case False
  let ?s = "s\<lparr>thisCpu := c\<rparr>"
  have e: "event_ok c ev ?s" using ev by (cases ev) (simp_all add: user_mode_def)
  have "sys_ok (set (onlineCpus C)) c ?s (handle E C ev ?s)"
    by (rule handle_own_cpu) (use inv c e k False in simp_all)
  from sys_ok_others[OF this] show ?thesis unfolding own_cpu_only_def Let_def if_not_P[OF False] by (simp add: on_cpu_def)
qed

lemma sys_ok_system_step: "sys_ok cs c s s' \<Longrightarrow> system_step s s'"
  using reported_accounted[of c s s'] by (simp add: sys_ok_def sys_frame_def system_step_def confined_def)

lemma invoke_all_step:
  assumes "sys_inv cs s" "set cpus \<subseteq> cs"
  shows "system_step s (kCpuInvokeAllRendezvous cpus (kTickTransition E) s)"
  using assms
proof (induction cpus arbitrary: s)
  case (Cons c cpus)
  let ?s = "on_cpu c (kTickTransition E) s"
  have 1: "sys_ok cs c (s\<lparr>thisCpu := c\<rparr>) (kTickTransition E (s\<lparr>thisCpu := c\<rparr>))"
    using tick_ok[of cs "s\<lparr>thisCpu := c\<rparr>" c] Cons.prems by simp
  then have "sys_inv cs ?s" by (simp add: sys_ok_def on_cpu_def)
  moreover have "system_step s ?s" using sys_ok_system_step[OF 1] by (simp add: on_cpu_def)
  ultimately show ?case
    using Cons.IH[of ?s] Cons.prems(2) system_step_trans[of s ?s] by (simp add: kCpuInvokeAllRendezvous_def)
qed (simp add: kCpuInvokeAllRendezvous_def)

lemma kernel_step_system:
  assumes "kernel_step E C s s'" and inv: "sys_inv (set (onlineCpus C)) s" and k: "0 < KTICK_MS E"
  shows "system_step s s'"
  using assms(1)
proof (cases rule: kernel_step.cases)
  case (event c ev)
  let ?s = "s\<lparr>thisCpu := c\<rparr>"
  have i: "sys_inv (set (onlineCpus C)) ?s" using inv by simp
  have e: "event_ok c ev ?s" using event(3) by (cases ev) (simp_all add: user_mode_def)
  have "system_step ?s (handle E C ev ?s)"
  proof (cases "ev \<noteq> Tick \<or> desynchronized C")
    case True
    show ?thesis by (rule sys_ok_system_step[OF handle_own_cpu[OF i _ event(2) e k True]]) simp
  next
    case False
    then show ?thesis using invoke_all_step[OF i, of "onlineCpus C"] by (simp add: kTickHandler_def)
  qed
  then show ?thesis using event(1) by (simp add: on_cpu_def)
qed

theorem reachable_system:
  assumes "reachable E C s0 s" and "sys_inv (set (onlineCpus C)) s0" and "0 < KTICK_MS E"
  shows "system_step s0 s"
  using assms
proof (induction rule: reachable.induct)
  case (step s s')
  show ?case
    using step system_step_trans[OF step.IH kernel_step_system[OF step.hyps(2) reachable_inv[OF step.hyps(1)]]] by blast
qed simp

end

end
