(* ===== verification/Policy.thy ===== *)
theory Policy
  imports TickSwitch
begin

text \<open>
  What the three scheduling policies share: updates of the policy's own data, the idle window
  counters that each policy keeps for LSRs and idle tasks, and the lookup of the idle task.
\<close>

definition upd_pol :: "('p \<Rightarrow> 'p) \<Rightarrow> 'p kstate \<Rightarrow> 'p kstate" where
  "upd_pol f s = s\<lparr>pol := f (pol s)\<rparr>"

lemma upd_pol_simps [simp]:
  "pol (upd_pol f s) = f (pol s)" "tasks (upd_pol f s) = tasks s" "thisCpu (upd_pol f s) = thisCpu s"
  "gTickMachines (upd_pol f s) = gTickMachines s" "faults (upd_pol f s) = faults s"
  "replenishNodes (upd_pol f s) = replenishNodes s" "sleepNodes (upd_pol f s) = sleepNodes s"
  by (simp_all add: upd_pol_def)

lemma pol_only_upd [simp]: "pol_only s (upd_pol f s)"
  by (simp add: pol_only_def upd_pol_def)

lemma pol_only_refl [simp]: "pol_only s s"
  by (simp add: pol_only_def)

lemma pol_only_trans: "pol_only s s' \<Longrightarrow> pol_only s' s'' \<Longrightarrow> pol_only s s''"
  unfolding pol_only_def by (metis kstate.update_convs(12) kstate.surjective)

text \<open>The counters of the link of an LSR or of the idle task.\<close>

record epochLink =
  idleWindowEpoch :: u32
  largestWindowEpoch :: u32

definition epoch_tick :: "epochLink \<Rightarrow> epochLink" where
  "epoch_tick l =
    (let largest = largestWindowEpoch l;
         epoch = idleWindowEpoch l;
         epoch = (if epoch = - 1 then 0 else epoch + 1);
         l = (if epoch > largest then l\<lparr>largestWindowEpoch := epoch\<rparr> else l)
     in l\<lparr>idleWindowEpoch := epoch\<rparr>)"

text \<open>The window never outgrows the largest window, and the largest window never shrinks.\<close>

lemma epoch_tick_bounds:
  "idleWindowEpoch (epoch_tick l) \<le> largestWindowEpoch (epoch_tick l)
   \<and> largestWindowEpoch l \<le> largestWindowEpoch (epoch_tick l)"
  by (simp add: epoch_tick_def Let_def not_less less_imp_le)

text \<open>Conversion of an \<open>int64_t\<close> to an \<open>int32_t\<close>.\<close>

definition to_i32 :: "int \<Rightarrow> int" where
  "to_i32 i = sint (word_of_int i :: u32)"

lemma to_i32_id: "- (2 ^ 31) \<le> i \<Longrightarrow> i < 2 ^ 31 \<Longrightarrow> to_i32 i = i"
  unfolding to_i32_def by (simp add: sint_sbintrunc' signed_take_bit_int_eq_self)

text \<open>\<open>kSchedGetIdle*\<close> is the same in all policies.\<close>

definition get_idle :: "'p kEnv \<Rightarrow> u32 \<Rightarrow> 'p kstate \<Rightarrow> ptr \<times> 'p kstate" where
  "get_idle E c s =
    (if \<not> cpuValid E c then (None, s)
     else (Some (idleAddr E c), K_DYNAMIC_ASSERT (unat c < KMAX_CPUS E) s))"

text \<open>\<open>bitmapFls\<close> from a lower bound, as the policies use it on a set of indices.\<close>

lemma bitmapFls_highest:
  assumes "\<And>b. bm_test bm b \<Longrightarrow> b < unat cnt"
  shows "if \<exists>b \<ge> unat low. bm_test bm b
    then \<exists>b. bitmapFls bm cnt low = int b \<and> unat low \<le> b \<and> b < unat cnt \<and> bm_test bm b
           \<and> (\<forall>b'. bm_test bm b' \<longrightarrow> b' \<le> b)
    else bitmapFls bm cnt low = -1"
proof (cases "\<exists>b \<ge> unat low. bm_test bm b")
  case True
  then have "\<exists>b. unat low \<le> b \<and> b < unat cnt \<and> bm_test bm b" using assms by blast
  then obtain b where b: "bitmapFls_loop bm (unat low) (unat cnt) = int b" "unat low \<le> b" "b < unat cnt"
      "bm_test bm b" "\<forall>c. b < c \<and> c < unat cnt \<longrightarrow> \<not> bm_test bm c"
    using bitmapFls_loop_spec[of "unat low" "unat cnt" bm] by auto
  have "b' \<le> b" if "bm_test bm b'" for b'
    using b(5) assms[OF that] that by (meson not_less)
  moreover have "cnt \<noteq> 0" using b(3) by auto
  ultimately show ?thesis using True b by (auto simp: bitmapFls_def)
next
  case False
  then have "bitmapFls bm cnt low = -1"
    using bitmapFls_loop_spec[of "unat low" "unat cnt" bm] unfolding bitmapFls_def by auto
  then show ?thesis using False by simp
qed

end
