(* ===== verification/PolicyRr.thy ===== *)
theory PolicyRr
  imports Policy
begin

text \<open>
  The round robin policy (\<^verbatim>\<open>kSchedRr.c\<close>): one queue per priority and a bitmap of the queues
  that are not empty. The policy interprets the locale \<open>sched_policy\<close>; it runs a thread of the
  highest priority, first in first out, and preempts for a higher priority at once and for an
  equal one at the end of the time slice.
\<close>

record kSchedParamRr =
  timesliceTicksRr :: u32
  prio :: u8

record kSchedulerRr =
  qs :: "nat \<Rightarrow> addr list"
  activeQs :: bitmap

text \<open>
  \<open>paramRr\<close>, \<open>remainingRr\<close> and \<open>epochLinkRr\<close> are the policy's fields in the tagged union of the
  task at an address.
\<close>

record rrState =
  gSchedulersRr :: "u32 \<Rightarrow> kSchedulerRr"
  paramRr :: "addr \<Rightarrow> kSchedParamRr"
  remainingRr :: "addr \<Rightarrow> u32"
  epochLinkRr :: "addr \<Rightarrow> epochLink"

definition upd_rr :: "u32 \<Rightarrow> (kSchedulerRr \<Rightarrow> kSchedulerRr) \<Rightarrow> rrState kstate \<Rightarrow> rrState kstate" where
  "upd_rr c f = upd_pol (\<lambda>p. p\<lparr>gSchedulersRr := (gSchedulersRr p)(c := f (gSchedulersRr p c))\<rparr>)"

definition set_remaining_rr :: "addr \<Rightarrow> (u32 \<Rightarrow> u32) \<Rightarrow> rrState kstate \<Rightarrow> rrState kstate" where
  "set_remaining_rr t f = upd_pol (\<lambda>p. p\<lparr>remainingRr := (remainingRr p)(t := f (remainingRr p t))\<rparr>)"

definition upd_epoch_rr :: "addr \<Rightarrow> (epochLink \<Rightarrow> epochLink) \<Rightarrow> rrState kstate \<Rightarrow> rrState kstate" where
  "upd_epoch_rr t f = upd_pol (\<lambda>p. p\<lparr>epochLinkRr := (epochLinkRr p)(t := f (epochLinkRr p t))\<rparr>)"

definition kSchedInitRr :: "rrState kEnv \<Rightarrow> rrState kstate \<Rightarrow> rrState kstate" where
  "kSchedInitRr E s = kSchedTaskIdleInit E (idleAddr E (thisCpu s)) s"

definition kSchedTickTransitionCallbackRr :: "rrState kstate \<Rightarrow> rrState kstate" where
  "kSchedTickTransitionCallbackRr s = s"

definition kSchedTaskPushRr :: "addr \<Rightarrow> rrState kstate \<Rightarrow> rrState kstate" where
  "kSchedTaskPushRr t s =
    (case ttype (tasks s t) of
       K_TASK_THREAD \<Rightarrow>
         let p = unat (prio (paramRr (pol s) t))
         in upd_rr (cpuId (tasks s t))
              (\<lambda>q. q\<lparr>qs := (qs q)(p := qs q p @ [t]), activeQs := bm_set (activeQs q) p\<rparr>) s
     | K_TASK_IDLE \<Rightarrow> upd_epoch_rr t (\<lambda>l. l\<lparr>idleWindowEpoch := 0\<rparr>) s
     | _ \<Rightarrow> s)"

definition kSchedTaskPopRr :: "u32 \<Rightarrow> rrState kEnv \<Rightarrow> rrState kstate \<Rightarrow> ptr \<times> rrState kstate" where
  "kSchedTaskPopRr n E s =
    (let c = thisCpu s;
         idx = to_i32 (bitmapFls (activeQs (gSchedulersRr (pol s) c)) n 0)
     in if idx \<ge> 0
        then (case qs (gSchedulersRr (pol s) c) (nat idx) of
                [] \<Rightarrow> (None, fault NullDeref s)
              | t # ts \<Rightarrow>
                  let s = upd_rr c (\<lambda>q. q\<lparr>qs := (qs q)(nat idx := ts)\<rparr>) s;
                      s = (if ts = [] then upd_rr c (\<lambda>q. q\<lparr>activeQs := bm_unset (activeQs q) (nat idx)\<rparr>) s
                           else s)
                  in (Some t, set_remaining_rr t (\<lambda>_. timesliceTicksRr (paramRr (pol s) t)) s))
        else (Some (idleAddr E c), s))"

definition kSchedTaskTickCallbackRr :: "addr \<Rightarrow> rrState kstate \<Rightarrow> rrState kstate" where
  "kSchedTaskTickCallbackRr t s =
    (case ttype (tasks s t) of
       K_TASK_THREAD \<Rightarrow> set_remaining_rr t (\<lambda>r. r - 1) s
     | K_TASK_LSR \<Rightarrow> upd_epoch_rr t epoch_tick s
     | K_TASK_IDLE \<Rightarrow> upd_epoch_rr t epoch_tick s
     | _ \<Rightarrow> s)"

definition kSchedShouldRescheduleRr :: "u32 \<Rightarrow> rrState kstate \<Rightarrow> bool \<times> rrState kstate" where
  "kSchedShouldRescheduleRr n s =
    (case kTickGetRunningTask s of
       None \<Rightarrow> (False, fault NullDeref (fault AssertFailed s))
     | Some r \<Rightarrow>
         let s = K_DYNAMIC_ASSERT (tstate (tasks s r) = K_TASK_STATE_RUNNING) s;
             q = gSchedulersRr (pol s) (cpuId (tasks s r))
         in case ttype (tasks s r) of
              K_TASK_THREAD \<Rightarrow>
                let p = prio (paramRr (pol s) r);
                    idx = to_i32 (bitmapFls (activeQs q) n (ucast p))
                in if idx > uint p then (True, s)
                   else if idx = uint p then (remainingRr (pol s) r = 0, s)
                   else if remainingRr (pol s) r = 0
                        then (False, set_remaining_rr r (\<lambda>_. timesliceTicksRr (paramRr (pol s) r)) s)
                        else (False, s)
            | K_TASK_IDLE \<Rightarrow> (\<not> bitmapIsEmpty (activeQs q) n, s)
            | _ \<Rightarrow> (False, s))"

definition kSchedTaskLsrOutCallbackRr :: "addr \<Rightarrow> rrState kstate \<Rightarrow> rrState kstate" where
  "kSchedTaskLsrOutCallbackRr t s =
    (if ttype (tasks s t) \<noteq> K_TASK_LSR then s
     else upd_epoch_rr t (\<lambda>l. l\<lparr>idleWindowEpoch := 0\<rparr>) s)"

definition kSchedGetIdleRr :: "rrState kEnv \<Rightarrow> u32 \<Rightarrow> rrState kstate \<Rightarrow> ptr \<times> rrState kstate" where
  "kSchedGetIdleRr E c s = get_idle E c s"

definition opsRr :: "u32 \<Rightarrow> rrState kEnv \<Rightarrow> rrState kSchedOps" where
  "opsRr n E = \<lparr>
     kSchedInitFn = kSchedInitRr E,
     kSchedTickTransitionCallbackFn = kSchedTickTransitionCallbackRr,
     kSchedPushFn = kSchedTaskPushRr,
     kSchedTaskPopFn = kSchedTaskPopRr n E,
     kSchedTaskTickCallbackFn = kSchedTaskTickCallbackRr,
     kSchedShouldRescheduleFn = kSchedShouldRescheduleRr n,
     kSchedTaskLsrOutCallbackFn = kSchedTaskLsrOutCallbackRr,
     kSchedGetIdleFn = kSchedGetIdleRr E\<rparr>"

definition kSchedOpsInitRr :: "rrState kstate \<Rightarrow> rrState kstate" where
  "kSchedOpsInitRr s = snd (kSchedOpsInit s)"

text \<open>The environment in which the round robin policy is configured, with \<open>n\<close> priorities.\<close>

definition envRr :: "u32 \<Rightarrow> rrState kEnv \<Rightarrow> rrState kEnv" where
  "envRr n E = E\<lparr>ops := opsRr n E\<rparr>"

lemma envRr_simps [simp]:
  "ops (envRr n E) = opsRr n E" "idleAddr (envRr n E) = idleAddr E" "alg (envRr n E) = alg E"
  "cpuValid (envRr n E) = cpuValid E" "KMAX_CPUS (envRr n E) = KMAX_CPUS E"
  by (simp_all add: envRr_def)

lemma opsRr_simps [simp]:
  "kSchedInitFn (opsRr n E) = kSchedInitRr E"
  "kSchedTickTransitionCallbackFn (opsRr n E) = kSchedTickTransitionCallbackRr"
  "kSchedPushFn (opsRr n E) = kSchedTaskPushRr"
  "kSchedTaskPopFn (opsRr n E) = kSchedTaskPopRr n E"
  "kSchedTaskTickCallbackFn (opsRr n E) = kSchedTaskTickCallbackRr"
  "kSchedShouldRescheduleFn (opsRr n E) = kSchedShouldRescheduleRr n"
  "kSchedTaskLsrOutCallbackFn (opsRr n E) = kSchedTaskLsrOutCallbackRr"
  "kSchedGetIdleFn (opsRr n E) = kSchedGetIdleRr E"
  by (simp_all add: opsRr_def)

subsection \<open>The invariant\<close>

abbreviation prio_of :: "rrState kstate \<Rightarrow> addr \<Rightarrow> nat" where
  "prio_of s t \<equiv> unat (prio (paramRr (pol s) t))"

text \<open>
  The queues of CPU \<open>c\<close> hold the threads of \<open>Q\<close>, each in the queue of its priority, and the
  bitmap marks the queues that are not empty. The range of \<open>n\<close> is that of the configuration.
\<close>

definition pinvRr :: "u32 \<Rightarrow> u32 \<Rightarrow> addr set \<Rightarrow> rrState kstate \<Rightarrow> bool" where
  "pinvRr n c Q s \<longleftrightarrow>
    (let q = gSchedulersRr (pol s) c in
       1 \<le> n \<and> n \<le> 256
     \<and> (\<forall>p. distinct (qs q p) \<and> set (qs q p) = {t \<in> Q. prio_of s t = p})
     \<and> (\<forall>t \<in> Q. prio_of s t < unat n)
     \<and> (\<forall>p. bm_test (activeQs q) p = (qs q p \<noteq> [])))"

definition knownRr :: "u32 \<Rightarrow> addr \<Rightarrow> rrState kstate \<Rightarrow> bool" where
  "knownRr n t s \<longleftrightarrow> prio_of s t < unat n"

definition tickableRr :: "addr \<Rightarrow> rrState kstate \<Rightarrow> bool" where
  "tickableRr t s \<longleftrightarrow> True"

lemma pinvRr_cong:
  "gSchedulersRr (pol s') c = gSchedulersRr (pol s) c \<Longrightarrow> paramRr (pol s') = paramRr (pol s) \<Longrightarrow>
   pinvRr n c Q s' = pinvRr n c Q s"
  by (simp add: pinvRr_def)

text \<open>An operation that changes at most the queues of CPU \<open>c\<close> and the threads' counters.\<close>

lemma rr_keeps:
  assumes "pol_only s s'" and "paramRr (pol s') = paramRr (pol s)"
    and "\<And>c'. c' \<noteq> c \<Longrightarrow> gSchedulersRr (pol s') c' = gSchedulersRr (pol s) c'"
  shows "policy_keeps (pinvRr n) tickableRr (knownRr n) c V s s'"
  using assms pinvRr_cong unfolding policy_keeps_def tickableRr_def knownRr_def by metis

lemma rr_same [simp]:
  "gSchedulersRr (pol (set_remaining_rr t f s)) = gSchedulersRr (pol s)"
  "paramRr (pol (set_remaining_rr t f s)) = paramRr (pol s)"
  "gSchedulersRr (pol (upd_epoch_rr t g s)) = gSchedulersRr (pol s)"
  "paramRr (pol (upd_epoch_rr t g s)) = paramRr (pol s)"
  "paramRr (pol (upd_rr c h s)) = paramRr (pol s)"
  "gSchedulersRr (pol (upd_rr c h s)) = (gSchedulersRr (pol s))(c := h (gSchedulersRr (pol s) c))"
  "pol_only s (set_remaining_rr t f s)" "pol_only s (upd_epoch_rr t g s)" "pol_only s (upd_rr c h s)"
  by (simp_all add: set_remaining_rr_def upd_epoch_rr_def upd_rr_def)

lemma rr_epoch:
  assumes "pinvRr n c Q s"
  shows "pinvRr n c Q (upd_epoch_rr t f s)
    \<and> policy_keeps (pinvRr n) tickableRr (knownRr n) c V s (upd_epoch_rr t f s)"
  using assms rr_keeps[of s "upd_epoch_rr t f s"] pinvRr_cong[of "upd_epoch_rr t f s" c s] by simp

lemma rr_remaining:
  assumes "pinvRr n c Q s"
  shows "pinvRr n c Q (set_remaining_rr t f s)
    \<and> policy_keeps (pinvRr n) tickableRr (knownRr n) c V s (set_remaining_rr t f s)"
  using assms rr_keeps[of s "set_remaining_rr t f s"] pinvRr_cong[of "set_remaining_rr t f s" c s] by simp

lemma rr_refl: "policy_keeps (pinvRr n) tickableRr (knownRr n) c V s s"
  by (rule rr_keeps) simp_all

subsection \<open>Push and pop\<close>

lemma rr_push:
  assumes inv: "pinvRr n (cpuId (tasks s t)) Q s" and ty: "ttype (tasks s t) = K_TASK_THREAD"
    and t: "t \<notin> Q" "knownRr n t s"
  shows "pinvRr n (cpuId (tasks s t)) (insert t Q) (kSchedTaskPushRr t s)
    \<and> policy_keeps (pinvRr n) tickableRr (knownRr n) (cpuId (tasks s t)) V s (kSchedTaskPushRr t s)"
proof
  let ?c = "cpuId (tasks s t)"
  let ?q = "gSchedulersRr (pol s) ?c"
  let ?f = "\<lambda>q. q\<lparr>qs := (qs q)(prio_of s t := qs q (prio_of s t) @ [t]),
      activeQs := bm_set (activeQs q) (prio_of s t)\<rparr>"
  have e: "kSchedTaskPushRr t s = upd_rr ?c ?f s"
    using ty by (simp add: kSchedTaskPushRr_def Let_def)
  have qs: "distinct (qs ?q p)" "set (qs ?q p) = {u \<in> Q. prio_of s u = p}"
      "bm_test (activeQs ?q) p = (qs ?q p \<noteq> [])" for p
    using inv by (simp_all add: pinvRr_def Let_def)
  have new: "t \<notin> set (qs ?q p)" for p using qs(2)[of p] t(1) by simp
  show "pinvRr n ?c (insert t Q) (kSchedTaskPushRr t s)"
    unfolding pinvRr_def e rr_same Let_def fun_upd_same
  proof (intro conjI allI)
    show "1 \<le> n" "n \<le> 256" using inv by (simp_all add: pinvRr_def Let_def)
    show "\<forall>u \<in> insert t Q. prio_of s u < unat n"
      using inv t(2) by (simp add: pinvRr_def knownRr_def Let_def)
    fix p
    show "distinct (qs (?f ?q) p)" using qs(1) new by simp
    show "set (qs (?f ?q) p) = {u \<in> insert t Q. prio_of s u = p}" using qs(2) by auto
    show "bm_test (activeQs (?f ?q)) p = (qs (?f ?q) p \<noteq> [])" using qs(3) by (simp add: bm_test_set)
  qed
  show "policy_keeps (pinvRr n) tickableRr (knownRr n) ?c V s (kSchedTaskPushRr t s)"
    unfolding e by (rule rr_keeps) simp_all
qed

text \<open>The highest active queue is the queue of the highest priority in \<open>Q\<close>.\<close>

lemma rr_range:
  assumes "pinvRr n c Q s" "bm_test (activeQs (gSchedulersRr (pol s) c)) b"
  shows "b < unat n"
proof -
  have "set (qs (gSchedulersRr (pol s) c) b) = {t \<in> Q. prio_of s t = b}" "qs (gSchedulersRr (pol s) c) b \<noteq> []"
    using assms by (simp_all add: pinvRr_def Let_def)
  then obtain t where "t \<in> Q" "prio_of s t = b" by (metis (mono_tags, lifting) hd_in_set mem_Collect_eq)
  then show ?thesis using assms(1) by (auto simp: pinvRr_def Let_def)
qed

lemma rr_small: "pinvRr n c Q s \<Longrightarrow> unat n \<le> 256"
  by (simp add: pinvRr_def Let_def word_le_nat_alt)

lemma rr_pop_empty:
  assumes inv: "pinvRr n (thisCpu s) {} s"
  shows "kSchedTaskPopRr n E s = (Some (idleAddr E (thisCpu s)), s)"
proof -
  have "\<not> bm_test (activeQs (gSchedulersRr (pol s) (thisCpu s))) b" for b
    using inv by (simp add: pinvRr_def Let_def)
  then have "bitmapFls (activeQs (gSchedulersRr (pol s) (thisCpu s))) n 0 = -1"
    using bitmapFls_loop_spec[of 0 "unat n"] by (simp add: bitmapFls_def)
  then show ?thesis by (simp add: kSchedTaskPopRr_def to_i32_id)
qed

lemma rr_pop:
  assumes inv: "pinvRr n (thisCpu s) Q s" and ne: "Q \<noteq> {}"
  obtains t ts where "qs (gSchedulersRr (pol s) (thisCpu s)) (prio_of s t) = t # ts" "t \<in> Q"
    "\<And>u. u \<in> Q \<Longrightarrow> prio_of s u \<le> prio_of s t"
    "fst (kSchedTaskPopRr n E s) = Some t"
    "pinvRr n (thisCpu s) (Q - {t}) (snd (kSchedTaskPopRr n E s))"
    "qs (gSchedulersRr (pol (snd (kSchedTaskPopRr n E s))) (thisCpu s)) =
       (qs (gSchedulersRr (pol s) (thisCpu s)))(prio_of s t := ts)"
    "remainingRr (pol (snd (kSchedTaskPopRr n E s))) t = timesliceTicksRr (paramRr (pol s) t)"
    "\<And>V. policy_keeps (pinvRr n) tickableRr (knownRr n) (thisCpu s) V s (snd (kSchedTaskPopRr n E s))"
proof -
  let ?c = "thisCpu s"
  let ?q = "gSchedulersRr (pol s) ?c"
  have qs: "distinct (qs ?q p)" "set (qs ?q p) = {u \<in> Q. prio_of s u = p}"
      "bm_test (activeQs ?q) p = (qs ?q p \<noteq> [])" for p
    using inv by (simp_all add: pinvRr_def Let_def)
  obtain u where u: "u \<in> Q" using ne by blast
  have act: "bm_test (activeQs ?q) (prio_of s v)" if "v \<in> Q" for v
    unfolding qs(3) using qs(2)[of "prio_of s v"] that by auto
  have "\<exists>b \<ge> unat (0::u32). bm_test (activeQs ?q) b" using act[OF u] by auto
  then obtain b where b: "bitmapFls (activeQs ?q) n 0 = int b" "b < unat n" "bm_test (activeQs ?q) b"
      "\<And>b'. bm_test (activeQs ?q) b' \<Longrightarrow> b' \<le> b"
    using bitmapFls_highest[of "activeQs ?q" n 0, OF rr_range[OF inv]] by auto
  obtain t ts where t: "qs ?q b = t # ts" using b(3) qs(3) by (metis list.exhaust)
  then have tq: "t \<in> Q" "prio_of s t = b" using qs(2)[of b] by auto
  have idx: "to_i32 (bitmapFls (activeQs ?q) n 0) = int b"
    using b(1,2) rr_small[OF inv] by (simp add: to_i32_id)
  let ?f = "\<lambda>q. q\<lparr>qs := (qs q)(b := ts), activeQs := (if ts = [] then bm_unset (activeQs q) b else activeQs q)\<rparr>"
  let ?s' = "snd (kSchedTaskPopRr n E s)"
  have e: "fst (kSchedTaskPopRr n E s) = Some t" "gSchedulersRr (pol ?s') = (gSchedulersRr (pol s))(?c := ?f ?q)"
      "paramRr (pol ?s') = paramRr (pol s)" "remainingRr (pol ?s') t = timesliceTicksRr (paramRr (pol s) t)"
      "pol_only s ?s'"
    using idx t by (simp_all add: kSchedTaskPopRr_def Let_def upd_rr_def set_remaining_rr_def upd_pol_def pol_only_def fun_eq_iff)
  show thesis
  proof (rule that[of t ts])
    show "qs ?q (prio_of s t) = t # ts" "t \<in> Q" "fst (kSchedTaskPopRr n E s) = Some t"
        "remainingRr (pol ?s') t = timesliceTicksRr (paramRr (pol s) t)"
        "qs (gSchedulersRr (pol ?s') ?c) = (qs ?q)(prio_of s t := ts)"
      using t tq e by simp_all
    show "prio_of s v \<le> prio_of s t" if "v \<in> Q" for v using b(4) act[OF that] tq(2) by simp
    show "policy_keeps (pinvRr n) tickableRr (knownRr n) ?c V s ?s'" for V
      by (rule rr_keeps) (use e in simp_all)
    show "pinvRr n ?c (Q - {t}) ?s'"
      unfolding pinvRr_def e(2,3) Let_def fun_upd_same
    proof (intro conjI allI)
      show "1 \<le> n" "n \<le> 256" "\<forall>u \<in> Q - {t}. prio_of s u < unat n"
        using inv by (simp_all add: pinvRr_def Let_def)
      fix p
      have ts: "distinct (t # ts)" "set (t # ts) = {u \<in> Q. prio_of s u = b}" using qs(1,2)[of b] t by simp_all
      show "distinct (qs (?f ?q) p)" using qs(1) ts by simp
      have "set ts = {u \<in> Q - {t}. prio_of s u = b}" using ts by auto
      then show "set (qs (?f ?q) p) = {u \<in> Q - {t}. prio_of s u = p}"
        using qs(2)[of p] tq(2) by auto
      show "bm_test (activeQs (?f ?q)) p = (qs (?f ?q) p \<noteq> [])"
        using qs(3) t by (auto simp: bm_test_unset)
    qed
  qed
qed

subsection \<open>Rescheduling\<close>

lemma rr_isEmpty:
  assumes inv: "pinvRr n c Q s"
  shows "bitmapIsEmpty (activeQs (gSchedulersRr (pol s) c)) n = (Q = {})"
proof -
  let ?q = "gSchedulersRr (pol s) c"
  have qs: "set (qs ?q p) = {u \<in> Q. prio_of s u = p}" "bm_test (activeQs ?q) p = (qs ?q p \<noteq> [])" for p
    using inv by (simp_all add: pinvRr_def Let_def)
  have "bitmapIsEmpty (activeQs ?q) n = (\<forall>b < 8 * ((unat n + 7) div 8). \<not> bm_test (activeQs ?q) b)"
    by (rule bitmapIsEmpty_spec) (use rr_small[OF inv] in simp)
  also have "\<dots> = (\<forall>b. \<not> bm_test (activeQs ?q) b)"
  proof -
    have "b < 8 * ((unat n + 7) div 8)" if "bm_test (activeQs ?q) b" for b
      using rr_range[OF inv that] by linarith
    then show ?thesis by blast
  qed
  also have "\<dots> = (Q = {})" unfolding qs(2) using qs(1) by (auto simp: set_empty[symmetric] simp del: set_empty)
  finally show ?thesis .
qed

text \<open>
  A running thread gives way to a ready one of a higher priority, and to one of its own priority
  when its time slice is over. The idle task gives way to any thread.
\<close>

lemma rr_reschedule:
  assumes inv: "pinvRr n (thisCpu s) Q s" and run: "runningTask (mach s) = Some r"
    and st: "tstate (tasks s r) = K_TASK_STATE_RUNNING" and cpu: "cpuId (tasks s r) = thisCpu s"
  shows "fst (kSchedShouldRescheduleRr n s) =
    (case ttype (tasks s r) of
       K_TASK_THREAD \<Rightarrow> \<exists>u \<in> Q. prio_of s u > prio_of s r \<or> prio_of s u = prio_of s r \<and> remainingRr (pol s) r = 0
     | K_TASK_IDLE \<Rightarrow> Q \<noteq> {}
     | _ \<Rightarrow> False)"
    and "pinvRr n (thisCpu s) Q (snd (kSchedShouldRescheduleRr n s))"
    and "policy_keeps (pinvRr n) tickableRr (knownRr n) (thisCpu s) V s (snd (kSchedShouldRescheduleRr n s))"
proof -
  let ?c = "thisCpu s"
  let ?q = "gSchedulersRr (pol s) ?c"
  let ?p = "prio (paramRr (pol s) r)"
  have qs: "set (qs ?q p) = {u \<in> Q. prio_of s u = p}" "bm_test (activeQs ?q) p = (qs ?q p \<noteq> [])" for p
    using inv by (simp_all add: pinvRr_def Let_def)
  have act: "bm_test (activeQs ?q) p = (\<exists>u \<in> Q. prio_of s u = p)" for p
    unfolding qs(2) using qs(1)[of p] by (auto simp: set_empty[symmetric] simp del: set_empty)
  have run': "kTickGetRunningTask s = Some r" using run by (simp add: kTickGetRunningTask_def kTickGetMachine_def)
  have up: "uint ?p = int (unat ?p)" by simp
  let ?idx = "to_i32 (bitmapFls (activeQs ?q) n (ucast ?p))"
  have idx: "if \<exists>u \<in> Q. prio_of s u \<ge> unat ?p
      then \<exists>b. ?idx = int b \<and> unat ?p \<le> b \<and> (\<exists>u \<in> Q. prio_of s u = b) \<and> (\<forall>u \<in> Q. prio_of s u \<le> b)
      else ?idx = -1"
  proof -
    have "unat ?p < 2 ^ 8" using unat_less_exp[of ?p] by simp
    then have low: "unat (ucast ?p :: u32) = unat ?p"
      by (simp add: unsigned_ucast_eq take_bit_nat_eq_self)
    have id: "to_i32 (int b) = int b" if "b < unat n" for b
      using that rr_small[OF inv] by (simp add: to_i32_id)
    have m1: "to_i32 (-1) = -1" by (simp add: to_i32_id)
    note h = bitmapFls_highest[of "activeQs ?q" n "ucast ?p", OF rr_range[OF inv], unfolded act low]
    show ?thesis
    proof (cases "\<exists>u \<in> Q. prio_of s u \<ge> unat ?p")
      case True
      then obtain b where "bitmapFls (activeQs ?q) n (ucast ?p) = int b" "unat ?p \<le> b" "b < unat n"
          "\<exists>u \<in> Q. prio_of s u = b" "\<forall>b'. (\<exists>u \<in> Q. prio_of s u = b') \<longrightarrow> b' \<le> b"
        using h by (metis (no_types, lifting))
      then have "?idx = int b \<and> unat ?p \<le> b \<and> (\<exists>u \<in> Q. prio_of s u = b) \<and> (\<forall>u \<in> Q. prio_of s u \<le> b)"
        using id[of b] by (metis (no_types, lifting))
      then show ?thesis using True by (metis (no_types, lifting))
    next
      case False
      then have "bitmapFls (activeQs ?q) n (ucast ?p) = -1" using h by (metis (no_types, lifting))
      then show ?thesis using False m1 by (simp del: of_nat_unat)
    qed
  qed
  have e: "kSchedShouldRescheduleRr n s =
      (case ttype (tasks s r) of
              K_TASK_THREAD \<Rightarrow>
                (if ?idx > uint ?p then (True, s)
                   else if ?idx = uint ?p then (remainingRr (pol s) r = 0, s)
                   else if remainingRr (pol s) r = 0
                        then (False, set_remaining_rr r (\<lambda>_. timesliceTicksRr (paramRr (pol s) r)) s)
                        else (False, s))
            | K_TASK_IDLE \<Rightarrow> (\<not> bitmapIsEmpty (activeQs ?q) n, s)
            | _ \<Rightarrow> (False, s))"
    unfolding kSchedShouldRescheduleRr_def run' option.case Let_def assert_holds[OF st] cpu by (rule refl)
  show "fst (kSchedShouldRescheduleRr n s) =
    (case ttype (tasks s r) of
       K_TASK_THREAD \<Rightarrow> \<exists>u \<in> Q. prio_of s u > prio_of s r \<or> prio_of s u = prio_of s r \<and> remainingRr (pol s) r = 0
     | K_TASK_IDLE \<Rightarrow> Q \<noteq> {}
     | _ \<Rightarrow> False)"
  proof (cases "ttype (tasks s r)")
    case K_TASK_THREAD
    show ?thesis
    proof (cases "\<exists>u \<in> Q. prio_of s u \<ge> unat ?p")
      case True
      then obtain b where b: "?idx = int b" "unat ?p \<le> b" "\<exists>u \<in> Q. prio_of s u = b" "\<forall>u \<in> Q. prio_of s u \<le> b"
        using idx by auto
      have cmp: "(?idx > uint ?p) = (unat ?p < b)" "(?idx = uint ?p) = (b = unat ?p)"
        unfolding b(1) up of_nat_less_iff of_nat_eq_iff by (rule refl)+
      show ?thesis
      proof (cases "unat ?p < b")
        case True
        then show ?thesis unfolding e K_TASK_THREAD using b(3) cmp by auto
      next
        case False
        then have eq: "b = unat ?p" using b(2) by simp
        then have "\<not> (\<exists>u \<in> Q. prio_of s u > prio_of s r)" using b(4) by (meson not_less)
        then show ?thesis unfolding e K_TASK_THREAD using cmp eq b(3) by auto
      qed
    next
      case False
      then have "?idx = -1" using idx by simp
      moreover have "0 \<le> uint ?p" by simp
      ultimately have "\<not> ?idx > uint ?p" "?idx \<noteq> uint ?p" by linarith+
      then show ?thesis unfolding e K_TASK_THREAD using False by (auto simp: not_le)
    qed
  qed (simp_all add: e rr_isEmpty[OF inv])
  have cases: "snd (kSchedShouldRescheduleRr n s) = s
      \<or> snd (kSchedShouldRescheduleRr n s) = set_remaining_rr r (\<lambda>_. timesliceTicksRr (paramRr (pol s) r)) s"
    unfolding e by (cases "ttype (tasks s r)") simp_all
  show "pinvRr n ?c Q (snd (kSchedShouldRescheduleRr n s))"
    using cases inv rr_remaining[OF inv] by auto
  show "policy_keeps (pinvRr n) tickableRr (knownRr n) ?c V s (snd (kSchedShouldRescheduleRr n s))"
    using cases rr_refl rr_remaining[OF inv] by metis
qed

lemma rr_callback:
  assumes inv: "pinvRr n (thisCpu s) Q s"
  shows "pinvRr n (thisCpu s) Q (kSchedTaskTickCallbackRr t s)
    \<and> policy_keeps (pinvRr n) tickableRr (knownRr n) (thisCpu s) V s (kSchedTaskTickCallbackRr t s)"
  using inv rr_epoch[OF inv] rr_remaining[OF inv] rr_refl
  by (cases "ttype (tasks s t)") (simp_all add: kSchedTaskTickCallbackRr_def)

interpretation rr: sched_policy "envRr n E" "pinvRr n" tickableRr "knownRr n"
proof unfold_locales
  fix s s' :: "rrState kstate" and c Q t r
  show "pinvRr n c Q s'" if "pol_same s s'" "pinvRr n c Q s"
    using that by (simp add: pol_same_def pinvRr_def)
  show "tickableRr t s'" by (simp add: tickableRr_def)
  show "tickableRr t s" by (simp add: tickableRr_def)
  show "knownRr n t s'" if "pol_same s s'" "knownRr n t s"
    using that by (simp add: pol_same_def knownRr_def)
  show "pinvRr n (thisCpu s) Q (kSchedTickTransitionCallbackFn (ops (envRr n E)) s)
      \<and> policy_keeps (pinvRr n) tickableRr (knownRr n) (thisCpu s) Q s
          (kSchedTickTransitionCallbackFn (ops (envRr n E)) s)" if "pinvRr n (thisCpu s) Q s"
    using that rr_refl by (simp add: kSchedTickTransitionCallbackRr_def)
  show "pinvRr n (cpuId (tasks s t)) (insert t Q) (kSchedPushFn (ops (envRr n E)) t s)
      \<and> policy_keeps (pinvRr n) tickableRr (knownRr n) (cpuId (tasks s t)) (insert t Q) s
          (kSchedPushFn (ops (envRr n E)) t s)"
    if "pinvRr n (cpuId (tasks s t)) Q s" "ttype (tasks s t) = K_TASK_THREAD" "t \<notin> Q" "knownRr n t s"
    using rr_push[OF that] by simp
  show "pinvRr n (cpuId (tasks s t)) Q (kSchedPushFn (ops (envRr n E)) t s)
      \<and> policy_keeps (pinvRr n) tickableRr (knownRr n) (cpuId (tasks s t)) {} s
          (kSchedPushFn (ops (envRr n E)) t s)"
    if "pinvRr n (cpuId (tasks s t)) Q s" "ttype (tasks s t) = K_TASK_IDLE"
    using rr_epoch[OF that(1)] that(2) by (simp add: kSchedTaskPushRr_def)
  show "policy_keeps (pinvRr n) tickableRr (knownRr n) (thisCpu s) Q s (snd (kSchedTaskPopFn (ops (envRr n E)) s))
      \<and> (if Q = {}
         then fst (kSchedTaskPopFn (ops (envRr n E)) s) = Some (idleAddr (envRr n E) (thisCpu s))
            \<and> pinvRr n (thisCpu s) {} (snd (kSchedTaskPopFn (ops (envRr n E)) s))
         else \<exists>t \<in> Q. fst (kSchedTaskPopFn (ops (envRr n E)) s) = Some t
            \<and> pinvRr n (thisCpu s) (Q - {t}) (snd (kSchedTaskPopFn (ops (envRr n E)) s))
            \<and> tickableRr t (snd (kSchedTaskPopFn (ops (envRr n E)) s)))"
    if inv: "pinvRr n (thisCpu s) Q s"
  proof (cases "Q = {}")
    case True
    then show ?thesis using inv rr_pop_empty[of n s E] rr_refl by simp
  next
    case False
    obtain t where "t \<in> Q" "fst (kSchedTaskPopRr n E s) = Some t"
        "pinvRr n (thisCpu s) (Q - {t}) (snd (kSchedTaskPopRr n E s))"
        "policy_keeps (pinvRr n) tickableRr (knownRr n) (thisCpu s) Q s (snd (kSchedTaskPopRr n E s))"
      using rr_pop[OF inv False, of E] by metis
    then show ?thesis using False by (auto simp: tickableRr_def)
  qed
  show "pinvRr n (thisCpu s) Q (kSchedTaskTickCallbackFn (ops (envRr n E)) t s)
      \<and> policy_keeps (pinvRr n) tickableRr (knownRr n) (thisCpu s) {t} s
          (kSchedTaskTickCallbackFn (ops (envRr n E)) t s)
      \<and> (ttype (tasks s t) = K_TASK_THREAD \<longrightarrow> 0 < currentBudget (tick (tasks s t)) \<longrightarrow>
         tstate (tasks s t) \<noteq> K_TASK_STATE_THREAD_DEFTICK_SLEEP \<longrightarrow>
         tickableRr t (kSchedTaskTickCallbackFn (ops (envRr n E)) t s))"
    if "pinvRr n (thisCpu s) Q s"
    using rr_callback[OF that] by (simp add: tickableRr_def)
  show "pinvRr n (thisCpu s) Q (snd (kSchedShouldRescheduleFn (ops (envRr n E)) s))
      \<and> policy_keeps (pinvRr n) tickableRr (knownRr n) (thisCpu s) Q s
          (snd (kSchedShouldRescheduleFn (ops (envRr n E)) s))
      \<and> (fst (kSchedShouldRescheduleFn (ops (envRr n E)) s) \<longrightarrow> Q \<noteq> {})"
    if "pinvRr n (thisCpu s) Q s" "runningTask (mach s) = Some r"
      "tstate (tasks s r) = K_TASK_STATE_RUNNING" "cpuId (tasks s r) = thisCpu s"
    using rr_reschedule[OF that] by (auto split: kSchedTaskType.splits)
  show "pinvRr n (cpuId (tasks s t)) Q (kSchedTaskLsrOutCallbackFn (ops (envRr n E)) t s)
      \<and> policy_keeps (pinvRr n) tickableRr (knownRr n) (cpuId (tasks s t)) {} s
          (kSchedTaskLsrOutCallbackFn (ops (envRr n E)) t s)"
    if "pinvRr n (cpuId (tasks s t)) Q s" "ttype (tasks s t) = K_TASK_LSR"
    using rr_epoch[OF that(1)] that(2) by (simp add: kSchedTaskLsrOutCallbackRr_def)
qed

end
