(* ===== verification/PolicyCyclic.thy ===== *)
theory PolicyCyclic
  imports Policy
begin

text \<open>
  The cyclic policy (\<^verbatim>\<open>kSchedCyclic.c\<close>): a table of frames, each owned by one thread, and a
  clock that names the frame to serve next. The next thread is the first ready one at or after
  the clock, around the table.
\<close>

record kSchedParamCyclic =
  frameBmp :: bitmap
  timesliceTicksCyclic :: u32

record kSchedThreadLinkCyclic =
  initialized :: bool
  remainingCyclic :: u32

record kSchedulerCyclic =
  frames :: "nat \<Rightarrow> ptr"
  clock :: u32
  numReadyThreads :: u32

record cyclicState =
  gSchedulersCyclic :: "u32 \<Rightarrow> kSchedulerCyclic"
  paramCyclic :: "addr \<Rightarrow> kSchedParamCyclic"
  linkCyclic :: "addr \<Rightarrow> kSchedThreadLinkCyclic"
  epochLinkCyclic :: "addr \<Rightarrow> epochLink"
  frameBmps :: "u32 \<Rightarrow> bitmap"

definition upd_cyc :: "u32 \<Rightarrow> (kSchedulerCyclic \<Rightarrow> kSchedulerCyclic) \<Rightarrow> cyclicState kstate \<Rightarrow> cyclicState kstate" where
  "upd_cyc c f = upd_pol (\<lambda>p. p\<lparr>gSchedulersCyclic := (gSchedulersCyclic p)(c := f (gSchedulersCyclic p c))\<rparr>)"

definition upd_link_cyc :: "addr \<Rightarrow> (kSchedThreadLinkCyclic \<Rightarrow> kSchedThreadLinkCyclic) \<Rightarrow> cyclicState kstate \<Rightarrow> cyclicState kstate" where
  "upd_link_cyc t f = upd_pol (\<lambda>p. p\<lparr>linkCyclic := (linkCyclic p)(t := f (linkCyclic p t))\<rparr>)"

definition upd_epoch_cyc :: "addr \<Rightarrow> (epochLink \<Rightarrow> epochLink) \<Rightarrow> cyclicState kstate \<Rightarrow> cyclicState kstate" where
  "upd_epoch_cyc t f = upd_pol (\<lambda>p. p\<lparr>epochLinkCyclic := (epochLinkCyclic p)(t := f (epochLinkCyclic p t))\<rparr>)"

definition kSchedInitCyclic :: "cyclicState kEnv \<Rightarrow> cyclicState kstate \<Rightarrow> cyclicState kstate" where
  "kSchedInitCyclic E s = kSchedTaskIdleInit E (idleAddr E (thisCpu s)) s"

definition kSchedTickTransitionCallbackCyclic :: "cyclicState kstate \<Rightarrow> cyclicState kstate" where
  "kSchedTickTransitionCallbackCyclic s = s"

text \<open>The loop over the set bits of a thread's frame bitmap; \<open>low\<close> is one past the last bit.\<close>

function assign_frames :: "bitmap \<Rightarrow> u32 \<Rightarrow> addr \<Rightarrow> u32 \<Rightarrow> (nat \<Rightarrow> ptr) \<Rightarrow> nat \<Rightarrow> ptr" where
  "assign_frames bmp n t low fr =
    (let b = bitmapFfs bmp n low
     in if b = -1 then fr else assign_frames bmp n t (word_of_int (b + 1)) (fr(nat b := Some t)))"
  by pat_completeness auto

lemma bitmapFfs_step:
  assumes "bitmapFfs bmp n low = b" "b \<noteq> -1"
  shows "\<exists>k. b = int k \<and> unat low \<le> k \<and> k < unat n \<and> bm_test bmp k
    \<and> (\<forall>j. unat low \<le> j \<and> j < k \<longrightarrow> \<not> bm_test bmp j)
    \<and> unat (word_of_int (b + 1) :: u32) = Suc k"
proof -
  have "\<exists>k. unat low \<le> k \<and> k < unat n \<and> bm_test bmp k"
    using assms bitmapFfs_loop_spec[of "unat low" "unat n" bmp] by (auto simp: bitmapFfs_def split: if_splits)
  then obtain k where k: "bitmapFfs_loop bmp (unat n) (unat low) = int k" "unat low \<le> k" "k < unat n"
      "bm_test bmp k" "\<forall>j. unat low \<le> j \<and> j < k \<longrightarrow> \<not> bm_test bmp j"
    using bitmapFfs_loop_spec[of "unat low" "unat n" bmp] by auto
  have b: "b = int k" using assms k(1) by (auto simp: bitmapFfs_def split: if_splits)
  have "Suc k < 2 ^ 32" using k(3) unat_less_exp[of n] by simp
  then have "unat (word_of_nat (Suc k) :: u32) = Suc k" by (simp add: unat_word_of_nat del: of_nat_Suc)
  moreover have "(word_of_int (b + 1) :: u32) = word_of_nat (Suc k)" by (simp add: b add.commute)
  ultimately have "unat (word_of_int (b + 1) :: u32) = Suc k" by (simp only:)
  then show ?thesis using b k by blast
qed

lemma bitmapFfs_none:
  "bitmapFfs bmp n low = -1 \<Longrightarrow> unat low \<le> k \<Longrightarrow> k < unat n \<Longrightarrow> \<not> bm_test bmp k"
  using bitmapFfs_loop_spec[of "unat low" "unat n" bmp] by (auto simp: bitmapFfs_def split: if_splits)

termination assign_frames
proof (relation "measure (\<lambda>(bmp, n, t, low, fr). unat n - unat low)")
  fix bmp n t low fr b
  assume "b = bitmapFfs bmp n low" "b \<noteq> -1"
  then obtain k where "unat low \<le> k" "k < unat n" "unat (word_of_int (b + 1) :: u32) = Suc k"
    using bitmapFfs_step[of bmp n low b] by auto
  then show "((bmp, n, t, word_of_int (b + 1), fr(nat b := Some t)), bmp, n, t, low, fr)
      \<in> measure (\<lambda>(bmp, n, t, low, fr). unat n - unat low)" by simp
qed simp

declare assign_frames.simps [simp del]

lemma assign_frames_spec:
  "assign_frames bmp n t low fr f =
    (if unat low \<le> f \<and> f < unat n \<and> bm_test bmp f then Some t else fr f)"
proof (induction bmp n t low fr rule: assign_frames.induct)
  case (1 bmp n t low fr)
  show ?case
  proof (cases "bitmapFfs bmp n low = -1")
    case True
    then show ?thesis using bitmapFfs_none[OF True, of f] by (subst assign_frames.simps) auto
  next
    case False
    then obtain k where k: "bitmapFfs bmp n low = int k" "unat low \<le> k" "k < unat n" "bm_test bmp k"
        "\<forall>j. unat low \<le> j \<and> j < k \<longrightarrow> \<not> bm_test bmp j"
        "unat (word_of_int (bitmapFfs bmp n low + 1) :: u32) = Suc k"
      using bitmapFfs_step[OF refl False] by auto
    have "assign_frames bmp n t low fr f =
        assign_frames bmp n t (word_of_int (bitmapFfs bmp n low + 1)) (fr(nat (bitmapFfs bmp n low) := Some t)) f"
      using False by (subst assign_frames.simps) (simp add: Let_def)
    also have "\<dots> = (if Suc k \<le> f \<and> f < unat n \<and> bm_test bmp f then Some t else (fr(k := Some t)) f)"
      unfolding 1[OF refl False] k(6) by (simp only: k(1) nat_int)
    also have "\<dots> = (if unat low \<le> f \<and> f < unat n \<and> bm_test bmp f then Some t else fr f)"
    proof (cases f k rule: linorder_cases)
      case less
      then have "unat low \<le> f \<Longrightarrow> \<not> bm_test bmp f" using k(5) by simp
      then show ?thesis using less by auto
    next
      case equal then show ?thesis using k(2-4) by simp
    next
      case greater then show ?thesis using k(2) by simp
    qed
    finally show ?thesis .
  qed
qed

definition kSchedTaskPushCyclic :: "u32 \<Rightarrow> addr \<Rightarrow> cyclicState kstate \<Rightarrow> cyclicState kstate" where
  "kSchedTaskPushCyclic n t s =
    (let c = cpuId (tasks s t)
     in case ttype (tasks s t) of
          K_TASK_THREAD \<Rightarrow>
            let bmp = frameBmp (paramCyclic (pol s) t);
                s = (if \<not> initialized (linkCyclic (pol s) t)
                     then upd_link_cyc t (\<lambda>l. l\<lparr>initialized := True\<rparr>)
                            (upd_cyc c (\<lambda>q. q\<lparr>frames := assign_frames bmp n t 0 (frames q)\<rparr>) s)
                     else s)
            in upd_cyc c (\<lambda>q. q\<lparr>numReadyThreads := numReadyThreads q + 1\<rparr>) s
        | K_TASK_IDLE \<Rightarrow> upd_epoch_cyc t (\<lambda>l. l\<lparr>idleWindowEpoch := 0\<rparr>) s
        | _ \<Rightarrow> s)"

text \<open>The search: \<open>k\<close> iterations are left, \<open>i\<close> are done, \<open>frame\<close> is the last frame looked at.\<close>

fun scan_frames :: "u32 \<Rightarrow> (addr \<Rightarrow> kSchedState) \<Rightarrow> (nat \<Rightarrow> ptr) \<Rightarrow> u32 \<Rightarrow> nat \<Rightarrow> nat \<Rightarrow> u32 \<Rightarrow> ptr \<times> u32" where
  "scan_frames n st fr clk 0 i frame = (None, frame)"
| "scan_frames n st fr clk (Suc k) i frame =
    (let frame = (clk + word_of_nat i) mod n
     in case fr (unat frame) of
          None \<Rightarrow> scan_frames n st fr clk k (Suc i) frame
        | Some t \<Rightarrow> if st t = K_TASK_STATE_READY then (Some t, frame)
                    else scan_frames n st fr clk k (Suc i) frame)"

definition kSchedTaskPopCyclic :: "u32 \<Rightarrow> cyclicState kEnv \<Rightarrow> cyclicState kstate \<Rightarrow> ptr \<times> cyclicState kstate" where
  "kSchedTaskPopCyclic n E s =
    (let c = thisCpu s;
         q = gSchedulersCyclic (pol s) c
     in if numReadyThreads q = 0 then (Some (idleAddr E c), s)
        else case scan_frames n (\<lambda>t. tstate (tasks s t)) (frames q) (clock q) (unat n) 0 0 of
               (task, frame) \<Rightarrow>
                 let s = (case task of
                            None \<Rightarrow> s
                          | Some t \<Rightarrow> upd_link_cyc t
                              (\<lambda>l. l\<lparr>remainingCyclic := timesliceTicksCyclic (paramCyclic (pol s) t)\<rparr>) s);
                     s = K_DYNAMIC_ASSERT (task \<noteq> None) s;
                     s = upd_cyc c (\<lambda>q. q\<lparr>clock := frame + 1, numReadyThreads := numReadyThreads q - 1\<rparr>) s
                 in (task, s))"

definition kSchedTaskTickCallbackCyclic :: "addr \<Rightarrow> cyclicState kstate \<Rightarrow> cyclicState kstate" where
  "kSchedTaskTickCallbackCyclic t s =
    (case ttype (tasks s t) of
       K_TASK_THREAD \<Rightarrow> upd_link_cyc t (\<lambda>l. l\<lparr>remainingCyclic := remainingCyclic l - 1\<rparr>) s
     | K_TASK_LSR \<Rightarrow> upd_epoch_cyc t epoch_tick s
     | K_TASK_IDLE \<Rightarrow> upd_epoch_cyc t epoch_tick s
     | _ \<Rightarrow> s)"

definition kSchedShouldRescheduleCyclic :: "cyclicState kstate \<Rightarrow> bool \<times> cyclicState kstate" where
  "kSchedShouldRescheduleCyclic s =
    (let q = gSchedulersCyclic (pol s) (thisCpu s)
     in case kTickGetRunningTask s of
          None \<Rightarrow> (False, fault NullDeref s)
        | Some r \<Rightarrow>
            (case ttype (tasks s r) of
               K_TASK_THREAD \<Rightarrow>
                 if remainingCyclic (linkCyclic (pol s) r) = 0
                 then if numReadyThreads q = 0
                      then (False, upd_link_cyc r
                             (\<lambda>l. l\<lparr>remainingCyclic := timesliceTicksCyclic (paramCyclic (pol s) r)\<rparr>) s)
                      else (True, s)
                 else (False, s)
             | K_TASK_IDLE \<Rightarrow> (numReadyThreads q > 0, s)
             | _ \<Rightarrow> (False, s)))"

definition kSchedTaskLsrOutCallbackCyclic :: "addr \<Rightarrow> cyclicState kstate \<Rightarrow> cyclicState kstate" where
  "kSchedTaskLsrOutCallbackCyclic t s =
    (if ttype (tasks s t) \<noteq> K_TASK_LSR then s
     else upd_epoch_cyc t (\<lambda>l. l\<lparr>idleWindowEpoch := 0\<rparr>) s)"

definition kSchedGetIdleCyclic :: "cyclicState kEnv \<Rightarrow> u32 \<Rightarrow> cyclicState kstate \<Rightarrow> ptr \<times> cyclicState kstate" where
  "kSchedGetIdleCyclic E c s = get_idle E c s"

definition opsCyclic :: "u32 \<Rightarrow> cyclicState kEnv \<Rightarrow> cyclicState kSchedOps" where
  "opsCyclic n E = \<lparr>
     kSchedInitFn = kSchedInitCyclic E,
     kSchedTickTransitionCallbackFn = kSchedTickTransitionCallbackCyclic,
     kSchedPushFn = kSchedTaskPushCyclic n,
     kSchedTaskPopFn = kSchedTaskPopCyclic n E,
     kSchedTaskTickCallbackFn = kSchedTaskTickCallbackCyclic,
     kSchedShouldRescheduleFn = kSchedShouldRescheduleCyclic,
     kSchedTaskLsrOutCallbackFn = kSchedTaskLsrOutCallbackCyclic,
     kSchedGetIdleFn = kSchedGetIdleCyclic E\<rparr>"

definition kSchedOpsInitCyclic :: "cyclicState kstate \<Rightarrow> cyclicState kstate" where
  "kSchedOpsInitCyclic s = snd (kSchedOpsInit s)"

text \<open>The environment in which the cyclic policy is configured, with \<open>n\<close> frames.\<close>

definition envCyclic :: "u32 \<Rightarrow> cyclicState kEnv \<Rightarrow> cyclicState kEnv" where
  "envCyclic n E = E\<lparr>ops := opsCyclic n E\<rparr>"

lemma envCyclic_simps [simp]:
  "ops (envCyclic n E) = opsCyclic n E" "idleAddr (envCyclic n E) = idleAddr E" "alg (envCyclic n E) = alg E"
  "cpuValid (envCyclic n E) = cpuValid E" "KMAX_CPUS (envCyclic n E) = KMAX_CPUS E"
  by (simp_all add: envCyclic_def)

lemma opsCyclic_simps [simp]:
  "kSchedInitFn (opsCyclic n E) = kSchedInitCyclic E"
  "kSchedTickTransitionCallbackFn (opsCyclic n E) = kSchedTickTransitionCallbackCyclic"
  "kSchedPushFn (opsCyclic n E) = kSchedTaskPushCyclic n"
  "kSchedTaskPopFn (opsCyclic n E) = kSchedTaskPopCyclic n E"
  "kSchedTaskTickCallbackFn (opsCyclic n E) = kSchedTaskTickCallbackCyclic"
  "kSchedShouldRescheduleFn (opsCyclic n E) = kSchedShouldRescheduleCyclic"
  "kSchedTaskLsrOutCallbackFn (opsCyclic n E) = kSchedTaskLsrOutCallbackCyclic"
  "kSchedGetIdleFn (opsCyclic n E) = kSchedGetIdleCyclic E"
  by (simp_all add: opsCyclic_def)

subsection \<open>The invariant\<close>

text \<open>
  Every frame that is taken belongs to a thread of this CPU, every thread of \<open>Q\<close> owns a frame,
  the clock is within the table, and the counter counts \<open>Q\<close>. The range of \<open>n\<close> is that of the
  configuration.
\<close>

definition pinvCyclic :: "u32 \<Rightarrow> u32 \<Rightarrow> addr set \<Rightarrow> cyclicState kstate \<Rightarrow> bool" where
  "pinvCyclic n c Q s \<longleftrightarrow>
    (let q = gSchedulersCyclic (pol s) c in
       1 \<le> n \<and> n \<le> 8192 \<and> clock q \<le> n
     \<and> (\<forall>f < unat n. \<forall>t. frames q f = Some t \<longrightarrow> ttype (tasks s t) = K_TASK_THREAD \<and> cpuId (tasks s t) = c)
     \<and> (\<forall>t \<in> Q. \<exists>f < unat n. frames q f = Some t)
     \<and> numReadyThreads q = word_of_nat (card Q))"

definition knownCyclic :: "u32 \<Rightarrow> addr \<Rightarrow> cyclicState kstate \<Rightarrow> bool" where
  "knownCyclic n t s \<longleftrightarrow> initialized (linkCyclic (pol s) t)
     \<and> (\<exists>f < unat n. frames (gSchedulersCyclic (pol s) (cpuId (tasks s t))) f = Some t)"

text \<open>A thread that has never been pushed: its frames are still free.\<close>

definition freshCyclic :: "u32 \<Rightarrow> addr \<Rightarrow> cyclicState kstate \<Rightarrow> bool" where
  "freshCyclic n t s \<longleftrightarrow> \<not> initialized (linkCyclic (pol s) t)
     \<and> (\<exists>f < unat n. bm_test (frameBmp (paramCyclic (pol s) t)) f)
     \<and> (\<forall>f < unat n. bm_test (frameBmp (paramCyclic (pol s) t)) f \<longrightarrow>
          frames (gSchedulersCyclic (pol s) (cpuId (tasks s t))) f = None)"

definition tickableCyclic :: "addr \<Rightarrow> cyclicState kstate \<Rightarrow> bool" where
  "tickableCyclic t s \<longleftrightarrow> True"

lemma cyc_same [simp]:
  "gSchedulersCyclic (pol (upd_link_cyc t f s)) = gSchedulersCyclic (pol s)"
  "gSchedulersCyclic (pol (upd_epoch_cyc t g s)) = gSchedulersCyclic (pol s)"
  "gSchedulersCyclic (pol (upd_cyc c h s)) = (gSchedulersCyclic (pol s))(c := h (gSchedulersCyclic (pol s) c))"
  "linkCyclic (pol (upd_link_cyc t f s)) = (linkCyclic (pol s))(t := f (linkCyclic (pol s) t))"
  "linkCyclic (pol (upd_epoch_cyc t g s)) = linkCyclic (pol s)"
  "linkCyclic (pol (upd_cyc c h s)) = linkCyclic (pol s)"
  "tasks (upd_link_cyc t f s) = tasks s" "tasks (upd_epoch_cyc t g s) = tasks s" "tasks (upd_cyc c h s) = tasks s"
  "pol_only s (upd_link_cyc t f s)" "pol_only s (upd_epoch_cyc t g s)" "pol_only s (upd_cyc c h s)"
  by (simp_all add: upd_link_cyc_def upd_epoch_cyc_def upd_cyc_def)

lemma pinvCyclic_D:
  assumes "pinvCyclic n c Q s"
  shows "1 \<le> n" "n \<le> 8192" "clock (gSchedulersCyclic (pol s) c) \<le> n"
    "\<And>f t. f < unat n \<Longrightarrow> frames (gSchedulersCyclic (pol s) c) f = Some t \<Longrightarrow>
       ttype (tasks s t) = K_TASK_THREAD \<and> cpuId (tasks s t) = c"
    "\<And>t. t \<in> Q \<Longrightarrow> \<exists>f < unat n. frames (gSchedulersCyclic (pol s) c) f = Some t"
    "numReadyThreads (gSchedulersCyclic (pol s) c) = word_of_nat (card Q)"
  using assms unfolding pinvCyclic_def Let_def by blast+

lemma cyc_small: "pinvCyclic n c Q s \<Longrightarrow> 0 < unat n \<and> unat n \<le> 8192"
  using pinvCyclic_D(1,2) by (fastforce simp: word_le_nat_alt)

lemma cyc_finite:
  assumes "pinvCyclic n c Q s" shows "finite Q" "card Q \<le> 8192"
proof -
  let ?fr = "frames (gSchedulersCyclic (pol s) c)"
  have sub: "Q \<subseteq> (\<lambda>f. the (?fr f)) ` {..<unat n}"
    using pinvCyclic_D(5)[OF assms] by (force simp: image_iff)
  then show "finite Q" by (rule finite_subset) simp
  have "card Q \<le> card ((\<lambda>f. the (?fr f)) ` {..<unat n})" by (rule card_mono[OF _ sub]) simp
  also have "\<dots> \<le> unat n" using card_image_le[of "{..<unat n}" "\<lambda>f. the (?fr f)"] by simp
  finally show "card Q \<le> 8192" using cyc_small[OF assms] by simp
qed

lemma cyc_ready:
  assumes "pinvCyclic n c Q s"
  shows "(numReadyThreads (gSchedulersCyclic (pol s) c) = 0) = (Q = {})"
proof -
  have "unat (word_of_nat (card Q) :: u32) = card Q"
    using cyc_finite(2)[OF assms] by (simp add: unat_word_of_nat)
  then have "(word_of_nat (card Q) :: u32) = 0 \<longleftrightarrow> card Q = 0" by (metis unat_eq_0)
  then show ?thesis using pinvCyclic_D(6)[OF assms] cyc_finite(1)[OF assms] by simp
qed

text \<open>An operation that leaves the frames alone.\<close>

lemma cyc_keeps:
  assumes "pol_only s s'"
    and "\<And>c'. c' \<noteq> c \<Longrightarrow> gSchedulersCyclic (pol s') c' = gSchedulersCyclic (pol s) c'"
    and "frames (gSchedulersCyclic (pol s') c) = frames (gSchedulersCyclic (pol s) c)"
    and "\<And>u. initialized (linkCyclic (pol s) u) \<Longrightarrow> initialized (linkCyclic (pol s') u)"
  shows "policy_keeps (pinvCyclic n) tickableCyclic (knownCyclic n) c V s s'"
proof -
  have t: "tasks s' = tasks s" using assms(1) unfolding pol_only_def by (metis kstate.select_convs(2) kstate.surjective kstate.update_convs(12))
  have fr: "frames (gSchedulersCyclic (pol s') c') = frames (gSchedulersCyclic (pol s) c')" for c'
    using assms(2,3) by (cases "c' = c") simp_all
  show ?thesis
    unfolding policy_keeps_def
  proof (intro conjI allI impI assms(1))
    fix u show "tickableCyclic u s'" by (simp add: tickableCyclic_def)
    show "knownCyclic n u s'" if "knownCyclic n u s"
      using that assms(4) unfolding knownCyclic_def fr t by blast
  next
    fix c' Q assume "c' \<noteq> c" "pinvCyclic n c' Q s"
    then show "pinvCyclic n c' Q s'" using assms(2) unfolding pinvCyclic_def t by simp
  qed
qed

lemma cyc_pinv_same:
  assumes "pinvCyclic n c Q s" and "gSchedulersCyclic (pol s') = gSchedulersCyclic (pol s)" "tasks s' = tasks s"
  shows "pinvCyclic n c Q s'"
  using assms by (simp add: pinvCyclic_def)

lemma cyc_epoch:
  assumes "pinvCyclic n c Q s"
  shows "pinvCyclic n c Q (upd_epoch_cyc t f s)
    \<and> policy_keeps (pinvCyclic n) tickableCyclic (knownCyclic n) c V s (upd_epoch_cyc t f s)"
  by (intro conjI cyc_pinv_same[OF assms] cyc_keeps) simp_all

lemma cyc_link:
  assumes "pinvCyclic n c Q s" and "\<And>l. initialized (f l) = initialized l"
  shows "pinvCyclic n c Q (upd_link_cyc t f s)
    \<and> policy_keeps (pinvCyclic n) tickableCyclic (knownCyclic n) c V s (upd_link_cyc t f s)"
  by (intro conjI cyc_pinv_same[OF assms(1)] cyc_keeps) (auto simp: assms(2))

lemma cyc_refl: "policy_keeps (pinvCyclic n) tickableCyclic (knownCyclic n) c V s s"
  by (rule cyc_keeps) simp_all

subsection \<open>Push\<close>

lemma card_word_insert: "finite Q \<Longrightarrow> t \<notin> Q \<Longrightarrow> (word_of_nat (card Q) :: u32) + 1 = word_of_nat (card (insert t Q))"
  by simp

lemma cyc_push:
  assumes inv: "pinvCyclic n (cpuId (tasks s t)) Q s" and ty: "ttype (tasks s t) = K_TASK_THREAD"
    and t: "t \<notin> Q" "knownCyclic n t s"
  shows "pinvCyclic n (cpuId (tasks s t)) (insert t Q) (kSchedTaskPushCyclic n t s)
    \<and> policy_keeps (pinvCyclic n) tickableCyclic (knownCyclic n) (cpuId (tasks s t)) V s (kSchedTaskPushCyclic n t s)"
proof
  let ?c = "cpuId (tasks s t)"
  let ?f = "\<lambda>q. q\<lparr>numReadyThreads := numReadyThreads q + 1\<rparr>"
  have e: "kSchedTaskPushCyclic n t s = upd_cyc ?c ?f s"
    using ty t(2) by (simp add: kSchedTaskPushCyclic_def knownCyclic_def Let_def)
  note d = pinvCyclic_D[OF inv]
  show "pinvCyclic n ?c (insert t Q) (kSchedTaskPushCyclic n t s)"
    unfolding e pinvCyclic_def Let_def cyc_same fun_upd_same
  proof (intro conjI allI impI ballI)
    show "numReadyThreads (?f (gSchedulersCyclic (pol s) ?c)) = word_of_nat (card (insert t Q))"
      using d(6) card_word_insert[OF cyc_finite(1)[OF inv] t(1)] by simp
    show "\<exists>f < unat n. frames (?f (gSchedulersCyclic (pol s) ?c)) f = Some u" if "u \<in> insert t Q" for u
      using that d(5) t(2) by (auto simp: knownCyclic_def)
  qed (use d in auto)
  show "policy_keeps (pinvCyclic n) tickableCyclic (knownCyclic n) ?c V s (kSchedTaskPushCyclic n t s)"
    unfolding e by (rule cyc_keeps) simp_all
qed

text \<open>The first push of a thread enters it into the frames of its bitmap.\<close>

lemma cyc_push_fresh:
  assumes inv: "pinvCyclic n (cpuId (tasks s t)) Q s" and ty: "ttype (tasks s t) = K_TASK_THREAD"
    and t: "t \<notin> Q" "freshCyclic n t s"
  shows "pinvCyclic n (cpuId (tasks s t)) (insert t Q) (kSchedTaskPushCyclic n t s)
    \<and> policy_keeps (pinvCyclic n) tickableCyclic (knownCyclic n) (cpuId (tasks s t)) V s (kSchedTaskPushCyclic n t s)
    \<and> knownCyclic n t (kSchedTaskPushCyclic n t s)
    \<and> frames (gSchedulersCyclic (pol (kSchedTaskPushCyclic n t s)) (cpuId (tasks s t))) =
        assign_frames (frameBmp (paramCyclic (pol s) t)) n t 0 (frames (gSchedulersCyclic (pol s) (cpuId (tasks s t))))"
proof -
  let ?c = "cpuId (tasks s t)"
  let ?bmp = "frameBmp (paramCyclic (pol s) t)"
  let ?q = "gSchedulersCyclic (pol s) ?c"
  let ?s' = "kSchedTaskPushCyclic n t s"
  let ?q' = "?q\<lparr>frames := assign_frames ?bmp n t 0 (frames ?q), numReadyThreads := numReadyThreads ?q + 1\<rparr>"
  have e: "gSchedulersCyclic (pol ?s') = (gSchedulersCyclic (pol s))(?c := ?q')"
      "linkCyclic (pol ?s') = (linkCyclic (pol s))(t := (linkCyclic (pol s) t)\<lparr>initialized := True\<rparr>)"
      "tasks ?s' = tasks s" "pol_only s ?s'"
  proof -
    have "\<not> initialized (linkCyclic (pol s) t)" using t(2) by (simp add: freshCyclic_def)
    then have e0: "?s' = upd_cyc ?c (\<lambda>q. q\<lparr>numReadyThreads := numReadyThreads q + 1\<rparr>)
        (upd_link_cyc t (\<lambda>l. l\<lparr>initialized := True\<rparr>)
          (upd_cyc ?c (\<lambda>q. q\<lparr>frames := assign_frames ?bmp n t 0 (frames q)\<rparr>) s))"
      using ty by (simp add: kSchedTaskPushCyclic_def Let_def)
    show "gSchedulersCyclic (pol ?s') = (gSchedulersCyclic (pol s))(?c := ?q')"
      "linkCyclic (pol ?s') = (linkCyclic (pol s))(t := (linkCyclic (pol s) t)\<lparr>initialized := True\<rparr>)"
      "tasks ?s' = tasks s"
      unfolding e0 by simp_all
    show "pol_only s ?s'" unfolding e0
      by (rule pol_only_trans[OF pol_only_trans[OF cyc_same(12) cyc_same(10)] cyc_same(12)])
  qed
  note d = pinvCyclic_D[OF inv]
  have fr: "assign_frames ?bmp n t 0 (frames ?q) f = (if f < unat n \<and> bm_test ?bmp f then Some t else frames ?q f)" for f
    by (simp add: assign_frames_spec)
  have old: "assign_frames ?bmp n t 0 (frames ?q) f = Some u" if "f < unat n" "frames ?q f = Some u" for f u
    using that t(2) by (auto simp: fr freshCyclic_def)
  obtain f0 where f0: "f0 < unat n" "bm_test ?bmp f0" using t(2) by (auto simp: freshCyclic_def)
  have "pinvCyclic n ?c (insert t Q) ?s'"
    unfolding pinvCyclic_def Let_def e(1,3) fun_upd_same
  proof (intro conjI allI impI ballI)
    show "numReadyThreads ?q' = word_of_nat (card (insert t Q))"
      using d(6) card_word_insert[OF cyc_finite(1)[OF inv] t(1)] by simp
    show "\<exists>f < unat n. frames ?q' f = Some u" if u: "u \<in> insert t Q" for u
    proof (cases "u = t")
      case True then show ?thesis using f0 by (auto simp: fr)
    next
      case False then show ?thesis using u d(5)[of u] old by auto
    qed
    fix f u assume f: "f < unat n" "frames ?q' f = Some u"
    then show "ttype (tasks s u) = K_TASK_THREAD" "cpuId (tasks s u) = ?c"
      using d(4)[OF f(1)] ty by (auto simp: fr split: if_splits)
  qed (use d in auto)
  moreover have "policy_keeps (pinvCyclic n) tickableCyclic (knownCyclic n) ?c V s ?s'"
    unfolding policy_keeps_def
  proof (intro conjI allI impI e(4))
    fix u show "tickableCyclic u ?s'" by (simp add: tickableCyclic_def)
    show "knownCyclic n u ?s'" if k: "knownCyclic n u s"
    proof -
      obtain f where f: "f < unat n" "frames (gSchedulersCyclic (pol s) (cpuId (tasks s u))) f = Some u"
        using k by (auto simp: knownCyclic_def)
      have "frames (gSchedulersCyclic (pol ?s') (cpuId (tasks s u))) f = Some u"
        using f old by (auto simp: e(1))
      then show ?thesis using k f(1) by (auto simp: knownCyclic_def e(2,3))
    qed
  next
    fix c' Q' assume "c' \<noteq> ?c" "pinvCyclic n c' Q' s"
    then show "pinvCyclic n c' Q' ?s'" unfolding pinvCyclic_def e(1,3) by simp
  qed
  moreover have "knownCyclic n t ?s'" using f0 by (auto simp: knownCyclic_def e fr)
  ultimately show ?thesis by (simp add: e(1))
qed

subsection \<open>Pop\<close>

text \<open>\<open>frame_at n clk j\<close> is the frame looked at in iteration \<open>j\<close>.\<close>

definition frame_at :: "u32 \<Rightarrow> u32 \<Rightarrow> nat \<Rightarrow> u32" where
  "frame_at n clk j = (clk + word_of_nat j) mod n"

lemma scan_found:
  assumes "\<exists>j t. i \<le> j \<and> j < i + k \<and> fr (unat (frame_at n clk j)) = Some t \<and> st t = K_TASK_STATE_READY"
  shows "\<exists>j t. i \<le> j \<and> j < i + k \<and> fr (unat (frame_at n clk j)) = Some t \<and> st t = K_TASK_STATE_READY
    \<and> scan_frames n st fr clk k i frame = (Some t, frame_at n clk j)
    \<and> (\<forall>j' u. i \<le> j' \<and> j' < j \<and> fr (unat (frame_at n clk j')) = Some u \<longrightarrow> st u \<noteq> K_TASK_STATE_READY)"
  using assms
proof (induction k arbitrary: i frame)
  case (Suc k)
  let ?F = "frame_at n clk i"
  show ?case
  proof (cases "\<exists>t. fr (unat ?F) = Some t \<and> st t = K_TASK_STATE_READY")
    case True
    then obtain t where t: "fr (unat ?F) = Some t" "st t = K_TASK_STATE_READY" by blast
    then have "scan_frames n st fr clk (Suc k) i frame = (Some t, ?F)" by (simp add: frame_at_def Let_def)
    then show ?thesis using t by (intro exI[of _ i] exI[of _ t]) auto
  next
    case False
    have step: "scan_frames n st fr clk (Suc k) i frame = scan_frames n st fr clk k (Suc i) ?F"
      using False by (auto simp: frame_at_def Let_def split: option.splits)
    obtain j t where jt: "i \<le> j" "j < i + Suc k" "fr (unat (frame_at n clk j)) = Some t" "st t = K_TASK_STATE_READY"
      using Suc.prems by blast
    have "j \<noteq> i" using jt False by auto
    then have "\<exists>j t. Suc i \<le> j \<and> j < Suc i + k \<and> fr (unat (frame_at n clk j)) = Some t \<and> st t = K_TASK_STATE_READY"
      using jt by (intro exI[of _ j] exI[of _ t]) auto
    from Suc.IH[OF this, of ?F] obtain j t where r: "Suc i \<le> j" "j < Suc i + k"
        "fr (unat (frame_at n clk j)) = Some t" "st t = K_TASK_STATE_READY"
        "scan_frames n st fr clk k (Suc i) ?F = (Some t, frame_at n clk j)"
        "\<forall>j' u. Suc i \<le> j' \<and> j' < j \<and> fr (unat (frame_at n clk j')) = Some u \<longrightarrow> st u \<noteq> K_TASK_STATE_READY"
      by blast
    have b: "st u \<noteq> K_TASK_STATE_READY" if "i \<le> j'" "j' < j" "fr (unat (frame_at n clk j')) = Some u" for j' u
    proof (cases "j' = i")
      case True then show ?thesis using that(3) False by auto
    next
      case False
      then show ?thesis using r(6) that by (metis Suc_leI le_neq_implies_less)
    qed
    show ?thesis unfolding step
      by (rule exI[of _ j], rule exI[of _ t]) (use r(1-5) b in auto)
  qed
qed auto

lemma frame_at_nat:
  assumes "0 < unat n" "unat n \<le> 8192" "clk \<le> n" "j < unat n"
  shows "unat (frame_at n clk j) = (unat clk + j) mod unat n"
proof -
  have c: "unat clk \<le> 8192" using assms(2,3) by (simp add: word_le_nat_alt)
  have j: "unat (word_of_nat j :: u32) = j" using assms(2,4) by (simp add: unat_word_of_nat)
  have "unat (clk + word_of_nat j) = unat clk + j"
    using unat_add_small[of clk "word_of_nat j"] c j assms(2,4) by simp
  then show ?thesis by (simp add: frame_at_def unat_mod)
qed

text \<open>The iterations look at every frame.\<close>

lemma frame_at_covers:
  assumes "0 < unat n" "unat n \<le> 8192" "clk \<le> n" "f < unat n"
  shows "\<exists>j < unat n. unat (frame_at n clk j) = f"
proof -
  let ?N = "unat n" and ?c = "unat clk"
  have c: "?c \<le> ?N" using assms(3) by (simp add: word_le_nat_alt)
  define j where "j = (f + (?N - ?c)) mod ?N"
  have j: "j < ?N" using assms(1) by (simp add: j_def)
  have "(?c + j) mod ?N = (?c + (f + (?N - ?c))) mod ?N" by (simp add: j_def mod_add_right_eq)
  also have "\<dots> = (f + ?N) mod ?N" using c by (simp add: algebra_simps)
  also have "\<dots> = f" using assms(4) by simp
  finally show ?thesis using frame_at_nat[OF assms(1-3) j] j by auto
qed

lemma cyc_pop_empty:
  assumes "pinvCyclic n (thisCpu s) {} s"
  shows "kSchedTaskPopCyclic n E s = (Some (idleAddr E (thisCpu s)), s)"
  using cyc_ready[OF assms] by (simp add: kSchedTaskPopCyclic_def)

lemma pinvCyclic_update:
  assumes "pinvCyclic n c Q s" "tasks s' = tasks s"
    and "frames (gSchedulersCyclic (pol s') c) = frames (gSchedulersCyclic (pol s) c)"
    and "clock (gSchedulersCyclic (pol s') c) \<le> n"
    and "numReadyThreads (gSchedulersCyclic (pol s') c) = word_of_nat (card Q')" "Q' \<subseteq> Q"
  shows "pinvCyclic n c Q' s'"
  using assms unfolding pinvCyclic_def Let_def by (metis subsetD)

lemma cyc_pop:
  assumes inv: "pinvCyclic n (thisCpu s) Q s" and ne: "Q \<noteq> {}" and Q: "Q = ready_set s (thisCpu s) {}"
  defines "q \<equiv> gSchedulersCyclic (pol s) (thisCpu s)"
  shows "\<exists>t j. t \<in> Q \<and> j < unat n \<and> frames q (unat (frame_at n (clock q) j)) = Some t
    \<and> (\<forall>j' u. j' < j \<and> frames q (unat (frame_at n (clock q) j')) = Some u \<longrightarrow> u \<notin> Q)
    \<and> fst (kSchedTaskPopCyclic n E s) = Some t
    \<and> clock (gSchedulersCyclic (pol (snd (kSchedTaskPopCyclic n E s))) (thisCpu s)) = frame_at n (clock q) j + 1
    \<and> remainingCyclic (linkCyclic (pol (snd (kSchedTaskPopCyclic n E s))) t) = timesliceTicksCyclic (paramCyclic (pol s) t)
    \<and> pinvCyclic n (thisCpu s) (Q - {t}) (snd (kSchedTaskPopCyclic n E s))
    \<and> policy_keeps (pinvCyclic n) tickableCyclic (knownCyclic n) (thisCpu s) V s (snd (kSchedTaskPopCyclic n E s))"
proof -
  let ?c = "thisCpu s"
  let ?st = "\<lambda>t. tstate (tasks s t)"
  note d = pinvCyclic_D[OF inv, folded q_def]
  have sm: "0 < unat n" "unat n \<le> 8192" using cyc_small[OF inv] by auto
  have ready: "?st t = K_TASK_STATE_READY \<longleftrightarrow> t \<in> Q" if "f < unat n" "frames q f = Some t" for f t
    using d(4)[OF that] unfolding Q by (simp add: ready_set_def live_def)
  obtain u where "u \<in> Q" using ne by blast
  then obtain f where f: "f < unat n" "frames q f = Some u" using d(5) by blast
  obtain j0 where "j0 < unat n" "unat (frame_at n (clock q) j0) = f"
    using frame_at_covers[OF sm d(3) f(1)] by blast
  then have "0 \<le> j0 \<and> j0 < 0 + unat n \<and> frames q (unat (frame_at n (clock q) j0)) = Some u \<and> ?st u = K_TASK_STATE_READY"
    using f ready[OF f] \<open>u \<in> Q\<close> by simp
  then have "\<exists>j t. 0 \<le> j \<and> j < 0 + unat n \<and> frames q (unat (frame_at n (clock q) j)) = Some t \<and> ?st t = K_TASK_STATE_READY"
    by blast
  from scan_found[OF this, of 0] obtain j t where r: "j < unat n" "frames q (unat (frame_at n (clock q) j)) = Some t"
      "?st t = K_TASK_STATE_READY"
      "scan_frames n ?st (frames q) (clock q) (unat n) 0 0 = (Some t, frame_at n (clock q) j)"
      "\<forall>j' u. j' < j \<and> frames q (unat (frame_at n (clock q) j')) = Some u \<longrightarrow> ?st u \<noteq> K_TASK_STATE_READY"
    by auto
  have lt: "unat (frame_at n (clock q) i) < unat n" if "i < unat n" for i
    using frame_at_nat[OF sm d(3) that] sm(1) by simp
  have tQ: "t \<in> Q" using ready[OF lt[OF r(1)] r(2)] r(3) by simp
  have nq: "numReadyThreads q \<noteq> 0" using cyc_ready[OF inv] ne by (simp add: q_def)
  let ?g = "\<lambda>q. q\<lparr>clock := frame_at n (clock (gSchedulersCyclic (pol s) ?c)) j + 1, numReadyThreads := numReadyThreads q - 1\<rparr>"
  let ?h = "\<lambda>l. l\<lparr>remainingCyclic := timesliceTicksCyclic (paramCyclic (pol s) t)\<rparr>"
  have e: "kSchedTaskPopCyclic n E s = (Some t, upd_cyc ?c ?g (upd_link_cyc t ?h s))"
    using r(4) nq by (simp add: kSchedTaskPopCyclic_def Let_def q_def[symmetric])
  have clk: "frame_at n (clock q) j + 1 \<le> n"
  proof -
    have "unat (frame_at n (clock q) j + 1) = unat (frame_at n (clock q) j) + 1"
      using unat_add_small[of "frame_at n (clock q) j" 1] lt[OF r(1)] sm(2) by simp
    then show ?thesis using lt[OF r(1)] by (simp add: word_le_nat_alt)
  qed
  have p: "pinvCyclic n ?c (Q - {t}) (upd_cyc ?c ?g (upd_link_cyc t ?h s))"
  proof (rule pinvCyclic_update[OF inv])
    have "(word_of_nat (card Q) :: u32) = word_of_nat (card (Q - {t})) + 1"
      unfolding card.remove[OF cyc_finite(1)[OF inv] tQ] by simp
    then have "numReadyThreads q - 1 = word_of_nat (card (Q - {t}))" unfolding d(6) by simp
    then show "numReadyThreads (gSchedulersCyclic (pol (upd_cyc ?c ?g (upd_link_cyc t ?h s))) ?c) = word_of_nat (card (Q - {t}))"
      by (simp add: q_def)
  qed (use clk in \<open>simp_all add: q_def[symmetric]\<close>)
  have k: "policy_keeps (pinvCyclic n) tickableCyclic (knownCyclic n) ?c V s (upd_cyc ?c ?g (upd_link_cyc t ?h s))"
    by (rule cyc_keeps, rule pol_only_trans[OF cyc_same(10) cyc_same(12)]) (auto simp: fun_upd_apply)
  have before: "\<forall>j' u. j' < j \<and> frames q (unat (frame_at n (clock q) j')) = Some u \<longrightarrow> u \<notin> Q"
  proof (intro allI impI)
    fix j' u assume a: "j' < j \<and> frames q (unat (frame_at n (clock q) j')) = Some u"
    then have "j' < unat n" using r(1) by simp
    then show "u \<notin> Q" using ready[OF lt] a r(5) by blast
  qed
  show ?thesis
    unfolding e fst_conv snd_conv
    by (rule exI[of _ t], rule exI[of _ j], intro conjI tQ r(1) r(2) before p k refl) (simp_all add: q_def)
qed

subsection \<open>Rescheduling\<close>

lemma cyc_reschedule:
  assumes inv: "pinvCyclic n (thisCpu s) Q s" and run: "runningTask (mach s) = Some r"
  shows "fst (kSchedShouldRescheduleCyclic s) =
    (case ttype (tasks s r) of
       K_TASK_THREAD \<Rightarrow> remainingCyclic (linkCyclic (pol s) r) = 0 \<and> Q \<noteq> {}
     | K_TASK_IDLE \<Rightarrow> Q \<noteq> {}
     | _ \<Rightarrow> False)"
    and "pinvCyclic n (thisCpu s) Q (snd (kSchedShouldRescheduleCyclic s))"
    and "policy_keeps (pinvCyclic n) tickableCyclic (knownCyclic n) (thisCpu s) V s (snd (kSchedShouldRescheduleCyclic s))"
proof -
  have run': "kTickGetRunningTask s = Some r" using run by (simp add: kTickGetRunningTask_def kTickGetMachine_def)
  note z = cyc_ready[OF inv]
  show "fst (kSchedShouldRescheduleCyclic s) =
    (case ttype (tasks s r) of
       K_TASK_THREAD \<Rightarrow> remainingCyclic (linkCyclic (pol s) r) = 0 \<and> Q \<noteq> {}
     | K_TASK_IDLE \<Rightarrow> Q \<noteq> {}
     | _ \<Rightarrow> False)"
    using run' z by (cases "ttype (tasks s r)")
      (simp_all add: kSchedShouldRescheduleCyclic_def Let_def word_greater_zero_iff)
  have cases: "snd (kSchedShouldRescheduleCyclic s) = s
      \<or> snd (kSchedShouldRescheduleCyclic s) =
         upd_link_cyc r (\<lambda>l. l\<lparr>remainingCyclic := timesliceTicksCyclic (paramCyclic (pol s) r)\<rparr>) s"
    using run' by (cases "ttype (tasks s r)") (simp_all add: kSchedShouldRescheduleCyclic_def Let_def)
  have l: "pinvCyclic n (thisCpu s) Q (upd_link_cyc r (\<lambda>l. l\<lparr>remainingCyclic := x\<rparr>) s)
    \<and> policy_keeps (pinvCyclic n) tickableCyclic (knownCyclic n) (thisCpu s) V s
        (upd_link_cyc r (\<lambda>l. l\<lparr>remainingCyclic := x\<rparr>) s)" for x
    by (rule cyc_link[OF inv]) simp
  show "pinvCyclic n (thisCpu s) Q (snd (kSchedShouldRescheduleCyclic s))"
    using cases inv l by auto
  show "policy_keeps (pinvCyclic n) tickableCyclic (knownCyclic n) (thisCpu s) V s (snd (kSchedShouldRescheduleCyclic s))"
    using cases cyc_refl l by metis
qed

lemma cyc_callback:
  assumes inv: "pinvCyclic n (thisCpu s) Q s"
  shows "pinvCyclic n (thisCpu s) Q (kSchedTaskTickCallbackCyclic t s)
    \<and> policy_keeps (pinvCyclic n) tickableCyclic (knownCyclic n) (thisCpu s) V s (kSchedTaskTickCallbackCyclic t s)"
  using inv cyc_epoch[OF inv] cyc_link[OF inv, of "\<lambda>l. l\<lparr>remainingCyclic := remainingCyclic l - 1\<rparr>"] cyc_refl
  by (cases "ttype (tasks s t)") (simp_all add: kSchedTaskTickCallbackCyclic_def)

interpretation cyclic: sched_policy "envCyclic n E" "pinvCyclic n" tickableCyclic "knownCyclic n"
proof unfold_locales
  fix s s' :: "cyclicState kstate" and c Q t r
  show "pinvCyclic n c Q s'" if "pol_same s s'" "pinvCyclic n c Q s"
    using that by (simp add: pol_same_def pinvCyclic_def)
  show "tickableCyclic t s'" "tickableCyclic t s" by (simp_all add: tickableCyclic_def)
  show "knownCyclic n t s'" if "pol_same s s'" "knownCyclic n t s"
    using that by (simp add: pol_same_def knownCyclic_def)
  show "pinvCyclic n (thisCpu s) Q (kSchedTickTransitionCallbackFn (ops (envCyclic n E)) s)
      \<and> policy_keeps (pinvCyclic n) tickableCyclic (knownCyclic n) (thisCpu s) Q s
          (kSchedTickTransitionCallbackFn (ops (envCyclic n E)) s)" if "pinvCyclic n (thisCpu s) Q s"
    using that cyc_refl by (simp add: kSchedTickTransitionCallbackCyclic_def)
  show "pinvCyclic n (cpuId (tasks s t)) (insert t Q) (kSchedPushFn (ops (envCyclic n E)) t s)
      \<and> policy_keeps (pinvCyclic n) tickableCyclic (knownCyclic n) (cpuId (tasks s t)) (insert t Q) s
          (kSchedPushFn (ops (envCyclic n E)) t s)"
    if "pinvCyclic n (cpuId (tasks s t)) Q s" "ttype (tasks s t) = K_TASK_THREAD" "t \<notin> Q" "knownCyclic n t s"
    using cyc_push[OF that] by simp
  show "pinvCyclic n (cpuId (tasks s t)) Q (kSchedPushFn (ops (envCyclic n E)) t s)
      \<and> policy_keeps (pinvCyclic n) tickableCyclic (knownCyclic n) (cpuId (tasks s t)) {} s
          (kSchedPushFn (ops (envCyclic n E)) t s)"
    if "pinvCyclic n (cpuId (tasks s t)) Q s" "ttype (tasks s t) = K_TASK_IDLE"
    using cyc_epoch[OF that(1)] that(2) by (simp add: kSchedTaskPushCyclic_def)
  show "policy_keeps (pinvCyclic n) tickableCyclic (knownCyclic n) (thisCpu s) Q s (snd (kSchedTaskPopFn (ops (envCyclic n E)) s))
      \<and> (if Q = {}
         then fst (kSchedTaskPopFn (ops (envCyclic n E)) s) = Some (idleAddr (envCyclic n E) (thisCpu s))
            \<and> pinvCyclic n (thisCpu s) {} (snd (kSchedTaskPopFn (ops (envCyclic n E)) s))
         else \<exists>t \<in> Q. fst (kSchedTaskPopFn (ops (envCyclic n E)) s) = Some t
            \<and> pinvCyclic n (thisCpu s) (Q - {t}) (snd (kSchedTaskPopFn (ops (envCyclic n E)) s))
            \<and> tickableCyclic t (snd (kSchedTaskPopFn (ops (envCyclic n E)) s)))"
    if inv: "pinvCyclic n (thisCpu s) Q s" and Q: "Q = ready_set s (thisCpu s) {}"
  proof (cases "Q = {}")
    case True
    then show ?thesis using inv cyc_pop_empty[of n s E] cyc_refl by simp
  next
    case False
    obtain t where "t \<in> Q" "fst (kSchedTaskPopCyclic n E s) = Some t"
        "pinvCyclic n (thisCpu s) (Q - {t}) (snd (kSchedTaskPopCyclic n E s))"
        "policy_keeps (pinvCyclic n) tickableCyclic (knownCyclic n) (thisCpu s) Q s (snd (kSchedTaskPopCyclic n E s))"
      using cyc_pop[OF inv False Q, of E Q] by blast
    then show ?thesis using False by (auto simp: tickableCyclic_def)
  qed
  show "pinvCyclic n (thisCpu s) Q (kSchedTaskTickCallbackFn (ops (envCyclic n E)) t s)
      \<and> policy_keeps (pinvCyclic n) tickableCyclic (knownCyclic n) (thisCpu s) {t} s
          (kSchedTaskTickCallbackFn (ops (envCyclic n E)) t s)
      \<and> (ttype (tasks s t) = K_TASK_THREAD \<longrightarrow> 0 < currentBudget (tick (tasks s t)) \<longrightarrow>
         tstate (tasks s t) \<noteq> K_TASK_STATE_THREAD_DEFTICK_SLEEP \<longrightarrow>
         tickableCyclic t (kSchedTaskTickCallbackFn (ops (envCyclic n E)) t s))"
    if "pinvCyclic n (thisCpu s) Q s"
    using cyc_callback[OF that] by (simp add: tickableCyclic_def)
  show "pinvCyclic n (thisCpu s) Q (snd (kSchedShouldRescheduleFn (ops (envCyclic n E)) s))
      \<and> policy_keeps (pinvCyclic n) tickableCyclic (knownCyclic n) (thisCpu s) Q s
          (snd (kSchedShouldRescheduleFn (ops (envCyclic n E)) s))
      \<and> (fst (kSchedShouldRescheduleFn (ops (envCyclic n E)) s) \<longrightarrow> Q \<noteq> {})"
    if "pinvCyclic n (thisCpu s) Q s" "runningTask (mach s) = Some r"
    using cyc_reschedule[OF that] by (auto split: kSchedTaskType.splits)
  show "pinvCyclic n (cpuId (tasks s t)) Q (kSchedTaskLsrOutCallbackFn (ops (envCyclic n E)) t s)
      \<and> policy_keeps (pinvCyclic n) tickableCyclic (knownCyclic n) (cpuId (tasks s t)) {} s
          (kSchedTaskLsrOutCallbackFn (ops (envCyclic n E)) t s)"
    if "pinvCyclic n (cpuId (tasks s t)) Q s" "ttype (tasks s t) = K_TASK_LSR"
    using cyc_epoch[OF that(1)] that(2) by (simp add: kSchedTaskLsrOutCallbackCyclic_def)
qed

end
