(* ===== verification/PolicyEdf.thy ===== *)
theory PolicyEdf
  imports Policy
begin

text \<open>
  The earliest deadline first policy (\<^verbatim>\<open>kSchedEdf.c\<close>): a delta chain of the ready threads,
  ordered by the ticks left until their virtual deadlines. A thread that is not queued keeps the
  ticks to its deadline in its own node. \<open>kSchedFixupChainEdf\<close> renews the deadlines that have
  passed; its loop is a recursion bounded by the length of the chain, and \<open>fixup_renews\<close> shows
  that the bound is enough. The policy interprets the locale \<open>sched_policy\<close>.
\<close>

record kSchedParamEdf =
  virtualDeadline :: u32

record kSchedulerEdf =
  edfChain :: deltaChain

text \<open>
  \<open>paramEdf\<close>, \<open>linkEdf\<close> and \<open>epochLinkEdf\<close> are the policy's fields in the tagged union of the
  task at an address.
\<close>

record edfState =
  gSchedulersEdf :: "u32 \<Rightarrow> kSchedulerEdf"
  paramEdf :: "addr \<Rightarrow> kSchedParamEdf"
  linkEdf :: nodes
  epochLinkEdf :: "addr \<Rightarrow> epochLink"

definition set_chain_edf :: "u32 \<Rightarrow> nodes \<times> deltaChain \<Rightarrow> edfState kstate \<Rightarrow> edfState kstate" where
  "set_chain_edf c r = upd_pol (\<lambda>p. p\<lparr>linkEdf := fst r,
     gSchedulersEdf := (gSchedulersEdf p)(c := (gSchedulersEdf p c)\<lparr>edfChain := snd r\<rparr>)\<rparr>)"

definition set_delta_edf :: "addr \<Rightarrow> u32 \<Rightarrow> edfState kstate \<Rightarrow> edfState kstate" where
  "set_delta_edf t d = upd_pol (\<lambda>p. p\<lparr>linkEdf := (linkEdf p)(t := (linkEdf p t)\<lparr>delta := d\<rparr>)\<rparr>)"

definition upd_epoch_edf :: "addr \<Rightarrow> (epochLink \<Rightarrow> epochLink) \<Rightarrow> edfState kstate \<Rightarrow> edfState kstate" where
  "upd_epoch_edf t f = upd_pol (\<lambda>p. p\<lparr>epochLinkEdf := (epochLinkEdf p)(t := f (epochLinkEdf p t))\<rparr>)"

abbreviation chainEdf :: "edfState kstate \<Rightarrow> u32 \<Rightarrow> deltaChain" where
  "chainEdf s c \<equiv> edfChain (gSchedulersEdf (pol s) c)"

fun fixup_loop :: "nat \<Rightarrow> edfState kstate \<Rightarrow> edfState kstate" where
  "fixup_loop n s =
    (case deltaChainPopExpired (linkEdf (pol s)) (chainEdf s (thisCpu s)) of
       (None, _) \<Rightarrow> s
     | (Some t, chain) \<Rightarrow>
         (case n of
            0 \<Rightarrow> fault StuckLoop s
          | Suc n \<Rightarrow>
              fixup_loop n (set_chain_edf (thisCpu s)
                (deltaChainInsert (linkEdf (pol s)) chain t (virtualDeadline (paramEdf (pol s) t))) s)))"

declare fixup_loop.simps [simp del]

definition kSchedFixupChainEdf :: "edfState kstate \<Rightarrow> edfState kstate" where
  "kSchedFixupChainEdf s = fixup_loop (length (chain_dq (chainEdf s (thisCpu s)))) s"

definition kSchedInitEdf :: "edfState kEnv \<Rightarrow> edfState kstate \<Rightarrow> edfState kstate" where
  "kSchedInitEdf E s = kSchedTaskIdleInit E (idleAddr E (thisCpu s)) s"

definition kSchedTickTransitionCallbackEdf :: "edfState kstate \<Rightarrow> edfState kstate" where
  "kSchedTickTransitionCallbackEdf s =
    set_chain_edf (thisCpu s) (deltaChainTick (linkEdf (pol s)) (chainEdf s (thisCpu s))) s"

definition kSchedTaskPushEdf :: "addr \<Rightarrow> edfState kstate \<Rightarrow> edfState kstate" where
  "kSchedTaskPushEdf t s =
    (case ttype (tasks s t) of
       K_TASK_THREAD \<Rightarrow>
         let d = (if delta (linkEdf (pol s) t) = 0 then virtualDeadline (paramEdf (pol s) t)
                  else delta (linkEdf (pol s) t));
             c = cpuId (tasks s t)
         in set_chain_edf c (deltaChainInsert (linkEdf (pol s)) (chainEdf s c) t d) s
     | K_TASK_IDLE \<Rightarrow> upd_epoch_edf t (\<lambda>l. l\<lparr>idleWindowEpoch := 0\<rparr>) s
     | _ \<Rightarrow> s)"

definition kSchedTaskPopEdf :: "edfState kEnv \<Rightarrow> edfState kstate \<Rightarrow> ptr \<times> edfState kstate" where
  "kSchedTaskPopEdf E s =
    (let s = kSchedFixupChainEdf s;
         c = thisCpu s
     in case deltaChainPop (linkEdf (pol s)) (chainEdf s c) of
          (p, r) \<Rightarrow> (case p of None \<Rightarrow> Some (idleAddr E c) | Some t \<Rightarrow> Some t, set_chain_edf c r s))"

definition kSchedTaskTickCallbackEdf :: "algorithm \<Rightarrow> addr \<Rightarrow> edfState kstate \<Rightarrow> edfState kstate" where
  "kSchedTaskTickCallbackEdf a t s =
    (case ttype (tasks s t) of
       K_TASK_THREAD \<Rightarrow>
         let tk = tick (tasks s t);
             sleeping = (tstate (tasks s t) = K_TASK_STATE_THREAD_DEFTICK_SLEEP);
             s = (if sleeping then K_DYNAMIC_ASSERT (sleepTicks tk > 0) s else s)
         in if sleeping \<and> delta (linkEdf (pol s) t) < sleepTicks tk then set_delta_edf t 0 s
            else
              let s = (if sleeping then set_delta_edf t (delta (linkEdf (pol s) t) - (sleepTicks tk - 1)) s else s);
                  s = K_DYNAMIC_ASSERT (delta (linkEdf (pol s) t) > 0) s;
                  s = set_delta_edf t (delta (linkEdf (pol s) t) - 1) s
              in if currentBudget tk = 0
                 then let p = (if a = DS then (if period tk = 0 then period tk else kTickThrottleTimeLeft t s)
                               else period tk)
                      in if delta (linkEdf (pol s) t) < p then set_delta_edf t 0 s
                         else set_delta_edf t (delta (linkEdf (pol s) t) - p) s
                 else if delta (linkEdf (pol s) t) = 0
                 then set_delta_edf t (virtualDeadline (paramEdf (pol s) t)) s
                 else s
     | K_TASK_LSR \<Rightarrow> upd_epoch_edf t epoch_tick s
     | K_TASK_IDLE \<Rightarrow> upd_epoch_edf t epoch_tick s
     | _ \<Rightarrow> s)"

definition kSchedShouldRescheduleEdf :: "edfState kstate \<Rightarrow> bool \<times> edfState kstate" where
  "kSchedShouldRescheduleEdf s =
    (case kTickGetRunningTask s of
       None \<Rightarrow> (False, fault NullDeref (fault AssertFailed s))
     | Some r \<Rightarrow>
         let s = K_DYNAMIC_ASSERT (tstate (tasks s r) = K_TASK_STATE_RUNNING) s;
             c = cpuId (tasks s r)
         in case ttype (tasks s r) of
              K_TASK_THREAD \<Rightarrow>
                let d = delta (linkEdf (pol s) r);
                    s = kSchedFixupChainEdf s
                in (case deltaChainPeek (chainEdf s c) of
                      None \<Rightarrow> (False, s)
                    | Some next \<Rightarrow> (delta (linkEdf (pol s) next) < d, s))
            | K_TASK_IDLE \<Rightarrow> (\<not> deltaChainIsEmpty (chainEdf s c), s)
            | _ \<Rightarrow> (False, s))"

definition kSchedTaskLsrOutCallbackEdf :: "addr \<Rightarrow> edfState kstate \<Rightarrow> edfState kstate" where
  "kSchedTaskLsrOutCallbackEdf t s =
    (if ttype (tasks s t) \<noteq> K_TASK_LSR then s
     else upd_epoch_edf t (\<lambda>l. l\<lparr>idleWindowEpoch := 0\<rparr>) s)"

definition kSchedGetIdleEdf :: "edfState kEnv \<Rightarrow> u32 \<Rightarrow> edfState kstate \<Rightarrow> ptr \<times> edfState kstate" where
  "kSchedGetIdleEdf E c s = get_idle E c s"

definition opsEdf :: "edfState kEnv \<Rightarrow> edfState kSchedOps" where
  "opsEdf E = \<lparr>
     kSchedInitFn = kSchedInitEdf E,
     kSchedTickTransitionCallbackFn = kSchedTickTransitionCallbackEdf,
     kSchedPushFn = kSchedTaskPushEdf,
     kSchedTaskPopFn = kSchedTaskPopEdf E,
     kSchedTaskTickCallbackFn = kSchedTaskTickCallbackEdf (alg E),
     kSchedShouldRescheduleFn = kSchedShouldRescheduleEdf,
     kSchedTaskLsrOutCallbackFn = kSchedTaskLsrOutCallbackEdf,
     kSchedGetIdleFn = kSchedGetIdleEdf E\<rparr>"

definition kSchedOpsInitEdf :: "edfState kstate \<Rightarrow> edfState kstate" where
  "kSchedOpsInitEdf s = snd (kSchedOpsInit s)"

text \<open>The environment in which the policy is configured.\<close>

definition envEdf :: "edfState kEnv \<Rightarrow> edfState kEnv" where
  "envEdf E = E\<lparr>ops := opsEdf E\<rparr>"

lemma envEdf_simps [simp]:
  "ops (envEdf E) = opsEdf E" "idleAddr (envEdf E) = idleAddr E" "alg (envEdf E) = alg E"
  "cpuValid (envEdf E) = cpuValid E" "KMAX_CPUS (envEdf E) = KMAX_CPUS E"
  by (simp_all add: envEdf_def)

lemma opsEdf_simps [simp]:
  "kSchedInitFn (opsEdf E) = kSchedInitEdf E"
  "kSchedTickTransitionCallbackFn (opsEdf E) = kSchedTickTransitionCallbackEdf"
  "kSchedPushFn (opsEdf E) = kSchedTaskPushEdf"
  "kSchedTaskPopFn (opsEdf E) = kSchedTaskPopEdf E"
  "kSchedTaskTickCallbackFn (opsEdf E) = kSchedTaskTickCallbackEdf (alg E)"
  "kSchedShouldRescheduleFn (opsEdf E) = kSchedShouldRescheduleEdf"
  "kSchedTaskLsrOutCallbackFn (opsEdf E) = kSchedTaskLsrOutCallbackEdf"
  "kSchedGetIdleFn (opsEdf E) = kSchedGetIdleEdf E"
  by (simp_all add: opsEdf_def)

subsection \<open>The invariant\<close>

text \<open>
  The chain of CPU \<open>c\<close> is well formed, holds exactly the threads \<open>Q\<close>, and each of them belongs to
  the CPU and has a deadline. The timers of the chain are \<open>edf_timers\<close>.
\<close>

definition pinvEdf :: "u32 \<Rightarrow> addr set \<Rightarrow> edfState kstate \<Rightarrow> bool" where
  "pinvEdf c Q s \<longleftrightarrow> chain_wf (linkEdf (pol s)) (chainEdf s c) \<and> set (chain_dq (chainEdf s c)) = Q
     \<and> (\<forall>t \<in> Q. cpuId (tasks s t) = c \<and> virtualDeadline (paramEdf (pol s) t) > 0)"

definition knownEdf :: "addr \<Rightarrow> edfState kstate \<Rightarrow> bool" where
  "knownEdf t s \<longleftrightarrow> virtualDeadline (paramEdf (pol s) t) > 0"

definition tickableEdf :: "addr \<Rightarrow> edfState kstate \<Rightarrow> bool" where
  "tickableEdf t s \<longleftrightarrow> (ttype (tasks s t) = K_TASK_THREAD \<longrightarrow> delta (linkEdf (pol s) t) > 0)"

definition edf_timers :: "edfState kstate \<Rightarrow> u32 \<Rightarrow> (addr \<times> nat) list" where
  "edf_timers s c = chain_timers (linkEdf (pol s)) (chainEdf s c)"

lemma edf_same [simp]:
  "tasks (set_chain_edf c r s) = tasks s" "tasks (set_delta_edf t d s) = tasks s" "tasks (upd_epoch_edf t f s) = tasks s"
  "thisCpu (set_chain_edf c r s) = thisCpu s" "thisCpu (set_delta_edf t d s) = thisCpu s" "thisCpu (upd_epoch_edf t f s) = thisCpu s"
  "paramEdf (pol (set_chain_edf c r s)) = paramEdf (pol s)" "paramEdf (pol (set_delta_edf t d s)) = paramEdf (pol s)"
  "paramEdf (pol (upd_epoch_edf t f s)) = paramEdf (pol s)"
  "linkEdf (pol (set_chain_edf c r s)) = fst r"
  "linkEdf (pol (set_delta_edf t d s)) = (linkEdf (pol s))(t := (linkEdf (pol s) t)\<lparr>delta := d\<rparr>)"
  "linkEdf (pol (upd_epoch_edf t f s)) = linkEdf (pol s)"
  "gSchedulersEdf (pol (set_chain_edf c r s)) = (gSchedulersEdf (pol s))(c := (gSchedulersEdf (pol s) c)\<lparr>edfChain := snd r\<rparr>)"
  "gSchedulersEdf (pol (set_delta_edf t d s)) = gSchedulersEdf (pol s)"
  "gSchedulersEdf (pol (upd_epoch_edf t f s)) = gSchedulersEdf (pol s)"
  "pol_only s (set_chain_edf c r s)" "pol_only s (set_delta_edf t d s)" "pol_only s (upd_epoch_edf t f s)"
  by (simp_all add: set_chain_edf_def set_delta_edf_def upd_epoch_edf_def)

lemma kTickThrottleTimeLeft_edf [simp]: "kTickThrottleTimeLeft t (set_delta_edf u d s) = kTickThrottleTimeLeft t s"
  by (simp add: kTickThrottleTimeLeft_def set_delta_edf_def)

text \<open>
  An operation keeps what it must when it changes at most the nodes in \<open>V\<close>, all of them on CPU
  \<open>c\<close>, and the chain of \<open>c\<close>.
\<close>

lemma edf_keeps:
  assumes po: "pol_only s s'"
    and V: "\<And>u. u \<notin> V \<Longrightarrow> linkEdf (pol s') u = linkEdf (pol s) u" "\<And>u. u \<in> V \<Longrightarrow> cpuId (tasks s u) = c"
    and par: "paramEdf (pol s') = paramEdf (pol s)"
    and ch: "\<And>c'. c' \<noteq> c \<Longrightarrow> gSchedulersEdf (pol s') c' = gSchedulersEdf (pol s) c'"
  shows "policy_keeps pinvEdf tickableEdf knownEdf c V s s'"
proof -
  have t: "tasks s' = tasks s" using po unfolding pol_only_def
    by (metis kstate.select_convs(2) kstate.surjective kstate.update_convs(12))
  show ?thesis
    unfolding policy_keeps_def
  proof (intro conjI allI impI po)
    fix u show "tickableEdf u s'" if "u \<notin> V" "tickableEdf u s"
      using that V(1) by (simp add: tickableEdf_def t)
    show "knownEdf u s'" if "knownEdf u s" using that by (simp add: knownEdf_def par)
  next
    fix c' Q assume a: "c' \<noteq> c" "pinvEdf c' Q s"
    have "linkEdf (pol s') u = linkEdf (pol s) u" if "u \<in> Q" for u
      using that a V unfolding pinvEdf_def by metis
    then have "delta_sum (linkEdf (pol s')) (chain_dq (chainEdf s c')) = delta_sum (linkEdf (pol s)) (chain_dq (chainEdf s c'))"
      using a(2) by (intro delta_sum_cong) (simp add: pinvEdf_def)
    then show "pinvEdf c' Q s'" using a ch[OF a(1)] by (simp add: pinvEdf_def chain_wf_def t par)
  qed
qed

subsection \<open>Renewing deadlines\<close>

text \<open>
  Every expired timer starts again from its thread's deadline, in the order of the queue. The
  timers that have not expired stay as they are.
\<close>

definition renew :: "(addr \<Rightarrow> nat) \<Rightarrow> (addr \<times> nat) list \<Rightarrow> (addr \<times> nat) list" where
  "renew vd ts = fold (\<lambda>(t, _). insert_timer (t, vd t)) (takeWhile (\<lambda>(_, r). r = 0) ts)
     (dropWhile (\<lambda>(_, r). r = 0) ts)"

lemma insert_timer_expired:
  assumes "0 < d"
  shows "takeWhile (\<lambda>(_, r). r = 0) (insert_timer (t, d) ts) = takeWhile (\<lambda>(_, r). r = 0) ts
    \<and> dropWhile (\<lambda>(_, r). r = 0) (insert_timer (t, d) ts) = insert_timer (t, d) (dropWhile (\<lambda>(_, r). r = 0) ts)"
  using assms by (induction ts) auto

lemma renew_step: "0 < vd t \<Longrightarrow> renew vd (insert_timer (t, vd t) ts) = renew vd ((t, 0) # ts)"
  using insert_timer_expired[of "vd t" t ts] by (simp add: renew_def)

lemma renew_current: "ts = [] \<or> 0 < snd (hd ts) \<Longrightarrow> renew vd ts = ts"
  by (cases ts) (auto simp: renew_def)

definition edf_moved :: "addr set \<Rightarrow> edfState kstate \<Rightarrow> edfState kstate \<Rightarrow> bool" where
  "edf_moved V s s' \<longleftrightarrow> pol_only s s' \<and> paramEdf (pol s') = paramEdf (pol s)
     \<and> (\<forall>u. u \<notin> V \<longrightarrow> linkEdf (pol s') u = linkEdf (pol s) u)
     \<and> (\<forall>c'. c' \<noteq> thisCpu s \<longrightarrow> gSchedulersEdf (pol s') c' = gSchedulersEdf (pol s) c')"

lemma edf_moved_same: "edf_moved V s s' \<Longrightarrow> tasks s' = tasks s" "edf_moved V s s' \<Longrightarrow> thisCpu s' = thisCpu s"
  unfolding edf_moved_def pol_only_def
  by (metis kstate.select_convs(1,2) kstate.surjective kstate.update_convs(12))+

lemma edf_moved_trans: "edf_moved V s s' \<Longrightarrow> edf_moved V s' s'' \<Longrightarrow> edf_moved V s s''"
  using edf_moved_same(2)[of V s s'] pol_only_trans[of s s' s''] by (auto simp: edf_moved_def)

lemma edf_moved_keeps:
  assumes "edf_moved Q s s'" "pinvEdf (thisCpu s) Q s"
  shows "policy_keeps pinvEdf tickableEdf knownEdf (thisCpu s) Q s s'"
  using assms by (intro edf_keeps) (auto simp: edf_moved_def pinvEdf_def)

text \<open>Insertion into the chain of this CPU.\<close>

lemma edf_insert:
  fixes d :: u32
  assumes wf: "chain_wf (linkEdf (pol s)) chain" and t: "t \<notin> set (chain_dq chain)"
    and Q: "set (chain_dq chain) = Q - {t}"
    and par: "\<forall>u \<in> insert t Q. cpuId (tasks s u) = c \<and> virtualDeadline (paramEdf (pol s) u) > 0"
  defines "s' \<equiv> set_chain_edf c (deltaChainInsert (linkEdf (pol s)) chain t d) s"
  shows "pinvEdf c (insert t Q) s'" "edf_timers s' c = insert_timer (t, unat d) (chain_timers (linkEdf (pol s)) chain)"
    "\<And>u. u \<notin> insert t Q \<Longrightarrow> linkEdf (pol s') u = linkEdf (pol s) u"
proof -
  obtain ns' chain' where i: "deltaChainInsert (linkEdf (pol s)) chain t d = (ns', chain')" by fastforce
  note sp = deltaChainInsert_spec[OF i wf t] and st = deltaChainInsert_set(1)[OF i]
  show "edf_timers s' c = insert_timer (t, unat d) (chain_timers (linkEdf (pol s)) chain)"
    using sp(1) by (simp add: s'_def edf_timers_def i)
  show "pinvEdf c (insert t Q) s'"
    using sp(2) st Q par by (auto simp: s'_def pinvEdf_def i)
  show "linkEdf (pol s') u = linkEdf (pol s) u" if "u \<notin> insert t Q" for u
    using deltaChainInsert_frame(1)[OF i, of u] that Q by (simp add: s'_def i)
qed

lemma fixup_loop_renews:
  assumes "pinvEdf (thisCpu s) Q s" "length (takeWhile (\<lambda>(_, r). r = 0) (edf_timers s (thisCpu s))) \<le> n"
  shows "pinvEdf (thisCpu s) Q (fixup_loop n s) \<and> edf_moved Q s (fixup_loop n s)
    \<and> edf_timers (fixup_loop n s) (thisCpu s)
        = renew (\<lambda>t. unat (virtualDeadline (paramEdf (pol s) t))) (edf_timers s (thisCpu s))
    \<and> (edf_timers (fixup_loop n s) (thisCpu s) = [] \<or> 0 < snd (hd (edf_timers (fixup_loop n s) (thisCpu s))))"
  using assms
proof (induction n arbitrary: s)
  case (0 s)
  obtain p chain where pe: "deltaChainPopExpired (linkEdf (pol s)) (chainEdf s (thisCpu s)) = (p, chain)" by fastforce
  have "p = None"
    using deltaChainPopExpired_spec(2)[OF pe] 0(2) by (cases p) (auto simp: edf_timers_def)
  then show ?case
    using pe 0(1) deltaChainPopExpired_spec(1)[OF pe]
    by (simp add: edf_moved_def edf_timers_def renew_current fixup_loop.simps[of 0])
next
  case (Suc n s)
  let ?c = "thisCpu s"
  obtain p chain where pe: "deltaChainPopExpired (linkEdf (pol s)) (chainEdf s ?c) = (p, chain)" by fastforce
  show ?case
  proof (cases p)
    case None
    then show ?thesis
      using pe Suc.prems(1) deltaChainPopExpired_spec(1)[OF pe]
      by (simp add: edf_moved_def edf_timers_def renew_current fixup_loop.simps[of "Suc n"])
  next
    case (Some t)
    note sp = deltaChainPopExpired_spec(2)[OF pe Some]
    have wf: "chain_wf (linkEdf (pol s)) (chainEdf s ?c)" and Q: "set (chain_dq (chainEdf s ?c)) = Q"
      and par: "\<forall>u \<in> Q. cpuId (tasks s u) = ?c \<and> virtualDeadline (paramEdf (pol s) u) > 0"
      using Suc.prems(1) by (auto simp: pinvEdf_def)
    have t: "t \<notin> set (chain_dq chain)" "set (chain_dq chain) = Q - {t}" "t \<in> Q" "insert t Q = Q"
      using wf Q sp by (auto simp: chain_wf_def)
    let ?s1 = "set_chain_edf ?c (deltaChainInsert (linkEdf (pol s)) chain t (virtualDeadline (paramEdf (pol s) t))) s"
    have par': "\<forall>u \<in> insert t Q. cpuId (tasks s u) = ?c \<and> virtualDeadline (paramEdf (pol s) u) > 0"
      using par t(4) by simp
    note ins = edf_insert[OF deltaChainPopExpired_wf[OF pe wf] t(1,2) par', where d = "virtualDeadline (paramEdf (pol s) t)"]
    have vd: "0 < unat (virtualDeadline (paramEdf (pol s) t))" using par t(3) by (simp add: unat_gt_0 word_greater_zero_iff)
    have T: "edf_timers s ?c = (t, 0) # chain_timers (linkEdf (pol s)) chain" using sp by (simp add: edf_timers_def)
    have m: "edf_moved Q s ?s1" using ins(3) t(4) by (simp add: edf_moved_def)
    have P: "pinvEdf (thisCpu ?s1) Q ?s1" using ins(1) unfolding t(4) by simp
    have "length (takeWhile (\<lambda>(_, r). r = 0) (edf_timers ?s1 (thisCpu ?s1))) \<le> n"
      using Suc.prems(2) insert_timer_expired[OF vd] T by (simp add: ins(2))
    from Suc.IH[OF P this] have "pinvEdf ?c Q (fixup_loop n ?s1) \<and> edf_moved Q ?s1 (fixup_loop n ?s1)
      \<and> edf_timers (fixup_loop n ?s1) ?c
        = renew (\<lambda>t. unat (virtualDeadline (paramEdf (pol s) t))) (edf_timers ?s1 ?c)
      \<and> (edf_timers (fixup_loop n ?s1) ?c = [] \<or> 0 < snd (hd (edf_timers (fixup_loop n ?s1) ?c)))"
      unfolding edf_same(4,7) by blast
    then have ih: "pinvEdf ?c Q (fixup_loop n ?s1)" "edf_moved Q ?s1 (fixup_loop n ?s1)"
      "edf_timers (fixup_loop n ?s1) ?c
        = renew (\<lambda>t. unat (virtualDeadline (paramEdf (pol s) t))) (edf_timers ?s1 ?c)"
      "edf_timers (fixup_loop n ?s1) ?c = [] \<or> 0 < snd (hd (edf_timers (fixup_loop n ?s1) ?c))"
      by - (elim conjE, assumption)+
    have r: "edf_timers (fixup_loop n ?s1) ?c
        = renew (\<lambda>t. unat (virtualDeadline (paramEdf (pol s) t))) (edf_timers s ?c)"
      unfolding ih(3) ins(2) T
      using renew_step[of "\<lambda>t. unat (virtualDeadline (paramEdf (pol s) t))" t] vd by simp
    have e: "fixup_loop (Suc n) s = fixup_loop n ?s1" using pe Some by (simp add: fixup_loop.simps[of "Suc n"])
    show ?thesis unfolding e using ih(1,4) r edf_moved_trans[OF m ih(2)] by blast
  qed
qed

lemma fixup_renews:
  assumes "pinvEdf (thisCpu s) Q s"
  shows "pinvEdf (thisCpu s) Q (kSchedFixupChainEdf s)" "edf_moved Q s (kSchedFixupChainEdf s)"
    "edf_timers (kSchedFixupChainEdf s) (thisCpu s)
        = renew (\<lambda>t. unat (virtualDeadline (paramEdf (pol s) t))) (edf_timers s (thisCpu s))"
    "edf_timers (kSchedFixupChainEdf s) (thisCpu s) = []
      \<or> 0 < snd (hd (edf_timers (kSchedFixupChainEdf s) (thisCpu s)))"
proof -
  have "length (edf_timers s (thisCpu s)) = length (chain_dq (chainEdf s (thisCpu s)))"
    unfolding edf_timers_def chain_timers_def by (metis length_map map_fst_timers)
  then have "length (takeWhile (\<lambda>(_, r). r = 0) (edf_timers s (thisCpu s))) \<le> length (chain_dq (chainEdf s (thisCpu s)))"
    using length_takeWhile_le by metis
  from fixup_loop_renews[OF assms this] show "pinvEdf (thisCpu s) Q (kSchedFixupChainEdf s)"
    "edf_moved Q s (kSchedFixupChainEdf s)"
    "edf_timers (kSchedFixupChainEdf s) (thisCpu s)
        = renew (\<lambda>t. unat (virtualDeadline (paramEdf (pol s) t))) (edf_timers s (thisCpu s))"
    "edf_timers (kSchedFixupChainEdf s) (thisCpu s) = []
      \<or> 0 < snd (hd (edf_timers (kSchedFixupChainEdf s) (thisCpu s)))"
    unfolding kSchedFixupChainEdf_def by - (elim conjE, assumption)+
qed

subsection \<open>Pushes and ticks\<close>

lemma edf_push:
  assumes inv: "pinvEdf (cpuId (tasks s t)) Q s" and ty: "ttype (tasks s t) = K_TASK_THREAD"
    and t: "t \<notin> Q" "knownEdf t s"
  shows "pinvEdf (cpuId (tasks s t)) (insert t Q) (kSchedTaskPushEdf t s)
    \<and> policy_keeps pinvEdf tickableEdf knownEdf (cpuId (tasks s t)) (insert t Q) s (kSchedTaskPushEdf t s)
    \<and> edf_timers (kSchedTaskPushEdf t s) (cpuId (tasks s t)) =
        insert_timer (t, unat (if delta (linkEdf (pol s) t) = 0 then virtualDeadline (paramEdf (pol s) t)
            else delta (linkEdf (pol s) t)))
          (edf_timers s (cpuId (tasks s t)))"
proof -
  let ?c = "cpuId (tasks s t)"
  let ?d = "if delta (linkEdf (pol s) t) = 0 then virtualDeadline (paramEdf (pol s) t) else delta (linkEdf (pol s) t)"
  have e: "kSchedTaskPushEdf t s = set_chain_edf ?c (deltaChainInsert (linkEdf (pol s)) (chainEdf s ?c) t ?d) s"
    using ty by (simp add: kSchedTaskPushEdf_def Let_def)
  have par: "\<forall>u \<in> insert t Q. cpuId (tasks s u) = ?c \<and> virtualDeadline (paramEdf (pol s) u) > 0"
    using inv t(2) by (auto simp: pinvEdf_def knownEdf_def)
  have wf: "chain_wf (linkEdf (pol s)) (chainEdf s ?c)" "t \<notin> set (chain_dq (chainEdf s ?c))"
    "set (chain_dq (chainEdf s ?c)) = Q - {t}" using inv t(1) by (auto simp: pinvEdf_def)
  note i = edf_insert[OF wf par, where d = ?d, folded e]
  have "policy_keeps pinvEdf tickableEdf knownEdf ?c (insert t Q) s (kSchedTaskPushEdf t s)"
  proof (rule edf_keeps)
    show "linkEdf (pol (kSchedTaskPushEdf t s)) u = linkEdf (pol s) u" if "u \<notin> insert t Q" for u by (rule i(3)[OF that])
    show "cpuId (tasks s u) = ?c" if "u \<in> insert t Q" for u using par that by blast
  qed (simp_all add: e del: fun_upd_apply, simp)
  then show ?thesis using i(1,2) by (simp only: edf_timers_def)
qed

lemma edf_tick:
  assumes inv: "pinvEdf (thisCpu s) Q s"
  shows "pinvEdf (thisCpu s) Q (kSchedTickTransitionCallbackEdf s)
    \<and> policy_keeps pinvEdf tickableEdf knownEdf (thisCpu s) Q s (kSchedTickTransitionCallbackEdf s)
    \<and> edf_timers (kSchedTickTransitionCallbackEdf s) (thisCpu s) = map (apsnd (\<lambda>r. r - 1)) (edf_timers s (thisCpu s))"
proof -
  let ?c = "thisCpu s"
  obtain ns chain where tk: "deltaChainTick (linkEdf (pol s)) (chainEdf s ?c) = (ns, chain)" by fastforce
  have wf: "chain_wf (linkEdf (pol s)) (chainEdf s ?c)" "set (chain_dq (chainEdf s ?c)) = Q"
    using inv by (auto simp: pinvEdf_def)
  note sp = deltaChainTick_spec[OF tk wf(1)]
  have e: "kSchedTickTransitionCallbackEdf s = set_chain_edf ?c (ns, chain) s"
    by (simp add: kSchedTickTransitionCallbackEdf_def tk)
  have fr: "ns u = linkEdf (pol s) u" if "u \<notin> Q" for u
    using tk that wf(2) by (auto simp: deltaChainTick_def tick_walk_other)
  have "edf_moved Q s (set_chain_edf ?c (ns, chain) s)" using fr by (simp add: edf_moved_def)
  from edf_moved_keeps[OF this inv] show ?thesis
    using sp inv unfolding e by (simp add: pinvEdf_def edf_timers_def)
qed

subsection \<open>Pop\<close>

lemma deltaChainPop_first:
  assumes "deltaChainPop ns chain = (p, ns', chain')" "chain_wf ns chain" "chain_dq chain \<noteq> []"
  shows "\<exists>c. p = Some c \<and> chain_dq chain = c # chain_dq chain'
    \<and> chain_timers ns chain = (c, unat (delta (ns' c))) # chain_timers ns' chain'
    \<and> (\<forall>u. u \<notin> set (chain_dq chain) \<longrightarrow> ns' u = ns u)"
proof -
  note sp = deltaChainPop_spec[OF assms(1,2)]
  obtain c cs where c: "chain_dq chain = c # cs" using assms(3) by (cases "chain_dq chain") auto
  have d: "chain_dq chain' = cs \<and> ns' c = ns c \<and> (\<forall>u. u \<notin> set (chain_dq chain) \<longrightarrow> ns' u = ns u)"
    using assms(1,2) c by (cases cs) (auto simp: deltaChainPop_def chain_wf_def)
  have "chain_timers ns chain = (c, unat (delta (ns c))) # tl (chain_timers ns chain)"
    by (simp add: chain_timers_def c)
  then show ?thesis using sp(1,2) c d by simp
qed

text \<open>The timers of a chain are in the order in which they expire.\<close>

lemma edf_timers_sorted: "sorted (map snd (edf_timers s c))"
  by (simp add: edf_timers_def chain_timers_def timers_sorted)

lemma edf_timers_empty: "pinvEdf c Q s \<Longrightarrow> edf_timers s c = [] \<longleftrightarrow> Q = {}"
  unfolding pinvEdf_def edf_timers_def chain_timers_def
  by (metis map_fst_timers map_is_Nil_conv set_empty)

lemma edf_pop_empty:
  assumes "pinvEdf (thisCpu s) {} s"
  shows "fst (kSchedTaskPopEdf E s) = Some (idleAddr E (thisCpu s))
    \<and> pinvEdf (thisCpu s) {} (snd (kSchedTaskPopEdf E s)) \<and> edf_moved {} s (snd (kSchedTaskPopEdf E s))"
proof -
  let ?s = "kSchedFixupChainEdf s"
  note fx = fixup_renews[OF assms] and sm = edf_moved_same[OF fixup_renews(2)[OF assms]]
  have "chain_dq (chainEdf ?s (thisCpu s)) = []" using fx(1) by (simp add: pinvEdf_def)
  then have e: "kSchedTaskPopEdf E s = (Some (idleAddr E (thisCpu s)),
      set_chain_edf (thisCpu s) (linkEdf (pol ?s), chainEdf ?s (thisCpu s)) ?s)"
    by (simp add: kSchedTaskPopEdf_def Let_def deltaChainPop_def sm(2))
  have "edf_moved {} ?s (snd (kSchedTaskPopEdf E s))" by (simp add: e edf_moved_def sm(2))
  from edf_moved_trans[OF fx(2) this] show ?thesis using fx(1) by (simp add: e pinvEdf_def)
qed

lemma edf_pop:
  assumes inv: "pinvEdf (thisCpu s) Q s" and ne: "Q \<noteq> {}"
  shows "\<exists>t. t \<in> Q \<and> fst (kSchedTaskPopEdf E s) = Some t
    \<and> pinvEdf (thisCpu s) (Q - {t}) (snd (kSchedTaskPopEdf E s)) \<and> edf_moved Q s (snd (kSchedTaskPopEdf E s))
    \<and> delta (linkEdf (pol (snd (kSchedTaskPopEdf E s))) t) > 0
    \<and> renew (\<lambda>t. unat (virtualDeadline (paramEdf (pol s) t))) (edf_timers s (thisCpu s)) =
        (t, unat (delta (linkEdf (pol (snd (kSchedTaskPopEdf E s))) t)))
        # edf_timers (snd (kSchedTaskPopEdf E s)) (thisCpu s)"
proof -
  let ?s = "kSchedFixupChainEdf s" and ?c = "thisCpu s"
  note fx = fixup_renews[OF inv] and sm = edf_moved_same[OF fixup_renews(2)[OF inv]]
  obtain p ns chain where po: "deltaChainPop (linkEdf (pol ?s)) (chainEdf ?s ?c) = (p, ns, chain)" by (metis prod_cases3)
  have wf: "chain_wf (linkEdf (pol ?s)) (chainEdf ?s ?c)" "set (chain_dq (chainEdf ?s ?c)) = Q"
    using fx(1) by (auto simp: pinvEdf_def)
  have "chain_dq (chainEdf ?s ?c) \<noteq> []" using wf(2) ne by auto
  from deltaChainPop_first[OF po wf(1) this] obtain t where t: "p = Some t" "chain_dq (chainEdf ?s ?c) = t # chain_dq chain"
    "chain_timers (linkEdf (pol ?s)) (chainEdf ?s ?c) = (t, unat (delta (ns t))) # chain_timers ns chain"
    "\<forall>u. u \<notin> set (chain_dq (chainEdf ?s ?c)) \<longrightarrow> ns u = linkEdf (pol ?s) u" by blast
  have e: "kSchedTaskPopEdf E s = (Some t, set_chain_edf ?c (ns, chain) ?s)"
    by (simp add: kSchedTaskPopEdf_def Let_def sm(2) po t(1))
  have T: "renew (\<lambda>t. unat (virtualDeadline (paramEdf (pol s) t))) (edf_timers s ?c)
      = (t, unat (delta (ns t))) # chain_timers ns chain"
    using fx(3) t(3) by (simp add: edf_timers_def)
  have pos: "delta (ns t) > 0" using fx(4) unfolding fx(3) T by (simp add: unat_gt_0 word_greater_zero_iff)
  have tQ: "t \<in> Q" "set (chain_dq chain) = Q - {t}" using wf t(2) by (auto simp: chain_wf_def)
  have "edf_moved Q ?s (set_chain_edf ?c (ns, chain) ?s)" using t(4) wf(2) by (simp add: edf_moved_def sm(2))
  note m = edf_moved_trans[OF fx(2) this]
  have "pinvEdf ?c (Q - {t}) (set_chain_edf ?c (ns, chain) ?s)"
    using deltaChainPop_spec(3)[OF po wf(1)] tQ fx(1) by (simp add: pinvEdf_def)
  then show ?thesis using tQ(1) m T pos unfolding e by (intro exI[of _ t]) (simp add: edf_timers_def)
qed

subsection \<open>The tick callback\<close>

text \<open>The ticks to the deadline after the callback, with the two branches for a sleeping thread joined.\<close>

definition edf_charge :: "algorithm \<Rightarrow> addr \<Rightarrow> edfState kstate \<Rightarrow> u32" where
  "edf_charge a t s =
    (let tk = tick (tasks s t);
         d = delta (linkEdf (pol s) t);
         sleeping = (tstate (tasks s t) = K_TASK_STATE_THREAD_DEFTICK_SLEEP);
         p = (if a = DS \<and> period tk \<noteq> 0 then kTickThrottleTimeLeft t s else period tk);
         d' = (if sleeping then d - sleepTicks tk else d - 1)
     in if sleeping \<and> d < sleepTicks tk then 0
        else if currentBudget tk = 0 then (if d' < p then 0 else d' - p)
        else if d' = 0 then virtualDeadline (paramEdf (pol s) t) else d')"

lemma set_delta_twice [simp]: "set_delta_edf t d (set_delta_edf t d' s) = set_delta_edf t d s"
  by (simp add: set_delta_edf_def upd_pol_def)

lemma edf_callback_thread:
  assumes "ttype (tasks s t) = K_TASK_THREAD" "delta (linkEdf (pol s) t) > 0"
    and "tstate (tasks s t) = K_TASK_STATE_THREAD_DEFTICK_SLEEP \<Longrightarrow> sleepTicks (tick (tasks s t)) > 0"
  shows "kSchedTaskTickCallbackEdf a t s = set_delta_edf t (edf_charge a t s) s"
proof (cases "tstate (tasks s t) = K_TASK_STATE_THREAD_DEFTICK_SLEEP")
  case True
  let ?d = "delta (linkEdf (pol s) t)" and ?k = "sleepTicks (tick (tasks s t))"
  show ?thesis
  proof (cases "?d < ?k")
    case False
    have k: "0 < unat ?k" using assms(3)[OF True] by (simp add: unat_gt_0 word_greater_zero_iff)
    have le: "unat ?k \<le> unat ?d" using False by (simp add: word_less_nat_alt)
    have "?k \<noteq> 0" using k by auto
    then have k1: "unat (?k - 1) = unat ?k - 1" by (rule unat_minus_one)
    have "unat (?d - (?k - 1)) = unat ?d - (unat ?k - 1)"
      using le k1 by (simp add: unat_sub_le word_le_nat_alt)
    then have "0 < ?d - (?k - 1)" using le k by (simp add: word_less_nat_alt)
    then show ?thesis using assms(1) assms(3)[OF True] True False
      by (simp add: kSchedTaskTickCallbackEdf_def edf_charge_def Let_def assert_holds algebra_simps)
  qed (use assms True in \<open>simp add: kSchedTaskTickCallbackEdf_def edf_charge_def Let_def\<close>)
next
  case False
  then show ?thesis using assms(1,2)
    by (simp add: kSchedTaskTickCallbackEdf_def edf_charge_def Let_def)
qed

text \<open>
  In natural numbers: the ticks that the callback takes away, and what is left of a deadline when the
  thread becomes ready, where a deadline that has passed gives way to a new one.
\<close>

definition edf_elapsed :: "algorithm \<Rightarrow> addr \<Rightarrow> edfState kstate \<Rightarrow> nat" where
  "edf_elapsed a t s =
    (if tstate (tasks s t) = K_TASK_STATE_THREAD_DEFTICK_SLEEP then unat (sleepTicks (tick (tasks s t))) else 1)
    + (if currentBudget (tick (tasks s t)) > 0 \<or> period (tick (tasks s t)) = 0 then 0
       else if a = DS then unat (kTickThrottleTimeLeft t s) else unat (period (tick (tasks s t))))"

definition edf_left :: "nat \<Rightarrow> nat \<Rightarrow> nat \<Rightarrow> nat" where
  "edf_left new e d = (if e < d then d - e else new)"

lemma edf_charge_left:
  fixes a t s
  defines "d \<equiv> unat (delta (linkEdf (pol s) t))" and "d' \<equiv> unat (edf_charge a t s)"
    and "e \<equiv> edf_elapsed a t s" and "new \<equiv> unat (virtualDeadline (paramEdf (pol s) t))"
  assumes "0 < d" and "tstate (tasks s t) = K_TASK_STATE_THREAD_DEFTICK_SLEEP \<Longrightarrow> sleepTicks (tick (tasks s t)) > 0"
  shows "(if d' = 0 then new else d') = edf_left new e d"
proof -
  let ?tk = "tick (tasks s t)" and ?d = "delta (linkEdf (pol s) t)"
  let ?sl = "tstate (tasks s t) = K_TASK_STATE_THREAD_DEFTICK_SLEEP"
  let ?k = "if ?sl then sleepTicks ?tk else 1"
  let ?p = "if a = DS \<and> period ?tk \<noteq> 0 then kTickThrottleTimeLeft t s else period ?tk"
  have d1: "1 \<le> ?d" using assms(5) by (simp add: d_def word_le_nat_alt)
  have c: "edf_charge a t s = (if ?d < ?k then 0
      else if currentBudget ?tk = 0 then (if ?d - ?k < ?p then 0 else ?d - ?k - ?p)
      else if ?d - ?k = 0 then virtualDeadline (paramEdf (pol s) t) else ?d - ?k)"
    using d1 by (auto simp: edf_charge_def Let_def)
  have e: "e = unat ?k + (if currentBudget ?tk = 0 then unat ?p else 0)"
    by (auto simp: e_def edf_elapsed_def word_greater_zero_iff)
  show ?thesis
  proof (cases "?d < ?k")
    case True
    then show ?thesis unfolding d'_def c e by (simp add: edf_left_def d_def word_less_nat_alt)
  next
    case False
    then have k: "unat (?d - ?k) = d - unat ?k" by (simp only: unat_sub not_less d_def)
    show ?thesis
    proof (cases "currentBudget ?tk = 0 \<and> \<not> ?d - ?k < ?p")
      case True
      then have "unat (?d - ?k - ?p) = d - unat ?k - unat ?p" unfolding k[symmetric] by (intro unat_sub) (simp add: not_less)
      then show ?thesis using True False unfolding d'_def c e edf_left_def new_def by auto
    next
      case o: False
      then show ?thesis using False k unfolding d'_def c e edf_left_def new_def
        by (auto simp: word_less_nat_alt unat_eq_0[symmetric] simp del: unat_eq_0 split: if_splits)
    qed
  qed
qed

lemma edf_delta_keeps:
  assumes inv: "pinvEdf c Q s" and t: "cpuId (tasks s t) = c" "t \<notin> Q"
  shows "pinvEdf c Q (set_delta_edf t d s)
    \<and> policy_keeps pinvEdf tickableEdf knownEdf c {t} s (set_delta_edf t d s)"
proof
  show "pinvEdf c Q (set_delta_edf t d s)"
    using inv t(2) by (simp add: pinvEdf_def chain_wf_def)
  show "policy_keeps pinvEdf tickableEdf knownEdf c {t} s (set_delta_edf t d s)"
    by (rule edf_keeps) (use t(1) in simp_all)
qed

lemma edf_delta_timers:
  assumes "pinvEdf c Q s" "t \<notin> Q"
  shows "edf_timers (set_delta_edf t d s) c = edf_timers s c"
  using assms by (auto simp: edf_timers_def chain_timers_def pinvEdf_def set_delta_edf_def upd_pol_def)

lemma edf_epoch:
  assumes "pinvEdf c Q s"
  shows "pinvEdf c Q (upd_epoch_edf t f s) \<and> policy_keeps pinvEdf tickableEdf knownEdf c {} s (upd_epoch_edf t f s)"
proof
  show "pinvEdf c Q (upd_epoch_edf t f s)" using assms by (simp add: pinvEdf_def)
  show "policy_keeps pinvEdf tickableEdf knownEdf c {} s (upd_epoch_edf t f s)" by (rule edf_keeps) simp_all
qed

lemma policy_keeps_mono: "policy_keeps P T K c V s s' \<Longrightarrow> V \<subseteq> W \<Longrightarrow> policy_keeps P T K c W s s'"
  unfolding policy_keeps_def by blast

lemma edf_refl: "policy_keeps pinvEdf tickableEdf knownEdf c V s s"
  by (simp add: policy_keeps_def)

lemma edf_charge_pos:
  assumes "0 < currentBudget (tick (tasks s t))" "tstate (tasks s t) \<noteq> K_TASK_STATE_THREAD_DEFTICK_SLEEP"
    and "knownEdf t s"
  shows "0 < edf_charge a t s"
  using assms by (simp add: edf_charge_def Let_def knownEdf_def word_greater_zero_iff)

lemma edf_callback:
  assumes inv: "pinvEdf (thisCpu s) Q s" and t: "cpuId (tasks s t) = thisCpu s" "t \<notin> Q"
    and k: "knownEdf t s \<or> ttype (tasks s t) \<noteq> K_TASK_THREAD" "tickableEdf t s"
    and sl: "tstate (tasks s t) = K_TASK_STATE_THREAD_DEFTICK_SLEEP \<Longrightarrow> sleepTicks (tick (tasks s t)) > 0"
  shows "pinvEdf (thisCpu s) Q (kSchedTaskTickCallbackEdf a t s)
    \<and> policy_keeps pinvEdf tickableEdf knownEdf (thisCpu s) {t} s (kSchedTaskTickCallbackEdf a t s)
    \<and> (ttype (tasks s t) = K_TASK_THREAD \<longrightarrow> 0 < currentBudget (tick (tasks s t)) \<longrightarrow>
       tstate (tasks s t) \<noteq> K_TASK_STATE_THREAD_DEFTICK_SLEEP \<longrightarrow>
       tickableEdf t (kSchedTaskTickCallbackEdf a t s))"
proof (cases "ttype (tasks s t) = K_TASK_THREAD")
  case True
  then have d: "delta (linkEdf (pol s) t) > 0" using k(2) by (simp add: tickableEdf_def)
  have e: "kSchedTaskTickCallbackEdf a t s = set_delta_edf t (edf_charge a t s) s"
    by (rule edf_callback_thread[OF True d]) (rule sl)
  show ?thesis using edf_delta_keeps[OF inv t] edf_charge_pos[of s t a] k(1) True
    unfolding e by (simp add: tickableEdf_def)
next
  case False
  note ep = edf_epoch[OF inv, of t epoch_tick]
  then show ?thesis using False inv edf_refl policy_keeps_mono[OF conjunct2[OF ep], of "{t}"]
    by (cases "ttype (tasks s t)") (simp_all add: kSchedTaskTickCallbackEdf_def)
qed

subsection \<open>Rescheduling\<close>

lemma edf_reschedule:
  assumes inv: "pinvEdf (thisCpu s) Q s" and run: "runningTask (mach s) = Some r"
    and r: "tstate (tasks s r) = K_TASK_STATE_RUNNING" "cpuId (tasks s r) = thisCpu s"
  shows "fst (kSchedShouldRescheduleEdf s) =
    (case ttype (tasks s r) of
       K_TASK_THREAD \<Rightarrow>
         (case renew (\<lambda>t. unat (virtualDeadline (paramEdf (pol s) t))) (edf_timers s (thisCpu s)) of
            [] \<Rightarrow> False | (_, d) # _ \<Rightarrow> d < unat (delta (linkEdf (pol s) r)))
     | K_TASK_IDLE \<Rightarrow> Q \<noteq> {}
     | _ \<Rightarrow> False)"
    and "pinvEdf (thisCpu s) Q (snd (kSchedShouldRescheduleEdf s))"
    and "edf_moved Q s (snd (kSchedShouldRescheduleEdf s))"
proof -
  let ?s = "kSchedFixupChainEdf s" and ?c = "thisCpu s"
  note fx = fixup_renews[OF inv]
  have run': "kTickGetRunningTask s = Some r" using run by (simp add: kTickGetRunningTask_def kTickGetMachine_def)
  have snd: "snd (kSchedShouldRescheduleEdf s) = (if ttype (tasks s r) = K_TASK_THREAD then ?s else s)"
    using run' r(1) by (cases "ttype (tasks s r)")
      (simp_all add: kSchedShouldRescheduleEdf_def Let_def split: option.splits)
  then show "pinvEdf ?c Q (snd (kSchedShouldRescheduleEdf s))" "edf_moved Q s (snd (kSchedShouldRescheduleEdf s))"
    using inv fx(1,2) by (auto simp: edf_moved_def)
  have T: "renew (\<lambda>t. unat (virtualDeadline (paramEdf (pol s) t))) (edf_timers s ?c)
      = chain_timers (linkEdf (pol ?s)) (chainEdf ?s ?c)" using fx(3) by (simp add: edf_timers_def)
  show "fst (kSchedShouldRescheduleEdf s) =
    (case ttype (tasks s r) of
       K_TASK_THREAD \<Rightarrow>
         (case renew (\<lambda>t. unat (virtualDeadline (paramEdf (pol s) t))) (edf_timers s ?c) of
            [] \<Rightarrow> False | (_, d) # _ \<Rightarrow> d < unat (delta (linkEdf (pol s) r)))
     | K_TASK_IDLE \<Rightarrow> Q \<noteq> {}
     | _ \<Rightarrow> False)"
    unfolding T using run' r inv
    by (cases "ttype (tasks s r)"; cases "chain_dq (chainEdf ?s ?c)")
      (auto simp: kSchedShouldRescheduleEdf_def Let_def chain_timers_def deltaChainPeek_def
        deltaChainIsEmpty_def word_less_nat_alt pinvEdf_def)
qed

interpretation edf: sched_policy "envEdf E" pinvEdf tickableEdf knownEdf
proof unfold_locales
  fix s s' :: "edfState kstate" and c Q t r
  show "pinvEdf c Q s'" if "pol_same s s'" "pinvEdf c Q s"
    using that by (simp add: pol_same_def pinvEdf_def)
  show "tickableEdf t s'" if "pol_same s s'" "tickableEdf t s"
    using that by (simp add: pol_same_def tickableEdf_def)
  show "tickableEdf t s" if "ttype (tasks s t) \<noteq> K_TASK_THREAD"
    using that by (simp add: tickableEdf_def)
  show "knownEdf t s'" if "pol_same s s'" "knownEdf t s"
    using that by (simp add: pol_same_def knownEdf_def)
  show "pinvEdf (thisCpu s) Q (kSchedTickTransitionCallbackFn (ops (envEdf E)) s)
      \<and> policy_keeps pinvEdf tickableEdf knownEdf (thisCpu s) Q s (kSchedTickTransitionCallbackFn (ops (envEdf E)) s)"
    if "pinvEdf (thisCpu s) Q s"
    using edf_tick[OF that] by simp
  show "pinvEdf (cpuId (tasks s t)) (insert t Q) (kSchedPushFn (ops (envEdf E)) t s)
      \<and> policy_keeps pinvEdf tickableEdf knownEdf (cpuId (tasks s t)) (insert t Q) s (kSchedPushFn (ops (envEdf E)) t s)"
    if "pinvEdf (cpuId (tasks s t)) Q s" "ttype (tasks s t) = K_TASK_THREAD" "t \<notin> Q" "knownEdf t s"
    using edf_push[OF that] by simp
  show "pinvEdf (cpuId (tasks s t)) Q (kSchedPushFn (ops (envEdf E)) t s)
      \<and> policy_keeps pinvEdf tickableEdf knownEdf (cpuId (tasks s t)) {} s (kSchedPushFn (ops (envEdf E)) t s)"
    if "pinvEdf (cpuId (tasks s t)) Q s" "ttype (tasks s t) = K_TASK_IDLE"
    using edf_epoch[OF that(1)] that(2) by (simp add: kSchedTaskPushEdf_def)
  show "policy_keeps pinvEdf tickableEdf knownEdf (thisCpu s) Q s (snd (kSchedTaskPopFn (ops (envEdf E)) s))
      \<and> (if Q = {}
         then fst (kSchedTaskPopFn (ops (envEdf E)) s) = Some (idleAddr (envEdf E) (thisCpu s))
            \<and> pinvEdf (thisCpu s) {} (snd (kSchedTaskPopFn (ops (envEdf E)) s))
         else \<exists>t \<in> Q. fst (kSchedTaskPopFn (ops (envEdf E)) s) = Some t
            \<and> pinvEdf (thisCpu s) (Q - {t}) (snd (kSchedTaskPopFn (ops (envEdf E)) s))
            \<and> tickableEdf t (snd (kSchedTaskPopFn (ops (envEdf E)) s)))"
    if inv: "pinvEdf (thisCpu s) Q s"
  proof (cases "Q = {}")
    case True
    then show ?thesis using inv edf_pop_empty[of s E] edf_moved_keeps[of "{}" s] by simp
  next
    case False
    obtain t where "t \<in> Q" "fst (kSchedTaskPopEdf E s) = Some t"
        "pinvEdf (thisCpu s) (Q - {t}) (snd (kSchedTaskPopEdf E s))" "edf_moved Q s (snd (kSchedTaskPopEdf E s))"
        "delta (linkEdf (pol (snd (kSchedTaskPopEdf E s))) t) > 0"
      using edf_pop[OF inv False, of E] by blast
    then show ?thesis using False edf_moved_keeps[OF _ inv] by (auto simp: tickableEdf_def)
  qed
  show "pinvEdf (thisCpu s) Q (kSchedTaskTickCallbackFn (ops (envEdf E)) t s)
      \<and> policy_keeps pinvEdf tickableEdf knownEdf (thisCpu s) {t} s (kSchedTaskTickCallbackFn (ops (envEdf E)) t s)
      \<and> (ttype (tasks s t) = K_TASK_THREAD \<longrightarrow> 0 < currentBudget (tick (tasks s t)) \<longrightarrow>
         tstate (tasks s t) \<noteq> K_TASK_STATE_THREAD_DEFTICK_SLEEP \<longrightarrow>
         tickableEdf t (kSchedTaskTickCallbackFn (ops (envEdf E)) t s))"
    if "pinvEdf (thisCpu s) Q s" "cpuId (tasks s t) = thisCpu s" "t \<notin> Q"
      "knownEdf t s \<or> ttype (tasks s t) \<noteq> K_TASK_THREAD" "tickableEdf t s"
      "tstate (tasks s t) = K_TASK_STATE_THREAD_DEFTICK_SLEEP \<Longrightarrow> sleepTicks (tick (tasks s t)) > 0"
    using edf_callback[OF that] by simp
  show "pinvEdf (thisCpu s) Q (snd (kSchedShouldRescheduleFn (ops (envEdf E)) s))
      \<and> policy_keeps pinvEdf tickableEdf knownEdf (thisCpu s) Q s (snd (kSchedShouldRescheduleFn (ops (envEdf E)) s))
      \<and> (fst (kSchedShouldRescheduleFn (ops (envEdf E)) s) \<longrightarrow> Q \<noteq> {})"
    if inv: "pinvEdf (thisCpu s) Q s" and r: "runningTask (mach s) = Some r"
      "tstate (tasks s r) = K_TASK_STATE_RUNNING" "cpuId (tasks s r) = thisCpu s"
  proof -
    note q = edf_reschedule[OF inv r]
    have "renew vd (edf_timers s (thisCpu s)) = []" if "Q = {}" for vd
      using edf_timers_empty[OF inv] that by (simp add: renew_def)
    then show ?thesis using q(2) edf_moved_keeps[OF q(3) inv] q(1) by (auto split: kSchedTaskType.splits)
  qed
  show "pinvEdf (cpuId (tasks s t)) Q (kSchedTaskLsrOutCallbackFn (ops (envEdf E)) t s)
      \<and> policy_keeps pinvEdf tickableEdf knownEdf (cpuId (tasks s t)) {} s
          (kSchedTaskLsrOutCallbackFn (ops (envEdf E)) t s)"
    if "pinvEdf (cpuId (tasks s t)) Q s" "ttype (tasks s t) = K_TASK_LSR"
    using edf_epoch[OF that(1)] that(2) by (simp add: kSchedTaskLsrOutCallbackEdf_def)
qed

end
