(* ===== verification/Plugin.thy ===== *)
theory Plugin
  imports Handlers PolicyRr PolicyCyclic PolicyEdf
begin

text \<open>
  \<^verbatim>\<open>kPlugin.c\<close>: what a plugin calls before the kernel starts, to create domains, threads and LSRs,
  and the part of \<^verbatim>\<open>ia32eCpu.c\<close> that checks the architecture's parameters, without virtual machines
  (VtxSetup has the code as it is with \<open>CONFIG_X86_64_IA32E_VTX\<close>). The code is built for one policy; the checks of
  each policy are the functions \<open>admit*\<close>, the part that all share is \<open>thread_init\<close>.
\<close>

subsection \<open>The architecture's parameters\<close>

definition IA32E_MAX_VECTOR_PRIO :: u8 where "IA32E_MAX_VECTOR_PRIO = 15"

definition IA32E_VECTOR_TO_PRIO :: "u8 \<Rightarrow> u8" where "IA32E_VECTOR_TO_PRIO vec = vec div 16"

definition ia32eCpuThreadInfoInit :: "addr \<Rightarrow> u8 \<Rightarrow> 'p kstate \<Rightarrow> (errno + unit) \<times> 'p kstate" where
  "ia32eCpuThreadInfoInit t tpr s =
    (if tpr \<ge> IA32E_MAX_VECTOR_PRIO then (Inl EINVAL, s)
     else (Inr (), upd_task t (\<lambda>r. r\<lparr>threadTpr := (if tpr > 1 then tpr else 1)\<rparr>) s))"

definition ia32eCpuLsrInfoInit :: "addr \<Rightarrow> u8 \<Rightarrow> 'p kstate \<Rightarrow> (errno + unit) \<times> 'p kstate" where
  "ia32eCpuLsrInfoInit t vector s =
    (let p = IA32E_VECTOR_TO_PRIO vector
     in if p \<le> 1 \<or> p = IA32E_MAX_VECTOR_PRIO then (Inl EINVAL, s)
        else (Inr (), upd_task t (\<lambda>r. r\<lparr>lsrVector := vector\<rparr>) s))"

text \<open>
  The page table of a domain: its addresses, and the entry 511 of its top level, which the kernel
  shares. \<open>pcidCtr\<close> is the global counter when process context ids are in use. The result is
  the new entry 511, \<open>cr3\<close> and the counter.
\<close>

record ia32eDomainParam =
  pml4BasePhys :: u64
  pml4BaseVirt :: u64
  pml4Entry511 :: u64

definition canonical_entry :: "kDomainEntryPoint \<Rightarrow> bool" where
  "canonical_entry ep \<longleftrightarrow> \<not> (valid ep \<and> \<not> IA32E_CANONICAL (entry_pc ep))"

definition ia32eCpuDomainInfoInit ::
  "u64 \<Rightarrow> u32 option \<Rightarrow> ia32eDomainParam \<Rightarrow> kDomainInvocationInfo \<Rightarrow> errno + (u64 \<times> u64 \<times> u32 option)" where
  "ia32eCpuDomainInfoInit pdpt pcidCtr param i =
    (if \<not> IA32E_CANONICAL (start_pc i) \<or> \<not> canonical_entry (invocationIpc i)
        \<or> \<not> canonical_entry (invocationExceptionVmemFault i)
        \<or> \<not> canonical_entry (invocationExceptionIllegalOpcode i)
        \<or> \<not> canonical_entry (invocationExceptionAlignment i)
        \<or> \<not> canonical_entry (invocationExceptionDebug i)
        \<or> \<not> canonical_entry (invocationExceptionArithmetic i)
        \<or> \<not> canonical_entry (invocationExceptionOther i)
     then Inl EINVAL
     else if pml4BasePhys param AND 0xfff \<noteq> 0 \<or> pml4BaseVirt param AND 0xfff \<noteq> 0 then Inl EINVAL
     else if pml4Entry511 param AND 1 \<noteq> 0 then Inl EINVAL
     else
       let entry = pdpt OR 1 OR 2 OR 0x100;
           cr3 = pml4BasePhys param
       in case pcidCtr of
            None \<Rightarrow> Inr (entry, cr3, None)
          | Some k \<Rightarrow> Inr (entry, cr3 OR ucast (k mod 4096), Some (k + 1)))"

subsection \<open>Threads\<close>

record 'q kPluginTaskThreadParam =
  thCpuId :: u32
  thDomId :: u32
  thTaskId :: u32
  thBudget :: u32
  thPeriod :: u32
  thParam :: 'q
  thTpr :: u8
  thCallbacks :: kSchedTaskCallbacks

definition thread_args_ok :: "'p kEnv \<Rightarrow> 'q kPluginTaskThreadParam \<Rightarrow> 'p kstate \<Rightarrow> bool" where
  "thread_args_ok E p s \<longleftrightarrow> \<not> (kDomainUniverseGet E (thDomId p) s = None \<or> \<not> cpuValid E (thCpuId p)
     \<or> \<not> kSchedTaskCanAdd E (thTaskId p) s \<or> thBudget p = 0)"

definition zero_entry :: kDomainInvocationEntry where
  "zero_entry = \<lparr>invokingDomain = None, invType = K_INVOCATION_INVALID, returnAddress = 0,
     vmemFaultAddress = 0, errorCode = 0\<rparr>"

definition zero_domain :: kTaskDomain where
  "zero_domain = \<lparr>curDomain = None, invocationStack = (\<lambda>_. zero_entry), invocationStackDepth = 0\<rparr>"

text \<open>The part after the checks. \<open>set_param\<close> copies the policy's parameters.\<close>

definition thread_record :: "'q kPluginTaskThreadParam \<Rightarrow> ptr \<Rightarrow> kSchedTask \<Rightarrow> kSchedTask" where
  "thread_record p d r =
    r\<lparr>tdomain := zero_domain\<lparr>curDomain := d\<rparr>,
      cpuId := thCpuId p, tstate := K_TASK_STATE_READY, ttype := K_TASK_THREAD,
      tick := (tick r)\<lparr>budget := thBudget p, currentBudget := thBudget p, period := thPeriod p\<rparr>,
      callbacks := thCallbacks p\<rparr>"

definition thread_init ::
  "'p kEnv \<Rightarrow> ('q \<Rightarrow> addr \<Rightarrow> 'p \<Rightarrow> 'p) \<Rightarrow> addr \<Rightarrow> 'q kPluginTaskThreadParam \<Rightarrow> 'p kstate \<Rightarrow> 'p kstate" where
  "thread_init E set_param t p s =
    (let domain = kDomainUniverseGet E (thDomId p) s;
         s = upd_task t (thread_record p domain) s;
         s = s\<lparr>pol := set_param (thParam p) t (pol s)\<rparr>;
         s = snd (kSchedTaskAdd E (thTaskId p) t s);
         s = deref domain (\<lambda>d s. emit (EvTaskCtxInit t (start_pc (invocationInfo (domains s d)))) s) s
     in kTickPluginTaskThreadInit E t s)"

definition kPluginInitTaskThread ::
  "'p kEnv \<Rightarrow> ('q kPluginTaskThreadParam \<Rightarrow> 'p kstate \<Rightarrow> errno + ('p kstate \<Rightarrow> 'p kstate)) \<Rightarrow>
   ('q \<Rightarrow> addr \<Rightarrow> 'p \<Rightarrow> 'p) \<Rightarrow> addr \<Rightarrow> 'q kPluginTaskThreadParam \<Rightarrow> 'p kstate \<Rightarrow> (errno + unit) \<times> 'p kstate" where
  "kPluginInitTaskThread E admit set_param t p s =
    (let s = K_DYNAMIC_ASSERT (\<not> gPluginsDone s) s
     in if \<not> thread_args_ok E p s then (Inl EINVAL, s)
        else (case admit p s of
                Inl e \<Rightarrow> (Inl e, s)
              | Inr claim \<Rightarrow>
                  (case ia32eCpuThreadInfoInit t (thTpr p) s of
                     (Inl e, s) \<Rightarrow> (Inl e, s)
                   | (Inr _, s) \<Rightarrow> (Inr (), thread_init E set_param t p (claim s)))))"

subsection \<open>The policies' part\<close>

definition admitRr :: "u32 \<Rightarrow> kSchedParamRr kPluginTaskThreadParam \<Rightarrow> rrState kstate \<Rightarrow>
    errno + (rrState kstate \<Rightarrow> rrState kstate)" where
  "admitRr n p s =
    (if ucast (prio (thParam p)) \<ge> n \<or> timesliceTicksRr (thParam p) = 0 then Inl EINVAL else Inr id)"

definition setParamRr :: "kSchedParamRr \<Rightarrow> addr \<Rightarrow> rrState \<Rightarrow> rrState" where
  "setParamRr q t p = p\<lparr>paramRr := (paramRr p)(t := q)\<rparr>"

definition kPluginInitTaskThreadRr ::
  "u32 \<Rightarrow> rrState kEnv \<Rightarrow> addr \<Rightarrow> kSchedParamRr kPluginTaskThreadParam \<Rightarrow> rrState kstate \<Rightarrow> (errno + unit) \<times> rrState kstate" where
  "kPluginInitTaskThreadRr n E = kPluginInitTaskThread (envRr n E) (admitRr n) setParamRr"

text \<open>
  The cyclic policy gives out the frames of a CPU; \<open>frameBmps\<close> are those that are taken. The two
  loops go over the frames that the thread asks for.
\<close>

function frames_free :: "bitmap \<Rightarrow> bitmap \<Rightarrow> u32 \<Rightarrow> u32 \<Rightarrow> bool" where
  "frames_free want bmp n low =
    (let b = bitmapFfs want n low
     in if b = -1 then True
        else if bm_test bmp (nat b) then False
        else frames_free want bmp n (word_of_int (b + 1)))"
  by pat_completeness auto

lemma frames_decrease:
  assumes "b = bitmapFfs want n low" "b \<noteq> -1"
  shows "unat n - unat (word_of_int (b + 1) :: u32) < unat n - unat low"
proof -
  obtain k where "unat low \<le> k" "k < unat n" "unat (word_of_int (b + 1) :: u32) = Suc k"
    using bitmapFfs_step[of want n low b] assms by auto
  then show ?thesis by simp
qed

termination frames_free
proof (relation "measure (\<lambda>(want, bmp, n, low). unat n - unat low)", goal_cases)
  case (2 want bmp n low b)
  show ?case unfolding in_measure case_prod_conv by (rule frames_decrease[OF 2(1,2)])
qed simp

function claim_frames :: "bitmap \<Rightarrow> bitmap \<Rightarrow> u32 \<Rightarrow> u32 \<Rightarrow> bitmap" where
  "claim_frames want bmp n low =
    (let b = bitmapFfs want n low
     in if b = -1 then bmp else claim_frames want (bm_set bmp (nat b)) n (word_of_int (b + 1)))"
  by pat_completeness auto

termination claim_frames
proof (relation "measure (\<lambda>(want, bmp, n, low). unat n - unat low)", goal_cases)
  case (2 want bmp n low b)
  show ?case unfolding in_measure case_prod_conv by (rule frames_decrease[OF 2(1,2)])
qed simp

declare frames_free.simps [simp del] claim_frames.simps [simp del]

lemma frames_split:
  assumes "l \<le> k" "k < m" "W k" "\<forall>j. l \<le> j \<and> j < k \<longrightarrow> \<not> W j"
  shows "l \<le> f \<and> f < m \<and> W f \<longleftrightarrow> k = f \<or> Suc k \<le> f \<and> f < m \<and> W f"
  using assms by (cases f k rule: linorder_cases) auto

lemma frames_free_spec:
  "frames_free want bmp n low \<longleftrightarrow> (\<forall>f. unat low \<le> f \<and> f < unat n \<and> bm_test want f \<longrightarrow> \<not> bm_test bmp f)"
proof (induction want bmp n low rule: frames_free.induct)
  case (1 want bmp n low)
  show ?case
  proof (cases "bitmapFfs want n low = -1")
    case True
    then show ?thesis using bitmapFfs_none[OF True] by (subst frames_free.simps) auto
  next
    case False
    then obtain k where k: "bitmapFfs want n low = int k" "unat low \<le> k" "k < unat n" "bm_test want k"
        "\<forall>j. unat low \<le> j \<and> j < k \<longrightarrow> \<not> bm_test want j"
        "unat (word_of_int (bitmapFfs want n low + 1) :: u32) = Suc k"
      using bitmapFfs_step[OF refl False] by auto
    have split: "(\<forall>f. unat low \<le> f \<and> f < unat n \<and> bm_test want f \<longrightarrow> \<not> bm_test bmp f)
        \<longleftrightarrow> \<not> bm_test bmp k \<and> (\<forall>f. Suc k \<le> f \<and> f < unat n \<and> bm_test want f \<longrightarrow> \<not> bm_test bmp f)"
      unfolding frames_split[where W = "bm_test want", OF k(2-5)] by blast
    show ?thesis
    proof (cases "bm_test bmp k")
      case True
      then show ?thesis unfolding split using k(1) by (subst frames_free.simps) (simp add: Let_def)
    next
      case nb: False
      then have "\<not> bm_test bmp (nat (bitmapFfs want n low))" using k(1) by simp
      from 1[OF refl False this] show ?thesis
        unfolding split k(6) using k(1) nb by (subst frames_free.simps) (simp add: Let_def)
    qed
  qed
qed

lemma claim_frames_spec:
  "bm_test (claim_frames want bmp n low) f \<longleftrightarrow> bm_test bmp f \<or> unat low \<le> f \<and> f < unat n \<and> bm_test want f"
proof (induction want bmp n low rule: claim_frames.induct)
  case (1 want bmp n low)
  show ?case
  proof (cases "bitmapFfs want n low = -1")
    case True
    then show ?thesis using bitmapFfs_none[OF True, of f] by (subst claim_frames.simps) auto
  next
    case False
    then obtain k where k: "bitmapFfs want n low = int k" "unat low \<le> k" "k < unat n" "bm_test want k"
        "\<forall>j. unat low \<le> j \<and> j < k \<longrightarrow> \<not> bm_test want j"
        "unat (word_of_int (bitmapFfs want n low + 1) :: u32) = Suc k"
      using bitmapFfs_step[OF refl False] by auto
    have "bm_test (claim_frames want bmp n low) f \<longleftrightarrow>
        bm_test (claim_frames want (bm_set bmp (nat (bitmapFfs want n low))) n (word_of_int (bitmapFfs want n low + 1))) f"
      using False by (subst claim_frames.simps) (simp add: Let_def)
    also have "\<dots> \<longleftrightarrow> (k = f \<or> bm_test bmp f) \<or> Suc k \<le> f \<and> f < unat n \<and> bm_test want f"
      unfolding 1[OF refl False] k(6) by (simp add: k(1) bm_test_set)
    also have "\<dots> \<longleftrightarrow> bm_test bmp f \<or> unat low \<le> f \<and> f < unat n \<and> bm_test want f"
      unfolding frames_split[where W = "bm_test want", OF k(2-5)] by blast
    finally show ?thesis .
  qed
qed

definition admitCyclic :: "u32 \<Rightarrow> kSchedParamCyclic kPluginTaskThreadParam \<Rightarrow> cyclicState kstate \<Rightarrow>
    errno + (cyclicState kstate \<Rightarrow> cyclicState kstate)" where
  "admitCyclic n p s =
    (let c = thCpuId p;
         want = frameBmp (thParam p);
         bmp = frameBmps (pol s) c
     in if timesliceTicksCyclic (thParam p) = 0 then Inl EINVAL
        else if bitmapFfs want n 0 < 0 then Inl EINVAL
        else if \<not> frames_free want bmp n 0 then Inl EINVAL
        else Inr (upd_pol (\<lambda>q. q\<lparr>frameBmps := (frameBmps q)(c := claim_frames want (frameBmps q c) n 0)\<rparr>)))"

definition setParamCyclic :: "kSchedParamCyclic \<Rightarrow> addr \<Rightarrow> cyclicState \<Rightarrow> cyclicState" where
  "setParamCyclic q t p = p\<lparr>paramCyclic := (paramCyclic p)(t := q)\<rparr>"

definition kPluginInitTaskThreadCyclic ::
  "u32 \<Rightarrow> cyclicState kEnv \<Rightarrow> addr \<Rightarrow> kSchedParamCyclic kPluginTaskThreadParam \<Rightarrow> cyclicState kstate \<Rightarrow>
   (errno + unit) \<times> cyclicState kstate" where
  "kPluginInitTaskThreadCyclic n E = kPluginInitTaskThread (envCyclic n E) (admitCyclic n) setParamCyclic"

definition admitEdf :: "kSchedParamEdf kPluginTaskThreadParam \<Rightarrow> edfState kstate \<Rightarrow>
    errno + (edfState kstate \<Rightarrow> edfState kstate)" where
  "admitEdf p s = (if virtualDeadline (thParam p) = 0 then Inl EINVAL else Inr id)"

definition setParamEdf :: "kSchedParamEdf \<Rightarrow> addr \<Rightarrow> edfState \<Rightarrow> edfState" where
  "setParamEdf q t p = p\<lparr>paramEdf := (paramEdf p)(t := q)\<rparr>"

definition kPluginInitTaskThreadEdf ::
  "edfState kEnv \<Rightarrow> addr \<Rightarrow> kSchedParamEdf kPluginTaskThreadParam \<Rightarrow> edfState kstate \<Rightarrow> (errno + unit) \<times> edfState kstate" where
  "kPluginInitTaskThreadEdf E = kPluginInitTaskThread (envEdf E) admitEdf setParamEdf"

subsection \<open>LSRs, domains and idle callbacks\<close>

record kPluginTaskLsrParam =
  lsrCpuId :: u32
  lsrDomId :: u32
  lsrTaskId :: u32
  lsrVectorParam :: u8
  lsrCallbacks :: kSchedTaskCallbacks

definition lsr_record :: "kPluginTaskLsrParam \<Rightarrow> ptr \<Rightarrow> kSchedTask \<Rightarrow> kSchedTask" where
  "lsr_record p d r =
    r\<lparr>cpuId := lsrCpuId p, tstate := K_TASK_STATE_LSR_DORMANT, ttype := K_TASK_LSR,
      callbacks := lsrCallbacks p, tdomain := (tdomain r)\<lparr>curDomain := d\<rparr>\<rparr>"

definition kPluginInitTaskLsr ::
  "'p kEnv \<Rightarrow> addr \<Rightarrow> kPluginTaskLsrParam \<Rightarrow> 'p kstate \<Rightarrow> (errno + unit) \<times> 'p kstate" where
  "kPluginInitTaskLsr E t p s =
    (let s = K_DYNAMIC_ASSERT (\<not> gPluginsDone s) s;
         domain = kDomainUniverseGet E (lsrDomId p) s
     in if domain = None \<or> \<not> cpuValid E (lsrCpuId p) \<or> \<not> kSchedTaskCanAdd E (lsrTaskId p) s then (Inl EINVAL, s)
        else (case ia32eCpuLsrInfoInit t (lsrVectorParam p) s of
                (Inl e, s) \<Rightarrow> (Inl e, s)
              | (Inr _, s) \<Rightarrow>
                  let s = upd_task t (lsr_record p domain) s;
                      s = snd (kSchedTaskAdd E (lsrTaskId p) t s);
                      s = deref domain (\<lambda>d s. emit (EvTaskCtxInit t (start_pc (invocationInfo (domains s d)))) s) s
                  in (Inr (), kCpuTaskLsrPush E t s)))"

record kPluginDomainParam =
  pdDomId :: u32
  pdInfo :: kDomainInvocationInfo
  pdArch :: ia32eDomainParam

text \<open>
  \<open>pdpt\<close> is the address of the kernel's page directory pointer table. The result carries what the
  architecture writes to the page table, to \<open>archInfo\<close> and to its counter.
\<close>

definition kPluginInitDomain ::
  "'p kEnv \<Rightarrow> u64 \<Rightarrow> u32 option \<Rightarrow> addr \<Rightarrow> kPluginDomainParam \<Rightarrow> 'p kstate \<Rightarrow>
   (errno + (u64 \<times> u64 \<times> u32 option)) \<times> 'p kstate" where
  "kPluginInitDomain E pdpt pcidCtr d p s =
    (let s = K_DYNAMIC_ASSERT (\<not> gPluginsDone s) s
     in if \<not> kDomainUniverseCanAdd E (pdDomId p) s then (Inl EINVAL, s)
        else (case ia32eCpuDomainInfoInit pdpt pcidCtr (pdArch p) (pdInfo p) of
                Inl e \<Rightarrow> (Inl e, s)
              | Inr arch \<Rightarrow>
                  let s = s\<lparr>domains := (domains s)(d := (domains s d)\<lparr>invocationInfo := pdInfo p\<rparr>)\<rparr>
                  in (Inr arch, snd (kDomainUniverseAdd E (pdDomId p) d s))))"

definition kPluginInitIdleCallbacks ::
  "'p kEnv \<Rightarrow> u32 \<Rightarrow> kSchedTaskCallbacks \<Rightarrow> 'p kstate \<Rightarrow> (errno + unit) \<times> 'p kstate" where
  "kPluginInitIdleCallbacks E c cb s =
    (case kSchedGetIdle E c s of
       (None, s) \<Rightarrow> (Inl EINVAL, s)
     | (Some t, s) \<Rightarrow> (Inr (), upd_task t (\<lambda>r. r\<lparr>callbacks := cb\<rparr>) s))"

subsection \<open>What a request leaves behind\<close>

lemma envRr_tables [simp]:
  "kDomainUniverseGet (envRr n E) = kDomainUniverseGet E" "kSchedTaskCanAdd (envRr n E) = kSchedTaskCanAdd E"
  "kSchedTaskAdd (envRr n E) = kSchedTaskAdd E"
  by (simp_all add: fun_eq_iff kDomainUniverseGet_def kSchedTaskCanAdd_def kSchedTaskAdd_def ARRAY_LEN_kTasks_def envRr_def)

lemma rr_push_tables:
  "tasks (kSchedTaskPush (envRr n E) t s) = tasks s" "kTasks (kSchedTaskPush (envRr n E) t s) = kTasks s"
  by (simp_all add: kSchedTaskPush_def with_ops_def Let_def kSchedTaskPushRr_def upd_rr_def upd_epoch_rr_def upd_pol_def
      fault_def K_DYNAMIC_ASSERT_def split: kSchedTaskType.split)

lemma assert_tables [simp]: "tasks (K_DYNAMIC_ASSERT b s) = tasks s" "kTasks (K_DYNAMIC_ASSERT b s) = kTasks s"
  by (simp_all add: K_DYNAMIC_ASSERT_def fault_def)

lemma plugin_init_tables:
  "tasks (kTickPluginTaskThreadInit (envRr n E) t s) = tasks s" "kTasks (kTickPluginTaskThreadInit (envRr n E) t s) = kTasks s"
  by (simp_all add: kTickPluginTaskThreadInit_def Let_def rr_push_tables)

lemma thread_init_rr:
  assumes "kDomainUniverseGet E (thDomId p) s = Some d" "kSchedTaskCanAdd E (thTaskId p) s"
  shows "tasks (thread_init (envRr n E) setParamRr t p s) =
      (tasks s)(t := (thread_record p (Some d) (tasks s t))\<lparr>taskId := thTaskId p\<rparr>)"
    and "kTasks (thread_init (envRr n E) setParamRr t p s) = (kTasks s)(unat (thTaskId p) := Some t)"
  using assms
  by (simp_all add: thread_init_def Let_def plugin_init_tables kSchedTaskAdd_def kSchedTaskCanAdd_def deref_def fun_eq_iff)

text \<open>The outcomes of a request for a thread.\<close>

lemma kPluginInitTaskThreadRr_cases:
  assumes "\<not> gPluginsDone s"
  shows "kPluginInitTaskThreadRr n E t p s =
    (if kDomainUniverseGet E (thDomId p) s \<noteq> None \<and> cpuValid E (thCpuId p) \<and> kSchedTaskCanAdd E (thTaskId p) s
        \<and> thBudget p \<noteq> 0 \<and> ucast (prio (thParam p)) < n \<and> timesliceTicksRr (thParam p) \<noteq> 0 \<and> thTpr p < 15
     then (Inr (), thread_init (envRr n E) setParamRr t p
            (upd_task t (\<lambda>r. r\<lparr>threadTpr := (if thTpr p > 1 then thTpr p else 1)\<rparr>) s))
     else (Inl EINVAL, s))"
proof -
  have as: "K_DYNAMIC_ASSERT (\<not> gPluginsDone s) s = s" using assms by (simp add: assert_holds)
  show ?thesis
    by (auto simp: kPluginInitTaskThreadRr_def kPluginInitTaskThread_def as thread_args_ok_def admitRr_def
      ia32eCpuThreadInfoInit_def IA32E_MAX_VECTOR_PRIO_def not_less not_le)
qed

lemma kPluginInitTaskLsr_other: "u \<noteq> t \<Longrightarrow> tasks (snd (kPluginInitTaskLsr E t p s)) u = tasks s u"
  by (auto simp: kPluginInitTaskLsr_def ia32eCpuLsrInfoInit_def Let_def kSchedTaskAdd_def deref_def kCpuTaskLsrPush_def
    split: option.split)

lemma cyclic_push_frames: "frameBmps (pol (kSchedTaskPush (envCyclic n E) t s)) = frameBmps (pol s)"
  by (simp add: kSchedTaskPush_def with_ops_def Let_def kSchedTaskPushCyclic_def upd_cyc_def upd_link_cyc_def upd_epoch_cyc_def
      upd_pol_def fault_def K_DYNAMIC_ASSERT_def split: kSchedTaskType.split)

lemma pol_tables [simp]: "pol (K_DYNAMIC_ASSERT b s) = pol s" "pol (deref q f s) = (case q of None \<Rightarrow> pol s | Some d \<Rightarrow> pol (f d s))"
    "pol (snd (kSchedTaskAdd E tid t s)) = pol s"
  by (auto simp: K_DYNAMIC_ASSERT_def fault_def deref_def kSchedTaskAdd_def split: option.split)

lemma thread_init_frames:
  "frameBmps (pol (thread_init (envCyclic n E) setParamCyclic t p s)) = frameBmps (pol s)"
  by (simp add: thread_init_def Let_def kTickPluginTaskThreadInit_def cyclic_push_frames setParamCyclic_def split: option.split)

end
