(* ===== verification/Boot.thy ===== *)
theory Boot
  imports System Plugin
begin

text \<open>
  \<^verbatim>\<open>kStart.c\<close> and \<^verbatim>\<open>kInit.c\<close>: how the kernel comes up. The initialisation calls of the
  architecture and the plugins are lists of state transformers, in the order of their sections.
  Interrupts are off until the hand-off, so nothing runs in between. \<open>bootFreqHz\<close> is the frequency of
  the timer and \<open>bootSender\<close> the CPU that ticks the others.
\<close>

record 'p bootConf =
  initCalls :: "('p kstate \<Rightarrow> 'p kstate) list"
  opsInit :: "'p kstate \<Rightarrow> 'p kstate"
  pluginCalls :: "('p kstate \<Rightarrow> 'p kstate) list"
  bootFreqHz :: u32
  bootSender :: u32

definition kInitStart :: "('p kstate \<Rightarrow> 'p kstate) list \<Rightarrow> 'p kstate \<Rightarrow> 'p kstate" where
  "kInitStart fns s = fold (\<lambda>f. f) fns s"

definition kPerCpuHandoff :: "'p kEnv \<Rightarrow> bool \<Rightarrow> u32 \<Rightarrow> u32 \<Rightarrow> 'p kstate \<Rightarrow> 'p kstate" where
  "kPerCpuHandoff E desync sender freqHz s =
    (let s = kTickReschedule E s
     in if \<not> desync \<and> thisCpu s \<noteq> sender then emit (EvHandoff (thisCpu s)) s
        else
          let ticks = msToTicks (KTICK_MS E) (ucast freqHz);
              s = emit (EvArmTimer (ucast ticks)) s
          in emit (EvHandoff (thisCpu s)) s)"

definition kHandoff :: "'p kEnv \<Rightarrow> bool \<Rightarrow> u32 list \<Rightarrow> u32 \<Rightarrow> u32 \<Rightarrow> 'p kstate \<Rightarrow> 'p kstate" where
  "kHandoff E desync cpus sender freqHz = kCpuInvokeAllRendezvous cpus (kPerCpuHandoff E desync sender freqHz)"

definition kStart :: "'p kEnv \<Rightarrow> sysConf \<Rightarrow> 'p bootConf \<Rightarrow> 'p kstate \<Rightarrow> 'p kstate" where
  "kStart E C B s =
    (let s = kInitStart (initCalls B) s;
         s = opsInit B s;
         s = kCpuInvokeAllRendezvous (onlineCpus C) (kSchedInit E) s;
         s = fold (\<lambda>f. f) (pluginCalls B) s;
         s = s\<lparr>gPluginsDone := True\<rparr>
     in kCpuSelfIpi (kHandoff E (desynchronized C) (onlineCpus C) (bootSender B) (bootFreqHz B)) s)"

text \<open>
  What the plugins ask for, as data. \<open>plugin_call\<close> runs one request; \<open>initThread\<close> is
  \<open>kPluginInitTaskThread\<close> as it is compiled for the policy. \<open>pdpt\<close> and \<open>pcid\<close> are what
  \<open>kPluginInitDomain\<close> reads from the architecture.
\<close>

datatype 'q pluginCall =
    InitDomain addr kPluginDomainParam u64 "u32 option"
  | InitThread addr "'q kPluginTaskThreadParam"
  | InitLsr addr kPluginTaskLsrParam
  | InitIdleCallbacks u32 kSchedTaskCallbacks

fun plugin_call ::
  "'p kEnv \<Rightarrow> (addr \<Rightarrow> 'q kPluginTaskThreadParam \<Rightarrow> 'p kstate \<Rightarrow> (errno + unit) \<times> 'p kstate) \<Rightarrow>
   'q pluginCall \<Rightarrow> 'p kstate \<Rightarrow> 'p kstate" where
  "plugin_call E initThread (InitDomain d p pdpt pcid) s = snd (kPluginInitDomain E pdpt pcid d p s)"
| "plugin_call E initThread (InitThread t p) s = snd (initThread t p s)"
| "plugin_call E initThread (InitLsr t p) s = snd (kPluginInitTaskLsr E t p s)"
| "plugin_call E initThread (InitIdleCallbacks c cb) s = snd (kPluginInitIdleCallbacks E c cb s)"

text \<open>The task objects that requests initialise. A plugin uses each object once.\<close>

fun call_task :: "'q pluginCall \<Rightarrow> addr list" where
  "call_task (InitThread t p) = [t]"
| "call_task (InitLsr t p) = [t]"
| "call_task _ = []"

definition calls_fresh :: "'p kEnv \<Rightarrow> 'q pluginCall list \<Rightarrow> bool" where
  "calls_fresh E calls \<longleftrightarrow> distinct (concat (map call_task calls))
     \<and> (\<forall>c. cpuValid E c \<longrightarrow> idleAddr E c \<notin> set (concat (map call_task calls)))"

text \<open>The configuration: the CPUs that take part, and sizes that fit their types.\<close>

definition conf_ok :: "'p kEnv \<Rightarrow> sysConf \<Rightarrow> bool" where
  "conf_ok E C \<longleftrightarrow> distinct (onlineCpus C) \<and> set (onlineCpus C) = {c. cpuValid E c}
     \<and> (\<forall>c. cpuValid E c \<longrightarrow> unat c < KMAX_CPUS E) \<and> KMAX_TASKS E + KMAX_CPUS E < 2 ^ 32
     \<and> inj_on (idleAddr E) {c. cpuValid E c} \<and> 0 < INVOCATION_DEPTH E \<and> INVOCATION_DEPTH E < 2 ^ 32
     \<and> 0 < KTICK_MS E"

text \<open>
  The initialisation calls of the architecture do not touch the kernel's own data, \<open>kSchedOpsInit*\<close>
  installs the function table, and the plugins make the requests \<open>calls\<close>.
\<close>

definition boot_conf_ok ::
  "'p kEnv \<Rightarrow> ('q kPluginTaskThreadParam \<Rightarrow> 'p kstate \<Rightarrow> errno + ('p kstate \<Rightarrow> 'p kstate)) \<Rightarrow>
   ('q \<Rightarrow> addr \<Rightarrow> 'p \<Rightarrow> 'p) \<Rightarrow> 'q pluginCall list \<Rightarrow> 'p bootConf \<Rightarrow> bool" where
  "boot_conf_ok E admit set_param calls B \<longleftrightarrow> (\<forall>f \<in> set (initCalls B). \<forall>s. f s = s)
     \<and> opsInit B = (\<lambda>s. snd (kSchedOpsInit s))
     \<and> pluginCalls B = map (plugin_call E (kPluginInitTaskThread E admit set_param)) calls \<and> calls_fresh E calls"

text \<open>
  The memory of the kernel before it starts: every object is zero. \<open>zero_machine\<close> is a machine
  of \<^verbatim>\<open>gTickMachines\<close>, which is in the zeroed data segment, as are the task tables.
\<close>

definition zero_chain :: deltaChain where
  "zero_chain = \<lparr>currentEpoch = 0, chain_dq = []\<rparr>"

definition zero_machine :: kTickMachine where
  "zero_machine = \<lparr>runningTask = None, replenishmentChain = zero_chain, sleepChain = zero_chain,
     deferredTicks = [], pendingLsrChain = [], pendingTaskLsr = None\<rparr>"

definition zero_task :: kSchedTask where
  "zero_task = \<lparr>cpuId = 0, taskId = 0, tstate = K_TASK_STATE_INVALID, ttype = K_TASK_INVALID,
     tick = \<lparr>currentBudget = 0, budget = 0, period = 0, sleepTicks = 0, lag = False\<rparr>, lsrVector = 0,
     callbacks = \<lparr>tickCallbackFn = None, inCallbackFn = None, outCallbackFn = None,
       activationCallbackFn = None, responseCallbackFn = None\<rparr>,
     tdomain = zero_domain, threadTpr = 0\<rparr>"

definition zero_state :: "'p \<Rightarrow> nodes \<Rightarrow> (addr \<Rightarrow> kDomain) \<Rightarrow> u32 \<Rightarrow> 'p kstate" where
  "zero_state p ns ds c = \<lparr>thisCpu = c, tasks = (\<lambda>_. zero_task), replenishNodes = ns, sleepNodes = ns,
     gTickMachines = (\<lambda>_. zero_machine), archLsrs = (\<lambda>_ _. []), domains = ds, domainTable = (\<lambda>_. None),
     kTasks = (\<lambda>_. None), gPluginsDone = False, gOpsInitialized = False, pol = p, trace = [], faults = []\<rparr>"

end
