(* ===== verification/Tpr.thy ===== *)
theory Tpr
  imports Plugin TickReport
begin

text \<open>
  The task priority register (\<^verbatim>\<open>ia32eCpu.c\<close>, \<open>ia32eReloadTpr\<close> and the callbacks): each CPU counts its
  active tasks per interrupt priority, and the register holds the highest priority with an active task, so
  that interrupts of that priority and below stay pending. The callbacks run on the reports of the kernel
  (\<open>tpr_event\<close>, through \<^verbatim>\<open>kCallbackInterface.c\<close>). Faults are recorded as in the kernel; an access
  outside the array is a bad access.
\<close>

subsection \<open>The state and the callbacks\<close>

record ia32ePerCpu =
  tprCount :: "u32 list"
  tpr :: u8
  cr8 :: u64
  cpuHandoffDone :: bool

record tprState =
  cpuTable :: "u32 \<Rightarrow> ia32ePerCpu"
  tprFaults :: "fault list"

definition tpr_assert :: "bool \<Rightarrow> tprState \<Rightarrow> tprState" where
  "tpr_assert b T = (if b then T else T\<lparr>tprFaults := AssertFailed # tprFaults T\<rparr>)"

definition tpr_bad_access :: "tprState \<Rightarrow> tprState" where
  "tpr_bad_access T = T\<lparr>tprFaults := NullDeref # tprFaults T\<rparr>"

definition upd_cpu :: "u32 \<Rightarrow> (ia32ePerCpu \<Rightarrow> ia32ePerCpu) \<Rightarrow> tprState \<Rightarrow> tprState" where
  "upd_cpu c f T = T\<lparr>cpuTable := (cpuTable T)(c := f (cpuTable T c))\<rparr>"

definition upd_count :: "u32 \<Rightarrow> nat \<Rightarrow> (u32 \<Rightarrow> u32) \<Rightarrow> tprState \<Rightarrow> tprState" where
  "upd_count c i f = upd_cpu c (\<lambda>r. r\<lparr>tprCount := (tprCount r)[i := f (tprCount r ! i)]\<rparr>)"

text \<open>The loop from the highest index down; it has looked at all but the first \<open>n\<close> counters.\<close>

fun reload_loop :: "u32 list \<Rightarrow> nat \<Rightarrow> u32" where
  "reload_loop cs 0 = 1"
| "reload_loop cs (Suc i) = (if cs ! i > 0 then word_of_nat i + 1 else reload_loop cs i)"

definition ia32eReloadTpr :: "u32 \<Rightarrow> tprState \<Rightarrow> tprState" where
  "ia32eReloadTpr this T =
    (let newTpr = reload_loop (tprCount (cpuTable T this)) (length (tprCount (cpuTable T this)))
     in upd_cpu this (\<lambda>r. r\<lparr>cr8 := ucast newTpr, tpr := ucast newTpr\<rparr>) T)"

text \<open>The \<open>switch\<close> over the type of the task: its priority, and the assertion about it.\<close>

definition callback_tpr :: "kSchedTask \<Rightarrow> (u8 \<times> bool) option" where
  "callback_tpr r =
    (case ttype r of
       K_TASK_THREAD \<Rightarrow> Some (threadTpr r, threadTpr r > 0 \<and> threadTpr r < IA32E_MAX_VECTOR_PRIO)
     | K_TASK_LSR \<Rightarrow>
         (let p = IA32E_VECTOR_TO_PRIO (lsrVector r) in Some (p, p > 1 \<and> p < IA32E_MAX_VECTOR_PRIO))
     | _ \<Rightarrow> None)"

definition ia32eCallbackActivation :: "'p kEnv \<Rightarrow> u32 \<Rightarrow> bool \<Rightarrow> kSchedTask \<Rightarrow> tprState \<Rightarrow> tprState" where
  "ia32eCallbackActivation E this pluginsDone r T =
    (let T = tpr_assert (cpuValid E (cpuId r)) T; c = cpuId r
     in case callback_tpr r of
          None \<Rightarrow> T
        | Some (p, ok) \<Rightarrow>
            let T = tpr_assert ok T; i = unat p - 1
            in if p = 0 \<or> i \<ge> length (tprCount (cpuTable T c)) then tpr_bad_access T
               else let T = tpr_assert (tprCount (cpuTable T c) ! i < UINT32_MAX) T;
                        T = upd_count c i (\<lambda>n. n + 1) T
                    in if pluginsDone \<and> p > tpr (cpuTable T c) then ia32eReloadTpr this T else T)"

definition ia32eCallbackResponse :: "u32 \<Rightarrow> kSchedTask \<Rightarrow> tprState \<Rightarrow> tprState" where
  "ia32eCallbackResponse this r T =
    (case callback_tpr r of
       None \<Rightarrow> T
     | Some (p, ok) \<Rightarrow>
         let T = tpr_assert ok T; i = unat p - 1;
             T = tpr_assert (p \<le> tpr (cpuTable T this)) T
         in if p = 0 \<or> i \<ge> length (tprCount (cpuTable T this)) then tpr_bad_access T
            else let T = tpr_assert (tprCount (cpuTable T this) ! i > 0) T;
                     T = upd_count this i (\<lambda>n. n - 1) T
                 in if p = tpr (cpuTable T this) \<and> tprCount (cpuTable T this) ! i = 0
                    then ia32eReloadTpr this T else T)"

definition ia32eCallbackCpuHandoff :: "u32 \<Rightarrow> tprState \<Rightarrow> tprState" where
  "ia32eCallbackCpuHandoff this T = upd_cpu this (\<lambda>r. r\<lparr>cpuHandoffDone := True\<rparr>) (ia32eReloadTpr this T)"

text \<open>What the kernel reports reaches the callbacks; \<open>tk\<close> is the memory of the tasks.\<close>

fun tpr_event :: "'p kEnv \<Rightarrow> (addr \<Rightarrow> kSchedTask) \<Rightarrow> event \<Rightarrow> tprState \<Rightarrow> tprState" where
  "tpr_event E tk (EvActivation this d t) T = ia32eCallbackActivation E this d (tk t) T"
| "tpr_event E tk (EvResponse this d t) T = ia32eCallbackResponse this (tk t) T"
| "tpr_event E tk (EvHandoff this) T = ia32eCallbackCpuHandoff this T"
| "tpr_event E tk _ T = T"

definition tpr_run :: "'p kEnv \<Rightarrow> (addr \<Rightarrow> kSchedTask) \<Rightarrow> event list \<Rightarrow> tprState \<Rightarrow> tprState" where
  "tpr_run E tk es T = fold (tpr_event E tk) es T"

text \<open>The zeroed per-CPU data.\<close>

definition tpr_start :: tprState where
  "tpr_start = \<lparr>cpuTable = (\<lambda>_. \<lparr>tprCount = replicate 14 0, tpr = 0, cr8 = 0, cpuHandoffDone = False\<rparr>), tprFaults = []\<rparr>"

subsection \<open>What the register should hold\<close>

definition task_prio :: "kSchedTask \<Rightarrow> nat option" where
  "task_prio r = map_option (\<lambda>(p, ok). unat p) (callback_tpr r)"

definition tpr_prio_ok :: "kSchedTask \<Rightarrow> bool" where
  "tpr_prio_ok r \<longleftrightarrow> (\<forall>p ok. callback_tpr r = Some (p, ok) \<longrightarrow> ok)"

text \<open>The active tasks of CPU \<open>c\<close> with priority \<open>p\<close>, and the highest priority of an active task.\<close>

definition active_with :: "(addr \<Rightarrow> kSchedTask) \<Rightarrow> (addr \<Rightarrow> bool) \<Rightarrow> u32 \<Rightarrow> nat \<Rightarrow> addr set" where
  "active_with tk A c p = {t. A t \<and> cpuId (tk t) = c \<and> task_prio (tk t) = Some p}"

definition highest_prio :: "(addr \<Rightarrow> kSchedTask) \<Rightarrow> (addr \<Rightarrow> bool) \<Rightarrow> u32 \<Rightarrow> nat" where
  "highest_prio tk A c = Max (insert 1 {p. active_with tk A c p \<noteq> {}})"

definition counts_ok :: "(addr \<Rightarrow> kSchedTask) \<Rightarrow> (addr \<Rightarrow> bool) \<Rightarrow> tprState \<Rightarrow> u32 \<Rightarrow> bool" where
  "counts_ok tk A T c \<longleftrightarrow> length (tprCount (cpuTable T c)) = 14
     \<and> (\<forall>i < 14. unat (tprCount (cpuTable T c) ! i) = card (active_with tk A c (Suc i)))"

definition tpr_ok :: "(addr \<Rightarrow> kSchedTask) \<Rightarrow> (addr \<Rightarrow> bool) \<Rightarrow> tprState \<Rightarrow> u32 \<Rightarrow> bool" where
  "tpr_ok tk A T c \<longleftrightarrow> unat (tpr (cpuTable T c)) = highest_prio tk A c \<and> cr8 (cpuTable T c) = ucast (tpr (cpuTable T c))"

subsection \<open>The loop\<close>

lemma upd_cpu_simps [simp]:
  "cpuTable (upd_cpu c f T) = (cpuTable T)(c := f (cpuTable T c))" "tprFaults (upd_cpu c f T) = tprFaults T"
  by (simp_all add: upd_cpu_def)

lemma upd_count_faults [simp]: "tprFaults (upd_count c i f T) = tprFaults T"
  by (simp add: upd_count_def)

lemma tpr_assert_True [simp]: "b \<Longrightarrow> tpr_assert b T = T"
  by (simp add: tpr_assert_def)

lemma reload_loop_spec:
  assumes "n < 2 ^ 31"
  shows "unat (reload_loop cs n) = Max (insert 1 {Suc i | i. i < n \<and> 0 < cs ! i})"
  using assms
proof (induction n)
  case (Suc n)
  let ?S = "\<lambda>n. {Suc i | i. i < n \<and> 0 < cs ! i}"
  have fin: "finite (?S n)" for n by simp
  show ?case
  proof (cases "0 < cs ! n")
    case True
    have "?S (Suc n) = insert (Suc n) (?S n)" using True by (auto simp: less_Suc_eq)
    moreover have "Max (insert 1 (insert (Suc n) (?S n))) = Suc n"
      by (rule Max_eqI) (use fin in auto)
    moreover have "unat (word_of_nat n + 1 :: u32) = Suc n"
      using Suc.prems by (simp add: unat_word_ariths unsigned_of_nat take_bit_nat_eq_self)
    ultimately show ?thesis using True by simp
  next
    case False
    then have "?S (Suc n) = ?S n" by (auto simp: less_Suc_eq)
    then show ?thesis using False Suc by simp
  qed
qed simp

text \<open>With exact counters the loop finds the highest priority of an active task.\<close>

definition prio_range :: "(addr \<Rightarrow> kSchedTask) \<Rightarrow> bool" where
  "prio_range tk \<longleftrightarrow> (\<forall>t. tpr_prio_ok (tk t)) \<and> finite {t. ttype (tk t) \<noteq> K_TASK_INVALID}
     \<and> card {t. ttype (tk t) \<noteq> K_TASK_INVALID} < 2 ^ 32"

lemma task_prio_bounds:
  assumes "tpr_prio_ok r" "task_prio r = Some p" shows "1 \<le> p \<and> p \<le> 14" "ttype r \<noteq> K_TASK_INVALID"
  using assms by (auto simp: task_prio_def tpr_prio_ok_def callback_tpr_def IA32E_MAX_VECTOR_PRIO_def Let_def
      word_less_nat_alt split: kSchedTaskType.splits)

lemma active_with_finite:
  assumes "prio_range tk" shows "finite (active_with tk A c p)" "card (active_with tk A c p) < 2 ^ 32"
proof -
  have sub: "active_with tk A c p \<subseteq> {t. ttype (tk t) \<noteq> K_TASK_INVALID}"
    using assms task_prio_bounds(2) by (auto simp: active_with_def prio_range_def)
  then show "finite (active_with tk A c p)" using assms finite_subset by (auto simp: prio_range_def)
  show "card (active_with tk A c p) < 2 ^ 32"
    using card_mono[OF _ sub] assms by (simp add: prio_range_def)
qed

lemma prio_set_finite:
  assumes "prio_range tk" shows "finite {p. active_with tk A c p \<noteq> {}}"
proof (rule finite_subset)
  show "{p. active_with tk A c p \<noteq> {}} \<subseteq> {..14}"
    using assms task_prio_bounds(1) by (auto simp: active_with_def prio_range_def)
qed simp

lemma counts_highest:
  assumes pr: "prio_range tk" and c: "counts_ok tk A T c"
  shows "unat (reload_loop (tprCount (cpuTable T c)) (length (tprCount (cpuTable T c)))) = highest_prio tk A c"
proof -
  have act: "0 < tprCount (cpuTable T c) ! i \<longleftrightarrow> active_with tk A c (Suc i) \<noteq> {}" if "i < 14" for i
  proof -
    have "unat (tprCount (cpuTable T c) ! i) = card (active_with tk A c (Suc i))" using c that by (simp add: counts_ok_def)
    then show ?thesis using active_with_finite(1)[OF pr, of A c "Suc i"] by (simp add: word_less_nat_alt card_gt_0_iff)
  qed
  have rng: "1 \<le> p \<and> p \<le> 14" if "active_with tk A c p \<noteq> {}" for p
    using that task_prio_bounds(1) pr by (auto simp: active_with_def prio_range_def)
  have "{Suc i | i. i < 14 \<and> 0 < tprCount (cpuTable T c) ! i} = {p. active_with tk A c p \<noteq> {}}"
  proof (intro set_eqI iffI)
    fix p assume "p \<in> {p. active_with tk A c p \<noteq> {}}"
    then have "p = Suc (p - 1)" "p - 1 < 14" "active_with tk A c (Suc (p - 1)) \<noteq> {}" using rng[of p] by auto
    then show "p \<in> {Suc i | i. i < 14 \<and> 0 < tprCount (cpuTable T c) ! i}" using act by blast
  qed (use act in blast)
  then show ?thesis using c reload_loop_spec[of 14] by (simp add: counts_ok_def highest_prio_def)
qed

lemma narrow_prio:
  assumes "unat (x :: u32) \<le> 14" shows "unat (ucast x :: u8) = unat x" "ucast (ucast x :: u8) = (ucast x :: u64)"
proof -
  show n: "unat (ucast x :: u8) = unat x"
    unfolding unsigned_ucast_eq by (rule take_bit_nat_eq_self) (use assms in simp)
  have "unat (ucast x :: u64) = unat x"
    unfolding unsigned_ucast_eq by (rule take_bit_nat_eq_self) (use assms in simp)
  moreover have "unat (ucast (ucast x :: u8) :: u64) = unat (ucast x :: u8)"
    unfolding unsigned_ucast_eq[where 'c = 64] by (rule take_bit_nat_eq_self) (use assms n in simp)
  ultimately show "ucast (ucast x :: u8) = (ucast x :: u64)" using n by (simp only: word_unat_eq_iff)
qed

lemma highest_prio_tasks:
  "highest_prio tk A c = Max (insert 1 {p. \<exists>t. A t \<and> cpuId (tk t) = c \<and> task_prio (tk t) = Some p})"
  unfolding highest_prio_def active_with_def by (simp only: Collect_empty_eq not_all not_not)

lemma reload_ok:
  assumes pr: "prio_range tk" and c: "counts_ok tk A T c"
  shows "tpr_ok tk A (ia32eReloadTpr c T) c" "counts_ok tk A (ia32eReloadTpr c T) c"
    "c' \<noteq> c \<Longrightarrow> cpuTable (ia32eReloadTpr c T) c' = cpuTable T c'" "tprFaults (ia32eReloadTpr c T) = tprFaults T"
    "tprCount (cpuTable (ia32eReloadTpr c T) c') = tprCount (cpuTable T c')"
proof -
  have "unat (reload_loop (tprCount (cpuTable T c)) 14) \<le> 14"
    unfolding reload_loop_spec[of 14, simplified] by (subst Max_le_iff) auto
  then show "tpr_ok tk A (ia32eReloadTpr c T) c"
    using counts_highest[OF pr c] c narrow_prio[of "reload_loop (tprCount (cpuTable T c)) 14"]
    by (simp add: ia32eReloadTpr_def Let_def tpr_ok_def counts_ok_def)
qed (use c in \<open>auto simp: ia32eReloadTpr_def Let_def counts_ok_def\<close>)

subsection \<open>The callbacks\<close>

text \<open>\<open>tpr_good\<close> is the invariant: every counter is exact, the CPUs in \<open>cs\<close> have the right priority.\<close>

definition tpr_good :: "(addr \<Rightarrow> kSchedTask) \<Rightarrow> u32 set \<Rightarrow> (addr \<Rightarrow> bool) \<Rightarrow> tprState \<Rightarrow> bool" where
  "tpr_good tk cs A T \<longleftrightarrow> tprFaults T = [] \<and> (\<forall>c. counts_ok tk A T c) \<and> (\<forall>c \<in> cs. tpr_ok tk A T c)"

lemma active_with_upd:
  "active_with tk (A(t := b)) c p =
    (if cpuId (tk t) = c \<and> task_prio (tk t) = Some p then (if b then insert t else (\<lambda>S. S - {t})) (active_with tk A c p)
     else active_with tk A c p)"
  by (auto simp: active_with_def)

text \<open>A counter changes by one with the set it counts.\<close>

lemma activation_good:
  assumes pr: "prio_range tk" and g: "tpr_good tk cs A T" and na: "\<not> A t"
    and cpu: "cpuValid E (cpuId (tk t))"
    and run: "if d then this = cpuId (tk t) else cs = {}"
  shows "tpr_good tk cs (A(t := True)) (ia32eCallbackActivation E this d (tk t) T)"
proof (cases "callback_tpr (tk t)")
  case None
  then have "task_prio (tk t) = None" by (simp add: task_prio_def)
  then have "active_with tk (A(t := True)) c p = active_with tk A c p" for c p by (simp add: active_with_upd)
  then show ?thesis using None g cpu
    by (simp add: ia32eCallbackActivation_def tpr_good_def counts_ok_def tpr_ok_def highest_prio_def)
next
  case (Some po)
  let ?c = "cpuId (tk t)" and ?p = "fst po"
  let ?i = "unat ?p - 1"
  have "tpr_prio_ok (tk t)" using pr by (simp add: prio_range_def)
  then have ok: "snd po" using Some unfolding tpr_prio_ok_def by (cases po) auto
  have tp: "task_prio (tk t) = Some (unat ?p)" using Some by (simp add: task_prio_def split: prod.split)
  have b: "1 \<le> unat ?p" "unat ?p \<le> 14" using task_prio_bounds(1)[OF _ tp] pr by (simp_all add: prio_range_def)
  have i: "?i < 14" "Suc ?i = unat ?p" "?p \<noteq> 0" using b by auto
  let ?S = "active_with tk A ?c (unat ?p)"
  have cnt: "length (tprCount (cpuTable T c)) = 14" "j < 14 \<Longrightarrow> unat (tprCount (cpuTable T c) ! j) = card (active_with tk A c (Suc j))"
    for c j using g by (simp_all add: tpr_good_def counts_ok_def)
  have tS: "t \<notin> ?S" using na by (simp add: active_with_def)
  have S1: "card (insert t ?S) < 2 ^ 32"
  proof -
    have "insert t ?S = active_with tk (A(t := True)) ?c (unat ?p)" using tp by (simp add: active_with_upd)
    then show ?thesis using active_with_finite(2)[OF pr] by metis
  qed
  have S: "finite ?S" "card (insert t ?S) = Suc (card ?S)" using active_with_finite(1)[OF pr] tS by simp_all
  have n: "unat (tprCount (cpuTable T ?c) ! ?i) = card ?S" using cnt(2)[of ?i ?c] i by simp
  have lt: "tprCount (cpuTable T ?c) ! ?i < UINT32_MAX"
  proof -
    have "tprCount (cpuTable T ?c) ! ?i \<noteq> - 1"
    proof
      assume "tprCount (cpuTable T ?c) ! ?i = - 1"
      then have "card ?S = 2 ^ 32 - 1" using n by (simp add: unsigned_minus_1_eq_mask mask_eq_exp_minus_1)
      then show False using S1 S(2) by simp
    qed
    then show ?thesis by (simp add: word_order.not_eq_extremum)
  qed
  let ?T = "upd_count ?c ?i (\<lambda>n. n + 1) T"
  have inc: "unat (tprCount (cpuTable T ?c) ! ?i + 1) = Suc (card ?S)"
    using S1 S(2) n by (simp add: unat_word_ariths)
  have co: "counts_ok tk (A(t := True)) ?T c" for c
  proof -
    have "unat (tprCount (cpuTable ?T c) ! j) = card (active_with tk (A(t := True)) c (Suc j))" if "j < 14" for j
      using cnt(2)[OF that, of c] inc S tp i that cnt(1)[of ?c]
      by (auto simp: upd_count_def active_with_upd nth_list_update)
    then show ?thesis using cnt(1) by (simp add: counts_ok_def upd_count_def)
  qed
  have e: "ia32eCallbackActivation E this d (tk t) T =
      (if d \<and> ?p > tpr (cpuTable ?T ?c) then ia32eReloadTpr this ?T else ?T)"
    using Some ok cpu i cnt(1)[of ?c] lt
    by (cases po) (simp add: ia32eCallbackActivation_def Let_def not_le)
  have hp: "highest_prio tk (A(t := True)) c = (if c = ?c then max (unat ?p) (highest_prio tk A c) else highest_prio tk A c)" for c
  proof -
    have "{p. active_with tk (A(t := True)) c p \<noteq> {}} = (if c = ?c then insert (unat ?p) {p. active_with tk A c p \<noteq> {}}
        else {p. active_with tk A c p \<noteq> {}})" using tp by (auto simp: active_with_upd)
    moreover have "finite {p. active_with tk A c p \<noteq> {}}" by (rule prio_set_finite[OF pr])
    ultimately show ?thesis
      by (cases "c = ?c") (simp_all add: highest_prio_def insert_commute[of "Suc 0" "unat ?p"])
  qed
  have keep: "tpr (cpuTable ?T c) = tpr (cpuTable T c)" "cr8 (cpuTable ?T c) = cr8 (cpuTable T c)" for c
    by (simp_all add: upd_count_def)
  show ?thesis
  proof (cases "d \<and> ?p > tpr (cpuTable ?T ?c)")
    case True
    then have th: "this = ?c" using run by simp
    note r = reload_ok[OF pr co[of ?c]]
    have "tpr_ok tk (A(t := True)) (ia32eReloadTpr ?c ?T) c" if "c \<in> cs" for c
      using r(1) r(3)[of c] g that hp[of c] keep by (cases "c = ?c") (auto simp: tpr_good_def tpr_ok_def)
    moreover have "counts_ok tk (A(t := True)) (ia32eReloadTpr ?c ?T) c" for c
      using co[of c] r(5)[of c] by (simp add: counts_ok_def)
    ultimately show ?thesis using g r(4) th unfolding e if_P[OF True] by (simp add: tpr_good_def)
  next
    case False
    have "tpr_ok tk (A(t := True)) ?T c" if "c \<in> cs" for c
    proof -
      have d: d using run that by (auto split: if_splits)
      have "tpr_ok tk A T c" using g that by (simp add: tpr_good_def)
      moreover have "unat ?p \<le> highest_prio tk A c" if "c = ?c"
        using False d calculation that keep[of c] by (simp add: tpr_ok_def not_less word_le_nat_alt)
      ultimately show ?thesis using hp[of c] keep[of c] by (auto simp: tpr_ok_def)
    qed
    then show ?thesis using g co unfolding e if_not_P[OF False] by (simp add: tpr_good_def)
  qed
qed

lemma response_good:
  assumes pr: "prio_range tk" and g: "tpr_good tk cs A T" and at: "A t"
    and run: "this = cpuId (tk t)" "this \<in> cs"
  shows "tpr_good tk cs (A(t := False)) (ia32eCallbackResponse this (tk t) T)"
proof (cases "callback_tpr (tk t)")
  case None
  then have "task_prio (tk t) = None" by (simp add: task_prio_def)
  then have "active_with tk (A(t := False)) c p = active_with tk A c p" for c p by (simp add: active_with_upd)
  then show ?thesis using None g
    by (simp add: ia32eCallbackResponse_def tpr_good_def counts_ok_def tpr_ok_def highest_prio_def)
next
  case (Some po)
  let ?c = "cpuId (tk t)" and ?p = "fst po"
  let ?i = "unat ?p - 1"
  have "tpr_prio_ok (tk t)" using pr by (simp add: prio_range_def)
  then have ok: "snd po" using Some unfolding tpr_prio_ok_def by (cases po) auto
  have tp: "task_prio (tk t) = Some (unat ?p)" using Some by (simp add: task_prio_def split: prod.split)
  have b: "1 \<le> unat ?p" "unat ?p \<le> 14" using task_prio_bounds(1)[OF _ tp] pr by (simp_all add: prio_range_def)
  have i: "?i < 14" "Suc ?i = unat ?p" "?p \<noteq> 0" using b by auto
  let ?S = "active_with tk A ?c (unat ?p)"
  have cnt: "length (tprCount (cpuTable T c)) = 14" "j < 14 \<Longrightarrow> unat (tprCount (cpuTable T c) ! j) = card (active_with tk A c (Suc j))"
    for c j using g by (simp_all add: tpr_good_def counts_ok_def)
  have tS: "t \<in> ?S" using at tp by (simp add: active_with_def)
  have S: "finite ?S" "card ?S = Suc (card (?S - {t}))"
    using active_with_finite(1)[OF pr] card.remove[OF _ tS] by blast+
  have n: "unat (tprCount (cpuTable T ?c) ! ?i) = card ?S" using cnt(2)[of ?i ?c] i by simp
  then have pos: "tprCount (cpuTable T ?c) ! ?i > 0" using S(2) by (simp add: word_less_nat_alt)
  let ?T = "upd_count ?c ?i (\<lambda>n. n - 1) T"
  have dec: "unat (tprCount (cpuTable T ?c) ! ?i - 1) = card (?S - {t})"
    using unat_minus_one[of "tprCount (cpuTable T ?c) ! ?i"] pos n S(2) by auto
  have co: "counts_ok tk (A(t := False)) ?T c" for c
  proof -
    have "unat (tprCount (cpuTable ?T c) ! j) = card (active_with tk (A(t := False)) c (Suc j))" if "j < 14" for j
      using cnt(2)[OF that, of c] dec tp i that cnt(1)[of ?c]
      by (auto simp: upd_count_def active_with_upd nth_list_update)
    then show ?thesis using cnt(1) by (simp add: counts_ok_def upd_count_def)
  qed
  have fin: "finite {p. active_with tk A c p \<noteq> {}}" for A c by (rule prio_set_finite[OF pr])
  have tc: "tpr_ok tk A T ?c" using g run by (simp add: tpr_good_def)
  have le: "?p \<le> tpr (cpuTable T ?c)"
  proof -
    have "unat ?p \<le> highest_prio tk A ?c"
      unfolding highest_prio_def by (rule Max_ge) (use fin tS in auto)
    then show ?thesis using tc by (simp add: tpr_ok_def word_le_nat_alt)
  qed
  have e: "ia32eCallbackResponse this (tk t) T =
      (if ?p = tpr (cpuTable ?T ?c) \<and> tprCount (cpuTable ?T ?c) ! ?i = 0 then ia32eReloadTpr ?c ?T else ?T)"
    using Some ok i cnt(1)[of ?c] pos le run
    by (cases po) (simp add: ia32eCallbackResponse_def Let_def not_le)
  have other: "active_with tk (A(t := False)) c p = active_with tk A c p" if "c \<noteq> ?c \<or> p \<noteq> unat ?p" for c p
    using that tp by (auto simp: active_with_upd)
  have keep: "tpr (cpuTable ?T c) = tpr (cpuTable T c)" "cr8 (cpuTable ?T c) = cr8 (cpuTable T c)" for c
    by (simp_all add: upd_count_def)
  have oc: "tpr_ok tk (A(t := False)) ?T c" if "c \<in> cs" "c \<noteq> ?c" for c
  proof -
    have "highest_prio tk (A(t := False)) c = highest_prio tk A c" using other[of c] that by (simp add: highest_prio_def)
    then show ?thesis using g that keep[of c] by (simp add: tpr_good_def tpr_ok_def)
  qed
  show ?thesis
  proof (cases "?p = tpr (cpuTable ?T ?c) \<and> tprCount (cpuTable ?T ?c) ! ?i = 0")
    case True
    note r = reload_ok[OF pr co[of ?c]]
    have "tpr_ok tk (A(t := False)) (ia32eReloadTpr ?c ?T) c" if "c \<in> cs" for c
      using r(1) r(3)[of c] oc[OF that] by (cases "c = ?c") (auto simp: tpr_ok_def)
    moreover have "counts_ok tk (A(t := False)) (ia32eReloadTpr ?c ?T) c" for c
      using co[of c] r(5)[of c] by (simp add: counts_ok_def)
    ultimately show ?thesis using g r(4) unfolding e if_P[OF True] by (simp add: tpr_good_def)
  next
    case False
    have "highest_prio tk (A(t := False)) ?c = highest_prio tk A ?c"
    proof (cases "?S - {t} = {}")
      case False
      then have "active_with tk (A(t := False)) ?c p \<noteq> {} \<longleftrightarrow> active_with tk A ?c p \<noteq> {}" for p
        using other[of ?c p] tp by (cases "p = unat ?p") (auto simp: active_with_upd)
      then show ?thesis by (simp add: highest_prio_def)
    next
      case True
      have "tprCount (cpuTable ?T ?c) ! ?i = 0"
        using dec True cnt(1)[of ?c] i by (simp add: upd_count_def unat_eq_zero)
      then have "?p \<noteq> tpr (cpuTable T ?c)" using False keep[of ?c] by simp
      then have ne: "unat ?p \<noteq> highest_prio tk A ?c"
        using tc by (auto simp: tpr_ok_def word_unat_eq_iff)
      have "active_with tk (A(t := False)) ?c p \<noteq> {} \<longleftrightarrow> p \<noteq> unat ?p \<and> active_with tk A ?c p \<noteq> {}" for p
        using other[of ?c p] tp True by (cases "p = unat ?p") (auto simp: active_with_upd)
      then have "{p. active_with tk (A(t := False)) ?c p \<noteq> {}} = {p. active_with tk A ?c p \<noteq> {}} - {unat ?p}" by blast
      moreover have "insert 1 {p. active_with tk A ?c p \<noteq> {}} = insert (unat ?p) (insert 1 ({p. active_with tk A ?c p \<noteq> {}} - {unat ?p}))"
        using tS by blast
      moreover have "Max (insert (unat ?p) (insert 1 ({p. active_with tk A ?c p \<noteq> {}} - {unat ?p})))
          = Max (insert 1 ({p. active_with tk A ?c p \<noteq> {}} - {unat ?p}))"
        using ne calculation(2) fin[of A ?c] Max_insert[of "insert 1 ({p. active_with tk A ?c p \<noteq> {}} - {unat ?p})" "unat ?p"]
        by (simp add: highest_prio_def max_def split: if_splits)
      ultimately show ?thesis by (simp add: highest_prio_def)
    qed
    then have "tpr_ok tk (A(t := False)) ?T c" if "c \<in> cs" for c
      using oc[OF that] tc keep[of c] by (cases "c = ?c") (auto simp: tpr_ok_def)
    then show ?thesis using g co unfolding e if_not_P[OF False] by (simp add: tpr_good_def)
  qed
qed

lemma handoff_good:
  assumes pr: "prio_range tk" and g: "tpr_good tk cs A T"
  shows "tpr_good tk (insert c cs) A (ia32eCallbackCpuHandoff c T)"
proof -
  have "counts_ok tk A T c" using g by (simp add: tpr_good_def)
  note r = reload_ok[OF pr this]
  have "tpr_ok tk A (ia32eCallbackCpuHandoff c T) c'" if "c' \<in> insert c cs" for c'
    using r(1) r(3)[of c'] g that by (cases "c' = c") (auto simp: ia32eCallbackCpuHandoff_def tpr_ok_def tpr_good_def)
  moreover have "counts_ok tk A (ia32eCallbackCpuHandoff c T) c'" for c'
  proof -
    have "tprCount (cpuTable (ia32eCallbackCpuHandoff c T) c') = tprCount (cpuTable T c')"
      using r(5)[of c'] by (cases "c' = c") (simp_all add: ia32eCallbackCpuHandoff_def)
    then show ?thesis using g by (simp add: tpr_good_def counts_ok_def)
  qed
  ultimately show ?thesis using g r(4) by (simp add: tpr_good_def ia32eCallbackCpuHandoff_def)
qed

subsection \<open>Histories\<close>

lemma tpr_event_silent: "silent e \<Longrightarrow> tpr_event E tk e T = T"
  by (cases e) simp_all

lemma replay_silent_head: "silent e \<Longrightarrow> replay A (e # es) = replay A es"
  by (cases e) simp_all

text \<open>The boot: only the counters matter, and nothing stops being active.\<close>

lemma boot_run_good:
  assumes "prio_range tk" "tpr_good tk {} A T" "replay A es = Some A'"
    and "\<forall>e \<in> set es. silent e \<or> (\<exists>c t. e = EvActivation c False t \<and> cpuValid E (cpuId (tk t)))"
  shows "tpr_good tk {} A' (tpr_run E tk es T)"
  using assms(2-4)
proof (induction es arbitrary: A T)
  case (Cons e es)
  show ?case
  proof (cases "silent e")
    case True
    then show ?thesis using Cons by (simp add: tpr_run_def tpr_event_silent replay_silent_head)
  next
    case False
    then obtain c t where e: "e = EvActivation c False t" "cpuValid E (cpuId (tk t))" using Cons.prems(3) by auto
    then have na: "\<not> A t" "replay (A(t := True)) es = Some A'" using Cons.prems(2) by (auto split: if_splits)
    have "tpr_good tk {} (A(t := True)) (tpr_event E tk e T)"
      using activation_good[OF assms(1) Cons.prems(1) na(1) e(2), of False c] e(1) by simp
    from Cons.IH[OF this na(2)] Cons.prems(3) show ?thesis by (simp add: tpr_run_def)
  qed
qed (simp add: tpr_run_def)

lemma handoff_run_good:
  assumes "prio_range tk" "tpr_good tk cs A T" "list_all (\<lambda>e. silent e \<or> (\<exists>c. e = EvHandoff c)) es"
  shows "tpr_good tk (cs \<union> {c. EvHandoff c \<in> set es}) A (tpr_run E tk es T)"
  using assms(2,3)
proof (induction es arbitrary: cs T)
  case (Cons e es)
  show ?case
  proof (cases "silent e")
    case True
    then have "{c. EvHandoff c \<in> set (e # es)} = {c. EvHandoff c \<in> set es}" by auto
    then show ?thesis using Cons True by (simp add: tpr_run_def tpr_event_silent)
  next
    case False
    then obtain c where e: "e = EvHandoff c" using Cons.prems(2) by auto
    have "cs \<union> {c. EvHandoff c \<in> set (e # es)} = insert c cs \<union> {c. EvHandoff c \<in> set es}" using e by auto
    then show ?thesis
      using Cons.IH[OF handoff_good[OF assms(1) Cons.prems(1), of c]] Cons.prems(2) e by (simp add: tpr_run_def)
  qed
qed (simp add: tpr_run_def)

text \<open>The running system: reports about tasks of the CPU on which they run.\<close>

lemma running_good:
  assumes "prio_range tk" "tpr_good tk cs A T" "replay A es = Some A'"
    and "list_all (report_own own True) es"
    and own: "\<And>c t. own c t \<Longrightarrow> c = cpuId (tk t) \<and> cpuValid E c \<and> c \<in> cs"
  shows "tpr_good tk cs A' (tpr_run E tk es T)"
  using assms(2-4)
proof (induction es arbitrary: A T)
  case (Cons e es)
  have "\<exists>A1. replay A1 es = Some A' \<and> tpr_good tk cs A1 (tpr_event E tk e T)"
  proof (cases "silent e")
    case True
    then show ?thesis using Cons.prems by (intro exI[of _ A]) (simp add: tpr_event_silent replay_silent_head)
  next
    case False
    then consider (act) c d t where "e = EvActivation c d t" | (resp) c d t where "e = EvResponse c d t"
      using Cons.prems(3) by (cases e) simp_all
    then show ?thesis
    proof cases
      case act
      have r: "\<not> A t" "replay (A(t := True)) es = Some A'" "own c t" d
        using Cons.prems(2,3) unfolding act by (auto split: if_splits simp del: fun_upd_apply)
      have "c = cpuId (tk t)" "cpuValid E (cpuId (tk t))" using own[OF r(3)] by auto
      then show ?thesis unfolding act tpr_event.simps
        using activation_good[OF assms(1) Cons.prems(1) r(1), of E d c] r(2,4) by (metis (no_types))
    next
      case resp
      have r: "A t" "replay (A(t := False)) es = Some A'" "own c t"
        using Cons.prems(2,3) unfolding resp by (auto split: if_splits simp del: fun_upd_apply)
      have "c = cpuId (tk t)" "c \<in> cs" using own[OF r(3)] by auto
      then show ?thesis unfolding resp tpr_event.simps
        using response_good[OF assms(1) Cons.prems(1) r(1), of c] r(2) by (metis (no_types))
    qed
  qed
  then obtain A1 where 1: "replay A1 es = Some A'" "tpr_good tk cs A1 (tpr_event E tk e T)" by blast
  have "list_all (report_own own True) es" using Cons.prems(3) by simp
  from Cons.IH[OF 1(2,1) this] show ?case by (simp add: tpr_run_def)
qed (simp add: tpr_run_def)

lemma tpr_start_good: "tpr_good tk {} (\<lambda>_. False) tpr_start"
  by (simp add: tpr_good_def counts_ok_def active_with_def tpr_start_def)

lemma tpr_run_append: "tpr_run E tk (es @ fs) T = tpr_run E tk fs (tpr_run E tk es T)"
  by (simp add: tpr_run_def)

end
