(* ===== verification/BootInv.thy ===== *)
theory BootInv
  imports Boot Tpr
begin

text \<open>
  The boot sequence establishes the invariant of the kernel. While plugins run, no task runs, all
  threads are ready and all LSRs dormant (\<open>boot_cpu\<close>); the hand-off dispatches the first task of
  every CPU. The locale \<open>policy_boot\<close> adds to the contract of a policy what creating threads needs.
\<close>

subsection \<open>The contract of a policy while the system boots\<close>

text \<open>Task \<open>t\<close> is the only one whose type or CPU differs.\<close>

definition new_task :: "addr \<Rightarrow> 'p kstate \<Rightarrow> 'p kstate \<Rightarrow> bool" where
  "new_task t s s' \<longleftrightarrow> ttype (tasks s t) = K_TASK_INVALID \<and> ttype (tasks s' t) \<noteq> K_TASK_INVALID
     \<and> (\<forall>u. u \<noteq> t \<longrightarrow> ttype (tasks s' u) = ttype (tasks s u) \<and> cpuId (tasks s' u) = cpuId (tasks s u))"

lemma pol_only_fields:
  assumes "pol_only s s'"
  shows "tasks s' = tasks s" "archLsrs s' = archLsrs s" "sleepNodes s' = sleepNodes s" "replenishNodes s' = replenishNodes s"
    "gTickMachines s' = gTickMachines s" "gOpsInitialized s' = gOpsInitialized s" "gPluginsDone s' = gPluginsDone s"
    "faults s' = faults s" "thisCpu s' = thisCpu s" "domains s' = domains s" "domainTable s' = domainTable s"
    "kTasks s' = kTasks s" "trace s' = trace s"
  using arg_cong[OF assms[unfolded pol_only_def], of trace] arg_cong[OF assms[unfolded pol_only_def], of tasks] arg_cong[OF assms[unfolded pol_only_def], of archLsrs]
    arg_cong[OF assms[unfolded pol_only_def], of sleepNodes] arg_cong[OF assms[unfolded pol_only_def], of replenishNodes]
    arg_cong[OF assms[unfolded pol_only_def], of gTickMachines] arg_cong[OF assms[unfolded pol_only_def], of gOpsInitialized]
    arg_cong[OF assms[unfolded pol_only_def], of gPluginsDone] arg_cong[OF assms[unfolded pol_only_def], of faults]
    arg_cong[OF assms[unfolded pol_only_def], of thisCpu] arg_cong[OF assms[unfolded pol_only_def], of domains]
    arg_cong[OF assms[unfolded pol_only_def], of domainTable] arg_cong[OF assms[unfolded pol_only_def], of kTasks]
  by simp_all

locale policy_boot = sched_policy E pinv tickable known
  for E :: "'p kEnv" and pinv :: "u32 \<Rightarrow> addr set \<Rightarrow> 'p kstate \<Rightarrow> bool"
    and tickable :: "addr \<Rightarrow> 'p kstate \<Rightarrow> bool" and known :: "addr \<Rightarrow> 'p kstate \<Rightarrow> bool" +
  fixes admit :: "'q kPluginTaskThreadParam \<Rightarrow> 'p kstate \<Rightarrow> errno + ('p kstate \<Rightarrow> 'p kstate)"
    and set_param :: "'q \<Rightarrow> addr \<Rightarrow> 'p \<Rightarrow> 'p"
    and boot_pol :: "'p kstate \<Rightarrow> bool"
  assumes init_law: "kSchedInitFn (ops E) s = kSchedTaskIdleInit E (idleAddr E (thisCpu s)) s"
    and idle_law: "kSchedGetIdleFn (ops E) c s = get_idle E c s"
    and new_pinv: "new_task t s s' \<Longrightarrow> pol s' = pol s \<Longrightarrow> t \<notin> Q \<Longrightarrow> pinv c Q s \<Longrightarrow> pinv c Q s'"
    and new_known: "new_task t s s' \<Longrightarrow> pol s' = pol s \<Longrightarrow> u \<noteq> t \<Longrightarrow> known u s \<Longrightarrow> known u s'"
    and boot_pol_law: "pol s' = pol s \<Longrightarrow> (\<And>u. ttype (tasks s' u) = K_TASK_INVALID \<Longrightarrow> ttype (tasks s u) = K_TASK_INVALID)
      \<Longrightarrow> boot_pol s \<Longrightarrow> boot_pol s'"
    and claim_law: "admit p s = Inr claim \<Longrightarrow> pol s' = pol s \<Longrightarrow> pol_only s' (claim s') \<and> pol (claim s') = pol (claim s)"
    and admit_law: "admit p s = Inr claim \<Longrightarrow> boot_pol s \<Longrightarrow> new_task t s s' \<Longrightarrow>
      pol s' = set_param (thParam p) t (pol (claim s)) \<Longrightarrow>
      ttype (tasks s' t) = K_TASK_THREAD \<Longrightarrow> cpuId (tasks s' t) = thCpuId p \<Longrightarrow>
      (\<And>c. cpuValid E c \<Longrightarrow> pinv c (Qs c) s \<and> t \<notin> Qs c) \<Longrightarrow> cpuValid E (thCpuId p) \<Longrightarrow>
      pol_only s' (kSchedPushFn (ops E) t s')
      \<and> boot_pol (kSchedPushFn (ops E) t s')
      \<and> known t (kSchedPushFn (ops E) t s')
      \<and> (\<forall>u. u \<noteq> t \<longrightarrow> known u s \<longrightarrow> known u (kSchedPushFn (ops E) t s'))
      \<and> (\<forall>c. cpuValid E c \<longrightarrow> pinv c (if c = thCpuId p then insert t (Qs c) else Qs c) (kSchedPushFn (ops E) t s'))"
begin

subsection \<open>The invariant while the system boots\<close>

definition boot_task :: "u32 \<Rightarrow> 'p kstate \<Rightarrow> addr \<Rightarrow> kSchedTask \<Rightarrow> bool" where
  "boot_task c s t r \<longleftrightarrow>
    (case ttype r of
       K_TASK_THREAD \<Rightarrow> tstate r = K_TASK_STATE_READY \<and> 0 < budget (tick r) \<and> 0 < currentBudget (tick r)
         \<and> \<not> lag (tick r) \<and> curDomain (tdomain r) \<noteq> None \<and> known t s
     | K_TASK_LSR \<Rightarrow> tstate r = K_TASK_STATE_LSR_DORMANT \<and> curDomain (tdomain r) \<noteq> None
     | K_TASK_IDLE \<Rightarrow> tstate r = K_TASK_STATE_READY \<and> t = idleAddr E c \<and> curDomain (tdomain r) = None
     | K_TASK_INVALID \<Rightarrow> False)"

definition threads :: "'p kstate \<Rightarrow> u32 \<Rightarrow> addr set" where
  "threads s c = {t. live s c t \<and> ttype (tasks s t) = K_TASK_THREAD}"

definition boot_cpu :: "u32 \<Rightarrow> 'p kstate \<Rightarrow> bool" where
  "boot_cpu c s \<longleftrightarrow>
    (let M = gTickMachines s c in
       runningTask M = None \<and> deferredTicks M = [] \<and> pendingLsrChain M = [] \<and> pendingTaskLsr M = None
     \<and> chain_dq (sleepChain M) = [] \<and> chain_wf (sleepNodes s) (sleepChain M)
     \<and> chain_wf (replenishNodes s) (replenishmentChain M) \<and> timer_inv E c s
     \<and> set (chain_dq (replenishmentChain M)) = {t \<in> threads s c. alg E = DS \<and> 0 < period (tick (tasks s t))}
     \<and> (\<forall>v. distinct (archLsrs s c v)
          \<and> set (archLsrs s c v) = {t. live s c t \<and> ttype (tasks s t) = K_TASK_LSR \<and> lsrVector (tasks s t) = v})
     \<and> (\<forall>t. live s c t \<longrightarrow> boot_task c s t (tasks s t))
     \<and> pinv c (threads s c) s)"

definition idle_up :: "u32 \<Rightarrow> 'p kstate \<Rightarrow> bool" where
  "idle_up c s \<longleftrightarrow> live s c (idleAddr E c) \<and> ttype (tasks s (idleAddr E c)) = K_TASK_IDLE"

text \<open>The invariant of a booted CPU follows, but for the running task.\<close>

lemma boot_kmid:
  assumes b: "boot_cpu c s" and i: "idle_up c s" and o: "gOpsInitialized s" "cpuValid E c"
  shows "kmid c s"
proof -
  let ?M = "gTickMachines s c"
  note d = b[unfolded boot_cpu_def Let_def]
  have lv: "u \<in> threads s c \<Longrightarrow> live s c u" for u by (simp add: threads_def)
  have mi: "machine_inv s c"
    unfolding machine_inv_def Let_def using d lv by auto
  have pl: "place_inv (alg E) ?M (archLsrs s c) False t (tasks s t)"
      and lo: "local_inv (idleAddr E) c False False t (tasks s t)" if t: "live s c t" for t
  proof -
    have bt: "boot_task c s t (tasks s t)" using d t by blast
    have rep: "t \<in> set (chain_dq (replenishmentChain ?M)) \<longleftrightarrow>
        ttype (tasks s t) = K_TASK_THREAD \<and> alg E = DS \<and> 0 < period (tick (tasks s t))"
      using d t by (auto simp: threads_def)
    have lsr: "t \<in> set (archLsrs s c (lsrVector (tasks s t))) \<longleftrightarrow> ttype (tasks s t) = K_TASK_LSR"
      using d t by auto
    have ty: "ttype (tasks s t) \<noteq> K_TASK_INVALID" using t by (simp add: live_def)
    show "place_inv (alg E) ?M (archLsrs s c) False t (tasks s t)"
      using bt rep lsr d ty unfolding place_inv_def boot_task_def
      by (cases "ttype (tasks s t)"; cases "alg E") (simp_all add: DEFTICK_STATES_def)
    show "local_inv (idleAddr E) c False False t (tasks s t)"
      using bt ty unfolding local_inv_def boot_task_def
      by (cases "ttype (tasks s t)") (auto simp: state_ok_def)
  qed
  have "tick_inv E c {} {} s"
    using mi pl lo i o by (simp add: tick_inv_def idle_up_def)
  moreover have "ready_set s c {} = threads s c"
    using d by (auto simp: ready_set_def threads_def boot_task_def)
  moreover have "known t s \<and> (tstate (tasks s t) \<in> TICKED_STATES \<and> t \<notin> {} \<longrightarrow> tickable t s)"
    if "live s c t" "ttype (tasks s t) = K_TASK_THREAD" for t
  proof -
    have "boot_task c s t (tasks s t)" using d that by blast
    then show ?thesis using that by (simp add: boot_task_def TICKED_STATES_def DEFTICK_STATES_def)
  qed
  ultimately have "kinv c {} {} s" using d by (simp add: kinv_def)
  then show ?thesis using d by (simp add: kmid_def)
qed

subsection \<open>What a request leaves alone\<close>

definition boot_same :: "kSchedTask \<Rightarrow> kSchedTask \<Rightarrow> bool" where
  "boot_same r r' \<longleftrightarrow> ttype r' = ttype r \<and> cpuId r' = cpuId r \<and> tstate r' = tstate r \<and> tick r' = tick r
     \<and> lsrVector r' = lsrVector r \<and> threadTpr r' = threadTpr r \<and> curDomain (tdomain r') = curDomain (tdomain r)"

lemma boot_same_refl [simp]: "boot_same r r"
  by (simp add: boot_same_def)

text \<open>Nothing of CPU \<open>c\<close> has changed.\<close>

definition cpu_kept :: "u32 \<Rightarrow> 'p kstate \<Rightarrow> 'p kstate \<Rightarrow> bool" where
  "cpu_kept c s s' \<longleftrightarrow> gTickMachines s' c = gTickMachines s c \<and> archLsrs s' c = archLsrs s c
     \<and> sleepNodes s' = sleepNodes s
     \<and> (\<forall>u. live s c u \<longrightarrow> replenishNodes s' u = replenishNodes s u \<and> boot_same (tasks s u) (tasks s' u))
     \<and> (\<forall>u. live s' c u = live s c u)"

lemma boot_cpu_kept:
  assumes b: "boot_cpu c s" and k: "cpu_kept c s s'" and p: "pinv c (threads s c) s'"
    and kn: "\<And>u. u \<in> threads s c \<Longrightarrow> known u s \<Longrightarrow> known u s'"
  shows "boot_cpu c s'"
proof -
  let ?M = "gTickMachines s c"
  note d = b[unfolded boot_cpu_def Let_def]
  have M: "gTickMachines s' c = ?M" "archLsrs s' c = archLsrs s c" "sleepNodes s' = sleepNodes s"
    and lv: "live s' c u = live s c u" for u using k by (simp_all add: cpu_kept_def)
  have bs: "boot_same (tasks s u) (tasks s' u)" if "live s c u" for u using k that by (simp add: cpu_kept_def)
  have th: "threads s' c = threads s c"
    unfolding threads_def lv using bs by (auto simp: boot_same_def)
  have n: "replenishNodes s' u = replenishNodes s u" if "u \<in> set (chain_dq (replenishmentChain ?M))" for u
    using that d k by (auto simp: threads_def cpu_kept_def)
  have ds: "delta_sum (replenishNodes s') (chain_dq (replenishmentChain ?M))
      = delta_sum (replenishNodes s) (chain_dq (replenishmentChain ?M))"
    by (rule delta_sum_cong) (simp add: n)
  have tm: "chain_timers (replenishNodes s') (replenishmentChain ?M) = chain_timers (replenishNodes s) (replenishmentChain ?M)"
    unfolding chain_timers_def by (rule timers_cong) (simp add: n)
  have "epochs_ok (replenishNodes s') (replenishmentChain ?M)" if "epochs_ok (replenishNodes s) (replenishmentChain ?M)"
  proof -
    have "u \<in> set (chain_dq (replenishmentChain ?M))"
      if "(u, r) \<in> set (chain_timers (replenishNodes s) (replenishmentChain ?M))" for u r
      using that timers_fst_in unfolding chain_timers_def by fast
    then show ?thesis using that n unfolding epochs_ok_def tm by (fastforce simp: list_all_iff)
  qed
  then have ti: "timer_inv E c s'" using d by (simp add: timer_inv_def tm M)
  have bt: "boot_task c s' t (tasks s' t)" if t: "live s c t" for t
  proof -
    have "boot_task c s t (tasks s t)" using d t by blast
    moreover have "t \<in> threads s c" if "ttype (tasks s t) = K_TASK_THREAD" using that t by (simp add: threads_def)
    ultimately show ?thesis using bs[OF t] kn[of t]
      by (auto simp: boot_task_def boot_same_def split: kSchedTaskType.splits)
  qed
  have pe: "{t \<in> threads s c. alg E = DS \<and> 0 < period (tick (tasks s' t))}
      = {t \<in> threads s c. alg E = DS \<and> 0 < period (tick (tasks s t))}"
    using bs by (auto simp: threads_def boot_same_def)
  have ls: "{t. live s c t \<and> ttype (tasks s' t) = K_TASK_LSR \<and> lsrVector (tasks s' t) = v}
      = {t. live s c t \<and> ttype (tasks s t) = K_TASK_LSR \<and> lsrVector (tasks s t) = v}" for v
    using bs by (auto simp: boot_same_def)
  show ?thesis
    unfolding boot_cpu_def Let_def M th pe lv ls
    using d bt p ti ds by (simp add: chain_wf_def)
qed

text \<open>A task of CPU \<open>c'\<close> has been created: the other CPUs are kept.\<close>

lemma new_kept:
  assumes "new_task t s s'" and "\<And>u. u \<noteq> t \<Longrightarrow> tasks s' u = tasks s u" and "cpuId (tasks s' t) \<noteq> c"
    and "gTickMachines s' c = gTickMachines s c" "archLsrs s' c = archLsrs s c" "sleepNodes s' = sleepNodes s"
    and "\<And>u. u \<noteq> t \<Longrightarrow> replenishNodes s' u = replenishNodes s u \<or> cpuId (tasks s u) \<noteq> c"
  shows "cpu_kept c s s'"
proof -
  have "live s c u \<Longrightarrow> u \<noteq> t" for u using assms(1) by (auto simp: new_task_def live_def)
  moreover have "live s' c u = live s c u" for u
    using assms(1-3) by (cases "u = t") (auto simp: new_task_def live_def)
  ultimately show ?thesis using assms by (fastforce simp: cpu_kept_def live_def)
qed

subsection \<open>A new task on its own CPU\<close>

lemma boot_cpu_new:
  assumes b: "boot_cpu c s" and new: "new_task t s s'" and oth: "\<And>u. u \<noteq> t \<Longrightarrow> tasks s' u = tasks s u"
    and cpu: "cpuId (tasks s' t) = c" and bt: "boot_task c s' t (tasks s' t)"
    and M: "gTickMachines s' c = (gTickMachines s c)\<lparr>replenishmentChain := ch\<rparr>" and sl: "sleepNodes s' = sleepNodes s"
    and ch: "chain_wf (replenishNodes s') ch" "timer_inv E c s'"
      "set (chain_dq ch) = (if ttype (tasks s' t) = K_TASK_THREAD \<and> alg E = DS \<and> 0 < period (tick (tasks s' t))
         then insert t else id) (set (chain_dq (replenishmentChain (gTickMachines s c))))"
    and L: "\<And>v. archLsrs s' c v =
        (if ttype (tasks s' t) = K_TASK_LSR \<and> lsrVector (tasks s' t) = v then t # archLsrs s c v else archLsrs s c v)"
    and p: "pinv c (if ttype (tasks s' t) = K_TASK_THREAD then insert t (threads s c) else threads s c) s'"
    and kn: "\<And>u. u \<noteq> t \<Longrightarrow> known u s \<Longrightarrow> known u s'"
  shows "boot_cpu c s'"
proof -
  let ?r = "tasks s' t"
  note d = b[unfolded boot_cpu_def Let_def]
  have nl: "\<not> live s c t" and ty: "ttype ?r \<noteq> K_TASK_INVALID" using new by (auto simp: new_task_def live_def)
  have lv: "live s' c u \<longleftrightarrow> u = t \<or> live s c u" for u
    using oth[of u] cpu ty by (cases "u = t") (auto simp: live_def)
  have old: "tasks s' u = tasks s u" if "live s c u" for u using that nl oth[of u] by auto
  have th: "threads s' c = (if ttype ?r = K_TASK_THREAD then insert t (threads s c) else threads s c)"
    using old unfolding threads_def lv by auto
  have pe: "{u \<in> threads s' c. alg E = DS \<and> 0 < period (tick (tasks s' u))} =
      (if ttype ?r = K_TASK_THREAD \<and> alg E = DS \<and> 0 < period (tick ?r) then insert t else id)
        {u \<in> threads s c. alg E = DS \<and> 0 < period (tick (tasks s u))}"
    using old unfolding th by (auto simp: threads_def)
  have ls: "{u. live s' c u \<and> ttype (tasks s' u) = K_TASK_LSR \<and> lsrVector (tasks s' u) = v} =
      (if ttype ?r = K_TASK_LSR \<and> lsrVector ?r = v then insert t else id)
        {u. live s c u \<and> ttype (tasks s u) = K_TASK_LSR \<and> lsrVector (tasks s u) = v}" for v
    using old lv by auto
  have al: "distinct (archLsrs s c v)" "set (archLsrs s c v) =
      {u. live s c u \<and> ttype (tasks s u) = K_TASK_LSR \<and> lsrVector (tasks s u) = v}" for v
    using d by blast+
  have arch: "distinct (archLsrs s' c v) \<and> set (archLsrs s' c v) =
      {u. live s' c u \<and> ttype (tasks s' u) = K_TASK_LSR \<and> lsrVector (tasks s' u) = v}" for v
    unfolding ls L using al[of v] nl by simp
  have btu: "boot_task c s' u (tasks s' u)" if "live s' c u" for u
  proof (cases "u = t")
    case True then show ?thesis using bt by simp
  next
    case False
    then have "boot_task c s u (tasks s u)" using that lv d by blast
    then show ?thesis using oth[OF False] kn[OF False] by (auto simp: boot_task_def split: kSchedTaskType.splits)
  qed
  have q: "set (chain_dq ch) = {u \<in> threads s' c. alg E = DS \<and> 0 < period (tick (tasks s' u))}"
    unfolding ch(3) pe using d by simp
  show ?thesis
    unfolding boot_cpu_def Let_def M
    using d arch btu p ch(1,2) q sl by (simp add: th)
qed

subsection \<open>What the boot reports\<close>

text \<open>Before the hand-off no context and no page table is loaded.\<close>

fun early :: "event \<Rightarrow> bool" where
  "early (EvSaveCtx c t) = False"
| "early (EvRestoreCtx c t) = False"
| "early (EvEnterDomain c d) = False"
| "early e = silent e"

lemma early_silent: "early e \<Longrightarrow> silent e"
  by (cases e) auto

lemma early_act_owners:
  assumes "\<forall>e \<in> set es. early e \<or> (\<exists>c d t. e = EvActivation c d t)"
  shows "owners W es = Some W" "spaces sp es = sp"
  using assms by (induction es) (auto elim!: early.elims)

text \<open>
  The trace of the boot explains which tasks are active, and reports known tasks only. The interrupt
  priority of a task is in range, every task is in the task table, and none runs.
\<close>

definition boot_report :: "'p kstate \<Rightarrow> bool" where
  "boot_report s \<longleftrightarrow> replay (\<lambda>_. False) (rev (trace s)) = Some (activated s)
     \<and> (\<forall>e \<in> set (trace s). early e \<or> (\<exists>c t. e = EvActivation c False t \<and> ttype (tasks s t) \<noteq> K_TASK_INVALID))
     \<and> running s = (\<lambda>_. None)
     \<and> (\<forall>t. tpr_prio_ok (tasks s t))
     \<and> (\<forall>t. if ttype (tasks s t) = K_TASK_INVALID then tstate (tasks s t) = K_TASK_STATE_INVALID
            else cpuValid E (cpuId (tasks s t)) \<and> (\<exists>i < ARRAY_LEN_kTasks E. kTasks s i = Some t))"

lemma boot_report_known:
  assumes "boot_report s" "ttype (tasks s t) \<noteq> K_TASK_INVALID"
  shows "cpuValid E (cpuId (tasks s t))" "\<exists>i < ARRAY_LEN_kTasks E. kTasks s i = Some t"
proof -
  have "if ttype (tasks s t) = K_TASK_INVALID then tstate (tasks s t) = K_TASK_STATE_INVALID
      else cpuValid E (cpuId (tasks s t)) \<and> (\<exists>i < ARRAY_LEN_kTasks E. kTasks s i = Some t)"
    using assms(1) unfolding boot_report_def by blast
  then show "cpuValid E (cpuId (tasks s t))" "\<exists>i < ARRAY_LEN_kTasks E. kTasks s i = Some t"
    using assms(2) by simp_all
qed

lemma boot_report_same:
  assumes r: "boot_report s" and k: "\<And>u. boot_same (tasks s u) (tasks s' u)"
    and tr: "trace s' = es @ trace s" "list_all early es" and kt: "kTasks s' = kTasks s"
    and m: "running s' = running s"
  shows "boot_report s'"
proof -
  have a: "activated s' = activated s" using k by (simp add: activated_def boot_same_def fun_eq_iff)
  have p: "tpr_prio_ok (tasks s' t) = tpr_prio_ok (tasks s t)" for t using k[of t]
    by (cases "ttype (tasks s t)") (simp_all add: tpr_prio_ok_def callback_tpr_def boot_same_def)
  have "list_all silent (rev es)" using tr(2) by (auto simp: list_all_iff early_silent)
  then have "replay (\<lambda>_. False) (rev (trace s')) = Some (activated s')"
    using r by (simp add: tr(1) replay_append silent_replay boot_report_def a)
  moreover have "\<forall>e \<in> set (trace s'). early e \<or> (\<exists>c t. e = EvActivation c False t \<and> ttype (tasks s' t) \<noteq> K_TASK_INVALID)"
    using r tr k by (auto simp: boot_report_def list_all_iff boot_same_def)
  ultimately show ?thesis using r k kt p m by (simp add: boot_report_def boot_same_def)
qed

lemma boot_report_cpu [simp]: "boot_report (s\<lparr>thisCpu := c\<rparr>) = boot_report s"
  by (simp add: boot_report_def running_def fun_eq_iff)

lemma boot_report_new:
  assumes r: "boot_report s" and t: "ttype (tasks s t) = K_TASK_INVALID" and ts: "tasks s' = (tasks s)(t := r')"
    and new: "ttype r' \<noteq> K_TASK_INVALID" "cpuValid E (cpuId r')" "tpr_prio_ok r'"
    and kt: "kTasks s' = (kTasks s)(i := Some t)" "kTasks s i = None" "i < ARRAY_LEN_kTasks E"
    and tr: "trace s' = (if K_SCHED_TASK_ACTIVATED (tstate r') then [EvActivation c False t] else []) @ es @ trace s"
      "list_all early es"
    and m: "running s' = running s"
  shows "boot_report s'"
proof -
  have "tstate (tasks s t) = K_TASK_STATE_INVALID" using r t by (simp add: boot_report_def)
  then have na: "\<not> activated s t" by (simp add: activated_def K_SCHED_TASK_ACTIVATED_def)
  have a: "activated s' = (activated s)(t := K_SCHED_TASK_ACTIVATED (tstate r'))"
    using na by (auto simp: activated_def fun_eq_iff ts)
  have "list_all silent (rev es)" using tr(2) by (auto simp: list_all_iff early_silent)
  then have "replay (\<lambda>_. False) (rev (trace s')) = Some (activated s')"
    using r na by (auto simp: tr(1) replay_append silent_replay boot_report_def a fun_eq_iff)
  moreover have "\<forall>e \<in> set (trace s'). early e \<or> (\<exists>c t. e = EvActivation c False t \<and> ttype (tasks s' t) \<noteq> K_TASK_INVALID)"
    using r tr new(1) by (auto simp: boot_report_def list_all_iff ts)
  moreover have "\<exists>i < ARRAY_LEN_kTasks E. kTasks s' i = Some u" if "u \<noteq> t" and uv: "ttype (tasks s u) \<noteq> K_TASK_INVALID" for u
  proof -
    obtain j where "j < ARRAY_LEN_kTasks E" "kTasks s j = Some u" using boot_report_known(2)[OF r uv] by blast
    then show ?thesis using kt by (intro exI[of _ j]) auto
  qed
  moreover have "\<exists>i < ARRAY_LEN_kTasks E. kTasks s' i = Some t" using kt by auto
  ultimately show ?thesis using r new m unfolding boot_report_def by (auto simp: ts)
qed

text \<open>What every request keeps of the whole kernel.\<close>

definition boot_inv :: "'p kstate \<Rightarrow> bool" where
  "boot_inv s \<longleftrightarrow> gOpsInitialized s \<and> \<not> gPluginsDone s \<and> faults s = [] \<and> domain_inv E s \<and> boot_pol s
     \<and> cpuValid E (thisCpu s) \<and> (\<forall>c. cpuValid E c \<longrightarrow> boot_cpu c s)
     \<and> (\<forall>t. ttype (tasks s t) = K_TASK_INVALID \<longrightarrow> tdomain (tasks s t) = zero_domain \<and> \<not> lag (tick (tasks s t)))"

lemma fresh_domain:
  assumes "invocationStackDepth dm = 0" "curDomain dm \<noteq> None \<Longrightarrow> known_domain s (curDomain dm)" "tdomain r = dm"
  shows "task_domain_inv n s r"
  using assms by (auto simp: task_domain_inv_def dom_ok_def inv_stack_def)

lemma domain_inv_new:
  assumes "domain_inv E s" "\<And>u. u \<noteq> t \<Longrightarrow> tasks s' u = tasks s u" "domains s' = domains s" "domainTable s' = domainTable s"
    and "task_domain_inv (INVOCATION_DEPTH E) s (tasks s' t)"
  shows "domain_inv E s'"
  unfolding domain_inv_def
proof (intro conjI allI impI)
  show "entries_canonical s' d" if "domainTable s' i = Some d" for i d
    using assms that by (simp add: domain_inv_def entries_canonical_def)
  have k: "task_domain_inv n s' r = task_domain_inv n s r" for n r
    using assms by (simp add: task_domain_inv_def known_domain_def)
  show "task_domain_inv (INVOCATION_DEPTH E) s' (tasks s' u)" if "ttype (tasks s' u) \<noteq> K_TASK_INVALID" for u
    using assms that unfolding k by (cases "u = t") (auto simp: domain_inv_def)
qed (use assms(1) in \<open>simp_all add: domain_inv_def\<close>)

subsection \<open>The requests of plugins\<close>

definition request_ok :: "addr set \<Rightarrow> 'p kstate \<Rightarrow> 'p kstate \<Rightarrow> bool" where
  "request_ok T s s' \<longleftrightarrow> boot_inv s' \<and> thisCpu s' = thisCpu s
     \<and> (\<forall>u. u \<notin> T \<longrightarrow> ttype (tasks s' u) = ttype (tasks s u) \<and> cpuId (tasks s' u) = cpuId (tasks s u))
     \<and> (boot_report s \<longrightarrow> boot_report s')"

lemma request_refl: "boot_inv s \<Longrightarrow> request_ok T s s"
  by (simp add: request_ok_def)

text \<open>A request that creates no task.\<close>

lemma boot_inv_change:
  assumes b: "boot_inv s" and k: "\<And>u. boot_same (tasks s u) (tasks s' u) \<and> tdomain (tasks s' u) = tdomain (tasks s u)"
    and e: "gTickMachines s' = gTickMachines s" "archLsrs s' = archLsrs s" "sleepNodes s' = sleepNodes s"
      "replenishNodes s' = replenishNodes s" "pol s' = pol s" "gOpsInitialized s' = gOpsInitialized s"
      "gPluginsDone s' = gPluginsDone s" "faults s' = faults s" "cpuValid E (thisCpu s')"
    and d: "domain_inv E s'"
  shows "boot_inv s'"
proof -
  have eq: "ttype (tasks s' u) = ttype (tasks s u)" "cpuId (tasks s' u) = cpuId (tasks s u)"
      "tick (tasks s' u) = tick (tasks s u)" for u
    using k by (simp_all add: boot_same_def)
  have ps: "pol_same s s'" using eq e by (simp add: pol_same_def)
  have "boot_cpu c s'" if "cpuValid E c" for c
  proof (rule boot_cpu_kept)
    show "boot_cpu c s" using b that by (simp add: boot_inv_def)
    then have "pinv c (threads s c) s" by (simp add: boot_cpu_def Let_def)
    then show "pinv c (threads s c) s'" by (rule pinv_same[OF ps])
    show "cpu_kept c s s'" using e k eq by (simp add: cpu_kept_def live_def)
  qed (rule known_same[OF ps])
  moreover have "boot_pol s'"
    by (rule boot_pol_law[where s = s]) (use e eq b in \<open>simp_all add: boot_inv_def\<close>)
  ultimately show ?thesis using b e eq d k by (simp add: boot_inv_def)
qed

lemma boot_inv_kept:
  assumes "boot_inv s" "\<And>u. boot_same (tasks s u) (tasks s' u) \<and> tdomain (tasks s' u) = tdomain (tasks s u)"
    "gTickMachines s' = gTickMachines s" "archLsrs s' = archLsrs s" "sleepNodes s' = sleepNodes s"
    "replenishNodes s' = replenishNodes s" "pol s' = pol s" "gOpsInitialized s' = gOpsInitialized s"
    "gPluginsDone s' = gPluginsDone s" "faults s' = faults s" "thisCpu s' = thisCpu s" "domain_inv E s'"
    "trace s' = trace s" "kTasks s' = kTasks s"
  shows "request_ok T s s'"
  using boot_inv_change[OF assms(1-10) _ assms(12)] boot_report_same[of s s' "[]"] assms(1,2,3,11,13,14)
  by (simp add: request_ok_def boot_inv_def boot_same_def running_def fun_eq_iff)

lemma boot_inv_on: "boot_inv s \<Longrightarrow> cpuValid E c \<Longrightarrow> boot_inv (s\<lparr>thisCpu := c\<rparr>)"
  by (rule boot_inv_change[of s], assumption)
    (use domain_inv_same[of E s "s\<lparr>thisCpu := c\<rparr>"] in \<open>simp_all add: boot_inv_def\<close>)

lemma kPluginInitDomain_canonical:
  assumes "ia32eCpuDomainInfoInit pdpt pcid prm i = Inr a" "entry_point ty i = Some ep" "valid ep"
  shows "IA32E_CANONICAL (entry_pc ep)"
  using assms by (cases ty) (auto simp: ia32eCpuDomainInfoInit_def canonical_entry_def entry_point_def split: if_splits)

lemma kPluginInitDomain_ok:
  assumes b: "boot_inv s"
  shows "request_ok T s (snd (kPluginInitDomain E pdpt pcid d p s))"
proof (cases "kDomainUniverseCanAdd E (pdDomId p) s \<and> (\<exists>a. ia32eCpuDomainInfoInit pdpt pcid (pdArch p) (pdInfo p) = Inr a)")
  case False
  have "\<not> gPluginsDone s" using b by (simp add: boot_inv_def)
  then have "snd (kPluginInitDomain E pdpt pcid d p s) = s"
    using False by (cases "ia32eCpuDomainInfoInit pdpt pcid (pdArch p) (pdInfo p)") (auto simp: kPluginInitDomain_def)
  then show ?thesis using request_refl[OF b] by simp
next
  case True
  then obtain a where a: "ia32eCpuDomainInfoInit pdpt pcid (pdArch p) (pdInfo p) = Inr a"
    and can: "kDomainUniverseCanAdd E (pdDomId p) s" by blast
  let ?i = "unat (pdDomId p)"
  let ?s = "s\<lparr>domains := (domains s)(d := (domains s d)\<lparr>invocationInfo := pdInfo p, domId := pdDomId p\<rparr>),
    domainTable := (domainTable s)(?i := Some d)\<rparr>"
  have "\<not> gPluginsDone s" using b by (simp add: boot_inv_def)
  then have e: "snd (kPluginInitDomain E pdpt pcid d p s) = ?s"
    using a can by (simp add: kPluginInitDomain_def kDomainUniverseAdd_def kDomainUniverseCanAdd_def)
  have di: "domain_inv E s" using b by (simp add: boot_inv_def)
  have free: "domainTable s ?i = None" using can by (simp add: kDomainUniverseCanAdd_def)
  have mono: "known_domain s q \<Longrightarrow> known_domain ?s q" for q
  proof -
    assume "known_domain s q"
    then obtain j d' where j: "q = Some d'" "domainTable s j = Some d'" by (auto simp: known_domain_def)
    then have "domainTable ?s j = Some d'" using free by auto
    then show "known_domain ?s q" unfolding known_domain_def j(1) by (metis DiffI option.distinct(1) rangeI singletonD)
  qed
  have "domain_inv E ?s"
    unfolding domain_inv_def
  proof (intro conjI allI impI)
    fix j d' assume j: "domainTable ?s j = Some d'"
    show "entries_canonical ?s d'"
    proof (cases "d' = d")
      case True
      then show ?thesis using kPluginInitDomain_canonical[OF a] by (auto simp: entries_canonical_def)
    next
      case False
      then have "domainTable s j = Some d'" using j by (auto split: if_splits)
      then have "entries_canonical s d'" using di by (auto simp: domain_inv_def)
      then show ?thesis using False by (simp add: entries_canonical_def)
    qed
  next
    fix t assume "ttype (tasks ?s t) \<noteq> K_TASK_INVALID"
    then have "task_domain_inv (INVOCATION_DEPTH E) s (tasks s t)" using di by (simp add: domain_inv_def)
    then show "task_domain_inv (INVOCATION_DEPTH E) ?s (tasks ?s t)"
      unfolding task_domain_inv_def using mono by simp
  qed (use di in \<open>simp_all add: domain_inv_def\<close>)
  then show ?thesis unfolding e by (intro boot_inv_kept b) simp_all
qed

text \<open>The callbacks of an idle task.\<close>

lemma kPluginInitIdleCallbacks_ok:
  assumes b: "boot_inv s" and cpus: "\<And>c. cpuValid E c \<Longrightarrow> unat c < KMAX_CPUS E"
  shows "request_ok T s (snd (kPluginInitIdleCallbacks E c cb s))"
proof -
  have o: "gOpsInitialized s" and di: "domain_inv E s" using b by (simp_all add: boot_inv_def)
  have g: "kSchedGetIdle E c s = (if cpuValid E c then (Some (idleAddr E c), s) else (None, s))"
    using o cpus[of c] by (simp add: kSchedGetIdle_def idle_law get_idle_def assert_holds)
  show ?thesis
  proof (cases "cpuValid E c")
    case False
    then show ?thesis using request_refl[OF b] by (simp add: kPluginInitIdleCallbacks_def g)
  next
    case True
    let ?s = "upd_task (idleAddr E c) (\<lambda>r. r\<lparr>callbacks := cb\<rparr>) s"
    have e: "snd (kPluginInitIdleCallbacks E c cb s) = ?s"
      using True by (simp add: kPluginInitIdleCallbacks_def g)
    have "domain_inv E ?s" by (rule domain_inv_same[OF di]) simp_all
    then show ?thesis unfolding e by (intro boot_inv_kept[OF b]) (simp_all add: boot_same_def)
  qed
qed

lemma kDomainUniverseGet_known: "kDomainUniverseGet E did s = Some d \<Longrightarrow> known_domain s (Some d)"
  unfolding known_domain_def kDomainUniverseGet_def by (metis DiffI option.distinct(1) rangeI singletonD)

text \<open>LSRs.\<close>

lemma vector_prio_max: "IA32E_VECTOR_TO_PRIO v \<noteq> IA32E_MAX_VECTOR_PRIO \<Longrightarrow> IA32E_VECTOR_TO_PRIO v < IA32E_MAX_VECTOR_PRIO"
proof -
  have "unat (v div 16) \<le> 15" using unat_less_exp[of v] by (simp add: unat_div)
  then show "IA32E_VECTOR_TO_PRIO v \<noteq> IA32E_MAX_VECTOR_PRIO \<Longrightarrow> IA32E_VECTOR_TO_PRIO v < IA32E_MAX_VECTOR_PRIO"
    unfolding IA32E_VECTOR_TO_PRIO_def IA32E_MAX_VECTOR_PRIO_def by (simp add: word_less_nat_alt word_unat_eq_iff)
qed

lemma kPluginInitTaskLsr_ok:
  assumes b: "boot_inv s" and t: "ttype (tasks s t) = K_TASK_INVALID"
  shows "request_ok {t} s (snd (kPluginInitTaskLsr E t p s))"
proof (cases "\<exists>d. kDomainUniverseGet E (lsrDomId p) s = Some d \<and> cpuValid E (lsrCpuId p)
    \<and> kSchedTaskCanAdd E (lsrTaskId p) s \<and> is_ok (fst (ia32eCpuLsrInfoInit t (lsrVectorParam p) s))")
  case False
  have "\<not> gPluginsDone s" using b by (simp add: boot_inv_def)
  then have "snd (kPluginInitTaskLsr E t p s) = s"
    using False by (auto simp: kPluginInitTaskLsr_def ia32eCpuLsrInfoInit_def Let_def is_ok_def)
  then show ?thesis using request_refl[OF b] by simp
next
  case True
  then obtain d where d: "kDomainUniverseGet E (lsrDomId p) s = Some d" and c: "cpuValid E (lsrCpuId p)"
    and can: "kSchedTaskCanAdd E (lsrTaskId p) s" and v: "is_ok (fst (ia32eCpuLsrInfoInit t (lsrVectorParam p) s))"
    by blast
  let ?c = "lsrCpuId p" and ?v = "lsrVectorParam p"
  define r where "r = (lsr_record p (Some d) ((tasks s t)\<lparr>lsrVector := ?v\<rparr>))\<lparr>taskId := lsrTaskId p\<rparr>"
  define s' where "s' = snd (kPluginInitTaskLsr E t p s)"
  have np: "\<not> gPluginsDone s" using b by (simp add: boot_inv_def)
  have vi: "ia32eCpuLsrInfoInit t ?v s = (Inr (), upd_task t (\<lambda>r. r\<lparr>lsrVector := ?v\<rparr>) s)"
    using v by (auto simp: ia32eCpuLsrInfoInit_def Let_def is_ok_def split: if_splits)
  have rf: "ttype r = K_TASK_LSR" "cpuId r = ?c" "tstate r = K_TASK_STATE_LSR_DORMANT" "lsrVector r = ?v"
      "tdomain r = (tdomain (tasks s t))\<lparr>curDomain := Some d\<rparr>"
    by (simp_all add: r_def lsr_record_def)
  have s': "tasks s' = (tasks s)(t := r)" "gTickMachines s' = gTickMachines s" "sleepNodes s' = sleepNodes s"
      "replenishNodes s' = replenishNodes s" "pol s' = pol s" "gOpsInitialized s' = gOpsInitialized s"
      "gPluginsDone s' = gPluginsDone s" "faults s' = faults s" "thisCpu s' = thisCpu s"
      "domains s' = domains s" "domainTable s' = domainTable s"
      "archLsrs s' = (archLsrs s)(?c := (archLsrs s ?c)(?v := t # archLsrs s ?c ?v))"
      "kTasks s' = (kTasks s)(unat (lsrTaskId p) := Some t)"
      "trace s' = [EvTaskCtxInit t (start_pc (invocationInfo (domains s d)))] @ trace s"
    using np d c can vi
    by (simp_all add: s'_def kPluginInitTaskLsr_def Let_def kSchedTaskAdd_def kSchedTaskCanAdd_def deref_def
      kCpuTaskLsrPush_def r_def lsr_record_def)
  have new: "new_task t s s'" using t rf s' by (simp add: new_task_def)
  have dom: "domain_inv E s'"
  proof (rule domain_inv_new[of s t])
    have "tdomain (tasks s t) = zero_domain" using b t by (simp add: boot_inv_def)
    then have "task_domain_inv (INVOCATION_DEPTH E) s r"
      using kDomainUniverseGet_known[OF d] by (intro fresh_domain[OF _ _ rf(5)]) (simp_all add: zero_domain_def)
    then show "task_domain_inv (INVOCATION_DEPTH E) s (tasks s' t)" using s' by simp
  qed (use b s' in \<open>simp_all add: boot_inv_def\<close>)
  have cpu: "boot_cpu c' s'" if c': "cpuValid E c'" for c'
  proof -
    have bc: "boot_cpu c' s" using b c' by (simp add: boot_inv_def)
    have nt: "t \<notin> threads s c'" using t by (simp add: threads_def)
    have p: "pinv c' (threads s c') s'"
      using new_pinv[OF new s'(5) nt] bc by (simp add: boot_cpu_def Let_def)
    show ?thesis
    proof (cases "c' = ?c")
      case False
      have k: "cpu_kept c' s s'" by (rule new_kept[OF new]) (use s' rf False in simp_all)
      show ?thesis by (rule boot_cpu_kept[OF bc k p], rule new_known[OF new s'(5)]) (use nt in auto)
    next
      case True
      have ti: "timer_inv E c' s'" using bc s' by (simp add: boot_cpu_def Let_def timer_inv_def)
      show ?thesis
      proof (rule boot_cpu_new[OF bc new])
        show "boot_task c' s' t (tasks s' t)" using rf s' by (simp add: boot_task_def)
        show "gTickMachines s' c' = (gTickMachines s c')\<lparr>replenishmentChain := replenishmentChain (gTickMachines s c')\<rparr>"
          by (simp add: s')
        show "chain_wf (replenishNodes s') (replenishmentChain (gTickMachines s c'))"
          using bc s' by (simp add: boot_cpu_def Let_def)
        show "known u s'" if "u \<noteq> t" "known u s" for u using new_known[OF new s'(5)] that .
      qed (use rf s' True p ti in simp_all)
    qed
  qed
  have "boot_pol s'"
    by (rule boot_pol_law[where s = s]) (use s' rf b in \<open>auto simp: boot_inv_def split: if_splits\<close>)
  moreover have "u \<noteq> t" if "ttype (tasks s' u) = K_TASK_INVALID" for u using that rf(1) s'(1) by auto
  moreover have "boot_report s'" if "boot_report s"
  proof (rule boot_report_new[OF that t s'(1)])
    have "\<not> IA32E_VECTOR_TO_PRIO ?v \<le> 1" "IA32E_VECTOR_TO_PRIO ?v \<noteq> IA32E_MAX_VECTOR_PRIO"
      using v by (auto simp: ia32eCpuLsrInfoInit_def Let_def is_ok_def split: if_splits)
    then show "tpr_prio_ok r" using vector_prio_max[of ?v] rf by (simp add: tpr_prio_ok_def callback_tpr_def not_le)
    show "kTasks s' = (kTasks s)(unat (lsrTaskId p) := Some t)" by (rule s'(13))
    show "kTasks s (unat (lsrTaskId p)) = None" "unat (lsrTaskId p) < ARRAY_LEN_kTasks E"
      using can by (simp_all add: kSchedTaskCanAdd_def)
    show "list_all early [EvTaskCtxInit t (start_pc (invocationInfo (domains s d)))]" by simp
  qed (use s' rf c in \<open>simp_all add: K_SCHED_TASK_ACTIVATED_def running_def fun_eq_iff\<close>)
  ultimately show ?thesis
    using b s' dom cpu rf(1) unfolding s'_def[symmetric] request_ok_def boot_inv_def by simp
qed

text \<open>
  Threads. \<open>started\<close> is the state before the scheduler is told: the record is filled in, the
  task table has its entry, and a deferrable server has its first replenishment queued.
\<close>

definition started :: "addr \<Rightarrow> kSchedTask \<Rightarrow> 'p \<Rightarrow> 'p kstate \<Rightarrow> 'p kstate \<Rightarrow> bool" where
  "started t r q s s' \<longleftrightarrow> tasks s' = (tasks s)(t := r) \<and> pol s' = q \<and> archLsrs s' = archLsrs s
     \<and> sleepNodes s' = sleepNodes s \<and> gOpsInitialized s' = gOpsInitialized s \<and> gPluginsDone s' = gPluginsDone s
     \<and> faults s' = faults s \<and> thisCpu s' = thisCpu s \<and> domains s' = domains s \<and> domainTable s' = domainTable s
     \<and> (if alg E = DS \<and> 0 < period (tick r)
        then \<exists>ch. deltaChainInsert (replenishNodes s) (replenishmentChain (gTickMachines s (cpuId r))) t (period (tick r))
               = (replenishNodes s', ch)
             \<and> gTickMachines s' = (gTickMachines s)(cpuId r := (gTickMachines s (cpuId r))\<lparr>replenishmentChain := ch\<rparr>)
        else replenishNodes s' = replenishNodes s \<and> gTickMachines s' = gTickMachines s)"

definition tell :: "addr \<Rightarrow> 'p kstate \<Rightarrow> 'p kstate" where
  "tell t s = emit (EvActivation (thisCpu s) (gPluginsDone s) t) s"

lemma thread_started:
  assumes np: "\<not> gPluginsDone s" and o: "gOpsInitialized s" and dm: "kDomainUniverseGet E (thDomId p) s = Some d"
    and can: "kSchedTaskCanAdd E (thTaskId p) s"
  shows "\<exists>s'. started t ((thread_record p (Some d) (tasks s t))\<lparr>taskId := thTaskId p\<rparr>)
      (set_param (thParam p) t (pol s)) s s'
    \<and> kTasks s' = (kTasks s)(unat (thTaskId p) := Some t)
    \<and> trace s' = EvTaskCtxInit t (start_pc (invocationInfo (domains s d))) # trace s
    \<and> thread_init E set_param t p s = tell t (kSchedPushFn (ops E) t s')"
proof -
  let ?r = "(thread_record p (Some d) (tasks s t))\<lparr>taskId := thTaskId p\<rparr>"
  let ?s4 = "emit (EvTaskCtxInit t (start_pc (invocationInfo (domains s d))))
    (upd_task t (\<lambda>r. r\<lparr>taskId := thTaskId p\<rparr>)
      ((upd_task t (thread_record p (Some d)) s)
        \<lparr>pol := set_param (thParam p) t (pol s), kTasks := (kTasks s)(unat (thTaskId p) := Some t)\<rparr>))"
  let ?c = "thCpuId p" and ?pd = "thPeriod p"
  let ?s5 = "if alg E = DS \<and> 0 < ?pd then replenish_insert ?c t ?pd ?s4 else ?s4"
  have t4: "tasks ?s4 = (tasks s)(t := ?r)" by simp
  have rf: "ttype ?r = K_TASK_THREAD" "cpuId ?r = ?c" "tstate ?r = K_TASK_STATE_READY" "period (tick ?r) = ?pd"
    by (simp_all add: thread_record_def)
  have i: "thread_init E set_param t p s = kTickPluginTaskThreadInit E t ?s4"
    using dm can by (simp add: thread_init_def Let_def kSchedTaskAdd_def kSchedTaskCanAdd_def deref_def)
  have t5: "tasks ?s5 t = ?r" using t4 by simp
  have 1: "kTickPluginTaskThreadInit E t ?s4 = tell t (kSchedPushFn (ops E) t ?s5)"
  proof -
    have a: "K_DYNAMIC_ASSERT (\<not> gPluginsDone ?s4) ?s4 = ?s4" "K_DYNAMIC_ASSERT (ttype (tasks ?s4 t) = K_TASK_THREAD) ?s4 = ?s4"
      using np rf t4 by (simp_all add: assert_holds del: upd_task_simps(1))
    have g: "gOpsInitialized ?s5" using o by simp
    have b: "K_DYNAMIC_ASSERT (tstate (tasks ?s5 t) = K_TASK_STATE_READY) ?s5 = ?s5" unfolding t5 rf by simp
    have c: "cpuId (tasks ?s4 t) = ?c" "period (tick (tasks ?s4 t)) = ?pd" unfolding t4 by (simp_all add: thread_record_def)
    show ?thesis
      unfolding kTickPluginTaskThreadInit_def Let_def a c b kSchedTaskPush_def with_ops_simp[OF g] tell_def by (rule refl)
  qed
  have "started t ?r (set_param (thParam p) t (pol s)) s ?s5"
  proof (cases "alg E = DS \<and> 0 < ?pd")
    case True
    obtain ns ch where ins: "deltaChainInsert (replenishNodes s) (replenishmentChain (gTickMachines s ?c)) t ?pd = (ns, ch)"
      by fastforce
    then show ?thesis using True rf unfolding started_def
      by (simp add: thread_record_def replenish_insert_def)
  next
    case False
    then show ?thesis unfolding started_def if_not_P[OF False] by (auto simp: thread_record_def)
  qed
  moreover have "kTasks ?s5 = (kTasks s)(unat (thTaskId p) := Some t)"
      "trace ?s5 = EvTaskCtxInit t (start_pc (invocationInfo (domains s d))) # trace s"
    by simp_all
  ultimately show ?thesis unfolding i 1 by (intro exI[of _ ?s5] conjI refl)
qed

lemma started_timers:
  assumes st: "started t r q s s'" and b: "boot_cpu (cpuId r) s" and t: "ttype (tasks s t) = K_TASK_INVALID"
  shows "\<exists>ch. gTickMachines s' (cpuId r) = (gTickMachines s (cpuId r))\<lparr>replenishmentChain := ch\<rparr>
    \<and> chain_wf (replenishNodes s') ch \<and> timer_inv E (cpuId r) s'
    \<and> set (chain_dq ch) = (if alg E = DS \<and> 0 < period (tick r) then insert t else id)
        (set (chain_dq (replenishmentChain (gTickMachines s (cpuId r)))))
    \<and> (\<forall>u. u \<noteq> t \<longrightarrow> replenishNodes s' u = replenishNodes s u \<or> cpuId (tasks s u) = cpuId r)
    \<and> (\<forall>c. c \<noteq> cpuId r \<longrightarrow> gTickMachines s' c = gTickMachines s c)"
proof -
  let ?c = "cpuId r"
  let ?M = "gTickMachines s ?c"
  note d = b[unfolded boot_cpu_def Let_def]
  have tn: "t \<notin> set (chain_dq (replenishmentChain ?M))"
    using d t by (simp add: threads_def)
  show ?thesis
  proof (cases "alg E = DS \<and> 0 < period (tick r)")
    case False
    then have "replenishNodes s' = replenishNodes s" "gTickMachines s' = gTickMachines s"
      using st by (auto simp: started_def split: if_splits)
    moreover have "timer_inv E ?c s'" using calculation d by (simp add: timer_inv_def)
    ultimately show ?thesis using False d by (intro exI[of _ "replenishmentChain ?M"]) (simp only: if_False id_apply, simp)
  next
    case True
    then obtain ch where ins: "deltaChainInsert (replenishNodes s) (replenishmentChain ?M) t (period (tick r)) = (replenishNodes s', ch)"
      and M: "gTickMachines s' = (gTickMachines s)(?c := ?M\<lparr>replenishmentChain := ch\<rparr>)"
      using st by (auto simp: started_def)
    have wf: "chain_wf (replenishNodes s) (replenishmentChain ?M)" and ti: "timer_inv E ?c s" using d by blast+
    note i = deltaChainInsert_spec[OF ins wf tn]
    have "epochs_ok (replenishNodes s') ch"
      using deltaChainInsert_epochs[OF ins wf tn] ti True by (simp add: timer_inv_def)
    moreover have "0 < snd tr" if "tr \<in> set (chain_timers (replenishNodes s') ch)" for tr
      using that ti True unfolding i(1) insert_timer_set by (auto simp: timer_inv_def unat_gt_0 word_greater_zero_iff)
    ultimately have "timer_inv E ?c s'" by (simp add: timer_inv_def M)
    moreover have "replenishNodes s' u = replenishNodes s u \<or> cpuId (tasks s u) = ?c" if "u \<noteq> t" for u
    proof (cases "u \<in> set (chain_dq (replenishmentChain ?M))")
      case True then show ?thesis using d by (simp add: threads_def live_def)
    next
      case False then show ?thesis using deltaChainInsert_frame(1)[OF ins that] by simp
    qed
    ultimately show ?thesis
      using i(2) deltaChainInsert_set(1)[OF ins] True by (intro exI[of _ ch]) (auto simp: M)
  qed
qed

lemma kPluginInitTaskThread_ok:
  assumes b: "boot_inv s" and t: "ttype (tasks s t) = K_TASK_INVALID"
  shows "request_ok {t} s (snd (kPluginInitTaskThread E admit set_param t p s))"
proof (cases "thread_args_ok E p s \<and> (\<exists>claim. admit p s = Inr claim) \<and> \<not> thTpr p \<ge> IA32E_MAX_VECTOR_PRIO")
  case False
  have "\<not> gPluginsDone s" using b by (simp add: boot_inv_def)
  then have "snd (kPluginInitTaskThread E admit set_param t p s) = s"
    using False by (cases "admit p s") (auto simp: kPluginInitTaskThread_def ia32eCpuThreadInfoInit_def Let_def)
  then show ?thesis using request_refl[OF b] by simp
next
  case True
  then obtain claim where ad: "admit p s = Inr claim" and args: "thread_args_ok E p s"
    and tpr: "\<not> thTpr p \<ge> IA32E_MAX_VECTOR_PRIO" by blast
  let ?c = "thCpuId p"
  have np: "\<not> gPluginsDone s" and o: "gOpsInitialized s" using b by (simp_all add: boot_inv_def)
  obtain d where d: "kDomainUniverseGet E (thDomId p) s = Some d" and c: "cpuValid E ?c"
    and can: "kSchedTaskCanAdd E (thTaskId p) s" and bud: "thBudget p \<noteq> 0"
    using args by (auto simp: thread_args_ok_def)
  define tp where "tp = (if thTpr p > 1 then thTpr p else 1)"
  define s1 where "s1 = upd_task t (\<lambda>r. r\<lparr>threadTpr := tp\<rparr>) s"
  define s2 where "s2 = claim s1"
  have cl: "s2 = s1\<lparr>pol := pol (claim s)\<rparr>"
  proof -
    have "pol s1 = pol s" by (simp add: s1_def)
    then show ?thesis using claim_law[OF ad, of s1] unfolding s2_def pol_only_def by metis
  qed
  have f2: "tasks s2 u = (if u = t then (tasks s t)\<lparr>threadTpr := tp\<rparr> else tasks s u)" for u
    by (simp add: cl s1_def)
  have e2: "gPluginsDone s2 = gPluginsDone s" "gOpsInitialized s2 = gOpsInitialized s" "domainTable s2 = domainTable s"
      "kTasks s2 = kTasks s" "replenishNodes s2 = replenishNodes s" "gTickMachines s2 = gTickMachines s"
      "archLsrs s2 = archLsrs s" "sleepNodes s2 = sleepNodes s" "faults s2 = faults s" "thisCpu s2 = thisCpu s"
      "domains s2 = domains s"
    by (simp_all add: cl s1_def)
  let ?r = "(thread_record p (Some d) (tasks s2 t))\<lparr>taskId := thTaskId p\<rparr>"
  let ?q = "set_param (thParam p) t (pol (claim s))"
  have "gPluginsDone s2 = False" "gOpsInitialized s2" "kDomainUniverseGet E (thDomId p) s2 = Some d"
      "kSchedTaskCanAdd E (thTaskId p) s2" "pol s2 = pol (claim s)"
    using np o d can e2 by (simp_all add: kDomainUniverseGet_def kSchedTaskCanAdd_def cl split: if_splits)
  then obtain s5 where st: "started t ?r ?q s2 s5"
    and k5: "kTasks s5 = (kTasks s)(unat (thTaskId p) := Some t)"
    and tr5: "trace s5 = EvTaskCtxInit t (start_pc (invocationInfo (domains s d))) # trace s"
    and th: "thread_init E set_param t p s2 = tell t (kSchedPushFn (ops E) t s5)"
    using thread_started[of s2 p d t] by (auto simp: cl s1_def)
  define s6 where "s6 = kSchedPushFn (ops E) t s5"
  have e: "snd (kPluginInitTaskThread E admit set_param t p s) = tell t s6"
    using np args ad tpr th
    by (simp add: kPluginInitTaskThread_def ia32eCpuThreadInfoInit_def s1_def s2_def s6_def tp_def)
  have rf: "ttype ?r = K_TASK_THREAD" "cpuId ?r = ?c" "tstate ?r = K_TASK_STATE_READY" "period (tick ?r) = thPeriod p"
      "budget (tick ?r) = thBudget p" "currentBudget (tick ?r) = thBudget p" "lag (tick ?r) = lag (tick (tasks s t))"
      "tdomain ?r = zero_domain\<lparr>curDomain := Some d\<rparr>" "threadTpr ?r = tp"
    by (simp_all add: thread_record_def f2)
  define r where "r = ?r"
  note rf = rf[folded r_def] and st = st[folded r_def]
  have st': "started t r ?q s s5"
  proof -
    have "(tasks s2)(t := r) = (tasks s)(t := r)" by (rule ext) (simp add: f2)
    then show ?thesis using st unfolding started_def e2 by simp
  qed
  have s5: "tasks s5 = (tasks s)(t := r)" "pol s5 = ?q" "archLsrs s5 = archLsrs s" "sleepNodes s5 = sleepNodes s"
      "gOpsInitialized s5 = gOpsInitialized s" "gPluginsDone s5 = gPluginsDone s" "faults s5 = faults s"
      "thisCpu s5 = thisCpu s" "domains s5 = domains s" "domainTable s5 = domainTable s"
    using st' by (simp_all add: started_def)
  have new: "new_task t s s5" using t rf s5 by (simp add: new_task_def)
  have bp: "boot_pol s" using b by (simp add: boot_inv_def)
  have pq: "pinv c (threads s c) s \<and> t \<notin> threads s c" if "cpuValid E c" for c
    using b that t by (simp add: boot_inv_def boot_cpu_def Let_def threads_def)
  have al: "pol_only s5 s6" "boot_pol s6" "known t s6" "\<And>u. u \<noteq> t \<Longrightarrow> known u s \<Longrightarrow> known u s6"
      "\<And>c. cpuValid E c \<Longrightarrow> pinv c (if c = ?c then insert t (threads s c) else threads s c) s6"
    using admit_law[OF ad bp new s5(2) _ _ pq c, folded s6_def] rf(1,2) s5(1) by simp_all
  have s6: "tasks s6 = (tasks s)(t := r)" "archLsrs s6 = archLsrs s" "sleepNodes s6 = sleepNodes s"
      "gOpsInitialized s6 = gOpsInitialized s" "gPluginsDone s6 = gPluginsDone s" "faults s6 = faults s"
      "thisCpu s6 = thisCpu s" "domains s6 = domains s" "domainTable s6 = domainTable s"
      "gTickMachines s6 = gTickMachines s5" "replenishNodes s6 = replenishNodes s5" "kTasks s6 = kTasks s5"
      "trace s6 = trace s5"
    using al(1) s5 by (simp_all add: pol_only_fields)
  have dom: "domain_inv E s6"
  proof (rule domain_inv_new[of s t])
    show "task_domain_inv (INVOCATION_DEPTH E) s (tasks s6 t)"
      using kDomainUniverseGet_known[OF d] s6(1) rf(8)
      by (intro fresh_domain[where dm = "zero_domain\<lparr>curDomain := Some d\<rparr>"]) (simp_all add: zero_domain_def)
  qed (use b s6 in \<open>simp_all add: boot_inv_def\<close>)
  have bc: "boot_cpu c s" if "cpuValid E c" for c using b that by (simp add: boot_inv_def)
  obtain ch where ch: "gTickMachines s5 ?c = (gTickMachines s ?c)\<lparr>replenishmentChain := ch\<rparr>"
      "chain_wf (replenishNodes s5) ch" "timer_inv E ?c s5"
      "set (chain_dq ch) = (if alg E = DS \<and> 0 < period (tick r) then insert t else id)
        (set (chain_dq (replenishmentChain (gTickMachines s ?c))))"
      "\<And>u. u \<noteq> t \<Longrightarrow> replenishNodes s5 u = replenishNodes s u \<or> cpuId (tasks s u) = ?c"
      "\<And>c. c \<noteq> ?c \<Longrightarrow> gTickMachines s5 c = gTickMachines s c"
    using started_timers[OF st' _ t] bc[OF c] rf(2) by auto
  have cpu: "boot_cpu c' s6" if c': "cpuValid E c'" for c'
  proof (cases "c' = ?c")
    case False
    have n6: "new_task t s s6" using new s5 s6 by (simp add: new_task_def)
    have k: "cpu_kept c' s s6"
      by (rule new_kept[OF n6]) (use s6 rf False ch in auto)
    show ?thesis
    proof (rule boot_cpu_kept[OF bc[OF c'] k])
      show "pinv c' (threads s c') s6" using al(5)[OF c'] False by simp
      show "known u s6" if "u \<in> threads s c'" "known u s" for u
      proof -
        have "u \<noteq> t" using that(1) t by (auto simp: threads_def)
        then show ?thesis using al(4) that(2) by blast
      qed
    qed
  next
    case True
    have n6: "new_task t s s6" using new s5 s6 by (simp add: new_task_def)
    show ?thesis unfolding True
    proof (rule boot_cpu_new[OF bc[OF c] n6])
      have "\<not> lag (tick (tasks s t))" using b t by (simp add: boot_inv_def)
      then show "boot_task ?c s6 t (tasks s6 t)" using rf s6 al(3) bud by (simp add: boot_task_def word_greater_zero_iff)
      show "gTickMachines s6 ?c = (gTickMachines s ?c)\<lparr>replenishmentChain := ch\<rparr>" using s6 ch by simp
      show "chain_wf (replenishNodes s6) ch" "timer_inv E ?c s6"
        using s6 ch by (simp_all add: timer_inv_def)
      show "set (chain_dq ch) = (if ttype (tasks s6 t) = K_TASK_THREAD \<and> alg E = DS \<and> 0 < period (tick (tasks s6 t))
         then insert t else id) (set (chain_dq (replenishmentChain (gTickMachines s ?c))))"
        using ch(4) rf s6 by simp
      show "pinv ?c (if ttype (tasks s6 t) = K_TASK_THREAD then insert t (threads s ?c) else threads s ?c) s6"
        using al(5)[OF c] rf s6 by simp
    qed (use rf s6 al(4) in simp_all)
  qed
  have "boot_inv s6"
    unfolding boot_inv_def using b s6 dom cpu al(2) rf(1) by (simp add: boot_inv_def)
  then have "boot_inv (tell t s6)"
    using boot_inv_change[of s6 "tell t s6"] domain_inv_same[of E s6 "tell t s6"] by (simp add: tell_def boot_inv_def)
  moreover have "boot_report s \<Longrightarrow> boot_report (tell t s6)"
  proof (rule boot_report_new[where s = s and t = t and r' = r])
    have "tp > 0 \<and> tp < IA32E_MAX_VECTOR_PRIO" using tpr unfolding tp_def IA32E_MAX_VECTOR_PRIO_def by (auto simp: not_le word_gt_0)
    then show "tpr_prio_ok r" using rf by (simp add: tpr_prio_ok_def callback_tpr_def)
    show "kTasks (tell t s6) = (kTasks s)(unat (thTaskId p) := Some t)" using s6 k5 by (simp add: tell_def)
    show "kTasks s (unat (thTaskId p)) = None" "unat (thTaskId p) < ARRAY_LEN_kTasks E"
      using can by (simp_all add: kSchedTaskCanAdd_def)
    show "trace (tell t s6) = (if K_SCHED_TASK_ACTIVATED (tstate r) then [EvActivation (thisCpu s) False t] else [])
        @ [EvTaskCtxInit t (start_pc (invocationInfo (domains s d)))] @ trace s"
      using s6 tr5 rf np by (simp add: tell_def K_SCHED_TASK_ACTIVATED_def)
    have "runningTask (gTickMachines s5 c') = runningTask (gTickMachines s c')" for c'
      using ch(1,6) by (cases "c' = ?c") simp_all
    then show "running (tell t s6) = running s" using s6 by (simp add: tell_def running_def fun_eq_iff)
  qed (use s6 rf t c in \<open>simp_all add: tell_def\<close>)
  ultimately show ?thesis unfolding request_ok_def e using s6 by (auto simp: tell_def)
qed

lemma plugin_calls_ok:
  assumes "boot_inv s" "distinct (concat (map call_task calls))"
    and "\<And>t. t \<in> set (concat (map call_task calls)) \<Longrightarrow> ttype (tasks s t) = K_TASK_INVALID"
    and cpus: "\<And>c. cpuValid E c \<Longrightarrow> unat c < KMAX_CPUS E"
  shows "request_ok (set (concat (map call_task calls))) s
    (fold (plugin_call E (kPluginInitTaskThread E admit set_param)) calls s)"
  using assms(1-3)
proof (induction calls arbitrary: s)
  case Nil then show ?case using request_refl by simp
next
  case (Cons call calls)
  let ?s = "plugin_call E (kPluginInitTaskThread E admit set_param) call s"
  have 1: "request_ok (set (call_task call)) s ?s"
    using kPluginInitDomain_ok[OF Cons.prems(1)] kPluginInitTaskThread_ok[OF Cons.prems(1)]
      kPluginInitTaskLsr_ok[OF Cons.prems(1)] kPluginInitIdleCallbacks_ok[OF Cons.prems(1) cpus] Cons.prems(3)
    by (cases call) simp_all
  have "ttype (tasks ?s t) = K_TASK_INVALID" if "t \<in> set (concat (map call_task calls))" for t
  proof -
    have "t \<notin> set (call_task call)" using that Cons.prems(2) by auto
    then show ?thesis using 1 Cons.prems(3)[of t] that by (simp add: request_ok_def)
  qed
  then have "request_ok (set (concat (map call_task calls))) ?s
      (fold (plugin_call E (kPluginInitTaskThread E admit set_param)) calls ?s)"
    using Cons.IH[of ?s] 1 Cons.prems(2) by (simp add: request_ok_def)
  then show ?case using 1 by (simp add: request_ok_def)
qed

subsection \<open>The idle tasks\<close>

lemma idle_task_id:
  assumes "unat (thisCpu s) < KMAX_CPUS E" "KMAX_TASKS E + KMAX_CPUS E < 2 ^ 32"
  shows "unat (K_SCHED_IDLE_TASK_ID E s) = KMAX_TASKS E + unat (thisCpu s)"
proof -
  have "K_SCHED_IDLE_TASK_ID E s = word_of_nat (KMAX_TASKS E + unat (thisCpu s))"
    by (simp add: K_SCHED_IDLE_TASK_ID_def)
  moreover have "unat (word_of_nat (KMAX_TASKS E + unat (thisCpu s)) :: u32) = KMAX_TASKS E + unat (thisCpu s)"
    using assms by (simp add: unat_word_of_nat take_bit_nat_eq_self del: of_nat_add)
  ultimately show ?thesis by simp
qed

lemma kSchedInit_ok:
  assumes b: "boot_inv s" and t: "ttype (tasks s (idleAddr E (thisCpu s))) = K_TASK_INVALID"
    and free: "kTasks s (KMAX_TASKS E + unat (thisCpu s)) = None" and cf: "conf_ok E C"
  shows "request_ok {idleAddr E (thisCpu s)} s (kSchedInit E s) \<and> idle_up (thisCpu s) (kSchedInit E s)
    \<and> kTasks (kSchedInit E s) = (kTasks s)(KMAX_TASKS E + unat (thisCpu s) := Some (idleAddr E (thisCpu s)))"
proof -
  let ?c = "thisCpu s"
  let ?t = "idleAddr E ?c"
  have o: "gOpsInitialized s" and c: "cpuValid E ?c" using b by (simp_all add: boot_inv_def)
  have n: "unat (K_SCHED_IDLE_TASK_ID E s) = KMAX_TASKS E + unat ?c" "KMAX_TASKS E + unat ?c < ARRAY_LEN_kTasks E"
    using idle_task_id[of s] cf c by (simp_all add: conf_ok_def ARRAY_LEN_kTasks_def)
  define s' where "s' = kSchedInit E s"
  define r where "r = (tasks s ?t)\<lparr>cpuId := ?c, ttype := K_TASK_IDLE, tstate := K_TASK_STATE_READY,
    taskId := K_SCHED_IDLE_TASK_ID E s\<rparr>"
  have id: "K_SCHED_IDLE_TASK_ID E (emit x (upd_task ?t f s)) = K_SCHED_IDLE_TASK_ID E s" for x f
    by (simp add: K_SCHED_IDLE_TASK_ID_def)
  have s': "tasks s' = (tasks s)(?t := r)" "archLsrs s' = archLsrs s" "sleepNodes s' = sleepNodes s"
      "gOpsInitialized s' = gOpsInitialized s" "gPluginsDone s' = gPluginsDone s" "faults s' = faults s"
      "thisCpu s' = thisCpu s" "domains s' = domains s" "domainTable s' = domainTable s"
      "gTickMachines s' = gTickMachines s" "replenishNodes s' = replenishNodes s" "pol s' = pol s"
      "kTasks s' = (kTasks s)(KMAX_TASKS E + unat ?c := Some ?t)"
    using o n free
    by (simp_all add: s'_def kSchedInit_def init_law kSchedTaskIdleInit_def Let_def id kSchedTaskAdd_def r_def is_ok_def)
  have np: "\<not> gPluginsDone s" using b by (simp add: boot_inv_def)
  have tr: "trace s' = EvActivation ?c (gPluginsDone s) ?t # EvIdleCtxInit ?t # trace s"
    using o n free
    by (simp add: s'_def kSchedInit_def init_law kSchedTaskIdleInit_def Let_def id kSchedTaskAdd_def is_ok_def)
  have rf: "ttype r = K_TASK_IDLE" "cpuId r = ?c" "tstate r = K_TASK_STATE_READY" "tdomain r = tdomain (tasks s ?t)"
    by (simp_all add: r_def)
  have new: "new_task ?t s s'" using t rf s' by (simp add: new_task_def)
  have zd: "tdomain (tasks s ?t) = zero_domain" using b t by (simp add: boot_inv_def)
  have dom: "domain_inv E s'"
  proof (rule domain_inv_new[of s ?t])
    show "task_domain_inv (INVOCATION_DEPTH E) s (tasks s' ?t)"
      using s'(1) rf(4) zd by (intro fresh_domain[where dm = zero_domain]) (simp_all add: zero_domain_def)
  qed (use b s' in \<open>simp_all add: boot_inv_def\<close>)
  have cpu: "boot_cpu c' s'" if c': "cpuValid E c'" for c'
  proof -
    have bc: "boot_cpu c' s" using b c' by (simp add: boot_inv_def)
    have nt: "?t \<notin> threads s c'" using t by (simp add: threads_def)
    have p: "pinv c' (threads s c') s'"
      using new_pinv[OF new s'(12) nt] bc by (simp add: boot_cpu_def Let_def)
    show ?thesis
    proof (cases "c' = ?c")
      case False
      have k: "cpu_kept c' s s'" by (rule new_kept[OF new]) (use s' rf False in simp_all)
      show ?thesis by (rule boot_cpu_kept[OF bc k p], rule new_known[OF new s'(12)]) (use nt in auto)
    next
      case True
      have ti: "timer_inv E c' s'" using bc s' by (simp add: boot_cpu_def Let_def timer_inv_def)
      show ?thesis
      proof (rule boot_cpu_new[OF bc new])
        show "boot_task c' s' ?t (tasks s' ?t)" using rf s' zd True by (simp add: boot_task_def zero_domain_def)
        show "gTickMachines s' c' = (gTickMachines s c')\<lparr>replenishmentChain := replenishmentChain (gTickMachines s c')\<rparr>"
          by (simp add: s')
        show "chain_wf (replenishNodes s') (replenishmentChain (gTickMachines s c'))"
          using bc s' by (simp add: boot_cpu_def Let_def)
        show "known u s'" if "u \<noteq> ?t" "known u s" for u using new_known[OF new s'(12)] that .
      qed (use rf s' True p ti in simp_all)
    qed
  qed
  have "boot_pol s'"
    by (rule boot_pol_law[where s = s]) (use s' rf b in \<open>auto simp: boot_inv_def split: if_splits\<close>)
  then have "boot_inv s'"
    using b s' dom cpu rf(1) unfolding boot_inv_def by simp
  moreover have "boot_report s'" if "boot_report s"
  proof (rule boot_report_new[OF that t s'(1)])
    show "trace s' = (if K_SCHED_TASK_ACTIVATED (tstate r) then [EvActivation ?c False ?t] else []) @ [EvIdleCtxInit ?t] @ trace s"
      using tr np rf by (simp add: K_SCHED_TASK_ACTIVATED_def)
  qed (use rf c s' n free in \<open>simp_all add: tpr_prio_ok_def callback_tpr_def running_def fun_eq_iff\<close>)
  ultimately show ?thesis
    using s' rf unfolding s'_def[symmetric] request_ok_def by (simp add: idle_up_def live_def)
qed

text \<open>All CPUs, one after the other.\<close>

lemma idle_up_kept:
  "request_ok T s s' \<Longrightarrow> idleAddr E c \<notin> T \<Longrightarrow> idle_up c s \<Longrightarrow> idle_up c s'"
  by (simp add: request_ok_def idle_up_def live_def)

lemma sched_init_all:
  assumes "boot_inv s" "distinct cpus" "set cpus \<subseteq> {c. cpuValid E c}" and cf: "conf_ok E C"
    and "\<And>c. c \<in> set cpus \<Longrightarrow> ttype (tasks s (idleAddr E c)) = K_TASK_INVALID \<and> kTasks s (KMAX_TASKS E + unat c) = None"
  shows "request_ok (idleAddr E ` set cpus) s (kCpuInvokeAllRendezvous cpus (kSchedInit E) s)
    \<and> (\<forall>c \<in> set cpus. idle_up c (kCpuInvokeAllRendezvous cpus (kSchedInit E) s))"
  using assms(1-3,5)
proof (induction cpus arbitrary: s)
  case Nil then show ?case using request_refl by (simp add: kCpuInvokeAllRendezvous_def)
next
  case (Cons c cpus)
  let ?s1 = "s\<lparr>thisCpu := c\<rparr>"
  let ?s = "on_cpu c (kSchedInit E) s"
  have c: "cpuValid E c" using Cons.prems(3) by simp
  have b1: "boot_inv ?s1" by (rule boot_inv_on[OF Cons.prems(1) c])
  have tc: "cpuValid E (thisCpu s)" using Cons.prems(1) by (simp add: boot_inv_def)
  have 1: "request_ok {idleAddr E c} ?s1 (kSchedInit E ?s1)" "idle_up c (kSchedInit E ?s1)"
      "kTasks (kSchedInit E ?s1) = (kTasks s)(KMAX_TASKS E + unat c := Some (idleAddr E c))"
    using kSchedInit_ok[OF b1 _ _ cf] Cons.prems(4)[of c] by simp_all
  have bs: "boot_inv ?s"
    using 1(1) boot_inv_on[OF _ tc, of "kSchedInit E ?s1"] by (simp add: on_cpu_def request_ok_def)
  have rq: "request_ok {idleAddr E c} s ?s" using 1(1) bs by (simp add: request_ok_def on_cpu_def)
  have up: "idle_up c ?s" using 1(2) by (simp add: idle_up_def on_cpu_def live_def)
  have ne: "idleAddr E c' \<noteq> idleAddr E c" if "c' \<in> set cpus" for c'
    using cf that Cons.prems(2,3) by (auto simp: conf_ok_def inj_on_def)
  have inv: "ttype (tasks ?s (idleAddr E c')) = K_TASK_INVALID \<and> kTasks ?s (KMAX_TASKS E + unat c') = None"
    if "c' \<in> set cpus" for c'
  proof -
    have "unat c' \<noteq> unat c" using that Cons.prems(2) by (auto simp: word_unat_eq_iff[symmetric])
    then show ?thesis using ne[OF that] rq 1(3) Cons.prems(4)[of c'] that by (simp add: request_ok_def on_cpu_def)
  qed
  note ih = Cons.IH[OF bs _ _ inv]
  have e: "kCpuInvokeAllRendezvous (c # cpus) (kSchedInit E) s = kCpuInvokeAllRendezvous cpus (kSchedInit E) ?s"
    by (simp add: kCpuInvokeAllRendezvous_def)
  have ih: "request_ok (idleAddr E ` set cpus) ?s (kCpuInvokeAllRendezvous cpus (kSchedInit E) ?s)"
      "\<forall>c \<in> set cpus. idle_up c (kCpuInvokeAllRendezvous cpus (kSchedInit E) ?s)"
    using ih Cons.prems(2,3) by simp_all
  have "idle_up c (kCpuInvokeAllRendezvous cpus (kSchedInit E) ?s)"
    by (rule idle_up_kept[OF ih(1) _ up]) (metis imageE ne)
  then show ?case unfolding e using ih rq by (auto simp: request_ok_def)
qed

subsection \<open>The hand-off\<close>

definition hand_inv :: "u32 set \<Rightarrow> u32 set \<Rightarrow> 'p kstate \<Rightarrow> bool" where
  "hand_inv cs ks s \<longleftrightarrow> (\<forall>c \<in> cs. kmid c s) \<and> (\<forall>c \<in> ks. kbound c s) \<and> domain_inv E s \<and> faults s = []"

lemma hand_inv_cpu [simp]: "hand_inv cs ks (s\<lparr>thisCpu := x\<rparr>) = hand_inv cs ks s"
proof -
  have "kmid c (s\<lparr>thisCpu := x\<rparr>) = kmid c s" for c
    using kmid_same[of c s "s\<lparr>thisCpu := x\<rparr>"] kmid_same[of c "s\<lparr>thisCpu := x\<rparr>" s] by auto
  moreover have "domain_inv E (s\<lparr>thisCpu := x\<rparr>) = domain_inv E s"
    by (simp add: domain_inv_def entries_canonical_def task_domain_inv_def known_domain_def)
  ultimately show ?thesis by (simp add: hand_inv_def)
qed

lemma hand_inv_emit: "hand_inv cs ks s \<Longrightarrow> hand_inv cs ks (emit e s)"
  using domain_inv_same[of E s "emit e s"] kbound_emit kmid_same[of _ s "emit e s"] by (simp add: hand_inv_def)

lemma kPerCpuHandoff_ok:
  assumes h: "hand_inv cs ks s" and c: "thisCpu s = c" "c \<in> cs"
  shows "hand_inv cs (insert c ks) (kPerCpuHandoff E desync sd hz s)"
proof -
  let ?s = "kTickReschedule E s"
  have 1: "kbound c ?s" "cpu_step c s ?s"
    using kTickReschedule_ok[OF _ c(1)] h c(2) by (simp_all add: hand_inv_def)
  have "kmid c' ?s" if "c' \<in> cs" for c'
    using that h kmid_other[OF 1(2), of c'] 1(1) by (cases "c' = c") (auto simp: hand_inv_def kbound_def)
  moreover have "kbound c' ?s" if "c' \<in> insert c ks" for c'
    using that h kbound_other[OF 1(2), of c'] 1(1) by (cases "c' = c") (auto simp: hand_inv_def)
  ultimately have "hand_inv cs (insert c ks) ?s"
    using h domain_inv_step[OF 1(2)] cpu_step_faults[OF 1(2)] by (simp add: hand_inv_def)
  then show ?thesis by (simp add: kPerCpuHandoff_def Let_def hand_inv_emit)
qed

text \<open>A CPU before its hand-off and after it: it starts with one of its threads, if it has any.\<close>

definition unstarted :: "u32 \<Rightarrow> 'p kstate \<Rightarrow> bool" where
  "unstarted c s \<longleftrightarrow> runningTask (gTickMachines s c) = None \<and> pendingTaskLsr (gTickMachines s c) = None
     \<and> pendingLsrChain (gTickMachines s c) = [] \<and> ready_set s c {} = threads s c"

definition starts_on :: "u32 \<Rightarrow> 'p kstate \<Rightarrow> bool" where
  "starts_on c s \<longleftrightarrow> (\<exists>t. runningTask (gTickMachines s c) = Some t
     \<and> (if threads s c = {} then t = idleAddr E c else t \<in> threads s c))"

lemma threads_emit [simp]: "threads (emit e s) c = threads s c" "threads (s\<lparr>thisCpu := x\<rparr>) c = threads s c"
  by (simp_all add: threads_def live_def)

lemma starts_on_emit [simp]:
  "starts_on c (emit e s) = starts_on c s" "unstarted c (emit e s) = unstarted c s"
  "starts_on c (s\<lparr>thisCpu := x\<rparr>) = starts_on c s" "unstarted c (s\<lparr>thisCpu := x\<rparr>) = unstarted c s"
  unfolding starts_on_def unstarted_def by (simp_all add: ready_set_def live_def)

lemma boot_unstarted:
  assumes "boot_cpu c s" shows "unstarted c s"
proof -
  have "u \<in> ready_set s c {} \<longleftrightarrow> u \<in> threads s c" for u
    using assms unfolding boot_cpu_def Let_def
    by (auto simp: ready_set_def threads_def boot_task_def)
  then show ?thesis using assms by (auto simp: unstarted_def boot_cpu_def Let_def)
qed

lemma threads_step: "cpu_step c s s' \<Longrightarrow> threads s' c' = threads s c'"
  using cpu_step_static by (auto simp: static_same_def threads_def live_def)

lemma started_other:
  assumes st: "cpu_step c s s'" and ne: "c' \<noteq> c"
  shows "unstarted c' s \<Longrightarrow> unstarted c' s'" "starts_on c' s \<Longrightarrow> starts_on c' s'"
proof -
  have M: "gTickMachines s' c' = gTickMachines s c'"
    and T: "\<And>u. cpuId (tasks s u) \<noteq> c \<Longrightarrow> tasks s' u = tasks s u"
    using st ne by (simp_all add: cpu_step_def cpu_frame_def)
  have "u \<in> ready_set s' c' {} \<longleftrightarrow> u \<in> ready_set s c' {}" for u
    using T[of u] ne cpu_step_static[OF st, of u]
    by (cases "cpuId (tasks s u) = c") (auto simp: ready_set_def live_def static_same_def)
  then have "ready_set s' c' {} = ready_set s c' {}" by blast
  then show "unstarted c' s \<Longrightarrow> unstarted c' s'" "starts_on c' s \<Longrightarrow> starts_on c' s'"
    unfolding unstarted_def starts_on_def M threads_step[OF st] by simp_all
qed

lemma kPerCpuHandoff_starts:
  assumes k: "kmid c s" and c: "thisCpu s = c" and u: "unstarted c s"
  shows "starts_on c (kPerCpuHandoff E desync sd hz s)"
proof -
  have inv: "kinv c {} {} s" using k by (simp add: kmid_def)
  have e: "kTickReschedule E s = run_next E s"
    using u c by (simp add: kTickReschedule_def dispatch_next_def unstarted_def)
  have n: "runningTask (gTickMachines s c) = None" "pendingTaskLsr (gTickMachines s c) = None"
    using u by (simp_all add: unstarted_def)
  have st: "cpu_step c s (run_next E s)"
    using run_next_ok(1)[OF inv c n] by (simp add: run_ok_def)
  have "ready_set s c {} = threads s c" using u by (simp add: unstarted_def)
  then have "starts_on c (kTickReschedule E s)"
    using run_next_ok(2)[OF inv c n] unfolding e starts_on_def threads_step[OF st] by (simp only:)
  then show ?thesis by (simp add: kPerCpuHandoff_def Let_def)
qed

lemma live_cpu [simp]: "live (s\<lparr>thisCpu := c\<rparr>) = live s"
  by (simp add: live_def fun_eq_iff)

text \<open>What the hand-off reports: each CPU once that it is done, and nothing about tasks.\<close>

definition handoff_kept :: "'p kstate \<Rightarrow> 'p kstate \<Rightarrow> bool" where
  "handoff_kept s s' \<longleftrightarrow> activated s' = activated s \<and> kTasks s' = kTasks s \<and> gPluginsDone s' = gPluginsDone s
     \<and> (\<forall>t. ttype (tasks s' t) = ttype (tasks s t) \<and> cpuId (tasks s' t) = cpuId (tasks s t)
          \<and> lsrVector (tasks s' t) = lsrVector (tasks s t) \<and> threadTpr (tasks s' t) = threadTpr (tasks s t))"

definition handoff_trace :: "u32 list \<Rightarrow> 'p kstate \<Rightarrow> 'p kstate \<Rightarrow> bool" where
  "handoff_trace cs s s' \<longleftrightarrow> (\<exists>es. trace s' = rev es @ trace s
     \<and> list_all (\<lambda>e. silent e \<or> (\<exists>c. e = EvHandoff c)) es \<and> (\<forall>c \<in> set cs. EvHandoff c \<in> set es)
     \<and> list_all (ctx_own (live s)) es \<and> switched s s' es)"

lemma handoff_trace_done: "handoff_trace cs (s\<lparr>gPluginsDone := b\<rparr>) s' = handoff_trace cs s s'"
proof -
  have "live (s\<lparr>gPluginsDone := b\<rparr>) = live s" "running (s\<lparr>gPluginsDone := b\<rparr>) = running s"
      "paged (s\<lparr>gPluginsDone := b\<rparr>) = paged s"
    by (simp_all add: live_def running_def paged_def fun_eq_iff)
  then show ?thesis by (simp add: handoff_trace_def switched_def)
qed

lemma kPerCpuHandoff_reports:
  assumes k: "kmid c s" and c: "thisCpu s = c" and u: "unstarted c s"
  shows "handoff_kept s (kPerCpuHandoff E desync sd hz s) \<and> handoff_trace [c] s (kPerCpuHandoff E desync sd hz s)"
proof -
  have inv: "kinv c {} {} s" using k by (simp add: kmid_def)
  have e: "kTickReschedule E s = run_next E s"
    using u c by (simp add: kTickReschedule_def dispatch_next_def unstarted_def)
  have n: "runningTask (gTickMachines s c) = None" "pendingTaskLsr (gTickMachines s c) = None"
    using u by (simp_all add: unstarted_def)
  have st: "cpu_step c s (run_next E s)" using run_next_ok(1)[OF inv c n] by (simp add: run_ok_def)
  obtain es where es: "trace (run_next E s) = rev es @ trace s" "list_all silent es"
      "list_all (report_on c (live s c) (gPluginsDone s)) es" "switched s (run_next E s) es"
    using run_next_ok(3)[OF inv c n] by (auto simp: silent_trace_def)
  have own: "list_all (ctx_own (live s)) es"
    using es(3) by (rule list.pred_mono_strong) (rule report_own_ctx, unfold report_own_def, blast)
  have "activated (run_next E s) = activated s"
  proof -
    obtain fs where fs: "trace (run_next E s) = rev fs @ trace s"
        "replay (activated s) fs = Some (activated (run_next E s))"
      using st by (auto simp: cpu_step_def reported_def)
    have "fs = es" using es(1) fs(1) by simp
    then show ?thesis using fs(2) silent_replay[OF es(2), of "activated s"] by simp
  qed
  then have "handoff_kept s (run_next E s)"
    using st by (simp add: handoff_kept_def cpu_step_def cpu_frame_def static_same_def)
  then have "handoff_kept s (kPerCpuHandoff E desync sd hz s)"
    by (simp add: kPerCpuHandoff_def Let_def e handoff_kept_def)
  moreover let ?es = "(if \<not> desync \<and> c \<noteq> sd then []
      else [EvArmTimer (ucast (msToTicks (KTICK_MS E) (ucast hz)))]) @ [EvHandoff c]"
  have "thisCpu (run_next E s) = c" using cpu_step_cpu[OF st] c by simp
  then have "trace (kPerCpuHandoff E desync sd hz s) = rev (es @ ?es) @ trace s"
    using es(1) by (simp add: kPerCpuHandoff_def Let_def e)
  then have tr: "trace (kPerCpuHandoff E desync sd hz s) = rev (es @ ?es) @ trace s" .
  have "switched (run_next E s) (kPerCpuHandoff E desync sd hz s) ?es"
    by (simp add: switched_def paged_def running_def fun_eq_iff kPerCpuHandoff_def Let_def e)
  note sw = switched_trans[OF es(4) this]
  have "handoff_trace [c] s (kPerCpuHandoff E desync sd hz s)"
    unfolding handoff_trace_def using es(2) own tr sw by (intro exI[of _ "es @ ?es"]) (auto elim!: list.pred_mono_strong)
  ultimately show ?thesis by blast
qed

lemma handoff_reports:
  assumes "hand_inv cs ks s" "set cpus \<subseteq> cs" "distinct cpus" "\<And>c. c \<in> set cpus \<Longrightarrow> unstarted c s"
  shows "handoff_kept s (kHandoff E desync cpus sd hz s) \<and> handoff_trace cpus s (kHandoff E desync cpus sd hz s)"
  using assms
proof (induction cpus arbitrary: s ks)
  case Nil
  show ?case by (auto simp: kHandoff_def kCpuInvokeAllRendezvous_def handoff_kept_def handoff_trace_def switched_still
      intro: exI[of _ "[]"])
next
  case (Cons c0 cpus)
  let ?f = "kPerCpuHandoff E desync sd hz"
  let ?s = "s\<lparr>thisCpu := c0\<rparr>"
  have h: "hand_inv cs ks ?s" using Cons.prems by simp
  have k: "kmid c0 ?s" using h Cons.prems(2) by (simp add: hand_inv_def)
  have st: "cpu_step c0 ?s (kTickReschedule E ?s)" using kTickReschedule_ok[OF k] by simp
  have u: "unstarted c (?f ?s)" if "c \<in> set cpus" for c
    using started_other(1)[OF st, of c] Cons.prems(3,4) that by (auto simp: kPerCpuHandoff_def Let_def)
  have 0: "handoff_kept ?s (?f ?s) \<and> handoff_trace [c0] ?s (?f ?s)"
    by (rule kPerCpuHandoff_reports[OF k]) (use Cons.prems(4) in simp_all)
  have hi: "hand_inv cs (insert c0 ks) (on_cpu c0 ?f s)"
    using kPerCpuHandoff_ok[OF h] Cons.prems(2) by (simp add: on_cpu_def)
  have ih: "handoff_kept (on_cpu c0 ?f s) (kHandoff E desync cpus sd hz (on_cpu c0 ?f s))
      \<and> handoff_trace cpus (on_cpu c0 ?f s) (kHandoff E desync cpus sd hz (on_cpu c0 ?f s))"
    by (rule Cons.IH[OF hi]) (use Cons.prems u in \<open>simp_all add: on_cpu_def\<close>)
  have e: "kHandoff E desync (c0 # cpus) sd hz s = kHandoff E desync cpus sd hz (on_cpu c0 ?f s)"
    by (simp add: kHandoff_def kCpuInvokeAllRendezvous_def)
  have "handoff_kept s (kHandoff E desync (c0 # cpus) sd hz s)"
    unfolding e using 0 ih by (simp add: handoff_kept_def on_cpu_def)
  moreover have "handoff_trace (c0 # cpus) s (kHandoff E desync (c0 # cpus) sd hz s)"
  proof -
    obtain es where es: "trace (?f ?s) = rev es @ trace s" "list_all (\<lambda>e. silent e \<or> (\<exists>c. e = EvHandoff c)) es"
        "EvHandoff c0 \<in> set es" "list_all (ctx_own (live s)) es" "switched s (?f ?s) es"
      using 0 by (auto simp: handoff_trace_def)
    have lv: "live (on_cpu c0 ?f s) = live s" using 0 by (simp add: handoff_kept_def on_cpu_def live_def fun_eq_iff)
    obtain fs where fs: "trace (kHandoff E desync cpus sd hz (on_cpu c0 ?f s)) = rev fs @ trace (?f ?s)"
        "list_all (\<lambda>e. silent e \<or> (\<exists>c. e = EvHandoff c)) fs" "\<forall>c \<in> set cpus. EvHandoff c \<in> set fs"
        "list_all (ctx_own (live s)) fs" "switched (?f ?s) (kHandoff E desync cpus sd hz (on_cpu c0 ?f s)) fs"
      using ih unfolding handoff_trace_def lv by (auto simp: on_cpu_def)
    show ?thesis unfolding e handoff_trace_def using es fs switched_trans[OF es(5) fs(5)]
      by (intro exI[of _ "es @ fs"]) auto
  qed
  ultimately show ?case by blast
qed

lemma handoff_starts:
  assumes "hand_inv cs ks s" "set cpus \<subseteq> cs" "distinct cpus"
    and "\<And>c. c \<in> set cpus \<Longrightarrow> unstarted c s" "\<And>c. c \<in> ks' \<Longrightarrow> starts_on c s" "set cpus \<inter> ks' = {}"
  shows "c \<in> set cpus \<union> ks' \<Longrightarrow> starts_on c (kHandoff E desync cpus sd hz s)"
  using assms
proof (induction cpus arbitrary: s ks ks')
  case (Cons c0 cpus)
  let ?f = "kPerCpuHandoff E desync sd hz"
  let ?s = "s\<lparr>thisCpu := c0\<rparr>"
  have h: "hand_inv cs ks ?s" using Cons.prems by simp
  have k: "kmid c0 ?s" using h Cons.prems(3) by (simp add: hand_inv_def)
  have st: "cpu_step c0 ?s (kTickReschedule E ?s)" using kTickReschedule_ok[OF k] by simp
  have em: "unstarted c (?f ?s) = unstarted c (kTickReschedule E ?s)" "starts_on c (?f ?s) = starts_on c (kTickReschedule E ?s)"
    for c by (simp_all add: kPerCpuHandoff_def Let_def)
  have 0: "starts_on c0 (?f ?s)" by (rule kPerCpuHandoff_starts[OF k]) (use Cons.prems(5) in simp_all)
  have u: "unstarted c (?f ?s)" if "c \<in> set cpus" for c
    using started_other(1)[OF st, of c] Cons.prems(4,5) that em(1) by auto
  have v: "starts_on c (?f ?s)" if "c \<in> insert c0 ks'" for c
    using started_other(2)[OF st, of c] Cons.prems(6) 0 that em(2) by (cases "c = c0") auto
  have hi: "hand_inv cs (insert c0 ks) (on_cpu c0 ?f s)"
    using kPerCpuHandoff_ok[OF h] Cons.prems(3) by (simp add: on_cpu_def)
  show ?case
    using Cons.IH[of "insert c0 ks'" "insert c0 ks" "on_cpu c0 ?f s"] hi u v Cons.prems
    by (simp add: kHandoff_def kCpuInvokeAllRendezvous_def on_cpu_def)
qed (simp add: kHandoff_def kCpuInvokeAllRendezvous_def)

lemma handoff_static:
  assumes "hand_inv cs ks s" "set cpus \<subseteq> cs"
  shows "ttype (tasks (kHandoff E desync cpus sd hz s) t) = ttype (tasks s t)
    \<and> cpuId (tasks (kHandoff E desync cpus sd hz s) t) = cpuId (tasks s t)"
  using assms
proof (induction cpus arbitrary: s ks)
  case (Cons c cpus)
  let ?f = "kPerCpuHandoff E desync sd hz"
  let ?s = "s\<lparr>thisCpu := c\<rparr>"
  have h: "hand_inv cs ks ?s" using Cons.prems by simp
  have "cpu_step c ?s (kTickReschedule E ?s)"
    using kTickReschedule_ok[of c ?s] h Cons.prems(2) by (simp add: hand_inv_def)
  then have "static_same (tasks ?s t) (tasks (kTickReschedule E ?s) t)" by (rule cpu_step_static)
  then have "ttype (tasks (on_cpu c ?f s) t) = ttype (tasks s t) \<and> cpuId (tasks (on_cpu c ?f s) t) = cpuId (tasks s t)"
    by (simp add: on_cpu_def kPerCpuHandoff_def Let_def static_same_def)
  moreover have "hand_inv cs (insert c ks) (on_cpu c ?f s)"
    using kPerCpuHandoff_ok[OF h, of c] Cons.prems(2) by (simp add: on_cpu_def)
  ultimately show ?case
    using Cons.IH[of "insert c ks" "on_cpu c ?f s"] Cons.prems(2) by (simp add: kHandoff_def kCpuInvokeAllRendezvous_def)
qed (simp add: kHandoff_def kCpuInvokeAllRendezvous_def)

lemma handoff_all:
  assumes "hand_inv cs ks s" "set cpus \<subseteq> cs"
  shows "hand_inv cs (set cpus \<union> ks) (kHandoff E desync cpus sd hz s)"
  using assms
proof (induction cpus arbitrary: s ks)
  case (Cons c cpus)
  let ?f = "kPerCpuHandoff E desync sd hz"
  have "hand_inv cs (insert c ks) (?f (s\<lparr>thisCpu := c\<rparr>))"
    by (rule kPerCpuHandoff_ok) (use Cons.prems in simp_all)
  then have "hand_inv cs (insert c ks) (on_cpu c ?f s)" by (simp add: on_cpu_def)
  from Cons.IH[OF this] show ?case using Cons.prems(2) by (simp add: kHandoff_def kCpuInvokeAllRendezvous_def)
qed (simp add: kHandoff_def kCpuInvokeAllRendezvous_def)

subsection \<open>The boot sequence\<close>

lemma kInitStart_id: "\<forall>f \<in> set fns. \<forall>s. f s = s \<Longrightarrow> kInitStart fns s = s"
  unfolding kInitStart_def by (induction fns) simp_all

lemma zero_boot_inv:
  assumes "0 < INVOCATION_DEPTH E" "INVOCATION_DEPTH E < 2 ^ 32" "cpuValid E c"
    and "boot_pol s" and p: "\<And>c. cpuValid E c \<Longrightarrow> pinv c {} s"
    and s: "s = (zero_state p ns ds c)\<lparr>gOpsInitialized := True\<rparr>"
  shows "boot_inv s"
proof -
  have lv: "\<not> live s c t" for c t by (simp add: s zero_state_def live_def zero_task_def)
  then have "threads s c = {}" for c by (simp add: threads_def)
  then have "boot_cpu c s" if "cpuValid E c" for c
    using p[OF that] lv unfolding boot_cpu_def
    by (simp add: s zero_state_def zero_machine_def zero_chain_def timer_inv_def epochs_ok_def chain_wf_def chain_timers_def)
  then show ?thesis
    using assms(1-4) unfolding boot_inv_def domain_inv_def
    by (simp add: s zero_state_def zero_task_def)
qed

theorem kStart_ok:
  assumes conf: "conf_ok E C" and B: "boot_conf_ok E admit set_param calls B" and z: "s0 = zero_state p ns ds c"
    and c: "cpuValid E c" and bp: "boot_pol (s0\<lparr>gOpsInitialized := True\<rparr>)"
    and pz: "\<And>c. cpuValid E c \<Longrightarrow> pinv c {} (s0\<lparr>gOpsInitialized := True\<rparr>)"
  shows "sys_inv (set (onlineCpus C)) (kStart E C B s0)"
    and "c' \<in> set (onlineCpus C) \<Longrightarrow> starts_on c' (kStart E C B s0)"
    and "threads (kStart E C B s0) c' =
      threads (fold (\<lambda>f. f) (pluginCalls B) (kCpuInvokeAllRendezvous (onlineCpus C) (kSchedInit E) (opsInit B s0))) c'"
    and "\<exists>s3. boot_report s3 \<and> handoff_kept (s3\<lparr>gPluginsDone := True\<rparr>) (kStart E C B s0)
      \<and> handoff_trace (onlineCpus C) s3 (kStart E C B s0)"
proof -
  let ?cs = "set (onlineCpus C)"
  let ?s1 = "s0\<lparr>gOpsInitialized := True\<rparr>"
  let ?s2 = "kCpuInvokeAllRendezvous (onlineCpus C) (kSchedInit E) ?s1"
  let ?s3 = "fold (plugin_call E (kPluginInitTaskThread E admit set_param)) calls ?s2"
  let ?s4 = "?s3\<lparr>gPluginsDone := True\<rparr>"
  have cs: "?cs = {c. cpuValid E c}" and dist: "distinct (onlineCpus C)" using conf by (simp_all add: conf_ok_def)
  have depth: "0 < INVOCATION_DEPTH E" "INVOCATION_DEPTH E < 2 ^ 32" using conf by (simp_all add: conf_ok_def)
  have b1: "boot_inv ?s1" by (rule zero_boot_inv[OF depth c bp pz]) (simp_all add: z)
  have "ttype (tasks ?s1 t) = K_TASK_INVALID \<and> kTasks ?s1 i = None" for t i
    by (simp add: z zero_state_def zero_task_def)
  then have 2: "request_ok (idleAddr E ` ?cs) ?s1 ?s2" "\<forall>c \<in> ?cs. idle_up c ?s2"
    using sched_init_all[OF b1 dist _ conf] cs by simp_all
  have b2: "boot_inv ?s2" using 2(1) by (simp add: request_ok_def)
  have fr: "distinct (concat (map call_task calls))"
      "\<And>c. cpuValid E c \<Longrightarrow> idleAddr E c \<notin> set (concat (map call_task calls))"
    using B by (simp_all add: boot_conf_ok_def calls_fresh_def)
  have "ttype (tasks ?s2 t) = K_TASK_INVALID" if t: "t \<in> set (concat (map call_task calls))" for t
  proof -
    have "t \<notin> idleAddr E ` ?cs" using fr(2) t unfolding cs by blast
    then have "ttype (tasks ?s2 t) = ttype (tasks ?s1 t)" using 2(1) by (simp add: request_ok_def)
    then show ?thesis by (simp add: z zero_state_def zero_task_def)
  qed
  then have 3: "request_ok (set (concat (map call_task calls))) ?s2 ?s3"
    using plugin_calls_ok[OF b2 fr(1)] conf by (simp add: conf_ok_def)
  have up: "idle_up c ?s3" if "c \<in> ?cs" for c
    using idle_up_kept[OF 3 fr(2)] 2(2) that cs by simp
  have b3: "boot_inv ?s3" using 3 by (simp add: request_ok_def)
  have "kmid c ?s3" if "c \<in> ?cs" for c
    using boot_kmid[of c ?s3] b3 up that cs by (simp add: boot_inv_def)
  then have "hand_inv ?cs {} ?s3" using b3 by (simp add: hand_inv_def boot_inv_def)
  then have h4: "hand_inv ?cs {} ?s4"
    using kmid_same[of _ ?s3 ?s4] domain_inv_same[of E ?s3 ?s4] by (simp add: hand_inv_def)
  have h: "hand_inv ?cs ?cs (kHandoff E (desynchronized C) (onlineCpus C) (bootSender B) (bootFreqHz B) ?s4)"
    using handoff_all[of ?cs "{}" ?s4 "onlineCpus C"] h4 by simp
  have us: "unstarted c ?s4" if "c \<in> ?cs" for c
  proof -
    have "unstarted c ?s3" using boot_unstarted[of c ?s3] b3 that cs by (simp add: boot_inv_def)
    then show ?thesis by (simp add: unstarted_def ready_set_def threads_def live_def)
  qed
  then have hs: "starts_on c' (kHandoff E (desynchronized C) (onlineCpus C) (bootSender B) (bootFreqHz B) ?s4)"
    if "c' \<in> ?cs" for c'
    using handoff_starts[of ?cs "{}" ?s4 "onlineCpus C" "{}" c'] h4 dist that by simp
  have hr: "handoff_kept ?s4 (kHandoff E (desynchronized C) (onlineCpus C) (bootSender B) (bootFreqHz B) ?s4)
      \<and> handoff_trace (onlineCpus C) ?s4 (kHandoff E (desynchronized C) (onlineCpus C) (bootSender B) (bootFreqHz B) ?s4)"
    by (rule handoff_reports[OF h4]) (use dist us in simp_all)
  have "boot_report ?s1"
    by (simp add: boot_report_def z zero_state_def zero_task_def activated_def K_SCHED_TASK_ACTIVATED_def tpr_prio_ok_def
      callback_tpr_def fun_eq_iff running_def zero_machine_def)
  then have br: "boot_report ?s3" using 2(1) 3 by (simp add: request_ok_def)
  have "kStart E C B s0 = kHandoff E (desynchronized C) (onlineCpus C) (bootSender B) (bootFreqHz B) ?s4"
    using B by (simp add: kStart_def Let_def boot_conf_ok_def kInitStart_id kSchedOpsInit_def kCpuSelfIpi_def
      fold_map z zero_state_def comp_def)
  note k = this
  then show "sys_inv (set (onlineCpus C)) (kStart E C B s0)"
      and "c' \<in> set (onlineCpus C) \<Longrightarrow> starts_on c' (kStart E C B s0)"
    using h hs by (simp_all add: hand_inv_def sys_inv_def)
  show "\<exists>s3. boot_report s3 \<and> handoff_kept (s3\<lparr>gPluginsDone := True\<rparr>) (kStart E C B s0)
      \<and> handoff_trace (onlineCpus C) s3 (kStart E C B s0)"
    unfolding k by (rule exI[of _ ?s3]) (use hr br in \<open>simp add: handoff_trace_done\<close>)
  have "threads (kHandoff E (desynchronized C) (onlineCpus C) (bootSender B) (bootFreqHz B) ?s4) c' = threads ?s4 c'"
    using handoff_static[OF h4] by (simp add: threads_def live_def)
  also have "\<dots> = threads ?s3 c'" by (simp add: threads_def live_def)
  finally have t: "threads (kStart E C B s0) c' = threads ?s3 c'" unfolding k .
  have "?s3 = fold (\<lambda>f. f) (pluginCalls B) (kCpuInvokeAllRendezvous (onlineCpus C) (kSchedInit E) (opsInit B s0))"
    using B by (simp add: boot_conf_ok_def kSchedOpsInit_def fold_map z zero_state_def comp_def)
  then show "threads (kStart E C B s0) c' =
      threads (fold (\<lambda>f. f) (pluginCalls B) (kCpuInvokeAllRendezvous (onlineCpus C) (kSchedInit E) (opsInit B s0))) c'"
    using t by simp
qed

text \<open>Whatever happens after the boot, the kernel keeps its invariant.\<close>

theorem running_inv:
  assumes conf: "conf_ok E C" and B: "boot_conf_ok E admit set_param calls B" and z: "s0 = zero_state p ns ds c"
    and c: "cpuValid E c" and bp: "boot_pol (s0\<lparr>gOpsInitialized := True\<rparr>)"
    and pz: "\<And>c. cpuValid E c \<Longrightarrow> pinv c {} (s0\<lparr>gOpsInitialized := True\<rparr>)"
    and r: "reachable E C (kStart E C B s0) s"
  shows "sys_inv (set (onlineCpus C)) s"
proof (rule reachable_inv[OF r kStart_ok(1)[OF conf B z c bp pz]])
  show "0 < KTICK_MS E" using conf unfolding conf_ok_def by blast
qed

text \<open>
  The reports of the kernel from its start explain which tasks are active, and they keep the task
  priority register right.
\<close>

lemma known_finite:
  assumes "boot_report s" "ARRAY_LEN_kTasks E < 2 ^ 32"
  shows "finite {t. ttype (tasks s t) \<noteq> K_TASK_INVALID}" "card {t. ttype (tasks s t) \<noteq> K_TASK_INVALID} < 2 ^ 32"
proof -
  let ?K = "{t. ttype (tasks s t) \<noteq> K_TASK_INVALID}" and ?n = "ARRAY_LEN_kTasks E"
  have sub: "?K \<subseteq> (\<lambda>i. the (kTasks s i)) ` {..<?n}"
    using boot_report_known(2)[OF assms(1)] by force
  show "finite ?K" by (rule finite_subset[OF sub]) simp
  have "card ?K \<le> ?n" using surj_card_le[OF _ sub] by simp
  then show "card ?K < 2 ^ 32" using assms(2) by simp
qed

theorem running_reports:
  assumes conf: "conf_ok E C" and B: "boot_conf_ok E admit set_param calls B" and z: "s0 = zero_state p ns ds c"
    and c: "cpuValid E c" and bp: "boot_pol (s0\<lparr>gOpsInitialized := True\<rparr>)"
    and pz: "\<And>c. cpuValid E c \<Longrightarrow> pinv c {} (s0\<lparr>gOpsInitialized := True\<rparr>)"
    and r: "reachable E C (kStart E C B s0) s"
  shows "replay (\<lambda>_. False) (rev (trace s)) = Some (activated s)"
    and "tpr_good (tasks s) (set (onlineCpus C)) (activated s) (tpr_run E (tasks s) (rev (trace s)) tpr_start)"
    and "\<exists>es fs. rev (trace s) = es @ fs \<and> (\<forall>e \<in> set es. early e \<or> (\<exists>c t. e = EvActivation c False t))
      \<and> list_all (ctx_own (live s)) fs \<and> owners (\<lambda>_. None) fs = Some (running s) \<and> (\<forall>sp. paged s (spaces sp fs))"
proof -
  let ?b = "kStart E C B s0"
  obtain s3 where b: "boot_report s3" "handoff_kept (s3\<lparr>gPluginsDone := True\<rparr>) ?b" "handoff_trace (onlineCpus C) s3 ?b"
    using kStart_ok(4)[OF conf B z c bp pz] by blast
  have k: "0 < KTICK_MS E" using conf unfolding conf_ok_def by blast
  have st: "system_step ?b s" by (rule reachable_system[OF r kStart_ok(1)[OF conf B z c bp pz] k])
  obtain es1 where e1: "trace ?b = rev es1 @ trace s3" "list_all (\<lambda>e. silent e \<or> (\<exists>c. e = EvHandoff c)) es1"
      "\<forall>c \<in> set (onlineCpus C). EvHandoff c \<in> set es1" "list_all (ctx_own (live s3)) es1" "switched s3 ?b es1"
    using b(3) by (auto simp: handoff_trace_def)
  have act: "activated ?b = activated s3" "gPluginsDone ?b"
    using b(2) by (simp_all add: handoff_kept_def activated_def fun_eq_iff)
  obtain es2 where e2: "trace s = rev es2 @ trace ?b" "replay (activated s3) es2 = Some (activated s)"
      "list_all (report_own (live ?b) True) es2" "switched ?b s es2"
    using st act by (auto simp: system_step_def accounted_def)
  have lv: "live ?b = live s3" "live s = live s3"
    using b(2) st by (simp_all add: handoff_kept_def system_step_def confined_def live_def fun_eq_iff)
  have "list_all (ctx_own (live s)) (es1 @ es2)"
    using e1(4) e2(3) unfolding lv list_all_append by (auto elim!: list.pred_mono_strong intro: report_own_ctx)
  moreover have r3: "running s3 = (\<lambda>_. None)" using b(1) by (simp add: boot_report_def)
  then have "paged s3 sp" for sp by (simp add: paged_def)
  moreover note sw = switched_trans[OF e1(5) e2(4)]
  ultimately have ctx: "list_all (ctx_own (live s)) (es1 @ es2) \<and> owners (\<lambda>_. None) (es1 @ es2) = Some (running s)
      \<and> (\<forall>sp. paged s (spaces sp (es1 @ es2)))"
    using r3 unfolding switched_def by simp
  have "rev (trace s) = rev (trace s3) @ (es1 @ es2)" using e1(1) e2(1) by simp
  moreover have "\<forall>e \<in> set (rev (trace s3)). early e \<or> (\<exists>c t. e = EvActivation c False t)"
    using b(1) unfolding boot_report_def set_rev by blast
  ultimately show "\<exists>es fs. rev (trace s) = es @ fs \<and> (\<forall>e \<in> set es. early e \<or> (\<exists>c t. e = EvActivation c False t))
      \<and> list_all (ctx_own (live s)) fs \<and> owners (\<lambda>_. None) fs = Some (running s) \<and> (\<forall>sp. paged s (spaces sp fs))"
    using ctx by blast
  have e0: "replay (\<lambda>_. False) (rev (trace s3)) = Some (activated s3)" using b(1) by (simp add: boot_report_def)
  have tr: "rev (trace s) = (rev (trace s3) @ es1) @ es2" using e1(1) e2(1) by simp
  have r1: "replay A es1 = Some A" for A
    using e1(2)
  proof (induction es1 arbitrary: A)
    case (Cons e es) then show ?case by (cases e) auto
  qed simp
  show "replay (\<lambda>_. False) (rev (trace s)) = Some (activated s)"
    unfolding tr replay_append using e0 r1 e2(2) by simp
  have same: "ttype (tasks s t) = ttype (tasks s3 t) \<and> cpuId (tasks s t) = cpuId (tasks s3 t)
      \<and> lsrVector (tasks s t) = lsrVector (tasks s3 t) \<and> threadTpr (tasks s t) = threadTpr (tasks s3 t)" for t
    using b(2) st by (simp add: handoff_kept_def system_step_def confined_def)
  have "callback_tpr (tasks s t) = callback_tpr (tasks s3 t)" for t
    using same[of t] by (cases "ttype (tasks s3 t)") (simp_all add: callback_tpr_def)
  moreover have "tpr_prio_ok (tasks s3 t)" for t using b(1) unfolding boot_report_def by blast
  ultimately have "tpr_prio_ok (tasks s t)" for t by (simp add: tpr_prio_ok_def)
  moreover have "ARRAY_LEN_kTasks E < 2 ^ 32" using conf by (simp add: conf_ok_def ARRAY_LEN_kTasks_def)
  ultimately have pr: "prio_range (tasks s)" using known_finite[OF b(1)] same by (simp add: prio_range_def)
  have g0: "tpr_good (tasks s) {} (activated s3) (tpr_run E (tasks s) (rev (trace s3)) tpr_start)"
  proof (rule boot_run_good[OF pr tpr_start_good e0])
    show "\<forall>e \<in> set (rev (trace s3)). silent e \<or> (\<exists>c t. e = EvActivation c False t \<and> cpuValid E (cpuId (tasks s t)))"
      using b(1) boot_report_known(1)[OF b(1)] same early_silent unfolding boot_report_def set_rev by metis
  qed
  note g1 = handoff_run_good[where E = E, OF pr g0 e1(2), folded tpr_run_append]
  have cs: "set (onlineCpus C) = {c. cpuValid E c}" using conf by (simp add: conf_ok_def)
  have "tpr_good (tasks s) (set (onlineCpus C)) (activated s3) (tpr_run E (tasks s) (rev (trace s3) @ es1) tpr_start)"
    using g1 e1(3) by (auto simp: tpr_good_def)
  then show "tpr_good (tasks s) (set (onlineCpus C)) (activated s) (tpr_run E (tasks s) (rev (trace s)) tpr_start)"
    unfolding tr tpr_run_append[of E _ "rev (trace s3) @ es1"]
  proof (rule running_good[OF pr _ e2(2,3)])
    fix c t assume l: "live ?b c t"
    then have "ttype (tasks s3 t) \<noteq> K_TASK_INVALID" "cpuId (tasks s3 t) = c"
      using b(2) by (simp_all add: live_def handoff_kept_def)
    then show "c = cpuId (tasks s t) \<and> cpuValid E c \<and> c \<in> set (onlineCpus C)"
      using boot_report_known(1)[OF b(1)] same cs by auto
  qed
qed

end

end
