(* ===== verification/PolicyBoot.thy ===== *)
theory PolicyBoot
  imports BootInv
begin

text \<open>
  The three policies satisfy what the boot sequence asks of them: the checks of the plugin
  interface (\<open>admit*\<close>) let a thread in only if the policy can schedule it.
\<close>

subsection \<open>Round robin\<close>

lemma admitRr_ok:
  assumes "admitRr n p s = Inr claim"
  shows "unat (prio (thParam p)) < unat n" "claim = id"
proof -
  have w: "unat (ucast (prio (thParam p)) :: u32) = unat (prio (thParam p))"
    using unat_less_exp[of "prio (thParam p)"] by (simp add: unsigned_ucast_eq take_bit_nat_eq_self)
  then show "unat (prio (thParam p)) < unat n"
    using assms by (auto simp: admitRr_def word_le_nat_alt not_le split: if_splits)
  show "claim = id" using assms by (auto simp: admitRr_def split: if_splits)
qed

lemma pinvRr_param:
  assumes "pinvRr n c Q s" "t \<notin> Q" "gSchedulersRr (pol s') = gSchedulersRr (pol s)"
    and "\<And>u. u \<noteq> t \<Longrightarrow> paramRr (pol s') u = paramRr (pol s) u"
  shows "pinvRr n c Q s'"
proof -
  have eq: "prio_of s' u = prio_of s u" if "u \<in> Q" for u using assms(2,4) that by metis
  then have "{u \<in> Q. prio_of s' u = p} = {u \<in> Q. prio_of s u = p}" for p by auto
  then show ?thesis using assms(1,3) eq by (simp add: pinvRr_def Let_def)
qed

interpretation rr_boot: policy_boot "envRr n E" "pinvRr n" tickableRr "knownRr n" "admitRr n" setParamRr "\<lambda>_. True"
proof unfold_locales
  show "kSchedInitFn (ops (envRr n E)) s = kSchedTaskIdleInit (envRr n E) (idleAddr (envRr n E) (thisCpu s)) s" for s
    by (simp add: kSchedInitRr_def kSchedTaskIdleInit_def envRr_def K_SCHED_IDLE_TASK_ID_def kSchedTaskAdd_def
      ARRAY_LEN_kTasks_def)
  show "kSchedGetIdleFn (ops (envRr n E)) c s = get_idle (envRr n E) c s" for c s
    by (simp add: kSchedGetIdleRr_def get_idle_def)
  show "pinvRr n c Q s'" if "pol s' = pol s" "pinvRr n c Q s" for c Q s s'
    using pinvRr_cong[of s' c s n Q] that by simp
  show "knownRr n u s'" if "pol s' = pol s" "knownRr n u s" for u s s'
    using that by (simp add: knownRr_def)
  show "pol_only s' (claim s') \<and> pol (claim s') = pol (claim s)" if "admitRr n p s = Inr claim" "pol s' = pol s" for p s claim s'
    using admitRr_ok(2)[OF that(1)] that(2) by simp
  fix p and s :: "rrState kstate" and claim t and s' :: "rrState kstate" and Qs
  assume ad: "admitRr n p s = Inr claim" and pl: "pol s' = setParamRr (thParam p) t (pol (claim s))"
    and ty: "ttype (tasks s' t) = K_TASK_THREAD" and cpu: "cpuId (tasks s' t) = thCpuId p"
    and q: "\<And>c. cpuValid (envRr n E) c \<Longrightarrow> pinvRr n c (Qs c) s \<and> t \<notin> Qs c"
    and c: "cpuValid (envRr n E) (thCpuId p)"
  have par: "paramRr (pol s') = (paramRr (pol s))(t := thParam p)" "gSchedulersRr (pol s') = gSchedulersRr (pol s)"
    using pl admitRr_ok(2)[OF ad] by (simp_all add: setParamRr_def)
  have p': "pinvRr n c (Qs c) s'" if "cpuValid (envRr n E) c" for c
    by (rule pinvRr_param) (use q[OF that] par in auto)
  have kn: "knownRr n t s'" using admitRr_ok(1)[OF ad] par by (simp add: knownRr_def)
  have push: "pinvRr n (thCpuId p) (insert t (Qs (thCpuId p))) (kSchedTaskPushRr t s')"
      "policy_keeps (pinvRr n) tickableRr (knownRr n) (thCpuId p) {} s' (kSchedTaskPushRr t s')"
    using rr_push[of n s' t "Qs (thCpuId p)" "{}"] p'[OF c] ty q[OF c] kn cpu by simp_all
  have keep: "\<And>u. knownRr n u s' \<Longrightarrow> knownRr n u (kSchedTaskPushRr t s')" "pol_only s' (kSchedTaskPushRr t s')"
      "\<And>c Q. c \<noteq> thCpuId p \<Longrightarrow> pinvRr n c Q s' \<Longrightarrow> pinvRr n c Q (kSchedTaskPushRr t s')"
    using push(2) unfolding policy_keeps_def by blast+
  show "pol_only s' (kSchedPushFn (ops (envRr n E)) t s') \<and> True
      \<and> knownRr n t (kSchedPushFn (ops (envRr n E)) t s')
      \<and> (\<forall>u. u \<noteq> t \<longrightarrow> knownRr n u s \<longrightarrow> knownRr n u (kSchedPushFn (ops (envRr n E)) t s'))
      \<and> (\<forall>c. cpuValid (envRr n E) c \<longrightarrow>
           pinvRr n c (if c = thCpuId p then insert t (Qs c) else Qs c) (kSchedPushFn (ops (envRr n E)) t s'))"
  proof (intro conjI allI impI TrueI)
    show "knownRr n u (kSchedPushFn (ops (envRr n E)) t s')" if "u \<noteq> t" "knownRr n u s" for u
      using keep(1) that par by (simp add: knownRr_def)
    show "pinvRr n c (if c = thCpuId p then insert t (Qs c) else Qs c) (kSchedPushFn (ops (envRr n E)) t s')"
      if "cpuValid (envRr n E) c" for c
      using push(1) keep(3) p'[OF that] by simp
  qed (use keep kn in simp_all)
qed

subsection \<open>Earliest deadline first\<close>

lemma pinvEdf_param:
  assumes "pinvEdf c Q s" "t \<notin> Q" "gSchedulersEdf (pol s') = gSchedulersEdf (pol s)" "linkEdf (pol s') = linkEdf (pol s)"
    and "\<And>u. u \<noteq> t \<Longrightarrow> paramEdf (pol s') u = paramEdf (pol s) u" "\<And>u. u \<noteq> t \<Longrightarrow> cpuId (tasks s' u) = cpuId (tasks s u)"
  shows "pinvEdf c Q s'"
proof -
  have "paramEdf (pol s') u = paramEdf (pol s) u" "cpuId (tasks s' u) = cpuId (tasks s u)" if "u \<in> Q" for u
    using assms(2,5,6) that by metis+
  then show ?thesis using assms(1,3,4) by (simp add: pinvEdf_def)
qed

interpretation edf_boot: policy_boot "envEdf E" pinvEdf tickableEdf knownEdf admitEdf setParamEdf "\<lambda>_. True"
proof unfold_locales
  show "kSchedInitFn (ops (envEdf E)) s = kSchedTaskIdleInit (envEdf E) (idleAddr (envEdf E) (thisCpu s)) s" for s
    by (simp add: kSchedInitEdf_def kSchedTaskIdleInit_def envEdf_def K_SCHED_IDLE_TASK_ID_def kSchedTaskAdd_def
      ARRAY_LEN_kTasks_def)
  show "kSchedGetIdleFn (ops (envEdf E)) c s = get_idle (envEdf E) c s" for c s
    by (simp add: kSchedGetIdleEdf_def get_idle_def)
  show "pinvEdf c Q s'" if "new_task t s s'" "pol s' = pol s" "t \<notin> Q" "pinvEdf c Q s"
    for t c Q and s s' :: "edfState kstate"
    by (rule pinvEdf_param[OF that(4,3)]) (use that in \<open>simp_all add: new_task_def\<close>)
  show "knownEdf u s'" if "pol s' = pol s" "knownEdf u s" for u s s'
    using that by (simp add: knownEdf_def)
  show "pol_only s' (claim s') \<and> pol (claim s') = pol (claim s)" if "admitEdf p s = Inr claim" "pol s' = pol s" for p s claim s'
    using that by (auto simp: admitEdf_def split: if_splits)
  fix p and s :: "edfState kstate" and claim t and s' :: "edfState kstate" and Qs
  assume ad: "admitEdf p s = Inr claim" and new: "new_task t s s'" and pl: "pol s' = setParamEdf (thParam p) t (pol (claim s))"
    and ty: "ttype (tasks s' t) = K_TASK_THREAD" and cpu: "cpuId (tasks s' t) = thCpuId p"
    and q: "\<And>c. cpuValid (envEdf E) c \<Longrightarrow> pinvEdf c (Qs c) s \<and> t \<notin> Qs c"
    and c: "cpuValid (envEdf E) (thCpuId p)"
  have cl: "claim = id" "virtualDeadline (thParam p) \<noteq> 0" using ad by (auto simp: admitEdf_def split: if_splits)
  have par: "paramEdf (pol s') = (paramEdf (pol s))(t := thParam p)" "gSchedulersEdf (pol s') = gSchedulersEdf (pol s)"
      "linkEdf (pol s') = linkEdf (pol s)"
    using pl cl by (simp_all add: setParamEdf_def)
  have p': "pinvEdf c (Qs c) s'" if "cpuValid (envEdf E) c" for c
    by (rule pinvEdf_param[of c "Qs c" s t]) (use q[OF that] par new in \<open>auto simp: new_task_def\<close>)
  have kn: "knownEdf t s'" using cl(2) par by (simp add: knownEdf_def word_greater_zero_iff)
  have push: "pinvEdf (thCpuId p) (insert t (Qs (thCpuId p))) (kSchedTaskPushEdf t s')"
      "policy_keeps pinvEdf tickableEdf knownEdf (thCpuId p) (insert t (Qs (thCpuId p))) s' (kSchedTaskPushEdf t s')"
    using edf_push[of s' t "Qs (thCpuId p)"] p'[OF c] ty q[OF c] kn cpu by simp_all
  have keep: "\<And>u. knownEdf u s' \<Longrightarrow> knownEdf u (kSchedTaskPushEdf t s')" "pol_only s' (kSchedTaskPushEdf t s')"
      "\<And>c Q. c \<noteq> thCpuId p \<Longrightarrow> pinvEdf c Q s' \<Longrightarrow> pinvEdf c Q (kSchedTaskPushEdf t s')"
    using push(2) unfolding policy_keeps_def by blast+
  show "pol_only s' (kSchedPushFn (ops (envEdf E)) t s') \<and> True
      \<and> knownEdf t (kSchedPushFn (ops (envEdf E)) t s')
      \<and> (\<forall>u. u \<noteq> t \<longrightarrow> knownEdf u s \<longrightarrow> knownEdf u (kSchedPushFn (ops (envEdf E)) t s'))
      \<and> (\<forall>c. cpuValid (envEdf E) c \<longrightarrow>
           pinvEdf c (if c = thCpuId p then insert t (Qs c) else Qs c) (kSchedPushFn (ops (envEdf E)) t s'))"
  proof (intro conjI allI impI TrueI)
    show "knownEdf u (kSchedPushFn (ops (envEdf E)) t s')" if "u \<noteq> t" "knownEdf u s" for u
      using keep(1) that par by (simp add: knownEdf_def)
    show "pinvEdf c (if c = thCpuId p then insert t (Qs c) else Qs c) (kSchedPushFn (ops (envEdf E)) t s')"
      if "cpuValid (envEdf E) c" for c
      using push(1) keep(3) p'[OF that] by simp
  qed (use keep kn in simp_all)
qed

subsection \<open>Cyclic\<close>

text \<open>
  A task object that is not in use has never been pushed, and every frame that is taken is marked
  in the bitmaps of the plugin interface.
\<close>

definition bootCyclic :: "u32 \<Rightarrow> cyclicState kstate \<Rightarrow> bool" where
  "bootCyclic n s \<longleftrightarrow> (\<forall>t. ttype (tasks s t) = K_TASK_INVALID \<longrightarrow> \<not> initialized (linkCyclic (pol s) t))
     \<and> (\<forall>c. \<forall>f < unat n. frames (gSchedulersCyclic (pol s) c) f \<noteq> None \<longrightarrow> bm_test (frameBmps (pol s) c) f)"

lemma admitCyclic_ok:
  assumes "admitCyclic n p s = Inr claim"
  shows "\<exists>f < unat n. bm_test (frameBmp (thParam p)) f"
    and "\<And>f. f < unat n \<Longrightarrow> bm_test (frameBmp (thParam p)) f \<Longrightarrow> \<not> bm_test (frameBmps (pol s) (thCpuId p)) f"
    and "claim = upd_pol (\<lambda>q. q\<lparr>frameBmps := (frameBmps q)(thCpuId p :=
           claim_frames (frameBmp (thParam p)) (frameBmps q (thCpuId p)) n 0)\<rparr>)"
proof -
  have a: "\<not> bitmapFfs (frameBmp (thParam p)) n 0 < 0" "frames_free (frameBmp (thParam p)) (frameBmps (pol s) (thCpuId p)) n 0"
    using assms by (auto simp: admitCyclic_def Let_def split: if_splits)
  have "bitmapFfs (frameBmp (thParam p)) n 0 \<noteq> -1" using a(1) by simp
  then show "\<exists>f < unat n. bm_test (frameBmp (thParam p)) f"
    using bitmapFfs_step[OF refl] by blast
  show "\<not> bm_test (frameBmps (pol s) (thCpuId p)) f" if "f < unat n" "bm_test (frameBmp (thParam p)) f" for f
    using a(2) that by (simp add: frames_free_spec)
  show "claim = upd_pol (\<lambda>q. q\<lparr>frameBmps := (frameBmps q)(thCpuId p :=
           claim_frames (frameBmp (thParam p)) (frameBmps q (thCpuId p)) n 0)\<rparr>)"
    using assms by (auto simp: admitCyclic_def Let_def split: if_splits)
qed

lemma pinvCyclic_new:
  assumes "pinvCyclic n c Q s" "new_task t s s'" "gSchedulersCyclic (pol s') = gSchedulersCyclic (pol s)"
  shows "pinvCyclic n c Q s'"
proof -
  have "ttype (tasks s' u) = ttype (tasks s u) \<and> cpuId (tasks s' u) = cpuId (tasks s u)"
    if "f < unat n" "frames (gSchedulersCyclic (pol s) c) f = Some u" for f u
  proof -
    have "ttype (tasks s u) = K_TASK_THREAD" using assms(1) that by (simp add: pinvCyclic_def Let_def)
    then have "u \<noteq> t" using assms(2) by (auto simp: new_task_def)
    then show ?thesis using assms(2) by (simp add: new_task_def)
  qed
  then show ?thesis using assms(1,3) by (simp add: pinvCyclic_def Let_def)
qed

interpretation cyclic_boot: policy_boot "envCyclic n E" "pinvCyclic n" tickableCyclic "knownCyclic n"
  "admitCyclic n" setParamCyclic "bootCyclic n"
proof unfold_locales
  show "kSchedInitFn (ops (envCyclic n E)) s = kSchedTaskIdleInit (envCyclic n E) (idleAddr (envCyclic n E) (thisCpu s)) s" for s
    by (simp add: kSchedInitCyclic_def kSchedTaskIdleInit_def envCyclic_def K_SCHED_IDLE_TASK_ID_def kSchedTaskAdd_def
      ARRAY_LEN_kTasks_def)
  show "kSchedGetIdleFn (ops (envCyclic n E)) c s = get_idle (envCyclic n E) c s" for c s
    by (simp add: kSchedGetIdleCyclic_def get_idle_def)
  show "pinvCyclic n c Q s'" if "new_task t s s'" "pol s' = pol s" "pinvCyclic n c Q s"
    for t c Q and s s' :: "cyclicState kstate"
    by (rule pinvCyclic_new[OF that(3,1)]) (use that in simp)
  show "knownCyclic n u s'" if "new_task t s s'" "pol s' = pol s" "u \<noteq> t" "knownCyclic n u s"
    for t u and s s' :: "cyclicState kstate"
    using that by (simp add: knownCyclic_def new_task_def)
  show "bootCyclic n s'" if "pol s' = pol s" "\<And>u. ttype (tasks s' u) = K_TASK_INVALID \<Longrightarrow> ttype (tasks s u) = K_TASK_INVALID"
      "bootCyclic n s" for s s' :: "cyclicState kstate"
    using that by (simp add: bootCyclic_def)
  show "pol_only s' (claim s') \<and> pol (claim s') = pol (claim s)" if "admitCyclic n p s = Inr claim" "pol s' = pol s" for p s claim s'
    using that(2) by (simp add: admitCyclic_ok(3)[OF that(1)])
  fix p and s :: "cyclicState kstate" and claim t and s' :: "cyclicState kstate" and Qs
  assume ad: "admitCyclic n p s = Inr claim" and bp: "bootCyclic n s" and new: "new_task t s s'"
    and pl: "pol s' = setParamCyclic (thParam p) t (pol (claim s))"
    and ty: "ttype (tasks s' t) = K_TASK_THREAD" and cpu: "cpuId (tasks s' t) = thCpuId p"
    and q: "\<And>c. cpuValid (envCyclic n E) c \<Longrightarrow> pinvCyclic n c (Qs c) s \<and> t \<notin> Qs c"
    and c: "cpuValid (envCyclic n E) (thCpuId p)"
  let ?c = "thCpuId p" and ?b = "frameBmp (thParam p)"
  note a = admitCyclic_ok[OF ad]
  have par: "paramCyclic (pol s') = (paramCyclic (pol s))(t := thParam p)"
      "gSchedulersCyclic (pol s') = gSchedulersCyclic (pol s)" "linkCyclic (pol s') = linkCyclic (pol s)"
      "frameBmps (pol s') = (frameBmps (pol s))(?c := claim_frames ?b (frameBmps (pol s) ?c) n 0)"
    unfolding pl a(3) by (simp_all add: setParamCyclic_def)
  have p': "pinvCyclic n c (Qs c) s'" if "cpuValid (envCyclic n E) c" for c
    by (rule pinvCyclic_new[OF _ new par(2)]) (use q[OF that] in simp)
  have "frames (gSchedulersCyclic (pol s) ?c) f = None" if "f < unat n" "bm_test ?b f" for f
    using a(2)[OF that] bp that(1) unfolding bootCyclic_def by blast
  moreover have "\<not> initialized (linkCyclic (pol s) t)" using bp new by (simp add: bootCyclic_def new_task_def)
  ultimately have fr: "freshCyclic n t s'"
    using a(1) cpu par by (simp add: freshCyclic_def)
  let ?s = "kSchedTaskPushCyclic n t s'"
  have push: "pinvCyclic n ?c (insert t (Qs ?c)) ?s"
      "policy_keeps (pinvCyclic n) tickableCyclic (knownCyclic n) ?c {} s' ?s" "knownCyclic n t ?s"
      "frames (gSchedulersCyclic (pol ?s) ?c) = assign_frames ?b n t 0 (frames (gSchedulersCyclic (pol s) ?c))"
    using cyc_push_fresh[of n s' t "Qs ?c" "{}"] p'[OF c] ty q[OF c] fr cpu par by simp_all
  have keep: "\<And>u. knownCyclic n u s' \<Longrightarrow> knownCyclic n u ?s" "pol_only s' ?s"
      "\<And>c Q. c \<noteq> ?c \<Longrightarrow> pinvCyclic n c Q s' \<Longrightarrow> pinvCyclic n c Q ?s"
    using push(2) unfolding policy_keeps_def by blast+
  have rest: "\<And>c. c \<noteq> ?c \<Longrightarrow> gSchedulersCyclic (pol ?s) c = gSchedulersCyclic (pol s) c"
      "frameBmps (pol ?s) = frameBmps (pol s')" "\<And>u. u \<noteq> t \<Longrightarrow> linkCyclic (pol ?s) u = linkCyclic (pol s) u"
    using ty cpu par(2,3)
    by (simp_all add: kSchedTaskPushCyclic_def Let_def upd_cyc_def upd_link_cyc_def)
  have boot: "bootCyclic n ?s"
    unfolding bootCyclic_def
  proof (intro conjI allI impI)
    fix u assume u: "ttype (tasks ?s u) = K_TASK_INVALID"
    then have "ttype (tasks s' u) = K_TASK_INVALID" using pol_only_fields(1)[OF keep(2)] by simp
    moreover have "u \<noteq> t" using calculation ty by auto
    ultimately show "\<not> initialized (linkCyclic (pol ?s) u)"
      using bp new rest(3) by (simp add: bootCyclic_def new_task_def)
  next
    fix c f assume f: "f < unat n" "frames (gSchedulersCyclic (pol ?s) c) f \<noteq> None"
    show "bm_test (frameBmps (pol ?s) c) f"
    proof (cases "c = ?c")
      case True
      then show ?thesis
        using f bp par(4) unfolding rest(2) by (auto simp: push(4) assign_frames_spec claim_frames_spec bootCyclic_def split: if_splits)
    next
      case False
      then show ?thesis using f bp par(4) rest(1)[OF False] unfolding rest(2) by (simp add: bootCyclic_def)
    qed
  qed
  show "pol_only s' (kSchedPushFn (ops (envCyclic n E)) t s') \<and> bootCyclic n (kSchedPushFn (ops (envCyclic n E)) t s')
      \<and> knownCyclic n t (kSchedPushFn (ops (envCyclic n E)) t s')
      \<and> (\<forall>u. u \<noteq> t \<longrightarrow> knownCyclic n u s \<longrightarrow> knownCyclic n u (kSchedPushFn (ops (envCyclic n E)) t s'))
      \<and> (\<forall>c. cpuValid (envCyclic n E) c \<longrightarrow>
           pinvCyclic n c (if c = ?c then insert t (Qs c) else Qs c) (kSchedPushFn (ops (envCyclic n E)) t s'))"
  proof (intro conjI allI impI)
    show "knownCyclic n u (kSchedPushFn (ops (envCyclic n E)) t s')" if "u \<noteq> t" "knownCyclic n u s" for u
      using keep(1) that par new by (simp add: knownCyclic_def new_task_def)
    show "pinvCyclic n c (if c = ?c then insert t (Qs c) else Qs c) (kSchedPushFn (ops (envCyclic n E)) t s')"
      if "cpuValid (envCyclic n E) c" for c
      using push(1) keep(3) p'[OF that] by simp
  qed (use keep push(3) boot in simp_all)
qed

subsection \<open>The data of the policies before the boot\<close>

lemma pinvRr_zero:
  assumes "1 \<le> n" "n \<le> 256" "gSchedulersRr (pol s) = (\<lambda>_. \<lparr>qs = (\<lambda>_. []), activeQs = (\<lambda>_. 0)\<rparr>)"
  shows "pinvRr n c {} s"
  using assms by (simp add: pinvRr_def bm_test_bit)

lemma pinvCyclic_zero:
  assumes "1 \<le> n" "n \<le> 8192"
    and "gSchedulersCyclic (pol s) = (\<lambda>_. \<lparr>frames = (\<lambda>_. None), clock = 0, numReadyThreads = 0\<rparr>)"
  shows "pinvCyclic n c {} s"
  using assms by (simp add: pinvCyclic_def)

lemma pinvEdf_zero:
  assumes "gSchedulersEdf (pol s) = (\<lambda>_. \<lparr>edfChain = \<lparr>currentEpoch = 0, chain_dq = []\<rparr>\<rparr>)"
  shows "pinvEdf c {} s"
  using assms by (simp add: pinvEdf_def chain_wf_def)

subsection \<open>A kernel that has been started\<close>

text \<open>
  \<open>s\<close> is a state of a kernel with this policy at some time after its boot, whatever the plugins have
  created and whatever events have come since.
\<close>

definition runs_rr :: "u32 \<Rightarrow> rrState kEnv \<Rightarrow> sysConf \<Rightarrow> rrState kstate \<Rightarrow> bool" where
  "runs_rr n E C s \<longleftrightarrow> conf_ok (envRr n E) C \<and> 1 \<le> n \<and> n \<le> 256
     \<and> (\<exists>calls B p ns ds c. boot_conf_ok (envRr n E) (admitRr n) setParamRr calls B \<and> cpuValid (envRr n E) c
          \<and> gSchedulersRr p = (\<lambda>_. \<lparr>qs = (\<lambda>_. []), activeQs = (\<lambda>_. 0)\<rparr>)
          \<and> reachable (envRr n E) C (kStart (envRr n E) C B (zero_state p ns ds c)) s)"

definition runs_cyclic :: "u32 \<Rightarrow> cyclicState kEnv \<Rightarrow> sysConf \<Rightarrow> cyclicState kstate \<Rightarrow> bool" where
  "runs_cyclic n E C s \<longleftrightarrow> conf_ok (envCyclic n E) C \<and> 1 \<le> n \<and> n \<le> 8192
     \<and> (\<exists>calls B p ns ds c. boot_conf_ok (envCyclic n E) (admitCyclic n) setParamCyclic calls B \<and> cpuValid (envCyclic n E) c
          \<and> gSchedulersCyclic p = (\<lambda>_. \<lparr>frames = (\<lambda>_. None), clock = 0, numReadyThreads = 0\<rparr>)
          \<and> (\<forall>t. \<not> initialized (linkCyclic p t))
          \<and> reachable (envCyclic n E) C (kStart (envCyclic n E) C B (zero_state p ns ds c)) s)"

definition runs_edf :: "edfState kEnv \<Rightarrow> sysConf \<Rightarrow> edfState kstate \<Rightarrow> bool" where
  "runs_edf E C s \<longleftrightarrow> conf_ok (envEdf E) C
     \<and> (\<exists>calls B p ns ds c. boot_conf_ok (envEdf E) admitEdf setParamEdf calls B \<and> cpuValid (envEdf E) c
          \<and> gSchedulersEdf p = (\<lambda>_. \<lparr>edfChain = \<lparr>currentEpoch = 0, chain_dq = []\<rparr>\<rparr>)
          \<and> reachable (envEdf E) C (kStart (envEdf E) C B (zero_state p ns ds c)) s)"

lemma runsI:
  "\<lbrakk>conf_ok (envRr n E) C; 1 \<le> n; n \<le> 256; boot_conf_ok (envRr n E) (admitRr n) setParamRr calls B; cpuValid (envRr n E) c;
    gSchedulersRr p = (\<lambda>_. \<lparr>qs = (\<lambda>_. []), activeQs = (\<lambda>_. 0)\<rparr>);
    reachable (envRr n E) C (kStart (envRr n E) C B (zero_state p ns ds c)) s\<rbrakk> \<Longrightarrow> runs_rr n E C s"
  "\<lbrakk>conf_ok (envCyclic m F) C'; 1 \<le> m; m \<le> 8192; boot_conf_ok (envCyclic m F) (admitCyclic m) setParamCyclic calls' B'; cpuValid (envCyclic m F) c';
    gSchedulersCyclic p' = (\<lambda>_. \<lparr>frames = (\<lambda>_. None), clock = 0, numReadyThreads = 0\<rparr>); \<And>t. \<not> initialized (linkCyclic p' t);
    reachable (envCyclic m F) C' (kStart (envCyclic m F) C' B' (zero_state p' ns' ds' c')) s'\<rbrakk> \<Longrightarrow> runs_cyclic m F C' s'"
  "\<lbrakk>conf_ok (envEdf G) D; boot_conf_ok (envEdf G) admitEdf setParamEdf calls'' B''; cpuValid (envEdf G) c'';
    gSchedulersEdf p'' = (\<lambda>_. \<lparr>edfChain = \<lparr>currentEpoch = 0, chain_dq = []\<rparr>\<rparr>);
    reachable (envEdf G) D (kStart (envEdf G) D B'' (zero_state p'' ns'' ds'' c'')) s''\<rbrakk> \<Longrightarrow> runs_edf G D s''"
  unfolding runs_rr_def runs_cyclic_def runs_edf_def by blast+

lemma runs_rr_inv:
  assumes "runs_rr n E C s"
  shows "sched_policy.sys_inv (envRr n E) (pinvRr n) tickableRr (knownRr n) (set (onlineCpus C)) s"
  using assms unfolding runs_rr_def
  by (elim conjE exE) (rule rr_boot.running_inv[OF _ _ refl], auto simp: pinvRr_zero zero_state_def)

lemma runs_cyclic_inv:
  assumes "runs_cyclic n E C s"
  shows "sched_policy.sys_inv (envCyclic n E) (pinvCyclic n) tickableCyclic (knownCyclic n) (set (onlineCpus C)) s"
  using assms unfolding runs_cyclic_def
  by (elim conjE exE) (rule cyclic_boot.running_inv[OF _ _ refl], auto simp: pinvCyclic_zero zero_state_def bootCyclic_def)

lemma runs_edf_inv:
  assumes "runs_edf E C s"
  shows "sched_policy.sys_inv (envEdf E) pinvEdf tickableEdf knownEdf (set (onlineCpus C)) s"
  using assms unfolding runs_edf_def
  by (elim conjE exE) (rule edf_boot.running_inv[OF _ _ refl], auto simp: pinvEdf_zero zero_state_def)

text \<open>CPUs are isolated, with every policy.\<close>

lemma runs_own_cpu_only:
  assumes "c \<in> set (onlineCpus C)"
  shows "runs_rr n E1 C s1 \<Longrightarrow> event_ok c ev s1 \<Longrightarrow> own_cpu_only (envRr n E1) C c ev s1"
    and "runs_cyclic m E2 C s2 \<Longrightarrow> event_ok c ev s2 \<Longrightarrow> own_cpu_only (envCyclic m E2) C c ev s2"
    and "runs_edf E3 C s3 \<Longrightarrow> event_ok c ev s3 \<Longrightarrow> own_cpu_only (envEdf E3) C c ev s3"
  using sched_policy.step_own_cpu[OF rr.sched_policy_axioms runs_rr_inv assms]
    sched_policy.step_own_cpu[OF cyclic.sched_policy_axioms runs_cyclic_inv assms]
    sched_policy.step_own_cpu[OF edf.sched_policy_axioms runs_edf_inv assms]
  by (auto simp: runs_rr_def runs_cyclic_def runs_edf_def conf_ok_def)

end
