(* ===== verification/Vectors.thy ===== *)
theory Vectors
  imports Mem
begin

text \<open>
  The 256 interrupt vectors of a local APIC register (\<open>irr\<close>, \<open>isr\<close>, \<open>latchedIrr\<close>): eight words of 32 bits.
  \<open>vectors\<close> reads such an array as the set of its vectors; the loops of \<^verbatim>\<open>ia32eEmulator.c\<close> over it find
  and remove the highest vector of that set.
\<close>

type_synonym vector_bits = "nat \<Rightarrow> u32"

definition vectors :: "vector_bits \<Rightarrow> nat set" where
  "vectors a = {v. v < 256 \<and> bit (a (v div 32)) (v mod 32)}"

definition set_vector :: "nat \<Rightarrow> vector_bits \<Rightarrow> vector_bits" where
  "set_vector v a = a(v div 32 := a (v div 32) OR push_bit (v mod 32) 1)"

text \<open>The loop from the last word down; it has looked at all but the first \<open>n\<close> words.\<close>

fun scan_down :: "vector_bits \<Rightarrow> nat \<Rightarrow> int" where
  "scan_down a 0 = -1"
| "scan_down a (Suc i) = (let idx = fls32 (a i) in if idx \<ge> 0 then int i * 32 + idx else scan_down a i)"

text \<open>The same loop, clearing the bit that it finds.\<close>

fun clear_down :: "vector_bits \<Rightarrow> nat \<Rightarrow> vector_bits \<times> nat option" where
  "clear_down a 0 = (a, None)"
| "clear_down a (Suc i) =
    (let idx = fls32 (a i)
     in if idx \<ge> 0 then (a(i := a i AND NOT (push_bit (nat idx) 1)), Some (i * 32 + nat idx)) else clear_down a i)"

subsection \<open>Bits of a word\<close>

lemma fls32_neg: "fls32 w < 0 \<longleftrightarrow> w = 0"
  using fls32_bounds[of w] by (cases "w = 0") (auto simp: fls32_def)

lemma bit_set_or_1: "bit (w OR push_bit k 1) j \<longleftrightarrow> bit w j \<or> (j = k \<and> k < 32)" for w :: u32
  by (auto simp: bit_simps)

lemma bit_clear_1: "bit (w AND NOT (push_bit k 1)) j \<longleftrightarrow> bit w j \<and> j \<noteq> k" for w :: u32
  by (auto simp: bit_simps dest: bit_imp_le_length)

lemma word_bit_odd: "bit w k \<longleftrightarrow> odd (unat w div 2 ^ k)" for w :: u32
  unfolding bit_iff_odd[symmetric] by (simp add: bit_unsigned_iff)

lemma fls32_bit:
  assumes "w \<noteq> 0"
  shows "0 \<le> fls32 w" "nat (fls32 w) < 32" "bit w (nat (fls32 w))" "bit w j \<Longrightarrow> j \<le> nat (fls32 w)"
proof -
  obtain b where b: "b \<le> 31" "fls32 w = int b" "2 ^ b \<le> unat w" "unat w < 2 ^ (b + 1)"
    using fls32_bounds[OF assms] by blast
  show "0 \<le> fls32 w" "nat (fls32 w) < 32" using b(1,2) by simp_all
  have "unat w div 2 ^ b = 1" using b(3,4) by (simp add: div_nat_eqI)
  then show "bit w (nat (fls32 w))" using b(2) unfolding word_bit_odd by simp
  show "j \<le> nat (fls32 w)" if "bit w j"
  proof (rule ccontr)
    assume "\<not> j \<le> nat (fls32 w)"
    then have "(2::nat) ^ (b + 1) \<le> 2 ^ j" using b(2) by (intro power_increasing) auto
    then have "unat w div 2 ^ j = 0" using b(4) by simp
    then show False using that unfolding word_bit_odd by simp
  qed
qed

lemma ffs32_bit:
  assumes "w \<noteq> 0"
  shows "0 \<le> ffs32 w" "nat (ffs32 w) < 32" "bit w (nat (ffs32 w))" "bit w j \<Longrightarrow> nat (ffs32 w) \<le> j"
proof -
  obtain b where b: "b \<le> 31" "ffs32 w = int b" "2 ^ b dvd unat w" "\<not> 2 ^ (b + 1) dvd unat w"
    using ffs32_bounds[OF assms] by blast
  show "0 \<le> ffs32 w" "nat (ffs32 w) < 32" using b(1,2) by simp_all
  obtain k where k: "unat w = 2 ^ b * k" using b(3) by (rule dvdE)
  then have "odd k" using b(4) by (auto simp: mult.assoc)
  then show "bit w (nat (ffs32 w))" using b(2) unfolding word_bit_odd k by simp
  show "nat (ffs32 w) \<le> j" if "bit w j"
  proof (rule ccontr)
    assume "\<not> nat (ffs32 w) \<le> j"
    then have "(2::nat) ^ Suc j dvd 2 ^ b" using b(2) by (intro le_imp_power_dvd) simp
    then obtain m where "2 ^ b = 2 ^ Suc j * (m::nat)" by (rule dvdE)
    then have "unat w = 2 ^ j * (2 * (m * k))" using k by simp
    then have "unat w div 2 ^ j = 2 * (m * k)" by simp
    then show False using that unfolding word_bit_odd by simp
  qed
qed

subsection \<open>The set of vectors\<close>

lemma vector_index: "v < 256 \<Longrightarrow> v div 32 < 8" "v mod 32 < (32::nat)"
  by simp_all

lemma vectors_zero [simp]: "vectors (\<lambda>_. 0) = {}"
  by (simp add: vectors_def)

lemma vectors_finite [simp]: "finite (vectors a)"
  by (simp add: vectors_def)

lemma vectors_bound: "v \<in> vectors a \<Longrightarrow> v < 256"
  by (simp add: vectors_def)

lemma vectors_word: "i < 8 \<Longrightarrow> b < 32 \<Longrightarrow> i * 32 + b \<in> vectors a \<longleftrightarrow> bit (a i) b"
  by (simp add: vectors_def)

lemma vectors_set:
  assumes "v < 256" shows "vectors (set_vector v a) = insert v (vectors a)"
proof (intro set_eqI)
  fix u
  have "u = v \<longleftrightarrow> u div 32 = v div 32 \<and> u mod 32 = v mod 32" by (metis div_mult_mod_eq)
  then show "u \<in> vectors (set_vector v a) \<longleftrightarrow> u \<in> insert v (vectors a)"
    using assms by (auto simp: vectors_def set_vector_def bit_set_or_1 simp del: push_bit_of_1)
qed

lemma vectors_unset:
  assumes "i < 8" "b < 32"
  shows "vectors (a(i := a i AND NOT (push_bit b 1))) = vectors a - {i * 32 + b}"
proof (intro set_eqI)
  fix u :: nat
  have "u = i * 32 + b \<longleftrightarrow> u div 32 = i \<and> u mod 32 = b"
    using assms(2) div_mult_mod_eq[of u 32] by auto
  then show "u \<in> vectors (a(i := a i AND NOT (push_bit b 1))) \<longleftrightarrow> u \<in> vectors a - {i * 32 + b}"
    by (auto simp: vectors_def bit_clear_1 simp del: push_bit_of_1)
qed

subsection \<open>The loops\<close>

lemma below_Suc:
  assumes "n < 8"
  shows "{v \<in> vectors a. v < Suc n * 32} = {v \<in> vectors a. v < n * 32} \<union> {n * 32 + b | b. bit (a n) b}"
proof (intro set_eqI iffI)
  fix v assume v: "v \<in> {v \<in> vectors a. v < Suc n * 32}"
  show "v \<in> {v \<in> vectors a. v < n * 32} \<union> {n * 32 + b | b. bit (a n) b}"
  proof (cases "v < n * 32")
    case False
    then have "v = n * 32 + (v - n * 32)" "v - n * 32 < 32" using v by auto
    then show ?thesis using v vectors_word[OF assms, of "v - n * 32" a] by auto
  qed (use v in simp)
next
  fix v assume "v \<in> {v \<in> vectors a. v < n * 32} \<union> {n * 32 + b | b. bit (a n) b}"
  then show "v \<in> {v \<in> vectors a. v < Suc n * 32}"
    using vectors_word[OF assms, of _ a] bit_imp_le_length[of "a n"] by fastforce
qed

lemma highest_word:
  assumes "n < 8" "a n \<noteq> 0"
  shows "Max {v \<in> vectors a. v < Suc n * 32} = n * 32 + nat (fls32 (a n))" "{v \<in> vectors a. v < Suc n * 32} \<noteq> {}"
proof -
  let ?m = "n * 32 + nat (fls32 (a n))"
  have b: "nat (fls32 (a n)) < 32" "bit (a n) (nat (fls32 (a n)))" using fls32_bit[OF assms(2)] by simp_all
  then have m: "?m \<in> {v \<in> vectors a. v < Suc n * 32}" using vectors_word[OF assms(1)] by simp
  then show "{v \<in> vectors a. v < Suc n * 32} \<noteq> {}" by blast
  show "Max {v \<in> vectors a. v < Suc n * 32} = ?m"
  proof (rule Max_eqI[OF _ _ m])
    fix v assume "v \<in> {v \<in> vectors a. v < Suc n * 32}"
    then have "v < n * 32 \<or> (\<exists>b. v = n * 32 + b \<and> bit (a n) b)" unfolding below_Suc[OF assms(1)] by auto
    then show "v \<le> ?m" using fls32_bit(4)[OF assms(2)] by auto
  qed simp
qed

lemma scan_down_below:
  "n \<le> 8 \<Longrightarrow> scan_down a n = (let S = {v \<in> vectors a. v < n * 32} in if S = {} then -1 else int (Max S))"
proof (induction n)
  case (Suc n)
  show ?case
  proof (cases "a n = 0")
    case True
    then have "{v \<in> vectors a. v < Suc n * 32} = {v \<in> vectors a. v < n * 32}" using Suc.prems below_Suc[of n a] by auto
    then show ?thesis using Suc True by (simp add: fls32_def)
  next
    case False
    then show ?thesis using Suc.prems highest_word[of n a] fls32_bit(1)[OF False] by (simp add: Let_def)
  qed
qed simp

lemma clear_down_below:
  "n \<le> 8 \<Longrightarrow> (let S = {v \<in> vectors a. v < n * 32}; r = clear_down a n
     in if S = {} then r = (a, None) else vectors (fst r) = vectors a - {Max S} \<and> snd r = Some (Max S))"
proof (induction n)
  case (Suc n)
  show ?case
  proof (cases "a n = 0")
    case True
    then have "{v \<in> vectors a. v < Suc n * 32} = {v \<in> vectors a. v < n * 32}" using Suc.prems below_Suc[of n a] by auto
    then show ?thesis using Suc True by (simp add: fls32_def)
  next
    case False
    then show ?thesis
      using Suc.prems highest_word[of n a] fls32_bit(1)[OF False] vectors_unset[of n "nat (fls32 (a n))" a] fls32_bit(2)[OF False]
      by (simp add: Let_def)
  qed
qed simp

lemma vectors_all: "{v \<in> vectors a. v < 256} = vectors a"
  by (auto simp: vectors_def)

lemma scan_down_Max: "scan_down a 8 = (if vectors a = {} then -1 else int (Max (vectors a)))"
  using scan_down_below[of 8 a] by (simp add: vectors_all Let_def)

lemma clear_down_Max:
  "vectors a = {} \<Longrightarrow> clear_down a 8 = (a, None)"
  "vectors a \<noteq> {} \<Longrightarrow> vectors (fst (clear_down a 8)) = vectors a - {Max (vectors a)} \<and> snd (clear_down a 8) = Some (Max (vectors a))"
  using clear_down_below[of 8 a] by (simp_all add: vectors_all Let_def)

end
