(* ===== verification/Vtx.thy ===== *)
theory Vtx
  imports Vectors Handlers
begin

text \<open>
  Virtual machines: the data of \<^verbatim>\<open>ia32eDefs.h\<close>, \<^verbatim>\<open>ia32eEmulator.h\<close> and \<^verbatim>\<open>ia32eVmcs.h\<close> and the
  primitives on it. A virtual CPU is a thread or an LSR of a domain that is a VM. The operations of
  \<^verbatim>\<open>ia32eEmulator.c\<close> run on behalf of the running task, which does not change while they run, and take it
  as their argument \<open>t\<close>. When a virtual CPU fails, its code does not return: \<open>stopped\<close> is set, and nothing
  changes the state any more. What the processor answers is a field of the environment.
\<close>

subsection \<open>Events for the guest\<close>

datatype ia32eInterruptType =
    IA32E_INTERRUPT_TYPE_EXTERNAL
  | IA32E_INTERRUPT_TYPE_RESERVED
  | IA32E_INTERRUPT_TYPE_NMI
  | IA32E_INTERRUPT_TYPE_HARDWARE_EXCEPTION
  | IA32E_INTERRUPT_TYPE_SOFTWARE_INT
  | IA32E_INTERRUPT_TYPE_PRIV_SOFTWARE_EXCEPTION
  | IA32E_INTERRUPT_TYPE_SOFTWARE_EXCEPTION
  | IA32E_INTERRUPT_TYPE_OTHER_EVENT

fun interrupt_type_number :: "ia32eInterruptType \<Rightarrow> u32" where
  "interrupt_type_number IA32E_INTERRUPT_TYPE_EXTERNAL = 0"
| "interrupt_type_number IA32E_INTERRUPT_TYPE_RESERVED = 1"
| "interrupt_type_number IA32E_INTERRUPT_TYPE_NMI = 2"
| "interrupt_type_number IA32E_INTERRUPT_TYPE_HARDWARE_EXCEPTION = 3"
| "interrupt_type_number IA32E_INTERRUPT_TYPE_SOFTWARE_INT = 4"
| "interrupt_type_number IA32E_INTERRUPT_TYPE_PRIV_SOFTWARE_EXCEPTION = 5"
| "interrupt_type_number IA32E_INTERRUPT_TYPE_SOFTWARE_EXCEPTION = 6"
| "interrupt_type_number IA32E_INTERRUPT_TYPE_OTHER_EVENT = 7"

text \<open>The type that a field of three bits names.\<close>

definition interrupt_type :: "u32 \<Rightarrow> ia32eInterruptType" where
  "interrupt_type n =
    [IA32E_INTERRUPT_TYPE_EXTERNAL, IA32E_INTERRUPT_TYPE_RESERVED, IA32E_INTERRUPT_TYPE_NMI,
     IA32E_INTERRUPT_TYPE_HARDWARE_EXCEPTION, IA32E_INTERRUPT_TYPE_SOFTWARE_INT,
     IA32E_INTERRUPT_TYPE_PRIV_SOFTWARE_EXCEPTION, IA32E_INTERRUPT_TYPE_SOFTWARE_EXCEPTION,
     IA32E_INTERRUPT_TYPE_OTHER_EVENT] ! (unat n mod 8)"

fun IA32E_IS_SYNCHRONOUS_INTERRUPT :: "ia32eInterruptType \<Rightarrow> bool" where
  "IA32E_IS_SYNCHRONOUS_INTERRUPT IA32E_INTERRUPT_TYPE_HARDWARE_EXCEPTION = True"
| "IA32E_IS_SYNCHRONOUS_INTERRUPT IA32E_INTERRUPT_TYPE_SOFTWARE_INT = True"
| "IA32E_IS_SYNCHRONOUS_INTERRUPT IA32E_INTERRUPT_TYPE_PRIV_SOFTWARE_EXCEPTION = True"
| "IA32E_IS_SYNCHRONOUS_INTERRUPT IA32E_INTERRUPT_TYPE_SOFTWARE_EXCEPTION = True"
| "IA32E_IS_SYNCHRONOUS_INTERRUPT _ = False"

datatype ia32eEmulatorMode =
    IA32E_EMULATOR_INVALID | IA32E_EMULATOR_16 | IA32E_EMULATOR_V8086 | IA32E_EMULATOR_32 | IA32E_EMULATOR_64

record ia32eVtxVectoredEvent =
  evVector :: u8
  evType :: ia32eInterruptType
  evDeliverErrcode :: bool
  evAdvance :: bool
  evValid :: bool
  evMode :: ia32eEmulatorMode
  evErrcode :: u64

subsection \<open>The local APIC\<close>

text \<open>
  The bit fields of \<open>latch\<close> and \<open>local\<close> are flattened; \<open>apicTpr\<close> and \<open>tprSubclass\<close> have four bits.
  \<open>latchLock\<close> is not needed: what it protects is one step of the model (\<open>with_latch\<close>).
\<close>

record ia32eVtxX2apic =
  waitForSipi :: bool
  initPending :: bool
  sipiPending :: bool
  sipiVector :: u8
  nmiPending :: bool
  latchedIrr :: vector_bits
  vmcsInitialized :: bool
  bsp :: bool
  poweredOn :: bool
  apicBaseBsp :: bool
  apicTpr :: u8
  tprSubclass :: u8
  apicBaseAddr :: u64
  sivr :: u32
  irr :: vector_bits
  isr :: vector_bits
  receiverEsr :: u8
  pendingEsr :: u8
  esr :: u8
  icr :: u64
  lvtTImer :: u32
  lvtTsr :: u32
  lvtPmcr :: u32
  lvtLint0 :: u32
  lvtLint1 :: u32
  lvtError :: u32
  initCount :: u32
  dcr :: u8

record vtxCtx =
  vmexitStoreVmentryLoadAreaData :: "u64 list"
  signId :: u64
  lostEvent :: ia32eVtxVectoredEvent
  syntheticEvent :: ia32eVtxVectoredEvent
  pluginEvent :: ia32eVtxVectoredEvent
  x2apic :: ia32eVtxX2apic

text \<open>The address of a task stands for the address of its APIC on the bus of the domain.\<close>

record ia32eVtxTaskInfo =
  vmcsPhys :: u64
  vcpuId :: u8

record ia32eDomainInfo =
  cr3 :: u64
  vm :: bool
  vpid :: "16 word"
  tripleFault :: u32
  numVcpus :: u8
  apicBus :: "nat \<Rightarrow> ptr"

subsection \<open>The VMCS and the registers\<close>

text \<open>The fields that the emulator uses, without their prefix \<open>IA32E_VTX_VMCS_\<close>.\<close>

datatype vmcsField =
    CTRL_VPID | CTRL_TSC_OFFSET | CTRL_EPTP
  | CTRL_PINBASED_CONTROLS | CTRL_PROCBASED_CTLS | CTRL_EXCEPTION_BITMAP | CTRL_PRIMARY_VMEXIT_CONTROLS
  | CTRL_VMENTRY_CONTROLS
  | CTRL_VMENTRY_INTERRUPT_INFO | CTRL_VMENTRY_INTERRUPT_ERROR_CODE | CTRL_VMENTRY_INSTRUCTION_LENGTH
  | CTRL_PROCBASED_CTLS2 | CTRL_CR0_GUEST_HOST_MASK | CTRL_CR4_GUEST_HOST_MASK | CTRL_CR0_READ_SHADOW
  | RO_EXIT_REASON | RO_VMEXIT_INTERRUPT_INFO | RO_VMEXIT_INTERRUPT_ERROR_CODE | RO_IDT_VECTORING_INFO_FIELD
  | RO_IDT_VECTORING_ERROR_CODE | RO_VMEXIT_INSTRUCTION_LENGTH | RO_EXIT_QUALIFICATION
  | GUEST_VMCS_LINK_POINTER | GUEST_IA32E_PAT | GUEST_IA32E_EFER | GUEST_INTERRUPTIBILITY_STATE
  | GUEST_ACTIVITY_STATE | GUEST_VMX_PREEMPTION_TIMER_VALUE | GUEST_CR0 | GUEST_CR4 | GUEST_DR7 | GUEST_RSP
  | GUEST_RIP | GUEST_RFLAGS | GUEST_CS_SELECTOR | GUEST_CS_BASE
  | GUEST_CS_LIMIT | GUEST_DS_LIMIT | GUEST_SS_LIMIT | GUEST_ES_LIMIT | GUEST_FS_LIMIT | GUEST_GS_LIMIT
  | GUEST_TR_LIMIT | GUEST_LDTR_LIMIT | GUEST_GDTR_LIMIT | GUEST_IDTR_LIMIT
  | GUEST_CS_ACCESS_RIGHTS | GUEST_DS_ACCESS_RIGHTS | GUEST_SS_ACCESS_RIGHTS | GUEST_ES_ACCESS_RIGHTS
  | GUEST_FS_ACCESS_RIGHTS | GUEST_GS_ACCESS_RIGHTS | GUEST_TR_ACCESS_RIGHTS | GUEST_LDTR_ACCESS_RIGHTS

record ia32eVmexitRegs =
  cr2 :: u64
  dr0 :: u64
  dr1 :: u64
  dr2 :: u64
  dr3 :: u64
  dr6 :: u64
  regs :: ia32eRegs

subsection \<open>The state\<close>

text \<open>What the emulator asks of the processor and of the plugin's APIC callbacks.\<close>

datatype vmEvent =
    EvX2apicIrr addr u8
  | EvX2apicIsr addr u8
  | EvX2apicEoi addr u8
  | EvFakeIsr u8
  | EvVmclear u64
  | EvVmptrld u64

text \<open>
  \<open>vtx\<close>, \<open>vtxInfo\<close>, \<open>vmcs\<close> and \<open>vregs\<close> belong to a task, \<open>vdom\<close> to a domain. \<open>hostIf\<close> is the
  interrupt flag of the CPU.
\<close>

record 'p vmstate =
  kern :: "'p kstate"
  vtx :: "addr \<Rightarrow> vtxCtx"
  vtxInfo :: "addr \<Rightarrow> ia32eVtxTaskInfo"
  vdom :: "addr \<Rightarrow> ia32eDomainInfo"
  vmcs :: "addr \<Rightarrow> vmcsField \<Rightarrow> u64"
  vregs :: "addr \<Rightarrow> ia32eVmexitRegs"
  hostIf :: bool
  stopped :: bool
  vtrace :: "vmEvent list"

text \<open>
  The callbacks of a plugin. Those that emulate an instruction are functions; they answer whether they did.
\<close>

type_synonym 'p emulatorCallback = "(addr \<Rightarrow> 'p vmstate \<Rightarrow> bool \<times> 'p vmstate) option"

record 'p ia32eEmulatorCallbacks =
  ia32eEmulatorInOutCallbackFn :: "'p emulatorCallback"
  ia32eEmulatorRdmsrCallbackFn :: "'p emulatorCallback"
  ia32eEmulatorWrmsrCallbackFn :: "'p emulatorCallback"
  ia32eEmulatorEptFaultCallbackFn :: "'p emulatorCallback"
  ia32eEmulatorEptMisconfigCallbackFn :: "'p emulatorCallback"
  ia32eEmulatorRegsResetCallbackFn :: "'p emulatorCallback"
  ia32eEmulatorX2apicIrrCallbackFn :: bool
  ia32eEmulatorX2apicIsrCallbackFn :: bool
  ia32eEmulatorX2apicEoiCallbackFn :: bool
  ia32eEmulatorX2apicReadTmrCallbackFn :: "(u8 \<Rightarrow> u32) option"

text \<open>What the emulator reads of the flags of the CPU (\<open>cpuFlags\<close> of \<^verbatim>\<open>ia32eCpu.h\<close>).\<close>

record cpuFlags =
  f_avx10 :: bool
  f_lahf64 :: bool
  f_lzcnt :: bool
  f_prefetchw :: bool
  f_nx :: bool
  f_pg1Gb :: bool
  f_l2LineSize :: u8
  f_wbnoinvd :: bool
  f_pat :: bool
  f_vpid :: bool
  f_vme :: bool
  f_de :: bool
  f_umip :: bool
  f_fsgsbase :: bool
  f_pcid :: bool
  f_smep :: bool
  f_smap :: bool

text \<open>
  The configuration, the processor and the callbacks: which fields of the VMCS it lets the emulator write,
  the time stamp counter, the MSRs, \<open>cpuid\<close>, and the data that the start-up has recorded about the CPU.
\<close>

record 'p vtxEnv =
  kernelEnv :: "'p kEnv"
  getCpuIdCfg :: bool
  VTX_TSD :: bool
  VTX_ACCESS_DENIED_GP0 :: bool
  VTX_FEATURE_VPID :: bool
  vmwriteOk :: "vmcsField \<Rightarrow> bool"
  vmclearOk :: "u64 \<Rightarrow> bool"
  vmptrldOk :: "u64 \<Rightarrow> bool"
  ia32eRdtsc :: u64
  ia32eRdmsr :: "u32 \<Rightarrow> u64"
  ia32eCpuid :: "u32 \<Rightarrow> u32 \<Rightarrow> u32 \<times> u32 \<times> u32 \<times> u32"
  flags :: cpuFlags
  cpuVersion :: u32
  cpuSignId :: u64
  extFeaturesSubleafMax :: u32
  esigMax :: u32
  ia32eVmxPinbasedCtls :: u32
  ia32eVmxProcbasedCtls :: u32
  ia32eVmxExitCtls :: u32
  ia32eVmxEntryCtls :: u32
  emulatorCallbacks :: "addr \<Rightarrow> 'p ia32eEmulatorCallbacks"

subsection \<open>Primitives\<close>

definition run :: "('p vmstate \<Rightarrow> 'p vmstate) \<Rightarrow> 'p vmstate \<Rightarrow> 'p vmstate" where
  "run f s = (if stopped s then s else f s)"

definition upd_vtx :: "addr \<Rightarrow> (vtxCtx \<Rightarrow> vtxCtx) \<Rightarrow> 'p vmstate \<Rightarrow> 'p vmstate" where
  "upd_vtx t f = run (\<lambda>s. s\<lparr>vtx := (vtx s)(t := f (vtx s t))\<rparr>)"

definition upd_apic :: "addr \<Rightarrow> (ia32eVtxX2apic \<Rightarrow> ia32eVtxX2apic) \<Rightarrow> 'p vmstate \<Rightarrow> 'p vmstate" where
  "upd_apic t f = upd_vtx t (\<lambda>c. c\<lparr>x2apic := f (x2apic c)\<rparr>)"

definition upd_regs :: "addr \<Rightarrow> (ia32eVmexitRegs \<Rightarrow> ia32eVmexitRegs) \<Rightarrow> 'p vmstate \<Rightarrow> 'p vmstate" where
  "upd_regs t f = run (\<lambda>s. s\<lparr>vregs := (vregs s)(t := f (vregs s t))\<rparr>)"

definition upd_gprs :: "addr \<Rightarrow> (ia32eRegs \<Rightarrow> ia32eRegs) \<Rightarrow> 'p vmstate \<Rightarrow> 'p vmstate" where
  "upd_gprs t f = upd_regs t (\<lambda>r. r\<lparr>regs := f (regs r)\<rparr>)"

definition upd_vdom :: "addr \<Rightarrow> (ia32eDomainInfo \<Rightarrow> ia32eDomainInfo) \<Rightarrow> 'p vmstate \<Rightarrow> 'p vmstate" where
  "upd_vdom d f = run (\<lambda>s. s\<lparr>vdom := (vdom s)(d := f (vdom s d))\<rparr>)"

definition upd_kern :: "('p kstate \<Rightarrow> 'p kstate) \<Rightarrow> 'p vmstate \<Rightarrow> 'p vmstate" where
  "upd_kern f = run (\<lambda>s. s\<lparr>kern := f (kern s)\<rparr>)"

definition set_vmcs :: "addr \<Rightarrow> vmcsField \<Rightarrow> u64 \<Rightarrow> 'p vmstate \<Rightarrow> 'p vmstate" where
  "set_vmcs t f v = run (\<lambda>s. s\<lparr>vmcs := (vmcs s)(t := (vmcs s t)(f := v))\<rparr>)"

definition set_if :: "bool \<Rightarrow> 'p vmstate \<Rightarrow> 'p vmstate" where
  "set_if b = run (\<lambda>s. s\<lparr>hostIf := b\<rparr>)"

definition vemit :: "vmEvent \<Rightarrow> 'p vmstate \<Rightarrow> 'p vmstate" where
  "vemit e = run (\<lambda>s. s\<lparr>vtrace := e # vtrace s\<rparr>)"

definition vstop :: "'p vmstate \<Rightarrow> 'p vmstate" where
  "vstop s = s\<lparr>stopped := True\<rparr>"

definition vassert :: "bool \<Rightarrow> 'p vmstate \<Rightarrow> 'p vmstate" where
  "vassert b = upd_kern (K_DYNAMIC_ASSERT b)"

definition vnull :: "'p vmstate \<Rightarrow> 'p vmstate" where
  "vnull s = vstop (upd_kern (fault NullDeref) s)"

text \<open>\<open>ia32eEmulatorLatchLockSafe\<close> to \<open>ia32eEmulatorLatchUnlockSafe\<close>.\<close>

definition with_latch :: "('p vmstate \<Rightarrow> 'p vmstate) \<Rightarrow> 'p vmstate \<Rightarrow> 'p vmstate" where
  "with_latch f s = set_if True (f (set_if False s))"

abbreviation apic :: "'p vmstate \<Rightarrow> addr \<Rightarrow> ia32eVtxX2apic" where
  "apic s t \<equiv> x2apic (vtx s t)"

abbreviation ia32eVmread :: "addr \<Rightarrow> vmcsField \<Rightarrow> 'p vmstate \<Rightarrow> u64" where
  "ia32eVmread t f s \<equiv> vmcs s t f"

abbreviation curDom :: "'p vmstate \<Rightarrow> addr \<Rightarrow> ptr" where
  "curDom s t \<equiv> curDomain (tdomain (tasks (kern s) t))"

subsection \<open>Failure of a virtual CPU\<close>

text \<open>The task fails and its domain is marked, so that the other virtual CPUs of the domain fail too.\<close>

definition ia32eEmulatorHandleVcpuFailure :: "'p vtxEnv \<Rightarrow> addr \<Rightarrow> 'p vmstate \<Rightarrow> 'p vmstate" where
  "ia32eEmulatorHandleVcpuFailure V t s =
    (let s = set_if True s;
         s = vassert (curDom s t \<noteq> None) s
     in case curDom s t of
          None \<Rightarrow> vnull s
        | Some d \<Rightarrow>
            vstop (upd_kern (\<lambda>k. snd (kSyscallHandler (kernelEnv V) (getCpuIdCfg V) 0
                WORKHORSE_SYS_SCHED_CTRL WORKHORSE_SCHED_CTRL_FAILURE 0 k))
              (upd_vdom d (\<lambda>i. i\<lparr>tripleFault := 1\<rparr>) s)))"

definition ia32eVmwriteSafe :: "'p vtxEnv \<Rightarrow> addr \<Rightarrow> vmcsField \<Rightarrow> u64 \<Rightarrow> 'p vmstate \<Rightarrow> 'p vmstate" where
  "ia32eVmwriteSafe V t f v s =
    (if vmwriteOk V f then set_vmcs t f v s
     else ia32eEmulatorHandleVcpuFailure V t (vassert False s))"

definition ia32eVmwriteAdjusted :: "'p vtxEnv \<Rightarrow> addr \<Rightarrow> u32 \<Rightarrow> vmcsField \<Rightarrow> u64 \<Rightarrow> 'p vmstate \<Rightarrow> 'p vmstate" where
  "ia32eVmwriteAdjusted V t msr f v s =
    (let cap = ia32eRdmsr V msr
     in ia32eVmwriteSafe V t f ((v OR (cap AND 0xffffffff)) AND drop_bit 32 cap) s)"

subsection \<open>What the primitives change\<close>

lemma run_simps [simp]: "stopped s \<Longrightarrow> run f s = s" "\<not> stopped s \<Longrightarrow> run f s = f s"
  by (simp_all add: run_def)

lemmas primitive_defs = upd_vtx_def upd_apic_def upd_regs_def upd_gprs_def upd_vdom_def upd_kern_def set_vmcs_def
  set_if_def vemit_def vassert_def

lemma stopped_simps [simp]:
  "stopped (upd_vtx t f s) = stopped s" "stopped (upd_apic t g s) = stopped s" "stopped (upd_regs t h s) = stopped s"
  "stopped (upd_gprs t k s) = stopped s" "stopped (upd_vdom d l s) = stopped s" "stopped (upd_kern m s) = stopped s"
  "stopped (set_vmcs t fd v s) = stopped s" "stopped (set_if b s) = stopped s" "stopped (vemit e s) = stopped s"
  "stopped (vassert b s) = stopped s"
  by (simp_all add: primitive_defs run_def)

lemma vassert_True [simp]: "vassert True s = s"
  by (simp add: vassert_def upd_kern_def run_def)

lemma vassert_holds: "b \<Longrightarrow> vassert b s = s"
  by simp

text \<open>The parts of the state that a primitive of another part leaves alone, stopped or not.\<close>

lemma kern_simps [simp]:
  "kern (upd_vtx t f s) = kern s" "kern (upd_apic t g s) = kern s" "kern (upd_regs t h s) = kern s"
  "kern (upd_gprs t k s) = kern s" "kern (upd_vdom d l s) = kern s" "kern (set_vmcs t fd v s) = kern s"
  "kern (set_if b s) = kern s" "kern (vemit e s) = kern s"
  by (simp_all add: primitive_defs run_def)

lemma vtx_simps [simp]:
  "vtx (upd_regs t h s) = vtx s" "vtx (upd_gprs t k s) = vtx s" "vtx (upd_vdom d l s) = vtx s" "vtx (upd_kern m s) = vtx s"
  "vtx (set_vmcs t fd v s) = vtx s" "vtx (set_if b s) = vtx s" "vtx (vemit e s) = vtx s" "vtx (vassert b s) = vtx s"
  by (simp_all add: primitive_defs run_def)

lemma vdom_simps [simp]:
  "vdom (upd_vtx t f s) = vdom s" "vdom (upd_apic t g s) = vdom s" "vdom (upd_regs t h s) = vdom s"
  "vdom (upd_gprs t k s) = vdom s" "vdom (upd_kern m s) = vdom s" "vdom (set_vmcs t fd v s) = vdom s"
  "vdom (set_if b s) = vdom s" "vdom (vemit e s) = vdom s" "vdom (vassert b s) = vdom s"
  by (simp_all add: primitive_defs run_def)

lemma vmcs_simps [simp]:
  "vmcs (upd_vtx t f s) = vmcs s" "vmcs (upd_apic t g s) = vmcs s" "vmcs (upd_regs t h s) = vmcs s"
  "vmcs (upd_gprs t k s) = vmcs s" "vmcs (upd_vdom d l s) = vmcs s" "vmcs (upd_kern m s) = vmcs s"
  "vmcs (set_if b s) = vmcs s" "vmcs (vemit e s) = vmcs s" "vmcs (vassert b s) = vmcs s"
  by (simp_all add: primitive_defs run_def)

lemma vregs_simps [simp]:
  "vregs (upd_vtx t f s) = vregs s" "vregs (upd_apic t g s) = vregs s" "vregs (upd_vdom d l s) = vregs s"
  "vregs (upd_kern m s) = vregs s" "vregs (set_vmcs t fd v s) = vregs s" "vregs (set_if b s) = vregs s"
  "vregs (vemit e s) = vregs s" "vregs (vassert b s) = vregs s"
  by (simp_all add: primitive_defs run_def)

lemma hostIf_simps [simp]:
  "hostIf (upd_vtx t f s) = hostIf s" "hostIf (upd_apic t g s) = hostIf s" "hostIf (upd_regs t h s) = hostIf s"
  "hostIf (upd_gprs t k s) = hostIf s" "hostIf (upd_vdom d l s) = hostIf s" "hostIf (upd_kern m s) = hostIf s"
  "hostIf (set_vmcs t fd v s) = hostIf s" "hostIf (vemit e s) = hostIf s" "hostIf (vassert b s) = hostIf s"
  "\<not> stopped s \<Longrightarrow> hostIf (set_if b s) = b"
  by (simp_all add: primitive_defs run_def)

lemma vtxInfo_simps [simp]:
  "vtxInfo (upd_vtx t f s) = vtxInfo s" "vtxInfo (upd_apic t g s) = vtxInfo s" "vtxInfo (upd_regs t h s) = vtxInfo s"
  "vtxInfo (upd_gprs t k s) = vtxInfo s" "vtxInfo (upd_vdom d l s) = vtxInfo s" "vtxInfo (upd_kern m s) = vtxInfo s"
  "vtxInfo (set_vmcs t fd v s) = vtxInfo s" "vtxInfo (set_if b s) = vtxInfo s" "vtxInfo (vemit e s) = vtxInfo s"
  "vtxInfo (vassert b s) = vtxInfo s"
  by (simp_all add: primitive_defs run_def)

lemma vtrace_simps [simp]:
  "vtrace (upd_vtx t f s) = vtrace s" "vtrace (upd_apic t g s) = vtrace s" "vtrace (upd_regs t h s) = vtrace s"
  "vtrace (upd_gprs t k s) = vtrace s" "vtrace (upd_vdom d l s) = vtrace s" "vtrace (upd_kern m s) = vtrace s"
  "vtrace (set_vmcs t fd v s) = vtrace s" "vtrace (set_if b s) = vtrace s" "vtrace (vassert b s) = vtrace s"
  by (simp_all add: primitive_defs run_def)

text \<open>What a primitive does to its own part while the virtual CPU runs.\<close>

lemma own_simps [simp]:
  assumes "\<not> stopped s"
  shows "vtx (upd_vtx t f s) = (vtx s)(t := f (vtx s t))"
    "vtx (upd_apic t g s) = (vtx s)(t := (vtx s t)\<lparr>x2apic := g (x2apic (vtx s t))\<rparr>)"
    "vregs (upd_regs t h s) = (vregs s)(t := h (vregs s t))"
    "vregs (upd_gprs t k s) = (vregs s)(t := (vregs s t)\<lparr>regs := k (regs (vregs s t))\<rparr>)"
    "vdom (upd_vdom d l s) = (vdom s)(d := l (vdom s d))"
    "kern (upd_kern m s) = m (kern s)"
    "vmcs (set_vmcs t fd v s) = (vmcs s)(t := (vmcs s t)(fd := v))"
    "vtrace (vemit e s) = e # vtrace s"
  using assms by (simp_all add: primitive_defs)

lemma kern_vassert [simp]: "\<not> stopped s \<Longrightarrow> kern (vassert b s) = K_DYNAMIC_ASSERT b (kern s)"
  by (simp add: vassert_def)

lemma tasks_assert [simp]: "tasks (K_DYNAMIC_ASSERT b k) = tasks k"
  by (simp add: K_DYNAMIC_ASSERT_def fault_def)

lemma curDom_vassert [simp]: "tasks (kern (vassert b s)) = tasks (kern s)"
  by (cases "stopped s") (simp_all add: vassert_def upd_kern_def)

lemma vmwrite_ok [simp]: "vmwriteOk V f \<Longrightarrow> ia32eVmwriteSafe V t f v s = set_vmcs t f v s"
  by (simp add: ia32eVmwriteSafe_def)

end
