(* ===== verification/X2apic.thy ===== *)
theory X2apic
  imports Vtx
begin

text \<open>
  The virtual local APIC of \<^verbatim>\<open>ia32eEmulator.c\<close> (the functions \<open>ia32eEmulatorX2apic*\<close>): priorities, the
  requested and the serviced interrupts, the timer, and the messages between virtual CPUs. A message is
  latched in the APIC of the receiver, which takes it over when it next leaves the guest.
\<close>

abbreviation IA32E_XAPIC_SIVR_ENABLE_MASK :: u32 where "IA32E_XAPIC_SIVR_ENABLE_MASK \<equiv> 0x100"
abbreviation IA32E_XAPIC_LVT_ENTRY_DISABLE_MASK :: u32 where "IA32E_XAPIC_LVT_ENTRY_DISABLE_MASK \<equiv> 0x10000"
abbreviation IA32E_XAPIC_ESR_SEND_ILLEGAL_MASK :: u8 where "IA32E_XAPIC_ESR_SEND_ILLEGAL_MASK \<equiv> 0x20"
abbreviation IA32E_XAPIC_ESR_RECV_ILLEGAL_MASK :: u8 where "IA32E_XAPIC_ESR_RECV_ILLEGAL_MASK \<equiv> 0x40"

abbreviation IA32E_DM_NORMAL :: u8 where "IA32E_DM_NORMAL \<equiv> 0"
abbreviation IA32E_DM_LOW_PRIORITY :: u8 where "IA32E_DM_LOW_PRIORITY \<equiv> 1"
abbreviation IA32E_DM_SMI :: u8 where "IA32E_DM_SMI \<equiv> 2"
abbreviation IA32E_DM_RESERVED0 :: u8 where "IA32E_DM_RESERVED0 \<equiv> 3"
abbreviation IA32E_DM_NMI :: u8 where "IA32E_DM_NMI \<equiv> 4"
abbreviation IA32E_DM_INIT :: u8 where "IA32E_DM_INIT \<equiv> 5"
abbreviation IA32E_DM_STARTUP :: u8 where "IA32E_DM_STARTUP \<equiv> 6"
abbreviation IA32E_DM_EXTERNAL :: u8 where "IA32E_DM_EXTERNAL \<equiv> 7"

definition apic_enabled :: "ia32eVtxX2apic \<Rightarrow> bool" where
  "apic_enabled a \<longleftrightarrow> sivr a AND IA32E_XAPIC_SIVR_ENABLE_MASK \<noteq> 0"

subsection \<open>Priorities\<close>

definition ia32eEmulatorX2apicSetTpr :: "addr \<Rightarrow> u8 \<Rightarrow> 'p vmstate \<Rightarrow> 'p vmstate" where
  "ia32eEmulatorX2apicSetTpr t val s = upd_apic t (\<lambda>a. a\<lparr>apicTpr := val AND 15\<rparr>) (vassert (val \<le> 15) s)"

definition ia32eEmulatorX2apicGetTpr :: "addr \<Rightarrow> 'p vmstate \<Rightarrow> u8 \<times> 'p vmstate" where
  "ia32eEmulatorX2apicGetTpr t s = (let val = apicTpr (apic s t) in (val, vassert (val \<le> 15) s))"

definition ia32eEmulatorX2apicGetIsrv :: "addr \<Rightarrow> 'p vmstate \<Rightarrow> u8" where
  "ia32eEmulatorX2apicGetIsrv t s = (let v = scan_down (isr (apic s t)) 8 in if v \<ge> 0 then word_of_int v else 0)"

definition ia32eEmulatorX2apicUnsetIsrv :: "'p vtxEnv \<Rightarrow> addr \<Rightarrow> 'p vmstate \<Rightarrow> 'p vmstate" where
  "ia32eEmulatorX2apicUnsetIsrv V t s =
    (case clear_down (isr (apic s t)) 8 of
       (is, None) \<Rightarrow> s
     | (is, Some v) \<Rightarrow>
         let s = upd_apic t (\<lambda>a. a\<lparr>isr := is\<rparr>) s
         in if ia32eEmulatorX2apicEoiCallbackFn (emulatorCallbacks V t) then vemit (EvX2apicEoi t (word_of_nat v)) s else s)"

definition ia32eEmulatorX2apicSetIsrv :: "'p vtxEnv \<Rightarrow> addr \<Rightarrow> u8 \<Rightarrow> 'p vmstate \<Rightarrow> 'p vmstate" where
  "ia32eEmulatorX2apicSetIsrv V t vector s =
    (let s = upd_apic t (\<lambda>a. a\<lparr>isr := set_vector (unat vector) (isr a)\<rparr>) s
     in if ia32eEmulatorX2apicIsrCallbackFn (emulatorCallbacks V t) then vemit (EvX2apicIsr t vector) s else s)"

text \<open>The macro \<open>max\<close> evaluates the greater operand twice.\<close>

definition ia32eEmulatorX2apicGetPpr :: "addr \<Rightarrow> 'p vmstate \<Rightarrow> u8 \<times> 'p vmstate" where
  "ia32eEmulatorX2apicGetPpr t s =
    (case ia32eEmulatorX2apicGetTpr t s of
       (p, s) \<Rightarrow> if p > ia32eEmulatorX2apicGetIsrv t s div 16 then ia32eEmulatorX2apicGetTpr t s
                 else (ia32eEmulatorX2apicGetIsrv t s div 16, s))"

definition ia32eEmulatorX2apicGetIrrPending :: "addr \<Rightarrow> 'p vmstate \<Rightarrow> int" where
  "ia32eEmulatorX2apicGetIrrPending t s =
    (if \<not> apic_enabled (apic s t) then -1 else scan_down (irr (apic s t)) 8)"

definition ia32eEmulatorX2apicUnsetIrrPending :: "addr \<Rightarrow> 'p vmstate \<Rightarrow> 'p vmstate" where
  "ia32eEmulatorX2apicUnsetIrrPending t s = upd_apic t (\<lambda>a. a\<lparr>irr := fst (clear_down (irr a) 8)\<rparr>) s"

subsection \<open>The timer\<close>

text \<open>The divisor that a value of the divide configuration register names.\<close>

definition x2apic_divisor :: "u32 \<Rightarrow> u32 option" where
  "x2apic_divisor d =
    (if d = 0 then Some 2 else if d = 1 then Some 4 else if d = 2 then Some 8 else if d = 3 then Some 16
     else if d = 8 then Some 32 else if d = 9 then Some 64 else if d = 0xA then Some 128 else if d = 0xB then Some 1
     else None)"

definition ia32eEmulatorX2apicCompressCounter :: "u32 \<Rightarrow> u32 \<Rightarrow> 'p vmstate \<Rightarrow> u32 \<times> 'p vmstate" where
  "ia32eEmulatorX2apicCompressCounter count d s =
    (case x2apic_divisor d of Some k \<Rightarrow> (count div k, s) | None \<Rightarrow> (count, vassert False s))"

definition ia32eEmulatorX2apicDecompressCounter :: "u32 \<Rightarrow> u32 \<Rightarrow> 'p vmstate \<Rightarrow> u32 \<times> 'p vmstate" where
  "ia32eEmulatorX2apicDecompressCounter count d s =
    (case x2apic_divisor d of Some k \<Rightarrow> (count * k, s) | None \<Rightarrow> (count, vassert False s))"

abbreviation TIMER_BIT :: nat where "TIMER_BIT \<equiv> 6"
abbreviation SAVE_TIMER_BIT :: nat where "SAVE_TIMER_BIT \<equiv> 22"

definition timer_running :: "addr \<Rightarrow> 'p vmstate \<Rightarrow> bool" where
  "timer_running t s \<longleftrightarrow> testBitLe (ia32eVmread t CTRL_PINBASED_CONTROLS s) TIMER_BIT"

text \<open>Switching the timer of the processor on and off in the controls.\<close>

definition timer_on :: "'p vtxEnv \<Rightarrow> addr \<Rightarrow> 'p vmstate \<Rightarrow> 'p vmstate" where
  "timer_on V t s =
    (let pin = ia32eVmread t CTRL_PINBASED_CONTROLS s; exit = ia32eVmread t CTRL_PRIMARY_VMEXIT_CONTROLS s
     in ia32eVmwriteSafe V t CTRL_PRIMARY_VMEXIT_CONTROLS (exit OR push_bit SAVE_TIMER_BIT 1)
          (ia32eVmwriteSafe V t CTRL_PINBASED_CONTROLS (pin OR push_bit TIMER_BIT 1) s))"

definition timer_off :: "'p vtxEnv \<Rightarrow> addr \<Rightarrow> 'p vmstate \<Rightarrow> 'p vmstate" where
  "timer_off V t s =
    (let pin = ia32eVmread t CTRL_PINBASED_CONTROLS s; exit = ia32eVmread t CTRL_PRIMARY_VMEXIT_CONTROLS s
     in ia32eVmwriteSafe V t CTRL_PRIMARY_VMEXIT_CONTROLS (exit AND NOT (push_bit SAVE_TIMER_BIT 1))
          (ia32eVmwriteSafe V t CTRL_PINBASED_CONTROLS (pin AND NOT (push_bit TIMER_BIT 1)) s))"

definition ia32eEmulatorX2apicResetCounter :: "'p vtxEnv \<Rightarrow> addr \<Rightarrow> 'p vmstate \<Rightarrow> 'p vmstate" where
  "ia32eEmulatorX2apicResetCounter V t s =
    (let d = ucast (dcr (apic s t)); count = initCount (apic s t)
     in if count = 0
        then (if timer_running t s then timer_off V t (ia32eVmwriteSafe V t GUEST_VMX_PREEMPTION_TIMER_VALUE 0 s) else s)
        else case ia32eEmulatorX2apicCompressCounter count d s of
               (count, s) \<Rightarrow>
                 let s = (if \<not> timer_running t s then timer_on V t s else s)
                 in ia32eVmwriteSafe V t GUEST_VMX_PREEMPTION_TIMER_VALUE (ucast count) s)"

definition ia32eEmulatorX2apicReadCounter :: "addr \<Rightarrow> 'p vmstate \<Rightarrow> u32 \<times> 'p vmstate" where
  "ia32eEmulatorX2apicReadCounter t s =
    (if \<not> timer_running t s then (0, s)
     else ia32eEmulatorX2apicDecompressCounter (ucast (ia32eVmread t GUEST_VMX_PREEMPTION_TIMER_VALUE s))
            (ucast (dcr (apic s t))) s)"

definition ia32eEmulatorX2apicSetDcr :: "'p vtxEnv \<Rightarrow> addr \<Rightarrow> u8 \<Rightarrow> 'p vmstate \<Rightarrow> 'p vmstate" where
  "ia32eEmulatorX2apicSetDcr V t d s =
    (let oldDcr = dcr (apic s t); s = upd_apic t (\<lambda>a. a\<lparr>dcr := d\<rparr>) s
     in if d \<noteq> oldDcr \<and> timer_running t s
        then (case ia32eEmulatorX2apicDecompressCounter (ucast (ia32eVmread t GUEST_VMX_PREEMPTION_TIMER_VALUE s)) (ucast oldDcr) s of
                (count, s) \<Rightarrow>
              case ia32eEmulatorX2apicCompressCounter count (ucast d) s of
                (count, s) \<Rightarrow> ia32eVmwriteSafe V t GUEST_VMX_PREEMPTION_TIMER_VALUE (ucast count) s)
        else s)"

subsection \<open>Messages\<close>

definition ia32eEmulatorDomainVcpuCount :: "addr \<Rightarrow> 'p vmstate \<Rightarrow> u8 \<times> 'p vmstate" where
  "ia32eEmulatorDomainVcpuCount t s =
    (let s = vassert (curDom s t \<noteq> None) s
     in case curDom s t of None \<Rightarrow> (0, vnull s) | Some d \<Rightarrow> (numVcpus (vdom s d), s))"

text \<open>What \<open>ia32eEmulatorX2apicSendPacket\<close> does with the latch of the APIC at \<open>x\<close>.\<close>

definition latch_packet :: "addr \<Rightarrow> bool \<Rightarrow> addr \<Rightarrow> u8 \<Rightarrow> u8 \<Rightarrow> 'p vmstate \<Rightarrow> 'p vmstate" where
  "latch_packet t self x vector dm s =
    (if dm = IA32E_DM_NORMAL
     then (if \<not> apic_enabled (apic s x)
           then (if vector \<le> 15 \<and> apic_enabled (apic s t)
                 then upd_apic t (\<lambda>a. a\<lparr>receiverEsr := receiverEsr a OR IA32E_XAPIC_ESR_SEND_ILLEGAL_MASK\<rparr>) s else s)
           else if vector \<le> 15
           then (let s = upd_apic t (\<lambda>a. a\<lparr>receiverEsr := receiverEsr a OR IA32E_XAPIC_ESR_SEND_ILLEGAL_MASK\<rparr>) s
                 in if \<not> self then upd_apic x (\<lambda>a. a\<lparr>receiverEsr := receiverEsr a OR IA32E_XAPIC_ESR_RECV_ILLEGAL_MASK\<rparr>) s
                    else s)
           else upd_apic x (\<lambda>a. a\<lparr>latchedIrr := set_vector (unat vector) (latchedIrr a)\<rparr>) s)
     else if dm = IA32E_DM_NMI then upd_apic x (\<lambda>a. a\<lparr>nmiPending := True\<rparr>) s
     else if dm = IA32E_DM_INIT
     then (if self then s else upd_apic x (\<lambda>a. a\<lparr>initPending := \<not> waitForSipi a, sipiPending := False\<rparr>) s)
     else if dm = IA32E_DM_STARTUP
     then (if self then s
           else if (waitForSipi (apic s x) \<or> initPending (apic s x)) \<and> \<not> sipiPending (apic s x)
           then upd_apic x (\<lambda>a. a\<lparr>sipiVector := vector, sipiPending := True\<rparr>) s else s)
     else vassert False s)"

definition ia32eEmulatorX2apicSendPacket :: "addr \<Rightarrow> u8 \<Rightarrow> u8 \<Rightarrow> u8 \<Rightarrow> 'p vmstate \<Rightarrow> 'p vmstate" where
  "ia32eEmulatorX2apicSendPacket t x2apicId vector dm s =
    (let s = vassert (hostIf s) s
     in case curDom s t of
          None \<Rightarrow> vnull s
        | Some d \<Rightarrow>
            if x2apicId \<ge> numVcpus (vdom s d) then s
            else let s = vassert (apicBus (vdom s d) (unat x2apicId) \<noteq> None) s
                 in case apicBus (vdom s d) (unat x2apicId) of
                      None \<Rightarrow> vnull s
                    | Some x \<Rightarrow> with_latch (latch_packet t (x2apicId = vcpuId (vtxInfo s t)) x vector dm) s)"

lemma clear_lowest_less:
  assumes "ffs32 dest \<noteq> -1" shows "dest AND NOT (push_bit (nat (ffs32 dest)) 1) < dest"
proof -
  have "dest \<noteq> 0" using assms by (auto simp: ffs32_def)
  then have b: "bit dest (nat (ffs32 dest))" by (rule ffs32_bit(3))
  then have "dest AND NOT (push_bit (nat (ffs32 dest)) 1) \<noteq> dest" using bit_clear_1[of dest] by metis
  then show ?thesis using word_and_le1[of dest "NOT (push_bit (nat (ffs32 dest)) 1)"] word_and_le2 by (metis order_le_neq_trans)
qed

text \<open>The loop over the bits of a logical destination.\<close>

function logical_loop :: "addr \<Rightarrow> u32 \<Rightarrow> u8 \<Rightarrow> u8 \<Rightarrow> u32 \<Rightarrow> 'p vmstate \<Rightarrow> 'p vmstate" where
  "logical_loop t clusterId vector dm dest s =
    (if ffs32 dest = -1 then s
     else let b = nat (ffs32 dest);
              logicalId = clusterId * 16 + word_of_nat b;
              s = vassert (logicalId \<le> 255) s;
              s = ia32eEmulatorX2apicSendPacket t (ucast logicalId) vector dm s
          in logical_loop t clusterId vector dm (dest AND NOT (push_bit b 1)) s)"
  by pat_completeness auto

termination
  by (relation "measure (\<lambda>(t, c, v, dm, dest, s). unat dest)") (use clear_lowest_less in \<open>auto simp: word_less_nat_alt\<close>)

declare logical_loop.simps [simp del]

text \<open>The fields of a value for the interrupt command register.\<close>

definition icr_vector :: "u64 \<Rightarrow> u8" where "icr_vector val = ucast (val AND 0xff)"
definition icr_mode :: "u64 \<Rightarrow> u8" where "icr_mode val = ucast (drop_bit 8 val AND 7)"
definition icr_logical :: "u64 \<Rightarrow> bool" where "icr_logical val \<longleftrightarrow> drop_bit 11 val AND 1 = 1"
definition icr_shorthand :: "u64 \<Rightarrow> u64" where "icr_shorthand val = drop_bit 18 val AND 3"
definition icr_dest :: "u64 \<Rightarrow> u32" where "icr_dest val = ucast (drop_bit 32 val)"

text \<open>What follows once the command has been accepted: the packets to the virtual CPUs that it addresses.\<close>

definition icr_send :: "addr \<Rightarrow> u64 \<Rightarrow> u8 \<Rightarrow> 'p vmstate \<Rightarrow> 'p vmstate" where
  "icr_send t val num s =
    (let vcpu = vcpuId (vtxInfo s t); vector = icr_vector val; dm = icr_mode val; dest = icr_dest val
     in if icr_shorthand val = 0
        then (if icr_logical val
              then (let clusterId = drop_bit 16 dest
                    in if clusterId \<ge> (ucast num + 15) div 16 then s
                       else logical_loop t clusterId vector dm (dest AND 0xffff) s)
              else if dest < ucast num then ia32eEmulatorX2apicSendPacket t (ucast dest) vector dm s
              else s)
        else if icr_shorthand val = 1 then ia32eEmulatorX2apicSendPacket t vcpu vector dm s
        else if icr_shorthand val = 2
        then fold (\<lambda>i. ia32eEmulatorX2apicSendPacket t (word_of_nat i) vector dm) [0..<unat num] s
        else fold (\<lambda>i s. if i \<noteq> unat vcpu then ia32eEmulatorX2apicSendPacket t (word_of_nat i) vector dm s else s)
               [0..<unat num] s)"

definition ia32eEmulatorX2apicHandleIcrWrite :: "addr \<Rightarrow> u64 \<Rightarrow> 'p vmstate \<Rightarrow> bool \<times> 'p vmstate" where
  "ia32eEmulatorX2apicHandleIcrWrite t val s =
    (if val AND 0xfff33000 \<noteq> 0 then (False, s)
     else
       case ia32eEmulatorDomainVcpuCount t s of
         (num, s) \<Rightarrow>
           if icr_mode val = IA32E_DM_LOW_PRIORITY \<or> icr_mode val = IA32E_DM_RESERVED0 \<or> icr_mode val = IA32E_DM_EXTERNAL
           then (False, s)
           else
             let s = upd_apic t (\<lambda>a. a\<lparr>icr := val\<rparr>) s
             in if icr_mode val = IA32E_DM_SMI then (True, s) else (True, icr_send t val num s))"

definition ia32eEmulatorX2apicCheckReceiverEsr :: "addr \<Rightarrow> 'p vmstate \<Rightarrow> 'p vmstate" where
  "ia32eEmulatorX2apicCheckReceiverEsr t s =
    (let receiver = receiverEsr (apic s t);
         s = upd_apic t (\<lambda>a. a\<lparr>receiverEsr := 0\<rparr>) s;
         a = apic s t;
         vector = ucast (lvtError a AND 0xff) :: u8;
         due = pendingEsr a = 0 \<and> receiver \<noteq> 0 \<and> lvtError a AND IA32E_XAPIC_LVT_ENTRY_DISABLE_MASK = 0;
         s = (if due \<and> vector > 15 \<and> apic_enabled a
              then with_latch (upd_apic t (\<lambda>a. a\<lparr>latchedIrr := set_vector (unat vector) (latchedIrr a)\<rparr>)) s else s);
         receiver = (if due \<and> \<not> vector > 15 then receiver OR IA32E_XAPIC_ESR_RECV_ILLEGAL_MASK else receiver)
     in upd_apic t (\<lambda>a. a\<lparr>pendingEsr := pendingEsr a OR receiver\<rparr>) s)"

text \<open>One round of the loop over the vectors that were latched.\<close>

definition request_vector :: "'p vtxEnv \<Rightarrow> addr \<Rightarrow> vector_bits \<Rightarrow> nat \<Rightarrow> 'p vmstate \<Rightarrow> 'p vmstate" where
  "request_vector V t new i s =
    (if new (i div 32) AND push_bit (i mod 32) 1 \<noteq> 0
     then (let s = vassert (i > 15) s;
               s = upd_apic t (\<lambda>a. a\<lparr>irr := set_vector i (irr a)\<rparr>) s
           in if ia32eEmulatorX2apicIrrCallbackFn (emulatorCallbacks V t) then vemit (EvX2apicIrr t (word_of_nat i)) s else s)
     else s)"

definition ia32eEmulatorX2apicCheckLatchedIrr :: "'p vtxEnv \<Rightarrow> addr \<Rightarrow> 'p vmstate \<Rightarrow> 'p vmstate" where
  "ia32eEmulatorX2apicCheckLatchedIrr V t s =
    (let new = latchedIrr (apic s t);
         s = with_latch (upd_apic t (\<lambda>a. a\<lparr>latchedIrr := (\<lambda>_. 0)\<rparr>)) s
     in fold (request_vector V t new) [0..<256] s)"

text \<open>A message to a virtual CPU of another domain.\<close>

definition ia32eEmulatorIpiRouter :: "'p vtxEnv \<Rightarrow> addr \<Rightarrow> u64 \<Rightarrow> 'p vmstate \<Rightarrow> bool \<times> 'p vmstate" where
  "ia32eEmulatorIpiRouter V t val s =
    (let did = ucast (val AND 0xffffffff) :: u32;
         dest = ucast (drop_bit 32 val AND 0xff) :: u8;
         vector = ucast (drop_bit 40 val AND 0xff) :: u8;
         nmi = drop_bit 48 val AND 1 \<noteq> 0
     in if drop_bit 49 val \<noteq> 0 \<or> (\<not> nmi \<and> vector \<le> 15) then (False, s)
        else
          case kDomainUniverseGet (kernelEnv V) did (kern s) of
            None \<Rightarrow> (False, s)
          | Some recv \<Rightarrow>
              if \<not> vm (vdom s recv) then (False, s)
              else
                case curDom s t of
                  None \<Rightarrow> (False, vnull s)
                | Some send \<Rightarrow>
                    if \<not> bm_test (invokePermMap (invocationInfo (domains (kern s) send))) (unat did)
                       \<or> dest \<ge> numVcpus (vdom s recv)
                    then (False, s)
                    else
                      let s = vassert (apicBus (vdom s recv) (unat dest) \<noteq> None) s
                      in case apicBus (vdom s recv) (unat dest) of
                           None \<Rightarrow> (False, vnull s)
                         | Some x \<Rightarrow>
                             (True, with_latch (\<lambda>s.
                                if \<not> nmi
                                then (if apic_enabled (apic s x)
                                      then upd_apic x (\<lambda>a. a\<lparr>latchedIrr := set_vector (unat vector) (latchedIrr a)\<rparr>) s
                                      else s)
                                else upd_apic x (\<lambda>a. a\<lparr>nmiPending := True\<rparr>) s) s))"

end
