(* ===== verification/Emulator.thy ===== *)
theory Emulator
  imports X2apic
begin

text \<open>
  The emulation of what a guest does (\<^verbatim>\<open>ia32eEmulator.c\<close>): one function for each reason for which the
  processor leaves the guest, and the helpers that they share. A function queues at most one event for the
  guest, an exception or the advance to the next instruction; the event manager delivers it.
\<close>

abbreviation IA32E_DEBUG_EXCEPTION :: u8 where "IA32E_DEBUG_EXCEPTION \<equiv> 1"
abbreviation IA32E_NMI :: u8 where "IA32E_NMI \<equiv> 2"
abbreviation IA32E_INVALID_OPCODE :: u8 where "IA32E_INVALID_OPCODE \<equiv> 6"
abbreviation IA32E_GENERAL_PROTECTION_FAULT :: u8 where "IA32E_GENERAL_PROTECTION_FAULT \<equiv> 13"
abbreviation IA32E_ALIGNMENT_CHECK :: u8 where "IA32E_ALIGNMENT_CHECK \<equiv> 17"

abbreviation IA32E_CR0_PE_MASK :: u64 where "IA32E_CR0_PE_MASK \<equiv> 1"
abbreviation IA32E_CR0_NE_MASK :: u64 where "IA32E_CR0_NE_MASK \<equiv> 0x20"
abbreviation IA32E_CR0_NW_MASK :: u64 where "IA32E_CR0_NW_MASK \<equiv> 0x20000000"
abbreviation IA32E_CR0_CD_MASK :: u64 where "IA32E_CR0_CD_MASK \<equiv> 0x40000000"
abbreviation IA32E_CR0_INVAL_MASK :: u64 where "IA32E_CR0_INVAL_MASK \<equiv> 0x1ffaffc0"
abbreviation IA32E_CR4_PCIDE_MASK :: u64 where "IA32E_CR4_PCIDE_MASK \<equiv> 0x20000"
abbreviation IA32E_CR4_VMXE_MASK :: u64 where "IA32E_CR4_VMXE_MASK \<equiv> 0x2000"
abbreviation IA32E_EFER_LONGMODE_ACTIVE_MASK :: u64 where "IA32E_EFER_LONGMODE_ACTIVE_MASK \<equiv> 0x400"
abbreviation IA32E_FLAGS_TF_MASK :: u64 where "IA32E_FLAGS_TF_MASK \<equiv> 0x100"
abbreviation IA32E_FLAGS_IF_MASK :: u64 where "IA32E_FLAGS_IF_MASK \<equiv> 0x200"
abbreviation IA32E_FLAGS_VM_MASK :: u64 where "IA32E_FLAGS_VM_MASK \<equiv> 0x20000"
abbreviation IA32E_ACCESS_RIGHTS_DPL_MASK :: u32 where "IA32E_ACCESS_RIGHTS_DPL_MASK \<equiv> 0x60"
abbreviation IA32E_ACCESS_RIGHTS_LONGMODE_MASK :: u32 where "IA32E_ACCESS_RIGHTS_LONGMODE_MASK \<equiv> 0x2000"
abbreviation IA32E_ACCESS_RIGHTS_DB_MASK :: u32 where "IA32E_ACCESS_RIGHTS_DB_MASK \<equiv> 0x4000"
abbreviation STI_MASK :: u32 where "STI_MASK \<equiv> 1"
abbreviation MOV_SS_MASK :: u32 where "MOV_SS_MASK \<equiv> 2"
abbreviation NMI_MASK :: u32 where "NMI_MASK \<equiv> 8"

text \<open>\<open>1 << 31\<close> is a negative \<open>int\<close>, and is extended with its sign when it meets 64 bits.\<close>

abbreviation IA32E_CR0_PG_MASK :: u64 where "IA32E_CR0_PG_MASK \<equiv> 0xffffffff80000000"

subsection \<open>The mode of the guest\<close>

definition ia32eEmulatorMode :: "addr \<Rightarrow> 'p vmstate \<Rightarrow> ia32eEmulatorMode" where
  "ia32eEmulatorMode t s =
    (let guestAr = ucast (ia32eVmread t GUEST_CS_ACCESS_RIGHTS s) :: u32
     in if ia32eVmread t GUEST_CR0 s AND IA32E_CR0_PE_MASK = 0 then IA32E_EMULATOR_16
        else if ia32eVmread t GUEST_IA32E_EFER s AND IA32E_EFER_LONGMODE_ACTIVE_MASK \<noteq> 0
        then (if guestAr AND IA32E_ACCESS_RIGHTS_LONGMODE_MASK \<noteq> 0 then IA32E_EMULATOR_64
              else if guestAr AND IA32E_ACCESS_RIGHTS_DB_MASK \<noteq> 0 then IA32E_EMULATOR_32 else IA32E_EMULATOR_16)
        else if ia32eVmread t GUEST_RFLAGS s AND IA32E_FLAGS_VM_MASK \<noteq> 0 then IA32E_EMULATOR_V8086
        else if guestAr AND IA32E_ACCESS_RIGHTS_DB_MASK \<noteq> 0 then IA32E_EMULATOR_32 else IA32E_EMULATOR_16)"

definition ia32eEmulatorCpl0 :: "addr \<Rightarrow> 'p vmstate \<Rightarrow> bool" where
  "ia32eEmulatorCpl0 t s =
    (if ia32eVmread t GUEST_CR0 s AND IA32E_CR0_PE_MASK = 0 then True
     else if ia32eVmread t GUEST_IA32E_EFER s AND IA32E_EFER_LONGMODE_ACTIVE_MASK = 0
             \<and> ia32eVmread t GUEST_RFLAGS s AND IA32E_FLAGS_VM_MASK \<noteq> 0 then False
     else ucast (ia32eVmread t GUEST_CS_ACCESS_RIGHTS s) AND IA32E_ACCESS_RIGHTS_DPL_MASK = 0)"

abbreviation ia32eEmulatorRunningTaskMode :: "addr \<Rightarrow> 'p vmstate \<Rightarrow> ia32eEmulatorMode" where
  "ia32eEmulatorRunningTaskMode t s \<equiv> evMode (syntheticEvent (vtx s t))"

definition ia32eEmulatorModeApplyIpMask :: "addr \<Rightarrow> u64 \<Rightarrow> 'p vmstate \<Rightarrow> u64 \<times> 'p vmstate" where
  "ia32eEmulatorModeApplyIpMask t val s =
    (case ia32eEmulatorRunningTaskMode t s of
       IA32E_EMULATOR_16 \<Rightarrow> (val AND 0xffff, s)
     | IA32E_EMULATOR_V8086 \<Rightarrow> (val AND 0xffff, s)
     | IA32E_EMULATOR_32 \<Rightarrow> (val AND 0xffffffff, s)
     | IA32E_EMULATOR_64 \<Rightarrow> (val, s)
     | IA32E_EMULATOR_INVALID \<Rightarrow> (val, vassert False s))"

subsection \<open>Events for the guest\<close>

definition queue_event ::
  "bool \<Rightarrow> u8 \<Rightarrow> ia32eInterruptType \<Rightarrow> bool \<Rightarrow> u64 \<Rightarrow> ia32eVtxVectoredEvent \<Rightarrow> ia32eVtxVectoredEvent" where
  "queue_event advance vector ty deliver err e =
    (let e = e\<lparr>evValid := True\<rparr>
     in if advance then e\<lparr>evAdvance := True\<rparr>
        else e\<lparr>evVector := vector, evType := ty, evDeliverErrcode := deliver, evErrcode := err\<rparr>)"

definition ia32eEmulatorQueueEvent ::
  "addr \<Rightarrow> bool \<Rightarrow> u8 \<Rightarrow> ia32eInterruptType \<Rightarrow> bool \<Rightarrow> u64 \<Rightarrow> bool \<Rightarrow> 'p vmstate \<Rightarrow> 'p vmstate" where
  "ia32eEmulatorQueueEvent t advance vector ty deliver err plugin =
    upd_vtx t (\<lambda>c. if plugin then c\<lparr>pluginEvent := queue_event advance vector ty deliver err (pluginEvent c)\<rparr>
                   else c\<lparr>syntheticEvent := queue_event advance vector ty deliver err (syntheticEvent c)\<rparr>)"

definition ia32eEmulatorQueueUd :: "addr \<Rightarrow> 'p vmstate \<Rightarrow> 'p vmstate" where
  "ia32eEmulatorQueueUd t =
    ia32eEmulatorQueueEvent t False IA32E_INVALID_OPCODE IA32E_INTERRUPT_TYPE_HARDWARE_EXCEPTION False 0 False"

definition ia32eEmulatorQueueGp0 :: "addr \<Rightarrow> 'p vmstate \<Rightarrow> 'p vmstate" where
  "ia32eEmulatorQueueGp0 t =
    ia32eEmulatorQueueEvent t False IA32E_GENERAL_PROTECTION_FAULT IA32E_INTERRUPT_TYPE_HARDWARE_EXCEPTION True 0 False"

definition ia32eEmulatorQueueAdvance :: "addr \<Rightarrow> 'p vmstate \<Rightarrow> 'p vmstate" where
  "ia32eEmulatorQueueAdvance t = ia32eEmulatorQueueEvent t True 0 IA32E_INTERRUPT_TYPE_OTHER_EVENT False 0 False"

text \<open>The entry for plugins: they may queue one event.\<close>

definition ia32eEmulatorCallbackQueueEventSynthetic ::
  "addr \<Rightarrow> bool \<Rightarrow> u8 \<Rightarrow> ia32eInterruptType \<Rightarrow> bool \<Rightarrow> u64 \<Rightarrow> 'p vmstate \<Rightarrow> bool \<times> 'p vmstate" where
  "ia32eEmulatorCallbackQueueEventSynthetic t advance vector ty deliver err s =
    (if evValid (pluginEvent (vtx s t)) then (False, s)
     else if \<not> advance \<and> ty = IA32E_INTERRUPT_TYPE_EXTERNAL \<and> vector \<le> 15
     then (True, if apic_enabled (apic s t)
                 then upd_apic t (\<lambda>a. a\<lparr>receiverEsr := receiverEsr a OR IA32E_XAPIC_ESR_RECV_ILLEGAL_MASK\<rparr>) s else s)
     else (True, ia32eEmulatorQueueEvent t advance vector ty deliver err True s))"

definition event_info :: "u8 \<Rightarrow> ia32eInterruptType \<Rightarrow> bool \<Rightarrow> u32" where
  "event_info vector ty deliver =
    ucast vector OR push_bit 8 (interrupt_type_number ty) OR (if deliver then push_bit 11 1 else 0) OR push_bit 31 1"

definition ia32eEmulatorInjectEvent ::
  "'p vtxEnv \<Rightarrow> addr \<Rightarrow> u8 \<Rightarrow> ia32eInterruptType \<Rightarrow> bool \<Rightarrow> u64 \<Rightarrow> bool \<Rightarrow> u64 \<Rightarrow> 'p vmstate \<Rightarrow> 'p vmstate" where
  "ia32eEmulatorInjectEvent V t vector ty deliver err deliverLength len s =
    (let s = ia32eVmwriteSafe V t CTRL_VMENTRY_INTERRUPT_INFO (ucast (event_info vector ty deliver)) s;
         s = (if deliver then ia32eVmwriteSafe V t CTRL_VMENTRY_INTERRUPT_ERROR_CODE err s else s)
     in if deliverLength then ia32eVmwriteSafe V t CTRL_VMENTRY_INSTRUCTION_LENGTH len s else s)"

definition ia32eEmulatorAdvance :: "'p vtxEnv \<Rightarrow> addr \<Rightarrow> bool \<Rightarrow> 'p vmstate \<Rightarrow> bool \<times> 'p vmstate" where
  "ia32eEmulatorAdvance V t checkTf s =
    (let guestFlags = ia32eVmread t GUEST_RFLAGS s;
         state = ucast (ia32eVmread t GUEST_INTERRUPTIBILITY_STATE s) :: u32
     in case ia32eEmulatorModeApplyIpMask t
               (ia32eVmread t GUEST_RIP s + ia32eVmread t RO_VMEXIT_INSTRUCTION_LENGTH s) s of
          (ip, s) \<Rightarrow>
            let s = ia32eVmwriteSafe V t GUEST_RIP ip s;
                s = (if state AND STI_MASK \<noteq> 0 \<or> state AND MOV_SS_MASK \<noteq> 0
                     then ia32eVmwriteSafe V t GUEST_INTERRUPTIBILITY_STATE
                            (ucast (state AND NOT STI_MASK AND NOT MOV_SS_MASK)) s
                     else s)
            in if checkTf \<and> guestFlags AND IA32E_FLAGS_TF_MASK \<noteq> 0
               then (False, ia32eEmulatorInjectEvent V t IA32E_DEBUG_EXCEPTION IA32E_INTERRUPT_TYPE_HARDWARE_EXCEPTION
                              False 0 False 0 (upd_regs t (\<lambda>r. r\<lparr>dr6 := dr6 r OR 0x4000\<rparr>) s))
               else (True, s))"

definition ia32eEmulatorUnsetNmiBlocking :: "'p vtxEnv \<Rightarrow> addr \<Rightarrow> 'p vmstate \<Rightarrow> 'p vmstate" where
  "ia32eEmulatorUnsetNmiBlocking V t s =
    ia32eVmwriteSafe V t GUEST_INTERRUPTIBILITY_STATE
      (ucast ((ucast (ia32eVmread t GUEST_INTERRUPTIBILITY_STATE s) :: u32) AND NOT NMI_MASK)) s"

text \<open>The interrupt that ended the guest is handed to the handler of the host.\<close>

definition ia32eEmulatorSelfIpi :: "u8 \<Rightarrow> 'p vmstate \<Rightarrow> 'p vmstate" where
  "ia32eEmulatorSelfIpi vector s = vemit (EvFakeIsr vector) (vassert (\<not> hostIf s) s)"

text \<open>The fields of the description of an event by the processor.\<close>

definition info_valid :: "u32 \<Rightarrow> bool" where "info_valid i \<longleftrightarrow> i AND 0x80000000 \<noteq> 0"
definition info_vector :: "u32 \<Rightarrow> u8" where "info_vector i = ucast (i AND 0xff)"
definition info_type :: "u32 \<Rightarrow> ia32eInterruptType" where "info_type i = interrupt_type (drop_bit 8 (i AND 0x700))"
definition info_errcode :: "u32 \<Rightarrow> bool" where "info_errcode i \<longleftrightarrow> i AND 0x800 \<noteq> 0"
definition info_nmi_unblocking :: "u32 \<Rightarrow> bool" where "info_nmi_unblocking i \<longleftrightarrow> i AND 0x1000 \<noteq> 0"

text \<open>The delivery of an event to the guest that did not complete is repeated.\<close>

definition ia32eEmulatorCatchLostEvent :: "addr \<Rightarrow> 'p vmstate \<Rightarrow> 'p vmstate" where
  "ia32eEmulatorCatchLostEvent t s =
    (let info = ucast (ia32eVmread t RO_IDT_VECTORING_INFO_FIELD s) :: u32;
         err = (if info_errcode info then ia32eVmread t RO_IDT_VECTORING_ERROR_CODE s else 0)
     in if \<not> info_valid info then s
        else upd_vtx t (\<lambda>c. c\<lparr>lostEvent := (lostEvent c)\<lparr>evValid := True, evVector := info_vector info,
               evType := info_type info, evDeliverErrcode := info_errcode info, evErrcode := err\<rparr>\<rparr>) s)"

definition ia32eEmulatorAccessDenied :: "'p vtxEnv \<Rightarrow> addr \<Rightarrow> 'p vmstate \<Rightarrow> 'p vmstate" where
  "ia32eEmulatorAccessDenied V t s =
    (if VTX_ACCESS_DENIED_GP0 V then ia32eEmulatorQueueGp0 t s else ia32eEmulatorHandleVcpuFailure V t s)"

subsection \<open>Registers\<close>

text \<open>The general purpose registers by their numbers; the stack pointer is in the VMCS.\<close>

definition ia32eEmulatorReadGpr :: "addr \<Rightarrow> nat \<Rightarrow> 'p vmstate \<Rightarrow> u64 \<times> 'p vmstate" where
  "ia32eEmulatorReadGpr t n s =
    (let r = regs (vregs s t)
     in if n = 0 then (rax r, s) else if n = 1 then (rcx r, s) else if n = 2 then (rdx r, s) else if n = 3 then (rbx r, s)
        else if n = 4 then (ia32eVmread t GUEST_RSP s, s) else if n = 5 then (rbp r, s) else if n = 6 then (rsi r, s)
        else if n = 7 then (rdi r, s) else if n = 8 then (r8 r, s) else if n = 9 then (r9 r, s) else if n = 10 then (r10 r, s)
        else if n = 11 then (r11 r, s) else if n = 12 then (r12 r, s) else if n = 13 then (r13 r, s)
        else if n = 14 then (r14 r, s) else if n = 15 then (r15 r, s) else (0, vassert False s))"

definition ia32eEmulatorWriteGpr :: "'p vtxEnv \<Rightarrow> addr \<Rightarrow> nat \<Rightarrow> u64 \<Rightarrow> 'p vmstate \<Rightarrow> 'p vmstate" where
  "ia32eEmulatorWriteGpr V t n v s =
    (if n = 0 then upd_gprs t (\<lambda>r. r\<lparr>rax := v\<rparr>) s else if n = 1 then upd_gprs t (\<lambda>r. r\<lparr>rcx := v\<rparr>) s
     else if n = 2 then upd_gprs t (\<lambda>r. r\<lparr>rdx := v\<rparr>) s else if n = 3 then upd_gprs t (\<lambda>r. r\<lparr>rbx := v\<rparr>) s
     else if n = 4 then ia32eVmwriteSafe V t GUEST_RSP v s else if n = 5 then upd_gprs t (\<lambda>r. r\<lparr>rbp := v\<rparr>) s
     else if n = 6 then upd_gprs t (\<lambda>r. r\<lparr>rsi := v\<rparr>) s else if n = 7 then upd_gprs t (\<lambda>r. r\<lparr>rdi := v\<rparr>) s
     else if n = 8 then upd_gprs t (\<lambda>r. r\<lparr>r8 := v\<rparr>) s else if n = 9 then upd_gprs t (\<lambda>r. r\<lparr>r9 := v\<rparr>) s
     else if n = 10 then upd_gprs t (\<lambda>r. r\<lparr>r10 := v\<rparr>) s else if n = 11 then upd_gprs t (\<lambda>r. r\<lparr>r11 := v\<rparr>) s
     else if n = 12 then upd_gprs t (\<lambda>r. r\<lparr>r12 := v\<rparr>) s else if n = 13 then upd_gprs t (\<lambda>r. r\<lparr>r13 := v\<rparr>) s
     else if n = 14 then upd_gprs t (\<lambda>r. r\<lparr>r14 := v\<rparr>) s else if n = 15 then upd_gprs t (\<lambda>r. r\<lparr>r15 := v\<rparr>) s
     else vassert False s)"

definition ia32eEmulatorValidateCr0 :: "addr \<Rightarrow> u64 \<Rightarrow> 'p vmstate \<Rightarrow> bool" where
  "ia32eEmulatorValidateCr0 t cr0 s =
    (let mode = ia32eEmulatorRunningTaskMode t s;
         pcide = ia32eVmread t GUEST_CR4 s AND IA32E_CR4_PCIDE_MASK \<noteq> 0;
         oldPg = ia32eVmread t GUEST_CR0 s AND IA32E_CR0_PG_MASK \<noteq> 0;
         pg = cr0 AND IA32E_CR0_PG_MASK \<noteq> 0; pe = cr0 AND IA32E_CR0_PE_MASK \<noteq> 0;
         nw = cr0 AND IA32E_CR0_NW_MASK \<noteq> 0; cd = cr0 AND IA32E_CR0_CD_MASK \<noteq> 0
     in mode \<noteq> IA32E_EMULATOR_V8086 \<and> drop_bit 32 cr0 = 0 \<and> cr0 AND IA32E_CR0_INVAL_MASK = 0
        \<and> (\<not> pg \<or> pe) \<and> (\<not> oldPg \<or> pe) \<and> (\<not> nw \<or> cd)
        \<and> (mode \<noteq> IA32E_EMULATOR_64 \<or> (pg \<and> pe)) \<and> (\<not> pcide \<or> pg))"

text \<open>The mask that takes the number of the register out of the qualification has two bits.\<close>

abbreviation CR_ACCESS_QUAL_GPR_MASK :: u32 where "CR_ACCESS_QUAL_GPR_MASK \<equiv> 0x300"

definition qual_gpr :: "u32 \<Rightarrow> nat" where
  "qual_gpr qual = unat (drop_bit 8 (qual AND CR_ACCESS_QUAL_GPR_MASK))"

definition ia32eEmulatorCrAccess :: "'p vtxEnv \<Rightarrow> addr \<Rightarrow> 'p vmstate \<Rightarrow> 'p vmstate" where
  "ia32eEmulatorCrAccess V t s =
    (let qual = ucast (ia32eVmread t RO_EXIT_QUALIFICATION s) :: u32;
         cr = qual AND 0xf; ty = drop_bit 4 (qual AND 0x30); gpr = qual_gpr qual;
         r = (if ty = 0
              then (if cr = 0
                    then (case ia32eEmulatorReadGpr t gpr s of
                            (val, s) \<Rightarrow>
                              let val = val AND NOT (IA32E_CR0_NW_MASK OR IA32E_CR0_CD_MASK) OR IA32E_CR0_NE_MASK
                              in if ia32eEmulatorValidateCr0 t val s then (True, ia32eVmwriteSafe V t GUEST_CR0 val s)
                                 else (False, s))
                    else if cr = 4 then (False, s)
                    else if cr = 8
                    then (case ia32eEmulatorReadGpr t gpr s of
                            (val, s) \<Rightarrow> if val \<le> 15 then (True, ia32eEmulatorX2apicSetTpr t (ucast val) s) else (False, s))
                    else (True, vassert False s))
              else if ty = 1
              then (case ia32eEmulatorX2apicGetTpr t (vassert (cr = 8) s) of
                      (val, s) \<Rightarrow> (True, ia32eEmulatorWriteGpr V t gpr (ucast val) s))
              else (True, vassert False s))
     in if \<not> fst r then ia32eEmulatorQueueGp0 t (snd r) else ia32eEmulatorQueueAdvance t (snd r))"

subsection \<open>Exceptions and interrupts of the host\<close>

definition ia32eEmulatorException :: "'p vtxEnv \<Rightarrow> addr \<Rightarrow> 'p vmstate \<Rightarrow> 'p vmstate" where
  "ia32eEmulatorException V t s =
    (let info = ucast (ia32eVmread t RO_VMEXIT_INTERRUPT_INFO s) :: u32;
         s = vassert (info_valid info) s;
         vector = info_vector info; ty = info_type info;
         s = (if info_nmi_unblocking info then ia32eEmulatorUnsetNmiBlocking V t s else s)
     in if ty = IA32E_INTERRUPT_TYPE_NMI
        then set_if True (ia32eEmulatorSelfIpi vector (vassert (vector = IA32E_NMI) s))
        else
          let s = set_if True s;
              s = vassert (vector = IA32E_DEBUG_EXCEPTION \<or> vector = IA32E_ALIGNMENT_CHECK) s;
              deliver = info_errcode info;
              err = (if deliver then ia32eVmread t RO_VMEXIT_INTERRUPT_ERROR_CODE s else 0);
              qual = ia32eVmread t RO_EXIT_QUALIFICATION s;
              s = (if vector = IA32E_DEBUG_EXCEPTION
                   then upd_regs t (\<lambda>r.
                          let d = (dr6 r OR (qual AND 0x600f)) AND NOT (qual AND 0x800)
                          in r\<lparr>dr6 := if qual AND 0x10000 \<noteq> 0 then d AND NOT 0x10000 else d OR 0x10000\<rparr>) s
                   else s)
          in ia32eEmulatorQueueEvent t False vector ty deliver err False s)"

definition ia32eEmulatorExtIntr :: "'p vtxEnv \<Rightarrow> addr \<Rightarrow> 'p vmstate \<Rightarrow> 'p vmstate" where
  "ia32eEmulatorExtIntr V t s =
    (let info = ucast (ia32eVmread t RO_VMEXIT_INTERRUPT_INFO s) :: u32;
         s = vassert (info_valid info) s;
         s = (if info_nmi_unblocking info then ia32eEmulatorUnsetNmiBlocking V t s else s)
     in set_if True (ia32eEmulatorSelfIpi (info_vector info) s))"

subsection \<open>The timer of the guest\<close>

definition ia32eEmulatorVmxPreempt :: "'p vtxEnv \<Rightarrow> addr \<Rightarrow> 'p vmstate \<Rightarrow> 'p vmstate" where
  "ia32eEmulatorVmxPreempt V t s =
    (let lvt = lvtTImer (apic s t); count = initCount (apic s t); d = ucast (dcr (apic s t)) :: u32;
         s = vassert (apic_enabled (apic s t)) s;
         s = vassert (count > 0) s;
         vector = ucast (lvt AND 0xff) :: u8;
         s = (if lvt AND IA32E_XAPIC_LVT_ENTRY_DISABLE_MASK = 0
              then (if vector \<le> 15
                    then upd_apic t (\<lambda>a. a\<lparr>receiverEsr := receiverEsr a OR IA32E_XAPIC_ESR_RECV_ILLEGAL_MASK\<rparr>) s
                    else ia32eEmulatorQueueEvent t False vector IA32E_INTERRUPT_TYPE_EXTERNAL False 0 False s)
              else s);
         s = vassert (timer_running t s) s;
         s = vassert (ia32eVmread t GUEST_VMX_PREEMPTION_TIMER_VALUE s = 0) s
     in if lvt AND 0x20000 \<noteq> 0
        then (case ia32eEmulatorX2apicCompressCounter count d s of
                (count, s) \<Rightarrow> ia32eVmwriteSafe V t GUEST_VMX_PREEMPTION_TIMER_VALUE (ucast count) s)
        else timer_off V t s)"

subsection \<open>Calls, ports and memory\<close>

definition call_kernel :: "'p vtxEnv \<Rightarrow> addr \<Rightarrow> 'p vmstate \<Rightarrow> 'p vmstate" where
  "call_kernel V t = run (\<lambda>s.
     if rax (regs (vregs s t)) \<noteq> WORKHORSE_SYS_INVOCATION_CTRL
     then (case ia32eSyscallHandler (kernelEnv V) (getCpuIdCfg V) (regs (vregs s t)) (kern s) of
             (r, k) \<Rightarrow> upd_gprs t (\<lambda>_. r) (s\<lparr>kern := k\<rparr>))
     else upd_gprs t (\<lambda>r. r\<lparr>rax := neg_errno EINVAL\<rparr>) s)"

definition ia32eEmulatorVmcall :: "'p vtxEnv \<Rightarrow> addr \<Rightarrow> 'p vmstate \<Rightarrow> 'p vmstate" where
  "ia32eEmulatorVmcall V t s =
    (if \<not> ia32eEmulatorCpl0 t s then ia32eEmulatorQueueGp0 t s
     else
       let s = ia32eEmulatorQueueAdvance t s; mode = ia32eEmulatorRunningTaskMode t s
       in if mode = IA32E_EMULATOR_64 then call_kernel V t s
          else
            let s = vassert (mode = IA32E_EMULATOR_16 \<or> mode = IA32E_EMULATOR_32) s;
                s = upd_gprs t (\<lambda>r. r\<lparr>rax := rax r AND 0xffffffff, rdi := rdi r AND 0xffffffff, rsi := rsi r AND 0xffffffff\<rparr>) s
            in upd_gprs t (\<lambda>r. r\<lparr>rax := rax r AND 0xffffffff\<rparr>) (call_kernel V t s))"

text \<open>A callback of a plugin, which runs only while the virtual CPU does.\<close>

definition ask_plugin :: "'p emulatorCallback \<Rightarrow> addr \<Rightarrow> 'p vmstate \<Rightarrow> bool \<times> 'p vmstate" where
  "ask_plugin cb t s = (case cb of None \<Rightarrow> (False, s) | Some f \<Rightarrow> if stopped s then (False, s) else f t s)"

definition ia32eEmulatorInOut :: "'p vtxEnv \<Rightarrow> addr \<Rightarrow> 'p vmstate \<Rightarrow> 'p vmstate" where
  "ia32eEmulatorInOut V t s =
    (case ask_plugin (ia32eEmulatorInOutCallbackFn (emulatorCallbacks V t)) t s of
       (ok, s) \<Rightarrow> if ok then s else ia32eEmulatorAccessDenied V t s)"

definition ia32eEmulatorEptFault :: "'p vtxEnv \<Rightarrow> addr \<Rightarrow> 'p vmstate \<Rightarrow> 'p vmstate" where
  "ia32eEmulatorEptFault V t s =
    (case ask_plugin (ia32eEmulatorEptFaultCallbackFn (emulatorCallbacks V t)) t s of
       (ok, s) \<Rightarrow> if ok then s else ia32eEmulatorAccessDenied V t s)"

definition ia32eEmulatorEptMisconfig :: "'p vtxEnv \<Rightarrow> addr \<Rightarrow> 'p vmstate \<Rightarrow> 'p vmstate" where
  "ia32eEmulatorEptMisconfig V t s =
    (case ask_plugin (ia32eEmulatorEptMisconfigCallbackFn (emulatorCallbacks V t)) t s of
       (ok, s) \<Rightarrow> if ok then s else ia32eEmulatorHandleVcpuFailure V t s)"

end
