(* ===== verification/EmulatorMsr.thy ===== *)
theory EmulatorMsr
  imports Emulator
begin

text \<open>
  The model specific registers and \<open>cpuid\<close> of a virtual CPU (\<open>ia32eEmulatorRdmsr\<close>,
  \<open>ia32eEmulatorWrmsr\<close> and \<open>ia32eEmulatorCpuid\<close> of \<^verbatim>\<open>ia32eEmulator.c\<close>). A register that the emulator
  does not know is left to the plugin; one that nobody handles, or a value that is not allowed, is a general
  protection fault for the guest.
\<close>

abbreviation IA32E_TSC :: u32 where "IA32E_TSC \<equiv> 0x10"
abbreviation IA32E_PLATFORM_ID :: u32 where "IA32E_PLATFORM_ID \<equiv> 0x17"
abbreviation IA32E_APIC_BASE :: u32 where "IA32E_APIC_BASE \<equiv> 0x1b"
abbreviation IA32E_BIOS_UPDT_TRIG :: u32 where "IA32E_BIOS_UPDT_TRIG \<equiv> 0x79"
abbreviation IA32E_BIOS_SIGN_ID :: u32 where "IA32E_BIOS_SIGN_ID \<equiv> 0x8b"
abbreviation IA32E_XAPIC_DISABLE_STATUS :: u32 where "IA32E_XAPIC_DISABLE_STATUS \<equiv> 0xbd"
abbreviation IA32E_ARCH_CAP :: u32 where "IA32E_ARCH_CAP \<equiv> 0x10a"
abbreviation IA32E_BIOS_DONE :: u32 where "IA32E_BIOS_DONE \<equiv> 0x151"
abbreviation IA32E_X2APIC_ID :: u32 where "IA32E_X2APIC_ID \<equiv> 0x802"
abbreviation IA32E_X2APIC_VERSION :: u32 where "IA32E_X2APIC_VERSION \<equiv> 0x803"
abbreviation IA32E_X2APIC_TPR :: u32 where "IA32E_X2APIC_TPR \<equiv> 0x808"
abbreviation IA32E_X2APIC_PPR :: u32 where "IA32E_X2APIC_PPR \<equiv> 0x80a"
abbreviation IA32E_X2APIC_EOI :: u32 where "IA32E_X2APIC_EOI \<equiv> 0x80b"
abbreviation IA32E_X2APIC_LDR :: u32 where "IA32E_X2APIC_LDR \<equiv> 0x80d"
abbreviation IA32E_X2APIC_SIVR :: u32 where "IA32E_X2APIC_SIVR \<equiv> 0x80f"
abbreviation IA32E_X2APIC_ISR0 :: u32 where "IA32E_X2APIC_ISR0 \<equiv> 0x810"
abbreviation IA32E_X2APIC_TMR0 :: u32 where "IA32E_X2APIC_TMR0 \<equiv> 0x818"
abbreviation IA32E_X2APIC_IRR0 :: u32 where "IA32E_X2APIC_IRR0 \<equiv> 0x820"
abbreviation IA32E_X2APIC_ESR :: u32 where "IA32E_X2APIC_ESR \<equiv> 0x828"
abbreviation IA32E_X2APIC_ICR :: u32 where "IA32E_X2APIC_ICR \<equiv> 0x830"
abbreviation IA32E_X2APIC_LVT_TIMER :: u32 where "IA32E_X2APIC_LVT_TIMER \<equiv> 0x832"
abbreviation IA32E_X2APIC_LVT_TSR :: u32 where "IA32E_X2APIC_LVT_TSR \<equiv> 0x833"
abbreviation IA32E_X2APIC_LVT_PMCR :: u32 where "IA32E_X2APIC_LVT_PMCR \<equiv> 0x834"
abbreviation IA32E_X2APIC_LVT_LINT0 :: u32 where "IA32E_X2APIC_LVT_LINT0 \<equiv> 0x835"
abbreviation IA32E_X2APIC_LVT_LINT1 :: u32 where "IA32E_X2APIC_LVT_LINT1 \<equiv> 0x836"
abbreviation IA32E_X2APIC_LVT_ERROR :: u32 where "IA32E_X2APIC_LVT_ERROR \<equiv> 0x837"
abbreviation IA32E_X2APIC_TIMER_INIT_COUNT :: u32 where "IA32E_X2APIC_TIMER_INIT_COUNT \<equiv> 0x838"
abbreviation IA32E_X2APIC_TIMER_CUR_COUNT :: u32 where "IA32E_X2APIC_TIMER_CUR_COUNT \<equiv> 0x839"
abbreviation IA32E_X2APIC_DIV_CONF :: u32 where "IA32E_X2APIC_DIV_CONF \<equiv> 0x83e"
abbreviation IA32E_X2APIC_SELF_IPI :: u32 where "IA32E_X2APIC_SELF_IPI \<equiv> 0x83f"
abbreviation IA32E_EMULATOR_SHUTDOWN :: u32 where "IA32E_EMULATOR_SHUTDOWN \<equiv> 0x40000000"
abbreviation IA32E_EMULATOR_IPI :: u32 where "IA32E_EMULATOR_IPI \<equiv> 0x40000001"

abbreviation LVT_TIMER_WRITE_RESERVED_MASK :: u64 where "LVT_TIMER_WRITE_RESERVED_MASK \<equiv> 0xfffffffffffcff00"
abbreviation LVT_TSR_WRITE_RESERVED_MASK :: u64 where "LVT_TSR_WRITE_RESERVED_MASK \<equiv> 0xffffffffffffec00"
abbreviation LVT_PMCR_WRITE_RESERVED_MASK :: u64 where "LVT_PMCR_WRITE_RESERVED_MASK \<equiv> 0xffffffffffffeb00"
abbreviation LVT_LINT_WRITE_RESERVED_MASK :: u64 where "LVT_LINT_WRITE_RESERVED_MASK \<equiv> 0xffffffffffff5800"
abbreviation LVT_ERROR_WRITE_RESERVED_MASK :: u64 where "LVT_ERROR_WRITE_RESERVED_MASK \<equiv> 0xfffffffffffeff00"

subsection \<open>Reading\<close>

text \<open>\<open>None\<close> is the default case of the \<open>switch\<close>.\<close>

definition rdmsr_value :: "'p vtxEnv \<Rightarrow> addr \<Rightarrow> u32 \<Rightarrow> 'p vmstate \<Rightarrow> u64 option \<times> 'p vmstate" where
  "rdmsr_value V t ecx s =
    (let a = apic s t; vcpu = ucast (vcpuId (vtxInfo s t)) :: u64
     in if ecx = IA32E_TSC \<and> \<not> VTX_TSD V then (Some (ia32eRdtsc V + ia32eVmread t CTRL_TSC_OFFSET s), s)
        else if ecx = IA32E_PLATFORM_ID then (Some (ia32eRdmsr V IA32E_PLATFORM_ID), s)
        else if ecx = IA32E_BIOS_SIGN_ID then (Some (signId (vtx s t)), s)
        else if ecx = IA32E_APIC_BASE
        then (Some (apicBaseAddr a OR 0x400 OR 0x800 OR (if apicBaseBsp a then 0x100 else 0)), s)
        else if ecx = IA32E_X2APIC_ID then (Some vcpu, s)
        else if ecx = IA32E_X2APIC_VERSION then (Some (0x15 OR push_bit 16 5), s)
        else if ecx = IA32E_X2APIC_TPR
        then (case ia32eEmulatorX2apicGetTpr t s of (p, s) \<Rightarrow> (Some (push_bit 4 (ucast p) OR ucast (tprSubclass a)), s))
        else if ecx = IA32E_X2APIC_PPR
        then (case ia32eEmulatorX2apicGetPpr t s of (p, s) \<Rightarrow> (Some (push_bit 4 (ucast p)), s))
        else if ecx = IA32E_X2APIC_LDR
        then (Some (push_bit 16 (vcpu div 16) OR push_bit (unat (vcpu mod 16)) 1), s)
        else if ecx = IA32E_X2APIC_SIVR then (Some (ucast (sivr a)), s)
        else if ecx \<ge> IA32E_X2APIC_ISR0 \<and> ecx < IA32E_X2APIC_ISR0 + 8
        then (Some (ucast (isr a (unat (ecx - IA32E_X2APIC_ISR0)))), s)
        else if ecx \<ge> IA32E_X2APIC_TMR0 \<and> ecx < IA32E_X2APIC_TMR0 + 8
        then (case ia32eEmulatorX2apicReadTmrCallbackFn (emulatorCallbacks V t) of
                None \<Rightarrow> (Some 0, s) | Some f \<Rightarrow> (Some (ucast (f (ucast (ecx - IA32E_X2APIC_TMR0)))), s))
        else if ecx \<ge> IA32E_X2APIC_IRR0 \<and> ecx < IA32E_X2APIC_IRR0 + 8
        then (let s = ia32eEmulatorX2apicCheckLatchedIrr V t s
              in (Some (ucast (irr (apic s t) (unat (ecx - IA32E_X2APIC_IRR0)))), s))
        else if ecx = IA32E_X2APIC_ESR then (Some (ucast (esr a)), s)
        else if ecx = IA32E_X2APIC_ICR then (Some (icr a), s)
        else if ecx = IA32E_X2APIC_LVT_TIMER then (Some (ucast (lvtTImer a)), s)
        else if ecx = IA32E_X2APIC_LVT_TSR then (Some (ucast (lvtTsr a)), s)
        else if ecx = IA32E_X2APIC_LVT_PMCR then (Some (ucast (lvtPmcr a)), s)
        else if ecx = IA32E_X2APIC_LVT_LINT0 then (Some (ucast (lvtLint0 a)), s)
        else if ecx = IA32E_X2APIC_LVT_LINT1 then (Some (ucast (lvtLint1 a)), s)
        else if ecx = IA32E_X2APIC_LVT_ERROR then (Some (ucast (lvtError a)), s)
        else if ecx = IA32E_X2APIC_TIMER_INIT_COUNT then (Some (ucast (initCount a)), s)
        else if ecx = IA32E_X2APIC_TIMER_CUR_COUNT
        then (case ia32eEmulatorX2apicReadCounter t s of (c, s) \<Rightarrow> (Some (ucast c), s))
        else if ecx = IA32E_X2APIC_DIV_CONF then (Some (ucast (dcr a)), s)
        else if ecx = IA32E_ARCH_CAP then (Some 0x200000, s)
        else if ecx = IA32E_XAPIC_DISABLE_STATUS then (Some 1, s)
        else if ecx = IA32E_BIOS_DONE then (Some 3, s)
        else (None, s))"

definition ia32eEmulatorRdmsr :: "'p vtxEnv \<Rightarrow> addr \<Rightarrow> 'p vmstate \<Rightarrow> 'p vmstate" where
  "ia32eEmulatorRdmsr V t s =
    (let s = vassert (hostIf s) s
     in case rdmsr_value V t (ucast (rcx (regs (vregs s t)))) s of
          (Some val, s) \<Rightarrow>
            ia32eEmulatorQueueAdvance t
              (upd_gprs t (\<lambda>r. r\<lparr>rax := val AND 0xffffffff, rdx := drop_bit 32 val\<rparr>) s)
        | (None, s) \<Rightarrow>
            (case ask_plugin (ia32eEmulatorRdmsrCallbackFn (emulatorCallbacks V t)) t s of
               (handled, s) \<Rightarrow> if handled then s else ia32eEmulatorQueueGp0 t s))"

subsection \<open>Writing\<close>

text \<open>The delivery modes that a local interrupt may have.\<close>

definition lint_mode_ok :: "u64 \<Rightarrow> bool" where
  "lint_mode_ok val \<longleftrightarrow> drop_bit 8 val AND 7 \<in> {0, 4, 7}"

text \<open>The answer is whether the value was allowed; \<open>None\<close> is the default case of the \<open>switch\<close>.\<close>

definition wrmsr_effect :: "'p vtxEnv \<Rightarrow> addr \<Rightarrow> u32 \<Rightarrow> u64 \<Rightarrow> 'p vmstate \<Rightarrow> bool option \<times> 'p vmstate" where
  "wrmsr_effect V t ecx val s =
    (if ecx = IA32E_TSC \<and> \<not> VTX_TSD V
     then (let now = ia32eRdtsc V + ia32eVmread t CTRL_TSC_OFFSET s
           in (Some True, ia32eVmwriteSafe V t CTRL_TSC_OFFSET (val - now) s))
     else if ecx = IA32E_BIOS_UPDT_TRIG then (Some True, s)
     else if ecx = IA32E_BIOS_SIGN_ID
     then (if val AND 0xffffffff = 0 then (Some True, upd_vtx t (\<lambda>c. c\<lparr>signId := val\<rparr>) s) else (Some False, s))
     else if ecx = IA32E_APIC_BASE
     then (if val AND (push_bit 48 0xffff OR 0xff OR 0x200) \<noteq> 0 \<or> NOT val AND 0xc00 \<noteq> 0 then (Some False, s)
           else (Some True, upd_apic t (\<lambda>a. a\<lparr>apicBaseBsp := (val AND 0x100 \<noteq> 0), apicBaseAddr := val AND NOT 0xfff\<rparr>) s))
     else if ecx = IA32E_X2APIC_TPR
     then (if val AND NOT 0xff \<noteq> 0 then (Some False, s)
           else (Some True, upd_apic t (\<lambda>a. a\<lparr>tprSubclass := ucast (val AND 0xf)\<rparr>)
                              (ia32eEmulatorX2apicSetTpr t (ucast (drop_bit 4 val)) s)))
     else if ecx = IA32E_X2APIC_EOI
     then (if val \<noteq> 0 then (Some False, s)
           else (Some True, if apic_enabled (apic s t) then ia32eEmulatorX2apicUnsetIsrv V t s else s))
     else if ecx = IA32E_X2APIC_SIVR
     then (if val AND NOT 0x1ff \<noteq> 0 then (Some False, s)
           else
             let s = vassert (hostIf s) s;
                 s = with_latch (upd_apic t (\<lambda>a. a\<lparr>sivr := ucast val\<rparr>)) s
             in (Some True, if val AND 0x100 \<noteq> 0 then s else if timer_running t s then timer_off V t s else s))
     else if ecx = IA32E_X2APIC_ESR
     then (if val \<noteq> 0 then (Some False, s)
           else (Some True, if apic_enabled (apic s t) then upd_apic t (\<lambda>a. a\<lparr>esr := pendingEsr a, pendingEsr := 0\<rparr>) s else s))
     else if ecx = IA32E_X2APIC_ICR
     then (case ia32eEmulatorX2apicHandleIcrWrite t val s of (ok, s) \<Rightarrow> (Some ok, s))
     else if ecx = IA32E_X2APIC_LVT_TIMER
     then (if val AND LVT_TIMER_WRITE_RESERVED_MASK = 0 then (Some True, upd_apic t (\<lambda>a. a\<lparr>lvtTImer := ucast val\<rparr>) s)
           else (Some False, s))
     else if ecx = IA32E_X2APIC_LVT_TSR
     then (if val AND LVT_TSR_WRITE_RESERVED_MASK = 0 \<and> drop_bit 8 val AND 1 = 0
           then (Some True, upd_apic t (\<lambda>a. a\<lparr>lvtTsr := ucast val\<rparr>) s) else (Some False, s))
     else if ecx = IA32E_X2APIC_LVT_PMCR
     then (if val AND LVT_PMCR_WRITE_RESERVED_MASK = 0 then (Some True, upd_apic t (\<lambda>a. a\<lparr>lvtPmcr := ucast val\<rparr>) s)
           else (Some False, s))
     else if ecx = IA32E_X2APIC_LVT_LINT0
     then (if val AND LVT_LINT_WRITE_RESERVED_MASK = 0 \<and> lint_mode_ok val
           then (Some True, upd_apic t (\<lambda>a. a\<lparr>lvtLint0 := ucast val\<rparr>) s) else (Some False, s))
     else if ecx = IA32E_X2APIC_LVT_LINT1
     then (if val AND LVT_LINT_WRITE_RESERVED_MASK = 0 \<and> lint_mode_ok val
           then (Some True, upd_apic t (\<lambda>a. a\<lparr>lvtLint1 := ucast val\<rparr>) s) else (Some False, s))
     else if ecx = IA32E_X2APIC_LVT_ERROR
     then (if val AND LVT_ERROR_WRITE_RESERVED_MASK = 0 then (Some True, upd_apic t (\<lambda>a. a\<lparr>lvtError := ucast val\<rparr>) s)
           else (Some False, s))
     else if ecx = IA32E_X2APIC_TIMER_INIT_COUNT
     then (if val AND NOT 0xffffffff \<noteq> 0 then (Some False, s)
           else (Some True, ia32eEmulatorX2apicResetCounter V t (upd_apic t (\<lambda>a. a\<lparr>initCount := ucast val\<rparr>) s)))
     else if ecx = IA32E_X2APIC_DIV_CONF
     then (if val AND (NOT 0xf OR 4) = 0 then (Some True, ia32eEmulatorX2apicSetDcr V t (ucast val) s) else (Some False, s))
     else if ecx = IA32E_X2APIC_SELF_IPI
     then (if val AND NOT 0xff \<noteq> 0 then (Some False, s)
           else (Some True, ia32eEmulatorX2apicSendPacket t (vcpuId (vtxInfo s t)) (ucast val) IA32E_DM_NORMAL s))
     else if ecx = IA32E_EMULATOR_SHUTDOWN
     then (if val = 0 then (Some True, ia32eEmulatorHandleVcpuFailure V t s) else (Some False, s))
     else if ecx = IA32E_EMULATOR_IPI then (case ia32eEmulatorIpiRouter V t val s of (ok, s) \<Rightarrow> (Some ok, s))
     else (None, s))"

definition wrmsr_operand :: "addr \<Rightarrow> 'p vmstate \<Rightarrow> u64" where
  "wrmsr_operand t s =
    push_bit 32 (rdx (regs (vregs s t)) AND 0xffffffff) OR (rax (regs (vregs s t)) AND 0xffffffff)"

definition ia32eEmulatorWrmsr :: "'p vtxEnv \<Rightarrow> addr \<Rightarrow> 'p vmstate \<Rightarrow> 'p vmstate" where
  "ia32eEmulatorWrmsr V t s =
    (case wrmsr_effect V t (ucast (rcx (regs (vregs s t)))) (wrmsr_operand t s) s of
       (Some ok, s) \<Rightarrow> if ok then ia32eEmulatorQueueAdvance t s else ia32eEmulatorQueueGp0 t s
     | (None, s) \<Rightarrow>
         (case ask_plugin (ia32eEmulatorWrmsrCallbackFn (emulatorCallbacks V t)) t s of
            (handled, s) \<Rightarrow> if handled then s else ia32eEmulatorQueueGp0 t s))"

subsection \<open>\<open>cpuid\<close>\<close>

text \<open>A mask with the given bits, and the features that a guest may see.\<close>

definition bits_mask :: "nat list \<Rightarrow> u32" where
  "bits_mask bs = fold (\<lambda>b m. m OR push_bit b 1) bs 0"

definition CPUID1_C_TARGET_MASK :: u32 where
  "CPUID1_C_TARGET_MASK = bits_mask [0, 1, 9, 12, 13, 17, 19, 20, 22, 23, 25, 28, 29, 30]"
definition CPUID1_D_TARGET_MASK :: u32 where
  "CPUID1_D_TARGET_MASK = bits_mask [0, 1, 2, 3, 4, 5, 6, 8, 11, 13, 15, 16, 17, 19, 23, 24, 25, 26, 27]"
definition CPUID7_0_B_TARGET_MASK :: u32 where
  "CPUID7_0_B_TARGET_MASK = bits_mask [0, 3, 4, 6, 7, 8, 10, 13, 18, 19, 20, 22, 23, 24, 29]"
definition CPUID7_0_C_TARGET_MASK :: u32 where
  "CPUID7_0_C_TARGET_MASK = bits_mask [0, 2, 8, 9, 10, 11, 12, 14, 25, 27, 28]"
definition CPUID7_0_D_TARGET_MASK :: u32 where
  "CPUID7_0_D_TARGET_MASK = bits_mask [8, 14, 16]"
definition CPUID7_1_A_TARGET_MASK :: u32 where
  "CPUID7_1_A_TARGET_MASK = bits_mask [1, 2, 3, 4, 5, 7, 18, 19, 23, 30, 31]"
definition CPUID7_1_D_TARGET_MASK :: u32 where
  "CPUID7_1_D_TARGET_MASK = bits_mask [1, 2, 3, 4, 5, 10, 11, 14, 16, 19]"

type_synonym cpuidResult = "u64 \<times> u64 \<times> u64 \<times> u64"

definition hw_cpuid :: "'p vtxEnv \<Rightarrow> u32 \<Rightarrow> u32 \<Rightarrow> cpuidResult" where
  "hw_cpuid V eax ecx = (case ia32eCpuid V eax ecx of (a, b, c, d) \<Rightarrow> (ucast a, ucast b, ucast c, ucast d))"

text \<open>The leaves of the hypervisor and the extended leaves.\<close>

definition cpuid_hypervisor :: "'p vtxEnv \<Rightarrow> u32 \<Rightarrow> cpuidResult" where
  "cpuid_hypervisor V eax =
    (if eax = 0x40000000 then (0x40000002, 0x6b726f77, 0x73726f68, 0x78747665)
     else if eax = 0x40000002 then (0, 0, 0, (if VTX_ACCESS_DENIED_GP0 V then 1 else 0) OR 0x20)
     else (0, 0, 0, 0))"

definition cpuid_extended :: "'p vtxEnv \<Rightarrow> u32 \<Rightarrow> u32 \<Rightarrow> cpuidResult" where
  "cpuid_extended V eax ecx =
    (if eax = 0x80000000 then (ucast (min 0x80000008 (esigMax V)), 0, 0, 0)
     else if eax = 0x80000001
     then (0, 0,
           (if f_lahf64 (flags V) then 0x1 else 0) OR (if f_lzcnt (flags V) then 0x20 else 0)
             OR (if f_prefetchw (flags V) then 0x100 else 0),
           0x800 OR 0x20000000 OR (if f_nx (flags V) then 0x100000 else 0) OR (if f_pg1Gb (flags V) then 0x4000000 else 0))
     else if eax = 0x80000002 \<or> eax = 0x80000003 \<or> eax = 0x80000004 then hw_cpuid V eax ecx
     else if eax = 0x80000006 then (0, 0, ucast (f_l2LineSize (flags V)), 0)
     else if eax = 0x80000008
     then (48 OR push_bit 8 48 OR push_bit 16 48, (if f_wbnoinvd (flags V) then 0x200 else 0), 0, 0)
     else (0, 0, 0, 0))"

text \<open>
  The basic leaves. \<open>1 << 31\<close> is a negative \<open>int\<close>: the registers that receive it have all upper bits set.
\<close>

definition cpuid_features :: "'p vtxEnv \<Rightarrow> u32 \<Rightarrow> cpuidResult" where
  "cpuid_features V vcpu =
    (case ia32eCpuid V 1 0 of (a, b, c, d) \<Rightarrow>
       (ucast a,
        ucast ((b AND 0xffff) OR push_bit 24 vcpu OR push_bit 16 256),
        (ucast (c AND CPUID1_C_TARGET_MASK) OR 0x200000) OR 0xffffffff80000000,
        (let d = ucast (d AND CPUID1_D_TARGET_MASK) OR 0x200 in if VTX_TSD V then d AND NOT 0x10 else d)))"

definition cpuid_structured :: "'p vtxEnv \<Rightarrow> u32 \<Rightarrow> cpuidResult" where
  "cpuid_structured V ecx =
    (if ecx = 0
     then (case ia32eCpuid V 7 0 of (a, b, c, d) \<Rightarrow>
             (1, ucast (b AND CPUID7_0_B_TARGET_MASK), ucast (c AND CPUID7_0_C_TARGET_MASK),
              ucast (d AND CPUID7_0_D_TARGET_MASK) OR 0x20000000))
     else if ecx = 1
     then (if extFeaturesSubleafMax V < 1 then (0x40000000, 0, 0, 0)
           else case ia32eCpuid V 7 1 of (a, b, c, d) \<Rightarrow>
             (0x40000000 OR ucast (a AND CPUID7_1_A_TARGET_MASK), 0, 0, ucast (d AND CPUID7_1_D_TARGET_MASK)))
     else (0, 0, 0, 0))"

definition cpuid_topology :: "u32 \<Rightarrow> u8 \<Rightarrow> u32 \<Rightarrow> cpuidResult" where
  "cpuid_topology vcpu num ecx =
    (if ecx = 0 then (0, 1, push_bit 8 1, ucast vcpu)
     else if ecx = 1 then (8, ucast num, push_bit 8 2 OR 1, ucast vcpu)
     else (0, 0, ucast (ecx AND 0xff), ucast vcpu))"

definition cpuid_basic :: "'p vtxEnv \<Rightarrow> u32 \<Rightarrow> u8 \<Rightarrow> u32 \<Rightarrow> u32 \<Rightarrow> cpuidResult" where
  "cpuid_basic V vcpu num eax ecx =
    (if eax = 0 then (if f_avx10 (flags V) then 36 else 11, 0x756E6547, 0x6C65746E, 0x49656E69)
     else if eax = 1 then cpuid_features V vcpu
     else if eax = 2 then (0xffffffff80000000, 0xffffffff80000000, 0xffffffff80000000, 0xffffffff80000000)
     else if eax < 7 then (0, 0, 0, 0)
     else if eax = 7 then cpuid_structured V ecx
     else if eax < 11 then (0, 0, 0, 0)
     else if eax > 11 \<and> f_avx10 (flags V)
     then (if eax < 36 \<or> ecx > 1 then (0, 0, 0, 0) else hw_cpuid V 36 ecx)
     else cpuid_topology vcpu num ecx)"

definition ia32eEmulatorCpuid :: "'p vtxEnv \<Rightarrow> addr \<Rightarrow> 'p vmstate \<Rightarrow> 'p vmstate" where
  "ia32eEmulatorCpuid V t s =
    (let r = regs (vregs s t); eax = ucast (rax r) :: u32; ecx = ucast (rcx r) :: u32;
         vcpu = ucast (vcpuId (vtxInfo s t)) :: u32;
         basic = \<not> (0x40000000 \<le> eax \<and> eax \<le> 0x40000002) \<and> \<not> (0x80000000 \<le> eax \<and> eax \<le> min 0x80000008 (esigMax V));
         s = ia32eEmulatorQueueAdvance t s;
         s = (if basic \<and> eax = 1 then upd_vtx t (\<lambda>c. c\<lparr>signId := cpuSignId V\<rparr>) s else s)
     in case (if basic \<and> eax \<ge> 11 \<and> \<not> (eax > 11 \<and> f_avx10 (flags V)) \<and> ecx = 1
              then ia32eEmulatorDomainVcpuCount t s else (0, s)) of
          (num, s) \<Rightarrow>
            (case (if 0x40000000 \<le> eax \<and> eax \<le> 0x40000002 then cpuid_hypervisor V eax
                   else if 0x80000000 \<le> eax \<and> eax \<le> min 0x80000008 (esigMax V) then cpuid_extended V eax ecx
                   else cpuid_basic V vcpu num eax ecx) of
               (a, b, c, d) \<Rightarrow> upd_gprs t (\<lambda>r. r\<lparr>rax := a, rbx := b, rcx := c, rdx := d\<rparr>) s))"

end
