(* ===== verification/EventManager.thy ===== *)
theory EventManager
  imports EmulatorMsr
begin

text \<open>
  The way back into the guest (\<^verbatim>\<open>ia32eEmulator.c\<close>): the reset of a virtual CPU, the delivery of the queued
  events, the event manager, and the dispatcher that the processor enters when it has left the guest. The
  event manager waits for power and for a start-up message; a wait gives up the CPU, so it ends a step of the
  model, and \<open>vmPhase\<close> tells with which loop the next step of the virtual CPU goes on.
\<close>

subsection \<open>Reset\<close>

definition ia32eEmulatorVmcsReset :: "'p vtxEnv \<Rightarrow> addr \<Rightarrow> 'p vmstate \<Rightarrow> 'p vmstate" where
  "ia32eEmulatorVmcsReset V t s =
    (let s = vassert (hostIf s) s;
         s = vassert (ttype (tasks (kern s) t) \<in> {K_TASK_THREAD, K_TASK_LSR}) s;
         phys = vmcsPhys (vtxInfo s t);
         s = vemit (EvVmclear phys) (set_if False s)
     in if \<not> vmclearOk V phys then ia32eEmulatorHandleVcpuFailure V t (vassert False s)
        else
          let s = vemit (EvVmptrld phys) s
          in if \<not> vmptrldOk V phys then ia32eEmulatorHandleVcpuFailure V t (vassert False s)
             else set_if True (upd_apic t (\<lambda>a. a\<lparr>vmcsInitialized := True\<rparr>) s))"

definition vmwrites :: "'p vtxEnv \<Rightarrow> addr \<Rightarrow> (vmcsField \<times> u64) list \<Rightarrow> 'p vmstate \<Rightarrow> 'p vmstate" where
  "vmwrites V t ws = fold (\<lambda>(f, v). ia32eVmwriteSafe V t f v) ws"

definition mask_of :: "nat list \<Rightarrow> u64" where
  "mask_of bs = fold (\<lambda>b m. m OR push_bit b 1) bs 0"

text \<open>The controls; the host state and the addresses of the bitmaps and areas are left out.\<close>

definition setup_controls :: "'p vtxEnv \<Rightarrow> addr \<Rightarrow> 'p vmstate \<Rightarrow> 'p vmstate" where
  "setup_controls V t s =
    (let s = ia32eVmwriteSafe V t CTRL_EXCEPTION_BITMAP (mask_of [1, 17]) s;
         s = ia32eVmwriteAdjusted V t (ia32eVmxPinbasedCtls V) CTRL_PINBASED_CONTROLS (mask_of [0, 3, 5]) s;
         s = ia32eVmwriteAdjusted V t (ia32eVmxProcbasedCtls V) CTRL_PROCBASED_CTLS
               (mask_of [10, 11, if VTX_TSD V then 12 else 3, 19, 20, 25, 28, 29, 31]) s;
         s = ia32eVmwriteAdjusted V t (ia32eVmxExitCtls V) CTRL_PRIMARY_VMEXIT_CONTROLS (mask_of [9, 15, 18, 19, 20, 21]) s;
         s = ia32eVmwriteAdjusted V t (ia32eVmxEntryCtls V) CTRL_VMENTRY_CONTROLS (mask_of [14, 15]) s
     in ia32eVmwriteAdjusted V t 0x48b CTRL_PROCBASED_CTLS2 (mask_of [1, 5, 6, 7, 15]) s)"

definition guest_cr4_bits :: "'p vtxEnv \<Rightarrow> u64" where
  "guest_cr4_bits V =
    mask_of ([4, 5, 7, 9, 10] @ (if VTX_TSD V then [] else [2]) @ (if f_vme (flags V) then [0, 1] else [])
      @ (if f_de (flags V) then [3] else []) @ (if f_umip (flags V) then [11] else [])
      @ (if f_fsgsbase (flags V) then [16] else []) @ (if f_pcid (flags V) then [17] else [])
      @ (if f_smep (flags V) then [20] else []) @ (if f_smap (flags V) then [21] else []))"

definition ia32eEmulatorVmcsSetupBase :: "'p vtxEnv \<Rightarrow> addr \<Rightarrow> 'p vmstate \<Rightarrow> 'p vmstate" where
  "ia32eEmulatorVmcsSetupBase V t s =
    (let s = setup_controls V t s;
         s = (if f_pat (flags V) then ia32eVmwriteSafe V t GUEST_IA32E_PAT 0x0007040600070406 s else s);
         s = vmwrites V t [(CTRL_CR0_GUEST_HOST_MASK, IA32E_CR0_NE_MASK OR IA32E_CR0_NW_MASK OR IA32E_CR0_CD_MASK),
               (CTRL_CR0_READ_SHADOW, IA32E_CR0_NE_MASK), (CTRL_CR4_GUEST_HOST_MASK, NOT (guest_cr4_bits V))] s
     in case curDom s t of
          None \<Rightarrow> vnull s
        | Some d \<Rightarrow>
            let s = ia32eVmwriteSafe V t CTRL_EPTP (cr3 (vdom s d)) s;
                s = (if VTX_FEATURE_VPID V \<and> f_vpid (flags V) then ia32eVmwriteSafe V t CTRL_VPID (ucast (vpid (vdom s d))) s
                     else s)
            in vmwrites V t [(GUEST_ACTIVITY_STATE, 0), (GUEST_VMCS_LINK_POINTER, -1)] s)"

definition guest_reset_fields :: "(vmcsField \<times> u64) list" where
  "guest_reset_fields =
    [(GUEST_DR7, push_bit 10 1), (GUEST_RFLAGS, 2), (GUEST_CR0, IA32E_CR0_NE_MASK), (GUEST_CR4, IA32E_CR4_VMXE_MASK),
     (GUEST_CS_LIMIT, 0xffff), (GUEST_DS_LIMIT, 0xffff), (GUEST_SS_LIMIT, 0xffff), (GUEST_ES_LIMIT, 0xffff),
     (GUEST_FS_LIMIT, 0xffff), (GUEST_GS_LIMIT, 0xffff), (GUEST_TR_LIMIT, 0xffff), (GUEST_LDTR_LIMIT, 0xffff),
     (GUEST_GDTR_LIMIT, 0xffff), (GUEST_IDTR_LIMIT, 0xffff),
     (GUEST_CS_ACCESS_RIGHTS, 0x9b), (GUEST_DS_ACCESS_RIGHTS, 0x93), (GUEST_SS_ACCESS_RIGHTS, 0x93),
     (GUEST_ES_ACCESS_RIGHTS, 0x93), (GUEST_FS_ACCESS_RIGHTS, 0x93), (GUEST_GS_ACCESS_RIGHTS, 0x93),
     (GUEST_TR_ACCESS_RIGHTS, 0x8b), (GUEST_LDTR_ACCESS_RIGHTS, 0x10000)]"

definition ia32eEmulatorVmcsSetupGuest :: "'p vtxEnv \<Rightarrow> addr \<Rightarrow> 'p vmstate \<Rightarrow> 'p vmstate" where
  "ia32eEmulatorVmcsSetupGuest V t = vmwrites V t guest_reset_fields"

text \<open>The values of a reset, and the function, whose pointer to the task is never set.\<close>

definition apic_reset :: "ia32eVtxX2apic \<Rightarrow> ia32eVtxX2apic" where
  "apic_reset a = a\<lparr>apicBaseBsp := bsp a, apicTpr := 0, tprSubclass := 0, apicBaseAddr := 0xfee00000, sivr := 0xff,
     irr := (\<lambda>_. 0), isr := (\<lambda>_. 0), receiverEsr := 0, pendingEsr := 0, esr := 0, icr := 0,
     lvtTImer := IA32E_XAPIC_LVT_ENTRY_DISABLE_MASK, lvtTsr := IA32E_XAPIC_LVT_ENTRY_DISABLE_MASK,
     lvtPmcr := IA32E_XAPIC_LVT_ENTRY_DISABLE_MASK, lvtLint0 := IA32E_XAPIC_LVT_ENTRY_DISABLE_MASK,
     lvtLint1 := IA32E_XAPIC_LVT_ENTRY_DISABLE_MASK, lvtError := IA32E_XAPIC_LVT_ENTRY_DISABLE_MASK,
     initCount := 0, dcr := 0\<rparr>"

definition ia32eEmulatorX2apicReset :: "'p vmstate \<Rightarrow> 'p vmstate" where
  "ia32eEmulatorX2apicReset s =
    (let task = None :: ptr in case task of None \<Rightarrow> vnull s | Some t \<Rightarrow> upd_apic t apic_reset s)"

definition ia32eEmulatorRegsReset :: "'p vtxEnv \<Rightarrow> addr \<Rightarrow> 'p vmstate \<Rightarrow> 'p vmstate" where
  "ia32eEmulatorRegsReset V t s =
    (let s = upd_regs t (\<lambda>_. \<lparr>cr2 = 0, dr0 = 0, dr1 = 0, dr2 = 0, dr3 = 0, dr6 = 0xffff0ff0,
               regs = zero_regs\<lparr>rdx := ucast (cpuVersion V)\<rparr>\<rparr>) s;
         s = upd_vtx t (\<lambda>c. c\<lparr>vmexitStoreVmentryLoadAreaData := [0, 0, 0, 0, 0], signId := 0\<rparr>) s
     in case ia32eEmulatorRegsResetCallbackFn (emulatorCallbacks V t) of
          None \<Rightarrow> s
        | Some f \<Rightarrow> (case ask_plugin (Some f) t s of (ok, s) \<Rightarrow> if ok then s else ia32eEmulatorHandleVcpuFailure V t s))"

definition ia32eEmulatorVcpuReset :: "'p vtxEnv \<Rightarrow> addr \<Rightarrow> 'p vmstate \<Rightarrow> 'p vmstate" where
  "ia32eEmulatorVcpuReset V t s =
    (let s = ia32eEmulatorVmcsReset V t s;
         s = ia32eEmulatorVmcsSetupBase V t s;
         s = ia32eEmulatorVmcsSetupGuest V t s;
         s = ia32eEmulatorX2apicReset s
     in ia32eEmulatorRegsReset V t s)"

subsection \<open>Delivery of the queued events\<close>

definition clear_event :: "ia32eVtxVectoredEvent \<Rightarrow> ia32eVtxVectoredEvent" where
  "clear_event e = \<lparr>evVector = 0, evType = IA32E_INTERRUPT_TYPE_EXTERNAL, evDeliverErrcode = False, evAdvance = False,
     evValid = False, evMode = evMode e, evErrcode = 0\<rparr>"

text \<open>
  One queued event; \<open>external\<close> is what is done with an external interrupt. The flag says that nothing has
  been injected so far.
\<close>

definition deliver_event ::
  "'p vtxEnv \<Rightarrow> addr \<Rightarrow> (u8 \<Rightarrow> 'p vmstate \<Rightarrow> 'p vmstate) \<Rightarrow> ia32eVtxVectoredEvent \<Rightarrow> bool \<Rightarrow> 'p vmstate \<Rightarrow> bool \<times> 'p vmstate" where
  "deliver_event V t external e ret s =
    (let inject = ia32eEmulatorInjectEvent V t (evVector e) (evType e) (evDeliverErrcode e) (evErrcode e) False 0
     in if \<not> evValid e then (ret, s)
        else if evAdvance e then ia32eEmulatorAdvance V t True (vassert ret s)
        else case evType e of
               IA32E_INTERRUPT_TYPE_EXTERNAL \<Rightarrow> (ret, external (evVector e) (vassert (evVector e > 15) s))
             | IA32E_INTERRUPT_TYPE_NMI \<Rightarrow>
                 (ret, ia32eEmulatorX2apicSendPacket t (vcpuId (vtxInfo s t)) IA32E_NMI IA32E_DM_NMI s)
             | IA32E_INTERRUPT_TYPE_HARDWARE_EXCEPTION \<Rightarrow> (False, inject (vassert ret s))
             | IA32E_INTERRUPT_TYPE_SOFTWARE_INT \<Rightarrow> (False, inject (snd (ia32eEmulatorAdvance V t False (vassert ret s))))
             | IA32E_INTERRUPT_TYPE_PRIV_SOFTWARE_EXCEPTION \<Rightarrow>
                 (False, inject (snd (ia32eEmulatorAdvance V t False (vassert ret s))))
             | IA32E_INTERRUPT_TYPE_SOFTWARE_EXCEPTION \<Rightarrow>
                 (False, inject (snd (ia32eEmulatorAdvance V t False (vassert ret s))))
             | _ \<Rightarrow> (ret, vassert False s))"

text \<open>The condition of the assertions about the three events, which exclude each other.\<close>

definition synchronous :: "ia32eVtxVectoredEvent \<Rightarrow> bool" where
  "synchronous e \<longleftrightarrow> IA32E_IS_SYNCHRONOUS_INTERRUPT (evType e)"

definition ia32eEmulatorDequeueEvents :: "'p vtxEnv \<Rightarrow> addr \<Rightarrow> 'p vmstate \<Rightarrow> bool \<times> 'p vmstate" where
  "ia32eEmulatorDequeueEvents V t s =
    (let lost = lostEvent (vtx s t); syn = syntheticEvent (vtx s t); plug = pluginEvent (vtx s t);
         s = vassert (\<not> evAdvance lost) s;
         s = vassert (\<not> evValid lost \<or> (\<not> synchronous syn \<and> \<not> evAdvance syn \<and> \<not> synchronous plug \<and> \<not> evAdvance plug)) s;
         s = vassert (\<not> evValid syn \<or> \<not> synchronous syn \<or> \<not> evAdvance syn) s;
         s = vassert (\<not> evValid plug \<or> \<not> synchronous plug \<or> \<not> evAdvance plug) s;
         s = upd_vtx t (\<lambda>c. c\<lparr>lostEvent := clear_event lost, syntheticEvent := clear_event syn,
               pluginEvent := clear_event plug\<rparr>) s;
         s = (if evValid lost
              then ia32eEmulatorInjectEvent V t (evVector lost) (evType lost) (evDeliverErrcode lost) (evErrcode lost) False 0 s
              else s);
         vcpu = vcpuId (vtxInfo s t)
     in case deliver_event V t (\<lambda>v. ia32eEmulatorX2apicSendPacket t vcpu v IA32E_DM_NORMAL) syn (\<not> evValid lost) s of
          (ret, s) \<Rightarrow>
            deliver_event V t (\<lambda>v s. if apic_enabled (apic s t)
                                    then upd_apic t (\<lambda>a. a\<lparr>irr := set_vector (unat v) (irr a)\<rparr>) s else s) plug ret s)"

subsection \<open>The event manager\<close>

datatype vmPhase = PhaseGuest | PhasePower | PhaseSipi

datatype injection = NoInjection | InjectNmi | InjectInterrupt int

definition ia32eEmulatorTripleFaultReceive :: "'p vtxEnv \<Rightarrow> addr \<Rightarrow> 'p vmstate \<Rightarrow> 'p vmstate" where
  "ia32eEmulatorTripleFaultReceive V t s =
    (case curDom s t of
       None \<Rightarrow> vnull s
     | Some d \<Rightarrow> if tripleFault (vdom s d) \<noteq> 0 then ia32eEmulatorHandleVcpuFailure V t s else s)"

definition ia32eEmulatorWait :: "'p vtxEnv \<Rightarrow> addr \<Rightarrow> 'p vmstate \<Rightarrow> 'p vmstate" where
  "ia32eEmulatorWait V t s =
    (let ty = ttype (tasks (kern s) t);
         s = vassert (ty = K_TASK_THREAD \<or> ty = K_TASK_LSR) s
     in upd_kern (\<lambda>k. snd (kSyscallHandler (kernelEnv V) (getCpuIdCfg V) 0 WORKHORSE_SYS_SCHED_CTRL
          (if ty = K_TASK_THREAD then WORKHORSE_SCHED_CTRL_YIELD else WORKHORSE_SCHED_CTRL_LSR_DONE) 0 k)) s)"

text \<open>
  What is pending and what is injected, under the lock of the latch; the answer also tells what stays pending.
\<close>

definition pick_interrupt :: "addr \<Rightarrow> bool \<Rightarrow> u32 \<Rightarrow> 'p vmstate \<Rightarrow> (injection \<times> bool \<times> bool) \<times> 'p vmstate" where
  "pick_interrupt t injected state s =
    (let nmi = nmiPending (apic s t);
         intVector = ia32eEmulatorX2apicGetIrrPending t s
     in case (if intVector \<ge> 0
              then (case ia32eEmulatorX2apicGetPpr t s of (p, s) \<Rightarrow> (uint p < intVector div 16, s)) else (False, s)) of
          (pend, s) \<Rightarrow>
            if \<not> injected \<and> nmi \<and> state AND (NMI_MASK OR MOV_SS_MASK) = 0
            then ((InjectNmi, False, pend), upd_apic t (\<lambda>a. a\<lparr>nmiPending := False\<rparr>) s)
            else if \<not> injected \<and> pend \<and> ia32eVmread t GUEST_RFLAGS s AND IA32E_FLAGS_IF_MASK \<noteq> 0
                    \<and> state AND (STI_MASK OR MOV_SS_MASK) = 0
            then ((InjectInterrupt intVector, nmi, False),
                  ia32eEmulatorX2apicUnsetIrrPending t (vassert (intVector > 15) s))
            else ((NoInjection, nmi, pend), s))"

definition inject_picked :: "'p vtxEnv \<Rightarrow> addr \<Rightarrow> injection \<Rightarrow> 'p vmstate \<Rightarrow> 'p vmstate" where
  "inject_picked V t i s =
    (case i of
       NoInjection \<Rightarrow> s
     | InjectNmi \<Rightarrow> ia32eEmulatorInjectEvent V t IA32E_NMI IA32E_INTERRUPT_TYPE_NMI False 0 False 0 s
     | InjectInterrupt v \<Rightarrow>
         ia32eEmulatorX2apicSetIsrv V t (word_of_int v)
           (ia32eEmulatorInjectEvent V t (word_of_int v) IA32E_INTERRUPT_TYPE_EXTERNAL False 0 False 0 s))"

text \<open>The windows through which the processor leaves the guest again when an interrupt can be delivered.\<close>

definition set_windows :: "'p vtxEnv \<Rightarrow> addr \<Rightarrow> bool \<Rightarrow> bool \<Rightarrow> 'p vmstate \<Rightarrow> 'p vmstate" where
  "set_windows V t nmi pend s =
    (let proc = ucast (ia32eVmread t CTRL_PROCBASED_CTLS s) :: u32;
         proc = (if nmi then proc OR push_bit 22 1 else proc AND NOT (push_bit 22 1));
         proc = (if pend then proc OR push_bit 2 1 else proc AND NOT (push_bit 2 1))
     in ia32eVmwriteSafe V t CTRL_PROCBASED_CTLS (ucast proc) s)"

text \<open>Steps 6 and 7 of the event manager: the pending interrupts and the windows.\<close>

definition em_inject :: "'p vtxEnv \<Rightarrow> addr \<Rightarrow> bool \<Rightarrow> 'p vmstate \<Rightarrow> 'p vmstate" where
  "em_inject V t injected s =
    (let state = ucast (ia32eVmread t GUEST_INTERRUPTIBILITY_STATE s) :: u32
     in case pick_interrupt t injected state (set_if False s) of
          ((i, nmi, pend), s) \<Rightarrow> set_windows V t nmi pend (inject_picked V t i (set_if True s)))"

text \<open>Steps 4 to 7: receivers and latches, queued events, and the rest.\<close>

definition em_deliver :: "'p vtxEnv \<Rightarrow> addr \<Rightarrow> 'p vmstate \<Rightarrow> 'p vmstate" where
  "em_deliver V t s =
    (let s = ia32eEmulatorX2apicCheckReceiverEsr t s;
         s = ia32eEmulatorX2apicCheckLatchedIrr V t s
     in case ia32eEmulatorDequeueEvents V t s of (ret, s) \<Rightarrow> em_inject V t (\<not> ret) s)"

text \<open>One round of the loop of step 3, which waits for the start-up message; the flag is \<open>launch\<close>.\<close>

definition em_sipi :: "'p vtxEnv \<Rightarrow> addr \<Rightarrow> 'p vmstate \<Rightarrow> (vmPhase \<times> bool) \<times> 'p vmstate" where
  "em_sipi V t s =
    (let s = ia32eEmulatorTripleFaultReceive V t s;
         pending = sipiPending (apic s t); vector = ucast (sipiVector (apic s t)) :: u32;
         s = with_latch (upd_apic t (\<lambda>a. a\<lparr>waitForSipi := \<not> pending, sipiPending := False, sipiVector := 0\<rparr>)) s
     in if \<not> pending then ((PhaseSipi, False), ia32eEmulatorWait V t s)
        else
          let s = ia32eEmulatorVcpuReset V t s;
              s = ia32eVmwriteSafe V t GUEST_CS_BASE (ucast (vector * 4096)) s;
              s = ia32eVmwriteSafe V t GUEST_CS_SELECTOR (ucast (vector * 256)) s
          in ((PhaseGuest, True), em_deliver V t s))"

definition em_init :: "'p vtxEnv \<Rightarrow> addr \<Rightarrow> 'p vmstate \<Rightarrow> (vmPhase \<times> bool) \<times> 'p vmstate" where
  "em_init V t s =
    (let pending = initPending (apic s t);
         s = with_latch (\<lambda>s. if pending
               then upd_apic t (\<lambda>a. a\<lparr>initPending := False, waitForSipi := True, nmiPending := False,
                                    latchedIrr := (\<lambda>_. 0)\<rparr>) s
               else s) s
     in if pending then em_sipi V t s else ((PhaseGuest, False), em_deliver V t s))"

text \<open>One test of the loop of step 2, which waits for power.\<close>

definition em_power :: "'p vtxEnv \<Rightarrow> addr \<Rightarrow> 'p vmstate \<Rightarrow> (vmPhase \<times> bool) \<times> 'p vmstate" where
  "em_power V t s =
    (if poweredOn (apic s t) then em_init V t s
     else
       let s = ia32eEmulatorTripleFaultReceive V t s;
           given = initPending (apic s t);
           s = with_latch id s
       in if \<not> given then ((PhasePower, False), ia32eEmulatorWait V t s)
          else em_init V t (upd_apic t (\<lambda>a. a\<lparr>poweredOn := True\<rparr>) s))"

definition ia32eEmulatorEventManager :: "'p vtxEnv \<Rightarrow> addr \<Rightarrow> 'p vmstate \<Rightarrow> (vmPhase \<times> bool) \<times> 'p vmstate" where
  "ia32eEmulatorEventManager V t s = em_power V t (ia32eEmulatorTripleFaultReceive V t (vassert (hostIf s) s))"

definition ia32eEmulatorBootManager :: "'p vtxEnv \<Rightarrow> addr \<Rightarrow> 'p vmstate \<Rightarrow> (vmPhase \<times> bool) \<times> 'p vmstate" where
  "ia32eEmulatorBootManager V t s =
    (let s = upd_apic t (\<lambda>a. a\<lparr>bsp := (vcpuId (vtxInfo s t) = 0)\<rparr>) s;
         s = vassert (ttype (tasks (kern s) t) \<in> {K_TASK_THREAD, K_TASK_LSR}) s
     in if bsp (apic s t)
        then (case curDom s t of
                None \<Rightarrow> ((PhaseGuest, False), vnull s)
              | Some d \<Rightarrow>
                  let start = start_pc (invocationInfo (domains (kern s) d));
                      s = vassert (start \<le> 0xffff) s;
                      s = ia32eEmulatorVcpuReset V t s;
                      s = ia32eVmwriteSafe V t GUEST_RIP start s
                  in ((PhaseGuest, False), upd_apic t (\<lambda>a. a\<lparr>poweredOn := True\<rparr>) s))
        else ia32eEmulatorEventManager V t s)"

subsection \<open>The dispatcher\<close>

text \<open>The table of the reasons for which the processor leaves the guest; it has 61 entries.\<close>

definition dispatch_table :: "nat \<Rightarrow> ('p vtxEnv \<Rightarrow> addr \<Rightarrow> 'p vmstate \<Rightarrow> 'p vmstate) option" where
  "dispatch_table n =
    (if n = 0 then Some ia32eEmulatorException
     else if n = 1 then Some ia32eEmulatorExtIntr
     else if n \<in> {2, 9} then Some ia32eEmulatorHandleVcpuFailure
     else if n \<in> {3, 4, 7, 8, 41} then Some (\<lambda>V t s. s)
     else if n = 10 then Some ia32eEmulatorCpuid
     else if n \<in> {11, 13, 15, 16, 19, 20, 21, 22, 23, 24, 25, 26, 27, 36, 39, 50, 53, 55, 60}
     then Some (\<lambda>V. ia32eEmulatorQueueUd)
     else if n = 18 then Some ia32eEmulatorVmcall
     else if n = 28 then Some ia32eEmulatorCrAccess
     else if n = 30 then Some ia32eEmulatorInOut
     else if n = 31 then Some ia32eEmulatorRdmsr
     else if n = 32 then Some ia32eEmulatorWrmsr
     else if n = 48 then Some ia32eEmulatorEptFault
     else if n = 49 then Some ia32eEmulatorEptMisconfig
     else if n = 52 then Some ia32eEmulatorVmxPreempt
     else if n = 54 then Some (\<lambda>V. ia32eEmulatorQueueAdvance)
     else None)"

text \<open>The emulation of one exit, up to the event manager.\<close>

definition emulate_exit :: "'p vtxEnv \<Rightarrow> addr \<Rightarrow> 'p vmstate \<Rightarrow> 'p vmstate" where
  "emulate_exit V t s =
    (let exitReason = ucast (ia32eVmread t RO_EXIT_REASON s) :: u32;
         s = vassert (exitReason AND push_bit 27 1 = 0) s;
         basic = unat (exitReason AND 0xffff);
         failure = (exitReason AND push_bit 31 1 \<noteq> 0)
     in case (if failure then None else dispatch_table basic) of
          None \<Rightarrow> ia32eEmulatorHandleVcpuFailure V t (vassert False s)
        | Some f \<Rightarrow>
            let s = (if basic \<noteq> 0 \<and> basic \<noteq> 1 then set_if True s else s);
                mode = ia32eEmulatorMode t s;
                s = vassert (mode \<noteq> IA32E_EMULATOR_INVALID) s;
                s = upd_vtx t (\<lambda>c. c\<lparr>syntheticEvent := (syntheticEvent c)\<lparr>evMode := mode\<rparr>\<rparr>) s;
                s = ia32eEmulatorCatchLostEvent t s;
                s = f V t s
            in vassert (hostIf s) s)"

definition ia32eEmulatorDispatcher :: "'p vtxEnv \<Rightarrow> addr \<Rightarrow> 'p vmstate \<Rightarrow> (vmPhase \<times> bool) \<times> 'p vmstate" where
  "ia32eEmulatorDispatcher V t s = ia32eEmulatorEventManager V t (emulate_exit V t s)"

definition ia32eEmulatorVcpuFailureEntry :: "'p vtxEnv \<Rightarrow> addr \<Rightarrow> 'p vmstate \<Rightarrow> 'p vmstate" where
  "ia32eEmulatorVcpuFailureEntry = ia32eEmulatorHandleVcpuFailure"

end
