(* ===== verification/VmInv.thy ===== *)
theory VmInv
  imports EventManager
begin

text \<open>
  What a virtual CPU can do to the others: the invariant of the local APICs, and what a step of one virtual
  CPU leaves alone. \<open>keeps\<close> says both of one step, and each operation has a rule that appends it to a step.
\<close>

named_theorems keeps_rules

subsection \<open>The invariant\<close>

text \<open>The latch of an APIC is what other virtual CPUs may write; the rest is its own part.\<close>

definition own_part :: "vtxCtx \<Rightarrow> vtxCtx" where
  "own_part c = c\<lparr>x2apic := (x2apic c)\<lparr>nmiPending := False, initPending := False, sipiPending := False, sipiVector := 0,
     latchedIrr := (\<lambda>_. 0), receiverEsr := 0\<rparr>\<rparr>"

definition apic_ok :: "ia32eVtxX2apic \<Rightarrow> bool" where
  "apic_ok a \<longleftrightarrow> apicTpr a \<le> 15 \<and> x2apic_divisor (ucast (dcr a)) \<noteq> None
     \<and> (\<forall>v \<in> vectors (latchedIrr a) \<union> vectors (irr a) \<union> vectors (isr a). v > 15)"

text \<open>Plugins queue no external interrupt with a reserved vector.\<close>

definition plugin_event_ok :: "ia32eVtxVectoredEvent \<Rightarrow> bool" where
  "plugin_event_ok e \<longleftrightarrow>
     (evValid e \<and> \<not> evAdvance e \<and> evType e = IA32E_INTERRUPT_TYPE_EXTERNAL \<longrightarrow> evVector e > 15)"

definition vtx_ok :: "vtxCtx \<Rightarrow> bool" where
  "vtx_ok c \<longleftrightarrow> apic_ok (x2apic c) \<and> plugin_event_ok (pluginEvent c)"

text \<open>Two states with the same machine, but for what virtual CPU \<open>t\<close> may change.\<close>

definition isolated :: "addr \<Rightarrow> 'p vmstate \<Rightarrow> 'p vmstate \<Rightarrow> bool" where
  "isolated t s s' \<longleftrightarrow> vtxInfo s' = vtxInfo s
     \<and> (\<forall>d. apicBus (vdom s' d) = apicBus (vdom s d) \<and> numVcpus (vdom s' d) = numVcpus (vdom s d) \<and> cr3 (vdom s' d) = cr3 (vdom s d))
     \<and> (\<forall>u. u \<noteq> t \<longrightarrow> own_part (vtx s' u) = own_part (vtx s u) \<and> vmcs s' u = vmcs s u \<and> vregs s' u = vregs s u)"

definition vm_ok :: "'p vmstate \<Rightarrow> bool" where
  "vm_ok s \<longleftrightarrow> (\<forall>u. vtx_ok (vtx s u))"

definition keeps :: "addr \<Rightarrow> 'p vmstate \<Rightarrow> 'p vmstate \<Rightarrow> bool" where
  "keeps t s s' \<longleftrightarrow> (vm_ok s \<longrightarrow> isolated t s s' \<and> vm_ok s')"

subsection \<open>Rules\<close>

lemma stopped_same [simp]:
  "stopped s \<Longrightarrow> upd_vtx t f s = s" "stopped s \<Longrightarrow> upd_apic t g s = s" "stopped s \<Longrightarrow> upd_regs t h s = s"
  "stopped s \<Longrightarrow> upd_gprs t k s = s" "stopped s \<Longrightarrow> upd_vdom d l s = s" "stopped s \<Longrightarrow> upd_kern m s = s"
  "stopped s \<Longrightarrow> set_vmcs t fd v s = s" "stopped s \<Longrightarrow> set_if b s = s" "stopped s \<Longrightarrow> vemit e s = s"
  "stopped s \<Longrightarrow> vassert b s = s"
  by (simp_all add: primitive_defs)

lemma keeps_refl [simp]: "keeps t s s"
  by (simp add: keeps_def isolated_def)

lemma keeps_trans: "keeps t s s' \<Longrightarrow> keeps t s' s'' \<Longrightarrow> keeps t s s''"
  by (auto simp: keeps_def isolated_def)

lemma keeps_then: "keeps t s s' \<Longrightarrow> (vm_ok s' \<Longrightarrow> keeps t s' s'') \<Longrightarrow> keeps t s s''"
  by (auto simp: keeps_def isolated_def)

lemma keeps_if [keeps_rules]:
  "(c \<Longrightarrow> keeps t s a) \<Longrightarrow> (\<not> c \<Longrightarrow> keeps t s b) \<Longrightarrow> keeps t s (if c then a else b)"
  by simp

lemma keeps_option [keeps_rules]:
  "(x = None \<Longrightarrow> keeps t s a) \<Longrightarrow> (\<And>y. x = Some y \<Longrightarrow> keeps t s (f y)) \<Longrightarrow> keeps t s (case x of None \<Rightarrow> a | Some y \<Rightarrow> f y)"
  by (cases x) simp_all

lemma keeps_fold:
  assumes "\<And>x s. x \<in> set xs \<Longrightarrow> keeps t s0 s \<Longrightarrow> keeps t s0 (f x s)" and "keeps t s0 s"
  shows "keeps t s0 (fold f xs s)"
  using assms by (induction xs arbitrary: s) simp_all

text \<open>A step that changes nothing that matters here.\<close>

lemma keeps_same:
  assumes "keeps t s0 s"
    and "vtx s' = vtx s" "vtxInfo s' = vtxInfo s" "\<And>u. u \<noteq> t \<Longrightarrow> vmcs s' u = vmcs s u \<and> vregs s' u = vregs s u"
    and "\<And>d. apicBus (vdom s' d) = apicBus (vdom s d) \<and> numVcpus (vdom s' d) = numVcpus (vdom s d) \<and> cr3 (vdom s' d) = cr3 (vdom s d)"
  shows "keeps t s0 s'"
  using assms by (auto simp: keeps_def isolated_def vm_ok_def)

lemma keeps_upd_vtx:
  assumes "keeps t s0 s" and "vtx_ok (vtx s t) \<Longrightarrow> vtx_ok (f (vtx s t))"
  shows "keeps t s0 (upd_vtx t f s)"
  using assms by (cases "stopped s") (auto simp: keeps_def isolated_def vm_ok_def upd_vtx_def)

lemma keeps_upd_apic:
  assumes "keeps t s0 s" and "apic_ok (apic s t) \<Longrightarrow> apic_ok (f (apic s t))"
  shows "keeps t s0 (upd_apic t f s)"
  unfolding upd_apic_def using assms by (intro keeps_upd_vtx) (auto simp: vtx_ok_def)

lemma keeps_upd_latch:
  assumes "keeps t s0 s" and "apic_ok (apic s x) \<Longrightarrow> apic_ok (f (apic s x))"
    and "own_part ((vtx s x)\<lparr>x2apic := f (apic s x)\<rparr>) = own_part (vtx s x)"
  shows "keeps t s0 (upd_apic x f s)"
  using assms by (cases "stopped s") (auto simp: keeps_def isolated_def vm_ok_def upd_apic_def upd_vtx_def vtx_ok_def)

lemma keeps_primitives [keeps_rules]:
  "keeps t s0 s \<Longrightarrow> keeps t s0 (upd_kern f s)" "keeps t s0 s \<Longrightarrow> keeps t s0 (vassert b s)"
  "keeps t s0 s \<Longrightarrow> keeps t s0 (vemit e s)" "keeps t s0 s \<Longrightarrow> keeps t s0 (set_if b s)"
  "keeps t s0 s \<Longrightarrow> keeps t s0 (upd_regs t g s)" "keeps t s0 s \<Longrightarrow> keeps t s0 (upd_gprs t h s)"
  "keeps t s0 s \<Longrightarrow> keeps t s0 (set_vmcs t fd v s)"
  "keeps t s0 s \<Longrightarrow> keeps t s0 (vstop s)" "keeps t s0 s \<Longrightarrow> keeps t s0 (vnull s)"
  by (cases "stopped s"; erule keeps_same; simp add: vstop_def vnull_def)+

lemma keeps_triple [keeps_rules]: "keeps t s0 s \<Longrightarrow> keeps t s0 (upd_vdom d (\<lambda>i. i\<lparr>tripleFault := v\<rparr>) s)"
  by (cases "stopped s"; erule keeps_same; simp)

lemma keeps_latch [keeps_rules]: "(\<And>r. keeps t s0 r \<Longrightarrow> keeps t s0 (f r)) \<Longrightarrow> keeps t s0 s \<Longrightarrow> keeps t s0 (with_latch f s)"
  unfolding with_latch_def by (simp add: keeps_primitives)

lemma keeps_failure [keeps_rules]: "keeps t s0 s \<Longrightarrow> keeps t s0 (ia32eEmulatorHandleVcpuFailure V t s)"
  unfolding ia32eEmulatorHandleVcpuFailure_def Let_def by (intro keeps_rules)

lemma keeps_vmwrite [keeps_rules]: "keeps t s0 s \<Longrightarrow> keeps t s0 (ia32eVmwriteSafe V t f v s)"
  unfolding ia32eVmwriteSafe_def by (intro keeps_rules)

lemma keeps_adjusted [keeps_rules]: "keeps t s0 s \<Longrightarrow> keeps t s0 (ia32eVmwriteAdjusted V t m f v s)"
  unfolding ia32eVmwriteAdjusted_def Let_def by (intro keeps_rules)

text \<open>Operations that answer: the flag or value is dropped.\<close>

lemmas keeps_step = Let_def split_def snd_conv fst_conv if_distrib[of snd] option.case_distrib[of snd]

subsection \<open>The APIC\<close>

text \<open>The other fields do not matter.\<close>

lemma apic_ok_other [simp]:
  "apic_ok (waitForSipi_update g0 a) = apic_ok a" "apic_ok (initPending_update g1 a) = apic_ok a" "apic_ok (sipiPending_update g2 a) = apic_ok a"
  "apic_ok (sipiVector_update g3 a) = apic_ok a" "apic_ok (nmiPending_update g4 a) = apic_ok a" "apic_ok (vmcsInitialized_update g5 a) = apic_ok a"
  "apic_ok (bsp_update g6 a) = apic_ok a" "apic_ok (poweredOn_update g7 a) = apic_ok a" "apic_ok (apicBaseBsp_update g8 a) = apic_ok a"
  "apic_ok (tprSubclass_update g9 a) = apic_ok a" "apic_ok (apicBaseAddr_update g10 a) = apic_ok a" "apic_ok (sivr_update g11 a) = apic_ok a"
  "apic_ok (receiverEsr_update g12 a) = apic_ok a" "apic_ok (pendingEsr_update g13 a) = apic_ok a" "apic_ok (esr_update g14 a) = apic_ok a"
  "apic_ok (icr_update g15 a) = apic_ok a" "apic_ok (lvtTImer_update g16 a) = apic_ok a" "apic_ok (lvtTsr_update g17 a) = apic_ok a"
  "apic_ok (lvtPmcr_update g18 a) = apic_ok a" "apic_ok (lvtLint0_update g19 a) = apic_ok a" "apic_ok (lvtLint1_update g20 a) = apic_ok a"
  "apic_ok (lvtError_update g21 a) = apic_ok a" "apic_ok (initCount_update g22 a) = apic_ok a"
  by (simp_all add: apic_ok_def)

lemma apic_ok_set_vector:
  "apic_ok a \<Longrightarrow> v > 15 \<Longrightarrow> v < 256 \<Longrightarrow> apic_ok (a\<lparr>latchedIrr := set_vector v (latchedIrr a)\<rparr>)"
  "apic_ok a \<Longrightarrow> v > 15 \<Longrightarrow> v < 256 \<Longrightarrow> apic_ok (a\<lparr>irr := set_vector v (irr a)\<rparr>)"
  "apic_ok a \<Longrightarrow> v > 15 \<Longrightarrow> v < 256 \<Longrightarrow> apic_ok (a\<lparr>isr := set_vector v (isr a)\<rparr>)"
  by (auto simp: apic_ok_def vectors_set)

lemma vectors_clear_down: "vectors (fst (clear_down a 8)) \<subseteq> vectors a"
  using clear_down_Max[of a] by (cases "vectors a = {}") auto

lemma apic_ok_clear:
  "apic_ok a \<Longrightarrow> apic_ok (a\<lparr>irr := fst (clear_down (irr a) 8)\<rparr>)"
  "apic_ok a \<Longrightarrow> apic_ok (a\<lparr>isr := fst (clear_down (isr a) 8)\<rparr>)"
  "apic_ok a \<Longrightarrow> apic_ok (a\<lparr>latchedIrr := (\<lambda>_. 0)\<rparr>)"
  using vectors_clear_down[of "irr a"] vectors_clear_down[of "isr a"] by (auto simp: apic_ok_def)

lemma u8_bound: "unat (v :: u8) < 256"
  using unsigned_less[of v] by simp

lemma u8_above: "\<not> v \<le> 15 \<longleftrightarrow> unat v > 15" "v > 15 \<longleftrightarrow> unat v > 15" for v :: u8
  by (auto simp: word_le_nat_alt word_less_nat_alt)

lemma keeps_set_tpr [keeps_rules]: "keeps t s0 s \<Longrightarrow> keeps t s0 (ia32eEmulatorX2apicSetTpr t v s)"
proof -
  have "v AND 15 \<le> 15" for v :: u8 by (rule word_and_le1)
  then show "keeps t s0 s \<Longrightarrow> keeps t s0 (ia32eEmulatorX2apicSetTpr t v s)"
    unfolding ia32eEmulatorX2apicSetTpr_def by (intro keeps_upd_apic keeps_rules) (auto simp: apic_ok_def)
qed

lemma keeps_get_tpr [keeps_rules]:
  "keeps t s0 s \<Longrightarrow> keeps t s0 (snd (ia32eEmulatorX2apicGetTpr t s))"
  unfolding ia32eEmulatorX2apicGetTpr_def keeps_step by (intro keeps_rules)

lemma keeps_get_ppr [keeps_rules]: "keeps t s0 s \<Longrightarrow> keeps t s0 (snd (ia32eEmulatorX2apicGetPpr t s))"
  unfolding ia32eEmulatorX2apicGetPpr_def keeps_step by (intro keeps_rules)

lemma keeps_isrv [keeps_rules]:
  "keeps t s0 s \<Longrightarrow> keeps t s0 (ia32eEmulatorX2apicUnsetIsrv V t s)"
  "keeps t s0 s \<Longrightarrow> unat v > 15 \<Longrightarrow> keeps t s0 (ia32eEmulatorX2apicSetIsrv V t v s)"
proof -
  show "keeps t s0 (ia32eEmulatorX2apicUnsetIsrv V t s)" if k: "keeps t s0 s"
  proof (cases "clear_down (isr (apic s t)) 8")
    case (Pair bs v)
    then have "bs = fst (clear_down (isr (apic s t)) 8)" by simp
    then have "keeps t s0 (upd_apic t (\<lambda>a. a\<lparr>isr := bs\<rparr>) s)"
      using k by (intro keeps_upd_apic) (auto simp: apic_ok_clear)
    then show ?thesis using k Pair
      unfolding ia32eEmulatorX2apicUnsetIsrv_def by (auto simp: Let_def split: option.splits intro: keeps_rules)
  qed
  show "keeps t s0 (ia32eEmulatorX2apicSetIsrv V t v s)" if "keeps t s0 s" "unat v > 15"
    unfolding ia32eEmulatorX2apicSetIsrv_def Let_def
    using that u8_bound[of v] by (intro keeps_rules keeps_upd_apic) (auto simp: apic_ok_set_vector)
qed

lemma keeps_unset_irr [keeps_rules]: "keeps t s0 s \<Longrightarrow> keeps t s0 (ia32eEmulatorX2apicUnsetIrrPending t s)"
  unfolding ia32eEmulatorX2apicUnsetIrrPending_def by (intro keeps_upd_apic) (auto simp: apic_ok_clear)

lemma keeps_timer [keeps_rules]:
  "keeps t s0 s \<Longrightarrow> keeps t s0 (timer_on V t s)" "keeps t s0 s \<Longrightarrow> keeps t s0 (timer_off V t s)"
  unfolding timer_on_def timer_off_def Let_def by (intro keeps_rules; assumption)+

lemma keeps_counter [keeps_rules]:
  "keeps t s0 s \<Longrightarrow> keeps t s0 (snd (ia32eEmulatorX2apicCompressCounter c d s))"
  "keeps t s0 s \<Longrightarrow> keeps t s0 (snd (ia32eEmulatorX2apicDecompressCounter c d s))"
  unfolding ia32eEmulatorX2apicCompressCounter_def ia32eEmulatorX2apicDecompressCounter_def keeps_step
  by (intro keeps_rules; assumption)+

lemma keeps_counters [keeps_rules]:
  "keeps t s0 s \<Longrightarrow> keeps t s0 (ia32eEmulatorX2apicResetCounter V t s)"
  "keeps t s0 s \<Longrightarrow> keeps t s0 (snd (ia32eEmulatorX2apicReadCounter t s))"
  unfolding ia32eEmulatorX2apicResetCounter_def ia32eEmulatorX2apicReadCounter_def keeps_step
  by (intro keeps_rules; assumption)+

lemma keeps_dcr [keeps_rules]:
  assumes "keeps t s0 s" and "x2apic_divisor (ucast d) \<noteq> None"
  shows "keeps t s0 (ia32eEmulatorX2apicSetDcr V t d s)"
proof -
  have "keeps t s0 (upd_apic t (\<lambda>a. a\<lparr>dcr := d\<rparr>) s)"
    using assms by (intro keeps_upd_apic) (auto simp: apic_ok_def)
  then show ?thesis unfolding ia32eEmulatorX2apicSetDcr_def keeps_step by (intro keeps_rules)
qed

subsection \<open>Messages\<close>

lemma keeps_latch_packet [keeps_rules]: "keeps t s0 s \<Longrightarrow> keeps t s0 (latch_packet t self x v dm s)"
  unfolding latch_packet_def Let_def
  by (intro keeps_rules keeps_upd_latch)
    (simp_all add: apic_ok_set_vector u8_above u8_bound own_part_def)

lemma keeps_send [keeps_rules]: "keeps t s0 s \<Longrightarrow> keeps t s0 (ia32eEmulatorX2apicSendPacket t i v dm s)"
  unfolding ia32eEmulatorX2apicSendPacket_def Let_def by (intro keeps_rules)

lemma keeps_logical [keeps_rules]: "keeps t s0 s \<Longrightarrow> keeps t s0 (logical_loop t cl v dm dest s)"
proof (induction t cl v dm dest s rule: logical_loop.induct)
  case (1 t cl v dm dest s)
  show ?case
  proof (cases "ffs32 dest = -1")
    case True
    then show ?thesis using 1(2) by (simp add: logical_loop.simps[of t cl v dm dest s])
  next
    case False
    then show ?thesis
      using 1(1)[OF False refl refl refl refl] 1(2)
      by (simp add: logical_loop.simps[of t cl v dm dest s] Let_def keeps_rules)
  qed
qed

lemma keeps_vcpu_count [keeps_rules]: "keeps t s0 s \<Longrightarrow> keeps t s0 (snd (ia32eEmulatorDomainVcpuCount t s))"
  unfolding ia32eEmulatorDomainVcpuCount_def keeps_step by (intro keeps_rules)

lemma keeps_icr_send [keeps_rules]: "keeps t s0 s \<Longrightarrow> keeps t s0 (icr_send t val num s)"
  unfolding icr_send_def Let_def by (intro keeps_rules keeps_fold)

lemma keeps_icr [keeps_rules]: "keeps t s0 s \<Longrightarrow> keeps t s0 (snd (ia32eEmulatorX2apicHandleIcrWrite t val s))"
  unfolding ia32eEmulatorX2apicHandleIcrWrite_def keeps_step
  by (intro keeps_rules keeps_upd_apic) (auto simp: apic_ok_def)

lemma keeps_receiver [keeps_rules]: "keeps t s0 s \<Longrightarrow> keeps t s0 (ia32eEmulatorX2apicCheckReceiverEsr t s)"
  unfolding ia32eEmulatorX2apicCheckReceiverEsr_def Let_def
  by (intro keeps_rules keeps_upd_apic) (auto simp: apic_ok_set_vector u8_above u8_bound)

lemma keeps_request [keeps_rules]:
  assumes "keeps t s0 s" and "\<forall>v \<in> vectors new. v > 15" and "i < 256"
  shows "keeps t s0 (request_vector V t new i s)"
proof -
  have "i > 15" if "new (i div 32) AND push_bit (i mod 32) 1 \<noteq> 0"
  proof -
    have "bit (new (i div 32)) (i mod 32)"
      using that by (simp add: and_exp_eq_0_iff_not_bit push_bit_eq_mult)
    then show ?thesis using assms(2,3) by (auto simp: vectors_def)
  qed
  then show ?thesis using assms unfolding request_vector_def Let_def
    by (intro keeps_rules keeps_upd_apic) (auto simp: apic_ok_set_vector)
qed

lemma keeps_latched [keeps_rules]:
  assumes "keeps t s0 s"
  shows "keeps t s0 (ia32eEmulatorX2apicCheckLatchedIrr V t s)"
proof (rule keeps_then[OF assms])
  assume "vm_ok s"
  then have "\<forall>v \<in> vectors (latchedIrr (apic s t)). v > 15" by (auto simp: vm_ok_def vtx_ok_def apic_ok_def)
  then show "keeps t s (ia32eEmulatorX2apicCheckLatchedIrr V t s)"
    unfolding ia32eEmulatorX2apicCheckLatchedIrr_def Let_def
    by (intro keeps_fold keeps_rules keeps_upd_apic) (auto simp: apic_ok_clear)
qed

lemma keeps_router [keeps_rules]: "keeps t s0 s \<Longrightarrow> keeps t s0 (snd (ia32eEmulatorIpiRouter V t val s))"
  unfolding ia32eEmulatorIpiRouter_def keeps_step
  by (intro keeps_rules keeps_upd_latch) (auto simp: apic_ok_set_vector u8_above u8_bound own_part_def)

subsection \<open>Events and exits\<close>

lemma keeps_queue [keeps_rules]: "keeps t s0 s \<Longrightarrow> keeps t s0 (ia32eEmulatorQueueEvent t adv v ty de err False s)"
  unfolding ia32eEmulatorQueueEvent_def by (intro keeps_upd_vtx) (auto simp: vtx_ok_def)

lemma keeps_queues [keeps_rules]:
  "keeps t s0 s \<Longrightarrow> keeps t s0 (ia32eEmulatorQueueUd t s)" "keeps t s0 s \<Longrightarrow> keeps t s0 (ia32eEmulatorQueueGp0 t s)"
  "keeps t s0 s \<Longrightarrow> keeps t s0 (ia32eEmulatorQueueAdvance t s)"
  unfolding ia32eEmulatorQueueUd_def ia32eEmulatorQueueGp0_def ia32eEmulatorQueueAdvance_def by (intro keeps_rules; assumption)+

lemma keeps_plugin_queue:
  "keeps t s0 s \<Longrightarrow> keeps t s0 (snd (ia32eEmulatorCallbackQueueEventSynthetic t adv v ty de err s))"
  unfolding ia32eEmulatorCallbackQueueEventSynthetic_def keeps_step ia32eEmulatorQueueEvent_def
  by (intro keeps_rules keeps_upd_vtx keeps_upd_apic) (auto simp: vtx_ok_def plugin_event_ok_def queue_event_def Let_def)

lemma keeps_inject [keeps_rules]: "keeps t s0 s \<Longrightarrow> keeps t s0 (ia32eEmulatorInjectEvent V t v ty de err dl len s)"
  unfolding ia32eEmulatorInjectEvent_def Let_def by (intro keeps_rules)

lemma keeps_ip_mask [keeps_rules]: "keeps t s0 s \<Longrightarrow> keeps t s0 (snd (ia32eEmulatorModeApplyIpMask t v s))"
  unfolding ia32eEmulatorModeApplyIpMask_def
  by (cases "ia32eEmulatorRunningTaskMode t s") (simp_all add: keeps_rules)

lemma keeps_advance [keeps_rules]: "keeps t s0 s \<Longrightarrow> keeps t s0 (snd (ia32eEmulatorAdvance V t tf s))"
  unfolding ia32eEmulatorAdvance_def keeps_step by (intro keeps_rules)

lemma keeps_small [keeps_rules]:
  "keeps t s0 s \<Longrightarrow> keeps t s0 (ia32eEmulatorUnsetNmiBlocking V t s)" "keeps t s0 s \<Longrightarrow> keeps t s0 (ia32eEmulatorSelfIpi v s)"
  "keeps t s0 s \<Longrightarrow> keeps t s0 (ia32eEmulatorAccessDenied V t s)"
  unfolding ia32eEmulatorUnsetNmiBlocking_def ia32eEmulatorSelfIpi_def ia32eEmulatorAccessDenied_def
  by (intro keeps_rules; assumption)+

lemma keeps_lost [keeps_rules]: "keeps t s0 s \<Longrightarrow> keeps t s0 (ia32eEmulatorCatchLostEvent t s)"
  unfolding ia32eEmulatorCatchLostEvent_def Let_def by (intro keeps_rules keeps_upd_vtx) (auto simp: vtx_ok_def)

lemma keeps_read_gpr [keeps_rules]: "keeps t s0 s \<Longrightarrow> keeps t s0 (snd (ia32eEmulatorReadGpr t n s))"
  unfolding ia32eEmulatorReadGpr_def keeps_step by (intro keeps_rules)

lemma keeps_write_gpr [keeps_rules]: "keeps t s0 s \<Longrightarrow> keeps t s0 (ia32eEmulatorWriteGpr V t n v s)"
  unfolding ia32eEmulatorWriteGpr_def by (intro keeps_rules)

lemma keeps_cr [keeps_rules]: "keeps t s0 s \<Longrightarrow> keeps t s0 (ia32eEmulatorCrAccess V t s)"
  unfolding ia32eEmulatorCrAccess_def keeps_step by (intro keeps_rules)

lemma keeps_exception [keeps_rules]:
  "keeps t s0 s \<Longrightarrow> keeps t s0 (ia32eEmulatorException V t s)" "keeps t s0 s \<Longrightarrow> keeps t s0 (ia32eEmulatorExtIntr V t s)"
  unfolding ia32eEmulatorException_def ia32eEmulatorExtIntr_def Let_def by (intro keeps_rules; assumption)+

lemma keeps_preempt [keeps_rules]: "keeps t s0 s \<Longrightarrow> keeps t s0 (ia32eEmulatorVmxPreempt V t s)"
  unfolding ia32eEmulatorVmxPreempt_def keeps_step by (intro keeps_rules keeps_upd_apic) simp_all

lemma keeps_call_kernel [keeps_rules]: "keeps t s0 s \<Longrightarrow> keeps t s0 (call_kernel V t s)"
proof -
  have "keeps t s0 s \<Longrightarrow> keeps t s0 (s\<lparr>kern := k\<rparr>)" for k by (erule keeps_same; simp)
  then show "keeps t s0 s \<Longrightarrow> keeps t s0 (call_kernel V t s)"
    unfolding call_kernel_def run_def split_def by (intro keeps_rules)
qed

lemma keeps_vmcall [keeps_rules]: "keeps t s0 s \<Longrightarrow> keeps t s0 (ia32eEmulatorVmcall V t s)"
  unfolding ia32eEmulatorVmcall_def Let_def by (intro keeps_rules)

text \<open>What is asked of the callbacks of the plugins: they behave as the emulator's own functions.\<close>

definition callbacks_ok :: "'p vtxEnv \<Rightarrow> bool" where
  "callbacks_ok V \<longleftrightarrow> (\<forall>t f s.
     Some f \<in> {ia32eEmulatorInOutCallbackFn (emulatorCallbacks V t), ia32eEmulatorRdmsrCallbackFn (emulatorCallbacks V t),
       ia32eEmulatorWrmsrCallbackFn (emulatorCallbacks V t), ia32eEmulatorEptFaultCallbackFn (emulatorCallbacks V t),
       ia32eEmulatorEptMisconfigCallbackFn (emulatorCallbacks V t), ia32eEmulatorRegsResetCallbackFn (emulatorCallbacks V t)}
     \<longrightarrow> keeps t s (snd (f t s)))"

lemma keeps_ask:
  assumes "\<And>f s. cb = Some f \<Longrightarrow> keeps t s (snd (f t s))" and "keeps t s0 s"
  shows "keeps t s0 (snd (ask_plugin cb t s))"
  using assms unfolding ask_plugin_def by (auto split: option.splits intro: keeps_trans)

lemma keeps_asks [keeps_rules]:
  assumes "callbacks_ok V" and "keeps t s0 s"
  shows "keeps t s0 (snd (ask_plugin (ia32eEmulatorInOutCallbackFn (emulatorCallbacks V t)) t s))"
    "keeps t s0 (snd (ask_plugin (ia32eEmulatorRdmsrCallbackFn (emulatorCallbacks V t)) t s))"
    "keeps t s0 (snd (ask_plugin (ia32eEmulatorWrmsrCallbackFn (emulatorCallbacks V t)) t s))"
    "keeps t s0 (snd (ask_plugin (ia32eEmulatorEptFaultCallbackFn (emulatorCallbacks V t)) t s))"
    "keeps t s0 (snd (ask_plugin (ia32eEmulatorEptMisconfigCallbackFn (emulatorCallbacks V t)) t s))"
    "keeps t s0 (snd (ask_plugin (ia32eEmulatorRegsResetCallbackFn (emulatorCallbacks V t)) t s))"
  using assms unfolding callbacks_ok_def by (auto intro!: keeps_ask)

lemma keeps_plugin_exits [keeps_rules]:
  assumes "callbacks_ok V" and "keeps t s0 s"
  shows "keeps t s0 (ia32eEmulatorInOut V t s)" "keeps t s0 (ia32eEmulatorEptFault V t s)" "keeps t s0 (ia32eEmulatorEptMisconfig V t s)"
  unfolding ia32eEmulatorInOut_def ia32eEmulatorEptFault_def ia32eEmulatorEptMisconfig_def split_def
  by (intro keeps_rules assms)+

subsection \<open>Registers that the guest reads and writes\<close>

lemma keeps_rdmsr_value [keeps_rules]: "keeps t s0 s \<Longrightarrow> keeps t s0 (snd (rdmsr_value V t ecx s))"
  unfolding rdmsr_value_def keeps_step by (intro keeps_rules)

lemma keeps_rdmsr [keeps_rules]:
  assumes "callbacks_ok V" and "keeps t s0 s" shows "keeps t s0 (ia32eEmulatorRdmsr V t s)"
  unfolding ia32eEmulatorRdmsr_def keeps_step by (intro keeps_rules assms)

lemma dcr_values:
  fixes val :: u64
  assumes "val AND (NOT 0xf OR 4) = 0"
  shows "x2apic_divisor (ucast (ucast val :: u8)) \<noteq> None"
proof -
  have z: "val AND NOT 0xf = 0" "val AND 4 = 0"
    using assms unfolding bit.conj_disj_distrib or_eq_0_iff by simp_all
  have "val = (val AND 0xf) OR (val AND NOT 0xf)" by (simp flip: bit.conj_disj_distrib)
  moreover have "val AND 0xf \<le> 0xf" by (rule word_and_le1)
  ultimately have "val \<le> 0xf" using z(1) by simp
  then have "unat val \<le> 15" by (simp add: word_le_nat_alt)
  then have "unat val \<in> {0, 1, 2, 3, 4, 5, 6, 7, 8, 9, 10, 11, 12, 13, 14, 15}" unfolding insert_iff empty_iff by presburger
  then have "val \<in> word_of_nat ` {0, 1, 2, 3, 4, 5, 6, 7, 8, 9, 10, 11, 12, 13, 14, 15}"
    by (rule image_eqI[rotated]) simp
  then show ?thesis using z(2) by (auto simp: x2apic_divisor_def)
qed

lemma keeps_wrmsr_effect [keeps_rules]: "keeps t s0 s \<Longrightarrow> keeps t s0 (snd (wrmsr_effect V t ecx val s))"
  unfolding wrmsr_effect_def keeps_step by (intro keeps_rules keeps_upd_apic keeps_upd_vtx dcr_values) (simp_all add: vtx_ok_def)

lemma keeps_wrmsr [keeps_rules]:
  assumes "callbacks_ok V" and "keeps t s0 s" shows "keeps t s0 (ia32eEmulatorWrmsr V t s)"
  unfolding ia32eEmulatorWrmsr_def keeps_step by (intro keeps_rules assms)

lemma keeps_cpuid [keeps_rules]: "keeps t s0 s \<Longrightarrow> keeps t s0 (ia32eEmulatorCpuid V t s)"
  unfolding ia32eEmulatorCpuid_def keeps_step by (intro keeps_rules keeps_upd_vtx) (simp_all add: vtx_ok_def)

subsection \<open>Resets\<close>

lemma keeps_vmwrites [keeps_rules]: "keeps t s0 s \<Longrightarrow> keeps t s0 (vmwrites V t ws s)"
  unfolding vmwrites_def split_def by (intro keeps_fold keeps_rules)

lemma keeps_reset [keeps_rules]:
  "keeps t s0 s \<Longrightarrow> keeps t s0 (ia32eEmulatorVmcsReset V t s)" "keeps t s0 s \<Longrightarrow> keeps t s0 (setup_controls V t s)"
  "keeps t s0 s \<Longrightarrow> keeps t s0 (ia32eEmulatorVmcsSetupGuest V t s)" "keeps t s0 s \<Longrightarrow> keeps t s0 (ia32eEmulatorX2apicReset s)"
  unfolding ia32eEmulatorVmcsReset_def setup_controls_def ia32eEmulatorVmcsSetupGuest_def ia32eEmulatorX2apicReset_def
    Let_def option.case
  by (intro keeps_rules keeps_upd_apic; simp)+

lemma keeps_setup_base [keeps_rules]: "keeps t s0 s \<Longrightarrow> keeps t s0 (ia32eEmulatorVmcsSetupBase V t s)"
  unfolding ia32eEmulatorVmcsSetupBase_def Let_def by (intro keeps_rules)

lemma keeps_regs_reset [keeps_rules]:
  assumes "callbacks_ok V" and "keeps t s0 s" shows "keeps t s0 (ia32eEmulatorRegsReset V t s)"
proof (cases "ia32eEmulatorRegsResetCallbackFn (emulatorCallbacks V t)")
  case None
  then show ?thesis using assms unfolding ia32eEmulatorRegsReset_def Let_def
    by (simp, intro keeps_rules keeps_upd_vtx) (simp_all add: vtx_ok_def)
next
  case (Some f)
  show ?thesis
    unfolding ia32eEmulatorRegsReset_def Let_def Some option.case split_def
    by (intro keeps_rules keeps_asks(6)[OF assms(1), of t, unfolded Some] keeps_upd_vtx assms(2)) (simp_all add: vtx_ok_def)
qed

lemma keeps_vcpu_reset [keeps_rules]:
  assumes "callbacks_ok V" and "keeps t s0 s" shows "keeps t s0 (ia32eEmulatorVcpuReset V t s)"
  unfolding ia32eEmulatorVcpuReset_def Let_def by (intro keeps_rules assms)

subsection \<open>The event manager\<close>

lemma keeps_deliver_event:
  assumes "keeps t s0 s"
    and ext: "\<And>r. evValid e \<Longrightarrow> \<not> evAdvance e \<Longrightarrow> evType e = IA32E_INTERRUPT_TYPE_EXTERNAL \<Longrightarrow> keeps t s0 r
      \<Longrightarrow> keeps t s0 (ext (evVector e) r)"
  shows "keeps t s0 (snd (deliver_event V t ext e ret s))"
  using assms unfolding deliver_event_def
  by (cases "evType e") (auto simp: Let_def split_def intro!: keeps_rules ext)

lemma keeps_dequeue [keeps_rules]: 
  assumes "keeps t s0 s"
  shows "keeps t s0 (snd (ia32eEmulatorDequeueEvents V t s))"
proof (rule keeps_then[OF assms])
  assume "vm_ok s"
  then have p: "plugin_event_ok (pluginEvent (vtx s t))" by (simp add: vm_ok_def vtx_ok_def)
  show "keeps t s (snd (ia32eEmulatorDequeueEvents V t s))"
    unfolding ia32eEmulatorDequeueEvents_def Let_def split_def
    by (intro keeps_deliver_event keeps_rules keeps_upd_vtx keeps_upd_apic)
      (use p in \<open>simp_all add: vtx_ok_def plugin_event_ok_def clear_event_def apic_ok_set_vector u8_above u8_bound\<close>)
qed

lemma irr_pending_range:
  assumes "vm_ok s" and "ia32eEmulatorX2apicGetIrrPending t s \<ge> 0"
  shows "15 < ia32eEmulatorX2apicGetIrrPending t s" "ia32eEmulatorX2apicGetIrrPending t s < 256"
proof -
  have n: "apic_enabled (apic s t)" "vectors (irr (apic s t)) \<noteq> {}"
    and v: "ia32eEmulatorX2apicGetIrrPending t s = int (Max (vectors (irr (apic s t))))"
    using assms(2) by (auto simp: ia32eEmulatorX2apicGetIrrPending_def scan_down_Max split: if_splits)
  have m: "Max (vectors (irr (apic s t))) \<in> vectors (irr (apic s t))" using n(2) by simp
  then show "15 < ia32eEmulatorX2apicGetIrrPending t s" "ia32eEmulatorX2apicGetIrrPending t s < 256"
    using assms(1) vectors_bound[OF m] v by (auto simp: vm_ok_def vtx_ok_def apic_ok_def)
qed

lemma keeps_pick [keeps_rules]: "keeps t s0 s \<Longrightarrow> keeps t s0 (snd (pick_interrupt t got st s))"
  unfolding pick_interrupt_def keeps_step by (intro keeps_rules keeps_upd_apic) simp_all

lemma pick_range:
  assumes "vm_ok s" and "fst (fst (pick_interrupt t got st s)) = InjectInterrupt v"
  shows "15 < v" "v < 256"
  using assms irr_pending_range[of s t]
  by (auto simp: pick_interrupt_def Let_def split: if_splits prod.splits)

lemma keeps_inject_picked:
  assumes "keeps t s0 s" and "\<And>v. i = InjectInterrupt v \<Longrightarrow> 15 < v \<and> v < 256"
  shows "keeps t s0 (inject_picked V t i s)"
proof (cases i)
  case (InjectInterrupt v)
  then have "unat (word_of_int v :: u8) > 15" using assms(2)[OF InjectInterrupt]
    by (simp add: unsigned_of_int take_bit_int_eq_self zless_nat_eq_int_zless)
  then show ?thesis using assms(1) InjectInterrupt by (auto simp: inject_picked_def intro!: keeps_rules)
qed (use assms in \<open>auto simp: inject_picked_def intro!: keeps_rules\<close>)

lemma keeps_windows [keeps_rules]: "keeps t s0 s \<Longrightarrow> keeps t s0 (set_windows V t nmi pend s)"
  unfolding set_windows_def Let_def by (intro keeps_rules)

lemma keeps_em_inject [keeps_rules]: 
  assumes "keeps t s0 s" shows "keeps t s0 (em_inject V t got s)"
proof (rule keeps_then[OF assms])
  assume "vm_ok s"
  then have "vm_ok (set_if False s)" by (simp add: vm_ok_def)
  then show "keeps t s (em_inject V t got s)"
    unfolding em_inject_def Let_def split_def
    by (intro keeps_rules keeps_inject_picked conjI) (simp_all add: pick_range)
qed

lemma keeps_em_deliver [keeps_rules]: "keeps t s0 s \<Longrightarrow> keeps t s0 (em_deliver V t s)"
  unfolding em_deliver_def Let_def split_def by (intro keeps_rules)

lemma keeps_wait [keeps_rules]:
  "keeps t s0 s \<Longrightarrow> keeps t s0 (ia32eEmulatorTripleFaultReceive V t s)" "keeps t s0 s \<Longrightarrow> keeps t s0 (ia32eEmulatorWait V t s)"
  unfolding ia32eEmulatorTripleFaultReceive_def ia32eEmulatorWait_def Let_def by (intro keeps_rules; assumption)+

lemma keeps_sipi [keeps_rules]:
  assumes "callbacks_ok V" and "keeps t s0 s" shows "keeps t s0 (snd (em_sipi V t s))"
  unfolding em_sipi_def keeps_step by (intro keeps_rules keeps_upd_apic assms) simp_all

lemma keeps_init [keeps_rules]:
  assumes "callbacks_ok V" and "keeps t s0 s" shows "keeps t s0 (snd (em_init V t s))"
  unfolding em_init_def keeps_step by (intro keeps_rules keeps_upd_apic assms) (simp_all add: apic_ok_clear)

lemma keeps_power [keeps_rules]:
  assumes "callbacks_ok V" and "keeps t s0 s" shows "keeps t s0 (snd (em_power V t s))"
  unfolding em_power_def keeps_step id_apply by (intro keeps_rules keeps_upd_apic assms) simp_all

lemma keeps_event_manager [keeps_rules]:
  assumes "callbacks_ok V" and "keeps t s0 s" shows "keeps t s0 (snd (ia32eEmulatorEventManager V t s))"
  unfolding ia32eEmulatorEventManager_def by (intro keeps_rules assms)

lemma keeps_boot_manager [keeps_rules]:
  assumes "callbacks_ok V" and "keeps t s0 s" shows "keeps t s0 (snd (ia32eEmulatorBootManager V t s))"
  unfolding ia32eEmulatorBootManager_def keeps_step by (intro keeps_rules keeps_upd_apic assms) simp_all

text \<open>Each function of the table.\<close>

lemma pred_option_if: "pred_option P a \<Longrightarrow> pred_option P b \<Longrightarrow> pred_option P (if c then a else b)"
  by simp

lemma pred_option_Some: "P x \<Longrightarrow> pred_option P (Some x)"
  by simp

lemma keeps_dispatched:
  assumes "callbacks_ok V" and "keeps t s0 s" and "dispatch_table n = Some f"
  shows "keeps t s0 (f V t s)"
proof -
  have "pred_option (\<lambda>f. keeps t s0 (f V t s)) (dispatch_table n)"
    unfolding dispatch_table_def
    by (intro pred_option_if pred_option_Some option.pred_inject(1); intro keeps_rules assms)
  then show ?thesis using assms(3) by simp
qed

lemma keeps_emulate [keeps_rules]:
  assumes "callbacks_ok V" and "keeps t s0 s" shows "keeps t s0 (emulate_exit V t s)"
  unfolding emulate_exit_def Let_def
  by (rule keeps_option, intro keeps_rules assms, rule keeps_primitives(2), rule keeps_dispatched[OF assms(1)],
      intro keeps_rules keeps_upd_vtx assms, simp add: vtx_ok_def, simp split: if_splits)

lemma keeps_dispatcher [keeps_rules]:
  assumes "callbacks_ok V" and "keeps t s0 s" shows "keeps t s0 (snd (ia32eEmulatorDispatcher V t s))"
  unfolding ia32eEmulatorDispatcher_def by (intro keeps_rules assms)

subsection \<open>Runs\<close>

text \<open>A step of the emulator on behalf of virtual CPU \<open>t\<close>, from one entry of the host to the next.\<close>

inductive vm_act :: "'p vtxEnv \<Rightarrow> addr \<Rightarrow> 'p vmstate \<Rightarrow> 'p vmstate \<Rightarrow> bool" for V t where
  act_boot: "vm_act V t s (snd (ia32eEmulatorBootManager V t s))"
| act_exit: "vm_act V t s (snd (ia32eEmulatorDispatcher V t s))"
| act_power: "vm_act V t s (snd (em_power V t s))"
| act_sipi: "vm_act V t s (snd (em_sipi V t s))"
| act_plugin: "vm_act V t s (snd (ia32eEmulatorCallbackQueueEventSynthetic t adv v ty deliver err s))"

text \<open>Between two steps guests, the processor and the kernel change what is not the emulator's.\<close>

definition vm_between :: "'p vmstate \<Rightarrow> 'p vmstate \<Rightarrow> bool" where
  "vm_between s s' \<longleftrightarrow> vtx s' = vtx s \<and> vtxInfo s' = vtxInfo s \<and> vdom s' = vdom s"

inductive vm_run :: "'p vtxEnv \<Rightarrow> 'p vmstate \<Rightarrow> 'p vmstate \<Rightarrow> bool" for V where
  run_start: "vm_run V s s"
| run_act: "vm_run V s s' \<Longrightarrow> vm_act V t s' s'' \<Longrightarrow> vm_run V s s''"
| run_between: "vm_run V s s' \<Longrightarrow> vm_between s' s'' \<Longrightarrow> vm_run V s s''"

lemma vm_act_keeps: "vm_act V t s s' \<Longrightarrow> callbacks_ok V \<Longrightarrow> keeps t s s'"
  by (induction rule: vm_act.induct) (simp_all add: keeps_rules keeps_plugin_queue)

lemma vm_run_ok: "vm_run V s s' \<Longrightarrow> callbacks_ok V \<Longrightarrow> vm_ok s \<Longrightarrow> vm_ok s'"
proof (induction rule: vm_run.induct)
  case (run_act s s' t s'')
  then show ?case using vm_act_keeps[of V t s' s''] by (simp add: keeps_def)
qed (simp_all add: vm_between_def vm_ok_def)

end
