(* ===== verification/VmIrq.thy ===== *)
theory VmIrq
  imports VmInv
begin

text \<open>
  The life of an interrupt in the virtual APIC, against sets of vectors: it is latched by the sender, taken
  over into the requested vectors, injected when its class is above the priority of the processor, and
  retired by the guest.
\<close>

subsection \<open>Priorities\<close>

definition apic_priority :: "ia32eVtxX2apic \<Rightarrow> nat" where
  "apic_priority a = max (unat (apicTpr a)) ((if vectors (isr a) = {} then 0 else Max (vectors (isr a))) div 16)"

text \<open>The vector that is due: the highest one that is requested, if its class is above the priority.\<close>

definition due_vector :: "ia32eVtxX2apic \<Rightarrow> nat option" where
  "due_vector a =
    (if apic_enabled a \<and> vectors (irr a) \<noteq> {} \<and> apic_priority a < Max (vectors (irr a)) div 16
     then Some (Max (vectors (irr a))) else None)"

lemma own_part_apic:
  "own_part c' = own_part c \<Longrightarrow> \<exists>a. c' = c\<lparr>x2apic := a\<rparr> \<and>
     a = (x2apic c)\<lparr>nmiPending := nmiPending a, initPending := initPending a, sipiPending := sipiPending a,
       sipiVector := sipiVector a, latchedIrr := latchedIrr a, receiverEsr := receiverEsr a\<rparr>"
  by (rule exI[of _ "x2apic c'"], cases c, cases c', cases "x2apic c", cases "x2apic c'") (simp add: own_part_def)

lemma vm_ok_apic: "vm_ok s \<Longrightarrow> apic_ok (apic s t)"
  by (simp add: vm_ok_def vtx_ok_def)

lemma get_tpr [simp]: "vm_ok s \<Longrightarrow> ia32eEmulatorX2apicGetTpr t s = (apicTpr (apic s t), s)"
  using vm_ok_apic[of s t] by (simp add: ia32eEmulatorX2apicGetTpr_def apic_ok_def Let_def)

lemma get_isrv: "unat (ia32eEmulatorX2apicGetIsrv t s) = (if vectors (isr (apic s t)) = {} then 0 else Max (vectors (isr (apic s t))))"
proof (cases "vectors (isr (apic s t)) = {}")
  case False
  then have "Max (vectors (isr (apic s t))) < 256" using vectors_bound Max_in vectors_finite by blast
  then show ?thesis using False by (simp add: ia32eEmulatorX2apicGetIsrv_def scan_down_Max Let_def unat_word_of_nat)
qed (simp add: ia32eEmulatorX2apicGetIsrv_def scan_down_Max Let_def)

lemma get_ppr:
  assumes "vm_ok s"
  shows "snd (ia32eEmulatorX2apicGetPpr t s) = s" "unat (fst (ia32eEmulatorX2apicGetPpr t s)) = apic_priority (apic s t)"
proof -
  have d: "unat (w div 16) = unat w div 16" for w :: u8 by (simp add: unat_div)
  show "snd (ia32eEmulatorX2apicGetPpr t s) = s" using assms by (simp add: ia32eEmulatorX2apicGetPpr_def)
  show "unat (fst (ia32eEmulatorX2apicGetPpr t s)) = apic_priority (apic s t)"
    using assms by (simp add: ia32eEmulatorX2apicGetPpr_def apic_priority_def word_less_nat_alt d get_isrv max_def)
qed

lemma irr_pending:
  "ia32eEmulatorX2apicGetIrrPending t s =
    (if apic_enabled (apic s t) \<and> vectors (irr (apic s t)) \<noteq> {} then int (Max (vectors (irr (apic s t)))) else -1)"
  by (simp add: ia32eEmulatorX2apicGetIrrPending_def scan_down_Max)

subsection \<open>Injection\<close>

lemma pick_interrupt_due:
  assumes "vm_ok s"
  shows "pick_interrupt t injected st s =
    (if \<not> injected \<and> nmiPending (apic s t) \<and> st AND (NMI_MASK OR MOV_SS_MASK) = 0
     then ((InjectNmi, False, due_vector (apic s t) \<noteq> None), upd_apic t (\<lambda>a. a\<lparr>nmiPending := False\<rparr>) s)
     else if \<not> injected \<and> due_vector (apic s t) \<noteq> None \<and> ia32eVmread t GUEST_RFLAGS s AND IA32E_FLAGS_IF_MASK \<noteq> 0
       \<and> st AND (STI_MASK OR MOV_SS_MASK) = 0
     then ((InjectInterrupt (int (the (due_vector (apic s t)))), nmiPending (apic s t), False),
           ia32eEmulatorX2apicUnsetIrrPending t s)
     else ((NoInjection, nmiPending (apic s t), due_vector (apic s t) \<noteq> None), s))"
proof -
  let ?v = "ia32eEmulatorX2apicGetIrrPending t s"
  obtain p where g: "ia32eEmulatorX2apicGetPpr t s = (p, s)" and p: "unat p = apic_priority (apic s t)"
    using get_ppr[OF assms, of t] by (metis prod.collapse)
  have "int n div 16 = int (n div 16)" for n by (simp only: zdiv_int of_nat_numeral)
  then have "uint p < int n div 16 \<longleftrightarrow> unat p < n div 16" for n
    unfolding uint_nat by (simp only: of_nat_less_iff)
  then have due: "(if ?v \<ge> 0 then (case ia32eEmulatorX2apicGetPpr t s of (p, s') \<Rightarrow> (uint p < ?v div 16, s')) else (False, s))
    = (due_vector (apic s t) \<noteq> None, s)"
    unfolding g prod.case by (simp add: irr_pending due_vector_def p)
  have v: "due_vector (apic s t) \<noteq> None \<Longrightarrow> ?v = int (the (due_vector (apic s t)))"
    by (simp add: irr_pending due_vector_def split: if_splits)
  moreover have "ia32eEmulatorX2apicGetIrrPending t s > 15" if "due_vector (apic s t) \<noteq> None"
    using irr_pending_range[OF assms, of t] v[OF that] by simp
  ultimately show ?thesis unfolding pick_interrupt_def Let_def due prod.case by (intro if_cong refl) simp
qed

text \<open>What is injected, as a function of the APIC and of the guest.\<close>

definition nmi_goes :: "bool \<Rightarrow> u32 \<Rightarrow> ia32eVtxX2apic \<Rightarrow> bool" where
  "nmi_goes injected st a \<longleftrightarrow> \<not> injected \<and> nmiPending a \<and> st AND (NMI_MASK OR MOV_SS_MASK) = 0"

definition interrupt_goes :: "bool \<Rightarrow> u32 \<Rightarrow> u64 \<Rightarrow> ia32eVtxX2apic \<Rightarrow> bool" where
  "interrupt_goes injected st rflags a \<longleftrightarrow> \<not> injected \<and> \<not> nmi_goes injected st a \<and> due_vector a \<noteq> None
     \<and> rflags AND IA32E_FLAGS_IF_MASK \<noteq> 0 \<and> st AND (STI_MASK OR MOV_SS_MASK) = 0"

lemma due_vectorD:
  assumes "due_vector a = Some v"
  shows "apic_enabled a" "v \<in> vectors (irr a)" "v = Max (vectors (irr a))" "v < 256"
    "vectors (isr a) = {} \<or> Max (vectors (isr a)) < v"
proof -
  have m: "vectors (irr a) \<noteq> {} \<Longrightarrow> Max (vectors (irr a)) \<in> vectors (irr a)" by simp
  show d: "apic_enabled a" "v \<in> vectors (irr a)" "v = Max (vectors (irr a))"
    using assms m by (auto simp: due_vector_def simp del: Max_in split: if_splits)
  show "v < 256" using d(2) by (rule vectors_bound)
  show "vectors (isr a) = {} \<or> Max (vectors (isr a)) < v"
  proof (rule disjCI, rule ccontr)
    assume n: "vectors (isr a) \<noteq> {}" and "\<not> Max (vectors (isr a)) < v"
    then have "v div 16 \<le> Max (vectors (isr a)) div 16" by (intro div_le_mono) (simp only: not_less)
    then have "v div 16 \<le> apic_priority a" using n by (simp add: apic_priority_def max.coboundedI2 del: Max_less_iff)
    then show False using assms d(3) by (auto simp: due_vector_def split: if_splits)
  qed
qed

lemma event_info_nmi: "event_info IA32E_NMI IA32E_INTERRUPT_TYPE_NMI False = 0x80000202"
  by (simp add: event_info_def)

lemma event_info_external:
  "v < 256 \<Longrightarrow> (ucast (event_info (word_of_nat v) IA32E_INTERRUPT_TYPE_EXTERNAL False) :: u64) = 0x80000000 OR word_of_nat v"
proof -
  assume v: "v < 256"
  have "(ucast (ucast (word_of_nat v :: u8) :: u32) :: u64) = word_of_nat v"
    using v by transfer (simp add: take_bit_int_eq_self)
  then show ?thesis by (simp add: event_info_def unsigned_or_eq or.commute)
qed

lemma set_if_shift:
  "set_if b (upd_apic t f (set_if c s)) = upd_apic t f (set_if b s)" "set_if b (set_if c s) = set_if b s"
  by (cases "stopped s"; simp add: primitive_defs)+

lemma em_inject_cases:
  fixes t :: addr
  assumes "vm_ok s" "\<not> stopped s" "\<And>f. vmwriteOk V f"
  defines "a \<equiv> apic s t"
    and "st \<equiv> ucast (ia32eVmread t GUEST_INTERRUPTIBILITY_STATE s)"
    and "fl \<equiv> ia32eVmread t GUEST_RFLAGS s"
  shows "em_inject V t injected s =
    (if nmi_goes injected st a
     then set_windows V t False (due_vector a \<noteq> None)
            (set_vmcs t CTRL_VMENTRY_INTERRUPT_INFO 0x80000202 (upd_apic t (\<lambda>a. a\<lparr>nmiPending := False\<rparr>) (set_if True s)))
     else if interrupt_goes injected st fl a
     then set_windows V t (nmiPending a) False
            (ia32eEmulatorX2apicSetIsrv V t (word_of_nat (the (due_vector a)))
              (set_vmcs t CTRL_VMENTRY_INTERRUPT_INFO (0x80000000 OR word_of_nat (the (due_vector a)))
                (ia32eEmulatorX2apicUnsetIrrPending t (set_if True s))))
     else set_windows V t (nmiPending a) (due_vector a \<noteq> None) (set_if True s))"
proof -
  have ok: "vm_ok (set_if False s)" using assms(1) by (simp add: vm_ok_def)
  have w: "ia32eVmwriteSafe V t f v r = set_vmcs t f v r" for f v r using assms(3) by simp
  have v: "due_vector a \<noteq> None \<Longrightarrow> the (due_vector a) < 256" using due_vectorD(4) by fastforce
  show ?thesis
    unfolding em_inject_def Let_def pick_interrupt_due[OF ok]
    using v by (auto simp: a_def st_def fl_def nmi_goes_def interrupt_goes_def inject_picked_def ia32eEmulatorInjectEvent_def w
      event_info_nmi event_info_external set_if_shift ia32eEmulatorX2apicUnsetIrrPending_def)
qed

lemma windows_bits:
  assumes "\<not> stopped s" "\<And>f. vmwriteOk V f"
  shows "bit (ia32eVmread t CTRL_PROCBASED_CTLS (set_windows V t nmi pend s)) 22 \<longleftrightarrow> nmi"
    "bit (ia32eVmread t CTRL_PROCBASED_CTLS (set_windows V t nmi pend s)) 2 \<longleftrightarrow> pend"
    "f \<noteq> CTRL_PROCBASED_CTLS \<Longrightarrow> ia32eVmread t f (set_windows V t nmi pend s) = ia32eVmread t f s"
    "vtx (set_windows V t nmi pend s) = vtx s" "kern (set_windows V t nmi pend s) = kern s"
    "stopped (set_windows V t nmi pend s) = stopped s" "hostIf (set_windows V t nmi pend s) = hostIf s"
  using assms by (auto simp: set_windows_def Let_def bit_simps)

lemma set_isrv_effect:
  assumes "\<not> stopped s"
  shows "vtx (ia32eEmulatorX2apicSetIsrv V t v s) =
      (vtx s)(t := (vtx s t)\<lparr>x2apic := (apic s t)\<lparr>isr := set_vector (unat v) (isr (apic s t))\<rparr>\<rparr>)"
    "vmcs (ia32eEmulatorX2apicSetIsrv V t v s) = vmcs s" "kern (ia32eEmulatorX2apicSetIsrv V t v s) = kern s"
    "stopped (ia32eEmulatorX2apicSetIsrv V t v s) = stopped s" "hostIf (ia32eEmulatorX2apicSetIsrv V t v s) = hostIf s"
  using assms by (auto simp: ia32eEmulatorX2apicSetIsrv_def Let_def)

lemma due_after:
  assumes "due_vector a = Some v" and "vectors (irr a') = vectors (irr a) - {v}" and "vectors (isr a') = insert v (vectors (isr a))"
  shows "due_vector a' = None"
proof -
  note d = due_vectorD[OF assms(1)]
  have "Max (insert v (vectors (isr a))) \<ge> v" by simp
  then have "v div 16 \<le> apic_priority a'"
    unfolding apic_priority_def assms(3) by (simp add: div_le_mono max.coboundedI2 del: Max_insert)
  moreover have "Max (vectors (irr a')) div 16 \<le> v div 16" if "vectors (irr a') \<noteq> {}"
  proof -
    have "Max (vectors (irr a')) \<in> vectors (irr a)" using Max_in[OF vectors_finite that] assms(2) by blast
    then show ?thesis unfolding d(3) by (intro div_le_mono Max_ge) simp_all
  qed
  ultimately show ?thesis unfolding due_vector_def by (meson leD le_trans)
qed

text \<open>The APIC after the injection.\<close>

definition injected_apic :: "bool \<Rightarrow> u32 \<Rightarrow> u64 \<Rightarrow> ia32eVtxX2apic \<Rightarrow> ia32eVtxX2apic" where
  "injected_apic injected st fl a =
    (if nmi_goes injected st a then a\<lparr>nmiPending := False\<rparr>
     else if interrupt_goes injected st fl a
     then a\<lparr>irr := fst (clear_down (irr a) 8), isr := set_vector (the (due_vector a)) (isr a)\<rparr>
     else a)"

lemma injected_vectors:
  assumes "interrupt_goes injected st fl a"
  shows "vectors (irr (injected_apic injected st fl a)) = vectors (irr a) - {Max (vectors (irr a))}"
    "vectors (isr (injected_apic injected st fl a)) = insert (Max (vectors (irr a))) (vectors (isr a))"
    "due_vector (injected_apic injected st fl a) = None"
proof -
  obtain v where v: "due_vector a = Some v" using assms by (auto simp: interrupt_goes_def)
  note d = due_vectorD[OF v]
  have i: "injected_apic injected st fl a = a\<lparr>irr := fst (clear_down (irr a) 8), isr := set_vector v (isr a)\<rparr>"
    using assms v unfolding injected_apic_def by (auto simp: interrupt_goes_def)
  have "vectors (irr a) \<noteq> {}" using d(2) by blast
  then show q: "vectors (irr (injected_apic injected st fl a)) = vectors (irr a) - {Max (vectors (irr a))}"
      "vectors (isr (injected_apic injected st fl a)) = insert (Max (vectors (irr a))) (vectors (isr a))"
    unfolding i using clear_down_Max(2) d(3,4) by (simp_all add: vectors_set)
  show "due_vector (injected_apic injected st fl a) = None" using due_after[OF v] q d(3) by simp
qed

lemma injected_due:
  "\<not> interrupt_goes injected st fl a \<Longrightarrow> due_vector (injected_apic injected st fl a) = due_vector a"
  by (simp add: injected_apic_def due_vector_def apic_priority_def apic_enabled_def)

lemma em_inject_spec:
  fixes t :: addr and injected :: bool
  assumes "vm_ok s" "\<not> stopped s" "\<And>f. vmwriteOk V f"
  defines "a \<equiv> apic s t"
    and "st \<equiv> ucast (ia32eVmread t GUEST_INTERRUPTIBILITY_STATE s)"
    and "fl \<equiv> ia32eVmread t GUEST_RFLAGS s"
    and "s' \<equiv> em_inject V t injected s"
  shows "apic s' t = injected_apic injected st fl a"
    "ia32eVmread t CTRL_VMENTRY_INTERRUPT_INFO s' =
      (if nmi_goes injected st a then 0x80000202
       else if interrupt_goes injected st fl a then 0x80000000 OR word_of_nat (Max (vectors (irr a)))
       else ia32eVmread t CTRL_VMENTRY_INTERRUPT_INFO s)"
    "bit (ia32eVmread t CTRL_PROCBASED_CTLS s') 22 \<longleftrightarrow> nmiPending (apic s' t)"
    "bit (ia32eVmread t CTRL_PROCBASED_CTLS s') 2 \<longleftrightarrow> due_vector (apic s' t) \<noteq> None"
    "kern s' = kern s" "\<not> stopped s'" "hostIf s'"
proof -
  note e = em_inject_cases[OF assms(1-3), where t = t and injected = injected, folded a_def st_def fl_def s'_def]
  note w = windows_bits[OF _ assms(3)] set_isrv_effect ia32eEmulatorX2apicUnsetIrrPending_def
  have v: "interrupt_goes injected st fl a \<Longrightarrow> the (due_vector a) = Max (vectors (irr a))
      \<and> unat (word_of_nat (Max (vectors (irr a))) :: u8) = Max (vectors (irr a))"
    using due_vectorD(3,4)[of a] by (auto simp: interrupt_goes_def unat_word_of_nat simp del: Max_less_iff)
  show a': "apic s' t = injected_apic injected st fl a"
    using assms(2) v unfolding e injected_apic_def by (simp add: w unat_word_of_nat a_def)
  show "kern s' = kern s" "\<not> stopped s'" "hostIf s'"
    unfolding e using assms(2) by (simp_all add: w)
  show "ia32eVmread t CTRL_VMENTRY_INTERRUPT_INFO s' =
      (if nmi_goes injected st a then 0x80000202
       else if interrupt_goes injected st fl a then 0x80000000 OR word_of_nat (Max (vectors (irr a)))
       else ia32eVmread t CTRL_VMENTRY_INTERRUPT_INFO s)"
    unfolding e using assms(2) v by (simp add: w)
  show "bit (ia32eVmread t CTRL_PROCBASED_CTLS s') 22 \<longleftrightarrow> nmiPending (apic s' t)"
    unfolding a' unfolding e using assms(2) by (simp add: w injected_apic_def)
  show "bit (ia32eVmread t CTRL_PROCBASED_CTLS s') 2 \<longleftrightarrow> due_vector (apic s' t) \<noteq> None"
    using assms(2) injected_vectors(3)[of injected st fl a] injected_due[of injected st fl a]
    unfolding a' unfolding e by (cases "interrupt_goes injected st fl a"; auto simp: w interrupt_goes_def)
qed

subsection \<open>End of an interrupt\<close>

lemma unset_isrv_effect:
  fixes t :: addr
  assumes "\<not> stopped s"
  defines "S \<equiv> vectors (isr (apic s t))"
  shows "\<exists>r. vectors r = S - {Max S} \<and> ia32eEmulatorX2apicUnsetIsrv V t s =
    s\<lparr>vtx := (vtx s)(t := (vtx s t)\<lparr>x2apic := (apic s t)\<lparr>isr := r\<rparr>\<rparr>),
      vtrace := (if S \<noteq> {} \<and> ia32eEmulatorX2apicEoiCallbackFn (emulatorCallbacks V t)
        then [EvX2apicEoi t (word_of_nat (Max S))] else []) @ vtrace s\<rparr>"
proof (cases "S = {}")
  case True
  then show ?thesis using clear_down_Max(1)[of "isr (apic s t)"]
    by (intro exI[of _ "isr (apic s t)"]) (simp add: ia32eEmulatorX2apicUnsetIsrv_def S_def)
next
  case False
  then obtain r where "clear_down (isr (apic s t)) 8 = (r, Some (Max S))" "vectors r = S - {Max S}"
    using clear_down_Max(2)[of "isr (apic s t)"] unfolding S_def by (metis prod.collapse)
  then show ?thesis using assms(1) False
    by (intro exI[of _ r]) (simp add: ia32eEmulatorX2apicUnsetIsrv_def primitive_defs Let_def)
qed

text \<open>The write of a guest to the EOI register.\<close>

lemma wrmsr_eoi:
  assumes "apic_enabled (apic s t)"
  shows "wrmsr_effect V t IA32E_X2APIC_EOI 0 s = (Some True, ia32eEmulatorX2apicUnsetIsrv V t s)"
  using assms by (simp add: wrmsr_effect_def)

lemma interrupt_retired:
  assumes "vm_ok s" "\<not> stopped s" "\<And>f. vmwriteOk V f"
    and "interrupt_goes False (ucast (ia32eVmread t GUEST_INTERRUPTIBILITY_STATE s)) (ia32eVmread t GUEST_RFLAGS s) (apic s t)"
    and "vtx s1 = vtx (em_inject V t False s)" "\<not> stopped s1"
    and "ucast (rcx (regs (vregs s1 t))) = IA32E_X2APIC_EOI" "wrmsr_operand t s1 = 0"
  shows "vectors (isr (apic (ia32eEmulatorWrmsr V t s1) t)) = vectors (isr (apic s t))"
    "vectors (irr (apic (ia32eEmulatorWrmsr V t s1) t)) = vectors (irr (apic s t)) - {Max (vectors (irr (apic s t)))}"
    "apic_priority (apic (ia32eEmulatorWrmsr V t s1) t) = apic_priority (apic s t)" "kern (ia32eEmulatorWrmsr V t s1) = kern s1"
proof -
  let ?a = "apic s t" and ?v = "Max (vectors (irr (apic s t)))"
  obtain v where v: "due_vector ?a = Some v" using assms(4) by (auto simp: interrupt_goes_def)
  note d = due_vectorD[OF v]
  have a1: "apic s1 t = injected_apic False (ucast (ia32eVmread t GUEST_INTERRUPTIBILITY_STATE s)) (ia32eVmread t GUEST_RFLAGS s) ?a"
    using em_inject_spec(1)[OF assms(1-3)] assms(5) by simp
  note q = injected_vectors(1,2)[OF assms(4), folded a1]
  have k: "apic_enabled (apic s1 t)" "apicTpr (apic s1 t) = apicTpr ?a"
    using d(1) unfolding a1 by (simp_all add: injected_apic_def apic_enabled_def)
  have lt: "i < ?v" if "i \<in> vectors (isr ?a)" for i
  proof -
    have "i \<le> Max (vectors (isr ?a))" using that by simp
    moreover have "Max (vectors (isr ?a)) < ?v" using d(3,5) that by (auto simp del: Max_less_iff)
    ultimately show ?thesis by (rule le_less_trans)
  qed
  have top: "?v \<notin> vectors (isr ?a)" "Max (insert ?v (vectors (isr ?a))) = ?v"
    using lt by (blast, intro Max_eqI) (auto intro: less_imp_le)
  obtain r where r: "vectors r = vectors (isr (apic s1 t)) - {Max (vectors (isr (apic s1 t)))}"
    and e: "ia32eEmulatorX2apicUnsetIsrv V t s1 = s1\<lparr>vtx := (vtx s1)(t := (vtx s1 t)\<lparr>x2apic := (apic s1 t)\<lparr>isr := r\<rparr>\<rparr>),
      vtrace := (if vectors (isr (apic s1 t)) \<noteq> {} \<and> ia32eEmulatorX2apicEoiCallbackFn (emulatorCallbacks V t)
        then [EvX2apicEoi t (word_of_nat (Max (vectors (isr (apic s1 t)))))] else []) @ vtrace s1\<rparr>"
    using unset_isrv_effect[OF assms(6), of t V] by blast
  have w: "ia32eEmulatorWrmsr V t s1 = ia32eEmulatorQueueAdvance t (ia32eEmulatorX2apicUnsetIsrv V t s1)"
    unfolding ia32eEmulatorWrmsr_def assms(7,8) using wrmsr_eoi[OF k(1), of V] by simp
  have a2: "apic (ia32eEmulatorWrmsr V t s1) t = (apic s1 t)\<lparr>isr := r\<rparr>"
    unfolding w e using assms(6) by (simp add: ia32eEmulatorQueueAdvance_def ia32eEmulatorQueueEvent_def)
  have r': "vectors r = vectors (isr ?a)" unfolding r q using top by auto
  show "vectors (isr (apic (ia32eEmulatorWrmsr V t s1) t)) = vectors (isr ?a)"
    "vectors (irr (apic (ia32eEmulatorWrmsr V t s1) t)) = vectors (irr ?a) - {?v}"
    "apic_priority (apic (ia32eEmulatorWrmsr V t s1) t) = apic_priority ?a"
    unfolding a2 using r' q k(2) by (simp_all add: apic_priority_def)
  show "kern (ia32eEmulatorWrmsr V t s1) = kern s1"
    unfolding w e by (simp add: ia32eEmulatorQueueAdvance_def ia32eEmulatorQueueEvent_def)
qed

subsection \<open>Vectors that were latched\<close>

lemma request_vector_step:
  assumes "\<not> stopped s" "i < 256" "\<forall>v \<in> vectors new. 15 < v"
  shows "request_vector V t new i s =
    (if i \<in> vectors new
     then (let s = upd_apic t (\<lambda>a. a\<lparr>irr := set_vector i (irr a)\<rparr>) s
           in if ia32eEmulatorX2apicIrrCallbackFn (emulatorCallbacks V t) then vemit (EvX2apicIrr t (word_of_nat i)) s else s)
     else s)"
proof -
  have "new (i div 32) AND push_bit (i mod 32) 1 \<noteq> 0 \<longleftrightarrow> i \<in> vectors new"
    using assms(2) by (simp add: vectors_def and_exp_eq_0_iff_not_bit push_bit_eq_mult)
  then show ?thesis using assms(3) by (auto simp: request_vector_def Let_def vassert_holds)
qed

definition irr_calls :: "'p vtxEnv \<Rightarrow> addr \<Rightarrow> nat list \<Rightarrow> vmEvent list" where
  "irr_calls V t vs =
    (if ia32eEmulatorX2apicIrrCallbackFn (emulatorCallbacks V t) then rev (map (\<lambda>v. EvX2apicIrr t (word_of_nat v)) vs) else [])"

lemma request_loop:
  assumes "\<not> stopped s" "\<forall>v \<in> vectors new. 15 < v" "n \<le> 256"
  shows "\<exists>r. vectors r = vectors (irr (apic s t)) \<union> {v \<in> vectors new. v < n} \<and>
    fold (request_vector V t new) [0..<n] s =
      s\<lparr>vtx := (vtx s)(t := (vtx s t)\<lparr>x2apic := (apic s t)\<lparr>irr := r\<rparr>\<rparr>),
        vtrace := irr_calls V t (filter (\<lambda>v. v \<in> vectors new) [0..<n]) @ vtrace s\<rparr>"
  using assms(3)
proof (induction n)
  case 0
  show ?case by (rule exI[of _ "irr (apic s t)"]) (simp add: irr_calls_def)
next
  case (Suc n)
  obtain r where r: "vectors r = vectors (irr (apic s t)) \<union> {v \<in> vectors new. v < n}"
    and f: "fold (request_vector V t new) [0..<n] s =
      s\<lparr>vtx := (vtx s)(t := (vtx s t)\<lparr>x2apic := (apic s t)\<lparr>irr := r\<rparr>\<rparr>),
        vtrace := irr_calls V t (filter (\<lambda>v. v \<in> vectors new) [0..<n]) @ vtrace s\<rparr>"
    using Suc.IH[OF Suc_leD[OF Suc.prems]] by blast
  have n: "n < 256" using Suc.prems by simp
  have e: "{v \<in> vectors new. v < Suc n} = {v \<in> vectors new. v < n} \<union> (if n \<in> vectors new then {n} else {})"
    by (auto simp: less_Suc_eq)
  show ?case
    by (rule exI[of _ "if n \<in> vectors new then set_vector n r else r"])
      (use assms(1) n r in \<open>simp add: f e vectors_set request_vector_step[OF _ n assms(2)] irr_calls_def primitive_defs Let_def fun_upd_same
          del: fun_upd_apply\<close>)
qed

lemma latched_effect:
  assumes "\<not> stopped s" "vm_ok s" "hostIf s"
  shows "\<exists>r. vectors r = vectors (irr (apic s t)) \<union> vectors (latchedIrr (apic s t)) \<and>
    ia32eEmulatorX2apicCheckLatchedIrr V t s =
      s\<lparr>vtx := (vtx s)(t := (vtx s t)\<lparr>x2apic := (apic s t)\<lparr>latchedIrr := (\<lambda>_. 0), irr := r\<rparr>\<rparr>),
        vtrace := irr_calls V t (sorted_list_of_set (vectors (latchedIrr (apic s t)))) @ vtrace s\<rparr>"
proof -
  let ?new = "latchedIrr (apic s t)"
  define s1 where "s1 = s\<lparr>vtx := (vtx s)(t := (vtx s t)\<lparr>x2apic := (apic s t)\<lparr>latchedIrr := (\<lambda>_. 0)\<rparr>\<rparr>)\<rparr>"
  have l: "with_latch (upd_apic t (\<lambda>a. a\<lparr>latchedIrr := (\<lambda>_. 0)\<rparr>)) s = s1"
    using assms(1,3) by (simp add: with_latch_def primitive_defs s1_def)
  have ok: "\<forall>v \<in> vectors ?new. 15 < v" using vm_ok_apic[OF assms(2)] by (auto simp: apic_ok_def)
  have "filter (\<lambda>v. v \<in> vectors ?new) [0..<256] = sorted_list_of_set (vectors ?new)"
    by (rule sorted_distinct_set_unique) (auto simp: sorted_wrt_filter dest: vectors_bound)
  then show ?thesis
    using request_loop[of s1 ?new 256 t V] assms(1) ok unfolding ia32eEmulatorX2apicCheckLatchedIrr_def Let_def l
    by (auto simp: s1_def vectors_all)
qed

end
