(* ===== verification/VmIpi.thy ===== *)
theory VmIpi
  imports VmIrq
begin

text \<open>
  Messages between the virtual CPUs of a virtual machine: a command is delivered to the set of virtual CPUs
  that it addresses, and to each of them once.
\<close>

subsection \<open>One message\<close>

text \<open>What a message does to the APIC that receives it; \<open>self\<close> says that it is the sender's.\<close>

definition received :: "u8 \<Rightarrow> u8 \<Rightarrow> bool \<Rightarrow> ia32eVtxX2apic \<Rightarrow> ia32eVtxX2apic" where
  "received dm v self a =
    (if dm = IA32E_DM_NORMAL
     then (if apic_enabled a then a\<lparr>latchedIrr := set_vector (unat v) (latchedIrr a)\<rparr> else a)
     else if dm = IA32E_DM_NMI then a\<lparr>nmiPending := True\<rparr>
     else if self then a
     else if dm = IA32E_DM_INIT then a\<lparr>initPending := \<not> waitForSipi a, sipiPending := False\<rparr>
     else if (waitForSipi a \<or> initPending a) \<and> \<not> sipiPending a then a\<lparr>sipiVector := v, sipiPending := True\<rparr> else a)"

lemma received_icr: "icr (received dm v self a) = icr a"
  by (simp add: received_def)

definition packet_ok :: "u8 \<Rightarrow> bool" where
  "packet_ok dm \<longleftrightarrow> dm \<in> {IA32E_DM_NORMAL, IA32E_DM_NMI, IA32E_DM_INIT, IA32E_DM_STARTUP}"

text \<open>A message with a reserved vector is not delivered.\<close>

definition illegal :: "u8 \<Rightarrow> u8 \<Rightarrow> bool" where
  "illegal dm v \<longleftrightarrow> dm = IA32E_DM_NORMAL \<and> v \<le> 15"

text \<open>
  The error flags that it leaves at the APIC \<open>x\<close> when \<open>t\<close> has sent it to those in \<open>R\<close>: the sender learns of it unless
  it and all of them are disabled, an enabled receiver other than the sender learns of it.
\<close>

definition esr_flagged :: "u8 \<Rightarrow> ia32eVtxX2apic \<Rightarrow> ia32eVtxX2apic" where
  "esr_flagged m a = a\<lparr>receiverEsr := receiverEsr a OR m\<rparr>"

definition send_error :: "addr \<Rightarrow> addr set \<Rightarrow> (addr \<Rightarrow> ia32eVtxX2apic) \<Rightarrow> addr \<Rightarrow> ia32eVtxX2apic" where
  "send_error t R ap x =
    (if x = t
     then (if \<exists>y \<in> R. apic_enabled (ap y) \<or> apic_enabled (ap t) then esr_flagged IA32E_XAPIC_ESR_SEND_ILLEGAL_MASK (ap t) else ap t)
     else if x \<in> R \<and> apic_enabled (ap x) then esr_flagged IA32E_XAPIC_ESR_RECV_ILLEGAL_MASK (ap x) else ap x)"

lemma esr_flagged_simps [simp]:
  "apic_enabled (esr_flagged m a) = apic_enabled a" "esr_flagged m (esr_flagged m a) = esr_flagged m a" "icr (esr_flagged m a) = icr a"
  by (simp_all add: esr_flagged_def apic_enabled_def or.assoc)

lemma send_error_none [simp]: "send_error t {} ap = ap"
  by (simp add: send_error_def fun_eq_iff)

lemma send_error_enabled [simp]: "apic_enabled (send_error t R ap x) = apic_enabled (ap x)"
  by (simp add: send_error_def)

lemma send_error_more: "send_error t {y} (send_error t R ap) = send_error t (insert y R) ap"
  by (rule ext) (auto simp: send_error_def)

text \<open>What a message that \<open>t\<close> sends to the APICs in \<open>R\<close> makes of the APIC \<open>x\<close>.\<close>

definition delivered :: "addr \<Rightarrow> u8 \<Rightarrow> u8 \<Rightarrow> addr set \<Rightarrow> (addr \<Rightarrow> ia32eVtxX2apic) \<Rightarrow> addr \<Rightarrow> ia32eVtxX2apic" where
  "delivered t dm v R ap x =
    (if illegal dm v then send_error t R ap x else if x \<in> R then received dm v (x = t) (ap x) else ap x)"

lemma delivered_none [simp]: "delivered t dm v {} ap = ap"
  by (simp add: delivered_def fun_eq_iff)

lemma delivered_more: "y \<notin> R \<Longrightarrow> delivered t dm v {y} (delivered t dm v R ap) = delivered t dm v (insert y R) ap"
proof (cases "illegal dm v")
  case True
  then have "delivered t dm v = send_error t" by (simp add: delivered_def fun_eq_iff)
  then show ?thesis by (simp add: send_error_more)
qed (auto simp: delivered_def fun_eq_iff)

text \<open>Virtual CPU \<open>t\<close> runs in domain \<open>d\<close>, whose bus is complete: every number has an APIC of its own.\<close>

definition on_bus :: "addr \<Rightarrow> addr \<Rightarrow> 'p vmstate \<Rightarrow> bool" where
  "on_bus t d s \<longleftrightarrow> \<not> stopped s \<and> hostIf s \<and> curDom s t = Some d
     \<and> vcpuId (vtxInfo s t) < numVcpus (vdom s d) \<and> apicBus (vdom s d) (unat (vcpuId (vtxInfo s t))) = Some t
     \<and> (\<forall>i < unat (numVcpus (vdom s d)). \<exists>x. apicBus (vdom s d) i = Some x)
     \<and> inj_on (apicBus (vdom s d)) {..< unat (numVcpus (vdom s d))}"

text \<open>The state with the APICs \<open>ap\<close>.\<close>

definition with_apics :: "'p vmstate \<Rightarrow> (addr \<Rightarrow> ia32eVtxX2apic) \<Rightarrow> 'p vmstate" where
  "with_apics s ap = s\<lparr>vtx := \<lambda>x. (vtx s x)\<lparr>x2apic := ap x\<rparr>\<rparr>"

lemma with_apics_simps [simp]:
  "kern (with_apics s ap) = kern s" "vdom (with_apics s ap) = vdom s" "stopped (with_apics s ap) = stopped s"
  "vtxInfo (with_apics s ap) = vtxInfo s" "hostIf (with_apics s ap) = hostIf s" "apic (with_apics s ap) x = ap x"
  "with_apics (with_apics s ap) ap' = with_apics s ap'" "with_apics s (apic s) = s"
  by (simp_all add: with_apics_def)

lemma with_apics_same: "ap = apic s \<Longrightarrow> with_apics s ap = s"
  by simp

lemma upd_apic_with:
  assumes "\<not> stopped s" shows "upd_apic x f s = with_apics s ((apic s)(x := f (apic s x)))"
proof -
  have "(vtx s)(x := (vtx s x)\<lparr>x2apic := f (apic s x)\<rparr>) = (\<lambda>y. (vtx s y)\<lparr>x2apic := ((apic s)(x := f (apic s x))) y\<rparr>)"
    by (rule ext) simp
  then show ?thesis using assms by (simp add: primitive_defs with_apics_def del: fun_upd_apply)
qed

text \<open>The APICs with the numbers in \<open>A\<close>, and the state after a message to them.\<close>

definition on_numbers :: "addr \<Rightarrow> nat set \<Rightarrow> 'p vmstate \<Rightarrow> addr set" where
  "on_numbers d A s = {x. Some x \<in> apicBus (vdom s d) ` A}"

definition broadcast :: "addr \<Rightarrow> addr \<Rightarrow> u8 \<Rightarrow> u8 \<Rightarrow> nat set \<Rightarrow> 'p vmstate \<Rightarrow> 'p vmstate" where
  "broadcast t d dm v A s = with_apics s (delivered t dm v (on_numbers d A s) (apic s))"

lemma broadcast_simps [simp]:
  "kern (broadcast t d dm v A s) = kern s" "vdom (broadcast t d dm v A s) = vdom s" "stopped (broadcast t d dm v A s) = stopped s"
  "vtxInfo (broadcast t d dm v A s) = vtxInfo s" "hostIf (broadcast t d dm v A s) = hostIf s"
  "apic (broadcast t d dm v A s) x = delivered t dm v (on_numbers d A s) (apic s) x"
  by (simp_all add: broadcast_def)

lemma broadcast_none [simp]: "broadcast t d dm v {} s = s"
  by (simp add: broadcast_def on_numbers_def)

lemma latch_effect:
  assumes "packet_ok dm" "\<not> stopped s" "hostIf s"
  shows "with_latch (latch_packet t (x = t) x v dm) s = with_apics s (delivered t dm v {x} (apic s))"
proof -
  have h: "set_if False s = s\<lparr>hostIf := False\<rparr>" using assms(2) by (simp add: set_if_def)
  let ?s = "s\<lparr>hostIf := False\<rparr>"
  have s: "\<not> stopped ?s" "apic ?s = apic s" using assms(2) by simp_all
  have "latch_packet t (x = t) x v dm ?s = with_apics ?s (delivered t dm v {x} (apic ?s))"
  proof (cases "illegal dm v")
    case True
    then have "dm = IA32E_DM_NORMAL" "v \<le> 15" "delivered t dm v {x} (apic s) = send_error t {x} (apic s)"
      by (simp_all add: illegal_def delivered_def fun_eq_iff)
    then show ?thesis unfolding s(2)
      by (simp add: latch_packet_def upd_apic_with s Let_def esr_flagged_def[symmetric])
        (auto simp: send_error_def fun_eq_iff intro!: arg_cong[where f = "with_apics s" for s] with_apics_same[symmetric])
  next
    case False
    then have v: "dm = IA32E_DM_NORMAL \<Longrightarrow> \<not> v \<le> 15" by (simp add: illegal_def)
    have d: "delivered t dm v {x} (apic s) = (apic s)(x := received dm v (x = t) (apic s x))"
      using False by (simp add: delivered_def fun_eq_iff)
    show ?thesis using assms(1) v unfolding s(2) d packet_ok_def
      by (auto simp: latch_packet_def upd_apic_with s received_def fun_eq_iff intro!: with_apics_same[symmetric])
  qed
  then show ?thesis unfolding with_latch_def h using assms(2,3) by (simp add: set_if_def with_apics_def)
qed

lemma send_broadcast:
  assumes "on_bus t d s" "packet_ok dm" "A \<subseteq> {..< unat (numVcpus (vdom s d))}" "unat i \<notin> A"
  shows "ia32eEmulatorX2apicSendPacket t i v dm (broadcast t d dm v A s) =
    broadcast t d dm v (A \<union> ({unat i} \<inter> {..< unat (numVcpus (vdom s d))})) s"
proof (cases "i < numVcpus (vdom s d)")
  case False
  then show ?thesis using assms(1)
    by (auto simp: ia32eEmulatorX2apicSendPacket_def on_bus_def Let_def vassert_holds word_less_nat_alt word_le_nat_alt)
next
  case True
  let ?bus = "apicBus (vdom s d)" and ?n = "unat (numVcpus (vdom s d))" and ?vcpu = "vcpuId (vtxInfo s t)"
  have b: "\<not> stopped s" "hostIf s" "curDom s t = Some d" "?vcpu < numVcpus (vdom s d)" "?bus (unat ?vcpu) = Some t"
      "\<And>i. i < ?n \<Longrightarrow> \<exists>x. ?bus i = Some x" "inj_on ?bus {..< ?n}"
    using assms(1) by (simp_all add: on_bus_def)
  have i: "unat i < ?n" "unat ?vcpu < ?n" using True b(4) by (simp_all add: word_less_nat_alt)
  obtain x where x: "?bus (unat i) = Some x" using b(6)[OF i(1)] by blast
  have self: "i = ?vcpu \<longleftrightarrow> x = t"
  proof
    assume "x = t"
    then have "unat i = unat ?vcpu" using inj_onD[OF b(7), of "unat i" "unat ?vcpu"] x b(5) i by simp
    then show "i = ?vcpu" by (simp add: word_unat_eq_iff)
  qed (use x b(5) in simp)
  have nA: "Some x \<notin> ?bus ` A"
  proof
    assume "Some x \<in> ?bus ` A"
    then obtain j where j: "j \<in> A" "?bus j = ?bus (unat i)" using x by auto
    then show False using inj_onD[OF b(7) j(2)] assms(3,4) i(1) by auto
  qed
  have "\<not> i \<ge> numVcpus (vdom s d)" using True by simp
  then have "ia32eEmulatorX2apicSendPacket t i v dm (broadcast t d dm v A s) =
      with_latch (latch_packet t (x = t) x v dm) (broadcast t d dm v A s)"
    unfolding ia32eEmulatorX2apicSendPacket_def Let_def self[symmetric] by (simp add: b(1-3) x vassert_holds)
  also have "\<dots> = broadcast t d dm v (A \<union> {unat i}) s"
  proof -
    have ins: "on_numbers d (insert (unat i) A) s = insert x (on_numbers d A s)" using x by (auto simp: on_numbers_def)
    have "delivered t dm v {x} (apic (broadcast t d dm v A s)) = delivered t dm v (insert x (on_numbers d A s)) (apic s)"
      using delivered_more[of x "on_numbers d A s" t dm v "apic s"] nA by (simp add: on_numbers_def)
    then show ?thesis using latch_effect[OF assms(2), of "broadcast t d dm v A s" t x v] b(1,2)
      by (simp add: broadcast_def ins)
  qed
  finally show ?thesis using i(1) by simp
qed

subsection \<open>Many messages\<close>

lemma fold_broadcast:
  assumes "on_bus t d s" "packet_ok dm" "distinct is" "set is \<subseteq> {..< unat (numVcpus (vdom s d))}"
    and "A \<subseteq> {..< unat (numVcpus (vdom s d))}" "A \<inter> set is = {}"
  shows "fold (\<lambda>i. ia32eEmulatorX2apicSendPacket t (word_of_nat i) v dm) is (broadcast t d dm v A s) = broadcast t d dm v (A \<union> set is) s"
  using assms(3-6)
proof (induction "is" arbitrary: A)
  case (Cons i js)
  have "i < unat (numVcpus (vdom s d))" using Cons.prems(2) by simp
  then have i: "unat (word_of_nat i :: u8) = i" using u8_bound[of "numVcpus (vdom s d)"] by (simp add: unat_word_of_nat)
  have "ia32eEmulatorX2apicSendPacket t (word_of_nat i) v dm (broadcast t d dm v A s) = broadcast t d dm v (insert i A) s"
    using send_broadcast[OF assms(1,2) Cons.prems(3), of "word_of_nat i"] Cons.prems i by simp
  then show ?case using Cons.IH[of "insert i A"] Cons.prems by simp
qed simp

text \<open>The loop over the bits of a logical destination.\<close>

lemma logical_broadcast:
  assumes "on_bus t d s" "packet_ok dm" "c < 16" "\<And>b. bit dest b \<Longrightarrow> b < 16"
    and "A \<subseteq> {..< unat (numVcpus (vdom s d))}" "\<And>b. bit dest b \<Longrightarrow> unat c * 16 + b \<notin> A"
  shows "logical_loop t c v dm dest (broadcast t d dm v A s) =
    broadcast t d dm v (A \<union> ({unat c * 16 + b |b. bit dest b} \<inter> {..< unat (numVcpus (vdom s d))})) s"
  using assms(4-6)
proof (induction "unat dest" arbitrary: dest A rule: less_induct)
  case less
  show ?case
  proof (cases "dest = 0")
    case True
    then show ?thesis by (simp add: logical_loop.simps[of t c v dm 0] ffs32_def)
  next
    case False
    let ?b = "nat (ffs32 dest)" and ?n = "unat (numVcpus (vdom s d))"
    let ?id = "c * 16 + word_of_nat ?b" and ?rest = "dest AND NOT (push_bit ?b 1)"
    have f: "ffs32 dest \<noteq> -1" using ffs32_bit(1)[OF False] by simp
    have b: "bit dest ?b" "?b < 16" using ffs32_bit(3)[OF False] less.prems(1) by blast+
    have c: "unat c < 16" using assms(3) by (simp add: word_less_nat_alt)
    have id: "unat ?id = unat c * 16 + ?b"
      using b(2) c by (simp add: unat_word_of_nat unat_word_ariths)
    have id8: "unat (ucast ?id :: u8) = unat c * 16 + ?b" "?id \<le> 255"
      using b(2) c id by (simp_all add: unsigned_ucast_eq take_bit_nat_eq_self word_le_nat_alt)
    have r: "bit ?rest j \<longleftrightarrow> bit dest j \<and> j \<noteq> ?b" for j by (rule bit_clear_1)
    have step: "ia32eEmulatorX2apicSendPacket t (ucast ?id) v dm (broadcast t d dm v A s) =
        broadcast t d dm v (A \<union> ({unat c * 16 + ?b} \<inter> {..< ?n})) s"
      using send_broadcast[OF assms(1,2) less.prems(2), of "ucast ?id"] less.prems(3)[OF b(1)] unfolding id8(1) by simp
    have "logical_loop t c v dm dest (broadcast t d dm v A s) =
        logical_loop t c v dm ?rest (broadcast t d dm v (A \<union> ({unat c * 16 + ?b} \<inter> {..< ?n})) s)"
      using f id8(2) step by (simp add: logical_loop.simps[of t c v dm dest] Let_def vassert_holds del: push_bit_of_1)
    also have "\<dots> = broadcast t d dm v (A \<union> ({unat c * 16 + ?b} \<inter> {..< ?n}) \<union> ({unat c * 16 + j |j. bit ?rest j} \<inter> {..< ?n})) s"
    proof (rule less.hyps)
      show "unat ?rest < unat dest" using clear_lowest_less[OF f] by (simp add: word_less_nat_alt)
    qed (use less.prems r in auto)
    also have "A \<union> ({unat c * 16 + ?b} \<inter> {..< ?n}) \<union> ({unat c * 16 + j |j. bit ?rest j} \<inter> {..< ?n}) =
        A \<union> ({unat c * 16 + j |j. bit dest j} \<inter> {..< ?n})"
      unfolding r using b(1) by auto
    finally show ?thesis .
  qed
qed

subsection \<open>The command register\<close>

text \<open>The numbers that a command addresses, in a virtual machine of \<open>n\<close> virtual CPUs.\<close>

definition addressed :: "u64 \<Rightarrow> nat \<Rightarrow> nat \<Rightarrow> nat set" where
  "addressed val n self =
    {i. i < n \<and>
      (if icr_shorthand val = 0
       then (if icr_logical val
             then i div 16 = unat (drop_bit 16 (icr_dest val)) \<and> bit (icr_dest val) (i mod 16)
             else i = unat (icr_dest val))
       else if icr_shorthand val = 1 then i = self
       else if icr_shorthand val = 2 then True
       else i \<noteq> self)}"

lemma cluster_bound: "n < 256 \<Longrightarrow> c \<ge> (word_of_nat n + 15) div 16 \<longleftrightarrow> unat c \<ge> (n + 15) div 16" for c :: u32
  by (simp add: word_le_nat_alt unat_div unat_word_ariths unat_word_of_nat)

lemma low_bits: "bit (dest AND 0xffff) b \<longleftrightarrow> bit dest b \<and> b < 16" for dest :: u32
proof -
  have "(0xffff :: u32) = mask 16" by (simp add: mask_eq_exp_minus_1)
  then show ?thesis by (simp only: bit_and_iff bit_mask_iff) (auto dest: bit_imp_le_length)
qed

lemma addressed_logical:
  fixes dest :: u32
  assumes "n < 256"
  shows "{i. i < n \<and> i div 16 = unat (drop_bit 16 dest) \<and> bit dest (i mod 16)} =
    (if drop_bit 16 dest \<ge> (word_of_nat n + 15) div 16 then {}
     else {unat (drop_bit 16 dest) * 16 + b |b. bit (dest AND 0xffff) b} \<inter> {..<n})"
proof -
  let ?c = "unat (drop_bit 16 dest)"
  note m = low_bits[of dest]
  note k = cluster_bound[OF assms, of "drop_bit 16 dest"]
  have "i div 16 < (n + 15) div 16" if "i < n" for i using that by linarith
  moreover have "i = (i div 16) * 16 + i mod 16" for i :: nat by simp
  moreover have "\<exists>b. i = ?c * 16 + b \<and> bit dest b \<and> b < 16" if "i div 16 = ?c" "bit dest (i mod 16)" for i
    using that div_mult_mod_eq[of i 16] by (intro exI[of _ "i mod 16"]) (simp add: mult.commute)
  ultimately show ?thesis unfolding k m by (auto simp: not_le[symmetric])
qed

lemma fold_if_filter: "fold (\<lambda>i s. if P i then f i s else s) xs = fold f (filter P xs)"
  by (induction xs) (simp_all add: fun_eq_iff)

lemma icr_send_broadcast:
  assumes "on_bus t d s" "packet_ok (icr_mode val)"
  shows "icr_send t val (numVcpus (vdom s d)) s =
    broadcast t d (icr_mode val) (icr_vector val)
      (addressed val (unat (numVcpus (vdom s d))) (unat (vcpuId (vtxInfo s t)))) s"
proof -
  let ?n = "unat (numVcpus (vdom s d))" and ?dm = "icr_mode val" and ?v = "icr_vector val" and ?dest = "icr_dest val"
  let ?self = "vcpuId (vtxInfo s t)" and ?B = "\<lambda>A. broadcast t d (icr_mode val) (icr_vector val) A s"
  have n: "?n < 256" by (rule u8_bound)
  have vs: "unat ?self < ?n" using assms(1) by (simp add: on_bus_def word_less_nat_alt)
  consider (logical) "icr_shorthand val = 0" "icr_logical val" | (physical) "icr_shorthand val = 0" "\<not> icr_logical val"
    | (self) "icr_shorthand val = 1" | (all) "icr_shorthand val = 2" | (others) "icr_shorthand val \<notin> {0, 1, 2}" by blast
  then show ?thesis
  proof cases
    case self
    then have "addressed val ?n (unat ?self) = {unat ?self}" using vs by (auto simp: addressed_def)
    then show ?thesis using self send_broadcast[OF assms, of "{}" ?self] vs by (simp add: icr_send_def Let_def)
  next
    case all
    then have "addressed val ?n (unat ?self) = set [0..<?n]" by (auto simp: addressed_def)
    then show ?thesis using all fold_broadcast[OF assms, of "[0..<?n]" "{}"] by (simp add: icr_send_def Let_def subset_iff)
  next
    case physical
    then have "addressed val ?n (unat ?self) = {unat ?dest} \<inter> {..<?n}" by (auto simp: addressed_def)
    moreover have "?dest < ucast (numVcpus (vdom s d)) \<longleftrightarrow> unat ?dest < ?n"
      using n by (simp add: word_less_nat_alt unsigned_ucast_eq take_bit_nat_eq_self)
    moreover have "unat ?dest < ?n \<Longrightarrow> unat (ucast ?dest :: u8) = unat ?dest"
      using n by (simp add: unsigned_ucast_eq take_bit_nat_eq_self)
    ultimately show ?thesis using physical send_broadcast[OF assms, of "{}" "ucast ?dest"] by (simp add: icr_send_def Let_def)
  next
    case logical
    let ?c = "drop_bit 16 ?dest"
    have w: "(ucast (numVcpus (vdom s d)) :: u32) = word_of_nat ?n" by simp
    have a: "addressed val ?n (unat ?self) = (if ?c \<ge> (word_of_nat ?n + 15) div 16 then {}
        else {unat ?c * 16 + b |b. bit (?dest AND 0xffff) b} \<inter> {..<?n})"
      using logical addressed_logical[OF n, of ?dest] by (simp add: addressed_def)
    show ?thesis
    proof (cases "?c \<ge> (word_of_nat ?n + 15) div 16")
      case True
      then show ?thesis using logical unfolding a w icr_send_def Let_def by simp
    next
      case False
      then have "unat ?c < 16" using cluster_bound[OF n, of ?c] n by linarith
      then have "?c < 16" by (simp add: word_less_nat_alt)
      then have "logical_loop t ?c ?v ?dm (?dest AND 0xffff) s =
          ?B ({unat ?c * 16 + b |b. bit (?dest AND 0xffff) b} \<inter> {..<?n})"
        using logical_broadcast[OF assms, of ?c "?dest AND 0xffff" "{}"] low_bits by simp
      then show ?thesis using logical False unfolding a icr_send_def Let_def w by simp
    qed
  next
    case others
    let ?js = "filter (\<lambda>i. i \<noteq> unat ?self) [0..<?n]"
    have "addressed val ?n (unat ?self) = set ?js" using others by (auto simp: addressed_def)
    then show ?thesis using others fold_broadcast[OF assms, of ?js "{}"]
      by (simp add: icr_send_def Let_def subset_iff fold_if_filter)
  qed
qed

lemma icr_mode_range: "icr_mode val \<in> {0, 1, 2, 3, 4, 5, 6, 7}"
proof -
  have "drop_bit 8 val AND 7 \<le> 7" by (rule word_and_le1)
  then have "unat (drop_bit 8 val AND 7) \<le> 7" by (simp add: word_le_nat_alt)
  then have "unat (icr_mode val) \<le> 7" by (simp add: icr_mode_def unsigned_ucast_eq take_bit_nat_eq_self)
  then have "unat (icr_mode val) \<in> {0, 1, 2, 3, 4, 5, 6, 7}" unfolding insert_iff empty_iff by presburger
  then have "icr_mode val \<in> word_of_nat ` {0, 1, 2, 3, 4, 5, 6, 7}" by (rule image_eqI[rotated]) simp
  then show ?thesis by auto
qed

lemma icr_write:
  assumes "on_bus t d s"
  shows "ia32eEmulatorX2apicHandleIcrWrite t val s =
    (if val AND 0xfff33000 \<noteq> 0 \<or> icr_mode val \<in> {IA32E_DM_LOW_PRIORITY, IA32E_DM_RESERVED0, IA32E_DM_EXTERNAL} then (False, s)
     else (True, broadcast t d (icr_mode val) (icr_vector val)
       (if icr_mode val = IA32E_DM_SMI then {}
        else addressed val (unat (numVcpus (vdom s d))) (unat (vcpuId (vtxInfo s t))))
       (s\<lparr>vtx := (vtx s)(t := (vtx s t)\<lparr>x2apic := (apic s t)\<lparr>icr := val\<rparr>\<rparr>)\<rparr>)))"
proof -
  let ?s1 = "s\<lparr>vtx := (vtx s)(t := (vtx s t)\<lparr>x2apic := (apic s t)\<lparr>icr := val\<rparr>\<rparr>)\<rparr>"
  have b: "on_bus t d ?s1" "\<not> stopped s" "curDom s t = Some d" using assms by (simp_all add: on_bus_def)
  have c: "ia32eEmulatorDomainVcpuCount t s = (numVcpus (vdom s d), s)"
    using b(3) by (simp add: ia32eEmulatorDomainVcpuCount_def Let_def vassert_holds)
  have u: "upd_apic t (\<lambda>a. a\<lparr>icr := val\<rparr>) s = ?s1" using b(2) by (simp add: primitive_defs)
  have "packet_ok (icr_mode val)"
    if "icr_mode val \<notin> {IA32E_DM_LOW_PRIORITY, IA32E_DM_RESERVED0, IA32E_DM_EXTERNAL}" "icr_mode val \<noteq> IA32E_DM_SMI"
    using that icr_mode_range[of val] by (auto simp: packet_ok_def)
  then show ?thesis
    using icr_send_broadcast[OF b(1), of val] unfolding ia32eEmulatorX2apicHandleIcrWrite_def c prod.case Let_def u by auto
qed

subsection \<open>Messages to other virtual machines\<close>

text \<open>When the router accepts a message, and the APIC that it goes to.\<close>

definition router_target :: "'p vtxEnv \<Rightarrow> addr \<Rightarrow> u64 \<Rightarrow> 'p vmstate \<Rightarrow> ptr" where
  "router_target V t val s =
    (let did = ucast (val AND 0xffffffff) :: u32; dest = ucast (drop_bit 32 val AND 0xff) :: u8;
         vector = ucast (drop_bit 40 val AND 0xff) :: u8; nmi = drop_bit 48 val AND 1 \<noteq> 0
     in case (kDomainUniverseGet (kernelEnv V) did (kern s), curDom s t) of
          (Some recv, Some send) \<Rightarrow>
            if drop_bit 49 val = 0 \<and> (nmi \<or> vector > 15) \<and> vm (vdom s recv) \<and> dest < numVcpus (vdom s recv)
              \<and> bm_test (invokePermMap (invocationInfo (domains (kern s) send))) (unat did)
            then apicBus (vdom s recv) (unat dest) else None
        | _ \<Rightarrow> None)"

lemma ipi_router:
  assumes "\<not> stopped s" "hostIf s" "curDom s t \<noteq> None"
    and "\<And>d i. vm (vdom s d) \<Longrightarrow> i < unat (numVcpus (vdom s d)) \<Longrightarrow> apicBus (vdom s d) i \<noteq> None"
  shows "ia32eEmulatorIpiRouter V t val s =
    (case router_target V t val s of
       None \<Rightarrow> (False, s)
     | Some x \<Rightarrow> (True, s\<lparr>vtx := (vtx s)(x := (vtx s x)\<lparr>x2apic :=
         received (if drop_bit 48 val AND 1 \<noteq> 0 then IA32E_DM_NMI else IA32E_DM_NORMAL) (ucast (drop_bit 40 val AND 0xff)) False
           (apic s x)\<rparr>)\<rparr>))"
proof -
  have n: "\<exists>x. apicBus (vdom s r) (unat w) = Some x" if "vm (vdom s r)" "\<not> numVcpus (vdom s r) \<le> w" for w r
    using that assms(4)[of r "unat w"] by (simp add: word_le_nat_alt not_le)
  have l: "with_latch (upd_apic x (\<lambda>a. a\<lparr>nmiPending := True\<rparr>)) s =
      s\<lparr>vtx := (vtx s)(x := (vtx s x)\<lparr>x2apic := received IA32E_DM_NMI v False (apic s x)\<rparr>)\<rparr>"
    "with_latch (\<lambda>s. if apic_enabled (apic s x)
        then upd_apic x (\<lambda>a. a\<lparr>latchedIrr := set_vector (unat v) (latchedIrr a)\<rparr>) s else s) s =
      s\<lparr>vtx := (vtx s)(x := (vtx s x)\<lparr>x2apic := received IA32E_DM_NORMAL v False (apic s x)\<rparr>)\<rparr>" for v x
    using assms(1,2) by (simp_all add: with_latch_def primitive_defs received_def)
  obtain send where c: "curDom s t = Some send" using assms(3) by blast
  let ?dest = "ucast (drop_bit 32 val AND 0xff) :: u8"
  show ?thesis
  proof (cases "kDomainUniverseGet (kernelEnv V) (ucast (val AND 0xffffffff)) (kern s)")
    case None
    then show ?thesis by (simp add: ia32eEmulatorIpiRouter_def router_target_def Let_def)
  next
    case (Some recv)
    show ?thesis
      using n[of recv ?dest] unfolding ia32eEmulatorIpiRouter_def router_target_def Let_def Some c prod.case option.case
      by (auto simp: l not_le[symmetric] vassert_holds)
  qed
qed

end
