(* ===== verification/VmRegs.thy ===== *)
theory VmRegs
  imports VmIpi
begin

text \<open>
  What a guest sees of its registers: the counter of the timer, the model specific registers that it writes and
  reads back, and the control register that it may set to legal values only.
\<close>

subsection \<open>The timer\<close>

lemma divisor_pos: "x2apic_divisor d = Some k \<Longrightarrow> 0 < unat k"
  by (auto simp: x2apic_divisor_def split: if_splits)

lemma compress_effect:
  "x2apic_divisor d = Some k \<Longrightarrow> ia32eEmulatorX2apicCompressCounter c d s = (c div k, s)"
  "x2apic_divisor d = Some k \<Longrightarrow> ia32eEmulatorX2apicDecompressCounter c d s = (c * k, s)"
  by (simp_all add: ia32eEmulatorX2apicCompressCounter_def ia32eEmulatorX2apicDecompressCounter_def)

text \<open>Counting in units of the divider never wraps.\<close>

lemma decompress_exact:
  fixes c n k :: u32
  assumes "c \<le> n div k" "0 < unat k"
  shows "unat (c * k) = unat c * unat k" "unat c * unat k \<le> unat n"
proof -
  have "unat c \<le> unat n div unat k" using assms(1) by (simp add: word_le_nat_alt unat_div)
  then have "unat c * unat k \<le> (unat n div unat k) * unat k" by (rule mult_le_mono1)
  also have "\<dots> \<le> unat n" by simp
  finally show l: "unat c * unat k \<le> unat n" .
  moreover have "unat n < 2 ^ 32" using unsigned_less[of n] by simp
  ultimately have "unat c * unat k < 2 ^ 32" by (rule le_less_trans)
  then show "unat (c * k) = unat c * unat k" by (simp add: unat_word_ariths)
qed

lemma timer_bits:
  assumes "\<not> stopped s" "\<And>f. vmwriteOk V f"
  shows "timer_running t (timer_on V t s)" "\<not> timer_running t (timer_off V t s)"
    "ia32eVmread t GUEST_VMX_PREEMPTION_TIMER_VALUE (timer_on V t s) = ia32eVmread t GUEST_VMX_PREEMPTION_TIMER_VALUE s"
    "vtx (timer_on V t s) = vtx s" "kern (timer_on V t s) = kern s" "stopped (timer_on V t s) = stopped s"
    "vtx (timer_off V t s) = vtx s" "kern (timer_off V t s) = kern s" "stopped (timer_off V t s) = stopped s"
  using assms by (auto simp: timer_on_def timer_off_def timer_running_def testBitLe_bit Let_def bit_simps)

lemma reset_counter_effect:
  fixes t :: addr and V :: "'p vtxEnv"
  assumes "\<not> stopped s" "\<And>f. vmwriteOk V f" "x2apic_divisor (ucast (dcr (apic s t))) = Some k" "initCount (apic s t) \<noteq> 0"
  defines "s' \<equiv> ia32eEmulatorX2apicResetCounter V t s"
  shows "timer_running t s'" "ia32eVmread t GUEST_VMX_PREEMPTION_TIMER_VALUE s' = ucast (initCount (apic s t) div k)"
    "vtx s' = vtx s" "kern s' = kern s" "\<not> stopped s'"
proof -
  have e: "s' = set_vmcs t GUEST_VMX_PREEMPTION_TIMER_VALUE (ucast (initCount (apic s t) div k))
      (if timer_running t s then s else timer_on V t s)"
    using assms(2-4) by (simp add: s'_def ia32eEmulatorX2apicResetCounter_def Let_def compress_effect)
  note b = timer_bits[OF assms(1,2)]
  show "timer_running t s'" using assms(1) b unfolding e by (simp add: timer_running_def)
  show "ia32eVmread t GUEST_VMX_PREEMPTION_TIMER_VALUE s' = ucast (initCount (apic s t) div k)" "vtx s' = vtx s"
      "kern s' = kern s" "\<not> stopped s'"
    unfolding e using assms(1) b by simp_all
qed

lemma read_counter_effect:
  assumes "timer_running t s" "x2apic_divisor (ucast (dcr (apic s t))) = Some k"
  shows "ia32eEmulatorX2apicReadCounter t s = (ucast (ia32eVmread t GUEST_VMX_PREEMPTION_TIMER_VALUE s) * k, s)"
  using assms by (simp add: ia32eEmulatorX2apicReadCounter_def compress_effect)

lemma set_dcr_effect:
  fixes t :: addr and V :: "'p vtxEnv"
  assumes "\<not> stopped s" "\<And>f. vmwriteOk V f" "timer_running t s" "x2apic_divisor (ucast (dcr (apic s t))) = Some k"
    and "x2apic_divisor (ucast d) = Some k'" "d \<noteq> dcr (apic s t)"
  defines "s' \<equiv> ia32eEmulatorX2apicSetDcr V t d s"
  shows "timer_running t s'" "dcr (apic s' t) = d" "kern s' = kern s" "\<not> stopped s'"
    "ia32eVmread t GUEST_VMX_PREEMPTION_TIMER_VALUE s' =
       ucast ((ucast (ia32eVmread t GUEST_VMX_PREEMPTION_TIMER_VALUE s) * k) div k')"
  using assms by (auto simp: s'_def ia32eEmulatorX2apicSetDcr_def Let_def compress_effect timer_running_def)

text \<open>What the guest reads after the timer has counted down to \<open>c\<close> units.\<close>

lemma timer_reads:
  fixes c n k k' :: u32
  assumes "c \<le> n div k" "0 < unat k" "0 < unat k'"
  shows "unat (c * k) = unat c * unat k" "unat (c * k) \<le> unat n"
    "unat ((c * k) div k' * k') = unat (c * k) div unat k' * unat k'"
    "unat ((c * k) div k' * k') \<le> unat (c * k)" "unat (c * k) < unat ((c * k) div k' * k') + unat k'"
proof -
  note e = decompress_exact[OF assms(1,2)]
  show "unat (c * k) = unat c * unat k" "unat (c * k) \<le> unat n" using e by simp_all
  note f = decompress_exact[OF order_refl assms(3), of "c * k"]
  show r: "unat ((c * k) div k' * k') = unat (c * k) div unat k' * unat k'" using f(1) by (simp add: unat_div)
  show "unat ((c * k) div k' * k') \<le> unat (c * k)" unfolding r by simp
  show "unat (c * k) < unat ((c * k) div k' * k') + unat k'"
    unfolding r using assms(3) mod_less_divisor[of "unat k'" "unat (c * k)"] div_mult_mod_eq[of "unat (c * k)" "unat k'"] by linarith
qed

subsection \<open>Registers that read back what was written\<close>

lemma high_bits:
  fixes val :: u64
  assumes "val AND NOT (mask n) = 0" "n < 64"
  shows "bit val j \<Longrightarrow> j < n"
proof -
  assume b: "bit val j"
  have "\<not> bit (val AND NOT (mask n)) j" using assms(1) by simp
  then show "j < n" using b bit_imp_le_length[OF b] by (simp add: bit_simps)
qed

lemma low32:
  fixes val :: u64
  assumes "val AND NOT 0xffffffff = 0" shows "ucast (ucast val :: u32) = val"
proof -
  have m: "(0xffffffff :: u64) = mask 32" by (simp add: mask_eq_exp_minus_1)
  show ?thesis using high_bits[OF assms[unfolded m]] by (intro bit_word_eqI) (auto simp: bit_simps)
qed

lemma low8:
  fixes val :: u64
  assumes "val AND NOT 0xff = 0" shows "ucast (ucast val :: u8) = val" "bit val j \<Longrightarrow> j < 8"
proof -
  have m: "(0xff :: u64) = mask 8" by (simp add: mask_eq_exp_minus_1)
  show "ucast (ucast val :: u8) = val" using high_bits[OF assms[unfolded m]] by (intro bit_word_eqI) (auto simp: bit_simps)
  show "bit val j \<Longrightarrow> j < 8" using high_bits[OF assms[unfolded m]] by simp
qed

lemma low32_masked:
  fixes val :: u64
  assumes "val AND m = 0" "m AND NOT 0xffffffff = NOT 0xffffffff" shows "ucast (ucast val :: u32) = val"
proof (rule low32)
  have "val AND NOT 0xffffffff = (val AND m) AND NOT 0xffffffff" by (simp only: and.assoc assms(2))
  then show "val AND NOT 0xffffffff = 0" by (simp add: assms(1))
qed

text \<open>The registers of the APIC that hold what the guest writes, and two more.\<close>

definition readback_msrs :: "u32 set" where
  "readback_msrs = {IA32E_BIOS_SIGN_ID, IA32E_APIC_BASE, IA32E_X2APIC_TPR, IA32E_X2APIC_SIVR, IA32E_X2APIC_LVT_TIMER,
     IA32E_X2APIC_LVT_TSR, IA32E_X2APIC_LVT_PMCR, IA32E_X2APIC_LVT_LINT0, IA32E_X2APIC_LVT_LINT1, IA32E_X2APIC_LVT_ERROR,
     IA32E_X2APIC_TIMER_INIT_COUNT, IA32E_X2APIC_DIV_CONF}"

lemma apic_base_value:
  fixes val :: u64
  assumes "val AND (push_bit 48 0xffff OR 0xff OR 0x200) = 0" "NOT val AND 0xc00 = 0"
  shows "(val AND NOT 0xfff) OR 0x400 OR 0x800 OR (if val AND 0x100 \<noteq> 0 then 0x100 else 0) = val"
proof -
  have z: "val AND 0xff = 0" "val AND 0x200 = 0" using assms(1) unfolding bit.conj_disj_distrib or_eq_0_iff by simp_all
  have c: "val AND 0xc00 = 0xc00"
  proof -
    have "0xc00 = (val OR NOT val) AND 0xc00" by simp
    also have "\<dots> = val AND 0xc00" unfolding bit.conj_disj_distrib2 assms(2) by simp
    finally show ?thesis by simp
  qed
  have p: "val AND push_bit 8 1 = (if bit val 8 then push_bit 8 1 else 0)"
    by (rule bit_word_eqI) (auto simp: bit_simps simp del: push_bit_of_1)
  then have b: "val AND 0x100 \<noteq> 0 \<Longrightarrow> val AND 0x100 = 0x100" by (simp split: if_splits)
  have "val AND 0xfff = ((val AND 0xff) OR (val AND 0x200)) OR ((val AND 0xc00) OR (val AND 0x100))"
    by (simp flip: bit.conj_disj_distrib)
  then have l: "val AND 0xfff = 0xc00 OR (val AND 0x100)" unfolding z c by simp
  have "val = (val AND NOT 0xfff) OR (val AND 0xfff)" by (simp flip: bit.conj_disj_distrib)
  then have v: "val = (val AND NOT 0xfff) OR 0xc00 OR (val AND 0x100)" unfolding l by (simp add: or.assoc)
  have "(val AND NOT 0xfff) OR 0x400 OR 0x800 = (val AND NOT 0xfff) OR 0xc00" by (simp add: or.assoc)
  then show ?thesis using v b by (cases "val AND 0x100 = 0") simp_all
qed

lemma tpr_value:
  fixes val :: u64
  assumes "val AND NOT 0xff = 0"
  shows "push_bit 4 (ucast ((ucast (drop_bit 4 val) :: u8) AND 15)) OR ucast (ucast (val AND 0xf) :: u8) = val"
proof -
  have m: "(15 :: u8) = mask 4" "(0xf :: u64) = mask 4" by (simp_all add: mask_eq_exp_minus_1)
  show ?thesis unfolding m
    by (rule bit_word_eqI) (auto simp: bit_simps dest: low8(2)[OF assms])
qed

lemma dcr_value:
  fixes val :: u64
  assumes "val AND (NOT 0xf OR 4) = 0"
  shows "ucast (ucast val :: u8) = val"
proof -
  have z: "val AND NOT 0xf = 0" using assms unfolding bit.conj_disj_distrib or_eq_0_iff by simp
  have "NOT 0xf AND NOT 0xff = (NOT 0xff :: u64)" by simp
  then have "val AND NOT 0xff = (val AND NOT 0xf) AND NOT 0xff" by (simp only: and.assoc)
  then show ?thesis using z by (intro low8(1)) simp
qed

lemma apic_kept:
  assumes "\<And>f. vmwriteOk V f" "x2apic_divisor (ucast (dcr (apic s t))) \<noteq> None"
  shows "vtx (ia32eEmulatorX2apicResetCounter V t s) = vtx s"
  using assms by (auto simp: ia32eEmulatorX2apicResetCounter_def Let_def compress_effect timer_on_def timer_off_def)

lemma lvt_reads_back:
  assumes "\<not> stopped s" "wrmsr_effect V t m val s = (Some True, s')"
    and "m \<in> {IA32E_X2APIC_LVT_TIMER, IA32E_X2APIC_LVT_TSR, IA32E_X2APIC_LVT_PMCR, IA32E_X2APIC_LVT_LINT0,
      IA32E_X2APIC_LVT_LINT1, IA32E_X2APIC_LVT_ERROR}"
  shows "fst (rdmsr_value V t m s') = Some val"
  using assms(3)
proof (elim insertE; (elim emptyE)?)
  assume m: "m = IA32E_X2APIC_LVT_TIMER"
  show ?thesis using assms(1,2) low32_masked[of val LVT_TIMER_WRITE_RESERVED_MASK] unfolding m
    by (auto simp: wrmsr_effect_def rdmsr_value_def Let_def split: if_splits)
next
  assume m: "m = IA32E_X2APIC_LVT_TSR"
  show ?thesis using assms(1,2) low32_masked[of val LVT_TSR_WRITE_RESERVED_MASK] unfolding m
    by (auto simp: wrmsr_effect_def rdmsr_value_def Let_def split: if_splits)
next
  assume m: "m = IA32E_X2APIC_LVT_PMCR"
  show ?thesis using assms(1,2) low32_masked[of val LVT_PMCR_WRITE_RESERVED_MASK] unfolding m
    by (auto simp: wrmsr_effect_def rdmsr_value_def Let_def split: if_splits)
next
  assume m: "m = IA32E_X2APIC_LVT_LINT0"
  show ?thesis using assms(1,2) low32_masked[of val LVT_LINT_WRITE_RESERVED_MASK] unfolding m
    by (auto simp: wrmsr_effect_def rdmsr_value_def Let_def split: if_splits)
next
  assume m: "m = IA32E_X2APIC_LVT_LINT1"
  show ?thesis using assms(1,2) low32_masked[of val LVT_LINT_WRITE_RESERVED_MASK] unfolding m
    by (auto simp: wrmsr_effect_def rdmsr_value_def Let_def split: if_splits)
next
  assume m: "m = IA32E_X2APIC_LVT_ERROR"
  show ?thesis using assms(1,2) low32_masked[of val LVT_ERROR_WRITE_RESERVED_MASK] unfolding m
    by (auto simp: wrmsr_effect_def rdmsr_value_def Let_def split: if_splits)
qed

lemma msr_reads_back:
  assumes "vm_ok s" "\<not> stopped s" "hostIf s" "\<And>f. vmwriteOk V f" "m \<in> readback_msrs"
    and "wrmsr_effect V t m val s = (Some True, s')"
  shows "fst (rdmsr_value V t m s') = Some val"
  using assms(5) unfolding readback_msrs_def
proof (elim insertE; (elim emptyE)?)
  assume m: "m = IA32E_BIOS_SIGN_ID"
  show ?thesis using assms(2,6) unfolding m by (auto simp: wrmsr_effect_def rdmsr_value_def Let_def split: if_splits)
next
  assume m: "m = IA32E_APIC_BASE"
  show ?thesis using assms(2,6) apic_base_value[of val] unfolding m
    by (auto simp: wrmsr_effect_def rdmsr_value_def Let_def or.assoc split: if_splits)
next
  assume m: "m = IA32E_X2APIC_TPR"
  have v: "val AND NOT 0xff = 0"
      and s': "s' = upd_apic t (\<lambda>a. a\<lparr>tprSubclass := ucast (val AND 0xf)\<rparr>) (ia32eEmulatorX2apicSetTpr t (ucast (drop_bit 4 val)) s)"
    using assms(6) unfolding m by (auto simp: wrmsr_effect_def split: if_splits)
  have "keeps t s (snd (wrmsr_effect V t m val s))" by (intro keeps_wrmsr_effect keeps_refl)
  then have "vm_ok s'" using assms(1,6) by (simp add: keeps_def)
  then have "rdmsr_value V t m s' = (Some (push_bit 4 (ucast (apicTpr (apic s' t))) OR ucast (tprSubclass (apic s' t))), s')"
    unfolding m by (simp add: rdmsr_value_def Let_def)
  moreover have "apicTpr (apic s' t) = ucast (drop_bit 4 val) AND 15" "tprSubclass (apic s' t) = ucast (val AND 0xf)"
    using assms(2) by (simp_all add: s' ia32eEmulatorX2apicSetTpr_def)
  ultimately show ?thesis using tpr_value[OF v] by (simp only: fst_conv)
next
  assume m: "m = IA32E_X2APIC_SIVR"
  have "val AND NOT 0x1ff = 0 \<Longrightarrow> ucast (ucast val :: u32) = val" by (erule low32_masked) simp
  then show ?thesis using assms(2-4,6) unfolding m
    by (auto simp: wrmsr_effect_def rdmsr_value_def Let_def with_latch_def vassert_holds timer_bits split: if_splits)
next
  assume m: "m = IA32E_X2APIC_TIMER_INIT_COUNT"
  let ?s = "upd_apic t (\<lambda>a. a\<lparr>initCount := ucast val\<rparr>) s"
  have v: "val AND NOT 0xffffffff = 0" and s': "s' = ia32eEmulatorX2apicResetCounter V t ?s"
    using assms(6) unfolding m by (auto simp: wrmsr_effect_def split: if_splits)
  have "x2apic_divisor (ucast (dcr (apic ?s t))) \<noteq> None" using assms(2) vm_ok_apic[OF assms(1), of t] by (simp add: apic_ok_def)
  from apic_kept[OF assms(4) this] show ?thesis using assms(2) low32[OF v] unfolding m s' by (simp add: rdmsr_value_def Let_def)
next
  assume m: "m = IA32E_X2APIC_DIV_CONF"
  have v: "val AND (NOT 0xf OR 4) = 0" and s': "s' = ia32eEmulatorX2apicSetDcr V t (ucast val) s"
    using assms(6) unfolding m by (auto simp: wrmsr_effect_def split: if_splits)
  have "x2apic_divisor (ucast (dcr (apic s t))) \<noteq> None" using vm_ok_apic[OF assms(1), of t] by (simp add: apic_ok_def)
  then have "dcr (apic s' t) = ucast val"
    using assms(2,4) dcr_values[OF v] unfolding s' by (auto simp: ia32eEmulatorX2apicSetDcr_def Let_def compress_effect)
  then show ?thesis using dcr_value[OF v] unfolding m by (simp add: rdmsr_value_def Let_def)
qed (use lvt_reads_back[OF assms(2,6)] in simp_all)

text \<open>The time stamp counter does not: the offset that was in force before is subtracted once more.\<close>

lemma tsc_reads_back:
  assumes "\<not> stopped s" "\<And>f. vmwriteOk V f" "\<not> VTX_TSD V" "wrmsr_effect V t IA32E_TSC val s = (Some True, s')"
  shows "fst (rdmsr_value V t IA32E_TSC s') = Some (val - ia32eVmread t CTRL_TSC_OFFSET s)"
  using assms by (auto simp: wrmsr_effect_def rdmsr_value_def Let_def)

subsection \<open>The control register\<close>

text \<open>The values of \<open>CR0\<close> that an Intel processor lets its software set, in the mode it runs in.\<close>

definition cr0_legal :: "bool \<Rightarrow> u64 \<Rightarrow> bool" where
  "cr0_legal mode64 cr0 \<longleftrightarrow> drop_bit 32 cr0 = 0 \<and> cr0 AND IA32E_CR0_INVAL_MASK = 0
     \<and> (bit cr0 31 \<longrightarrow> bit cr0 0) \<and> (bit cr0 29 \<longrightarrow> bit cr0 30) \<and> (mode64 \<longrightarrow> bit cr0 31)"

lemma cr0_bits:
  fixes cr0 :: u64
  shows "bit cr0 31 \<Longrightarrow> cr0 AND IA32E_CR0_PG_MASK \<noteq> 0" "cr0 AND 1 \<noteq> 0 \<longleftrightarrow> bit cr0 0"
    "cr0 AND IA32E_CR0_NW_MASK \<noteq> 0 \<longleftrightarrow> bit cr0 29" "cr0 AND IA32E_CR0_CD_MASK \<noteq> 0 \<longleftrightarrow> bit cr0 30"
    "drop_bit 32 cr0 = 0 \<Longrightarrow> cr0 AND IA32E_CR0_PG_MASK \<noteq> 0 \<Longrightarrow> bit cr0 31"
proof -
  have m: "IA32E_CR0_PG_MASK = NOT (mask 31)" by (simp add: mask_eq_exp_minus_1)
  have n: "cr0 AND 2 ^ k \<noteq> 0 \<longleftrightarrow> bit cr0 k" for k by (simp add: and_exp_eq_0_iff_not_bit)
  show "bit cr0 31 \<Longrightarrow> cr0 AND IA32E_CR0_PG_MASK \<noteq> 0"
  proof
    assume "bit cr0 31" "cr0 AND IA32E_CR0_PG_MASK = 0"
    then show False using high_bits[of cr0 31 31] unfolding m by simp
  qed
  show "cr0 AND 1 \<noteq> 0 \<longleftrightarrow> bit cr0 0" "cr0 AND IA32E_CR0_NW_MASK \<noteq> 0 \<longleftrightarrow> bit cr0 29"
      "cr0 AND IA32E_CR0_CD_MASK \<noteq> 0 \<longleftrightarrow> bit cr0 30"
    using n[of 0] n[of 29] n[of 30] by simp_all
  show "bit cr0 31" if d: "drop_bit 32 cr0 = 0" and p: "cr0 AND IA32E_CR0_PG_MASK \<noteq> 0"
  proof -
    obtain j where j: "bit cr0 j" "31 \<le> j" using p unfolding m by (auto simp: bit_eq_iff bit_simps)
    have "\<not> bit (drop_bit 32 cr0) (j - 32)" using d by simp
    then have "j = 31" using j by (cases "j = 31") (auto simp: bit_simps)
    then show ?thesis using j(1) by simp
  qed
qed

lemma validate_legal:
  assumes "ia32eEmulatorValidateCr0 t cr0 s"
  shows "cr0_legal (ia32eEmulatorRunningTaskMode t s = IA32E_EMULATOR_64) cr0"
    "bit (ia32eVmread t GUEST_CR0 s) 31 \<Longrightarrow> bit cr0 0" "ia32eEmulatorRunningTaskMode t s \<noteq> IA32E_EMULATOR_V8086"
    "ia32eVmread t GUEST_CR4 s AND IA32E_CR4_PCIDE_MASK \<noteq> 0 \<Longrightarrow> bit cr0 31"
  using assms cr0_bits[of cr0] cr0_bits(1)[of "ia32eVmread t GUEST_CR0 s"]
  by (auto simp: ia32eEmulatorValidateCr0_def cr0_legal_def Let_def)

lemma read_gpr_same:
  "vmcs (snd (ia32eEmulatorReadGpr t n s)) = vmcs s" "vtx (snd (ia32eEmulatorReadGpr t n s)) = vtx s"
  by (simp_all add: ia32eEmulatorReadGpr_def Let_def)

lemma failure_vmcs [simp]: "vmcs (ia32eEmulatorHandleVcpuFailure V t s) = vmcs s"
  by (simp add: ia32eEmulatorHandleVcpuFailure_def vnull_def vstop_def Let_def split: option.splits)

lemma write_gpr_cr0: "ia32eVmread t GUEST_CR0 (ia32eEmulatorWriteGpr V t n v s) = ia32eVmread t GUEST_CR0 s"
  by (cases "stopped s") (simp_all add: ia32eEmulatorWriteGpr_def ia32eVmwriteSafe_def)

lemma queue_vmcs [simp]:
  "vmcs (ia32eEmulatorQueueGp0 t s) = vmcs s" "vmcs (ia32eEmulatorQueueAdvance t s) = vmcs s"
  by (simp_all add: ia32eEmulatorQueueGp0_def ia32eEmulatorQueueAdvance_def ia32eEmulatorQueueEvent_def)

lemma validate_same:
  "ia32eEmulatorValidateCr0 t v (snd (ia32eEmulatorReadGpr t n s)) = ia32eEmulatorValidateCr0 t v s"
  by (simp add: ia32eEmulatorValidateCr0_def read_gpr_same)

lemma tpr_vmcs:
  "vmcs (ia32eEmulatorX2apicSetTpr t v s) = vmcs s" "vmcs (snd (ia32eEmulatorX2apicGetTpr t s)) = vmcs s"
  by (simp_all add: ia32eEmulatorX2apicSetTpr_def ia32eEmulatorX2apicGetTpr_def Let_def)

lemma vmwrite_cr0:
  "ia32eVmread t GUEST_CR0 (ia32eVmwriteSafe V t GUEST_CR0 v s) \<noteq> ia32eVmread t GUEST_CR0 s
    \<Longrightarrow> ia32eVmread t GUEST_CR0 (ia32eVmwriteSafe V t GUEST_CR0 v s) = v"
  by (cases "stopped s") (auto simp: ia32eVmwriteSafe_def split: if_splits)

lemma cr_access_cr0:
  fixes t :: addr
  assumes "ia32eVmread t GUEST_CR0 (ia32eEmulatorCrAccess V t s) \<noteq> ia32eVmread t GUEST_CR0 s"
  defines "val \<equiv> fst (ia32eEmulatorReadGpr t (qual_gpr (ucast (ia32eVmread t RO_EXIT_QUALIFICATION s))) s)
    AND NOT (IA32E_CR0_NW_MASK OR IA32E_CR0_CD_MASK) OR IA32E_CR0_NE_MASK"
  shows "ia32eEmulatorValidateCr0 t val s \<and> ia32eVmread t GUEST_CR0 (ia32eEmulatorCrAccess V t s) = val"
proof -
  let ?q = "ucast (ia32eVmread t RO_EXIT_QUALIFICATION s) :: u32"
  let ?r = "snd (ia32eEmulatorReadGpr t (qual_gpr ?q) s)"
  have w: "ia32eVmread t GUEST_CR0 (ia32eVmwriteSafe V t GUEST_CR0 v ?r) \<noteq> ia32eVmread t GUEST_CR0 s
      \<Longrightarrow> ia32eVmread t GUEST_CR0 (ia32eVmwriteSafe V t GUEST_CR0 v ?r) = v" for v
    using vmwrite_cr0[of V t v ?r] by (simp add: read_gpr_same)
  have c: "ia32eVmread t GUEST_CR0 (ia32eEmulatorCrAccess V t s) =
    (if drop_bit 4 (?q AND 0x30) = 0 \<and> ?q AND 0xf = 0 \<and> ia32eEmulatorValidateCr0 t val s
     then ia32eVmread t GUEST_CR0 (ia32eVmwriteSafe V t GUEST_CR0 val ?r) else ia32eVmread t GUEST_CR0 s)"
    unfolding ia32eEmulatorCrAccess_def Let_def split_def val_def[symmetric]
    by (simp add: read_gpr_same validate_same write_gpr_cr0 tpr_vmcs val_def)
  show ?thesis using assms(1) w[of val] unfolding c by (simp split: if_splits)
qed

end
