(* ===== verification/VmDefects.thy ===== *)
theory VmDefects
  imports VmRegs
begin

text \<open>
  Where the emulator does not do what it means to do, shown on its definitions.
\<close>

text \<open>The reset of the APIC goes through a pointer that is never set, so no virtual CPU survives a reset.\<close>

lemma x2apic_reset_fails:
  assumes "\<not> stopped s"
  shows "stopped (ia32eEmulatorX2apicReset s)" "NullDeref \<in> set (faults (kern (ia32eEmulatorX2apicReset s)))"
  using assms by (simp_all add: ia32eEmulatorX2apicReset_def vnull_def vstop_def fault_def)

text \<open>An access to a control register names the registers 4 to 15 by their number modulo 4.\<close>

lemma cr_access_register: "qual_gpr q = unat q div 256 mod 4"
proof -
  have e: "drop_bit 8 (q AND 0x300) = take_bit 2 (drop_bit 8 q)"
  proof (rule bit_word_eqI)
    fix j assume j: "j < LENGTH(32)"
    have m: "(0x300 :: u32) = push_bit 8 (mask 2)" by (simp add: mask_eq_exp_minus_1)
    show "bit (drop_bit 8 (q AND 0x300)) j = bit (take_bit 2 (drop_bit 8 q)) j"
      unfolding m by (auto simp: bit_simps dest: bit_imp_le_length)
  qed
  have "qual_gpr q = take_bit 2 (unat q div 256)"
    unfolding qual_gpr_def e unsigned_take_bit_eq unat_drop_bit_eq by (simp add: drop_bit_eq_div)
  then show ?thesis by (simp add: take_bit_eq_mod)
qed

text \<open>The guest cannot write back the value that a local interrupt has after a reset (masked).\<close>

lemma lvt_mask_refused:
  "wrmsr_effect V t IA32E_X2APIC_LVT_TSR 0x10000 s = (Some False, s)"
  "wrmsr_effect V t IA32E_X2APIC_LVT_PMCR 0x10000 s = (Some False, s)"
  "wrmsr_effect V t IA32E_X2APIC_LVT_LINT0 0x10000 s = (Some False, s)"
  "wrmsr_effect V t IA32E_X2APIC_LVT_LINT1 0x10000 s = (Some False, s)"
  by (simp_all add: wrmsr_effect_def)

text \<open>A guest whose APIC is disabled can start its timer, and when the timer expires an assertion fails.\<close>

lemma disabled_timer_starts:
  assumes "\<not> stopped s" "\<And>f. vmwriteOk V f" "vm_ok s" "n \<noteq> 0" "\<not> apic_enabled (apic s t)"
  shows "timer_running t (snd (wrmsr_effect V t IA32E_X2APIC_TIMER_INIT_COUNT (ucast (n :: u32)) s))"
proof -
  let ?s = "upd_apic t (\<lambda>a. a\<lparr>initCount := n\<rparr>) s"
  have w: "ucast n AND NOT 0xffffffff = (0 :: u64)"
  proof -
    have m: "(0xffffffff :: u64) = mask 32" by (simp add: mask_eq_exp_minus_1)
    show ?thesis unfolding m by (rule bit_word_eqI) (auto simp: bit_simps dest: bit_imp_le_length)
  qed
  have n: "(ucast (ucast n :: u64) :: u32) = n" by (rule bit_word_eqI) (simp add: bit_simps)
  obtain k where k: "x2apic_divisor (ucast (dcr (apic ?s t))) = Some k"
    using assms(1) vm_ok_apic[OF assms(3), of t] by (auto simp: apic_ok_def)
  show ?thesis
    using reset_counter_effect(1)[OF _ assms(2) k] assms(1,4) w by (simp add: wrmsr_effect_def n)
qed

lemma assert_faults: "f \<in> set (faults k) \<Longrightarrow> f \<in> set (faults (K_DYNAMIC_ASSERT b k))"
  by (simp add: K_DYNAMIC_ASSERT_def fault_def)

lemma disabled_timer_asserts:
  assumes "\<not> stopped s" "\<And>f. vmwriteOk V f" "\<not> apic_enabled (apic s t)"
  shows "AssertFailed \<in> set (faults (kern (ia32eEmulatorVmxPreempt V t s)))"
proof -
  have "AssertFailed \<in> set (faults (K_DYNAMIC_ASSERT False (kern s)))" by (simp add: K_DYNAMIC_ASSERT_def fault_def)
  note a = assert_faults[OF this]
  show ?thesis
    using assms a assert_faults[OF a] assert_faults[OF assert_faults[OF a]] assert_faults[OF assert_faults[OF assert_faults[OF a]]]
    by (simp add: ia32eEmulatorVmxPreempt_def ia32eEmulatorQueueEvent_def timer_off_def Let_def split_def
        ia32eEmulatorX2apicCompressCounter_def split: option.split)
qed

text \<open>The identifier that \<open>cpuid\<close> reports for virtual CPU 0 is 1: the number of processors overlaps it.\<close>

lemma cpuid_apic_id: "drop_bit 24 (fst (snd (cpuid_features V 0))) = 1"
proof -
  obtain a b c d where e: "ia32eCpuid V 1 0 = (a, b, c, d)" by (cases "ia32eCpuid V 1 0")
  have m: "(0xffff :: u32) = mask 16" "(16777216 :: u32) = push_bit 24 1" by (simp_all add: mask_eq_exp_minus_1)
  have "drop_bit 24 (ucast ((b AND 0xffff) OR 16777216) :: u64) = 1"
    unfolding m by (rule bit_word_eqI) (auto simp: bit_simps simp del: push_bit_of_1 dest: bit_imp_le_length)
  then show ?thesis by (simp add: cpuid_features_def e)
qed

end
