(* ===== verification/VtxSetup.thy ===== *)
theory VtxSetup
  imports VmIpi Plugin
begin

text \<open>
  The set-up of virtual machines by plugins: the part of \<^verbatim>\<open>ia32eCpuVtx.c\<close> that checks the parameters of domains,
  threads and LSRs, and the functions of \<^verbatim>\<open>kPlugin.c\<close> and \<^verbatim>\<open>ia32eCpu.c\<close> as they are with
  \<open>CONFIG_X86_64_IA32E_VTX\<close>. It proves that what they leave behind is what the emulator relies on: the bus of a
  virtual machine has no gaps, and each virtual CPU is on it under its own number.
\<close>

subsection \<open>State\<close>

text \<open>
  The fields of the global data that the set-up uses; \<open>pcidCtr\<close> is \<open>None\<close> when process context ids are not in
  use, and \<open>vcpuCapable\<close> is the flag of each CPU.
\<close>

record vtxGlobal =
  vcpuCapableExists :: bool
  vpidCapableExists :: bool
  allEptAd :: bool
  vpidCtr :: u32
  pcidCtr :: "u32 option"
  vcpuCapable :: "u32 \<Rightarrow> bool"

record 'p vtxSetup =
  vmS :: "'p vmstate"
  glob :: vtxGlobal

record ia32eVtxParam =
  vmcsVirtParam :: u64
  vmcsPhysParam :: u64

text \<open>The context of a task after \<open>memset\<close> in \<open>ia32eCpuTaskCtxInit\<close>.\<close>

definition zeroVectored :: ia32eVtxVectoredEvent where
  "zeroVectored = \<lparr>evVector = 0, evType = IA32E_INTERRUPT_TYPE_EXTERNAL, evDeliverErrcode = False, evAdvance = False,
     evValid = False, evMode = IA32E_EMULATOR_INVALID, evErrcode = 0\<rparr>"

definition zeroApic :: ia32eVtxX2apic where
  "zeroApic = \<lparr>waitForSipi = False, initPending = False, sipiPending = False, sipiVector = 0, nmiPending = False,
     latchedIrr = (\<lambda>_. 0), vmcsInitialized = False, bsp = False, poweredOn = False, apicBaseBsp = False, apicTpr = 0,
     tprSubclass = 0, apicBaseAddr = 0, sivr = 0, irr = (\<lambda>_. 0), isr = (\<lambda>_. 0), receiverEsr = 0, pendingEsr = 0, esr = 0,
     icr = 0, lvtTImer = 0, lvtTsr = 0, lvtPmcr = 0, lvtLint0 = 0, lvtLint1 = 0, lvtError = 0, initCount = 0, dcr = 0\<rparr>"

definition zeroVtxCtx :: vtxCtx where
  "zeroVtxCtx = \<lparr>vmexitStoreVmentryLoadAreaData = replicate 5 0, signId = 0, lostEvent = zeroVectored,
     syntheticEvent = zeroVectored, pluginEvent = zeroVectored, x2apic = zeroApic\<rparr>"

definition zero_ctx :: "addr \<Rightarrow> 'p vmstate \<Rightarrow> 'p vmstate" where
  "zero_ctx t s = s\<lparr>vtx := (vtx s)(t := zeroVtxCtx)\<rparr>"

abbreviation set_kern :: "('p kstate \<Rightarrow> 'p kstate) \<Rightarrow> 'p vmstate \<Rightarrow> 'p vmstate" where
  "set_kern f s \<equiv> s\<lparr>kern := f (kern s)\<rparr>"

subsection \<open>The parameters of a virtual CPU\<close>

definition ia32eCpuVtxIsVcpuCapable :: "'p kEnv \<Rightarrow> vtxGlobal \<Rightarrow> u32 \<Rightarrow> 'p vmstate \<Rightarrow> bool \<times> 'p vmstate" where
  "ia32eCpuVtxIsVcpuCapable E g c s = (vcpuCapable g c, vassert (cpuValid E c) s)"

definition ia32eCpuVtxTaskInfoInit ::
  "'p kEnv \<Rightarrow> kSchedTaskType \<Rightarrow> addr \<Rightarrow> u32 \<Rightarrow> ia32eVtxParam \<Rightarrow> 'p vmstate \<Rightarrow> (errno + unit) \<times> 'p vmstate" where
  "ia32eCpuVtxTaskInfoInit E ty t domainId param s =
    (let s = vassert (ty = K_TASK_THREAD \<or> ty = K_TASK_LSR) s
     in if vmcsPhysParam param AND 0xfff \<noteq> 0 \<or> vmcsVirtParam param AND 0xfff \<noteq> 0 then (Inl EINVAL, s)
        else (case kDomainUniverseGet E domainId (kern s) of
                None \<Rightarrow> (Inl EINVAL, vnull s)
              | Some d \<Rightarrow>
                  let apicId = numVcpus (vdom s d); s = vassert (unat apicId \<le> 255) s
                  in if apicId = 255 then (Inl EINVAL, s)
                     else (Inr (), s\<lparr>vtxInfo := (vtxInfo s)(t := \<lparr>vmcsPhys = vmcsPhysParam param, vcpuId = apicId\<rparr>),
                            vdom := (vdom s)(d := (vdom s d)\<lparr>apicBus := (apicBus (vdom s d))(unat apicId := Some t),
                              numVcpus := apicId + 1\<rparr>)\<rparr>)))"

text \<open>\<open>ia32eCpuVtxThreadParamIsVm\<close> and \<open>ia32eCpuVtxLsrParamIsVm\<close>.\<close>

definition ia32eCpuVtxParamIsVm :: "'p kEnv \<Rightarrow> u32 \<Rightarrow> 'p vmstate \<Rightarrow> bool \<times> 'p vmstate" where
  "ia32eCpuVtxParamIsVm E domainId s =
    (let s = vassert (kDomainUniverseGet E domainId (kern s) \<noteq> None) s
     in case kDomainUniverseGet E domainId (kern s) of None \<Rightarrow> (False, vnull s) | Some d \<Rightarrow> (vm (vdom s d), s))"

text \<open>\<open>ia32eCpuVtxThreadInfoInit\<close> and \<open>ia32eCpuVtxLsrInfoInit\<close>.\<close>

definition ia32eCpuVtxInfoInit ::
  "'p kEnv \<Rightarrow> vtxGlobal \<Rightarrow> kSchedTaskType \<Rightarrow> addr \<Rightarrow> u32 \<Rightarrow> u32 \<Rightarrow> ia32eVtxParam \<Rightarrow> 'p vmstate \<Rightarrow>
   (errno + unit) \<times> 'p vmstate" where
  "ia32eCpuVtxInfoInit E g ty t c domainId param s =
    (case ia32eCpuVtxIsVcpuCapable E g c s of
       (False, s) \<Rightarrow> (Inl EINVAL, s)
     | (True, s) \<Rightarrow> ia32eCpuVtxTaskInfoInit E ty t domainId param s)"

definition vm_part ::
  "'p kEnv \<Rightarrow> vtxGlobal \<Rightarrow> kSchedTaskType \<Rightarrow> addr \<Rightarrow> u32 \<Rightarrow> u32 \<Rightarrow> ia32eVtxParam \<Rightarrow> 'p vmstate \<Rightarrow>
   (errno + unit) \<times> 'p vmstate" where
  "vm_part E g ty t c domainId param s =
    (case ia32eCpuVtxParamIsVm E domainId s of
       (True, s) \<Rightarrow> ia32eCpuVtxInfoInit E g ty t c domainId param s
     | (False, s) \<Rightarrow> (Inr (), s))"

definition ia32eCpuThreadInfoInitVtx ::
  "'p kEnv \<Rightarrow> vtxGlobal \<Rightarrow> addr \<Rightarrow> 'q kPluginTaskThreadParam \<Rightarrow> ia32eVtxParam \<Rightarrow> 'p vmstate \<Rightarrow>
   (errno + unit) \<times> 'p vmstate" where
  "ia32eCpuThreadInfoInitVtx E g t p param s =
    (if thTpr p \<ge> IA32E_MAX_VECTOR_PRIO then (Inl EINVAL, s)
     else (case vm_part E g K_TASK_THREAD t (thCpuId p) (thDomId p) param s of
             (Inl e, s) \<Rightarrow> (Inl e, s)
           | (Inr _, s) \<Rightarrow>
               (Inr (), set_kern (upd_task t (\<lambda>r. r\<lparr>threadTpr := (if thTpr p > 1 then thTpr p else 1)\<rparr>)) s)))"

definition ia32eCpuLsrInfoInitVtx ::
  "'p kEnv \<Rightarrow> vtxGlobal \<Rightarrow> addr \<Rightarrow> kPluginTaskLsrParam \<Rightarrow> ia32eVtxParam \<Rightarrow> 'p vmstate \<Rightarrow>
   (errno + unit) \<times> 'p vmstate" where
  "ia32eCpuLsrInfoInitVtx E g t p param s =
    (let vprio = IA32E_VECTOR_TO_PRIO (lsrVectorParam p)
     in if vprio \<le> 1 \<or> vprio = IA32E_MAX_VECTOR_PRIO then (Inl EINVAL, s)
        else (case vm_part E g K_TASK_LSR t (lsrCpuId p) (lsrDomId p) param s of
                (Inl e, s) \<Rightarrow> (Inl e, s)
              | (Inr _, s) \<Rightarrow> (Inr (), set_kern (upd_task t (\<lambda>r. r\<lparr>lsrVector := lsrVectorParam p\<rparr>)) s)))"

subsection \<open>The requests\<close>

definition kPluginInitTaskThreadVtx ::
  "'p kEnv \<Rightarrow> ('q kPluginTaskThreadParam \<Rightarrow> 'p kstate \<Rightarrow> errno + ('p kstate \<Rightarrow> 'p kstate)) \<Rightarrow>
   ('q \<Rightarrow> addr \<Rightarrow> 'p \<Rightarrow> 'p) \<Rightarrow> addr \<Rightarrow> 'q kPluginTaskThreadParam \<Rightarrow> ia32eVtxParam \<Rightarrow> 'p vtxSetup \<Rightarrow>
   (errno + unit) \<times> 'p vtxSetup" where
  "kPluginInitTaskThreadVtx E admit set_param t p param S =
    (let s = vassert (\<not> gPluginsDone (kern (vmS S))) (vmS S)
     in if \<not> thread_args_ok E p (kern s) then (Inl EINVAL, S\<lparr>vmS := s\<rparr>)
        else (case admit p (kern s) of
                Inl e \<Rightarrow> (Inl e, S\<lparr>vmS := s\<rparr>)
              | Inr claim \<Rightarrow>
                  (case ia32eCpuThreadInfoInitVtx E (glob S) t p param s of
                     (Inl e, s) \<Rightarrow> (Inl e, S\<lparr>vmS := s\<rparr>)
                   | (Inr _, s) \<Rightarrow>
                       (Inr (), S\<lparr>vmS := zero_ctx t (set_kern (\<lambda>k. thread_init E set_param t p (claim k)) s)\<rparr>))))"

definition kPluginInitTaskLsrVtx ::
  "'p kEnv \<Rightarrow> addr \<Rightarrow> kPluginTaskLsrParam \<Rightarrow> ia32eVtxParam \<Rightarrow> 'p vtxSetup \<Rightarrow> (errno + unit) \<times> 'p vtxSetup" where
  "kPluginInitTaskLsrVtx E t p param S =
    (let s = vassert (\<not> gPluginsDone (kern (vmS S))) (vmS S);
         domain = kDomainUniverseGet E (lsrDomId p) (kern s)
     in if domain = None \<or> \<not> cpuValid E (lsrCpuId p) \<or> \<not> kSchedTaskCanAdd E (lsrTaskId p) (kern s)
        then (Inl EINVAL, S\<lparr>vmS := s\<rparr>)
        else (case ia32eCpuLsrInfoInitVtx E (glob S) t p param s of
                (Inl e, s) \<Rightarrow> (Inl e, S\<lparr>vmS := s\<rparr>)
              | (Inr _, s) \<Rightarrow>
                  let s = set_kern (upd_task t (lsr_record p domain)) s;
                      s = set_kern (\<lambda>k. snd (kSchedTaskAdd E (lsrTaskId p) t k)) s;
                      s = zero_ctx t (set_kern (deref domain
                            (\<lambda>d k. emit (EvTaskCtxInit t (start_pc (invocationInfo (domains k d)))) k)) s)
                  in (Inr (), S\<lparr>vmS := set_kern (kCpuTaskLsrPush E t) s\<rparr>)))"

text \<open>
  \<open>b\<close> is \<open>CONFIG_X86_64_IA32E_VTX_FEATURE_VPID\<close>. The entry points of a virtual machine are not used but for the
  one in real mode. The memory type of the extended page table is write-back (6), its walk has four levels.
\<close>

definition ia32eCpuVtxDomainInfoInit ::
  "bool \<Rightarrow> vtxGlobal \<Rightarrow> addr \<Rightarrow> ia32eDomainParam \<Rightarrow> kDomainInvocationInfo \<Rightarrow> 'p vmstate \<Rightarrow>
   errno + (vtxGlobal \<times> 'p vmstate)" where
  "ia32eCpuVtxDomainInfoInit b g d param i s =
    (if \<not> vcpuCapableExists g then Inl EINVAL
     else if valid (invocationIpc i) \<or> start_pc i > 0xffff \<or> pml4BasePhys param AND 0xfff \<noteq> 0
        \<or> pml4BaseVirt param AND 0xfff \<noteq> 0 then Inl EINVAL
     else
       let s = s\<lparr>vdom := (vdom s)(d := (vdom s d)\<lparr>cr3 := pml4BasePhys param OR (if allEptAd g then 0x40 else 0) OR 24 OR 6,
                 vm := True\<rparr>)\<rparr>;
           s = (if b then vassert (vpidCtr g \<le> 0xffff) s else s);
           s = (if b \<and> vpidCapableExists g then s\<lparr>vdom := (vdom s)(d := (vdom s d)\<lparr>vpid := ucast (vpidCtr g)\<rparr>)\<rparr> else s);
           g = (if b \<and> vpidCapableExists g then g\<lparr>vpidCtr := vpidCtr g + 1\<rparr> else g)
       in Inr (g, s\<lparr>vdom := (vdom s)(d := (vdom s d)\<lparr>tripleFault := 0, numVcpus := 0, apicBus := (\<lambda>_. None)\<rparr>)\<rparr>))"

text \<open>\<open>isVm\<close> is the field \<open>vm\<close> of the parameters, \<open>pdpt\<close> the address of the kernel's page directory pointer table.\<close>

definition ia32eCpuDomainInfoInitVtx ::
  "bool \<Rightarrow> u64 \<Rightarrow> bool \<Rightarrow> addr \<Rightarrow> ia32eDomainParam \<Rightarrow> kDomainInvocationInfo \<Rightarrow> 'p vtxSetup \<Rightarrow> errno + 'p vtxSetup" where
  "ia32eCpuDomainInfoInitVtx b pdpt isVm d param i S =
    (if isVm
     then (case ia32eCpuVtxDomainInfoInit b (glob S) d param i (vmS S) of
             Inl e \<Rightarrow> Inl e
           | Inr (g, s) \<Rightarrow> Inr \<lparr>vmS = s, glob = g\<rparr>)
     else (case ia32eCpuDomainInfoInit pdpt (pcidCtr (glob S)) param i of
             Inl e \<Rightarrow> Inl e
           | Inr (entry, c3, ctr) \<Rightarrow>
               Inr \<lparr>vmS = (vmS S)\<lparr>vdom := (vdom (vmS S))(d := (vdom (vmS S) d)\<lparr>cr3 := c3\<rparr>)\<rparr>,
                    glob = (glob S)\<lparr>pcidCtr := ctr\<rparr>\<rparr>))"

definition kPluginInitDomainVtx ::
  "'p kEnv \<Rightarrow> bool \<Rightarrow> u64 \<Rightarrow> bool \<Rightarrow> addr \<Rightarrow> kPluginDomainParam \<Rightarrow> 'p vtxSetup \<Rightarrow> (errno + unit) \<times> 'p vtxSetup" where
  "kPluginInitDomainVtx E b pdpt isVm d p S =
    (let S = S\<lparr>vmS := vassert (\<not> gPluginsDone (kern (vmS S))) (vmS S)\<rparr>
     in if \<not> kDomainUniverseCanAdd E (pdDomId p) (kern (vmS S)) then (Inl EINVAL, S)
        else (case ia32eCpuDomainInfoInitVtx b pdpt isVm d (pdArch p) (pdInfo p) S of
                Inl e \<Rightarrow> (Inl e, S)
              | Inr S \<Rightarrow>
                  let s = set_kern (\<lambda>k. k\<lparr>domains := (domains k)(d := (domains k d)\<lparr>invocationInfo := pdInfo p\<rparr>)\<rparr>) (vmS S)
                  in (Inr (), S\<lparr>vmS := set_kern (\<lambda>k. snd (kDomainUniverseAdd E (pdDomId p) d k)) s\<rparr>)))"

subsection \<open>Runs of the set-up\<close>

text \<open>A plugin uses each object once; objects are static data, and zero before they are used.\<close>

inductive setup_run ::
  "'p kEnv \<Rightarrow> bool \<Rightarrow> ('q kPluginTaskThreadParam \<Rightarrow> 'p kstate \<Rightarrow> errno + ('p kstate \<Rightarrow> 'p kstate)) \<Rightarrow>
   ('q \<Rightarrow> addr \<Rightarrow> 'p \<Rightarrow> 'p) \<Rightarrow> 'p vtxSetup \<Rightarrow> 'p vtxSetup \<Rightarrow> bool" for E b admit set_param where
  setup_start: "setup_run E b admit set_param S S"
| setup_thread: "setup_run E b admit set_param S0 S \<Longrightarrow> t \<notin> ran (kTasks (kern (vmS S))) \<Longrightarrow>
    setup_run E b admit set_param S0 (snd (kPluginInitTaskThreadVtx E admit set_param t p param S))"
| setup_lsr: "setup_run E b admit set_param S0 S \<Longrightarrow> t \<notin> ran (kTasks (kern (vmS S))) \<Longrightarrow>
    setup_run E b admit set_param S0 (snd (kPluginInitTaskLsrVtx E t lp param S))"
| setup_domain: "setup_run E b admit set_param S0 S \<Longrightarrow> d \<notin> ran (domainTable (kern (vmS S))) \<Longrightarrow> \<not> vm (vdom (vmS S) d) \<Longrightarrow>
    setup_run E b admit set_param S0 (snd (kPluginInitDomainVtx E b pdpt isVm d dp S))"

subsection \<open>What the emulator relies on\<close>

text \<open>The numbers below \<open>numVcpus\<close> are on the bus, each with the APIC of the virtual CPU that has it.\<close>

definition bus_ok :: "'p vmstate \<Rightarrow> bool" where
  "bus_ok s \<longleftrightarrow> (\<forall>d i. i < unat (numVcpus (vdom s d)) \<longrightarrow>
     (\<exists>x. apicBus (vdom s d) i = Some x \<and> unat (vcpuId (vtxInfo s x)) = i))"

definition registered :: "addr \<Rightarrow> addr \<Rightarrow> 'p vmstate \<Rightarrow> bool" where
  "registered t d s \<longleftrightarrow> vcpuId (vtxInfo s t) < numVcpus (vdom s d)
     \<and> apicBus (vdom s d) (unat (vcpuId (vtxInfo s t))) = Some t"

lemma bus_ok_inj: "bus_ok s \<Longrightarrow> inj_on (apicBus (vdom s d)) {..< unat (numVcpus (vdom s d))}"
  unfolding bus_ok_def inj_on_def by (metis lessThan_iff option.inject)

text \<open>The hypothesis of the emulator's lemmas, for a virtual CPU that runs.\<close>

lemma registered_on_bus:
  "bus_ok s \<Longrightarrow> registered t d s \<Longrightarrow> \<not> stopped s \<Longrightarrow> hostIf s \<Longrightarrow> curDom s t = Some d \<Longrightarrow> on_bus t d s"
  using bus_ok_inj[of s d] unfolding on_bus_def registered_def bus_ok_def by blast

lemma bus_complete: "bus_ok s \<Longrightarrow> i < unat (numVcpus (vdom s d)) \<Longrightarrow> apicBus (vdom s d) i \<noteq> None"
  unfolding bus_ok_def by blast

text \<open>Tasks that are known are in known domains, and on the bus if the domain is a virtual machine.\<close>

definition tasks_placed :: "'p vmstate \<Rightarrow> bool" where
  "tasks_placed s \<longleftrightarrow>
     (\<forall>t d. t \<in> ran (kTasks (kern s)) \<and> curDom s t = Some d \<longrightarrow>
        d \<in> ran (domainTable (kern s)) \<and> (vm (vdom s d) \<longrightarrow> registered t d s))
   \<and> (\<forall>d i x. i < unat (numVcpus (vdom s d)) \<and> apicBus (vdom s d) i = Some x \<longrightarrow> x \<in> ran (kTasks (kern s)))"

text \<open>Virtual machines have identifiers of their own, which are not zero, the identifier of the host.\<close>

definition vpids_ok :: "'p kEnv \<Rightarrow> vtxGlobal \<Rightarrow> 'p vmstate \<Rightarrow> bool" where
  "vpids_ok E g s \<longleftrightarrow>
     (let V = {d \<in> ran (domainTable (kern s)). vm (vdom s d)}
      in 0 < unat (vpidCtr g) \<and> unat (vpidCtr g) \<le> 1 + card (dom (domainTable (kern s)))
       \<and> dom (domainTable (kern s)) \<subseteq> {..< KMAX_DOMAINS E}
       \<and> (\<forall>d \<in> V. 0 < unat (vpid (vdom s d)) \<and> unat (vpid (vdom s d)) < unat (vpidCtr g))
       \<and> inj_on (\<lambda>d. vpid (vdom s d)) V)"

definition setup_ok :: "'p kEnv \<Rightarrow> bool \<Rightarrow> 'p vtxSetup \<Rightarrow> bool" where
  "setup_ok E b S \<longleftrightarrow> \<not> stopped (vmS S) \<and> vm_ok (vmS S) \<and> bus_ok (vmS S) \<and> tasks_placed (vmS S)
     \<and> (b \<and> vpidCapableExists (glob S) \<longrightarrow> vpids_ok E (glob S) (vmS S))"

subsection \<open>Steps that change nothing of this\<close>

definition same_tables :: "'p vmstate \<Rightarrow> 'p vmstate \<Rightarrow> bool" where
  "same_tables s s' \<longleftrightarrow> stopped s' = stopped s \<and> vtx s' = vtx s \<and> vtxInfo s' = vtxInfo s \<and> vdom s' = vdom s
     \<and> tasks (kern s') = tasks (kern s) \<and> kTasks (kern s') = kTasks (kern s)
     \<and> domainTable (kern s') = domainTable (kern s)"

lemma same_refl [simp]: "same_tables s s" by (simp add: same_tables_def)

lemma same_trans: "same_tables s s' \<Longrightarrow> same_tables s' s'' \<Longrightarrow> same_tables s s''" by (simp add: same_tables_def)

lemma same_vassert [simp]: "same_tables s (vassert b s)"
  by (cases "stopped s") (simp_all add: same_tables_def K_DYNAMIC_ASSERT_def fault_def)

lemma setup_ok_same:
  "setup_ok E b S \<Longrightarrow> same_tables (vmS S) s' \<Longrightarrow> setup_ok E b (S\<lparr>vmS := s'\<rparr>)"
  by (simp add: setup_ok_def same_tables_def vm_ok_def bus_ok_def tasks_placed_def registered_def vpids_ok_def)

lemma get_tables: "domainTable k' = domainTable k \<Longrightarrow> kDomainUniverseGet E did k' = kDomainUniverseGet E did k"
  by (simp add: kDomainUniverseGet_def)

subsection \<open>A new virtual CPU\<close>

lemma task_info_init:
  assumes "\<not> stopped s" "kDomainUniverseGet E did (kern s) = Some d" "ty = K_TASK_THREAD \<or> ty = K_TASK_LSR"
  shows "ia32eCpuVtxTaskInfoInit E ty t did param s =
    (if vmcsPhysParam param AND 0xfff \<noteq> 0 \<or> vmcsVirtParam param AND 0xfff \<noteq> 0 \<or> numVcpus (vdom s d) = 255
     then (Inl EINVAL, s)
     else (Inr (), s\<lparr>vtxInfo := (vtxInfo s)(t := \<lparr>vmcsPhys = vmcsPhysParam param, vcpuId = numVcpus (vdom s d)\<rparr>),
       vdom := (vdom s)(d := (vdom s d)\<lparr>apicBus := (apicBus (vdom s d))(unat (numVcpus (vdom s d)) := Some t),
         numVcpus := numVcpus (vdom s d) + 1\<rparr>)\<rparr>))"
proof -
  have "unat (numVcpus (vdom s d)) < 2 ^ 8" using unsigned_less[of "numVcpus (vdom s d)"] by simp
  then show ?thesis using assms by (auto simp: ia32eCpuVtxTaskInfoInit_def Let_def)
qed

text \<open>What the machine of a task \<open>t\<close> of domain \<open>d\<close> is after its parameters have been accepted.\<close>

definition placed :: "addr \<Rightarrow> addr \<Rightarrow> 'p vmstate \<Rightarrow> 'p vmstate \<Rightarrow> bool" where
  "placed t d s s' \<longleftrightarrow> (if vm (vdom s d)
     then numVcpus (vdom s d) \<noteq> 255 \<and> (\<exists>m. vtxInfo s' = (vtxInfo s)(t := \<lparr>vmcsPhys = m, vcpuId = numVcpus (vdom s d)\<rparr>))
       \<and> vdom s' = (vdom s)(d := (vdom s d)\<lparr>apicBus := (apicBus (vdom s d))(unat (numVcpus (vdom s d)) := Some t),
           numVcpus := numVcpus (vdom s d) + 1\<rparr>)
     else vtxInfo s' = vtxInfo s \<and> vdom s' = vdom s)"

lemma vm_part_effect:
  assumes "\<not> stopped s" "kDomainUniverseGet E did (kern s) = Some d" "ty = K_TASK_THREAD \<or> ty = K_TASK_LSR"
    and "vm_part E g ty t c did param s = (r, s')"
  shows "case r of Inl _ \<Rightarrow> same_tables s s'
    | Inr _ \<Rightarrow> placed t d s s' \<and> kern s' = (if vm (vdom s d) then K_DYNAMIC_ASSERT (cpuValid E c) (kern s) else kern s)
        \<and> vtx s' = vtx s \<and> \<not> stopped s'"
proof -
  let ?s = "vassert (cpuValid E c) s"
  have d: "kDomainUniverseGet E did (kern ?s) = Some d"
    using assms(1,2) get_tables[of "kern ?s" "kern s" E did] same_vassert[of s "cpuValid E c"] by (simp add: same_tables_def)
  have ns: "\<not> stopped ?s" using assms(1) by simp
  note i = task_info_init[OF ns d assms(3)]
  show ?thesis
    using assms(4,1,2) unfolding vm_part_def ia32eCpuVtxParamIsVm_def ia32eCpuVtxInfoInit_def ia32eCpuVtxIsVcpuCapable_def
    by (auto simp: i placed_def Let_def vassert_holds split: if_splits bool.splits sum.splits)
qed

text \<open>A new task, placed in its domain.\<close>

lemma ran_upd_new: "m n = None \<Longrightarrow> ran (m(n := Some x)) = insert x (ran m)"
  by (rule ran_map_upd)

lemma zero_vtx_ok: "vtx_ok zeroVtxCtx"
  by (simp add: vtx_ok_def apic_ok_def zeroVtxCtx_def zeroApic_def zeroVectored_def x2apic_divisor_def plugin_event_ok_def)

lemma placed_bus:
  assumes "bus_ok s" "placed t d s s'" "\<And>e i. i < unat (numVcpus (vdom s e)) \<Longrightarrow> apicBus (vdom s e) i \<noteq> Some t"
  shows "bus_ok s'" "vm (vdom s d) \<Longrightarrow> registered t d s'"
    "registered u e s \<Longrightarrow> u \<noteq> t \<Longrightarrow> registered u e s'"
    "i < unat (numVcpus (vdom s' e)) \<Longrightarrow> apicBus (vdom s' e) i = Some x \<Longrightarrow>
       x = t \<or> (i < unat (numVcpus (vdom s e)) \<and> apicBus (vdom s e) i = Some x)"
proof -
  let ?n = "numVcpus (vdom s d)"
  have n: "unat (?n + 1) = unat ?n + 1" if "?n \<noteq> 255"
  proof -
    have "unat ?n < 2 ^ 8" using unsigned_less[of ?n] by simp
    moreover have "unat ?n \<noteq> 255" using that by (simp add: word_unat_eq_iff)
    ultimately show ?thesis by (simp add: unat_word_ariths)
  qed
  note p = assms(2)[unfolded placed_def]
  show "bus_ok s'"
    using assms(1,3) p n unfolding bus_ok_def by (fastforce simp: less_Suc_eq split: if_splits)
  show "registered t d s'" if "vm (vdom s d)" using p n that by (auto simp: registered_def word_less_nat_alt)
  show "registered u e s'" if "registered u e s" "u \<noteq> t"
    using p n that by (auto simp: registered_def word_less_nat_alt split: if_splits)
  show "x = t \<or> (i < unat (numVcpus (vdom s e)) \<and> apicBus (vdom s e) i = Some x)"
    if "i < unat (numVcpus (vdom s' e))" "apicBus (vdom s' e) i = Some x"
    using p n that by (auto simp: less_Suc_eq split: if_splits)
qed

lemma setup_ok_new_task:
  assumes "setup_ok E b S" "t \<notin> ran (kTasks (kern (vmS S)))" "kTasks (kern (vmS S)) n = None"
    and "placed t d (vmS S) s'" "d \<in> ran (domainTable (kern (vmS S)))"
    and "vtx s' = (vtx (vmS S))(t := zeroVtxCtx)" "\<not> stopped s'" "curDom s' t = Some d"
    and "\<And>u. u \<noteq> t \<Longrightarrow> tasks (kern s') u = tasks (kern (vmS S)) u"
    and "kTasks (kern s') = (kTasks (kern (vmS S)))(n := Some t)" "domainTable (kern s') = domainTable (kern (vmS S))"
  shows "setup_ok E b (S\<lparr>vmS := s'\<rparr>)"
proof -
  let ?s = "vmS S"
  have bus: "bus_ok ?s" and tp: "tasks_placed ?s" using assms(1) by (simp_all add: setup_ok_def)
  have free: "i < unat (numVcpus (vdom ?s e)) \<Longrightarrow> apicBus (vdom ?s e) i \<noteq> Some t" for e i
    using tp assms(2) unfolding tasks_placed_def by blast
  note q = placed_bus[OF bus assms(4) free]
  have r: "ran (kTasks (kern s')) = insert t (ran (kTasks (kern ?s)))" using assms(3,10) by (simp add: ran_upd_new)
  have v: "vm (vdom s' e) = vm (vdom ?s e)" "vpid (vdom s' e) = vpid (vdom ?s e)" for e
    using assms(4) by (auto simp: placed_def split: if_splits)
  have "tasks_placed s'"
    unfolding tasks_placed_def
  proof (intro conjI allI impI; elim conjE)
    fix u e assume u: "u \<in> ran (kTasks (kern s'))" "curDom s' u = Some e"
    have "e \<in> ran (domainTable (kern ?s)) \<and> (vm (vdom ?s e) \<longrightarrow> registered u e s')"
    proof (cases "u = t")
      case True
      then show ?thesis using assms(5,8) u q(2) by simp
    next
      case False
      then have "u \<in> ran (kTasks (kern ?s))" "curDom ?s u = Some e" using u r assms(9)[OF False] by simp_all
      then show ?thesis using tp q(3)[of u e] False unfolding tasks_placed_def by blast
    qed
    then show "e \<in> ran (domainTable (kern s'))" "vm (vdom s' e) \<Longrightarrow> registered u e s'" using assms(11) v by simp_all
  next
    fix e i x assume "i < unat (numVcpus (vdom s' e))" "apicBus (vdom s' e) i = Some x"
    then have "x = t \<or> (i < unat (numVcpus (vdom ?s e)) \<and> apicBus (vdom ?s e) i = Some x)" using q(4) by blast
    then show "x \<in> ran (kTasks (kern s'))" using tp unfolding r tasks_placed_def by blast
  qed
  moreover have "vm_ok s'" using assms(1,6) zero_vtx_ok by (simp add: setup_ok_def vm_ok_def)
  moreover have "vpids_ok E (glob S) s' = vpids_ok E (glob S) ?s" using assms(11) v by (simp add: vpids_ok_def)
  ultimately show ?thesis using q(1) assms(1,7) by (simp add: setup_ok_def)
qed

subsection \<open>A new domain\<close>

lemma placed_domain:
  assumes "tasks_placed s" "bus_ok s" "d \<notin> ran (domainTable (kern s))"
    and "vdom s' = (vdom s)(d := v)" "numVcpus v = 0 \<or> v = (vdom s d)\<lparr>cr3 := c\<rparr>" "vtxInfo s' = vtxInfo s"
    and "tasks (kern s') = tasks (kern s)" "kTasks (kern s') = kTasks (kern s)"
    and "domainTable (kern s') = (domainTable (kern s))(n := Some d)" "domainTable (kern s) n = None"
  shows "bus_ok s'" "tasks_placed s'"
proof -
  have r: "ran (domainTable (kern s')) = insert d (ran (domainTable (kern s)))" using assms(9,10) by (simp add: ran_upd_new)
  show "bus_ok s'" using assms(2,4-6) unfolding bus_ok_def by fastforce
  have nd: "curDom s t \<noteq> Some d" if "t \<in> ran (kTasks (kern s))" for t
    using assms(1,3) that unfolding tasks_placed_def by blast
  have reg: "registered t e s' = registered t e s" if "e \<noteq> d" for t e
    using that assms(4,6) by (simp add: registered_def)
  have v: "vdom s' e = vdom s e" if "e \<noteq> d" for e using that assms(4) by simp
  show "tasks_placed s'"
    unfolding tasks_placed_def
  proof (intro conjI allI impI; elim conjE)
    fix t e assume t: "t \<in> ran (kTasks (kern s'))" "curDom s' t = Some e"
    then have "t \<in> ran (kTasks (kern s))" "curDom s t = Some e" using assms(7,8) by simp_all
    then have "e \<noteq> d" "e \<in> ran (domainTable (kern s))" "vm (vdom s e) \<Longrightarrow> registered t e s"
      using assms(1) nd unfolding tasks_placed_def by blast+
    then show "e \<in> ran (domainTable (kern s'))" "vm (vdom s' e) \<Longrightarrow> registered t e s'" using r reg v by simp_all
  next
    fix e i x assume x: "i < unat (numVcpus (vdom s' e))" "apicBus (vdom s' e) i = Some x"
    have "i < unat (numVcpus (vdom s e)) \<and> apicBus (vdom s e) i = Some x"
      using x assms(4,5) by (cases "e = d") auto
    then show "x \<in> ran (kTasks (kern s'))" using assms(1,8) unfolding tasks_placed_def by simp
  qed
qed

lemma vpids_new:
  assumes "vpids_ok E g s" "domainTable (kern s) n = None" "n < KMAX_DOMAINS E" "KMAX_DOMAINS E < 65535"
    and "d \<notin> ran (domainTable (kern s))" "vdom s' = (vdom s)(d := v)" "domainTable (kern s') = (domainTable (kern s))(n := Some d)"
  shows "vpidCtr g \<le> 0xffff"
    "\<not> vm v \<Longrightarrow> vpids_ok E g s'"
    "vpid v = ucast (vpidCtr g) \<Longrightarrow> vpids_ok E (g\<lparr>vpidCtr := vpidCtr g + 1\<rparr>) s'"
proof -
  let ?T = "domainTable (kern s)" and ?c = "unat (vpidCtr g)" and ?V = "{d \<in> ran (domainTable (kern s)). vm (vdom s d)}"
  have o: "0 < ?c" "?c \<le> 1 + card (dom ?T)" "dom ?T \<subseteq> {..< KMAX_DOMAINS E}"
      "\<And>e. e \<in> ?V \<Longrightarrow> 0 < unat (vpid (vdom s e)) \<and> unat (vpid (vdom s e)) < ?c" "inj_on (\<lambda>e. vpid (vdom s e)) ?V"
    using assms(1) by (simp_all add: vpids_ok_def Let_def)
  have fin: "finite (dom ?T)" using o(3) by (rule finite_subset) simp
  have "dom ?T \<subseteq> {..< KMAX_DOMAINS E} - {n}" using o(3) assms(2) by auto
  then have "card (dom ?T) \<le> KMAX_DOMAINS E - 1"
    using card_mono[of "{..< KMAX_DOMAINS E} - {n}" "dom ?T"] assms(3) by simp
  then have c: "?c < 65535" using o(2) assms(3,4) by linarith
  then show "vpidCtr g \<le> 0xffff" by (simp add: word_le_nat_alt)
  have T: "dom (domainTable (kern s')) = insert n (dom ?T)" "ran (domainTable (kern s')) = insert d (ran ?T)"
    using assms(2,7) by (simp_all add: ran_upd_new)
  have card: "card (dom (domainTable (kern s'))) = card (dom ?T) + 1" using T(1) fin assms(2) by (simp add: domIff)
  have same: "e \<in> ran ?T \<Longrightarrow> vdom s' e = vdom s e" for e using assms(5,6) by auto
  have V: "{e \<in> ran (domainTable (kern s')). vm (vdom s' e)} = (if vm v then insert d ?V else ?V)"
    using same assms(5,6) unfolding T(2) by auto
  have sub: "insert n (dom ?T) \<subseteq> {..< KMAX_DOMAINS E}" using o(3) assms(3) by simp
  have old: "0 < unat (vpid (vdom s' e)) \<and> unat (vpid (vdom s' e)) < ?c" if "e \<in> ?V" for e using o(4)[OF that] same that by simp
  have inj: "inj_on (\<lambda>e. vpid (vdom s' e)) ?V" using o(5) same by (auto simp: inj_on_def)
  show "vpids_ok E g s'" if "\<not> vm v"
    unfolding vpids_ok_def Let_def V if_not_P[OF that] card unfolding T(1)
    using o(1,2) sub old inj by simp
  show "vpids_ok E (g\<lparr>vpidCtr := vpidCtr g + 1\<rparr>) s'" if "vpid v = ucast (vpidCtr g)"
  proof -
    have s: "unat (vpidCtr g + 1) = ?c + 1" using c by (simp add: unat_word_ariths)
    have w: "unat (vpid v) = ?c" using c unfolding that by (simp add: unsigned_ucast_eq take_bit_nat_eq_self)
    have d: "vdom s' d = v" using assms(6) by simp
    have "inj_on (\<lambda>e. vpid (vdom s' e)) (insert d ?V)"
    proof (rule inj_onI)
      fix a b assume ab: "a \<in> insert d ?V" "b \<in> insert d ?V" "vpid (vdom s' a) = vpid (vdom s' b)"
      have ne: "e \<in> ?V \<Longrightarrow> vpid (vdom s' e) \<noteq> vpid (vdom s' d)" for e using old[of e] w d by auto
      show "a = b" using ab ne[of a] ne[of b] inj_onD[OF inj, of a b] by auto
    qed
    then have i: "inj_on (\<lambda>e. vpid (vdom s' e)) (if vm v then insert d ?V else ?V)" using inj by simp
    have "\<forall>e \<in> (if vm v then insert d ?V else ?V). 0 < unat (vpid (vdom s' e)) \<and> unat (vpid (vdom s' e)) < ?c + 1"
      using old d w o(1) by (auto split: if_splits simp: less_Suc_eq)
    then show ?thesis
      unfolding vpids_ok_def Let_def V card unfolding T(1) using s o(2) sub i by simp
  qed
qed

lemma assert_domains [simp]: "domainTable (K_DYNAMIC_ASSERT b k) = domainTable k"
  by (simp add: K_DYNAMIC_ASSERT_def fault_def)

lemma domain_info_vtx:
  assumes "ia32eCpuDomainInfoInitVtx b pdpt isVm d param i S = Inr S'" "\<not> stopped (vmS S)"
  shows "\<exists>v. vdom (vmS S') = (vdom (vmS S))(d := v) \<and> (numVcpus v = 0 \<or> (\<exists>c. v = (vdom (vmS S) d)\<lparr>cr3 := c\<rparr>))
    \<and> vtxInfo (vmS S') = vtxInfo (vmS S) \<and> vtx (vmS S') = vtx (vmS S)
    \<and> tasks (kern (vmS S')) = tasks (kern (vmS S)) \<and> kTasks (kern (vmS S')) = kTasks (kern (vmS S))
    \<and> domainTable (kern (vmS S')) = domainTable (kern (vmS S)) \<and> \<not> stopped (vmS S')
    \<and> vpidCapableExists (glob S') = vpidCapableExists (glob S)
    \<and> (b \<and> vpidCapableExists (glob S) \<longrightarrow> (vm v = vm (vdom (vmS S) d) \<and> vpidCtr (glob S') = vpidCtr (glob S))
        \<or> (vpid v = ucast (vpidCtr (glob S)) \<and> vpidCtr (glob S') = vpidCtr (glob S) + 1))"
  using assms unfolding ia32eCpuDomainInfoInitVtx_def ia32eCpuVtxDomainInfoInit_def
  by (auto simp: Let_def split: if_splits sum.splits prod.splits)

lemma setup_ok_domain:
  assumes "setup_ok E b S" "d \<notin> ran (domainTable (kern (vmS S)))" "\<not> vm (vdom (vmS S) d)" "KMAX_DOMAINS E < 65535"
  shows "setup_ok E b (snd (kPluginInitDomainVtx E b pdpt isVm d p S))"
proof -
  define s where "s = vassert (\<not> gPluginsDone (kern (vmS S))) (vmS S)"
  define r where "r = kPluginInitDomainVtx E b pdpt isVm d p S"
  have st: "same_tables (vmS S) s" by (simp add: s_def)
  then have ok: "setup_ok E b (S\<lparr>vmS := s\<rparr>)" by (rule setup_ok_same[OF assms(1)])
  have a: "\<not> stopped s" "vm_ok s" "bus_ok s" "tasks_placed s" "b \<and> vpidCapableExists (glob S) \<Longrightarrow> vpids_ok E (glob S) s"
      "d \<notin> ran (domainTable (kern s))" "\<not> vm (vdom s d)"
    using ok assms(2,3) st by (simp_all add: setup_ok_def same_tables_def)
  have step: "setup_ok E b \<lparr>vmS = s', glob = g\<rparr>"
    if can: "kDomainUniverseCanAdd E (pdDomId p) (kern s)"
      and s': "vdom s' = (vdom s)(d := v)" "numVcpus v = 0 \<or> v = (vdom s d)\<lparr>cr3 := c\<rparr>" "vtxInfo s' = vtxInfo s" "vtx s' = vtx s"
        "tasks (kern s') = tasks (kern s)" "kTasks (kern s') = kTasks (kern s)"
        "domainTable (kern s') = (domainTable (kern s))(unat (pdDomId p) := Some d)" "\<not> stopped s'"
      and g: "vpidCapableExists g = vpidCapableExists (glob S)"
        "b \<and> vpidCapableExists g \<Longrightarrow> (\<not> vm v \<and> vpidCtr g = vpidCtr (glob S)) \<or> (vpid v = ucast (vpidCtr (glob S)) \<and> vpidCtr g = vpidCtr (glob S) + 1)"
    for s' v c g
  proof -
    have n: "domainTable (kern s) (unat (pdDomId p)) = None" "unat (pdDomId p) < KMAX_DOMAINS E"
      using can by (simp_all add: kDomainUniverseCanAdd_def)
    note q = placed_domain[OF a(4,3,6) s'(1,2,3,5,6,7) n(1)]
    have "vpids_ok E g s'" if bv: "b \<and> vpidCapableExists g"
    proof -
      have bs: "b \<and> vpidCapableExists (glob S)" using bv g(1) by simp
      note w = vpids_new[OF a(5)[OF bs] n assms(4) a(6) s'(1,7)]
      have c: "vpids_ok E h s' = vpids_ok E g s'" if "vpidCtr h = vpidCtr g" for h using that by (simp add: vpids_ok_def)
      show ?thesis using g(2)[OF bv] w(2,3) c[of "glob S"] c[of "(glob S)\<lparr>vpidCtr := vpidCtr (glob S) + 1\<rparr>"] by auto
    qed
    then show ?thesis using q a(2) s'(4,8) by (simp add: setup_ok_def vm_ok_def)
  qed
  show ?thesis
  proof (cases "kDomainUniverseCanAdd E (pdDomId p) (kern s)")
    case False
    then show ?thesis using ok by (simp add: kPluginInitDomainVtx_def Let_def s_def)
  next
    case can: True
    have n: "domainTable (kern s) (unat (pdDomId p)) = None" "unat (pdDomId p) < KMAX_DOMAINS E"
      using can by (simp_all add: kDomainUniverseCanAdd_def)
    define s2 where "s2 S' = set_kern (\<lambda>k. k\<lparr>domains := (domains k)(d := (domains k d)\<lparr>invocationInfo := pdInfo p\<rparr>)\<rparr>) (vmS S')" for S' :: "'a vtxSetup"
    define s3 where "s3 S' = set_kern (\<lambda>k. snd (kDomainUniverseAdd E (pdDomId p) d k)) (s2 S')" for S' :: "'a vtxSetup"
    have table: "domainTable (kern (s3 S')) = (domainTable (kern s))(unat (pdDomId p) := Some d)"
        "tasks (kern (s3 S')) = tasks (kern s)" "kTasks (kern (s3 S')) = kTasks (kern s)" "stopped (s3 S') = stopped (vmS S')"
        "vdom (s3 S') = vdom (vmS S')" "vtxInfo (s3 S') = vtxInfo (vmS S')" "vtx (s3 S') = vtx (vmS S')"
      if "domainTable (kern (vmS S')) = domainTable (kern s)" "tasks (kern (vmS S')) = tasks (kern s)"
        "kTasks (kern (vmS S')) = kTasks (kern s)" for S' :: "'a vtxSetup"
      using n that by (auto simp: s2_def s3_def kDomainUniverseAdd_def)
    have r: "snd (kPluginInitDomainVtx E b pdpt isVm d p S) =
      (case ia32eCpuDomainInfoInitVtx b pdpt isVm d (pdArch p) (pdInfo p) (S\<lparr>vmS := s\<rparr>) of
         Inl e \<Rightarrow> S\<lparr>vmS := s\<rparr> | Inr S' \<Rightarrow> S'\<lparr>vmS := s3 S'\<rparr>)"
      using can by (simp add: kPluginInitDomainVtx_def Let_def s_def[symmetric] s2_def s3_def split: sum.splits)
    show ?thesis
    proof (cases "ia32eCpuDomainInfoInitVtx b pdpt isVm d (pdArch p) (pdInfo p) (S\<lparr>vmS := s\<rparr>)")
      case (Inl e)
      then show ?thesis using ok r by simp
    next
      case (Inr S')
      obtain v c where v: "vdom (vmS S') = (vdom s)(d := v)" "numVcpus v = 0 \<or> v = (vdom s d)\<lparr>cr3 := c\<rparr>" "vtxInfo (vmS S') = vtxInfo s"
          "vtx (vmS S') = vtx s" "tasks (kern (vmS S')) = tasks (kern s)" "kTasks (kern (vmS S')) = kTasks (kern s)"
          "domainTable (kern (vmS S')) = domainTable (kern s)" "\<not> stopped (vmS S')"
          "vpidCapableExists (glob S') = vpidCapableExists (glob S)"
          "b \<and> vpidCapableExists (glob S) \<Longrightarrow> (\<not> vm v \<and> vpidCtr (glob S') = vpidCtr (glob S))
             \<or> (vpid v = ucast (vpidCtr (glob S)) \<and> vpidCtr (glob S') = vpidCtr (glob S) + 1)"
        using domain_info_vtx[OF Inr] a(1,7) by auto
      note t = table[OF v(7,5,6)]
      have "setup_ok E b \<lparr>vmS = s3 S', glob = glob S'\<rparr>"
        by (rule step[OF can, of "s3 S'" v c]) (use t v in simp_all)
      moreover have "S'\<lparr>vmS := s3 S'\<rparr> = \<lparr>vmS = s3 S', glob = glob S'\<rparr>" by (rule vtxSetup.equality) simp_all
      ultimately show ?thesis unfolding r Inr sum.case by (simp only:)
    qed
  qed
qed

subsection \<open>Every run of the set-up\<close>

text \<open>What the requests for tasks need of the policy: its part leaves the tables alone.\<close>

locale plugin_policy =
  fixes E :: "'p kEnv"
    and admit :: "'q kPluginTaskThreadParam \<Rightarrow> 'p kstate \<Rightarrow> errno + ('p kstate \<Rightarrow> 'p kstate)"
    and set_param :: "'q \<Rightarrow> addr \<Rightarrow> 'p \<Rightarrow> 'p"
  assumes push_tables: "tasks (kSchedTaskPush E t k) = tasks k" "kTasks (kSchedTaskPush E t k) = kTasks k"
      "domainTable (kSchedTaskPush E t k) = domainTable k"
    and claim_tables: "admit p k = Inr claim \<Longrightarrow>
      tasks (claim k') = tasks k' \<and> kTasks (claim k') = kTasks k' \<and> domainTable (claim k') = domainTable k'"
begin

lemma init_tables:
  "tasks (kTickPluginTaskThreadInit E t k) = tasks k" "kTasks (kTickPluginTaskThreadInit E t k) = kTasks k"
  "domainTable (kTickPluginTaskThreadInit E t k) = domainTable k"
  by (simp_all add: kTickPluginTaskThreadInit_def Let_def push_tables)

lemma thread_init_tables:
  fixes t d :: addr
  assumes "kDomainUniverseGet E (thDomId p) k = Some d" "kSchedTaskCanAdd E (thTaskId p) k"
  defines "k' \<equiv> thread_init E set_param t p k"
  shows "tasks k' = (tasks k)(t := (thread_record p (Some d) (tasks k t))\<lparr>taskId := thTaskId p\<rparr>)"
    "kTasks k' = (kTasks k)(unat (thTaskId p) := Some t)" "domainTable k' = domainTable k"
  using assms(1,2) unfolding k'_def
  by (simp_all add: thread_init_def Let_def init_tables kSchedTaskAdd_def kSchedTaskCanAdd_def deref_def fun_eq_iff)

lemma setup_ok_thread:
  assumes "setup_ok E b S" "t \<notin> ran (kTasks (kern (vmS S)))"
  shows "setup_ok E b (snd (kPluginInitTaskThreadVtx E admit set_param t p param S))"
proof -
  define s where "s = vassert (\<not> gPluginsDone (kern (vmS S))) (vmS S)"
  have st: "same_tables (vmS S) s" by (simp add: s_def)
  have fail: "setup_ok E b (S\<lparr>vmS := s'\<rparr>)" if "same_tables s s'" for s' using setup_ok_same[OF assms(1)] same_trans[OF st that] by blast
  have ok: "setup_ok E b (S\<lparr>vmS := s\<rparr>)" by (rule fail) simp
  have ns: "\<not> stopped s" using ok by (simp add: setup_ok_def)
  let ?r = "kPluginInitTaskThreadVtx E admit set_param t p param S"
  show ?thesis
  proof (cases "thread_args_ok E p (kern s)")
    case False
    then show ?thesis using ok by (simp add: kPluginInitTaskThreadVtx_def Let_def s_def)
  next
    case True
    then obtain d where d: "kDomainUniverseGet E (thDomId p) (kern s) = Some d" "kSchedTaskCanAdd E (thTaskId p) (kern s)"
      by (auto simp: thread_args_ok_def)
    show ?thesis
    proof (cases "admit p (kern s)")
      case (Inl e)
      then show ?thesis using ok True by (simp add: kPluginInitTaskThreadVtx_def Let_def s_def)
    next
      case (Inr claim)
      obtain r s1 where v: "vm_part E (glob S) K_TASK_THREAD t (thCpuId p) (thDomId p) param s = (r, s1)" by fastforce
      note e = vm_part_effect[OF ns d(1) disjI1[OF refl] v]
      define s2 where "s2 = set_kern (upd_task t (\<lambda>r. r\<lparr>threadTpr := (if thTpr p > 1 then thTpr p else 1)\<rparr>)) s1"
      define s3 where "s3 = zero_ctx t (set_kern (\<lambda>k. thread_init E set_param t p (claim k)) s2)"
      have snd: "snd ?r = (if thTpr p \<ge> IA32E_MAX_VECTOR_PRIO then S\<lparr>vmS := s\<rparr>
          else (case r of Inl e \<Rightarrow> S\<lparr>vmS := s1\<rparr> | Inr _ \<Rightarrow> S\<lparr>vmS := s3\<rparr>))"
        using True Inr v by (simp add: kPluginInitTaskThreadVtx_def ia32eCpuThreadInfoInitVtx_def Let_def s_def[symmetric] s2_def s3_def split: sum.splits)
      show ?thesis
      proof (cases r)
        case (Inl err)
        then show ?thesis using snd ok fail[of s1] e by simp
      next
        case r: (Inr u)
        note e = e[unfolded r sum.case]
        have k1: "tasks (kern s1) = tasks (kern s)" "kTasks (kern s1) = kTasks (kern s)" "domainTable (kern s1) = domainTable (kern s)"
          using e by (auto split: if_splits)
        let ?k = "claim (kern s2)"
        have k2: "kTasks ?k = kTasks (kern s)" "domainTable ?k = domainTable (kern s)" "u \<noteq> t \<Longrightarrow> tasks ?k u = tasks (kern s) u" for u
          using claim_tables[OF Inr, of "kern s2"] k1 by (simp_all add: s2_def)
        have dk: "kDomainUniverseGet E (thDomId p) ?k = Some d" "kSchedTaskCanAdd E (thTaskId p) ?k"
          using d k2(1) get_tables[OF k2(2), of E "thDomId p"] by (simp_all add: kSchedTaskCanAdd_def)
        note t = thread_init_tables[OF dk, of t]
        have "setup_ok E b ((S\<lparr>vmS := s\<rparr>)\<lparr>vmS := s3\<rparr>)"
        proof (rule setup_ok_new_task[OF ok, of t "unat (thTaskId p)" d s3])
          show "d \<in> ran (domainTable (kern (vmS (S\<lparr>vmS := s\<rparr>))))"
            using d(1) by (auto simp: kDomainUniverseGet_def ran_def split: if_splits)
          show "placed t d (vmS (S\<lparr>vmS := s\<rparr>)) s3" using e by (simp add: placed_def s3_def s2_def zero_ctx_def)
        qed (use assms(2) st d(2) e t k2 in \<open>simp_all add: same_tables_def kSchedTaskCanAdd_def s3_def s2_def zero_ctx_def thread_record_def\<close>)
        then show ?thesis using snd ok r by simp
      qed
    qed
  qed
qed

lemma lsr_tables:
  fixes t d :: addr
  assumes "kSchedTaskCanAdd E (lsrTaskId p) k"
  defines "k1 \<equiv> upd_task t (lsr_record p (Some d)) k"
  defines "k' \<equiv> kCpuTaskLsrPush E t (deref (Some d) (\<lambda>d k. emit (EvTaskCtxInit t (start_pc (invocationInfo (domains k d)))) k)
      (snd (kSchedTaskAdd E (lsrTaskId p) t k1)))"
  shows "tasks k' = (tasks k)(t := (lsr_record p (Some d) (tasks k t))\<lparr>taskId := lsrTaskId p\<rparr>)"
    "kTasks k' = (kTasks k)(unat (lsrTaskId p) := Some t)" "domainTable k' = domainTable k"
  using assms(1) unfolding k'_def k1_def
  by (simp_all add: kCpuTaskLsrPush_def kSchedTaskAdd_def kSchedTaskCanAdd_def deref_def Let_def fun_eq_iff)

lemma setup_ok_lsr:
  assumes "setup_ok E b S" "t \<notin> ran (kTasks (kern (vmS S)))"
  shows "setup_ok E b (snd (kPluginInitTaskLsrVtx E t p param S))"
proof -
  define s where "s = vassert (\<not> gPluginsDone (kern (vmS S))) (vmS S)"
  have st: "same_tables (vmS S) s" by (simp add: s_def)
  have fail: "setup_ok E b (S\<lparr>vmS := s'\<rparr>)" if "same_tables s s'" for s' using setup_ok_same[OF assms(1)] same_trans[OF st that] by blast
  have ok: "setup_ok E b (S\<lparr>vmS := s\<rparr>)" by (rule fail) simp
  have ns: "\<not> stopped s" using ok by (simp add: setup_ok_def)
  let ?r = "kPluginInitTaskLsrVtx E t p param S"
  show ?thesis
  proof (cases "kDomainUniverseGet E (lsrDomId p) (kern s) = None \<or> \<not> cpuValid E (lsrCpuId p) \<or> \<not> kSchedTaskCanAdd E (lsrTaskId p) (kern s)")
    case True
    then show ?thesis using ok by (simp add: kPluginInitTaskLsrVtx_def Let_def s_def[symmetric])
  next
    case False
    then obtain d where d: "kDomainUniverseGet E (lsrDomId p) (kern s) = Some d" "kSchedTaskCanAdd E (lsrTaskId p) (kern s)" by auto
    obtain r s1 where v: "vm_part E (glob S) K_TASK_LSR t (lsrCpuId p) (lsrDomId p) param s = (r, s1)" by fastforce
    note e = vm_part_effect[OF ns d(1) disjI2[OF refl] v]
    define k2 where "k2 = upd_task t (\<lambda>r. r\<lparr>lsrVector := lsrVectorParam p\<rparr>) (kern s1)"
    define k3 where "k3 = kCpuTaskLsrPush E t (deref (Some d) (\<lambda>d k. emit (EvTaskCtxInit t (start_pc (invocationInfo (domains k d)))) k)
      (snd (kSchedTaskAdd E (lsrTaskId p) t (upd_task t (lsr_record p (Some d)) k2))))"
    define s3 where "s3 = (zero_ctx t s1)\<lparr>kern := k3\<rparr>"
    have snd: "snd ?r = S\<lparr>vmS := s\<rparr> \<or> (case r of Inl e \<Rightarrow> snd ?r = S\<lparr>vmS := s1\<rparr> | Inr _ \<Rightarrow> snd ?r = S\<lparr>vmS := s3\<rparr>)"
      using False d v by (simp add: kPluginInitTaskLsrVtx_def ia32eCpuLsrInfoInitVtx_def Let_def s_def[symmetric] k2_def k3_def s3_def
          zero_ctx_def split: sum.splits)
    show ?thesis
    proof (cases r)
      case (Inl err)
      then show ?thesis using snd ok fail[of s1] e by auto
    next
      case r: (Inr u)
      note e = e[unfolded r sum.case]
      have k1: "tasks (kern s1) = tasks (kern s)" "kTasks (kern s1) = kTasks (kern s)" "domainTable (kern s1) = domainTable (kern s)"
        using e by (auto split: if_splits)
      have can: "kSchedTaskCanAdd E (lsrTaskId p) k2" using d(2) k1 by (simp add: kSchedTaskCanAdd_def k2_def)
      note t = lsr_tables[OF can, of t d, folded k3_def]
      have "setup_ok E b ((S\<lparr>vmS := s\<rparr>)\<lparr>vmS := s3\<rparr>)"
      proof (rule setup_ok_new_task[OF ok, of t "unat (lsrTaskId p)" d s3])
        show "d \<in> ran (domainTable (kern (vmS (S\<lparr>vmS := s\<rparr>))))"
          using d(1) by (auto simp: kDomainUniverseGet_def ran_def split: if_splits)
        show "placed t d (vmS (S\<lparr>vmS := s\<rparr>)) s3" using e by (simp add: placed_def s3_def zero_ctx_def)
      qed (use assms(2) st d(2) e t k1 in \<open>simp_all add: same_tables_def kSchedTaskCanAdd_def s3_def k2_def zero_ctx_def lsr_record_def\<close>)
      then show ?thesis using snd ok r by auto
    qed
  qed
qed

lemma setup_run_ok:
  assumes "setup_run E b admit set_param S0 S" "setup_ok E b S0" "KMAX_DOMAINS E < 65535"
  shows "setup_ok E b S"
  using assms
  by (induction rule: setup_run.induct) (simp_all add: setup_ok_thread setup_ok_lsr setup_ok_domain)

end

lemma rr_push_domains: "domainTable (kSchedTaskPush (envRr n E) t s) = domainTable s"
  by (simp add: kSchedTaskPush_def with_ops_def Let_def kSchedTaskPushRr_def upd_rr_def upd_epoch_rr_def upd_pol_def
      fault_def K_DYNAMIC_ASSERT_def split: kSchedTaskType.split)

interpretation rr_setup: plugin_policy "envRr n E" "admitRr m" setParamRr
  by unfold_locales (auto simp: rr_push_tables rr_push_domains admitRr_def split: if_splits)

lemma cyclic_push_tables:
  "tasks (kSchedTaskPush (envCyclic n E) t s) = tasks s" "kTasks (kSchedTaskPush (envCyclic n E) t s) = kTasks s"
  "domainTable (kSchedTaskPush (envCyclic n E) t s) = domainTable s"
  by (simp_all add: kSchedTaskPush_def with_ops_def Let_def kSchedTaskPushCyclic_def upd_cyc_def upd_link_cyc_def upd_epoch_cyc_def
      upd_pol_def fault_def K_DYNAMIC_ASSERT_def split: kSchedTaskType.split)

interpretation cyclic_setup: plugin_policy "envCyclic n E" "admitCyclic m" setParamCyclic
  by unfold_locales (auto simp: cyclic_push_tables admitCyclic_def Let_def upd_pol_def split: if_splits)

lemma edf_push_tables:
  "tasks (kSchedTaskPush (envEdf E) t s) = tasks s" "kTasks (kSchedTaskPush (envEdf E) t s) = kTasks s"
  "domainTable (kSchedTaskPush (envEdf E) t s) = domainTable s"
  by (simp_all add: kSchedTaskPush_def with_ops_def Let_def kSchedTaskPushEdf_def set_chain_edf_def upd_epoch_edf_def
      upd_pol_def fault_def K_DYNAMIC_ASSERT_def split: kSchedTaskType.split prod.split)

interpretation edf_setup: plugin_policy "envEdf E" admitEdf setParamEdf
  by unfold_locales (auto simp: edf_push_tables admitEdf_def split: if_splits)

subsection \<open>While the virtual machines run\<close>

text \<open>Who is on the bus does not change, so what the set-up has left behind stays true.\<close>

lemma vm_run_bus:
  assumes "vm_run V s s'" "callbacks_ok V" "vm_ok s" "bus_ok s"
  shows "bus_ok s' \<and> (\<forall>t d. registered t d s' = registered t d s)"
  using assms
proof (induction rule: vm_run.induct)
  case (run_act s s' t s'')
  have "vm_ok s'" by (rule vm_run_ok[OF run_act.hyps(1) run_act.prems(1,2)])
  then have "isolated t s' s''" using vm_act_keeps[OF run_act.hyps(2) run_act.prems(1)] by (simp add: keeps_def)
  then show ?case using run_act by (simp add: isolated_def bus_ok_def registered_def)
qed (simp_all add: vm_between_def bus_ok_def registered_def)

end
