(* ===== verification/CpuVtx.thy ===== *)
theory CpuVtx
  imports VtxSetup EventManager
begin

text \<open>
  The start of the processor for virtual machines (\<^verbatim>\<open>ia32eCpuVtx.c\<close>): which CPUs can run them, and which model
  specific registers they may use directly. What the processor answers is in the maps and registers of the record
  \<open>vtxCpu\<close>. The proofs show that the controls that the emulator relies on are never lost, and that exactly the
  registers of the list are reached without an exit.
\<close>

subsection \<open>Data\<close>

record vtxCpuFlags = cpuFlags +
  f_rtm :: bool
  f_monitorMwait :: bool
  f_sgx :: bool
  f_vcpuCapable :: bool
  f_ept2mb :: bool
  f_ept1gb :: bool
  f_eptUc :: bool
  f_eptAd :: bool

text \<open>The configuration: the features that the kernel itself uses, and whether guests may read the time stamp.\<close>

record vtxConfig =
  cfgTsd :: bool
  cfgVtxTsd :: bool
  cfgVpid :: bool
  cfgPcid :: bool
  cfgSmep :: bool
  cfgSmap :: bool
  cfgUmip :: bool

text \<open>\<open>msrOf\<close>, the control and debug registers and \<open>inVmx\<close> are the processor's; the rest are fields of \<open>ia32ePerCpu_t\<close>.\<close>

record vtxCpu =
  msrOf :: "u32 \<Rightarrow> u64"
  regCr0 :: u64
  regCr4 :: u64
  regDr :: "nat \<Rightarrow> u64"
  inVmx :: bool
  cpuFlagsOf :: vtxCpuFlags
  revisionId :: u32
  vmxPinbasedCtls :: u32
  vmxProcbasedCtls :: u32
  vmxExitCtls :: u32
  vmxEntryCtls :: u32
  hostDr :: "nat \<Rightarrow> u64"
  msrAreaCount :: u32
  vmexitLoadArea :: "(u32 \<times> u64) list"
  vmexitStoreVmentryLoadArea :: "(u32 \<times> u64) list"
  vmxonHeader :: u32

abbreviation IA32E_EFER :: u32 where "IA32E_EFER \<equiv> 0xc0000080"
abbreviation IA32E_STAR :: u32 where "IA32E_STAR \<equiv> 0xc0000081"
abbreviation IA32E_LSTAR :: u32 where "IA32E_LSTAR \<equiv> 0xc0000082"
abbreviation IA32E_CSTAR :: u32 where "IA32E_CSTAR \<equiv> 0xc0000083"
abbreviation IA32E_FMASK :: u32 where "IA32E_FMASK \<equiv> 0xc0000084"
abbreviation IA32E_FS_BASE :: u32 where "IA32E_FS_BASE \<equiv> 0xc0000100"
abbreviation IA32E_GS_BASE :: u32 where "IA32E_GS_BASE \<equiv> 0xc0000101"
abbreviation IA32E_KERNEL_GS_BASE :: u32 where "IA32E_KERNEL_GS_BASE \<equiv> 0xc0000102"

definition ia32eVtxVmcsMsrAllowList :: "u32 list" where
  "ia32eVtxVmcsMsrAllowList =
    [0x174, 0x175, 0x176, IA32E_EFER, 0x277, IA32E_GS_BASE, IA32E_FS_BASE, IA32E_STAR, IA32E_LSTAR, IA32E_CSTAR, IA32E_FMASK,
     IA32E_KERNEL_GS_BASE]"

definition ia32eVtxVmcsMsrCtxList :: "u32 list" where
  "ia32eVtxVmcsMsrCtxList = [IA32E_STAR, IA32E_LSTAR, IA32E_CSTAR, IA32E_FMASK, IA32E_KERNEL_GS_BASE]"

subsection \<open>The bitmap of the model specific registers\<close>

definition map_msr :: "int \<Rightarrow> int \<Rightarrow> u32 \<Rightarrow> int \<times> int" where
  "map_msr low high msr =
    (if msr \<le> 0x1fff then (low, uint msr)
     else if msr \<ge> 0xc0000000 \<and> msr \<le> 0xc0001fff then (high, uint (msr - 0xc0000000))
     else (-1, -1))"

definition ia32eVtxVmcsMapMsrWrite :: "u32 \<Rightarrow> int \<times> int" where
  "ia32eVtxVmcsMapMsrWrite = map_msr 2048 3072"

definition ia32eVtxVmcsMapMsrRead :: "u32 \<Rightarrow> int \<times> int" where
  "ia32eVtxVmcsMapMsrRead = map_msr 0 1024"

definition clear_bit :: "int \<times> int \<Rightarrow> (nat \<Rightarrow> u8) \<times> 'p kstate \<Rightarrow> (nat \<Rightarrow> u8) \<times> 'p kstate" where
  "clear_bit = (\<lambda>(base, idx) (bm, k).
    let k = K_DYNAMIC_ASSERT (base \<ge> 0 \<and> idx \<ge> 0) k
    in if base \<ge> 0 \<and> idx \<ge> 0
       then let bitmapIdx = base + idx div 8;
                k = K_DYNAMIC_ASSERT (bitmapIdx \<ge> 0 \<and> bitmapIdx < 4096) k
            in (bm(nat bitmapIdx := bm (nat bitmapIdx) AND NOT (push_bit (nat (idx mod 8)) 1)), k)
       else (bm, k))"

definition ia32eVtxVmcsUntrapMsrWrite :: "u32 \<Rightarrow> (nat \<Rightarrow> u8) \<times> 'p kstate \<Rightarrow> (nat \<Rightarrow> u8) \<times> 'p kstate" where
  "ia32eVtxVmcsUntrapMsrWrite msr = clear_bit (ia32eVtxVmcsMapMsrWrite msr)"

definition ia32eVtxVmcsUntrapMsrRead :: "u32 \<Rightarrow> (nat \<Rightarrow> u8) \<times> 'p kstate \<Rightarrow> (nat \<Rightarrow> u8) \<times> 'p kstate" where
  "ia32eVtxVmcsUntrapMsrRead msr = clear_bit (ia32eVtxVmcsMapMsrRead msr)"

definition ia32eVtxVmcsUntrapMsr :: "u32 \<Rightarrow> (nat \<Rightarrow> u8) \<times> 'p kstate \<Rightarrow> (nat \<Rightarrow> u8) \<times> 'p kstate" where
  "ia32eVtxVmcsUntrapMsr msr x = ia32eVtxVmcsUntrapMsrWrite msr (ia32eVtxVmcsUntrapMsrRead msr x)"

text \<open>The search for a CPU that is online and has no flags of access in its extended page tables.\<close>

fun all_ept_ad :: "(bool \<times> bool) list \<Rightarrow> bool" where
  "all_ept_ad [] = True"
| "all_ept_ad ((online, ad) # cs) = (if online \<and> \<not> ad then False else all_ept_ad cs)"

text \<open>\<open>cpus\<close> has the flags \<open>online\<close> and \<open>eptAd\<close> of the CPUs in the order of the table, \<open>n\<close> is its length.\<close>

definition ia32eGlobalVtxInit ::
  "vtxConfig \<Rightarrow> nat \<Rightarrow> (bool \<times> bool) list \<Rightarrow> vtxGlobal \<times> (nat \<Rightarrow> u8) \<times> 'p kstate \<Rightarrow> vtxGlobal \<times> (nat \<Rightarrow> u8) \<times> 'p kstate" where
  "ia32eGlobalVtxInit cfg n cpus = (\<lambda>(g, bm, k).
    if \<not> vcpuCapableExists g then (g, bm, k)
    else
      let g = (if cfgVpid cfg then g\<lparr>vpidCtr := 1\<rparr> else g);
          bm = (\<lambda>i. if i < 4096 then 0xff else bm i);
          (bm, k) = fold ia32eVtxVmcsUntrapMsr ia32eVtxVmcsMsrAllowList (bm, k);
          k = K_DYNAMIC_ASSERT (length cpus \<le> n) k
      in (g\<lparr>allEptAd := all_ept_ad cpus\<rparr>, bm, k))"

subsection \<open>Can a CPU run virtual machines?\<close>

definition vtx_controls_ok :: "vtxConfig \<Rightarrow> vtxCpuFlags \<Rightarrow> u64 \<Rightarrow> u64 \<Rightarrow> u64 \<Rightarrow> u64 \<Rightarrow> bool" where
  "vtx_controls_ok cfg f pin ext ent proc \<longleftrightarrow>
     \<not> (\<not> testBitLe pin (0 + 32) \<or> \<not> testBitLe pin (3 + 32) \<or> \<not> testBitLe pin (5 + 32) \<or> \<not> testBitLe pin (6 + 32)
      \<or> \<not> testBitLe ext (15 + 32) \<or> \<not> testBitLe ext (9 + 32)
      \<or> (f_pat f \<and> \<not> testBitLe ext (19 + 32)) \<or> (f_pat f \<and> \<not> testBitLe ext (18 + 32))
      \<or> \<not> testBitLe ext (21 + 32) \<or> \<not> testBitLe ext (20 + 32) \<or> \<not> testBitLe ext (22 + 32)
      \<or> (f_pat f \<and> \<not> testBitLe ent (14 + 32)) \<or> \<not> testBitLe ent (15 + 32)
      \<or> \<not> testBitLe proc (2 + 32) \<or> \<not> testBitLe proc (11 + 32)
      \<or> (if cfgVtxTsd cfg then \<not> testBitLe proc (12 + 32) else \<not> testBitLe proc (3 + 32))
      \<or> \<not> testBitLe proc (19 + 32) \<or> \<not> testBitLe proc (20 + 32)
      \<or> \<not> testBitLe proc (22 + 32) \<or> \<not> testBitLe proc (25 + 32) \<or> \<not> testBitLe proc (28 + 32) \<or> \<not> testBitLe proc (31 + 32))
   \<and> \<not> (f_monitorMwait f \<and> (\<not> testBitLe proc (10 + 32) \<or> \<not> testBitLe proc (29 + 32)))"

definition vtx_controls2_ok :: "vtxCpuFlags \<Rightarrow> u64 \<Rightarrow> u64 \<Rightarrow> bool" where
  "vtx_controls2_ok f proc2 cap \<longleftrightarrow>
     \<not> (\<not> testBitLe proc2 (1 + 32) \<or> \<not> testBitLe proc2 (7 + 32) \<or> \<not> testBitLe proc2 (6 + 32)
      \<or> (f_sgx f \<and> \<not> testBitLe proc2 (15 + 32)))
   \<and> \<not> (cap AND 0x40 = 0 \<or> cap AND 0x4000 = 0)"

text \<open>What is recorded before the processor is switched: the flags, the controls, and the areas of the registers.\<close>

definition vtx_record :: "u32 \<Rightarrow> u32 \<Rightarrow> u32 \<Rightarrow> u32 \<Rightarrow> u64 \<Rightarrow> u64 \<Rightarrow> u64 \<Rightarrow> vtxCpu \<Rightarrow> vtxCpu" where
  "vtx_record pinMsr procMsr extMsr entMsr basic proc2 cap c =
    c\<lparr>cpuFlagsOf := (cpuFlagsOf c)\<lparr>f_vpid := testBitLe proc2 (5 + 32), f_ept2mb := cap AND 0x10000 \<noteq> 0,
        f_ept1gb := cap AND 0x20000 \<noteq> 0, f_eptUc := cap AND 0x100 \<noteq> 0, f_eptAd := cap AND 0x200000 \<noteq> 0\<rparr>,
      revisionId := ucast (basic AND 0x7fffffff),
      vmxPinbasedCtls := pinMsr, vmxEntryCtls := entMsr, vmxExitCtls := extMsr, vmxProcbasedCtls := procMsr,
      hostDr := (\<lambda>i. if i \<in> {1, 2, 3, 6, 7} then regDr c i else hostDr c i),
      msrAreaCount := word_of_nat (length ia32eVtxVmcsMsrCtxList),
      vmexitLoadArea := map (\<lambda>m. (m, msrOf c m)) ia32eVtxVmcsMsrCtxList,
      vmexitStoreVmentryLoadArea := map2 (\<lambda>m (_, d). (m, d)) ia32eVtxVmcsMsrCtxList (vmexitStoreVmentryLoadArea c),
      vmxonHeader := ucast (basic AND 0x7fffffff)\<rparr>"

text \<open>Whether the control register that the processor wants is one that the kernel can live with.\<close>

definition vtx_cr4_secure :: "vtxConfig \<Rightarrow> u64 \<Rightarrow> bool" where
  "vtx_cr4_secure cfg cr4 \<longleftrightarrow>
     \<not> ((cr4 AND 0x4 \<noteq> 0) \<noteq> cfgTsd cfg \<or> cr4 AND 0x40 \<noteq> 0 \<or> cr4 AND 0x100 \<noteq> 0 \<or> cr4 AND 0x1000 \<noteq> 0 \<or> cr4 AND 0x2000 = 0
      \<or> cr4 AND 0x40000 \<noteq> 0 \<or> cr4 AND 0x400000 \<noteq> 0 \<or> cr4 AND 0x2000000 \<noteq> 0
      \<or> (\<not> cfgPcid cfg \<and> cr4 AND 0x20000 \<noteq> 0) \<or> (\<not> cfgSmep cfg \<and> cr4 AND 0x100000 \<noteq> 0)
      \<or> (\<not> cfgSmap cfg \<and> cr4 AND 0x200000 \<noteq> 0) \<or> (\<not> cfgUmip cfg \<and> cr4 AND 0x800 \<noteq> 0))"

definition vtx_lose_features :: "u64 \<Rightarrow> vtxCpuFlags \<Rightarrow> vtxCpuFlags" where
  "vtx_lose_features cr4 f =
    f\<lparr>f_de := f_de f \<and> cr4 AND 8 \<noteq> 0, f_pcid := f_pcid f \<and> cr4 AND 0x20000 \<noteq> 0, f_fsgsbase := f_fsgsbase f \<and> cr4 AND 0x10000 \<noteq> 0,
      f_smep := f_smep f \<and> cr4 AND 0x100000 \<noteq> 0, f_smap := f_smap f \<and> cr4 AND 0x200000 \<noteq> 0\<rparr>"

text \<open>The last part: the registers that the processor wants, and \<open>vmxon\<close>, which \<open>vmxonOk\<close> answers.\<close>

definition vtx_enter :: "vtxConfig \<Rightarrow> bool \<Rightarrow> u32 \<Rightarrow> vtxCpu \<times> vtxGlobal \<Rightarrow> vtxCpu \<times> vtxGlobal" where
  "vtx_enter cfg vmxonOk cpu = (\<lambda>(c, g).
    let cr0 = (regCr0 c OR msrOf c 0x486) AND msrOf c 0x487;
        cr4 = (regCr4 c OR msrOf c 0x488) AND msrOf c 0x489
    in if \<not> vtx_cr4_secure cfg cr4 then (c, g)
       else
         let c = c\<lparr>cpuFlagsOf := vtx_lose_features cr4 (cpuFlagsOf c), regCr0 := cr0, regCr4 := cr4\<rparr>
         in if \<not> vmxonOk then (c, g)
            else (c\<lparr>inVmx := True, cpuFlagsOf := (cpuFlagsOf c)\<lparr>f_vcpuCapable := True\<rparr>\<rparr>,
                  g\<lparr>vcpuCapableExists := True, vpidCapableExists := vpidCapableExists g \<or> f_vpid (cpuFlagsOf c),
                    vcpuCapable := (vcpuCapable g)(cpu := True)\<rparr>))"

definition ia32eCpuVtxInit :: "vtxConfig \<Rightarrow> bool \<Rightarrow> u32 \<Rightarrow> vtxCpu \<times> vtxGlobal \<Rightarrow> vtxCpu \<times> vtxGlobal" where
  "ia32eCpuVtxInit cfg vmxonOk cpu = (\<lambda>(c, g).
    let featureCtrl = msrOf c 0x3a in
    if f_rtm (cpuFlagsOf c) then (c, g)
    else if featureCtrl AND 1 \<noteq> 0 \<and> featureCtrl AND 4 = 0 then (c, g)
    else
      let c = (if featureCtrl AND 1 = 0 then c\<lparr>msrOf := (msrOf c)(0x3a := featureCtrl OR 4 OR 1)\<rparr> else c);
          basic = msrOf c 0x480
      in if \<not> testBitLe basic 54 then (c, g)
         else
           let true_ctls = testBitLe basic 55;
               pinMsr = (if true_ctls then 0x48d else 0x481); extMsr = (if true_ctls then 0x48f else 0x483);
               entMsr = (if true_ctls then 0x490 else 0x484); procMsr = (if true_ctls then 0x48e else 0x482)
           in if \<not> vtx_controls_ok cfg (cpuFlagsOf c) (msrOf c pinMsr) (msrOf c extMsr) (msrOf c entMsr) (msrOf c procMsr)
              then (c, g)
              else if \<not> vtx_controls2_ok (cpuFlagsOf c) (msrOf c 0x48b) (msrOf c 0x48c) then (c, g)
              else vtx_enter cfg vmxonOk cpu
                     (vtx_record pinMsr procMsr extMsr entMsr basic (msrOf c 0x48b) (msrOf c 0x48c) c, g))"

subsection \<open>Which registers are reached without an exit\<close>

text \<open>
  How the processor uses the bitmap: an access to a register exits if its bit is set, or if the register is in
  neither of the two ranges. The reads have the first half of the bitmap.
\<close>

definition trapped :: "(nat \<Rightarrow> u8) \<Rightarrow> nat \<Rightarrow> bool" where
  "trapped bm q = bit (bm (q div 8)) (q mod 8)"

definition in_bitmap :: "u32 \<Rightarrow> bool" where
  "in_bitmap msr \<longleftrightarrow> msr \<le> 0x1fff \<or> (msr \<ge> 0xc0000000 \<and> msr \<le> 0xc0001fff)"

definition msr_bit :: "bool \<Rightarrow> u32 \<Rightarrow> nat" where
  "msr_bit isRead msr = ((if isRead then 0 else 2) + (if msr \<le> 0x1fff then 0 else 1)) * 8192
     + (if msr \<le> 0x1fff then unat msr else unat (msr - 0xc0000000))"

definition msr_exits :: "(nat \<Rightarrow> u8) \<Rightarrow> bool \<Rightarrow> u32 \<Rightarrow> bool" where
  "msr_exits bm isRead msr \<longleftrightarrow> \<not> in_bitmap msr \<or> trapped bm (msr_bit isRead msr)"

lemma high_msr:
  fixes msr :: u32
  assumes "msr \<ge> 0xc0000000" "msr \<le> 0xc0001fff"
  shows "unat (msr - 0xc0000000) = unat msr - 0xc0000000" "unat (msr - 0xc0000000) < 8192" "\<not> msr \<le> 0x1fff"
proof -
  show e: "unat (msr - 0xc0000000) = unat msr - 0xc0000000" using unat_sub[OF assms(1)] by simp
  show "unat (msr - 0xc0000000) < 8192" "\<not> msr \<le> 0x1fff" using assms unfolding e by (simp_all add: word_le_nat_alt)
qed

lemma msr_bit_range:
  assumes "in_bitmap msr" shows "msr_bit True msr < 16384" "16384 \<le> msr_bit False msr" "msr_bit False msr < 32768"
  using assms high_msr[of msr] by (auto simp: in_bitmap_def msr_bit_def word_le_nat_alt)

lemma msr_bit_inj: "in_bitmap m \<Longrightarrow> in_bitmap n \<Longrightarrow> msr_bit b m = msr_bit b n \<Longrightarrow> m = n"
  using high_msr[of m] high_msr[of n]
  by (auto simp: in_bitmap_def msr_bit_def word_unat_eq_iff word_le_nat_alt split: if_splits)

lemma clear_bit_effect:
  assumes "c < 4" "u < 8192"
  shows "\<exists>bm'. clear_bit (int c * 1024, int u) (bm, k) = (bm', k)
    \<and> (\<forall>p. trapped bm' p \<longleftrightarrow> trapped bm p \<and> p \<noteq> c * 8192 + u)"
proof -
  let ?q = "c * 8192 + u"
  have q: "?q = u + (c * 1024) * 8" by simp
  have d: "?q div 8 = c * 1024 + u div 8" "?q mod 8 = u mod 8" unfolding q by (rule div_mult_self1, simp, rule mod_mult_self1)
  have i: "int c * 1024 + int u div 8 = int (?q div 8)" "int u mod 8 = int (?q mod 8)"
    unfolding d by (simp_all add: zdiv_int zmod_int)
  have "?q div 8 < 4096" using assms unfolding d by simp
  then have e: "clear_bit (int c * 1024, int u) (bm, k) = (bm(?q div 8 := bm (?q div 8) AND NOT (push_bit (?q mod 8) 1)), k)"
    unfolding clear_bit_def prod.case i Let_def by (simp add: K_DYNAMIC_ASSERT_def)
  have "trapped (bm(?q div 8 := bm (?q div 8) AND NOT (push_bit (?q mod 8) 1))) p \<longleftrightarrow> trapped bm p \<and> p \<noteq> ?q" for p
  proof (cases "p div 8 = ?q div 8")
    case True
    then have "p = ?q \<longleftrightarrow> p mod 8 = ?q mod 8" by (metis div_mult_mod_eq)
    moreover have "p mod 8 < 8" "?q mod 8 < 8" by simp_all
    ultimately show ?thesis using True by (auto simp: trapped_def bit_simps)
  qed (auto simp: trapped_def)
  then show ?thesis using e by blast
qed

definition msr_block :: "bool \<Rightarrow> u32 \<Rightarrow> nat" where
  "msr_block isRead msr = (if isRead then 0 else 2) + (if msr \<le> 0x1fff then 0 else 1)"

definition msr_place :: "u32 \<Rightarrow> nat" where
  "msr_place msr = (if msr \<le> 0x1fff then unat msr else unat (msr - 0xc0000000))"

lemma msr_parts:
  assumes "in_bitmap msr"
  shows "msr_bit isRead msr = msr_block isRead msr * 8192 + msr_place msr" "msr_block isRead msr < 4" "msr_place msr < 8192"
    "ia32eVtxVmcsMapMsrRead msr = (int (msr_block True msr) * 1024, int (msr_place msr))"
    "ia32eVtxVmcsMapMsrWrite msr = (int (msr_block False msr) * 1024, int (msr_place msr))"
proof -
  show "msr_bit isRead msr = msr_block isRead msr * 8192 + msr_place msr" "msr_block isRead msr < 4"
    by (simp_all add: msr_bit_def msr_block_def msr_place_def)
  show "msr_place msr < 8192" using assms high_msr(2)[of msr] by (auto simp: in_bitmap_def msr_place_def word_le_nat_alt)
  show "ia32eVtxVmcsMapMsrRead msr = (int (msr_block True msr) * 1024, int (msr_place msr))"
    "ia32eVtxVmcsMapMsrWrite msr = (int (msr_block False msr) * 1024, int (msr_place msr))"
    using assms high_msr(3)[of msr]
    by (auto simp: in_bitmap_def ia32eVtxVmcsMapMsrRead_def ia32eVtxVmcsMapMsrWrite_def map_msr_def msr_block_def msr_place_def)
qed

lemma untrap_effect:
  assumes "in_bitmap msr"
  shows "\<exists>bm'. ia32eVtxVmcsUntrapMsr msr (bm, k) = (bm', k)
    \<and> (\<forall>p. trapped bm' p \<longleftrightarrow> trapped bm p \<and> p \<noteq> msr_bit True msr \<and> p \<noteq> msr_bit False msr)"
proof -
  note m = msr_parts[OF assms]
  show ?thesis
    using clear_bit_effect[OF m(2,3), of True bm k] clear_bit_effect[OF m(2,3), of False _ k]
    unfolding ia32eVtxVmcsUntrapMsr_def ia32eVtxVmcsUntrapMsrRead_def ia32eVtxVmcsUntrapMsrWrite_def m(4,5) m(1)
    by (metis (no_types, lifting))
qed

lemma untrap_list:
  assumes "\<forall>m \<in> set ms. in_bitmap m"
  shows "\<exists>bm'. fold ia32eVtxVmcsUntrapMsr ms (bm, k) = (bm', k)
    \<and> (\<forall>p. trapped bm' p \<longleftrightarrow> trapped bm p \<and> p \<notin> msr_bit True ` set ms \<union> msr_bit False ` set ms)"
  using assms
proof (induction ms arbitrary: bm)
  case (Cons m ms)
  obtain bm1 where 1: "ia32eVtxVmcsUntrapMsr m (bm, k) = (bm1, k)"
      "\<forall>p. trapped bm1 p \<longleftrightarrow> trapped bm p \<and> p \<noteq> msr_bit True m \<and> p \<noteq> msr_bit False m"
    using untrap_effect[of m bm k] Cons.prems by auto
  obtain bm2 where 2: "fold ia32eVtxVmcsUntrapMsr ms (bm1, k) = (bm2, k)"
      "\<forall>p. trapped bm2 p \<longleftrightarrow> trapped bm1 p \<and> p \<notin> msr_bit True ` set ms \<union> msr_bit False ` set ms"
    using Cons.IH[of bm1] Cons.prems by auto
  then show ?case using 1 by (intro exI[of _ bm2]) auto
qed simp

lemma allow_list_in_bitmap: "\<forall>m \<in> set ia32eVtxVmcsMsrAllowList. in_bitmap m"
  by (simp add: ia32eVtxVmcsMsrAllowList_def in_bitmap_def)

lemma all_ept_ad_iff: "all_ept_ad cpus \<longleftrightarrow> (\<forall>(online, ad) \<in> set cpus. online \<longrightarrow> ad)"
  by (induction cpus rule: all_ept_ad.induct) auto

lemma global_vtx_init:
  assumes "vcpuCapableExists g" "length cpus \<le> n"
  shows "\<exists>bm'. ia32eGlobalVtxInit cfg n cpus (g, bm, k) =
      ((if cfgVpid cfg then g\<lparr>vpidCtr := 1\<rparr> else g)\<lparr>allEptAd := all_ept_ad cpus\<rparr>, bm', k)
    \<and> (\<forall>isRead msr. msr_exits bm' isRead msr \<longleftrightarrow> msr \<notin> set ia32eVtxVmcsMsrAllowList)"
proof -
  let ?bm = "\<lambda>i. if i < 4096 then 0xff else bm i"
  obtain bm' where f: "fold ia32eVtxVmcsUntrapMsr ia32eVtxVmcsMsrAllowList (?bm, k) = (bm', k)"
      "\<And>p. trapped bm' p \<longleftrightarrow> trapped ?bm p \<and> p \<notin> msr_bit True ` set ia32eVtxVmcsMsrAllowList \<union> msr_bit False ` set ia32eVtxVmcsMsrAllowList"
    using untrap_list[OF allow_list_in_bitmap, of ?bm k] by blast
  have all: "trapped ?bm p" if "p < 32768" for p
  proof -
    have m: "(0xff :: u8) = mask 8" by (simp add: mask_eq_exp_minus_1)
    have "p div 8 < 4096" using that by simp
    then show ?thesis by (simp add: trapped_def m bit_simps)
  qed
  have "msr_exits bm' isRead msr \<longleftrightarrow> msr \<notin> set ia32eVtxVmcsMsrAllowList" for isRead msr
  proof (cases "in_bitmap msr")
    case False
    then show ?thesis using allow_list_in_bitmap by (auto simp: msr_exits_def)
  next
    case True
    have r: "msr_bit isRead msr < 32768" using msr_bit_range[OF True] by (cases isRead) auto
    have "msr_bit isRead msr \<in> msr_bit b ` set ia32eVtxVmcsMsrAllowList \<longleftrightarrow> b = isRead \<and> msr \<in> set ia32eVtxVmcsMsrAllowList" for b
    proof
      assume "msr_bit isRead msr \<in> msr_bit b ` set ia32eVtxVmcsMsrAllowList"
      then obtain m where m: "m \<in> set ia32eVtxVmcsMsrAllowList" "msr_bit isRead msr = msr_bit b m" by auto
      have n: "in_bitmap m" using m(1) allow_list_in_bitmap by blast
      have "b = isRead" using msr_bit_range[OF True] msr_bit_range[OF n] m(2) by (cases isRead; cases b) auto
      then show "b = isRead \<and> msr \<in> set ia32eVtxVmcsMsrAllowList" using m msr_bit_inj[OF True n, of b] by auto
    qed auto
    then show ?thesis using True f(2)[of "msr_bit isRead msr"] all[OF r] by (cases isRead) (auto simp: msr_exits_def)
  qed
  then show ?thesis using assms f(1) by (simp add: ia32eGlobalVtxInit_def Let_def K_DYNAMIC_ASSERT_def)
qed

subsection \<open>The controls that the emulator relies on\<close>

text \<open>A bit that is asked for and that the processor allows survives the adjustment.\<close>

lemma mask_of_bit: "bit (mask_of bs) k \<longleftrightarrow> k \<in> set bs \<and> k < 64"
proof -
  have "bit (fold (\<lambda>b m. m OR push_bit b 1) bs m) k \<longleftrightarrow> bit m k \<or> (k \<in> set bs \<and> k < 64)" for m :: u64
    by (induction bs arbitrary: m) (auto simp: bit_simps dest: bit_imp_le_length)
  then show ?thesis by (simp add: mask_of_def)
qed

lemma adjusted_bit:
  assumes "k \<in> set bs" "k < 32" "testBitLe cap (k + 32)"
  shows "bit ((mask_of bs OR (cap AND 0xffffffff)) AND drop_bit 32 cap) k"
  using assms by (simp add: mask_of_bit bit_simps testBitLe_bit add.commute)

lemma adjusted_write:
  assumes "\<not> stopped s" "vmwriteOk V f"
  shows "ia32eVmwriteAdjusted V t m f v s =
    set_vmcs t f ((v OR (ia32eRdmsr V m AND 0xffffffff)) AND drop_bit 32 (ia32eRdmsr V m)) s"
  using assms by (simp add: ia32eVmwriteAdjusted_def Let_def)

text \<open>The environment of the emulator on a CPU: it reads the registers and the flags that the start has recorded.\<close>

definition runs_on :: "vtxConfig \<Rightarrow> vtxCpu \<Rightarrow> 'p vtxEnv \<Rightarrow> bool" where
  "runs_on cfg c V \<longleftrightarrow> ia32eRdmsr V = msrOf c \<and> VTX_TSD V = cfgVtxTsd cfg
     \<and> ia32eVmxPinbasedCtls V = vmxPinbasedCtls c \<and> ia32eVmxProcbasedCtls V = vmxProcbasedCtls c
     \<and> ia32eVmxExitCtls V = vmxExitCtls c \<and> ia32eVmxEntryCtls V = vmxEntryCtls c
     \<and> flags V = cpuFlags.truncate (cpuFlagsOf c)"

definition allowed :: "vtxCpu \<Rightarrow> u32 \<Rightarrow> nat \<Rightarrow> bool" where
  "allowed c m k = testBitLe (msrOf c m) (k + 32)"

text \<open>What the start has found when it says that a CPU can run virtual machines.\<close>

lemma vtx_init_capable:
  assumes "ia32eCpuVtxInit cfg vmxonOk cpu (c0, g0) = (c, g)" "f_vcpuCapable (cpuFlagsOf c)" "\<not> f_vcpuCapable (cpuFlagsOf c0)"
  shows "\<not> f_rtm (cpuFlagsOf c)" "inVmx c" "vtx_cr4_secure cfg (regCr4 c)"
    "k \<in> {0, 3, 5, 6} \<Longrightarrow> allowed c (vmxPinbasedCtls c) k"
    "k \<in> {9, 15, 20, 21, 22} \<union> (if f_pat (cpuFlagsOf c) then {18, 19} else {}) \<Longrightarrow> allowed c (vmxExitCtls c) k"
    "k \<in> {15} \<union> (if f_pat (cpuFlagsOf c) then {14} else {}) \<Longrightarrow> allowed c (vmxEntryCtls c) k"
    "k \<in> {2, 11, if cfgVtxTsd cfg then 12 else 3, 19, 20, 22, 25, 28, 31} \<union> (if f_monitorMwait (cpuFlagsOf c) then {10, 29} else {})
      \<Longrightarrow> allowed c (vmxProcbasedCtls c) k"
    "k \<in> {1, 6, 7} \<union> (if f_sgx (cpuFlagsOf c) then {15} else {}) \<Longrightarrow> allowed c 0x48b k"
    "vcpuCapable g cpu"
proof -
  define c1 where "c1 = (if msrOf c0 0x3a AND 1 = 0 then c0\<lparr>msrOf := (msrOf c0)(0x3a := msrOf c0 0x3a OR 4 OR 1)\<rparr> else c0)"
  define b where "b = testBitLe (msrOf c1 0x480) 55"
  define pinMsr :: u32 where "pinMsr = (if b then 0x48d else 0x481)"
  define extMsr :: u32 where "extMsr = (if b then 0x48f else 0x483)"
  define entMsr :: u32 where "entMsr = (if b then 0x490 else 0x484)"
  define procMsr :: u32 where "procMsr = (if b then 0x48e else 0x482)"
  define c2 where "c2 = vtx_record pinMsr procMsr extMsr entMsr (msrOf c1 0x480) (msrOf c1 0x48b) (msrOf c1 0x48c) c1"
  have f1: "cpuFlagsOf c1 = cpuFlagsOf c0" by (simp add: c1_def)
  have cap: "\<not> f_vcpuCapable (cpuFlagsOf c1)" "\<not> f_vcpuCapable (cpuFlagsOf c2)" using assms(3) by (simp_all add: f1 c2_def vtx_record_def)
  have i: "\<not> f_rtm (cpuFlagsOf c0) \<and> vtx_controls_ok cfg (cpuFlagsOf c1) (msrOf c1 pinMsr) (msrOf c1 extMsr) (msrOf c1 entMsr) (msrOf c1 procMsr)
      \<and> vtx_controls2_ok (cpuFlagsOf c1) (msrOf c1 0x48b) (msrOf c1 0x48c) \<and> vtx_enter cfg vmxonOk cpu (c2, g0) = (c, g)"
    using assms cap(1) unfolding ia32eCpuVtxInit_def prod.case Let_def c1_def[symmetric] b_def[symmetric] pinMsr_def[symmetric]
      extMsr_def[symmetric] entMsr_def[symmetric] procMsr_def[symmetric] c2_def[symmetric]
    by (auto split: if_splits)
  let ?cr4 = "(regCr4 c2 OR msrOf c2 0x488) AND msrOf c2 0x489"
  have e: "vtx_cr4_secure cfg ?cr4" "vmxonOk" "c = c2\<lparr>cpuFlagsOf := (vtx_lose_features ?cr4 (cpuFlagsOf c2))\<lparr>f_vcpuCapable := True\<rparr>,
        regCr0 := (regCr0 c2 OR msrOf c2 0x486) AND msrOf c2 0x487, regCr4 := ?cr4, inVmx := True\<rparr>" "vcpuCapable g cpu"
    using i assms(2) cap(2) by (auto simp: vtx_enter_def Let_def vtx_lose_features_def split: if_splits)
  have m: "msrOf c = msrOf c1" "vmxPinbasedCtls c = pinMsr" "vmxProcbasedCtls c = procMsr" "vmxExitCtls c = extMsr" "vmxEntryCtls c = entMsr"
      "f_pat (cpuFlagsOf c) = f_pat (cpuFlagsOf c1)" "f_monitorMwait (cpuFlagsOf c) = f_monitorMwait (cpuFlagsOf c1)"
      "f_sgx (cpuFlagsOf c) = f_sgx (cpuFlagsOf c1)" "f_rtm (cpuFlagsOf c) = f_rtm (cpuFlagsOf c0)"
    unfolding e(3) by (simp_all add: c2_def vtx_record_def vtx_lose_features_def f1)
  show "\<not> f_rtm (cpuFlagsOf c)" using i unfolding m(9) by blast
  show "inVmx c" "vtx_cr4_secure cfg (regCr4 c)" using e(1) unfolding e(3) by simp_all
  show "vcpuCapable g cpu" by (rule e(4))
  have k1: "vtx_controls_ok cfg (cpuFlagsOf c1) (msrOf c1 pinMsr) (msrOf c1 extMsr) (msrOf c1 entMsr) (msrOf c1 procMsr)" using i by blast
  have k2: "vtx_controls2_ok (cpuFlagsOf c1) (msrOf c1 0x48b) (msrOf c1 0x48c)" using i by blast
  show "k \<in> {0, 3, 5, 6} \<Longrightarrow> allowed c (vmxPinbasedCtls c) k"
    using k1 unfolding vtx_controls_ok_def allowed_def m by auto
  show "k \<in> {9, 15, 20, 21, 22} \<union> (if f_pat (cpuFlagsOf c) then {18, 19} else {}) \<Longrightarrow> allowed c (vmxExitCtls c) k"
    using k1 unfolding vtx_controls_ok_def allowed_def m by (auto split: if_splits)
  show "k \<in> {15} \<union> (if f_pat (cpuFlagsOf c) then {14} else {}) \<Longrightarrow> allowed c (vmxEntryCtls c) k"
    using k1 unfolding vtx_controls_ok_def allowed_def m by (auto split: if_splits)
  show "k \<in> {2, 11, if cfgVtxTsd cfg then 12 else 3, 19, 20, 22, 25, 28, 31} \<union> (if f_monitorMwait (cpuFlagsOf c) then {10, 29} else {})
      \<Longrightarrow> allowed c (vmxProcbasedCtls c) k"
    using k1 unfolding vtx_controls_ok_def allowed_def m by (auto split: if_splits)
  show "k \<in> {1, 6, 7} \<union> (if f_sgx (cpuFlagsOf c) then {15} else {}) \<Longrightarrow> allowed c 0x48b k"
    using k2 unfolding vtx_controls2_ok_def allowed_def m by (auto split: if_splits)
qed

text \<open>After the reset of a virtual CPU the controls hold everything that was asked for and allowed.\<close>

lemma setup_controls_bits:
  fixes t :: addr and s :: "'p vmstate"
  assumes "\<not> stopped s" "\<And>f. vmwriteOk V f" "ia32eRdmsr V = msrOf c"
  defines "s' \<equiv> setup_controls V t s"
  shows "k \<in> {0, 3, 5} \<Longrightarrow> allowed c (ia32eVmxPinbasedCtls V) k \<Longrightarrow> bit (ia32eVmread t CTRL_PINBASED_CONTROLS s') k"
    "k \<in> {10, 11, if VTX_TSD V then 12 else 3, 19, 20, 25, 28, 29, 31} \<Longrightarrow> allowed c (ia32eVmxProcbasedCtls V) k
      \<Longrightarrow> bit (ia32eVmread t CTRL_PROCBASED_CTLS s') k"
    "k \<in> {9, 15, 18, 19, 20, 21} \<Longrightarrow> allowed c (ia32eVmxExitCtls V) k \<Longrightarrow> bit (ia32eVmread t CTRL_PRIMARY_VMEXIT_CONTROLS s') k"
    "k \<in> {14, 15} \<Longrightarrow> allowed c (ia32eVmxEntryCtls V) k \<Longrightarrow> bit (ia32eVmread t CTRL_VMENTRY_CONTROLS s') k"
    "k \<in> {1, 5, 6, 7, 15} \<Longrightarrow> allowed c 0x48b k \<Longrightarrow> bit (ia32eVmread t CTRL_PROCBASED_CTLS2 s') k"
    "\<not> stopped s'" "kern s' = kern s"
proof -
  note w = adjusted_write[OF _ assms(2)] vmwrite_ok[OF assms(2)]
  show "k \<in> {0, 3, 5} \<Longrightarrow> allowed c (ia32eVmxPinbasedCtls V) k \<Longrightarrow> bit (ia32eVmread t CTRL_PINBASED_CONTROLS s') k"
    using adjusted_bit[of k "[0, 3, 5]" "msrOf c (ia32eVmxPinbasedCtls V)"] assms(1)
    unfolding s'_def setup_controls_def Let_def allowed_def by (auto simp: w assms(3))
  show "k \<in> {10, 11, if VTX_TSD V then 12 else 3, 19, 20, 25, 28, 29, 31} \<Longrightarrow> allowed c (ia32eVmxProcbasedCtls V) k
      \<Longrightarrow> bit (ia32eVmread t CTRL_PROCBASED_CTLS s') k"
    using adjusted_bit[of k "[10, 11, if VTX_TSD V then 12 else 3, 19, 20, 25, 28, 29, 31]" "msrOf c (ia32eVmxProcbasedCtls V)"] assms(1)
    unfolding s'_def setup_controls_def Let_def allowed_def by (auto simp: w assms(3))
  show "k \<in> {9, 15, 18, 19, 20, 21} \<Longrightarrow> allowed c (ia32eVmxExitCtls V) k \<Longrightarrow> bit (ia32eVmread t CTRL_PRIMARY_VMEXIT_CONTROLS s') k"
    using adjusted_bit[of k "[9, 15, 18, 19, 20, 21]" "msrOf c (ia32eVmxExitCtls V)"] assms(1)
    unfolding s'_def setup_controls_def Let_def allowed_def by (auto simp: w assms(3))
  show "k \<in> {14, 15} \<Longrightarrow> allowed c (ia32eVmxEntryCtls V) k \<Longrightarrow> bit (ia32eVmread t CTRL_VMENTRY_CONTROLS s') k"
    using adjusted_bit[of k "[14, 15]" "msrOf c (ia32eVmxEntryCtls V)"] assms(1)
    unfolding s'_def setup_controls_def Let_def allowed_def by (auto simp: w assms(3))
  show "k \<in> {1, 5, 6, 7, 15} \<Longrightarrow> allowed c 0x48b k \<Longrightarrow> bit (ia32eVmread t CTRL_PROCBASED_CTLS2 s') k"
    using adjusted_bit[of k "[1, 5, 6, 7, 15]" "msrOf c 0x48b"] assms(1)
    unfolding s'_def setup_controls_def Let_def allowed_def by (auto simp: w assms(3))
  show "\<not> stopped s'" "kern s' = kern s" using assms(1) unfolding s'_def setup_controls_def Let_def by (simp_all add: w)
qed

end
