(* ===== verification/CpuStart.thy ===== *)
theory CpuStart
  imports CpuVtx
begin

text \<open>
  The start of a CPU (\<^verbatim>\<open>ia32eCpu.c\<close>): its place in the topology of the machine, and the features that it
  has and that the kernel switches on. \<open>cpuid\<close> is the processor's answer for a leaf and a subleaf, in the order
  \<open>eax\<close>, \<open>ebx\<close>, \<open>ecx\<close>, \<open>edx\<close>.
\<close>

type_synonym cpuidFn = "u32 \<Rightarrow> u32 \<Rightarrow> u32 \<times> u32 \<times> u32 \<times> u32"

abbreviation eax :: "u32 \<times> u32 \<times> u32 \<times> u32 \<Rightarrow> u32" where "eax x \<equiv> fst x"
abbreviation ebx :: "u32 \<times> u32 \<times> u32 \<times> u32 \<Rightarrow> u32" where "ebx x \<equiv> fst (snd x)"
abbreviation ecx :: "u32 \<times> u32 \<times> u32 \<times> u32 \<Rightarrow> u32" where "ecx x \<equiv> fst (snd (snd x))"
abbreviation edx :: "u32 \<times> u32 \<times> u32 \<times> u32 \<Rightarrow> u32" where "edx x \<equiv> snd (snd (snd x))"

subsection \<open>Topology\<close>

record topology =
  lapicId :: u32
  threadId :: u32
  coreId :: u32
  pkgId :: u32

text \<open>\<open>(1U << w) - 1\<close>.\<close>

definition width_mask :: "u32 \<Rightarrow> u32" where
  "width_mask w = push_bit (unat w) 1 - 1"

definition level_type :: "u32 \<times> u32 \<times> u32 \<times> u32 \<Rightarrow> u32" where
  "level_type r = drop_bit 8 (ecx r) AND 0xff"

definition level_shift :: "u32 \<times> u32 \<times> u32 \<times> u32 \<Rightarrow> u32" where
  "level_shift r = eax r AND 0x1f"

text \<open>The loop over the levels of leaf \<open>0x1f\<close>, until the processor reports none; the widths of thread and core.\<close>

partial_function (option) levels :: "cpuidFn \<Rightarrow> u32 \<Rightarrow> u32 \<times> u32 \<Rightarrow> (u32 \<times> u32) option" where
  "levels cpuid i w =
    (let r = cpuid 0x1f i
     in if level_type r = 0 then Some w
        else levels cpuid (i + 1)
          (if level_type r = 1 then (level_shift r, snd w)
           else if level_type r = 2 then (fst w, level_shift r) else w))"

definition split_id :: "u32 \<Rightarrow> u32 \<Rightarrow> u32 \<Rightarrow> topology" where
  "split_id smt core i =
    \<lparr>lapicId = i,
     threadId = (if smt \<noteq> 0 then i AND width_mask smt else 0),
     coreId = (if core \<noteq> 0 then drop_bit (unat smt) (i AND width_mask core) else 0),
     pkgId = (if core \<noteq> 0 then drop_bit (unat core) i else drop_bit (unat smt) i)\<rparr>"

text \<open>\<open>Some None\<close> is the result \<open>false\<close>, \<open>None\<close> a loop that does not end.\<close>

definition ia32eThisTopology0x1f :: "cpuidFn \<Rightarrow> topology option option" where
  "ia32eThisTopology0x1f cpuid =
    (if eax (cpuid 0 0) < 0x1f then Some None
     else let r = cpuid 0x1f 0
          in if ebx r = 0 then Some None
             else (case levels cpuid 0 (0, 0) of
                     None \<Rightarrow> None
                   | Some (smt, core) \<Rightarrow> Some (Some (split_id smt core (edx r)))))"

text \<open>The end of \<open>ia32eThisTopology0x0b\<close>: the widths of thread and core are known.\<close>

definition place_id :: "u32 \<Rightarrow> u32 \<Rightarrow> u32 \<Rightarrow> topology option" where
  "place_id thr core i =
    (let threadId = (if thr \<noteq> 0 then i AND width_mask thr else 0)
     in if core \<noteq> 0
        then if core > thr
             then Some \<lparr>lapicId = i, threadId = threadId, coreId = drop_bit (unat thr) (i AND width_mask core),
                        pkgId = drop_bit (unat core) i\<rparr>
             else if core = thr
             then Some \<lparr>lapicId = i, threadId = threadId, coreId = 0, pkgId = drop_bit (unat thr) i\<rparr>
             else None
        else Some \<lparr>lapicId = i, threadId = threadId, coreId = i, pkgId = 0\<rparr>)"

definition ia32eThisTopology0x0b :: "cpuidFn \<Rightarrow> topology option" where
  "ia32eThisTopology0x0b cpuid =
    (if eax (cpuid 0 0) < 0xb then None
     else
       let r0 = cpuid 0xb 0; r1 = cpuid 0xb 1; i = edx r0
       in if ebx r0 = 0 then None
          else if level_type r0 \<noteq> 1 \<and> level_type r0 \<noteq> 2 then None
          else
            let thr = (if level_type r0 = 1 then level_shift r0
                       else if level_type r1 = 1 \<and> level_shift r1 \<noteq> 0 then level_shift r1 else 0);
                core = (if level_type r0 = 2 then level_shift r0
                        else if level_type r1 = 2 \<and> level_shift r1 \<noteq> 0 then level_shift r1 else 0)
            in place_id thr core i)"

text \<open>The loops that count how often a number can be halved.\<close>

fun count_bits :: "nat \<Rightarrow> nat" where
  "count_bits n = (if n > 1 then Suc (count_bits (n div 2)) else 0)"

declare count_bits.simps [simp del]

definition legacy_id :: "u32 \<Rightarrow> u32 \<Rightarrow> u32 \<Rightarrow> topology" where
  "legacy_id threadIdBits coreIdBits i =
    \<lparr>lapicId = i, threadId = i AND width_mask threadIdBits,
     coreId = drop_bit (unat threadIdBits) (i AND width_mask (threadIdBits + coreIdBits)),
     pkgId = drop_bit (unat (coreIdBits + threadIdBits)) i\<rparr>"

definition ia32eThisTopologyLegacy :: "cpuidFn \<Rightarrow> topology" where
  "ia32eThisTopologyLegacy cpuid =
    (let r = cpuid 1 0;
         i = drop_bit 24 (ebx r) AND 0xff;
         threadCount = drop_bit 16 (ebx r) AND 0xff;
         smtSupported = (drop_bit 28 (edx r) AND 1 \<noteq> 0);
         r4 = cpuid 4 0;
         coresPerPkg = (if eax (cpuid 0 0) \<ge> 4 \<and> eax r4 AND 0x1f \<noteq> 0 then (drop_bit 26 (eax r4) AND 0x3f) + 1 else 1)
     in if \<not> smtSupported \<or> threadCount < 2 then \<lparr>lapicId = i, threadId = 0, coreId = i, pkgId = 0\<rparr>
        else
          legacy_id (word_of_nat (count_bits (unat (threadCount div coresPerPkg)))) (word_of_nat (count_bits (unat coresPerPkg))) i)"

definition ia32eThisTopology :: "cpuidFn \<Rightarrow> topology option" where
  "ia32eThisTopology cpuid =
    (case ia32eThisTopology0x1f cpuid of
       None \<Rightarrow> None
     | Some (Some t) \<Rightarrow> Some t
     | Some None \<Rightarrow>
         (case ia32eThisTopology0x0b cpuid of
            Some t \<Rightarrow> Some t
          | None \<Rightarrow> Some (ia32eThisTopologyLegacy cpuid)))"

subsection \<open>Features\<close>

record startFlags = vtxCpuFlags +
  f_rtmAbort :: bool
  f_invTsc :: bool

text \<open>
  What \<open>ia32eCpuInit\<close> changes: the flags and numbers of the CPU, and the registers of the processor. The tables of
  descriptors and the local APIC are left out.
\<close>

record cpuStart =
  startFlagsOf :: startFlags
  startCr4 :: u64
  startEfer :: u64
  startStar :: u64
  startFmask :: u64
  startDr7 :: u64
  startVersion :: u32
  startSubleafMax :: u32
  startEsigMax :: u32
  pcidCapableExists :: bool

definition has :: "u32 \<Rightarrow> nat \<Rightarrow> bool" where
  "has r k \<longleftrightarrow> r AND push_bit k 1 \<noteq> 0"

definition set_cr4 :: "bool \<Rightarrow> nat \<Rightarrow> u64 \<Rightarrow> u64" where
  "set_cr4 b k cr4 = (if b then cr4 OR push_bit k 1 else cr4)"

text \<open>The leaves 1 and 7: the flags and the control register.\<close>

definition cpu_features :: "vtxConfig \<Rightarrow> cpuidFn \<Rightarrow> cpuStart \<Rightarrow> cpuStart" where
  "cpu_features cfg cpuid c =
    (let r1 = cpuid 1 0; r7 = cpuid 7 0; f = startFlagsOf c;
         de = has (edx r1) 2; pcid = (has (ecx r1) 17 \<and> has (ebx r7) 10); fsgsbase = has (ebx r7) 0;
         smep = has (ebx r7) 7; smap = has (ebx r7) 20; umip = has (ecx r7) 2;
         cr4 = set_cr4 de 3 (startCr4 c);
         cr4 = set_cr4 (pcid \<and> cfgPcid cfg) 17 cr4;
         cr4 = set_cr4 fsgsbase 16 cr4;
         cr4 = set_cr4 (smep \<and> cfgSmep cfg) 20 cr4;
         cr4 = set_cr4 (smap \<and> cfgSmap cfg) 21 cr4;
         cr4 = set_cr4 (umip \<and> cfgUmip cfg) 11 cr4
     in c\<lparr>startVersion := eax r1, startCr4 := cr4, pcidCapableExists := pcidCapableExists c \<or> (pcid \<and> cfgPcid cfg),
         startSubleafMax := eax r7,
         startFlagsOf := f\<lparr>f_monitorMwait := has (ecx r1) 3, f_vme := has (edx r1) 1, f_de := f_de f \<or> de, f_pat := has (edx r1) 16,
           f_pcid := f_pcid f \<or> pcid, f_fsgsbase := f_fsgsbase f \<or> fsgsbase, f_smep := f_smep f \<or> smep,
           f_smap := f_smap f \<or> smap, f_umip := f_umip f \<or> umip, f_rtm := has (ebx r7) 11, f_rtmAbort := has (edx r7) 11,
           f_avx10 := (if eax r7 \<ge> 1 then has (edx (cpuid 7 1)) 19 else f_avx10 f)\<rparr>\<rparr>)"

text \<open>The extended leaves; the mask of the bit that enables no-execute is \<open>1 << 10\<close> in the source.\<close>

definition cpu_extended_features :: "cpuidFn \<Rightarrow> cpuStart \<Rightarrow> cpuStart" where
  "cpu_extended_features cpuid c =
    (let m = eax (cpuid 0x80000000 0); f = startFlagsOf c;
         r1 = cpuid 0x80000001 0; r6 = cpuid 0x80000006 0; r7 = cpuid 0x80000007 0; r8 = cpuid 0x80000008 0;
         f = (if m \<ge> 0x80000001
              then f\<lparr>f_nx := f_nx f \<or> has (edx r1) 20, f_lahf64 := has (ecx r1) 0, f_lzcnt := has (ecx r1) 5,
                     f_prefetchw := has (ecx r1) 8, f_pg1Gb := has (edx r1) 26\<rparr> else f);
         f = (if m \<ge> 0x80000006 then f\<lparr>f_l2LineSize := ucast (ecx r6 AND 0xff)\<rparr> else f);
         f = (if m \<ge> 0x80000007 then f\<lparr>f_invTsc := has (edx r7) 8\<rparr> else f);
         f = (if m \<ge> 0x80000008 then f\<lparr>f_wbnoinvd := has (ebx r8) 9\<rparr> else f)
     in c\<lparr>startEsigMax := m,
         startEfer := (if m \<ge> 0x80000001 \<and> has (edx r1) 20 then startEfer c OR push_bit 10 1 else startEfer c),
         startFlagsOf := f\<lparr>f_sgx := has (eax (cpuid 18 0)) 0\<rparr>\<rparr>)"

abbreviation IA32E_KCS_SELECTOR :: u64 where "IA32E_KCS_SELECTOR \<equiv> 8"
abbreviation IA32E_KDS_SELECTOR :: u64 where "IA32E_KDS_SELECTOR \<equiv> 16"
abbreviation IA32E_UCS_SELECTOR :: u64 where "IA32E_UCS_SELECTOR \<equiv> 35"
abbreviation IA32E_UDS_SELECTOR :: u64 where "IA32E_UDS_SELECTOR \<equiv> 27"

text \<open>The registers that do not depend on what the processor has.\<close>

definition cpu_registers :: "vtxConfig \<Rightarrow> cpuidFn \<Rightarrow> cpuStart \<Rightarrow> cpuStart" where
  "cpu_registers cfg cpuid c =
    (let c = cpu_extended_features cpuid (cpu_features cfg cpuid c)
     in c\<lparr>startCr4 := set_cr4 (cfgTsd cfg) 2 (startCr4 c),
         startEfer := startEfer c OR 1,
         startStar := push_bit 48 (push_bit 3 (3 - 1) OR 3) OR push_bit 32 IA32E_KCS_SELECTOR,
         startFmask := NOT 2,
         startDr7 := startDr7 c OR (8 OR push_bit 20 3 OR push_bit 22 2) OR (0x20 OR push_bit 24 3 OR push_bit 26 2)
           OR (0x80 OR push_bit 28 3 OR push_bit 30 2)\<rparr>)"

text \<open>
  The whole function: \<open>entry\<close> is the address of \<open>__ia32eSyscallEntry\<close>, \<open>guards\<close> has the addresses of the paddings
  of the three stacks. After the registers are written, \<open>vtxCpu\<close> has what the processor and \<open>ia32ePerCpu_t\<close> have; from
  there on its flags are those of the CPU.
\<close>

definition ia32eCpuInit ::
  "vtxConfig \<Rightarrow> cpuidFn \<Rightarrow> u64 \<Rightarrow> u64 \<times> u64 \<times> u64 \<Rightarrow> bool \<Rightarrow> u32 \<Rightarrow> cpuStart \<times> vtxCpu \<times> vtxGlobal \<Rightarrow>
   cpuStart \<times> vtxCpu \<times> vtxGlobal" where
  "ia32eCpuInit cfg cpuid entry guards vmxonOk cpu = (\<lambda>(c, v, g).
    let c = cpu_registers cfg cpuid c;
        v = v\<lparr>cpuFlagsOf := vtxCpuFlags.truncate (startFlagsOf c), regCr4 := startCr4 c,
              msrOf := (msrOf v)(IA32E_EFER := startEfer c, IA32E_STAR := startStar c, IA32E_LSTAR := entry, IA32E_FMASK := startFmask c),
              regDr := (regDr v)(1 := fst guards, 2 := fst (snd guards), 3 := snd (snd guards), 7 := startDr7 c)\<rparr>
    in (c, if has (ecx (cpuid 1 0)) 5 then ia32eCpuVtxInit cfg vmxonOk cpu (v, g) else (v, g)))"

subsection \<open>The topology tells CPUs apart\<close>

text \<open>Two CPUs of one machine: they report the same levels, and differ in their identifiers at most.\<close>

definition same_machine :: "cpuidFn \<Rightarrow> cpuidFn \<Rightarrow> bool" where
  "same_machine A B \<longleftrightarrow> eax (A 0 0) = eax (B 0 0)
     \<and> (\<forall>i. eax (A 0x1f i) = eax (B 0x1f i) \<and> ecx (A 0x1f i) = ecx (B 0x1f i)) \<and> ebx (A 0x1f 0) = ebx (B 0x1f 0)
     \<and> (\<forall>i \<in> {0, 1}. eax (A 0xb i) = eax (B 0xb i) \<and> ecx (A 0xb i) = ecx (B 0xb i)) \<and> ebx (A 0xb 0) = ebx (B 0xb 0)
     \<and> drop_bit 16 (ebx (A 1 0)) AND 0xff = drop_bit 16 (ebx (B 1 0)) AND 0xff \<and> edx (A 1 0) = edx (B 1 0)
     \<and> eax (A 4 0) = eax (B 4 0)"

abbreviation same_place :: "topology \<Rightarrow> topology \<Rightarrow> bool" where
  "same_place S T \<equiv> threadId S = threadId T \<and> coreId S = coreId T \<and> pkgId S = pkgId T"

lemma width_mask_eq: "width_mask w = mask (unat w)"
  by (simp add: width_mask_def mask_eq_exp_minus_1)

lemma split_unique:
  fixes i j :: u32
  assumes "i AND mask t = j AND mask t" "drop_bit t (i AND mask c) = drop_bit t (j AND mask c)" "drop_bit c i = drop_bit c j"
  shows "i = j"
proof (rule bit_word_eqI)
  fix n assume n: "n < LENGTH(32)"
  have b: "bit (i AND mask t) n = bit (j AND mask t) n" "bit (drop_bit t (i AND mask c)) (n - t) = bit (drop_bit t (j AND mask c)) (n - t)"
      "bit (drop_bit c i) (n - c) = bit (drop_bit c j) (n - c)"
    using assms by simp_all
  consider "n < t" | "c \<le> n" | "t \<le> n" "n < c" by linarith
  then show "bit i n = bit j n" using b n by cases (auto simp: bit_simps)
qed

lemma split_id_unique:
  assumes "same_place (split_id t c i) (split_id t c j)" shows "i = j"
proof -
  have t: "i AND mask (unat t) = j AND mask (unat t)"
    using assms by (cases "t = 0") (auto simp: split_id_def width_mask_eq)
  show ?thesis
  proof (cases "c = 0")
    case True
    then have "drop_bit (unat t) i = drop_bit (unat t) j" using assms by (simp add: split_id_def)
    then show ?thesis using split_unique[OF t, of "unat t"] t by simp
  next
    case False
    then show ?thesis using split_unique[OF t, of "unat c"] assms by (simp add: split_id_def width_mask_eq)
  qed
qed

lemma place_id_unique:
  assumes "place_id t c i = Some S" "place_id t c j = Some T" "same_place S T" shows "i = j"
proof -
  have t: "i AND mask (unat t) = j AND mask (unat t)"
    using assms by (cases "t = 0") (auto simp: place_id_def Let_def width_mask_eq split: if_splits)
  consider "c = 0" | "c \<noteq> 0" "c > t" | "c \<noteq> 0" "c = t" using assms(1) by (auto simp: place_id_def Let_def split: if_splits)
  then show ?thesis
  proof cases
    case 1
    then show ?thesis using assms by (auto simp: place_id_def)
  next
    case 2
    then show ?thesis using split_unique[OF t, of "unat c"] assms by (auto simp: place_id_def Let_def width_mask_eq)
  next
    case 3
    then have "drop_bit (unat t) i = drop_bit (unat t) j" using assms by (auto simp: place_id_def)
    then show ?thesis using split_unique[OF t, of "unat t"] t by simp
  qed
qed

lemma place_id_some: "place_id t c i = Some S \<Longrightarrow> lapicId S = i" "place_id t c i = None \<longleftrightarrow> place_id t c j = None"
  by (auto simp: place_id_def Let_def split: if_splits)

lemma legacy_id_unique: "same_place (legacy_id t c i) (legacy_id t c j) \<Longrightarrow> i = j"
  using split_unique[of i "unat t" j "unat (t + c)"] by (simp add: legacy_id_def width_mask_eq add.commute)

lemma levels_same:
  assumes "levels A i w = Some r" "same_machine A B" shows "levels B i w = Some r"
proof -
  have "same_machine A B \<longrightarrow> levels B i w = Some r"
  proof (rule levels.raw_induct[where P = "\<lambda>cpuid i w r. same_machine cpuid B \<longrightarrow> levels B i w = Some r", OF _ assms(1)], rule impI)
    fix rec cpuid i w r
    assume IH: "\<And>cpuid i w r. rec cpuid i w = Some r \<Longrightarrow> same_machine cpuid B \<longrightarrow> levels B i w = Some r"
      and r: "(let r = cpuid 31 i in if level_type r = 0 then Some w
        else rec cpuid (i + 1) (if level_type r = 1 then (level_shift r, snd w) else if level_type r = 2 then (fst w, level_shift r) else w)) = Some r"
      and m: "same_machine cpuid B"
    have s: "level_type (B 0x1f i) = level_type (cpuid 0x1f i)" "level_shift (B 0x1f i) = level_shift (cpuid 0x1f i)"
      using m by (simp_all add: same_machine_def level_type_def level_shift_def)
    show "levels B i w = Some r"
      using r IH m by (subst levels.simps) (auto simp: s Let_def split: if_splits)
  qed
  then show ?thesis using assms(2) by blast
qed

lemma levels_end:
  assumes "level_type (cpuid 0x1f (i + word_of_nat n)) = 0" shows "levels cpuid i w \<noteq> None"
  using assms
proof (induction n arbitrary: i w)
  case 0
  then show ?case by (subst levels.simps) simp
next
  case (Suc n)
  then have "levels cpuid (i + 1) w' \<noteq> None" for w' by (simp add: algebra_simps)
  then show ?case by (subst levels.simps) (auto simp: Let_def)
qed

lemma topology_1f_same:
  assumes "same_machine A B" "ia32eThisTopology0x1f A = Some r"
  shows "case r of None \<Rightarrow> ia32eThisTopology0x1f B = Some None
    | Some S \<Rightarrow> \<exists>smt core. S = split_id smt core (edx (A 0x1f 0)) \<and> ia32eThisTopology0x1f B = Some (Some (split_id smt core (edx (B 0x1f 0))))"
  using assms levels_same[OF _ assms(1), of 0 "(0, 0)"]
  by (auto simp: ia32eThisTopology0x1f_def same_machine_def Let_def split: if_splits option.splits prod.splits)

lemma topology_0b_same:
  assumes "same_machine A B" "ia32eThisTopology0x0b A = r"
  shows "case r of None \<Rightarrow> ia32eThisTopology0x0b B = None
    | Some S \<Rightarrow> \<exists>T. ia32eThisTopology0x0b B = Some T \<and> (same_place S T \<longrightarrow> lapicId S = lapicId T)"
proof -
  have s: "level_type (B 0xb i) = level_type (A 0xb i)" "level_shift (B 0xb i) = level_shift (A 0xb i)" if "i \<in> {0, 1}" for i
    using assms(1) that by (auto simp: same_machine_def level_type_def level_shift_def)
  have e: "eax (B 0 0) = eax (A 0 0)" "ebx (B 0xb 0) = ebx (A 0xb 0)" using assms(1) by (simp_all add: same_machine_def)
  define t where "t = (if level_type (A 0xb 0) = 1 then level_shift (A 0xb 0)
    else if level_type (A 0xb 1) = 1 \<and> level_shift (A 0xb 1) \<noteq> 0 then level_shift (A 0xb 1) else 0)"
  define c where "c = (if level_type (A 0xb 0) = 2 then level_shift (A 0xb 0)
    else if level_type (A 0xb 1) = 2 \<and> level_shift (A 0xb 1) \<noteq> 0 then level_shift (A 0xb 1) else 0)"
  define no where "no \<longleftrightarrow> eax (A 0 0) < 0xb \<or> ebx (A 0xb 0) = 0 \<or> (level_type (A 0xb 0) \<noteq> 1 \<and> level_type (A 0xb 0) \<noteq> 2)"
  have A: "ia32eThisTopology0x0b A = (if no then None else place_id t c (edx (A 0xb 0)))"
    unfolding ia32eThisTopology0x0b_def Let_def t_def[symmetric] c_def[symmetric] no_def by auto
  have B: "ia32eThisTopology0x0b B = (if no then None else place_id t c (edx (B 0xb 0)))"
    unfolding ia32eThisTopology0x0b_def Let_def e s[OF insertI1] s[OF insertI2[OF insertI1]] t_def[symmetric] c_def[symmetric] no_def by auto
  have p: "place_id t c (edx (A 0xb 0)) = Some S \<Longrightarrow> \<exists>T. place_id t c (edx (B 0xb 0)) = Some T \<and> (same_place S T \<longrightarrow> lapicId S = lapicId T)" for S
    using place_id_unique[of t c "edx (A 0xb 0)" S "edx (B 0xb 0)"] place_id_some(2)[of t c "edx (A 0xb 0)" "edx (B 0xb 0)"]
      place_id_some(1)[of t c] by (cases "place_id t c (edx (B 0xb 0))") auto
  show ?thesis
    using p place_id_some(2)[of t c "edx (A 0xb 0)" "edx (B 0xb 0)"] unfolding assms(2)[symmetric] A B by (auto split: option.split)
qed

lemma topology_legacy_same:
  assumes "same_machine A B" "same_place (ia32eThisTopologyLegacy A) (ia32eThisTopologyLegacy B)"
  shows "lapicId (ia32eThisTopologyLegacy A) = lapicId (ia32eThisTopologyLegacy B)"
proof -
  have e: "eax (B 0 0) = eax (A 0 0)" "drop_bit 16 (ebx (B 1 0)) AND 0xff = drop_bit 16 (ebx (A 1 0)) AND 0xff"
      "edx (B 1 0) = edx (A 1 0)" "eax (B 4 0) = eax (A 4 0)"
    using assms(1) by (simp_all add: same_machine_def)
  define d where "d = (let n = drop_bit 16 (ebx (A 1 0)) AND 0xff;
      k = (if eax (A 0 0) \<ge> 4 \<and> eax (A 4 0) AND 0x1f \<noteq> 0 then (drop_bit 26 (eax (A 4 0)) AND 0x3f) + 1 else 1)
    in (\<lambda>i. if drop_bit 28 (edx (A 1 0)) AND 1 = 0 \<or> n < 2 then \<lparr>lapicId = i, threadId = 0, coreId = i, pkgId = 0\<rparr>
      else legacy_id (word_of_nat (count_bits (unat (n div k)))) (word_of_nat (count_bits (unat k))) i))"
  have A: "ia32eThisTopologyLegacy A = d (drop_bit 24 (ebx (A 1 0)) AND 0xff)"
    by (simp add: ia32eThisTopologyLegacy_def d_def Let_def)
  have B: "ia32eThisTopologyLegacy B = d (drop_bit 24 (ebx (B 1 0)) AND 0xff)"
    unfolding ia32eThisTopologyLegacy_def Let_def e by (simp add: d_def Let_def)
  have "same_place (d i) (d j) \<Longrightarrow> lapicId (d i) = lapicId (d j)" for i j
    using legacy_id_unique[of _ _ i j] unfolding d_def Let_def by (simp add: legacy_id_def split: if_splits)
  then show ?thesis using assms(2) unfolding A B by blast
qed

lemma topology_unique:
  assumes "same_machine A B" "ia32eThisTopology A = Some S" "ia32eThisTopology B = Some T" "same_place S T"
  shows "lapicId S = lapicId T"
proof -
  obtain r where r: "ia32eThisTopology0x1f A = Some r" using assms(2) by (auto simp: ia32eThisTopology_def split: option.splits)
  show ?thesis
  proof (cases r)
    case (Some S')
    obtain t c where x: "S' = split_id t c (edx (A 0x1f 0))" "ia32eThisTopology0x1f B = Some (Some (split_id t c (edx (B 0x1f 0))))"
      using topology_1f_same[OF assms(1) r] Some by auto
    have y: "S = split_id t c (edx (A 0x1f 0))" "T = split_id t c (edx (B 0x1f 0))"
      using assms(2,3) r Some x by (simp_all add: ia32eThisTopology_def)
    show ?thesis using split_id_unique[OF assms(4)[unfolded y]] unfolding y by (simp add: split_id_def)
  next
    case None
    have b: "ia32eThisTopology0x1f B = Some None" using topology_1f_same[OF assms(1) r] None by simp
    note o = topology_0b_same[OF assms(1) refl]
    show ?thesis
    proof (cases "ia32eThisTopology0x0b A")
      case n: None
      then have "S = ia32eThisTopologyLegacy A" "T = ia32eThisTopologyLegacy B"
        using o assms(2,3) r None b by (simp_all add: ia32eThisTopology_def)
      then show ?thesis using topology_legacy_same[OF assms(1)] assms(4) by simp
    next
      case (Some S')
      then show ?thesis using o assms(2-4) r None b by (auto simp: ia32eThisTopology_def)
    qed
  qed
qed

lemma topology_returns: "level_type (cpuid 0x1f (word_of_nat n)) = 0 \<Longrightarrow> ia32eThisTopology cpuid \<noteq> None"
  using levels_end[of cpuid 0 n "(0, 0)"]
  by (auto simp: ia32eThisTopology_def ia32eThisTopology0x1f_def Let_def split: option.splits)

subsection \<open>The features are there\<close>

text \<open>Where \<open>cpuid\<close> reports what a bit of the control register switches on, for the bits that the kernel and its guests may set.\<close>

definition cr4_reported :: "cpuidFn \<Rightarrow> nat \<Rightarrow> bool" where
  "cr4_reported cpuid k =
    (if k \<in> {0, 1} then bit (edx (cpuid 1 0)) 1
     else if k = 3 then bit (edx (cpuid 1 0)) 2
     else if k = 11 then bit (ecx (cpuid 7 0)) 2
     else if k = 16 then bit (ebx (cpuid 7 0)) 0
     else if k = 17 then bit (ecx (cpuid 1 0)) 17
     else if k = 20 then bit (ebx (cpuid 7 0)) 7
     else if k = 21 then bit (ebx (cpuid 7 0)) 20
     else k \<in> {2, 4, 5, 7, 9, 10})"

lemma has_bit: "has r k \<longleftrightarrow> bit r k"
proof -
  have "r AND push_bit k 1 = (if bit r k then push_bit k 1 else 0)"
    by (rule bit_word_eqI) (auto simp: bit_simps)
  moreover have "push_bit k 1 \<noteq> (0 :: u32)" if "bit r k"
  proof
    assume z: "push_bit k 1 = (0 :: u32)"
    have "bit (push_bit k 1 :: u32) k" using bit_imp_le_length[OF that] by (simp add: bit_simps)
    then show False unfolding z by simp
  qed
  ultimately show ?thesis by (simp add: has_def)
qed

lemma set_cr4_bit: "bit (set_cr4 b k cr4) j \<longleftrightarrow> bit cr4 j \<or> (b \<and> j = k \<and> k < 64)"
  by (auto simp: set_cr4_def bit_simps dest: bit_imp_le_length)

lemma extended_flags:
  "f_vme (startFlagsOf (cpu_extended_features cpuid c)) = f_vme (startFlagsOf c)"
  "f_de (startFlagsOf (cpu_extended_features cpuid c)) = f_de (startFlagsOf c)"
  "f_umip (startFlagsOf (cpu_extended_features cpuid c)) = f_umip (startFlagsOf c)"
  "f_fsgsbase (startFlagsOf (cpu_extended_features cpuid c)) = f_fsgsbase (startFlagsOf c)"
  "f_pcid (startFlagsOf (cpu_extended_features cpuid c)) = f_pcid (startFlagsOf c)"
  "f_smep (startFlagsOf (cpu_extended_features cpuid c)) = f_smep (startFlagsOf c)"
  "f_smap (startFlagsOf (cpu_extended_features cpuid c)) = f_smap (startFlagsOf c)"
  by (simp_all add: cpu_extended_features_def Let_def)

text \<open>The flags of a CPU that was zero before: none without its report.\<close>

lemma start_flags:
  fixes cpuid :: cpuidFn and cfg :: vtxConfig
  assumes "\<not> f_de (startFlagsOf c)" "\<not> f_pcid (startFlagsOf c)" "\<not> f_fsgsbase (startFlagsOf c)" "\<not> f_smep (startFlagsOf c)"
    "\<not> f_smap (startFlagsOf c)" "\<not> f_umip (startFlagsOf c)"
  defines "f \<equiv> startFlagsOf (cpu_registers cfg cpuid c)"
  shows "f_vme f = cr4_reported cpuid 0" "f_de f = cr4_reported cpuid 3" "f_umip f = cr4_reported cpuid 11"
    "f_fsgsbase f = cr4_reported cpuid 16" "f_pcid f \<Longrightarrow> cr4_reported cpuid 17" "f_smep f = cr4_reported cpuid 20"
    "f_smap f = cr4_reported cpuid 21"
  using assms by (simp_all add: cpu_registers_def extended_flags cpu_features_def Let_def cr4_reported_def has_bit)

lemma start_cr4:
  assumes "bit (startCr4 (cpu_registers cfg cpuid c)) k"
  shows "bit (startCr4 c) k \<or> (cr4_reported cpuid k \<and> (k = 2 \<longrightarrow> cfgTsd cfg) \<and> (k = 11 \<longrightarrow> cfgUmip cfg)
    \<and> (k = 17 \<longrightarrow> cfgPcid cfg) \<and> (k = 20 \<longrightarrow> cfgSmep cfg) \<and> (k = 21 \<longrightarrow> cfgSmap cfg))"
  using assms by (auto simp: cpu_registers_def cpu_features_def cpu_extended_features_def Let_def set_cr4_bit has_bit cr4_reported_def)

text \<open>What a guest may set in its own control register.\<close>

lemma guest_cr4_reported:
  assumes "bit (guest_cr4_bits V) k" "f_vme (flags V) \<Longrightarrow> cr4_reported cpuid 0" "f_de (flags V) \<Longrightarrow> cr4_reported cpuid 3"
    "f_umip (flags V) \<Longrightarrow> cr4_reported cpuid 11" "f_fsgsbase (flags V) \<Longrightarrow> cr4_reported cpuid 16"
    "f_pcid (flags V) \<Longrightarrow> cr4_reported cpuid 17" "f_smep (flags V) \<Longrightarrow> cr4_reported cpuid 20"
    "f_smap (flags V) \<Longrightarrow> cr4_reported cpuid 21"
  shows "cr4_reported cpuid k"
proof -
  have m: "k \<in> {2, 4, 5, 7, 9, 10} \<or> (f_vme (flags V) \<and> k \<in> {0, 1}) \<or> (f_de (flags V) \<and> k = 3) \<or> (f_umip (flags V) \<and> k = 11)
      \<or> (f_fsgsbase (flags V) \<and> k = 16) \<or> (f_pcid (flags V) \<and> k = 17) \<or> (f_smep (flags V) \<and> k = 20) \<or> (f_smap (flags V) \<and> k = 21)"
    using assms(1) by (auto simp: guest_cr4_bits_def mask_of_bit split: if_splits)
  have v: "cr4_reported cpuid 1 = cr4_reported cpuid 0" by (simp add: cr4_reported_def)
  show ?thesis using m assms(2-) v by (elim disjE conjE) (auto simp: cr4_reported_def)
qed

text \<open>The selectors that \<open>syscall\<close> and \<open>sysret\<close> take from the register are those of the kernel and of user code.\<close>

lemma star_selectors:
  "drop_bit 48 (startStar (cpu_registers cfg cpuid c)) + 16 = IA32E_UCS_SELECTOR"
  "drop_bit 48 (startStar (cpu_registers cfg cpuid c)) + 8 = IA32E_UDS_SELECTOR"
  "drop_bit 32 (startStar (cpu_registers cfg cpuid c)) AND 0xffff = IA32E_KCS_SELECTOR"
  "(drop_bit 32 (startStar (cpu_registers cfg cpuid c)) AND 0xffff) + 8 = IA32E_KDS_SELECTOR"
  by (simp_all add: cpu_registers_def Let_def)

text \<open>The bit that enables no-execute pages is bit 11; the start never sets it.\<close>

lemma nx_not_enabled: "bit (startEfer (cpu_registers cfg cpuid c)) 11 = bit (startEfer c) 11"
  by (simp add: cpu_registers_def cpu_features_def cpu_extended_features_def Let_def bit_simps)

text \<open>The start for virtual machines loses flags at most, and changes the control register to what the processor wants.\<close>

lemma vtx_init_flags:
  assumes "ia32eCpuVtxInit cfg vmxonOk cpu (c0, g0) = (c, g)"
  shows "f_vme (cpuFlagsOf c) = f_vme (cpuFlagsOf c0)" "f_umip (cpuFlagsOf c) = f_umip (cpuFlagsOf c0)"
    "f_de (cpuFlagsOf c) \<Longrightarrow> f_de (cpuFlagsOf c0)" "f_fsgsbase (cpuFlagsOf c) \<Longrightarrow> f_fsgsbase (cpuFlagsOf c0)"
    "f_pcid (cpuFlagsOf c) \<Longrightarrow> f_pcid (cpuFlagsOf c0)" "f_smep (cpuFlagsOf c) \<Longrightarrow> f_smep (cpuFlagsOf c0)"
    "f_smap (cpuFlagsOf c) \<Longrightarrow> f_smap (cpuFlagsOf c0)"
    "regCr4 c = regCr4 c0 \<or> (regCr4 c = (regCr4 c0 OR msrOf c0 0x488) AND msrOf c0 0x489 \<and> vtx_cr4_secure cfg (regCr4 c))"
  using assms unfolding ia32eCpuVtxInit_def prod.case Let_def
  by (auto simp: vtx_enter_def vtx_record_def vtx_lose_features_def Let_def split: if_splits)

text \<open>The area from which the processor loads the registers of the host when it leaves a guest.\<close>

lemma vtx_init_area:
  assumes "ia32eCpuVtxInit cfg vmxonOk cpu (c0, g0) = (c, g)" "f_vcpuCapable (cpuFlagsOf c)" "\<not> f_vcpuCapable (cpuFlagsOf c0)"
  shows "vmexitLoadArea c = map (\<lambda>m. (m, msrOf c0 m)) ia32eVtxVmcsMsrCtxList"
  using assms unfolding ia32eCpuVtxInit_def prod.case Let_def
  by (auto simp: vtx_enter_def vtx_record_def vtx_lose_features_def Let_def ia32eVtxVmcsMsrCtxList_def split: if_splits)

end
