(* ===== verification/Spec2Isabelle.thy ===== *)
theory Spec2Isabelle
  imports Stackq Sq DeltaChainPtr McsLock PolicyBoot VmDefects CpuStart
begin

text \<open>
  WorkhorseRT: a verification library.

  WorkhorseRT is a hard real-time kernel. Plugins create domains (protection domains with a page
  table), threads and LSRs (long service routines, tasks that interrupts release) at boot; then each
  CPU schedules its own tasks. A tick charges the running thread, replenishes budgets (deferrable
  server or the variant BCS), wakes sleepers and reschedules. One of three policies orders the ready
  threads: round robin by priority, a cyclic table of frames, earliest deadline first. Tasks make system
  calls to invoke other domains and to give up the CPU; exceptions invoke the task's own domain.

  The parts, and the theories that model them:

  \<^item> \<^verbatim>\<open>include/errno.h\<close>: Prelude. \<^verbatim>\<open>include/lib/dsa\<close>: Containers has the interface of a sequence as
    a locale and the heap of linked nodes; Stackq, Sq and Dq are the queues on linked nodes, proved
    against lists; Bitmap; DeltaChain is the chain of timers on lists, DeltaChainPtr the loops over
    linked nodes, which are proved to return and to refine it. \<^verbatim>\<open>stdWorkhorse\<close>: Mem.
    \<^verbatim>\<open>mcsLock.h\<close>: McsLock, whose steps are single accesses to shared memory.
  \<^item> \<^verbatim>\<open>kSchedTask.h\<close>, \<^verbatim>\<open>kDomainUniverse.h\<close>, \<^verbatim>\<open>kTick.h\<close>, \<^verbatim>\<open>kSched.h\<close>: Kernel declares the records,
    and the state of the kernel \<open>kstate\<close>, with the CPU that executes (\<open>thisCpu\<close>), the global tables, the
    data of the policy (\<open>pol\<close>), a trace of calls into the architecture and the list \<open>faults\<close> of failed
    assertions, \<open>NULL\<close> dereferences and loops that ran out of fuel. An address is a number; a pointer is an
    option.
  \<^item> \<^verbatim>\<open>kSched.c\<close>: Sched. \<^verbatim>\<open>kTick.c\<close>: Tick.
  \<^item> \<^verbatim>\<open>kSchedRr.c\<close>, \<^verbatim>\<open>kSchedCyclic.c\<close>, \<^verbatim>\<open>kSchedEdf.c\<close>: PolicyRr, PolicyCyclic, PolicyEdf over Policy.
  \<^item> \<^verbatim>\<open>kDomainUniverse.c\<close>: Domain. \<^verbatim>\<open>kSyscall.c\<close>: Syscall. \<^verbatim>\<open>src/import\<close> and the dispatch in
    \<^verbatim>\<open>ia32eCpu.c\<close>: Handlers. \<^verbatim>\<open>kPlugin.c\<close>: Plugin. \<^verbatim>\<open>kStart.c\<close>, \<^verbatim>\<open>kInit.c\<close>: Boot.
  \<^item> \<^verbatim>\<open>ia32eEmulator.c\<close>, the virtual machines (\<open>CONFIG_X86_64_IA32E_VTX\<close>): Vectors has the interrupt vectors of
    an APIC register; Vtx the records, and the state \<open>vmstate\<close> around \<open>kstate\<close>, with the VMCS and the registers of
    each virtual CPU as maps from the address of its task; X2apic the virtual APIC; Emulator and EmulatorMsr one function
    for each reason for which the processor leaves a guest; EventManager the resets, the event manager and the
    dispatcher. What the processor answers and the callbacks of plugins are fields of \<open>vtxEnv\<close>.
  \<^item> \<^verbatim>\<open>ia32eCpuVtx.c\<close>: VtxSetup has what plugins ask for when virtual machines are built in, with \<open>kPlugin.c\<close> as it
    is then; CpuVtx the start of a processor for virtual machines and the bitmap of the registers that guests reach.
    \<^verbatim>\<open>ia32eCpu.c\<close>: CpuStart has \<open>ia32eCpuInit\<close> and the topology.

  The proofs:

  \<^item> TickInv states the invariant of a CPU: every task is in exactly the containers that its state names.
    The locale \<open>sched_policy\<close> (TickInv) is what the tick machine needs of a policy; TickLoad to TickSwitch
    prove in it, operation by operation, that the invariant is kept and no assertion fails. PolicyRr,
    PolicyCyclic and PolicyEdf interpret the locale.
  \<^item> KernelInv and HandlerInv add domains and invocation stacks, and prove each handler. System is the
    kernel as a transition system over the events of its CPUs; its reachable states keep the invariant.
  \<^item> TickReport follows what the kernel reports to the architecture: who has become active and who has
    stopped, from operation to operation, and whose context and page table are loaded on each CPU, which are always
    those of its running task (\<open>running_reports\<close> in BootInv). Tpr has the architecture's side of it (\<^verbatim>\<open>kCallbackInterface.c\<close>
    and the callbacks of \<^verbatim>\<open>ia32eCpu.c\<close>), which keeps the task priority register of each CPU.
  \<^item> BootInv (the locale \<open>policy_boot\<close>, interpreted in PolicyBoot) proves that the boot ends in such a state.
  \<^item> VmInv has the invariant of the virtual APICs and what a step of one virtual CPU leaves alone, with one
    rule per function of the emulator; VmIrq follows an interrupt from its sender to its end,
    VmIpi a message to the virtual CPUs that it addresses; VmRegs has the timer and the registers; VmDefects shows
    where the emulator does not do what it means to do.
  \<^item> VtxSetup proves, in the locale \<open>plugin_policy\<close> that each policy interprets, that any requests of plugins leave
    complete virtual machines behind, which the emulator relies on; CpuVtx which controls the start guarantees,
    CpuStart that the topology is found and tells CPUs apart, and that only reported features are switched on.
  \<^item> This theory states the properties.

  Loops over a container take its length as fuel, and that they end is part of the invariant: a loop that
  ran out would record \<open>StuckLoop\<close>. Loops over linked nodes are \<open>partial_function (option)\<close> and are
  proved to return. Other loops are functions with termination proofs.

  CPUs: handlers of different CPUs run one after the other, in any order. A handler touches its own CPU's
  machine and tasks only, and a synchronised tick is on each CPU that CPU's own, which \<open>event_isolated\<close> proves. Callbacks of plugins and what the architecture
  does (contexts, page tables, timers) are events of the trace; Tpr runs the callbacks of the architecture
  on them.

  Virtual CPUs: a function of the emulator runs on behalf of the running task, and when the virtual CPU fails it
  does not return, which \<open>stopped\<close> records. The lock of a latch is held for one step. The event manager can wait
  and give up the CPU; a wait ends a step, and \<open>vmPhase\<close> tells where the next one goes on.

  Not modelled: the drivers, the memory map and the tables of the firmware, assembly, the tables of descriptors, the
  permission bitmaps for ports, the host state of the VMCS, and the formatting library. They move data between registers and
  memory whose behaviour is the hardware's.
\<close>
section \<open>An example system\<close>

text \<open>
  The witnesses below run this system: two CPUs, one domain, one thread and one LSR, both on the
  first CPU, with a deferrable server.
\<close>

definition no_ops :: "'p kSchedOps" where
  "no_ops = \<lparr>kSchedInitFn = id, kSchedTickTransitionCallbackFn = id, kSchedPushFn = (\<lambda>_. id),
     kSchedTaskPopFn = (\<lambda>s. (None, s)), kSchedTaskTickCallbackFn = (\<lambda>_. id),
     kSchedShouldRescheduleFn = (\<lambda>s. (False, s)), kSchedTaskLsrOutCallbackFn = (\<lambda>_. id),
     kSchedGetIdleFn = (\<lambda>_ s. (None, s))\<rparr>"

definition exEnv :: "'p kEnv" where
  "exEnv = \<lparr>alg = DS, ops = no_ops, idleAddr = (\<lambda>c. 100 + unat c), cpuValid = (\<lambda>c. c = 0 \<or> c = 1),
     KMAX_CPUS = 2, KMAX_TASKS = 8, KMAX_DOMAINS = 4, INVOCATION_DEPTH = 4, KTICK_MS = 10\<rparr>"

definition exConf :: sysConf where
  "exConf = \<lparr>onlineCpus = [0, 1], desynchronized = False, getCpuIdMacro = False\<rparr>"

definition exEntry :: kDomainEntryPoint where
  "exEntry = \<lparr>entry_pc = 0x2000, valid = True\<rparr>"

definition exInfo :: kDomainInvocationInfo where
  "exInfo = \<lparr>invokePermMap = (\<lambda>_. 0xff), start_pc = 0x1000, invocationIpc = exEntry,
     invocationExceptionVmemFault = exEntry, invocationExceptionIllegalOpcode = exEntry,
     invocationExceptionAlignment = exEntry, invocationExceptionDebug = exEntry,
     invocationExceptionArithmetic = exEntry, invocationExceptionOther = exEntry\<rparr>"

definition exDomain :: kPluginDomainParam where
  "exDomain = \<lparr>pdDomId = 0, pdInfo = exInfo, pdArch = \<lparr>pml4BasePhys = 0x5000, pml4BaseVirt = 0x7000, pml4Entry511 = 0\<rparr>\<rparr>"

definition exCallbacks :: kSchedTaskCallbacks where
  "exCallbacks = \<lparr>tickCallbackFn = None, inCallbackFn = None, outCallbackFn = None,
     activationCallbackFn = None, responseCallbackFn = None\<rparr>"

definition exThread :: "'q \<Rightarrow> 'q kPluginTaskThreadParam" where
  "exThread q = \<lparr>thCpuId = 0, thDomId = 0, thTaskId = 0, thBudget = 3, thPeriod = 20, thParam = q, thTpr = 1,
     thCallbacks = exCallbacks\<rparr>"

definition exLsr :: kPluginTaskLsrParam where
  "exLsr = \<lparr>lsrCpuId = 0, lsrDomId = 0, lsrTaskId = 1, lsrVectorParam = 0x40, lsrCallbacks = exCallbacks\<rparr>"

definition exCalls :: "'q \<Rightarrow> 'q pluginCall list" where
  "exCalls q = [InitDomain 1 exDomain 0x9000 None, InitThread 10 (exThread q), InitLsr 11 exLsr]"

definition exBoot ::
  "('p kstate \<Rightarrow> 'p kstate) list \<Rightarrow> 'p bootConf" where
  "exBoot fns = \<lparr>initCalls = [], opsInit = (\<lambda>s. snd (kSchedOpsInit s)), pluginCalls = fns, bootFreqHz = 1000000, bootSender = 0\<rparr>"

definition exNodes :: nodes where
  "exNodes = (\<lambda>_. \<lparr>expectedEpoch = 0, delta = 0\<rparr>)"

definition exDomains :: "addr \<Rightarrow> kDomain" where
  "exDomains = (\<lambda>_. \<lparr>domId = 0, invocationInfo = exInfo\<rparr>)"

definition exLink :: epochLink where
  "exLink = \<lparr>idleWindowEpoch = 0, largestWindowEpoch = 0\<rparr>"

definition zeroRr :: rrState where
  "zeroRr = \<lparr>gSchedulersRr = (\<lambda>_. \<lparr>qs = (\<lambda>_. []), activeQs = (\<lambda>_. 0)\<rparr>), paramRr = (\<lambda>_. \<lparr>timesliceTicksRr = 0, prio = 0\<rparr>),
     remainingRr = (\<lambda>_. 0), epochLinkRr = (\<lambda>_. exLink)\<rparr>"

definition zeroCyclic :: cyclicState where
  "zeroCyclic = \<lparr>gSchedulersCyclic = (\<lambda>_. \<lparr>frames = (\<lambda>_. None), clock = 0, numReadyThreads = 0\<rparr>),
     paramCyclic = (\<lambda>_. \<lparr>frameBmp = (\<lambda>_. 0), timesliceTicksCyclic = 0\<rparr>),
     linkCyclic = (\<lambda>_. \<lparr>initialized = False, remainingCyclic = 0\<rparr>), epochLinkCyclic = (\<lambda>_. exLink), frameBmps = (\<lambda>_ _. 0)\<rparr>"

definition zeroEdf :: edfState where
  "zeroEdf = \<lparr>gSchedulersEdf = (\<lambda>_. \<lparr>edfChain = \<lparr>currentEpoch = 0, chain_dq = []\<rparr>\<rparr>),
     paramEdf = (\<lambda>_. \<lparr>virtualDeadline = 0\<rparr>), linkEdf = exNodes, epochLinkEdf = (\<lambda>_. exLink)\<rparr>"

definition exBootRr :: "rrState bootConf" where
  "exBootRr = exBoot (map (plugin_call (envRr 8 exEnv) (kPluginInitTaskThreadRr 8 exEnv))
     (exCalls \<lparr>timesliceTicksRr = 5, prio = 3\<rparr>))"

definition exBootCyclic :: "cyclicState bootConf" where
  "exBootCyclic = exBoot (map (plugin_call (envCyclic 16 exEnv) (kPluginInitTaskThreadCyclic 16 exEnv))
     (exCalls \<lparr>frameBmp = (\<lambda>_. 5), timesliceTicksCyclic = 2\<rparr>))"

definition exBootEdf :: "edfState bootConf" where
  "exBootEdf = exBoot (map (plugin_call (envEdf exEnv) (kPluginInitTaskThreadEdf exEnv))
     (exCalls \<lparr>virtualDeadline = 7\<rparr>))"

abbreviation exStart :: "'p kEnv \<Rightarrow> 'p bootConf \<Rightarrow> 'p \<Rightarrow> 'p kstate" where
  "exStart E B p \<equiv> kStart E exConf B (zero_state p exNodes exDomains 0)"

lemma ex_conf [simp]:
  "conf_ok (envRr n exEnv) exConf" "conf_ok (envCyclic n exEnv) exConf" "conf_ok (envEdf exEnv) exConf"
  by (auto simp: conf_ok_def exConf_def exEnv_def envRr_def envCyclic_def envEdf_def inj_on_def)

lemma ex_calls_fresh:
  "calls_fresh (envRr n exEnv) (exCalls q)" "calls_fresh (envCyclic n exEnv) (exCalls q)" "calls_fresh (envEdf exEnv) (exCalls q)"
  by (auto simp: calls_fresh_def exCalls_def exEnv_def envRr_def envCyclic_def envEdf_def)

lemma ex_boot_ok:
  "boot_conf_ok (envRr 8 exEnv) (admitRr 8) setParamRr (exCalls \<lparr>timesliceTicksRr = 5, prio = 3\<rparr>) exBootRr"
  "boot_conf_ok (envCyclic 16 exEnv) (admitCyclic 16) setParamCyclic (exCalls \<lparr>frameBmp = (\<lambda>_. 5), timesliceTicksCyclic = 2\<rparr>) exBootCyclic"
  "boot_conf_ok (envEdf exEnv) admitEdf setParamEdf (exCalls \<lparr>virtualDeadline = 7\<rparr>) exBootEdf"
  by (simp_all add: boot_conf_ok_def exBootRr_def exBootCyclic_def exBootEdf_def exBoot_def ex_calls_fresh
    kPluginInitTaskThreadRr_def kPluginInitTaskThreadCyclic_def kPluginInitTaskThreadEdf_def)

lemma ex_valid [simp]: "cpuValid (envRr n exEnv) 0" "cpuValid (envCyclic n exEnv) 0" "cpuValid (envEdf exEnv) 0"
  by (simp_all add: exEnv_def envRr_def envCyclic_def envEdf_def)

lemma ex_tick: "reachable E exConf s0 (on_cpu 0 (handle E exConf Tick) s0)"
  by (rule reachable.step[OF reachable.start kernel_step.event]) (simp_all add: exConf_def)

section \<open>The whole kernel\<close>

text \<open>
  C1. From the boot on, with the round robin policy, the kernel stays sound: whatever plugins create
  through the plugin interface, and whatever ticks, interrupts, system calls and exceptions follow on
  any CPU, in any order, no assertion fails, no \<open>NULL\<close> pointer is dereferenced, every loop ends,
  every task is in exactly the containers its state names, a task runs on every CPU, and the queues
  of the policy hold exactly the ready threads.
\<close>

theorem kernel_sound_rr:
  assumes "conf_ok (envRr n E) C" and "boot_conf_ok (envRr n E) (admitRr n) setParamRr calls B"
    and "1 \<le> n" "n \<le> 256" and "cpuValid (envRr n E) c"
    and "gSchedulersRr p = (\<lambda>_. \<lparr>qs = (\<lambda>_. []), activeQs = (\<lambda>_. 0)\<rparr>)"
    and "reachable (envRr n E) C (kStart (envRr n E) C B (zero_state p ns ds c)) s"
  shows "kernel_ok (envRr n E) (pinvRr n) (onlineCpus C) s"
  by (rule sched_policy.sys_inv_kernel_ok[OF rr.sched_policy_axioms], rule rr_boot.running_inv[OF assms(1,2) refl assms(5) _ _ assms(7)])
    (simp_all add: assms(3,4,6) pinvRr_zero zero_state_def)

theorem kernel_sound_rr_witness:
  "kernel_ok (envRr 8 exEnv) (pinvRr 8) [0, 1]
     (on_cpu 0 (handle (envRr 8 exEnv) exConf Tick) (exStart (envRr 8 exEnv) exBootRr zeroRr))"
  using kernel_sound_rr[OF ex_conf(1) ex_boot_ok(1) _ _ ex_valid(1) _ ex_tick, of zeroRr exNodes exDomains]
  by (simp add: zeroRr_def exConf_def)

text \<open>
  C2. The same with the cyclic policy: the frames hold exactly the threads of the CPU and the counter
  counts the ready ones.
\<close>

theorem kernel_sound_cyclic:
  assumes "conf_ok (envCyclic n E) C" and "boot_conf_ok (envCyclic n E) (admitCyclic n) setParamCyclic calls B"
    and "1 \<le> n" "n \<le> 8192" and "cpuValid (envCyclic n E) c"
    and "gSchedulersCyclic p = (\<lambda>_. \<lparr>frames = (\<lambda>_. None), clock = 0, numReadyThreads = 0\<rparr>)"
    and "\<And>t. \<not> initialized (linkCyclic p t)"
    and "reachable (envCyclic n E) C (kStart (envCyclic n E) C B (zero_state p ns ds c)) s"
  shows "kernel_ok (envCyclic n E) (pinvCyclic n) (onlineCpus C) s"
  by (rule sched_policy.sys_inv_kernel_ok[OF cyclic.sched_policy_axioms], rule cyclic_boot.running_inv[OF assms(1,2) refl assms(5) _ _ assms(8)])
    (simp_all add: assms(3,4,6,7) pinvCyclic_zero zero_state_def bootCyclic_def)

theorem kernel_sound_cyclic_witness:
  "kernel_ok (envCyclic 16 exEnv) (pinvCyclic 16) [0, 1]
     (on_cpu 0 (handle (envCyclic 16 exEnv) exConf Tick) (exStart (envCyclic 16 exEnv) exBootCyclic zeroCyclic))"
  using kernel_sound_cyclic[OF ex_conf(2) ex_boot_ok(2) _ _ ex_valid(2) _ _ ex_tick, of zeroCyclic exNodes exDomains]
  by (simp add: zeroCyclic_def exConf_def)

text \<open>
  C3. The same with the earliest deadline first policy: the chain holds exactly the ready threads, and
  every thread that is charged has a deadline that has not passed.
\<close>

theorem kernel_sound_edf:
  assumes "conf_ok (envEdf E) C" and "boot_conf_ok (envEdf E) admitEdf setParamEdf calls B"
    and "cpuValid (envEdf E) c"
    and "gSchedulersEdf p = (\<lambda>_. \<lparr>edfChain = \<lparr>currentEpoch = 0, chain_dq = []\<rparr>\<rparr>)"
    and "reachable (envEdf E) C (kStart (envEdf E) C B (zero_state p ns ds c)) s"
  shows "kernel_ok (envEdf E) pinvEdf (onlineCpus C) s"
  by (rule sched_policy.sys_inv_kernel_ok[OF edf.sched_policy_axioms], rule edf_boot.running_inv[OF assms(1,2) refl assms(3) _ _ assms(5)])
    (simp_all add: assms(4) pinvEdf_zero zero_state_def)

theorem kernel_sound_edf_witness:
  "kernel_ok (envEdf exEnv) pinvEdf [0, 1]
     (on_cpu 0 (handle (envEdf exEnv) exConf Tick) (exStart (envEdf exEnv) exBootEdf zeroEdf))"
  using kernel_sound_edf[OF ex_conf(3) ex_boot_ok(3) ex_valid(3) _ ex_tick, of zeroEdf exNodes exDomains]
  by (simp add: zeroEdf_def exConf_def)

text \<open>
  C4. CPUs are isolated, with each of the three policies and in every state of the running system: an interrupt, a
  system call, an exception, or the tick of one CPU where ticks are not synchronised, changes no task and no machine
  of another CPU. A synchronised tick (the default configuration) reaches all CPUs, and is for each of them its own
  tick: the ticks of the CPUs before it in the order have left its tasks and its machine alone, its own tick acts on
  them, and the ticks of the CPUs after it leave the result alone.
\<close>

theorem event_isolated:
  assumes "c \<in> set (onlineCpus C)"
  shows "(runs_rr n E C s \<and> event_ok c ev s \<longrightarrow> own_cpu_only (envRr n E) C c ev s)
    \<and> (runs_cyclic m F C u \<and> event_ok c ev u \<longrightarrow> own_cpu_only (envCyclic m F) C c ev u)
    \<and> (runs_edf G C v \<and> event_ok c ev v \<longrightarrow> own_cpu_only (envEdf G) C c ev v)"
  using runs_own_cpu_only[OF assms] by blast

lemma ex_runs:
  "runs_rr 8 exEnv exConf (exStart (envRr 8 exEnv) exBootRr zeroRr)"
  "runs_cyclic 16 exEnv exConf (exStart (envCyclic 16 exEnv) exBootCyclic zeroCyclic)"
  "runs_edf exEnv exConf (exStart (envEdf exEnv) exBootEdf zeroEdf)"
  by (rule runsI(1)[OF ex_conf(1) _ _ ex_boot_ok(1) ex_valid(1) _ reachable.start], simp_all add: zeroRr_def)
    (rule runsI(2)[OF ex_conf(2) _ _ ex_boot_ok(2) ex_valid(2) _ _ reachable.start]
        runsI(3)[OF ex_conf(3) ex_boot_ok(3) ex_valid(3) _ reachable.start], simp_all add: zeroCyclic_def zeroEdf_def)+

theorem event_isolated_witness:
  "own_cpu_only (envRr 8 exEnv) exConf 0 Tick (exStart (envRr 8 exEnv) exBootRr zeroRr)
    \<and> own_cpu_only (envCyclic 16 exEnv) exConf 0 Tick (exStart (envCyclic 16 exEnv) exBootCyclic zeroCyclic)
    \<and> own_cpu_only (envEdf exEnv) exConf 0 Tick (exStart (envEdf exEnv) exBootEdf zeroEdf)
    \<and> gTickMachines (on_cpu 0 (handle (envRr 8 exEnv) exConf (Interrupt 0x40)) (exStart (envRr 8 exEnv) exBootRr zeroRr)) 1
      = gTickMachines (exStart (envRr 8 exEnv) exBootRr zeroRr) 1"
proof -
  have c: "0 \<in> set (onlineCpus exConf)" by (simp add: exConf_def)
  note w = event_isolated[OF c, of 8 exEnv "exStart (envRr 8 exEnv) exBootRr zeroRr" _ 16 exEnv
    "exStart (envCyclic 16 exEnv) exBootCyclic zeroCyclic" exEnv "exStart (envEdf exEnv) exBootEdf zeroEdf"]
  have "own_cpu_only (envRr 8 exEnv) exConf 0 (Interrupt 0x40) (exStart (envRr 8 exEnv) exBootRr zeroRr)"
    using w[of "Interrupt 0x40"] ex_runs by simp
  then have "gTickMachines (on_cpu 0 (handle (envRr 8 exEnv) exConf (Interrupt 0x40)) (exStart (envRr 8 exEnv) exBootRr zeroRr)) 1
      = gTickMachines (exStart (envRr 8 exEnv) exBootRr zeroRr) 1"
    unfolding own_cpu_only_def Let_def cpu_same_def by simp
  then show ?thesis using w[of Tick] ex_runs by simp
qed

text \<open>
  C5. Authority is fixed at boot. With the round robin policy (the default) no event of the running system changes a domain, its entry points or
  its permissions, the domain table, the task table, or the kind and the CPU of any task.
\<close>

theorem authority_confined:
  assumes "conf_ok (envRr n E) C" and "boot_conf_ok (envRr n E) (admitRr n) setParamRr calls B"
    and "1 \<le> n" "n \<le> 256" and "cpuValid (envRr n E) c"
    and "gSchedulersRr p = (\<lambda>_. \<lparr>qs = (\<lambda>_. []), activeQs = (\<lambda>_. 0)\<rparr>)"
    and "s0 = kStart (envRr n E) C B (zero_state p ns ds c)" and "reachable (envRr n E) C s0 s"
  shows "domains s = domains s0 \<and> domainTable s = domainTable s0 \<and> kTasks s = kTasks s0
    \<and> (\<forall>t. ttype (tasks s t) = ttype (tasks s0 t) \<and> cpuId (tasks s t) = cpuId (tasks s0 t))"
proof -
  have i: "sched_policy.sys_inv (envRr n E) (pinvRr n) tickableRr (knownRr n) (set (onlineCpus C)) s0"
    unfolding assms(7) by (rule rr_boot.kStart_ok(1)[OF assms(1,2) refl assms(5)])
      (simp_all add: assms(3,4,6) pinvRr_zero zero_state_def)
  have k: "0 < KTICK_MS (envRr n E)" using assms(1) unfolding conf_ok_def by blast
  show ?thesis using sched_policy.reachable_system[OF rr.sched_policy_axioms assms(8) i k] by (simp add: system_step_def confined_def)
qed

theorem authority_confined_witness:
  "domainTable (on_cpu 0 (handle (envRr 8 exEnv) exConf Tick) (exStart (envRr 8 exEnv) exBootRr zeroRr))
   = domainTable (exStart (envRr 8 exEnv) exBootRr zeroRr)"
  using authority_confined[OF ex_conf(1) ex_boot_ok(1) _ _ ex_valid(1) _ refl ex_tick, of zeroRr exNodes exDomains]
  by (simp add: zeroRr_def)

section \<open>The boot\<close>

lemma kSchedInit_tables:
  "domainTable (kSchedInit (envRr n E) s) = domainTable s" "gPluginsDone (kSchedInit (envRr n E) s) = gPluginsDone s"
  "i \<noteq> unat (K_SCHED_IDLE_TASK_ID E s) \<Longrightarrow> kTasks (kSchedInit (envRr n E) s) i = kTasks s i"
  by (auto simp: kSchedInit_def with_ops_def Let_def kSchedInitRr_def kSchedTaskIdleInit_def kSchedTaskAdd_def
      K_SCHED_IDLE_TASK_ID_def K_DYNAMIC_ASSERT_def fault_def envRr_def)

lemma ex_sched_init:
  defines "s \<equiv> kCpuInvokeAllRendezvous [0, 1] (kSchedInit (envRr 8 exEnv))
      ((zero_state zeroRr exNodes exDomains 0)\<lparr>gOpsInitialized := True\<rparr>)"
  shows "domainTable s = (\<lambda>_. None)" "\<not> gPluginsDone s" "kTasks s 0 = None"
  by (simp_all add: s_def kCpuInvokeAllRendezvous_def on_cpu_def kSchedInit_tables K_SCHED_IDLE_TASK_ID_def
      exEnv_def zero_state_def)

lemma ex_domain:
  assumes "domainTable s = (\<lambda>_. None)" "\<not> gPluginsDone s" "kTasks s 0 = None"
  defines "s' \<equiv> snd (kPluginInitDomain (envRr 8 exEnv) 0x9000 None 1 exDomain s)"
  shows "domainTable s' = [0 \<mapsto> 1]" "\<not> gPluginsDone s'" "kTasks s' 0 = None"
proof -
  have "ia32eCpuDomainInfoInit 0x9000 None (pdArch exDomain) (pdInfo exDomain) =
      Inr (0x9000 OR 1 OR 2 OR 0x100, 0x5000, None)"
    by (simp add: ia32eCpuDomainInfoInit_def exDomain_def exInfo_def canonical_entry_def IA32E_CANONICAL_def exEntry_def)
  then show "domainTable s' = [0 \<mapsto> 1]" "\<not> gPluginsDone s'" "kTasks s' 0 = None"
    using assms by (simp_all add: s'_def kPluginInitDomain_def K_DYNAMIC_ASSERT_def kDomainUniverseCanAdd_def exEnv_def envRr_def
      exDomain_def kDomainUniverseAdd_def)
qed

lemma ex_thread_boots:
  "10 \<in> {t. ttype (tasks (exStart (envRr 8 exEnv) exBootRr zeroRr) t) = K_TASK_THREAD
     \<and> cpuId (tasks (exStart (envRr 8 exEnv) exBootRr zeroRr) t) = 0}"
proof -
  let ?E = "envRr 8 exEnv" and ?q = "\<lparr>timesliceTicksRr = 5, prio = 3\<rparr> :: kSchedParamRr"
  let ?z = "zero_state zeroRr exNodes exDomains 0 :: rrState kstate"
  define s2 where "s2 = kCpuInvokeAllRendezvous [0, 1] (kSchedInit ?E) (?z\<lparr>gOpsInitialized := True\<rparr>)"
  define s3 where "s3 = snd (kPluginInitDomain ?E 0x9000 None 1 exDomain s2)"
  define s4 where "s4 = snd (kPluginInitTaskThreadRr 8 exEnv 10 (exThread ?q) s3)"
  define s5 where "s5 = snd (kPluginInitTaskLsr ?E 11 exLsr s4)"
  have 3: "domainTable s3 = [0 \<mapsto> 1]" "\<not> gPluginsDone s3" "kTasks s3 0 = None"
    using ex_domain[of s2] ex_sched_init by (simp_all add: s3_def s2_def)
  let ?s = "upd_task 10 (\<lambda>r. r\<lparr>threadTpr := (if thTpr (exThread ?q) > 1 then thTpr (exThread ?q) else 1)\<rparr>) s3"
  have g: "kDomainUniverseGet exEnv (thDomId (exThread ?q)) s3 = Some 1" "kDomainUniverseGet exEnv (thDomId (exThread ?q)) ?s = Some 1"
      "kSchedTaskCanAdd exEnv (thTaskId (exThread ?q)) s3" "kSchedTaskCanAdd exEnv (thTaskId (exThread ?q)) ?s"
    using 3 by (simp_all add: kDomainUniverseGet_def kSchedTaskCanAdd_def exThread_def exEnv_def ARRAY_LEN_kTasks_def)
  have "s4 = thread_init ?E setParamRr 10 (exThread ?q) ?s"
    using kPluginInitTaskThreadRr_cases[OF 3(2), of 8 exEnv 10 "exThread ?q"] g
    by (simp add: s4_def exThread_def exEnv_def word_less_nat_alt)
  then have "ttype (tasks s4 10) = K_TASK_THREAD \<and> cpuId (tasks s4 10) = 0"
    using thread_init_rr(1)[OF g(2,4), of 8 10] by (simp add: thread_record_def) (simp add: exThread_def)
  then have 5: "ttype (tasks s5 10) = K_TASK_THREAD \<and> cpuId (tasks s5 10) = 0"
    by (simp add: s5_def kPluginInitTaskLsr_other)
  have k: "rr_boot.threads (exStart ?E exBootRr zeroRr) 0 =
      rr_boot.threads (fold (\<lambda>f. f) (pluginCalls exBootRr) (kCpuInvokeAllRendezvous (onlineCpus exConf) (kSchedInit ?E) (opsInit exBootRr ?z))) 0"
    by (rule rr_boot.kStart_ok(3)[OF ex_conf(1) ex_boot_ok(1) refl ex_valid(1)]) (simp_all add: pinvRr_zero zeroRr_def zero_state_def)
  have "opsInit exBootRr ?z = ?z\<lparr>gOpsInitialized := True\<rparr>"
    by (simp add: exBootRr_def exBoot_def kSchedOpsInit_def zero_state_def)
  then have "fold (\<lambda>f. f) (pluginCalls exBootRr) (kCpuInvokeAllRendezvous (onlineCpus exConf) (kSchedInit ?E) (opsInit exBootRr ?z)) = s5"
    unfolding s5_def s4_def s3_def s2_def by (simp add: exBootRr_def exBoot_def exCalls_def exConf_def)
  then have "rr_boot.threads (exStart ?E exBootRr zeroRr) 0 = rr_boot.threads s5 0" using k by (simp only:)
  moreover have "10 \<in> rr_boot.threads s5 0" using 5 by (simp add: rr_boot.threads_def live_def)
  ultimately have "10 \<in> rr_boot.threads (exStart ?E exBootRr zeroRr) 0" by (simp only:)
  then show ?thesis by (simp only: rr_boot.threads_def live_def mem_Collect_eq)
qed

text \<open>
  C6. The boot starts the system, with the round robin policy (the default): after it every CPU runs a task of its own, one of its threads if
  plugins have given it any, and its idle task otherwise.
\<close>

theorem boot_starts_threads:
  assumes "conf_ok (envRr n E) C" and "boot_conf_ok (envRr n E) (admitRr n) setParamRr calls B"
    and "1 \<le> n" "n \<le> 256" and "cpuValid (envRr n E) c0"
    and "gSchedulersRr p = (\<lambda>_. \<lparr>qs = (\<lambda>_. []), activeQs = (\<lambda>_. 0)\<rparr>)"
    and "s = kStart (envRr n E) C B (zero_state p ns ds c0)" and "c \<in> set (onlineCpus C)"
  shows "\<exists>t. runningTask (gTickMachines s c) = Some t
    \<and> (if \<exists>u. ttype (tasks s u) = K_TASK_THREAD \<and> cpuId (tasks s u) = c
       then ttype (tasks s t) = K_TASK_THREAD \<and> cpuId (tasks s t) = c else t = idleAddr E c)"
proof -
  have "rr_boot.starts_on n E c s"
    unfolding assms(7) by (rule rr_boot.kStart_ok(2)[OF assms(1,2) refl assms(5) _ _ assms(8)])
      (simp_all add: assms(3,4,6) pinvRr_zero zero_state_def)
  moreover have "u \<in> rr_boot.threads s c \<longleftrightarrow> ttype (tasks s u) = K_TASK_THREAD \<and> cpuId (tasks s u) = c" for u
    by (auto simp: rr_boot.threads_def live_def)
  ultimately show ?thesis unfolding rr_boot.starts_on_def by (auto split: if_splits)
qed

theorem boot_starts_threads_witness:
  "\<exists>t. runningTask (gTickMachines (exStart (envRr 8 exEnv) exBootRr zeroRr) 0) = Some t
     \<and> ttype (tasks (exStart (envRr 8 exEnv) exBootRr zeroRr) t) = K_TASK_THREAD"
  using boot_starts_threads[OF ex_conf(1) ex_boot_ok(1) _ _ ex_valid(1) _ refl, of zeroRr 0 exNodes exDomains] ex_thread_boots
  by (auto simp: zeroRr_def exConf_def split: if_splits)
section \<open>Reports and the task priority register\<close>

text \<open>
  C7. What the kernel reports to the architecture is balanced. With the round robin policy (the default), in every state of the running system the
  reports since the boot, in their order, tell of each task an activation, then a response, then an
  activation, and so on, and those that were told active last are exactly the tasks that are active.
\<close>

theorem reports_balanced:
  assumes "conf_ok (envRr n E) C" and "boot_conf_ok (envRr n E) (admitRr n) setParamRr calls B"
    and "1 \<le> n" "n \<le> 256" and "cpuValid (envRr n E) c"
    and "gSchedulersRr p = (\<lambda>_. \<lparr>qs = (\<lambda>_. []), activeQs = (\<lambda>_. 0)\<rparr>)"
    and "reachable (envRr n E) C (kStart (envRr n E) C B (zero_state p ns ds c)) s"
  shows "replay (\<lambda>_. False) (rev (trace s)) = Some (activated s)"
  by (rule rr_boot.running_reports(1)[OF assms(1,2) refl assms(5) _ _ assms(7)])
    (simp_all add: assms(3,4,6) pinvRr_zero zero_state_def)

theorem reports_balanced_witness:
  "replay (\<lambda>_. False) (rev (trace (on_cpu 0 (handle (envRr 8 exEnv) exConf Tick) (exStart (envRr 8 exEnv) exBootRr zeroRr))))
   = Some (activated (on_cpu 0 (handle (envRr 8 exEnv) exConf Tick) (exStart (envRr 8 exEnv) exBootRr zeroRr)))"
  using reports_balanced[OF ex_conf(1) ex_boot_ok(1) _ _ ex_valid(1) _ ex_tick, of zeroRr exNodes exDomains]
  by (simp add: zeroRr_def)

text \<open>
  C8. The task priority register is exact. With the round robin policy (the default), in every state of the running system the register of each CPU
  holds the highest interrupt priority among the CPU's active threads and LSRs, and 1 if there are none;
  no assertion of the callbacks has failed and no counter has been taken below zero or out of its array.
\<close>

theorem tpr_exact:
  assumes "conf_ok (envRr n E) C" and "boot_conf_ok (envRr n E) (admitRr n) setParamRr calls B"
    and "1 \<le> n" "n \<le> 256" and "cpuValid (envRr n E) c0"
    and "gSchedulersRr p = (\<lambda>_. \<lparr>qs = (\<lambda>_. []), activeQs = (\<lambda>_. 0)\<rparr>)"
    and "reachable (envRr n E) C (kStart (envRr n E) C B (zero_state p ns ds c0)) s"
    and "T = tpr_run (envRr n E) (tasks s) (rev (trace s)) tpr_start" and "c \<in> set (onlineCpus C)"
  shows "tprFaults T = [] \<and> cr8 (cpuTable T c) = ucast (tpr (cpuTable T c))
    \<and> unat (tpr (cpuTable T c))
      = Max (insert 1 {p. \<exists>t. activated s t \<and> cpuId (tasks s t) = c \<and> task_prio (tasks s t) = Some p})"
proof -
  have "tpr_good (tasks s) (set (onlineCpus C)) (activated s) T"
    unfolding assms(8) by (rule rr_boot.running_reports(2)[OF assms(1,2) refl assms(5) _ _ assms(7)])
      (simp_all add: assms(3,4,6) pinvRr_zero zero_state_def)
  then have "tprFaults T = []" "tpr_ok (tasks s) (activated s) T c" using assms(9) by (simp_all add: tpr_good_def)
  then show ?thesis unfolding tpr_ok_def highest_prio_tasks by (intro conjI) (elim conjE, assumption)+
qed

theorem tpr_exact_witness:
  "tprFaults (tpr_run (envRr 8 exEnv) (tasks (exStart (envRr 8 exEnv) exBootRr zeroRr))
     (rev (trace (exStart (envRr 8 exEnv) exBootRr zeroRr))) tpr_start) = []"
  using tpr_exact[OF ex_conf(1) ex_boot_ok(1) _ _ ex_valid(1) _ reachable.start refl, of zeroRr 0 exNodes exDomains]
  by (simp add: zeroRr_def exConf_def)


section \<open>Interrupts, exceptions and system calls\<close>

lemma running_inv_rr:
  assumes "conf_ok (envRr n E) C" and "boot_conf_ok (envRr n E) (admitRr n) setParamRr calls B"
    and "1 \<le> n" "n \<le> 256" and "cpuValid (envRr n E) c0"
    and "gSchedulersRr p = (\<lambda>_. \<lparr>qs = (\<lambda>_. []), activeQs = (\<lambda>_. 0)\<rparr>)"
    and "reachable (envRr n E) C (kStart (envRr n E) C B (zero_state p ns ds c0)) s"
  shows "sched_policy.sys_inv (envRr n E) (pinvRr n) tickableRr (knownRr n) (set (onlineCpus C)) s"
  by (rule rr_boot.running_inv[OF assms(1,2) refl assms(5) _ _ assms(7)])
    (simp_all add: assms(3,4,6) pinvRr_zero zero_state_def)

text \<open>
  C9. An interrupt releases the LSRs that wait for its vector: with the round robin policy (the default), after the handler the one that came first
  runs, whatever ran before. An interrupt for which no LSR waits changes nothing.
\<close>

theorem interrupt_runs_lsr:
  assumes "conf_ok (envRr n E) C" and "boot_conf_ok (envRr n E) (admitRr n) setParamRr calls B"
    and "1 \<le> n" "n \<le> 256" and "cpuValid (envRr n E) c0"
    and "gSchedulersRr p = (\<lambda>_. \<lparr>qs = (\<lambda>_. []), activeQs = (\<lambda>_. 0)\<rparr>)"
    and "reachable (envRr n E) C (kStart (envRr n E) C B (zero_state p ns ds c0)) s" and "c \<in> set (onlineCpus C)"
  shows "let s' = on_cpu c (handle (envRr n E) C (Interrupt v)) s in
    if archLsrs s c v = [] then s' = s
    else runningTask (gTickMachines s' c) = Some (last (archLsrs s c v))"
proof -
  let ?s = "s\<lparr>thisCpu := c\<rparr>"
  have inv: "sched_policy.sys_inv (envRr n E) (pinvRr n) tickableRr (knownRr n) (set (onlineCpus C)) ?s"
    using running_inv_rr[OF assms(1-7)] by (simp add: sched_policy.sys_inv_cpu[OF rr.sched_policy_axioms])
  then have b: "sched_policy.kbound (envRr n E) (pinvRr n) tickableRr (knownRr n) c ?s"
    using assms(8) by (simp add: sched_policy.sys_inv_def[OF rr.sched_policy_axioms])
  note h = sched_policy.ia32eIsrExternalHandler_ok(2)[OF rr.sched_policy_axioms b, of True v]
  show ?thesis
  proof (cases "archLsrs s c v")
    case Nil then show ?thesis by (simp add: Let_def on_cpu_def ia32eIsrExternalHandler_def)
  next
    case Cons then show ?thesis using h by (simp add: Let_def on_cpu_def)
  qed
qed

theorem interrupt_runs_lsr_witness:
  "let s = exStart (envRr 8 exEnv) exBootRr zeroRr; s' = on_cpu 0 (handle (envRr 8 exEnv) exConf (Interrupt 0x40)) s in
    if archLsrs s 0 0x40 = [] then s' = s else runningTask (gTickMachines s' 0) = Some (last (archLsrs s 0 0x40))"
  using interrupt_runs_lsr[OF ex_conf(1) ex_boot_ok(1) _ _ ex_valid(1) _ reachable.start, where v = "0x40"]
  by (simp add: zeroRr_def exConf_def Let_def)

lemma ex_user_mode: "user_mode 0 (exStart (envRr 8 exEnv) exBootRr zeroRr)"
proof -
  let ?s = "exStart (envRr 8 exEnv) exBootRr zeroRr"
  have "rr_boot.starts_on 8 exEnv 0 ?s"
    by (rule rr_boot.kStart_ok(2)[OF ex_conf(1) ex_boot_ok(1) refl ex_valid(1)])
      (simp_all add: pinvRr_zero zeroRr_def zero_state_def exConf_def)
  moreover have "10 \<in> rr_boot.threads ?s 0" using ex_thread_boots by (simp only: rr_boot.threads_def live_def mem_Collect_eq) simp
  ultimately show ?thesis
    unfolding rr_boot.starts_on_def user_mode_def by (auto simp: rr_boot.threads_def split: if_splits)
qed

text \<open>
  C10. A system call never returns to an address that faults, with the round robin policy (the default): when the handler is left the return address
  is canonical, or the task has been taken off the CPU as failed.
\<close>

theorem syscall_exit_canonical:
  assumes "conf_ok (envRr n E) C" and "boot_conf_ok (envRr n E) (admitRr n) setParamRr calls B"
    and "1 \<le> n" "n \<le> 256" and "cpuValid (envRr n E) c0"
    and "gSchedulersRr p = (\<lambda>_. \<lparr>qs = (\<lambda>_. []), activeQs = (\<lambda>_. 0)\<rparr>)"
    and "reachable (envRr n E) C (kStart (envRr n E) C B (zero_state p ns ds c0)) s" and "c \<in> set (onlineCpus C)"
    and "user_mode c s"
  shows "let s0 = s\<lparr>thisCpu := c\<rparr>; r = strict_exit (envRr n E) (getCpuIdMacro C) rs s0 in
    IA32E_CANONICAL (rcx (fst r)) \<or> snd r = kTickSwitchRunningTask (envRr n E) K_TASK_STATE_FAILURE s0"
proof -
  let ?s = "s\<lparr>thisCpu := c\<rparr>"
  have inv: "sched_policy.sys_inv (envRr n E) (pinvRr n) tickableRr (knownRr n) (set (onlineCpus C)) ?s"
    using running_inv_rr[OF assms(1-7)] by (simp add: sched_policy.sys_inv_cpu[OF rr.sched_policy_axioms])
  obtain t where t: "runningTask (gTickMachines s c) = Some t" "ttype (tasks s t) \<noteq> K_TASK_IDLE"
    using assms(9) by (auto simp: user_mode_def)
  have ob: "sched_policy.on_behalf (envRr n E) (pinvRr n) tickableRr (knownRr n) (set (onlineCpus C)) c t ?s"
    using inv t assms(8) by (simp add: sched_policy.on_behalf_def[OF rr.sched_policy_axioms])
  have k: "0 < KTICK_MS (envRr n E)" using assms(1) unfolding conf_ok_def by blast
  show ?thesis unfolding Let_def by (rule sched_policy.strict_exit_ok(2)[OF rr.sched_policy_axioms ob k])
qed

theorem syscall_exit_canonical_witness:
  "let s = (exStart (envRr 8 exEnv) exBootRr zeroRr)\<lparr>thisCpu := 0\<rparr>;
     r = strict_exit (envRr 8 exEnv) False (zero_regs\<lparr>rcx := 0x800000000000\<rparr>) s
   in IA32E_CANONICAL (rcx (fst r)) \<or> snd r = kTickSwitchRunningTask (envRr 8 exEnv) K_TASK_STATE_FAILURE s"
  using syscall_exit_canonical[OF ex_conf(1) ex_boot_ok(1) _ _ ex_valid(1) _ reachable.start _ ex_user_mode,
    where rs = "(zero_regs\<lparr>rcx := 0x800000000000\<rparr>)"]
  by (simp add: zeroRr_def exConf_def Let_def)



section \<open>The policies\<close>

text \<open>
  Example states for the witnesses: CPU 0, whose thread 12 runs while 10 and 11 are ready. The
  thread 11 has the higher priority and the earlier deadline. The ready threads get into the queues
  by the push of the policy.
\<close>

definition exTasks :: "addr \<Rightarrow> kSchedTask" where
  "exTasks = (\<lambda>t. if t = 10 \<or> t = 11 then zero_task\<lparr>ttype := K_TASK_THREAD, tstate := K_TASK_STATE_READY\<rparr>
     else if t = 12 then zero_task\<lparr>ttype := K_TASK_THREAD, tstate := K_TASK_STATE_RUNNING\<rparr> else zero_task)"

definition exReady :: "'p \<Rightarrow> 'p kstate" where
  "exReady p = (zero_state p exNodes exDomains 0)\<lparr>tasks := exTasks, gTickMachines := (\<lambda>_. zero_machine\<lparr>runningTask := Some 12\<rparr>)\<rparr>"

lemma ex_ready [simp]: "tasks (exReady p) = exTasks" "thisCpu (exReady p) = 0" "pol (exReady p) = p"
    "runningTask (gTickMachines (exReady p) c) = Some 12" "gTickMachines (exReady p) = (\<lambda>_. zero_machine\<lparr>runningTask := Some 12\<rparr>)"
  by (simp_all add: exReady_def zero_state_def)

lemma ex_tasks [simp]: "cpuId (exTasks t) = 0" "ttype (exTasks 10) = K_TASK_THREAD" "ttype (exTasks 11) = K_TASK_THREAD"
    "ttype (exTasks 12) = K_TASK_THREAD" "tstate (exTasks 12) = K_TASK_STATE_RUNNING"
  by (simp_all add: exTasks_def zero_task_def)

definition exRr :: "rrState kstate" where
  "exRr = kSchedTaskPushRr 11 (kSchedTaskPushRr 10
     (exReady (zeroRr\<lparr>paramRr := (\<lambda>t. \<lparr>timesliceTicksRr = 5, prio = (if t = 11 then 3 else 1)\<rparr>)\<rparr>)))"

lemma ex_rr:
  "pinvRr 8 0 {10, 11} exRr" "thisCpu exRr = 0" "tasks exRr = exTasks"
  "paramRr (pol exRr) = (\<lambda>t. \<lparr>timesliceTicksRr = 5, prio = (if t = 11 then 3 else 1)\<rparr>)"
  "runningTask (mach exRr) = Some 12"
proof -
  let ?s = "exReady (zeroRr\<lparr>paramRr := (\<lambda>t. \<lparr>timesliceTicksRr = 5, prio = (if t = 11 then 3 else 1)\<rparr>)\<rparr>)"
  let ?s1 = "kSchedTaskPushRr 10 ?s"
  have 0: "pinvRr 8 0 {} ?s" by (rule pinvRr_zero) (simp_all add: zeroRr_def)
  have e: "thisCpu ?s1 = 0 \<and> tasks ?s1 = exTasks \<and> paramRr (pol ?s1) = paramRr (pol ?s) \<and> gTickMachines ?s1 = gTickMachines ?s"
    by (simp add: kSchedTaskPushRr_def upd_rr_def Let_def)
  have 1: "pinvRr 8 0 {10} ?s1" using rr_push[of 8 ?s 10 "{}"] 0 by (simp add: knownRr_def)
  show "pinvRr 8 0 {10, 11} exRr"
    using rr_push[of 8 ?s1 11 "{10}"] 1 e by (simp add: knownRr_def exRr_def insert_commute)
  show "thisCpu exRr = 0" "tasks exRr = exTasks" "runningTask (mach exRr) = Some 12"
      "paramRr (pol exRr) = (\<lambda>t. \<lparr>timesliceTicksRr = 5, prio = (if t = 11 then 3 else 1)\<rparr>)"
    using e by (simp_all add: exRr_def kSchedTaskPushRr_def upd_rr_def Let_def)
qed

text \<open>The pick of round robin.\<close>

lemma rr_picks:
  assumes "pinvRr n (thisCpu s) Q s"
  shows "if Q = {} then kSchedTaskPopRr n E s = (Some (idleAddr E (thisCpu s)), s)
    else \<exists>t ts s'. kSchedTaskPopRr n E s = (Some t, s') \<and> t \<in> Q \<and> (\<forall>u \<in> Q. prio_of s u \<le> prio_of s t)
      \<and> qs (gSchedulersRr (pol s) (thisCpu s)) (prio_of s t) = t # ts
      \<and> qs (gSchedulersRr (pol s') (thisCpu s)) = (qs (gSchedulersRr (pol s) (thisCpu s)))(prio_of s t := ts)
      \<and> pinvRr n (thisCpu s) (Q - {t}) s' \<and> remainingRr (pol s') t = timesliceTicksRr (paramRr (pol s) t)"
proof (cases "Q = {}")
  case True
  then show ?thesis using rr_pop_empty[of n s E] assms by simp
next
  case False
  let ?s' = "snd (kSchedTaskPopRr n E s)"
  obtain t ts where "qs (gSchedulersRr (pol s) (thisCpu s)) (prio_of s t) = t # ts" "t \<in> Q"
      "\<And>u. u \<in> Q \<Longrightarrow> prio_of s u \<le> prio_of s t" "fst (kSchedTaskPopRr n E s) = Some t"
      "pinvRr n (thisCpu s) (Q - {t}) ?s'"
      "qs (gSchedulersRr (pol ?s') (thisCpu s)) = (qs (gSchedulersRr (pol s) (thisCpu s)))(prio_of s t := ts)"
      "remainingRr (pol ?s') t = timesliceTicksRr (paramRr (pol s) t)"
    by (rule rr_pop[OF assms False, of E]) (rule that, assumption+)
  moreover from this(4) have "kSchedTaskPopRr n E s = (Some t, ?s')" by (cases "kSchedTaskPopRr n E s") simp
  ultimately show ?thesis unfolding if_not_P[OF False] by blast
qed

text \<open>
  C11. Round robin picks the first thread of the highest priority that has a ready thread, takes it out
  of its queue and renews its time slice; with no ready thread it picks the idle task. It preempts a
  running thread exactly when a ready thread has a higher priority, or the same priority and the time
  slice is used up, the idle task when any thread is ready, and an LSR never.
\<close>

theorem rr_schedules:
  assumes "pinvRr n (thisCpu s) Q s"
  shows "(if Q = {} then kSchedTaskPopRr n E s = (Some (idleAddr E (thisCpu s)), s)
    else \<exists>t ts s'. kSchedTaskPopRr n E s = (Some t, s') \<and> t \<in> Q \<and> (\<forall>u \<in> Q. prio_of s u \<le> prio_of s t)
      \<and> qs (gSchedulersRr (pol s) (thisCpu s)) (prio_of s t) = t # ts
      \<and> qs (gSchedulersRr (pol s') (thisCpu s)) = (qs (gSchedulersRr (pol s) (thisCpu s)))(prio_of s t := ts)
      \<and> pinvRr n (thisCpu s) (Q - {t}) s' \<and> remainingRr (pol s') t = timesliceTicksRr (paramRr (pol s) t))
   \<and> (\<forall>r. runningTask (mach s) = Some r \<and> tstate (tasks s r) = K_TASK_STATE_RUNNING \<and> cpuId (tasks s r) = thisCpu s \<longrightarrow>
      fst (kSchedShouldRescheduleRr n s) =
        (case ttype (tasks s r) of
           K_TASK_THREAD \<Rightarrow> \<exists>u \<in> Q. prio_of s u > prio_of s r \<or> prio_of s u = prio_of s r \<and> remainingRr (pol s) r = 0
         | K_TASK_IDLE \<Rightarrow> Q \<noteq> {}
         | _ \<Rightarrow> False))"
  using rr_picks[OF assms] rr_reschedule(1)[OF assms] by blast

theorem rr_schedules_witness: "fst (kSchedTaskPopRr 8 exEnv exRr) = Some 11 \<and> fst (kSchedShouldRescheduleRr 8 exRr)"
proof -
  have p: "pinvRr 8 (thisCpu exRr) {10, 11} exRr" using ex_rr by simp
  note w = rr_schedules[OF p, where E = exEnv]
  show ?thesis using conjunct1[OF w] conjunct2[OF w, rule_format, of 12] ex_rr by (auto split: if_splits)
qed

definition exCyclic :: "cyclicState kstate" where
  "exCyclic = exReady (zeroCyclic\<lparr>
     gSchedulersCyclic := (\<lambda>_. \<lparr>frames = (\<lambda>f. if f = 0 then Some 10 else if f = 1 then Some 11 else None), clock = 1, numReadyThreads = 2\<rparr>),
     paramCyclic := (\<lambda>t. \<lparr>frameBmp = (if t = 11 then (\<lambda>_. 2) else (\<lambda>_. 1)), timesliceTicksCyclic = 2\<rparr>)\<rparr>)"

lemma ex_cyclic: "pinvCyclic 16 0 {10, 11} exCyclic" "{10, 11} = ready_set exCyclic 0 {}"
  by (auto simp: pinvCyclic_def exCyclic_def exTasks_def zero_task_def zeroCyclic_def ready_set_def live_def
      intro: exI[of _ 0] exI[of _ 1] split: if_splits)

text \<open>The pick of the cyclic policy.\<close>

lemma cyclic_picks:
  assumes "pinvCyclic n (thisCpu s) Q s" and "Q = ready_set s (thisCpu s) {}"
  defines "q \<equiv> gSchedulersCyclic (pol s) (thisCpu s)"
  shows "if Q = {} then kSchedTaskPopCyclic n E s = (Some (idleAddr E (thisCpu s)), s)
    else \<exists>t j s'. kSchedTaskPopCyclic n E s = (Some t, s') \<and> t \<in> Q \<and> j < unat n
      \<and> frames q ((unat (clock q) + j) mod unat n) = Some t
      \<and> (\<forall>j' < j. \<forall>u. frames q ((unat (clock q) + j') mod unat n) = Some u \<longrightarrow> u \<notin> Q)
      \<and> unat (clock (gSchedulersCyclic (pol s') (thisCpu s))) = (unat (clock q) + j) mod unat n + 1
      \<and> remainingCyclic (linkCyclic (pol s') t) = timesliceTicksCyclic (paramCyclic (pol s) t)
      \<and> pinvCyclic n (thisCpu s) (Q - {t}) s'"
proof (cases "Q = {}")
  case True
  then show ?thesis using cyc_pop_empty[of n s E] assms(1) by simp
next
  case False
  let ?s' = "snd (kSchedTaskPopCyclic n E s)"
  obtain t j where t: "t \<in> Q" "j < unat n" "frames q (unat (frame_at n (clock q) j)) = Some t"
      "\<forall>j' u. j' < j \<and> frames q (unat (frame_at n (clock q) j')) = Some u \<longrightarrow> u \<notin> Q"
      "fst (kSchedTaskPopCyclic n E s) = Some t"
      "clock (gSchedulersCyclic (pol ?s') (thisCpu s)) = frame_at n (clock q) j + 1"
      "remainingCyclic (linkCyclic (pol ?s') t) = timesliceTicksCyclic (paramCyclic (pol s) t)"
      "pinvCyclic n (thisCpu s) (Q - {t}) ?s'"
    using cyc_pop[OF assms(1) False assms(2), of E] unfolding q_def by blast
  have sm: "0 < unat n" "unat n \<le> 8192" "clock q \<le> n"
    using cyc_small[OF assms(1)] pinvCyclic_D(3)[OF assms(1)] by (simp_all add: q_def)
  note fr = frame_at_nat[OF sm]
  have "(unat (clock q) + j) mod unat n < unat n" using sm(1) by simp
  then have "unat (frame_at n (clock q) j + 1) = (unat (clock q) + j) mod unat n + 1"
    using fr[OF t(2)] sm(2) by (simp add: unat_add_lem[THEN iffD1])
  moreover have "kSchedTaskPopCyclic n E s = (Some t, ?s')" using t(5) by (cases "kSchedTaskPopCyclic n E s") simp
  moreover have "\<forall>j' < j. \<forall>u. frames q ((unat (clock q) + j') mod unat n) = Some u \<longrightarrow> u \<notin> Q"
    using t(2,4) fr by (metis order_less_trans)
  ultimately show ?thesis unfolding if_not_P[OF False] using t fr[OF t(2)] by metis
qed

text \<open>
  C12. The cyclic policy picks the thread of the next frame, counted from its clock and around the
  table, whose thread is ready; it sets the clock behind that frame and renews the time slice. With no
  ready thread it picks the idle task. It takes the CPU from a running thread only when the thread's time
  slice is used up and another thread is ready, and from the idle task when any thread is ready.
\<close>

theorem cyclic_schedules:
  assumes "pinvCyclic n (thisCpu s) Q s" and "Q = ready_set s (thisCpu s) {}"
  defines "q \<equiv> gSchedulersCyclic (pol s) (thisCpu s)"
  shows "(if Q = {} then kSchedTaskPopCyclic n E s = (Some (idleAddr E (thisCpu s)), s)
    else \<exists>t j s'. kSchedTaskPopCyclic n E s = (Some t, s') \<and> t \<in> Q \<and> j < unat n
      \<and> frames q ((unat (clock q) + j) mod unat n) = Some t
      \<and> (\<forall>j' < j. \<forall>u. frames q ((unat (clock q) + j') mod unat n) = Some u \<longrightarrow> u \<notin> Q)
      \<and> unat (clock (gSchedulersCyclic (pol s') (thisCpu s))) = (unat (clock q) + j) mod unat n + 1
      \<and> remainingCyclic (linkCyclic (pol s') t) = timesliceTicksCyclic (paramCyclic (pol s) t)
      \<and> pinvCyclic n (thisCpu s) (Q - {t}) s')
   \<and> (\<forall>r. runningTask (mach s) = Some r \<longrightarrow>
      fst (kSchedShouldRescheduleCyclic s) =
        (case ttype (tasks s r) of
           K_TASK_THREAD \<Rightarrow> remainingCyclic (linkCyclic (pol s) r) = 0 \<and> Q \<noteq> {}
         | K_TASK_IDLE \<Rightarrow> Q \<noteq> {}
         | _ \<Rightarrow> False))"
  using cyclic_picks[OF assms(1,2), of E] cyc_reschedule(1)[OF assms(1)] unfolding q_def by blast

theorem cyclic_schedules_witness: "fst (kSchedTaskPopCyclic 16 exEnv exCyclic) = Some 11 \<and> fst (kSchedShouldRescheduleCyclic exCyclic)"
proof -
  have c: "thisCpu exCyclic = 0" "clock (gSchedulersCyclic (pol exCyclic) 0) = 1"
      "frames (gSchedulersCyclic (pol exCyclic) 0) f = (if f = 0 then Some 10 else if f = 1 then Some 11 else None)" for f
    by (simp_all add: exCyclic_def)
  have ne: "{10, 11} \<noteq> ({} :: addr set)" by simp
  note w = cyclic_schedules[of 16 exCyclic "{10, 11}" exEnv, unfolded c(1), OF ex_cyclic, unfolded if_not_P[OF ne]]
  from conjunct1[OF w]
  obtain t j s' where p: "kSchedTaskPopCyclic 16 exEnv exCyclic = (Some t, s')"
      and f: "frames (gSchedulersCyclic (pol exCyclic) 0) ((unat (clock (gSchedulersCyclic (pol exCyclic) 0)) + j) mod unat (16 :: u32)) = Some t"
      and l: "\<forall>j' < j. \<forall>u. frames (gSchedulersCyclic (pol exCyclic) 0) ((unat (clock (gSchedulersCyclic (pol exCyclic) 0)) + j') mod unat (16 :: u32)) = Some u
          \<longrightarrow> u \<notin> {10, 11 :: addr}"
    by (elim exE conjE)
  have "j = 0" using l[rule_format, of 0 11] c by auto
  moreover have "fst (kSchedShouldRescheduleCyclic exCyclic)"
    using conjunct2[OF w, rule_format, of 12] by (simp add: exCyclic_def zeroCyclic_def)
  ultimately show ?thesis using p f c by simp
qed

definition exEdf :: "edfState kstate" where
  "exEdf = kSchedTaskPushEdf 11 (kSchedTaskPushEdf 10
     (exReady (zeroEdf\<lparr>paramEdf := (\<lambda>t. \<lparr>virtualDeadline = (if t = 11 then 3 else 9)\<rparr>), linkEdf := (\<lambda>t. \<lparr>expectedEpoch = 0, delta = (if t = 12 then 4 else 0)\<rparr>)\<rparr>)))"

lemma ex_edf: "pinvEdf 0 {10, 11} exEdf" "thisCpu exEdf = 0" "tasks exEdf = exTasks" "edf_timers exEdf 0 = [(11, 3), (10, 9)]"
  "runningTask (mach exEdf) = Some 12" "delta (linkEdf (pol exEdf) 12) = 4"
proof -
  let ?s = "exReady (zeroEdf\<lparr>paramEdf := (\<lambda>t. \<lparr>virtualDeadline = (if t = 11 then 3 else 9)\<rparr>), linkEdf := (\<lambda>t. \<lparr>expectedEpoch = 0, delta = (if t = 12 then 4 else 0)\<rparr>)\<rparr>)"
  let ?s1 = "kSchedTaskPushEdf 10 ?s"
  have 0: "pinvEdf 0 {} ?s" by (rule pinvEdf_zero) (simp add: zeroEdf_def)
  have z: "edf_timers ?s 0 = []" by (simp add: edf_timers_def chain_timers_def zeroEdf_def)
  have e: "thisCpu ?s1 = 0" "tasks ?s1 = exTasks" "paramEdf (pol ?s1) = paramEdf (pol ?s)" "gTickMachines ?s1 = gTickMachines ?s"
    by (simp_all add: kSchedTaskPushEdf_def Let_def set_chain_edf_def)
  have d: "linkEdf (pol ?s1) 11 = linkEdf (pol ?s) 11" "delta (linkEdf (pol ?s1) 12) = 4"
    by (simp_all add: kSchedTaskPushEdf_def Let_def zeroEdf_def deltaChainInsert_def insert_walk.simps)
  have 1: "pinvEdf 0 {10} ?s1" "edf_timers ?s1 0 = [(10, 9)]" using edf_push[of ?s 10 "{}"] 0 z by (simp_all add: knownEdf_def)
  have 2: "pinvEdf 0 {10, 11} exEdf" "edf_timers exEdf 0 = [(11, 3), (10, 9)]"
    using edf_push[of ?s1 11 "{10}"] 1 e d by (simp_all add: knownEdf_def exEdf_def insert_commute)
  then show "pinvEdf 0 {10, 11} exEdf" "edf_timers exEdf 0 = [(11, 3), (10, 9)]" .
  show "thisCpu exEdf = 0" "tasks exEdf = exTasks" "runningTask (mach exEdf) = Some 12"
    using e by (simp_all add: exEdf_def kSchedTaskPushEdf_def Let_def set_chain_edf_def)
  show "delta (linkEdf (pol exEdf) 12) = 4"
    by (simp add: exEdf_def kSchedTaskPushEdf_def Let_def zeroEdf_def deltaChainInsert_def insert_walk.simps)
qed

text \<open>The pick of the deadline policy.\<close>

lemma edf_picks:
  assumes "pinvEdf (thisCpu s) Q s"
  defines "deadlines \<equiv> renew (\<lambda>t. unat (virtualDeadline (paramEdf (pol s) t))) (edf_timers s (thisCpu s))"
  shows "if Q = {} then fst (kSchedTaskPopEdf E s) = Some (idleAddr E (thisCpu s))
    else \<exists>t d s'. kSchedTaskPopEdf E s = (Some t, s') \<and> t \<in> Q \<and> deadlines = (t, d) # edf_timers s' (thisCpu s)
      \<and> (\<forall>(u, e) \<in> set deadlines. d \<le> e) \<and> 0 < d \<and> unat (delta (linkEdf (pol s') t)) = d
      \<and> pinvEdf (thisCpu s) (Q - {t}) s'"
proof (cases "Q = {}")
  case True
  then show ?thesis using edf_pop_empty[of s E] assms(1) by simp
next
  case False
  let ?s' = "snd (kSchedTaskPopEdf E s)"
  obtain t where t: "t \<in> Q" "fst (kSchedTaskPopEdf E s) = Some t" "pinvEdf (thisCpu s) (Q - {t}) ?s'"
      "delta (linkEdf (pol ?s') t) > 0"
      "deadlines = (t, unat (delta (linkEdf (pol ?s') t))) # edf_timers ?s' (thisCpu s)"
    using edf_pop[OF assms(1) False, of E] unfolding deadlines_def by blast
  have "sorted (map snd deadlines)"
    unfolding deadlines_def fixup_renews(3)[OF assms(1), symmetric] by (rule edf_timers_sorted)
  then have "\<forall>(u, e) \<in> set deadlines. unat (delta (linkEdf (pol ?s') t)) \<le> e" unfolding t(5) by auto
  moreover have "kSchedTaskPopEdf E s = (Some t, ?s')" using t(2) by (cases "kSchedTaskPopEdf E s") simp
  moreover have "0 < unat (delta (linkEdf (pol ?s') t))" using t(4) by (simp add: unat_gt_0 word_greater_zero_iff)
  ultimately show ?thesis unfolding if_not_P[OF False] using t(1,3,5) by blast
qed

text \<open>
  C13. Deadline first picks the ready thread with the earliest deadline, after it has renewed the
  deadlines that have passed; what stays in the chain are the other threads with their deadlines. With
  no ready thread it picks the idle task. It preempts a running thread exactly when a ready thread has
  an earlier deadline, and the idle task when any thread is ready.
\<close>

theorem edf_schedules:
  assumes "pinvEdf (thisCpu s) Q s"
  defines "deadlines \<equiv> renew (\<lambda>t. unat (virtualDeadline (paramEdf (pol s) t))) (edf_timers s (thisCpu s))"
  shows "(if Q = {} then fst (kSchedTaskPopEdf E s) = Some (idleAddr E (thisCpu s))
    else \<exists>t d s'. kSchedTaskPopEdf E s = (Some t, s') \<and> t \<in> Q \<and> deadlines = (t, d) # edf_timers s' (thisCpu s)
      \<and> (\<forall>(u, e) \<in> set deadlines. d \<le> e) \<and> 0 < d \<and> unat (delta (linkEdf (pol s') t)) = d
      \<and> pinvEdf (thisCpu s) (Q - {t}) s')
   \<and> (\<forall>r. runningTask (mach s) = Some r \<and> tstate (tasks s r) = K_TASK_STATE_RUNNING \<and> cpuId (tasks s r) = thisCpu s \<longrightarrow>
      fst (kSchedShouldRescheduleEdf s) =
        (case ttype (tasks s r) of
           K_TASK_THREAD \<Rightarrow> (case deadlines of [] \<Rightarrow> False | (_, d) # _ \<Rightarrow> d < unat (delta (linkEdf (pol s) r)))
         | K_TASK_IDLE \<Rightarrow> Q \<noteq> {}
         | _ \<Rightarrow> False))"
  using edf_picks[OF assms(1), of E] edf_reschedule(1)[OF assms(1)] unfolding deadlines_def by blast

theorem edf_schedules_witness: "fst (kSchedTaskPopEdf exEnv exEdf) = Some 11 \<and> fst (kSchedShouldRescheduleEdf exEdf)"
proof -
  have p: "pinvEdf (thisCpu exEdf) {10, 11} exEdf" using ex_edf by simp
  note w = edf_schedules[OF p, where E = exEnv]
  show ?thesis using conjunct1[OF w] conjunct2[OF w, rule_format, of 12] ex_edf by (auto simp: renew_current)
qed

text \<open>
  C14. The deadline of a thread when a tick is charged. What passes is one tick, or all ticks of the sleep that begins,
  and with no budget left also the ticks until the budget comes back. When the thread is ready again, the chain
  holds it with the rest of its deadline in the order of all deadlines; if as much has passed as was left or more, it
  holds it with a new deadline instead. No subtraction wraps and no assertion fails. A thread that stays ready
  or running has this deadline at once, and it is never zero: a deadline that expires is renewed in the tick.
\<close>

theorem edf_charges:
  assumes "ttype (tasks s t) = K_TASK_THREAD" and "delta (linkEdf (pol s) t) > 0"
    and "tstate (tasks s t) = K_TASK_STATE_THREAD_DEFTICK_SLEEP \<Longrightarrow> sleepTicks (tick (tasks s t)) > 0"
    and "pinvEdf (cpuId (tasks s t)) Q s" "t \<notin> Q" "virtualDeadline (paramEdf (pol s) t) > 0"
  shows "let s' = kSchedTaskTickCallbackEdf a t s; c = cpuId (tasks s t); tk = tick (tasks s t);
      sleeping = (tstate (tasks s t) = K_TASK_STATE_THREAD_DEFTICK_SLEEP);
      wait = (if currentBudget tk > 0 \<or> period tk = 0 then 0
              else if a = DS then unat (kTickThrottleTimeLeft t s) else unat (period tk));
      elapsed = (if sleeping then unat (sleepTicks tk) else 1) + wait;
      left = unat (delta (linkEdf (pol s) t));
      rest = (if elapsed < left then left - elapsed else unat (virtualDeadline (paramEdf (pol s) t)))
    in edf_timers (kSchedTaskPushEdf t s') c = insert_timer (t, rest) (edf_timers s c)
     \<and> (\<exists>d. s' = set_delta_edf t d s \<and> (currentBudget tk > 0 \<and> \<not> sleeping \<longrightarrow> d > 0 \<and> unat d = rest))"
proof -
  let ?c = "cpuId (tasks s t)" and ?d = "edf_charge a t s"
  let ?s = "set_delta_edf t ?d s" and ?left = "unat (delta (linkEdf (pol s) t))"
  let ?new = "unat (virtualDeadline (paramEdf (pol s) t))"
  have e: "kSchedTaskTickCallbackEdf a t s = ?s" by (rule edf_callback_thread[OF assms(1-3)])
  have l: "(if unat ?d = 0 then ?new else unat ?d) = edf_left ?new (edf_elapsed a t s) ?left"
    by (rule edf_charge_left) (use assms(2,3) in \<open>simp_all add: unat_gt_0 word_greater_zero_iff\<close>)
  have "edf_timers (kSchedTaskPushEdf t ?s) ?c = insert_timer (t, edf_left ?new (edf_elapsed a t s) ?left) (edf_timers s ?c)"
    using edf_push[of ?s t Q] edf_delta_keeps[OF assms(4) refl assms(5)] edf_delta_timers[OF assms(4,5), of ?d] assms(1,5,6) l
    by (simp add: knownEdf_def if_distrib[of unat] split: if_splits flip: unat_eq_0)
  moreover have "?d > 0 \<and> unat ?d = edf_left ?new (edf_elapsed a t s) ?left"
    if "currentBudget (tick (tasks s t)) > 0" "tstate (tasks s t) \<noteq> K_TASK_STATE_THREAD_DEFTICK_SLEEP"
  proof -
    have p: "?d > 0" using edf_charge_pos[OF that] assms(6) by (simp add: knownEdf_def)
    then have "0 < unat ?d" by (simp add: unat_gt_0 word_greater_zero_iff)
    then show ?thesis using p l by simp
  qed
  ultimately show ?thesis unfolding Let_def e edf_left_def edf_elapsed_def by blast
qed

theorem edf_charges_witness:
  "edf_timers (kSchedTaskPushEdf 12 (kSchedTaskTickCallbackEdf DS 12 exEdf)) 0 = [(11, 3), (12, 3), (10, 9)]"
proof -
  have v: "virtualDeadline (paramEdf (pol exEdf) 12) = 9"
    by (simp add: exEdf_def kSchedTaskPushEdf_def Let_def zeroEdf_def)
  note w = edf_charges[where a = DS and s = exEdf and t = 12 and Q = "{10, 11}"]
  show ?thesis using w ex_edf v by (simp add: Let_def exTasks_def zero_task_def)
qed

section \<open>Domains and system calls\<close>

text \<open>
  For the witnesses: thread 12 runs in domain 0, which may invoke domain 1. The domains are at the
  addresses 20 and 21.
\<close>

definition exIpc :: "unit kstate" where
  "exIpc = (exReady ())\<lparr>tasks := exTasks(12 := (exTasks 12)\<lparr>tdomain := zero_domain\<lparr>curDomain := Some 20\<rparr>\<rparr>),
     domains := (\<lambda>d. \<lparr>domId = (if d = 20 then 0 else 1), invocationInfo = exInfo\<rparr>),
     domainTable := [0 \<mapsto> 20, 1 \<mapsto> 21]\<rparr>"

lemma ex_ipc: "kTickGetRunningTask exIpc = Some 12" "dom_ok (INVOCATION_DEPTH exEnv) (tdomain (tasks exIpc 12))"
  "curDomain (tdomain (tasks exIpc 12)) = Some 20" "inv_stack (tdomain (tasks exIpc 12)) = []"
  "may_invoke exEnv 1 20 exIpc" "kDomainUniverseGet exEnv 1 exIpc = Some 21"
  by (simp_all add: exIpc_def kTickGetRunningTask_def kTickGetMachine_def dom_ok_def inv_stack_def zero_domain_def
      may_invoke_def kDomainUniverseGet_def exEnv_def exInfo_def exEntry_def bm_test_bit)

lemma ex_depth [simp]: "INVOCATION_DEPTH exEnv = 4"
  by (simp add: exEnv_def)

text \<open>
  C15. Invoking another domain: the call succeeds exactly when the invoking domain has the permission,
  the invoked domain exists and takes invocations, and the invocation stack has room. Then the task is
  in the invoked domain, and the stack has one more entry, with the domain and the address to return to.
  Otherwise the call returns \<open>-EINVAL\<close> and nothing has changed.
\<close>

theorem ipc_checked:
  assumes "kTickGetRunningTask s = Some t" and "dom_ok (INVOCATION_DEPTH E) (tdomain (tasks s t))"
    and "INVOCATION_DEPTH E < 2 ^ 32" and "curDomain (tdomain (tasks s t)) = Some i"
  shows "let r = kInvocationCtrlDoIpc E rip did s in
    if may_invoke E (ucast did) i s \<and> length (inv_stack (tdomain (tasks s t))) < INVOCATION_DEPTH E
    then fst r = 0 \<and> curDomain (tdomain (tasks (snd r) t)) = kDomainUniverseGet E (ucast did) s
      \<and> inv_stack (tdomain (tasks (snd r) t)) = inv_stack (tdomain (tasks s t)) @ [ipc_entry i rip]
    else r = (neg_errno EINVAL, s)"
proof -
  have st: "unat (invocationStackDepth (tdomain (tasks s t))) < 2 ^ 32 - 1"
    if "length (inv_stack (tdomain (tasks s t))) < INVOCATION_DEPTH E" using that assms(3) by simp
  show ?thesis
    unfolding kInvocationCtrlDoIpc_cases[OF assms(1,2,4)] using push_entry_stack[OF st] by (simp add: Let_def)
qed

theorem ipc_checked_witness:
  "curDomain (tdomain (tasks (snd (kInvocationCtrlDoIpc exEnv 0x1234 1 exIpc)) 12)) = Some 21"
  using ipc_checked[OF ex_ipc(1,2) _ ex_ipc(3), where rip = "0x1234" and did = 1] ex_ipc by (simp add: Let_def)

text \<open>
  C16. Returning from an invocation undoes it: the task is back in the domain that it came from with the
  same invocation stack, and it goes on at the address that it called from.
\<close>

theorem ipc_return_roundtrip:
  assumes "kTickGetRunningTask s = Some t" and "dom_ok (INVOCATION_DEPTH E) (tdomain (tasks s t))"
    and "INVOCATION_DEPTH E < 2 ^ 32" and "curDomain (tdomain (tasks s t)) = Some i"
    and "kInvocationCtrlDoIpc E rip did s = (0, s')"
  shows "\<exists>s''. kInvocationCtrlDoReturn s' = (0, s'') \<and> curDomain (tdomain (tasks s'' t)) = Some i
    \<and> inv_stack (tdomain (tasks s'' t)) = inv_stack (tdomain (tasks s t))
    \<and> trace s'' \<noteq> [] \<and> hd (trace s'') = EvSyscallSetReturnAddress rip"
proof -
  let ?d = "tdomain (tasks s t)"
  have ok: "length (inv_stack ?d) < INVOCATION_DEPTH E" and s': "s' = snd (kInvocationCtrlDoIpc E rip did s)"
    using assms(5) neg_errno_nonzero[of EINVAL] unfolding kInvocationCtrlDoIpc_cases[OF assms(1,2,4)]
    by (auto split: if_splits)
  have st: "unat (invocationStackDepth ?d) < 2 ^ 32 - 1" using ok assms(3) by simp
  obtain p where d': "tdomain (tasks s' t) = push_entry p (ipc_entry i rip) ?d"
      and m: "gTickMachines s' = gTickMachines s" "thisCpu s' = thisCpu s"
    using assms(5) neg_errno_nonzero[of EINVAL] unfolding s' kInvocationCtrlDoIpc_cases[OF assms(1,2,4)]
    by (auto split: if_splits)
  have run: "kTickGetRunningTask s' = Some t" using assms(1) m by (simp add: kTickGetRunningTask_def kTickGetMachine_def)
  show ?thesis
    using pop_push[OF st, of p "ipc_entry i rip"] push_entry_stack[OF st, of p "ipc_entry i rip"]
    unfolding kInvocationCtrlDoReturn_cases[OF run] Let_def d'
    by (simp add: d' prod_eq_iff)
qed

theorem ipc_return_roundtrip_witness:
  "fst (kInvocationCtrlDoReturn (snd (kInvocationCtrlDoIpc exEnv 0x1234 1 exIpc))) = 0"
proof -
  have "fst (kInvocationCtrlDoIpc exEnv 0x1234 1 exIpc) = 0"
    unfolding kInvocationCtrlDoIpc_cases[OF ex_ipc(1) ex_ipc(2) ex_ipc(3)] using ex_ipc by simp
  then show ?thesis
    using ipc_return_roundtrip[OF ex_ipc(1,2) _ ex_ipc(3), where rip = "0x1234" and did = 1]
    by (auto simp: prod_eq_iff)
qed

text \<open>
  C17. An exception in user mode is delivered to the task's own domain: if the domain has an entry point
  for its kind and the invocation stack has room, the entry is pushed with what the hardware reported and the
  task goes on there. Otherwise the task fails.
\<close>

theorem exception_delivered:
  assumes "kTickGetRunningTask s = Some t" and "dom_ok (INVOCATION_DEPTH E) (tdomain (tasks s t))"
    and "INVOCATION_DEPTH E < 2 ^ 32" and "curDomain (tdomain (tasks s t)) = Some d"
  shows "let s' = ia32eExceptionHandlerUser E v rip fa err s;
      ep = the (entry_point (exception_type v) (invocationInfo (domains s d)));
      e = \<lparr>invokingDomain = Some d, invType = exception_type v, returnAddress = rip,
        vmemFaultAddress = (if v = 14 then fa else 0), errorCode = err\<rparr>
    in if valid ep \<and> length (inv_stack (tdomain (tasks s t))) < INVOCATION_DEPTH E
      then curDomain (tdomain (tasks s' t)) = Some d \<and> inv_stack (tdomain (tasks s' t)) = inv_stack (tdomain (tasks s t)) @ [e]
        \<and> trace s' = EvExceptionSetReturnAddress (entry_pc ep) # trace s \<and> gTickMachines s' = gTickMachines s
      else s' = kTickSwitchRunningTask E K_TASK_STATE_FAILURE s"
proof -
  have le: "length (inv_stack (tdomain (tasks s t))) \<le> INVOCATION_DEPTH E" using assms(2) by (simp add: dom_ok_def)
  have st: "unat (invocationStackDepth (tdomain (tasks s t))) < 2 ^ 32 - 1"
    if "length (inv_stack (tdomain (tasks s t))) < INVOCATION_DEPTH E" using that assms(3) by simp
  have ty: "exception_type v \<noteq> K_INVOCATION_INVALID" "exception_type v \<noteq> K_INVOCATION_IPC"
    by (simp_all add: exception_type_def)
  then obtain ep where ep: "entry_point (exception_type v) (invocationInfo (domains s d)) = Some ep"
    by (cases "exception_type v") (simp_all add: entry_point_def)
  have h: "ia32eExceptionHandlerUser E v rip fa err s =
      (case kDomainPushInvocationEntry E (Some d) (exception_type v) rip (if v = 14 then fa else 0) err s of
         (Inr newPc, s) \<Rightarrow> ia32eCpuExceptionSetReturnAddress newPc s
       | (Inl e, s) \<Rightarrow> kTickSwitchRunningTask E K_TASK_STATE_FAILURE s)"
    by (simp add: ia32eExceptionHandlerUser_def kExceptionHandler_def deref_def assms(1,4) K_DYNAMIC_ASSERT_def)
  show ?thesis
    unfolding Let_def h kDomainPush_cases[OF assms(1,2)] ep
    using le push_entry_stack[OF st] ty assms(4)
    by (auto simp: ia32eCpuExceptionSetReturnAddress_def K_DYNAMIC_ASSERT_def fault_def)
qed

theorem exception_delivered_witness:
  "trace (ia32eExceptionHandlerUser exEnv 14 0x1234 0xdead 2 exIpc) = EvExceptionSetReturnAddress 0x2000 # trace exIpc"
  using exception_delivered[OF ex_ipc(1,2) _ ex_ipc(3), where v = 14 and rip = "0x1234" and fa = "0xdead" and err = 2] ex_ipc(4)
  by (simp add: Let_def exception_type_def entry_point_def exIpc_def exInfo_def exEntry_def zero_domain_def)

text \<open>
  C18. A system call with an unknown number, an unknown operation, a sleep that does not fit 32 bits, or an
  operation that its kind of task must not use returns \<open>-EINVAL\<close>, and the kernel has not changed.
\<close>

theorem syscall_refused:
  assumes "kTickGetRunningTask s = Some t"
    and "5 < sys \<or> sys = WORKHORSE_SYS_INVOCATION_CTRL \<and> 8 < ctrl \<or> sys = WORKHORSE_SYS_SCHED_CTRL \<and>
      (4 < ctrl \<or> ctrl = WORKHORSE_SCHED_CTRL_SLEEP_MS \<and> 2 ^ 32 \<le> val
       \<or> ctrl \<in> {WORKHORSE_SCHED_CTRL_YIELD, WORKHORSE_SCHED_CTRL_THROTTLE, WORKHORSE_SCHED_CTRL_SLEEP_MS}
           \<and> ttype (tasks s t) \<noteq> K_TASK_THREAD
       \<or> ctrl = WORKHORSE_SCHED_CTRL_LSR_DONE \<and> ttype (tasks s t) \<noteq> K_TASK_LSR
       \<or> ctrl = WORKHORSE_SCHED_CTRL_FAILURE \<and> ttype (tasks s t) \<notin> {K_TASK_THREAD, K_TASK_LSR})"
  shows "kSyscallHandler E g rip sys ctrl val s = (neg_errno EINVAL, s)"
proof -
  have n: "k < x \<Longrightarrow> x \<noteq> k" for x k :: u64 by auto
  have l: "val > 2 ^ 32 - 1" if "2 ^ 32 \<le> val" using that by (simp add: word_less_nat_alt word_le_nat_alt)
  show ?thesis
    using assms n[of 0] n[of 1] n[of 2] n[of 3] n[of 4] n[of 5] n[of 6] n[of 7] n[of 8] l
    by (elim disjE conjE insertE; simp add: kSyscallHandler_def kSysInvocationCtrl_def kSysSchedCtrl_def with_running_def
        sys_numbers word_less_nat_alt Let_def)
qed

theorem syscall_refused_witness:
  "kSyscallHandler exEnv False 0 WORKHORSE_SYS_SCHED_CTRL WORKHORSE_SCHED_CTRL_LSR_DONE 0 exIpc = (neg_errno EINVAL, exIpc)"
  using syscall_refused[OF ex_ipc(1), of WORKHORSE_SYS_SCHED_CTRL WORKHORSE_SCHED_CTRL_LSR_DONE 0 exEnv False 0]
  by (simp add: exIpc_def exTasks_def)


section \<open>Plugins\<close>

lemma thread_checked:
  assumes "\<not> gPluginsDone s"
  shows "let r = kPluginInitTaskThreadRr n E t p s; q = tasks (snd r) t in
    if kDomainUniverseGet E (thDomId p) s \<noteq> None \<and> cpuValid E (thCpuId p) \<and> kSchedTaskCanAdd E (thTaskId p) s
      \<and> thBudget p \<noteq> 0 \<and> ucast (prio (thParam p)) < n \<and> timesliceTicksRr (thParam p) \<noteq> 0 \<and> thTpr p < 15
    then fst r = Inr () \<and> kSchedTaskGet E (thTaskId p) (snd r) = Some t
      \<and> ttype q = K_TASK_THREAD \<and> tstate q = K_TASK_STATE_READY \<and> cpuId q = thCpuId p
      \<and> currentBudget (tick q) = thBudget p \<and> budget (tick q) = thBudget p \<and> period (tick q) = thPeriod p
      \<and> curDomain (tdomain q) = kDomainUniverseGet E (thDomId p) s \<and> invocationStackDepth (tdomain q) = 0
      \<and> (\<forall>u. u \<noteq> t \<longrightarrow> tasks (snd r) u = tasks s u)
    else r = (Inl EINVAL, s)"
proof -
  let ?ok = "kDomainUniverseGet E (thDomId p) s \<noteq> None \<and> cpuValid E (thCpuId p) \<and> kSchedTaskCanAdd E (thTaskId p) s
      \<and> thBudget p \<noteq> 0 \<and> ucast (prio (thParam p)) < n \<and> timesliceTicksRr (thParam p) \<noteq> 0 \<and> thTpr p < 15"
  note c = kPluginInitTaskThreadRr_cases[OF assms, of n E t p]
  show ?thesis
  proof (cases ?ok)
    case False
    then show ?thesis using c unfolding Let_def if_not_P[OF False] by simp
  next
    case True
    then obtain d where d: "kDomainUniverseGet E (thDomId p) s = Some d" by auto
    define s1 where "s1 = upd_task t (\<lambda>r. r\<lparr>threadTpr := (if thTpr p > 1 then thTpr p else 1)\<rparr>) s"
    have d1: "kDomainUniverseGet E (thDomId p) s1 = Some d" "kSchedTaskCanAdd E (thTaskId p) s1"
      using True d by (auto simp: s1_def kDomainUniverseGet_def kSchedTaskCanAdd_def split: if_splits)
    have t1: "u \<noteq> t \<Longrightarrow> tasks s1 u = tasks s u" for u by (simp add: s1_def)
    have e: "kPluginInitTaskThreadRr n E t p s = (Inr (), thread_init (envRr n E) setParamRr t p s1)"
      using c unfolding if_P[OF True] s1_def .
    show ?thesis
      unfolding Let_def if_P[OF True] e
      using thread_init_rr[OF d1, of n t] d d1(2) t1
      by (simp add: kSchedTaskGet_def kSchedTaskCanAdd_def thread_record_def zero_domain_def)
  qed
qed

lemma domain_checked:
  assumes "\<not> gPluginsDone s"
  shows "case kPluginInitDomain E pdpt pcid d p s of
      (Inl e, s') \<Rightarrow> e = EINVAL \<and> s' = s
    | (Inr _, s') \<Rightarrow> kDomainUniverseGet E (pdDomId p) s = None \<and> kDomainUniverseGet E (pdDomId p) s' = Some d
        \<and> invocationInfo (domains s' d) = pdInfo p \<and> entries_canonical s' d
        \<and> pml4BasePhys (pdArch p) AND 0xfff = 0 \<and> (\<forall>d'. d' \<noteq> d \<longrightarrow> domains s' d' = domains s d')"
proof -
  have as: "K_DYNAMIC_ASSERT (\<not> gPluginsDone s) s = s" using assms by (simp add: assert_holds)
  show ?thesis
  proof (cases "kDomainUniverseCanAdd E (pdDomId p) s")
    case False
    then show ?thesis by (simp add: kPluginInitDomain_def as)
  next
    case True
    show ?thesis
    proof (cases "ia32eCpuDomainInfoInit pdpt pcid (pdArch p) (pdInfo p)")
      case (Inl e)
      then have "e = EINVAL" by (auto simp: ia32eCpuDomainInfoInit_def Let_def split: if_splits option.splits)
      then show ?thesis using True Inl by (simp add: kPluginInitDomain_def as)
    next
      case (Inr a)
      let ?s1 = "s\<lparr>domains := (domains s)(d := (domains s d)\<lparr>invocationInfo := pdInfo p\<rparr>)\<rparr>"
      have can: "kDomainUniverseCanAdd E (pdDomId p) ?s1" using True by (simp add: kDomainUniverseCanAdd_def)
      have an: "canonical_entry (invocationIpc (pdInfo p))" "canonical_entry (invocationExceptionVmemFault (pdInfo p))"
          "canonical_entry (invocationExceptionIllegalOpcode (pdInfo p))" "canonical_entry (invocationExceptionAlignment (pdInfo p))"
          "canonical_entry (invocationExceptionDebug (pdInfo p))" "canonical_entry (invocationExceptionArithmetic (pdInfo p))"
          "canonical_entry (invocationExceptionOther (pdInfo p))" "pml4BasePhys (pdArch p) AND 0xfff = 0"
        using Inr unfolding ia32eCpuDomainInfoInit_def by (metis Inl_Inr_False)+
      have "kDomainUniverseGet E (pdDomId p) s = None"
        using True by (simp add: kDomainUniverseCanAdd_def kDomainUniverseGet_def)
      moreover have "snd (kDomainUniverseAdd E (pdDomId p) d ?s1) =
          ?s1\<lparr>domainTable := (domainTable s)(unat (pdDomId p) := Some d),
              domains := (domains ?s1)(d := (domains ?s1 d)\<lparr>domId := pdDomId p\<rparr>)\<rparr>"
        using can by (auto simp: kDomainUniverseAdd_def kDomainUniverseCanAdd_def)
      moreover note kDomainUniverseAdd_get(2)[OF can, of d]
      ultimately show ?thesis using True Inr an
        by (auto simp: kPluginInitDomain_def as Let_def entries_canonical_def entry_point_def canonical_entry_def
          split: kDomainInvocationType.splits)
    qed
  qed
qed

text \<open>
  C19. What a plugin asks for is checked. A request for a thread is accepted exactly when its domain exists, its CPU
  takes part, its number is free, its budget and its time slice are not zero, and its priorities are in range; the
  thread is then ready on its CPU, with a full budget, in its domain, under its number, and no other task has
  changed. A domain is accepted only with canonical entry points, aligned page tables and a free number. A request
  that is refused returns \<open>-EINVAL\<close> and changes nothing.
\<close>

theorem plugin_requests_checked:
  assumes "\<not> gPluginsDone s"
  shows "(let r = kPluginInitTaskThreadRr n E t p s; q = tasks (snd r) t in
        if kDomainUniverseGet E (thDomId p) s \<noteq> None \<and> cpuValid E (thCpuId p) \<and> kSchedTaskCanAdd E (thTaskId p) s
          \<and> thBudget p \<noteq> 0 \<and> ucast (prio (thParam p)) < n \<and> timesliceTicksRr (thParam p) \<noteq> 0 \<and> thTpr p < 15
        then fst r = Inr () \<and> kSchedTaskGet E (thTaskId p) (snd r) = Some t
          \<and> ttype q = K_TASK_THREAD \<and> tstate q = K_TASK_STATE_READY \<and> cpuId q = thCpuId p
          \<and> currentBudget (tick q) = thBudget p \<and> budget (tick q) = thBudget p \<and> period (tick q) = thPeriod p
          \<and> curDomain (tdomain q) = kDomainUniverseGet E (thDomId p) s \<and> invocationStackDepth (tdomain q) = 0
          \<and> (\<forall>u. u \<noteq> t \<longrightarrow> tasks (snd r) u = tasks s u)
        else r = (Inl EINVAL, s))
   \<and> (case kPluginInitDomain E pdpt pcid d p' s of
          (Inl e, s') \<Rightarrow> e = EINVAL \<and> s' = s
        | (Inr _, s') \<Rightarrow> kDomainUniverseGet E (pdDomId p') s = None \<and> kDomainUniverseGet E (pdDomId p') s' = Some d
            \<and> invocationInfo (domains s' d) = pdInfo p' \<and> entries_canonical s' d
            \<and> pml4BasePhys (pdArch p') AND 0xfff = 0 \<and> (\<forall>d'. d' \<noteq> d \<longrightarrow> domains s' d' = domains s d'))"
  by (rule conjI[OF thread_checked[OF assms] domain_checked[OF assms]])

theorem plugin_requests_checked_witness:
  "fst (kPluginInitTaskThreadRr 8 exEnv 10 (exThread \<lparr>timesliceTicksRr = 0, prio = 3\<rparr>) (exReady zeroRr)) = Inl EINVAL
   \<and> (case kPluginInitDomain exEnv 0x9000 None 1 exDomain (exReady zeroRr) of
      (Inl e, s') \<Rightarrow> e = EINVAL \<and> s' = exReady zeroRr
    | (Inr _, s') \<Rightarrow> entries_canonical s' 1)"
  using plugin_requests_checked[of "exReady zeroRr", where n = 8 and E = exEnv and t = 10 and d = 1 and pdpt = "0x9000"
      and pcid = None and p = "exThread \<lparr>timesliceTicksRr = 0, prio = 3\<rparr>" and p' = exDomain]
  by (auto simp: exThread_def exReady_def zero_state_def Let_def split: prod.splits sum.splits)

text \<open>For the witness: domain 0 exists and no thread does.\<close>

definition exTable :: "cyclicState kstate" where
  "exTable = (exReady zeroCyclic)\<lparr>domainTable := [0 \<mapsto> 1]\<rparr>"

text \<open>
  C20. With the cyclic policy the threads of a CPU never share a frame: a thread that is accepted asked for
  at least one frame of the table and only for free ones, and from then on they are taken.
\<close>

theorem plugin_frames_disjoint:
  assumes "kPluginInitTaskThreadCyclic n E t p s = (Inr (), s')"
  defines "taken \<equiv> {f. bm_test (frameBmps (pol s) (thCpuId p)) f}"
    and "wanted \<equiv> {f. f < unat n \<and> bm_test (frameBmp (thParam p)) f}"
  shows "wanted \<noteq> {} \<and> wanted \<inter> taken = {} \<and> {f. bm_test (frameBmps (pol s') (thCpuId p)) f} = taken \<union> wanted"
proof -
  let ?s = "K_DYNAMIC_ASSERT (\<not> gPluginsDone s) s"
  obtain claim where c: "admitCyclic n p ?s = Inr claim"
    using assms(1) by (auto simp: kPluginInitTaskThreadCyclic_def kPluginInitTaskThread_def Let_def split: if_splits sum.splits)
  obtain s1 where s1: "ia32eCpuThreadInfoInit t (thTpr p) ?s = (Inr (), s1)"
      and s': "s' = thread_init (envCyclic n E) setParamCyclic t p (claim s1)"
    using assms(1) c
    by (auto simp: kPluginInitTaskThreadCyclic_def kPluginInitTaskThread_def Let_def split: if_splits sum.splits prod.splits)
  have p1: "pol s1 = pol s" using s1 by (auto simp: ia32eCpuThreadInfoInit_def split: if_splits)
  note a = admitCyclic_ok[OF c]
  have "frameBmps (pol s') (thCpuId p) = claim_frames (frameBmp (thParam p)) (frameBmps (pol s) (thCpuId p)) n 0"
    unfolding s' thread_init_frames a(3) using p1 by simp
  then show ?thesis using a(1,2) by (auto simp: taken_def wanted_def claim_frames_spec)
qed

theorem plugin_frames_disjoint_witness:
  "\<exists>s'. kPluginInitTaskThreadCyclic 16 exEnv 10 (exThread \<lparr>frameBmp = (\<lambda>_. 5), timesliceTicksCyclic = 2\<rparr>) exTable = (Inr (), s')
    \<and> {f. bm_test (frameBmps (pol s') 0) f} = {f. f < 16 \<and> bm_test (\<lambda>_. 5) f}"
proof -
  let ?p = "exThread \<lparr>frameBmp = (\<lambda>_. 5), timesliceTicksCyclic = 2\<rparr>"
  have b: "bm_test (\<lambda>_. 5) 0" by (simp add: bm_test_bit)
  have f: "\<not> bitmapFfs (\<lambda>_. 5) 16 0 < 0"
    using bitmapFfs_none[of "\<lambda>_. 5" 16 0 0] bitmapFfs_step[OF refl, of "\<lambda>_. 5" 16 0] b by force
  have free: "frames_free (\<lambda>_. 5) (\<lambda>_. 0) 16 0" by (simp add: frames_free_spec bm_test_bit)
  have "fst (kPluginInitTaskThreadCyclic 16 exEnv 10 ?p exTable) = Inr ()"
    using f free by (simp add: kPluginInitTaskThreadCyclic_def kPluginInitTaskThread_def thread_args_ok_def admitCyclic_def
      ia32eCpuThreadInfoInit_def IA32E_MAX_VECTOR_PRIO_def exTable_def exThread_def exReady_def zero_state_def zeroCyclic_def
      kDomainUniverseGet_def kSchedTaskCanAdd_def ARRAY_LEN_kTasks_def envCyclic_def exEnv_def Let_def K_DYNAMIC_ASSERT_def
      word_le_nat_alt)
  then obtain s' where s': "kPluginInitTaskThreadCyclic 16 exEnv 10 ?p exTable = (Inr (), s')"
    by (metis prod.collapse)
  have e: "frameBmps (pol exTable) 0 = (\<lambda>_. 0)" "thCpuId ?p = 0" "frameBmp (thParam ?p) = (\<lambda>_. 5)"
    by (simp_all add: exTable_def exReady_def zero_state_def zeroCyclic_def exThread_def)
  show ?thesis
    using plugin_frames_disjoint[OF s'] s' unfolding e by (auto simp: bm_test_bit)
qed

section \<open>Virtual machines\<close>

text \<open>
  For the witnesses: the domains 20 and 21 are virtual machines with two virtual CPUs each. Thread 12 is
  virtual CPU 0 of domain 20, and thread 13 is its virtual CPU 1; 14 and 15 are those of domain 21.
\<close>

definition zeroEvent :: ia32eVtxVectoredEvent where
  "zeroEvent = \<lparr>evVector = 0, evType = IA32E_INTERRUPT_TYPE_EXTERNAL, evDeliverErrcode = False, evAdvance = False,
     evValid = False, evMode = IA32E_EMULATOR_64, evErrcode = 0\<rparr>"

definition exApic :: ia32eVtxX2apic where
  "exApic = \<lparr>waitForSipi = False, initPending = False, sipiPending = False, sipiVector = 0, nmiPending = False,
     latchedIrr = (\<lambda>_. 0), vmcsInitialized = True, bsp = True, poweredOn = True, apicBaseBsp = True, apicTpr = 2,
     tprSubclass = 0, apicBaseAddr = 0xfee00000, sivr = 0x1ff, irr = set_vector 0x61 (set_vector 0x52 (\<lambda>_. 0)), isr = (\<lambda>_. 0),
     receiverEsr = 0, pendingEsr = 0, esr = 0, icr = 0, lvtTImer = 0x10000, lvtTsr = 0x10000, lvtPmcr = 0x10000,
     lvtLint0 = 0x10000, lvtLint1 = 0x10000, lvtError = 0x10000, initCount = 0, dcr = 0\<rparr>"

definition exVtxCtx :: vtxCtx where
  "exVtxCtx = \<lparr>vmexitStoreVmentryLoadAreaData = [], signId = 0, lostEvent = zeroEvent, syntheticEvent = zeroEvent,
     pluginEvent = zeroEvent, x2apic = exApic\<rparr>"

definition exVm :: "unit vmstate" where
  "exVm = \<lparr>kern = exIpc, vtx = (\<lambda>_. exVtxCtx), vtxInfo = (\<lambda>t. \<lparr>vmcsPhys = 0, vcpuId = (if t = 12 \<or> t = 14 then 0 else 1)\<rparr>),
     vdom = (\<lambda>d. \<lparr>cr3 = 0, vm = True, vpid = 1, tripleFault = 0, numVcpus = 2,
       apicBus = (\<lambda>i. Some ((if d = 20 then 12 else 14) + i))\<rparr>),
     vmcs = (\<lambda>_ f. if f = GUEST_RFLAGS then 0x202 else 0),
     vregs = (\<lambda>_. \<lparr>cr2 = 0, dr0 = 0, dr1 = 0, dr2 = 0, dr3 = 0, dr6 = 0, regs = zero_regs\<rparr>),
     hostIf = True, stopped = False, vtrace = []\<rparr>"

definition exNoCallbacks :: "'p ia32eEmulatorCallbacks" where
  "exNoCallbacks = \<lparr>ia32eEmulatorInOutCallbackFn = None, ia32eEmulatorRdmsrCallbackFn = None,
     ia32eEmulatorWrmsrCallbackFn = None, ia32eEmulatorEptFaultCallbackFn = None, ia32eEmulatorEptMisconfigCallbackFn = None,
     ia32eEmulatorRegsResetCallbackFn = None, ia32eEmulatorX2apicIrrCallbackFn = True, ia32eEmulatorX2apicIsrCallbackFn = False,
     ia32eEmulatorX2apicEoiCallbackFn = False, ia32eEmulatorX2apicReadTmrCallbackFn = None\<rparr>"

definition exFlags :: cpuFlags where
  "exFlags = \<lparr>f_avx10 = False, f_lahf64 = True, f_lzcnt = True, f_prefetchw = True, f_nx = True, f_pg1Gb = True,
     f_l2LineSize = 64, f_wbnoinvd = False, f_pat = True, f_vpid = True, f_vme = True, f_de = True, f_umip = True,
     f_fsgsbase = True, f_pcid = True, f_smep = True, f_smap = True\<rparr>"

definition exVtx :: "'p vtxEnv" where
  "exVtx = \<lparr>kernelEnv = exEnv, getCpuIdCfg = False, VTX_TSD = False, VTX_ACCESS_DENIED_GP0 = True, VTX_FEATURE_VPID = True,
     vmwriteOk = (\<lambda>_. True), vmclearOk = (\<lambda>_. True), vmptrldOk = (\<lambda>_. True), ia32eRdtsc = 1000, ia32eRdmsr = (\<lambda>_. 0),
     ia32eCpuid = (\<lambda>_ _. (0, 0, 0, 0)), flags = exFlags, cpuVersion = 0x306c3, cpuSignId = 0, extFeaturesSubleafMax = 1,
     esigMax = 0x80000008, ia32eVmxPinbasedCtls = 0x48d, ia32eVmxProcbasedCtls = 0x48e, ia32eVmxExitCtls = 0x48f,
     ia32eVmxEntryCtls = 0x490, emulatorCallbacks = (\<lambda>_. exNoCallbacks)\<rparr>"

lemma ex_callbacks [simp]: "callbacks_ok exVtx"
  by (auto simp: callbacks_ok_def exVtx_def exNoCallbacks_def)

lemma ex_vmwrite [simp]: "vmwriteOk exVtx f"
  by (simp add: exVtx_def)

lemma ex_vm_ok [simp]: "vm_ok exVm" "\<not> stopped exVm"
  by (auto simp: vm_ok_def vtx_ok_def apic_ok_def exVm_def exVtxCtx_def exApic_def x2apic_divisor_def plugin_event_ok_def
      zeroEvent_def vectors_set)

text \<open>
  C21. Virtual CPUs are isolated: whatever a guest does and the plugins answer, a step of the emulator for
  one virtual CPU changes of any other one at most the latch of its APIC (what the others may send to it): not
  its registers, its VMCS, its pending events, or the rest of its APIC. It does not change the page tables of a
  virtual machine, and not who is on its APIC bus.
\<close>

theorem vm_isolated:
  assumes "callbacks_ok V" and "vm_ok s" and "vm_act V t s s'" and "u \<noteq> t"
  shows "vmcs s' u = vmcs s u \<and> vregs s' u = vregs s u \<and> vtxInfo s' = vtxInfo s
    \<and> (\<exists>a. vtx s' u = (vtx s u)\<lparr>x2apic := a\<rparr> \<and>
         a = (apic s u)\<lparr>nmiPending := nmiPending a, initPending := initPending a, sipiPending := sipiPending a,
           sipiVector := sipiVector a, latchedIrr := latchedIrr a, receiverEsr := receiverEsr a\<rparr>)
    \<and> (\<forall>d. apicBus (vdom s' d) = apicBus (vdom s d) \<and> numVcpus (vdom s' d) = numVcpus (vdom s d) \<and> cr3 (vdom s' d) = cr3 (vdom s d))"
proof -
  have "isolated t s s'" using vm_act_keeps[OF assms(3,1)] assms(2) by (simp add: keeps_def)
  then show ?thesis using assms(4) own_part_apic[of "vtx s' u" "vtx s u"] by (auto simp: isolated_def)
qed

theorem vm_isolated_witness:
  "vregs (snd (ia32eEmulatorDispatcher exVtx 12 exVm)) 13 = vregs exVm 13"
  using vm_isolated[OF ex_callbacks ex_vm_ok(1) act_exit, of 13 12] by simp

text \<open>
  C22. The virtual APICs stay well formed in every run of the emulator, whatever the guests do: no reserved vector
  (0 to 15) is ever latched, requested or in service, the task priority has four bits, and the divider of the
  timer has a divisor. So the assertions about them never fail.
\<close>

theorem vm_apics_ok:
  assumes "callbacks_ok V" and "vm_ok s" and "vm_run V s s'"
  shows "apicTpr (apic s' t) \<le> 15
    \<and> (\<forall>v \<in> vectors (latchedIrr (apic s' t)) \<union> vectors (irr (apic s' t)) \<union> vectors (isr (apic s' t)). 15 < v \<and> v < 256)
    \<and> snd (ia32eEmulatorX2apicGetTpr t s') = s'
    \<and> snd (ia32eEmulatorX2apicGetPpr t s') = s'
    \<and> snd (ia32eEmulatorX2apicCompressCounter count (ucast (dcr (apic s' t))) s') = s'
    \<and> snd (ia32eEmulatorX2apicDecompressCounter count (ucast (dcr (apic s' t))) s') = s'"
proof -
  have v: "vm_ok s'" by (rule vm_run_ok[OF assms(3,1,2)])
  then have a: "apic_ok (apic s' t)" by (rule vm_ok_apic)
  then show ?thesis
    using get_ppr(1)[OF v] v vectors_bound by (auto simp: apic_ok_def ia32eEmulatorX2apicCompressCounter_def
      ia32eEmulatorX2apicDecompressCounter_def split: option.splits)
qed

theorem vm_apics_ok_witness:
  "apicTpr (apic (snd (ia32eEmulatorDispatcher exVtx 12 exVm)) 12) \<le> 15"
  using vm_apics_ok[OF ex_callbacks ex_vm_ok(1) run_act[OF run_start act_exit], of 12 12] by simp

text \<open>
  C23. Injection is exact. If the event manager has injected nothing yet, a pending NMI goes to the guest when the
  guest can take it; otherwise the highest requested vector goes, if its class is above the priority of the
  processor and the guest takes interrupts; it moves from the requested to the serviced vectors. The windows
  through which the processor leaves the guest again are open exactly for what is still pending, and no
  assertion fails.
\<close>

theorem vm_injection_exact:
  assumes "vm_ok s" "\<not> stopped s" "\<And>f. vmwriteOk V f"
  shows "let a = apic s t; st = ucast (ia32eVmread t GUEST_INTERRUPTIBILITY_STATE s) :: u32; s' = em_inject V t injected s; a' = apic s' t in
     (if nmi_goes injected st a
      then ia32eVmread t CTRL_VMENTRY_INTERRUPT_INFO s' = 0x80000202 \<and> a' = a\<lparr>nmiPending := False\<rparr>
      else if interrupt_goes injected st (ia32eVmread t GUEST_RFLAGS s) a
      then ia32eVmread t CTRL_VMENTRY_INTERRUPT_INFO s' = 0x80000000 OR word_of_nat (Max (vectors (irr a)))
        \<and> vectors (irr a') = vectors (irr a) - {Max (vectors (irr a))}
        \<and> vectors (isr a') = insert (Max (vectors (irr a))) (vectors (isr a))
        \<and> nmiPending a' = nmiPending a
      else ia32eVmread t CTRL_VMENTRY_INTERRUPT_INFO s' = ia32eVmread t CTRL_VMENTRY_INTERRUPT_INFO s \<and> a' = a)
     \<and> (bit (ia32eVmread t CTRL_PROCBASED_CTLS s') 22 \<longleftrightarrow> nmiPending a')
     \<and> (bit (ia32eVmread t CTRL_PROCBASED_CTLS s') 2 \<longleftrightarrow> due_vector a' \<noteq> None)
     \<and> kern s' = kern s \<and> \<not> stopped s'"
proof -
  let ?st = "ucast (ia32eVmread t GUEST_INTERRUPTIBILITY_STATE s) :: u32" and ?fl = "ia32eVmread t GUEST_RFLAGS s"
  note e = em_inject_spec[OF assms, where t = t and injected = injected]
  have "interrupt_goes injected ?st ?fl (apic s t) \<Longrightarrow> \<not> nmi_goes injected ?st (apic s t)" unfolding interrupt_goes_def by blast
  then show ?thesis using e injected_vectors(1,2)[of injected ?st ?fl "apic s t"]
    unfolding Let_def by (simp add: injected_apic_def split: if_split)
qed

theorem vm_injection_exact_witness:
  "ia32eVmread 12 CTRL_VMENTRY_INTERRUPT_INFO (em_inject exVtx 12 False exVm) = 0x80000061"
proof -
  have d: "due_vector (apic exVm 12) \<noteq> None" "Max (vectors (irr (apic exVm 12))) = 0x61"
    by (simp_all add: due_vector_def apic_priority_def apic_enabled_def exVm_def exVtxCtx_def exApic_def vectors_set)
  have f: "nmiPending (apic exVm 12) = False" "ia32eVmread 12 GUEST_RFLAGS exVm AND 0x200 \<noteq> 0"
      "ucast (ia32eVmread 12 GUEST_INTERRUPTIBILITY_STATE exVm) AND 3 = (0::u32)"
    by (simp_all add: exVm_def exVtxCtx_def exApic_def)
  show ?thesis using vm_injection_exact[OF ex_vm_ok, where V = exVtx and t = 12 and injected = False, OF ex_vmwrite] d f
    by (simp add: Let_def nmi_goes_def interrupt_goes_def)
qed

text \<open>
  C24. What others have sent is taken over exactly: all latched vectors become requested and none stays in the latch,
  the requested ones stay requested, the plugin is called for each new one in ascending order, no assertion fails,
  and nothing else changes.
\<close>

theorem vm_latched_requested:
  assumes "vm_ok s" "\<not> stopped s" "hostIf s"
  shows "let new = vectors (latchedIrr (apic s t)); s' = ia32eEmulatorX2apicCheckLatchedIrr V t s in
     vectors (irr (apic s' t)) = vectors (irr (apic s t)) \<union> new
     \<and> vectors (latchedIrr (apic s' t)) = {} \<and> isr (apic s' t) = isr (apic s t)
     \<and> vtrace s' = (if ia32eEmulatorX2apicIrrCallbackFn (emulatorCallbacks V t)
          then rev (map (\<lambda>v. EvX2apicIrr t (word_of_nat v)) (sorted_list_of_set new)) else []) @ vtrace s
     \<and> s' = s\<lparr>vtx := (vtx s)(t := vtx s' t), vtrace := vtrace s'\<rparr>"
  using latched_effect[OF assms(2,1,3), of t V] by (auto simp: irr_calls_def Let_def)

theorem vm_latched_requested_witness:
  "vectors (irr (apic (ia32eEmulatorX2apicCheckLatchedIrr exVtx 12 exVm) 12)) = {0x52, 0x61}"
proof -
  have "vectors (irr (apic exVm 12)) = {0x52, 0x61}" "vectors (latchedIrr (apic exVm 12)) = {}" "hostIf exVm"
    by (auto simp: exVm_def exVtxCtx_def exApic_def vectors_set)
  then show ?thesis using vm_latched_requested[OF ex_vm_ok, of 12 exVtx] by (simp add: Let_def)
qed

text \<open>
  C25. An interrupt is retired by the guest: when an interrupt was injected, and the guest then writes the EOI
  register, the serviced vectors and the priority of the processor are what they were before the interrupt, and its
  request is gone. So of nested interrupts the one that came last is retired first.
\<close>

theorem vm_interrupt_retired:
  assumes "vm_ok s" "\<not> stopped s" "\<And>f. vmwriteOk V f"
    and "interrupt_goes False (ucast (ia32eVmread t GUEST_INTERRUPTIBILITY_STATE s)) (ia32eVmread t GUEST_RFLAGS s) (apic s t)"
    and "vtx s1 = vtx (em_inject V t False s)" "\<not> stopped s1"
    and "ucast (rcx (regs (vregs s1 t))) = IA32E_X2APIC_EOI" "wrmsr_operand t s1 = 0"
  shows "let s2 = ia32eEmulatorWrmsr V t s1 in
     vectors (isr (apic s2 t)) = vectors (isr (apic s t))
     \<and> vectors (irr (apic s2 t)) = vectors (irr (apic s t)) - {Max (vectors (irr (apic s t)))}
     \<and> apic_priority (apic s2 t) = apic_priority (apic s t) \<and> kern s2 = kern s1"
  using interrupt_retired[OF assms] by (simp add: Let_def)

theorem vm_interrupt_retired_witness:
  "vectors (isr (apic (ia32eEmulatorWrmsr exVtx 12 ((em_inject exVtx 12 False exVm)\<lparr>vregs :=
     (\<lambda>_. \<lparr>cr2 = 0, dr0 = 0, dr1 = 0, dr2 = 0, dr3 = 0, dr6 = 0, regs = zero_regs\<lparr>rcx := 0x80b\<rparr>\<rparr>)\<rparr>)) 12)) = {}"
proof -
  let ?s1 = "(em_inject exVtx 12 False exVm)\<lparr>vregs :=
     (\<lambda>_. \<lparr>cr2 = 0, dr0 = 0, dr1 = 0, dr2 = 0, dr3 = 0, dr6 = 0, regs = zero_regs\<lparr>rcx := 0x80b\<rparr>\<rparr>)\<rparr>"
  have d: "due_vector (apic exVm 12) \<noteq> None"
    by (simp add: due_vector_def apic_priority_def apic_enabled_def exVm_def exVtxCtx_def exApic_def vectors_set)
  then have g: "interrupt_goes False (ucast (ia32eVmread 12 GUEST_INTERRUPTIBILITY_STATE exVm)) (ia32eVmread 12 GUEST_RFLAGS exVm) (apic exVm 12)"
    by (simp add: interrupt_goes_def nmi_goes_def exVm_def exVtxCtx_def exApic_def)
  have s: "\<not> stopped (em_inject exVtx 12 False exVm)" using em_inject_spec(6)[OF ex_vm_ok, of exVtx 12 False] by simp
  have i: "vectors (isr (apic exVm 12)) = {}" by (simp add: exVm_def exVtxCtx_def exApic_def)
  show ?thesis
    using vm_interrupt_retired[OF ex_vm_ok ex_vmwrite g, of ?s1] s i by (simp add: wrmsr_operand_def zero_regs_def Let_def)
qed

text \<open>
  C26. A command of a guest to its interrupt command register reaches exactly the virtual CPUs that it addresses,
  by number, by the bits of a logical destination, or by a shorthand, and each of them once: it latches the
  vector there (if that APIC is enabled), an NMI, or a request to start or to reset. An ordinary interrupt with a
  reserved vector (0 to 15) is accepted and delivered to nobody: no APIC latches it, and the error flags of the
  sender (unless it and all addressed APICs are disabled, or none is addressed) and of the enabled receivers other
  than the sender say so. All other APICs stay as they are. A command with reserved bits or a mode that does not
  exist is refused and changes nothing.
\<close>

theorem vm_icr_addresses:
  assumes "on_bus t d s"
  shows "let r = ia32eEmulatorX2apicHandleIcrWrite t val s; s' = snd r; n = unat (numVcpus (vdom s d)); v = icr_vector val;
      to = (if icr_mode val = IA32E_DM_SMI then {} else addressed val n (unat (vcpuId (vtxInfo s t))));
      R = {x. Some x \<in> apicBus (vdom s d) ` to}; ap = (\<lambda>x. if x = t then (apic s t)\<lparr>icr := val\<rparr> else apic s x) in
     (if val AND 0xfff33000 \<noteq> 0 \<or> icr_mode val \<in> {1, 3, 7} then r = (False, s)
      else fst r \<and> icr (apic s' t) = val \<and> kern s' = kern s
        \<and> (\<forall>x. apic s' x =
             (if icr_mode val = IA32E_DM_NORMAL \<and> v \<le> 15
              then (if x = t \<and> (\<exists>y \<in> R. apic_enabled (apic s y) \<or> apic_enabled (apic s t))
                    then (ap x)\<lparr>receiverEsr := receiverEsr (ap x) OR IA32E_XAPIC_ESR_SEND_ILLEGAL_MASK\<rparr>
                    else if x \<noteq> t \<and> x \<in> R \<and> apic_enabled (apic s x)
                    then (ap x)\<lparr>receiverEsr := receiverEsr (ap x) OR IA32E_XAPIC_ESR_RECV_ILLEGAL_MASK\<rparr>
                    else ap x)
              else if x \<in> R then received (icr_mode val) v (x = t) (ap x) else ap x)))"
proof -
  let ?ap = "\<lambda>x. if x = t then (apic s t)\<lparr>icr := val\<rparr> else apic s x"
  let ?to = "if icr_mode val = IA32E_DM_SMI then {} else addressed val (unat (numVcpus (vdom s d))) (unat (vcpuId (vtxInfo s t)))"
  let ?s1 = "s\<lparr>vtx := (vtx s)(t := (vtx s t)\<lparr>x2apic := (apic s t)\<lparr>icr := val\<rparr>\<rparr>)\<rparr>"
  have ap: "apic ?s1 = ?ap" by (simp add: fun_eq_iff)
  have en: "apic_enabled (?ap x) = apic_enabled (apic s x)" for x by (simp add: apic_enabled_def)
  have R: "on_numbers d ?to ?s1 = {x. Some x \<in> apicBus (vdom s d) ` ?to}" by (simp add: on_numbers_def)
  note w = icr_write[OF assms, of val]
  show ?thesis
  proof (cases "val AND 0xfff33000 \<noteq> 0 \<or> icr_mode val \<in> {1, 3, 7}")
    case True
    then show ?thesis using w by simp
  next
    case False
    then have r: "ia32eEmulatorX2apicHandleIcrWrite t val s = (True, broadcast t d (icr_mode val) (icr_vector val) ?to ?s1)"
      using w by simp
    have "icr (delivered t dm v R ?ap t) = val" for dm v R
      by (simp add: delivered_def send_error_def received_icr)
    then show ?thesis unfolding Let_def r if_not_P[OF False] snd_conv broadcast_simps ap R delivered_def illegal_def send_error_def en
      by (auto simp: esr_flagged_def)
  qed
qed

lemma ex_on_bus [simp]: "on_bus 12 20 exVm"
  by (auto simp: on_bus_def exVm_def exIpc_def zero_domain_def inj_on_def)

theorem vm_icr_addresses_witness:
  "apic (snd (ia32eEmulatorX2apicHandleIcrWrite 12 0x00000001000000a0 exVm)) 13 = received 0 0xa0 False (apic exVm 13)"
proof -
  have m: "icr_mode 0x00000001000000a0 = 0" "icr_vector 0x00000001000000a0 = 0xa0" by (simp_all add: icr_mode_def icr_vector_def)
  have n: "unat (numVcpus (vdom exVm 20)) = 2" "apicBus (vdom exVm 20) 1 = Some 13" by (simp_all add: exVm_def)
  have "1 \<in> addressed 0x00000001000000a0 2 (unat (vcpuId (vtxInfo exVm 12)))"
    by (simp add: addressed_def icr_shorthand_def icr_logical_def icr_dest_def)
  then have "Some 13 \<in> apicBus (vdom exVm 20) ` addressed 0x00000001000000a0 2 (unat (vcpuId (vtxInfo exVm 12)))"
    using n(2) by (metis imageI)
  then show ?thesis using vm_icr_addresses[OF ex_on_bus, of "0x00000001000000a0"] m n by (simp add: Let_def)
qed

text \<open>
  C27. The router for messages between virtual machines keeps to the authority of the domains: it accepts a message
  only if the sender's domain may invoke the receiving domain, that domain is a virtual machine and has a
  virtual CPU with that number; then it latches the vector or the NMI there and changes nothing else. It refuses
  every other message and changes nothing.
\<close>

theorem vm_router_authority:
  assumes "\<not> stopped s" "hostIf s" "curDom s t = Some send"
    and "bus_ok s"
  shows "let r = ia32eEmulatorIpiRouter V t val s; did = ucast (val AND 0xffffffff) :: u32; dest = ucast (drop_bit 32 val AND 0xff) :: u8;
      vector = ucast (drop_bit 40 val AND 0xff) :: u8; nmi = (drop_bit 48 val AND 1 \<noteq> 0) in
     (if fst r
      then \<exists>recv x. kDomainUniverseGet (kernelEnv V) did (kern s) = Some recv \<and> vm (vdom s recv)
        \<and> bm_test (invokePermMap (invocationInfo (domains (kern s) send))) (unat did)
        \<and> dest < numVcpus (vdom s recv) \<and> apicBus (vdom s recv) (unat dest) = Some x \<and> (nmi \<or> vector > 15)
        \<and> snd r = s\<lparr>vtx := (vtx s)(x := (vtx s x)\<lparr>x2apic := received (if nmi then IA32E_DM_NMI else IA32E_DM_NORMAL) vector False (apic s x)\<rparr>)\<rparr>
      else snd r = s)"
proof -
  have "curDom s t \<noteq> None" using assms(3) by simp
  from ipi_router[OF assms(1,2) this bus_complete[OF assms(4)], of V val] show ?thesis
    using assms(3) unfolding Let_def by (auto simp: router_target_def Let_def split: option.splits if_splits)
qed

lemma ex_bus: "bus_ok exVm"
  by (auto simp: bus_ok_def exVm_def less_2_cases_iff)

theorem vm_router_authority_witness:
  "snd (ia32eEmulatorIpiRouter exVtx 12 0x0000900000000008 exVm) = exVm"
proof -
  have "kDomainUniverseGet (kernelEnv exVtx) 8 (kern exVm) = None"
    by (simp add: kDomainUniverseGet_def exVtx_def exEnv_def)
  then have "\<not> fst (ia32eEmulatorIpiRouter exVtx 12 0x0000900000000008 exVm)"
    by (simp add: ia32eEmulatorIpiRouter_def Let_def)
  then show ?thesis
    using vm_router_authority[OF _ _ _ ex_bus, of 12 20 exVtx "0x0000900000000008"]
    by (simp add: exVm_def exIpc_def zero_domain_def Let_def)
qed

text \<open>
  C28. The timer of a guest is exact in 32 bits. When it is started with a count, it holds the count in units of its
  divider. After it has counted down, the guest reads the remaining units times the divisor, without wrap and
  never more than the count it has written; and when it changes the divider while the timer runs, it reads no more
  than before, and less only by a part of one unit.
\<close>

theorem vm_timer_exact:
  fixes c :: u32
  assumes "\<not> stopped s" "\<And>f. vmwriteOk V f" "initCount (apic s t) \<noteq> 0" "x2apic_divisor (ucast (dcr (apic s t))) = Some k"
    and "vtx s2 = vtx s" "\<not> stopped s2" "timer_running t s2"
    and "ucast (ia32eVmread t GUEST_VMX_PREEMPTION_TIMER_VALUE s2) = c"
      "c \<le> ucast (ia32eVmread t GUEST_VMX_PREEMPTION_TIMER_VALUE (ia32eEmulatorX2apicResetCounter V t s))"
    and "x2apic_divisor (ucast d) = Some k'" "d \<noteq> dcr (apic s t)"
  shows "let s1 = ia32eEmulatorX2apicResetCounter V t s; r2 = ia32eEmulatorX2apicReadCounter t s2;
      s3 = ia32eEmulatorX2apicSetDcr V t d s2; r3 = ia32eEmulatorX2apicReadCounter t s3 in
     timer_running t s1 \<and> kern s1 = kern s
     \<and> ucast (ia32eVmread t GUEST_VMX_PREEMPTION_TIMER_VALUE s1) = initCount (apic s t) div k
     \<and> snd r2 = s2 \<and> unat (fst r2) = unat c * unat k \<and> fst r2 \<le> initCount (apic s t)
     \<and> timer_running t s3 \<and> kern s3 = kern s2
     \<and> snd r3 = s3 \<and> fst r3 \<le> fst r2 \<and> unat (fst r2) < unat (fst r3) + unat k'"
proof -
  let ?s1 = "ia32eEmulatorX2apicResetCounter V t s" and ?s3 = "ia32eEmulatorX2apicSetDcr V t d s2"
  have u: "(ucast (ucast w :: u64) :: u32) = w" for w :: u32 by (rule bit_word_eqI) (simp add: bit_simps)
  note r = reset_counter_effect[OF assms(1,2,4,3)]
  have f: "ucast (ia32eVmread t GUEST_VMX_PREEMPTION_TIMER_VALUE ?s1) = initCount (apic s t) div k" unfolding r(2) u ..
  have k2: "x2apic_divisor (ucast (dcr (apic s2 t))) = Some k" "d \<noteq> dcr (apic s2 t)" using assms(4,5,11) by simp_all
  note e = set_dcr_effect[OF assms(6,2,7) k2(1) assms(10) k2(2)]
  have r2: "ia32eEmulatorX2apicReadCounter t s2 = (c * k, s2)" using read_counter_effect[OF assms(7) k2(1)] assms(8) by simp
  have k3: "x2apic_divisor (ucast (dcr (apic ?s3 t))) = Some k'" using e(2) assms(10) by simp
  have r3: "ia32eEmulatorX2apicReadCounter t ?s3 = ((c * k) div k' * k', ?s3)"
    using read_counter_effect[OF e(1) k3] unfolding e(5) u assms(8) .
  have "c \<le> initCount (apic s t) div k" using assms(9) unfolding f .
  note q = timer_reads[OF this divisor_pos[OF assms(4)] divisor_pos[OF assms(10)]]
  show ?thesis unfolding Let_def r2 r3 using r(1,4) f e(1,3) q by (simp add: word_le_nat_alt)
qed

theorem vm_timer_exact_witness:
  "let s = exVm\<lparr>vtx := (\<lambda>_. exVtxCtx\<lparr>x2apic := exApic\<lparr>initCount := 1001\<rparr>\<rparr>)\<rparr>
   in fst (ia32eEmulatorX2apicReadCounter 12 (ia32eEmulatorX2apicResetCounter exVtx 12 s)) \<le> 1001"
proof -
  let ?s = "exVm\<lparr>vtx := (\<lambda>_. exVtxCtx\<lparr>x2apic := exApic\<lparr>initCount := 1001\<rparr>\<rparr>)\<rparr>"
  let ?s1 = "ia32eEmulatorX2apicResetCounter exVtx 12 ?s"
  have s: "\<not> stopped ?s" "initCount (apic ?s 12) = 1001" "x2apic_divisor (ucast (dcr (apic ?s 12))) = Some 2"
      "x2apic_divisor (ucast (3 :: u8)) = Some 16" "3 \<noteq> dcr (apic ?s 12)"
    by (simp_all add: exVm_def exVtxCtx_def exApic_def x2apic_divisor_def)
  note r = reset_counter_effect[OF s(1) ex_vmwrite s(3)]
  show ?thesis
    using vm_timer_exact[OF s(1) ex_vmwrite _ s(3) r(3,5,1) refl order_refl s(4,5)] unfolding Let_def s(2) by simp
qed

text \<open>
  C29. A guest reads back what it has written to a register of its APIC, its base or the microcode signature, whatever
  value the write accepts. Of the time stamp counter it reads the value less the offset that the write replaced.
\<close>

theorem vm_msr_reads_back:
  assumes "vm_ok s" "\<not> stopped s" "hostIf s" "\<And>f. vmwriteOk V f"
    and "m \<in> insert IA32E_TSC readback_msrs" "m = IA32E_TSC \<Longrightarrow> \<not> VTX_TSD V"
    and "wrmsr_effect V t m val s = (Some True, s')"
  shows "fst (rdmsr_value V t m s') = Some (if m = IA32E_TSC then val - ia32eVmread t CTRL_TSC_OFFSET s else val)"
proof (cases "m = IA32E_TSC")
  case True
  then show ?thesis using tsc_reads_back[OF assms(2,4) assms(6)[OF True]] assms(7) by simp
next
  case False
  then show ?thesis using msr_reads_back[OF assms(1-4) _ assms(7)] assms(5) by simp
qed

theorem vm_msr_reads_back_witness:
  "fst (rdmsr_value exVtx 12 IA32E_X2APIC_TPR (snd (wrmsr_effect exVtx 12 IA32E_X2APIC_TPR 0x73 exVm))) = Some 0x73"
proof -
  have "fst (wrmsr_effect exVtx 12 IA32E_X2APIC_TPR 0x73 exVm) = Some True"
    by (simp add: wrmsr_effect_def exVm_def exVtxCtx_def exApic_def)
  then have w: "wrmsr_effect exVtx 12 IA32E_X2APIC_TPR 0x73 exVm = (Some True, snd (wrmsr_effect exVtx 12 IA32E_X2APIC_TPR 0x73 exVm))"
    by (simp add: prod_eq_iff)
  have "hostIf exVm" by (simp add: exVm_def)
  then show ?thesis
    using vm_msr_reads_back[OF ex_vm_ok _ ex_vmwrite _ _ w] by (simp add: readback_msrs_def exVtx_def)
qed

text \<open>
  C30. A guest can set its control register \<open>CR0\<close> only to values that the processor allows: no reserved bits, paging only
  with protection, no write-through without disabled caching, in 64 bit mode with paging; numeric errors stay enabled,
  and neither the protection is switched off under paging, nor the paging under process identifiers.
\<close>

theorem vm_cr0_legal:
  assumes "ia32eVmread t GUEST_CR0 (ia32eEmulatorCrAccess V t s) \<noteq> ia32eVmread t GUEST_CR0 s"
  defines "old \<equiv> ia32eVmread t GUEST_CR0 s" and "new \<equiv> ia32eVmread t GUEST_CR0 (ia32eEmulatorCrAccess V t s)"
  shows "cr0_legal (ia32eEmulatorRunningTaskMode t s = IA32E_EMULATOR_64) new \<and> bit new 5
    \<and> (bit old 31 \<longrightarrow> bit new 0) \<and> (ia32eVmread t GUEST_CR4 s AND IA32E_CR4_PCIDE_MASK \<noteq> 0 \<longrightarrow> bit new 31)
    \<and> ia32eEmulatorRunningTaskMode t s \<noteq> IA32E_EMULATOR_V8086"
proof -
  note c = cr_access_cr0[OF assms(1)]
  have n: "(IA32E_CR0_NE_MASK :: u64) = push_bit 5 1" by simp
  have "bit (x OR IA32E_CR0_NE_MASK) 5" for x :: u64 unfolding n by (simp add: bit_simps del: push_bit_of_1)
  then show ?thesis using validate_legal[OF conjunct1[OF c]] c unfolding old_def new_def by simp
qed

theorem vm_cr0_legal_witness:
  "let s = exVm\<lparr>vregs := (\<lambda>_. \<lparr>cr2 = 0, dr0 = 0, dr1 = 0, dr2 = 0, dr3 = 0, dr6 = 0, regs = zero_regs\<lparr>rax := 0x80000033\<rparr>\<rparr>)\<rparr>
   in bit (ia32eVmread 12 GUEST_CR0 (ia32eEmulatorCrAccess exVtx 12 s)) 5"
proof -
  let ?s = "exVm\<lparr>vregs := (\<lambda>_. \<lparr>cr2 = 0, dr0 = 0, dr1 = 0, dr2 = 0, dr3 = 0, dr6 = 0, regs = zero_regs\<lparr>rax := 0x80000033\<rparr>\<rparr>)\<rparr>"
  have "ia32eVmread 12 GUEST_CR0 (ia32eEmulatorCrAccess exVtx 12 ?s) \<noteq> ia32eVmread 12 GUEST_CR0 ?s"
    by (simp add: ia32eEmulatorCrAccess_def exVm_def exVtx_def zero_regs_def qual_gpr_def ia32eEmulatorReadGpr_def
        ia32eEmulatorValidateCr0_def exVtxCtx_def zeroEvent_def Let_def ia32eEmulatorQueueAdvance_def
        ia32eEmulatorQueueEvent_def ia32eVmwriteSafe_def)
  from vm_cr0_legal[OF this] show ?thesis by (simp add: Let_def)
qed


section \<open>The set-up of virtual machines and CPUs\<close>

text \<open>
  Before the plugins run: the tables are empty but for the idle tasks, which have no domain, the objects of the
  plugins are zero, and \<open>ia32eGlobalVtxInit\<close> has set the counter of the identifiers to 1.
\<close>

definition before_setup :: "'p vtxSetup \<Rightarrow> bool" where
  "before_setup S \<longleftrightarrow> \<not> stopped (vmS S) \<and> (\<forall>t. vtx (vmS S) t = zeroVtxCtx)
     \<and> (\<forall>d. numVcpus (vdom (vmS S) d) = 0) \<and> domainTable (kern (vmS S)) = Map.empty
     \<and> (\<forall>t \<in> ran (kTasks (kern (vmS S))). curDom (vmS S) t = None) \<and> vpidCtr (glob S) = 1"

lemma before_setup_ok: "before_setup S \<Longrightarrow> setup_ok E b S"
  by (auto simp: before_setup_def setup_ok_def vm_ok_def zero_vtx_ok bus_ok_def tasks_placed_def vpids_ok_def)

text \<open>
  C31. With the round robin policy (the default), whatever plugins ask for, the virtual machines that they leave behind are complete, and stay so while the
  guests run: the bus of each machine has no gaps, every known task of a virtual machine is on its bus under its own
  number, and machines have identifiers that differ from each other and from that of the host. So what the
  emulator relies on holds for every virtual CPU.
\<close>

theorem vm_setup_complete:
  assumes "before_setup S0" and "setup_run (envRr n E) b (admitRr m) setParamRr S0 S" and "KMAX_DOMAINS (envRr n E) < 65535"
    and "callbacks_ok V" and "vm_run V (vmS S) s"
  shows "vm_ok s \<and> bus_ok s
    \<and> (\<forall>t d. t \<in> ran (kTasks (kern (vmS S))) \<and> curDom (vmS S) t = Some d \<and> vm (vdom (vmS S) d) \<longrightarrow> registered t d s)
    \<and> (b \<and> vpidCapableExists (glob S) \<longrightarrow>
        (let V = {d \<in> ran (domainTable (kern (vmS S))). vm (vdom (vmS S) d)}
         in (\<forall>d \<in> V. vpid (vdom (vmS S) d) \<noteq> 0) \<and> inj_on (\<lambda>d. vpid (vdom (vmS S) d)) V))"
proof -
  have ok: "setup_ok (envRr n E) b S" by (rule rr_setup.setup_run_ok[OF assms(2) before_setup_ok[OF assms(1)] assms(3)])
  then have v: "vm_ok (vmS S)" "bus_ok (vmS S)" "tasks_placed (vmS S)" by (simp_all add: setup_ok_def)
  have "\<forall>d \<in> {d \<in> ran (domainTable (kern (vmS S))). vm (vdom (vmS S) d)}. vpid (vdom (vmS S) d) \<noteq> 0"
    if "vpids_ok (envRr n E) (glob S) (vmS S)" using that by (fastforce simp: vpids_ok_def Let_def)
  then show ?thesis
    using vm_run_bus[OF assms(5,4) v(1,2)] vm_run_ok[OF assms(5,4) v(1)] v(3) ok
    by (auto simp: tasks_placed_def setup_ok_def vpids_ok_def Let_def)
qed

definition exSetup :: "rrState vtxSetup" where
  "exSetup = \<lparr>vmS = \<lparr>kern = zero_state zeroRr exNodes exDomains 0, vtx = (\<lambda>_. zeroVtxCtx), vtxInfo = (\<lambda>_. \<lparr>vmcsPhys = 0, vcpuId = 0\<rparr>),
       vdom = (\<lambda>_. \<lparr>cr3 = 0, vm = False, vpid = 0, tripleFault = 0, numVcpus = 0, apicBus = (\<lambda>_. None)\<rparr>), vmcs = (\<lambda>_ _. 0),
       vregs = (\<lambda>_. \<lparr>cr2 = 0, dr0 = 0, dr1 = 0, dr2 = 0, dr3 = 0, dr6 = 0, regs = zero_regs\<rparr>),
       hostIf = True, stopped = False, vtrace = []\<rparr>,
     glob = \<lparr>vcpuCapableExists = True, vpidCapableExists = True, allEptAd = True, vpidCtr = 1, pcidCtr = None, vcpuCapable = (\<lambda>_. True)\<rparr>\<rparr>"

definition exVmDomain :: kPluginDomainParam where
  "exVmDomain = \<lparr>pdDomId = 2, pdInfo = exInfo\<lparr>invocationIpc := \<lparr>entry_pc = 0, valid = False\<rparr>\<rparr>,
     pdArch = \<lparr>pml4BasePhys = 0x5000, pml4BaseVirt = 0x6000, pml4Entry511 = 0\<rparr>\<rparr>"

definition exVcpu :: "kSchedParamRr kPluginTaskThreadParam" where
  "exVcpu = \<lparr>thCpuId = 0, thDomId = 2, thTaskId = 1, thBudget = 3, thPeriod = 9,
     thParam = \<lparr>timesliceTicksRr = 5, prio = 2\<rparr>, thTpr = 4, thCallbacks = exCallbacks\<rparr>"

text \<open>Two requests of a plugin: domain 20 is a virtual machine, thread 12 its first virtual CPU.\<close>

definition exSetup1 :: "rrState vtxSetup" where
  "exSetup1 = snd (kPluginInitDomainVtx (envRr 8 exEnv) True 0x9000 True 20 exVmDomain exSetup)"

definition exSetup2 :: "rrState vtxSetup" where
  "exSetup2 = snd (kPluginInitTaskThreadVtx (envRr 8 exEnv) (admitRr 8) setParamRr 12 exVcpu
     \<lparr>vmcsVirtParam = 0x8000, vmcsPhysParam = 0x8000\<rparr> exSetup1)"

lemma ex_setup_run: "setup_run (envRr 8 exEnv) True (admitRr 8) setParamRr exSetup exSetup2"
proof -
  have "setup_run (envRr 8 exEnv) True (admitRr 8) setParamRr exSetup exSetup1"
    unfolding exSetup1_def by (rule setup_domain[OF setup_start]) (simp_all add: exSetup_def zero_state_def)
  moreover have "12 \<notin> ran (kTasks (kern (vmS exSetup1)))"
    by (simp add: exSetup1_def exSetup_def zero_state_def kPluginInitDomainVtx_def ia32eCpuDomainInfoInitVtx_def
        ia32eCpuVtxDomainInfoInit_def kDomainUniverseCanAdd_def kDomainUniverseAdd_def exVmDomain_def exInfo_def Let_def)
  ultimately show ?thesis unfolding exSetup2_def by (rule setup_thread)
qed

lemma ex_setup1: "kTasks (kern (vmS exSetup1)) = Map.empty"
    "domainTable (kern (vmS exSetup1)) = [2 \<mapsto> 20]" "gPluginsDone (kern (vmS exSetup1)) = False" "stopped (vmS exSetup1) = False"
    "vm (vdom (vmS exSetup1) 20)" "numVcpus (vdom (vmS exSetup1) 20) = 0" "vcpuCapable (glob exSetup1) 0"
  by (simp_all add: exSetup1_def exSetup_def zero_state_def kPluginInitDomainVtx_def ia32eCpuDomainInfoInitVtx_def
      ia32eCpuVtxDomainInfoInit_def kDomainUniverseCanAdd_def kDomainUniverseAdd_def exVmDomain_def exInfo_def exEnv_def envRr_def
      with_ops_def Let_def)

lemma ex_setup_ready:
  "before_setup exSetup" "12 \<in> ran (kTasks (kern (vmS exSetup2)))" "curDom (vmS exSetup2) 12 = Some 20"
  "vm (vdom (vmS exSetup2) 20)"
proof -
  show "before_setup exSetup" by (simp add: before_setup_def exSetup_def zero_state_def)
  let ?k = "upd_task 12 (\<lambda>r. r\<lparr>threadTpr := 4\<rparr>) (kern (vmS exSetup1))"
  have d: "kDomainUniverseGet (envRr 8 exEnv) (thDomId exVcpu) ?k = Some 20" "kSchedTaskCanAdd (envRr 8 exEnv) (thTaskId exVcpu) ?k"
    by (simp_all add: kDomainUniverseGet_def kSchedTaskCanAdd_def ex_setup1 exVcpu_def exEnv_def envRr_def with_ops_def ARRAY_LEN_kTasks_def)
  note t = rr_setup.thread_init_tables[OF d, where t = 12]
  have v: "ia32eCpuThreadInfoInitVtx (envRr 8 exEnv) (glob exSetup1) 12 exVcpu \<lparr>vmcsVirtParam = 0x8000, vmcsPhysParam = 0x8000\<rparr> (vmS exSetup1)
      = (Inr (), (vmS exSetup1)\<lparr>kern := ?k, vtxInfo := (vtxInfo (vmS exSetup1))(12 := \<lparr>vmcsPhys = 0x8000, vcpuId = 0\<rparr>),
          vdom := (vdom (vmS exSetup1))(20 := (vdom (vmS exSetup1) 20)\<lparr>apicBus := (apicBus (vdom (vmS exSetup1) 20))(0 := Some 12),
            numVcpus := 1\<rparr>)\<rparr>)"
    by (simp add: ia32eCpuThreadInfoInitVtx_def vm_part_def ia32eCpuVtxParamIsVm_def ia32eCpuVtxInfoInit_def ia32eCpuVtxIsVcpuCapable_def
        ia32eCpuVtxTaskInfoInit_def kDomainUniverseGet_def ex_setup1 exVcpu_def exEnv_def envRr_def with_ops_def Let_def
        vassert_holds IA32E_MAX_VECTOR_PRIO_def)
  have a: "thread_args_ok (envRr 8 exEnv) exVcpu (kern (vmS exSetup1))" "admitRr 8 exVcpu k = Inr id" for k
    by (simp_all add: thread_args_ok_def admitRr_def kDomainUniverseGet_def kSchedTaskCanAdd_def ex_setup1 exVcpu_def exEnv_def
        envRr_def with_ops_def ARRAY_LEN_kTasks_def)
  have n: "unat (thTaskId exVcpu) = 1" by (simp add: exVcpu_def)
  show "12 \<in> ran (kTasks (kern (vmS exSetup2)))" "curDom (vmS exSetup2) 12 = Some 20" "vm (vdom (vmS exSetup2) 20)"
    using t unfolding exSetup2_def kPluginInitTaskThreadVtx_def
    by (simp_all add: v a n ex_setup1 vassert_holds Let_def zero_ctx_def thread_record_def zero_domain_def)
qed

theorem vm_setup_complete_witness: "registered 12 20 (vmS exSetup2) \<and> vm_ok (vmS exSetup2)"
  using vm_setup_complete[OF ex_setup_ready(1) ex_setup_run _ ex_callbacks, of "vmS exSetup2"] ex_setup_ready
  by (simp add: run_start envRr_def exEnv_def)

text \<open>
  C32. The bitmap of the model specific registers is exact: after the global start a guest reaches the registers of
  the list, for reading and for writing, and no other register, without an exit to the emulator. The start leaves
  all else as it was, but for the flag of the extended page tables, which tells whether every CPU that is online has
  accessed and dirty bits, and the counter of the identifiers.
\<close>

theorem vm_msrs_exact:
  assumes "vcpuCapableExists g" and "length cpus \<le> n"
  shows "\<exists>bm'. ia32eGlobalVtxInit cfg n cpus (g, bm, k) =
      ((if cfgVpid cfg then g\<lparr>vpidCtr := 1\<rparr> else g)\<lparr>allEptAd := (\<forall>(online, ad) \<in> set cpus. online \<longrightarrow> ad)\<rparr>, bm', k)
    \<and> (\<forall>isRead msr. msr_exits bm' isRead msr \<longleftrightarrow> msr \<notin> set ia32eVtxVmcsMsrAllowList)"
  using global_vtx_init[OF assms] by (simp only: all_ept_ad_iff)

definition exConfig :: vtxConfig where
  "exConfig = \<lparr>cfgTsd = False, cfgVtxTsd = False, cfgVpid = True, cfgPcid = True, cfgSmep = True, cfgSmap = True, cfgUmip = True\<rparr>"

theorem vm_msrs_exact_witness:
  "let (g, bm, k) = ia32eGlobalVtxInit exConfig 2 [(True, True), (False, False)] (glob exSetup, \<lambda>_. 0, exReady zeroRr)
   in allEptAd g \<and> msr_exits bm True 0x1b \<and> \<not> msr_exits bm False 0xc0000080"
proof -
  have "vcpuCapableExists (glob exSetup)" by (simp add: exSetup_def)
  from vm_msrs_exact[OF this, of "[(True, True), (False, False)]" 2 exConfig "\<lambda>_. 0" "exReady zeroRr"]
  show ?thesis by (auto simp: ia32eVtxVmcsMsrAllowList_def)
qed

text \<open>
  C33. No control that the emulator relies on is ever lost: if the start says that a CPU can run virtual machines, then
  after the reset of a virtual CPU there its controls are set. Interrupts and NMIs exit, the priority and the counters of
  the processor exit, the bitmaps of ports and registers are in use, the extended page tables are, and the
  registers that host and guest share are switched. The CPU is in VMX operation without transactions, and its
  own control register is as the kernel wants it.
\<close>

theorem vm_controls_kept:
  assumes "ia32eCpuVtxInit cfg vmxonOk cpu (c0, g0) = (c, g)" and "f_vcpuCapable (cpuFlagsOf c)" and "\<not> f_vcpuCapable (cpuFlagsOf c0)"
    and "runs_on cfg c V" and "\<And>f. vmwriteOk V f" and "\<not> stopped s"
  shows "let s' = setup_controls V t s; f = cpuFlagsOf c in
     (\<forall>k \<in> {0, 3, 5}. bit (ia32eVmread t CTRL_PINBASED_CONTROLS s') k)
   \<and> (\<forall>k \<in> {11, if cfgVtxTsd cfg then 12 else 3, 19, 20, 25, 28, 31} \<union> (if f_monitorMwait f then {10, 29} else {}).
        bit (ia32eVmread t CTRL_PROCBASED_CTLS s') k)
   \<and> (\<forall>k \<in> {1, 6, 7} \<union> (if f_sgx f then {15} else {}). bit (ia32eVmread t CTRL_PROCBASED_CTLS2 s') k)
   \<and> (\<forall>k \<in> {9, 15, 20, 21} \<union> (if f_pat f then {18, 19} else {}). bit (ia32eVmread t CTRL_PRIMARY_VMEXIT_CONTROLS s') k)
   \<and> (\<forall>k \<in> {15} \<union> (if f_pat f then {14} else {}). bit (ia32eVmread t CTRL_VMENTRY_CONTROLS s') k)
   \<and> inVmx c \<and> \<not> f_rtm f \<and> vtx_cr4_secure cfg (regCr4 c) \<and> vcpuCapable g cpu \<and> \<not> stopped s'"
proof -
  note i = vtx_init_capable[OF assms(1-3)]
  have r: "ia32eRdmsr V = msrOf c" "VTX_TSD V = cfgVtxTsd cfg" "ia32eVmxPinbasedCtls V = vmxPinbasedCtls c"
      "ia32eVmxProcbasedCtls V = vmxProcbasedCtls c" "ia32eVmxExitCtls V = vmxExitCtls c" "ia32eVmxEntryCtls V = vmxEntryCtls c"
    using assms(4) by (simp_all add: runs_on_def)
  note b = setup_controls_bits[OF assms(6,5) r(1), where t = t, unfolded r(2-)]
  show ?thesis
    unfolding Let_def
  proof (intro conjI ballI)
    fix k assume "k \<in> {0, 3, 5 :: nat}"
    then show "bit (ia32eVmread t CTRL_PINBASED_CONTROLS (setup_controls V t s)) k" using b(1)[of k] i(4)[of k] by auto
  next
    fix k :: nat assume "k \<in> {11, if cfgVtxTsd cfg then 12 else 3, 19, 20, 25, 28, 31} \<union> (if f_monitorMwait (cpuFlagsOf c) then {10, 29} else {})"
    then show "bit (ia32eVmread t CTRL_PROCBASED_CTLS (setup_controls V t s)) k" using b(2)[of k] i(7)[of k] by (auto split: if_splits)
  next
    fix k :: nat assume "k \<in> {1, 6, 7} \<union> (if f_sgx (cpuFlagsOf c) then {15} else {})"
    then show "bit (ia32eVmread t CTRL_PROCBASED_CTLS2 (setup_controls V t s)) k" using b(5)[of k] i(8)[of k] by (auto split: if_splits)
  next
    fix k :: nat assume "k \<in> {9, 15, 20, 21} \<union> (if f_pat (cpuFlagsOf c) then {18, 19} else {})"
    then show "bit (ia32eVmread t CTRL_PRIMARY_VMEXIT_CONTROLS (setup_controls V t s)) k" using b(3)[of k] i(5)[of k] by (auto split: if_splits)
  next
    fix k :: nat assume "k \<in> {15} \<union> (if f_pat (cpuFlagsOf c) then {14} else {})"
    then show "bit (ia32eVmread t CTRL_VMENTRY_CONTROLS (setup_controls V t s)) k" using b(4)[of k] i(6)[of k] by (auto split: if_splits)
  qed (use i b(6) in simp_all)
qed

definition exCpu :: vtxCpu where
  "exCpu = \<lparr>msrOf = (\<lambda>m. if m = 0x3a then 5 else if m = 0x488 then 0x2000 else if m = 0x489 then 0x3727ff else - 1),
     regCr0 = 0x80000031, regCr4 = 0x300020, regDr = (\<lambda>_. 0), inVmx = False,
     cpuFlagsOf = cpuFlags.extend exFlags \<lparr>f_rtm = False, f_monitorMwait = True, f_sgx = False, f_vcpuCapable = False,
       f_ept2mb = False, f_ept1gb = False, f_eptUc = False, f_eptAd = False\<rparr>,
     revisionId = 0, vmxPinbasedCtls = 0, vmxProcbasedCtls = 0, vmxExitCtls = 0, vmxEntryCtls = 0, hostDr = (\<lambda>_. 0),
     msrAreaCount = 0, vmexitLoadArea = [], vmexitStoreVmentryLoadArea = replicate 5 (0, 0), vmxonHeader = 0\<rparr>"

definition exOn :: "vtxCpu \<Rightarrow> 'p vtxEnv" where
  "exOn c = exVtx\<lparr>ia32eRdmsr := msrOf c, ia32eVmxPinbasedCtls := vmxPinbasedCtls c, ia32eVmxProcbasedCtls := vmxProcbasedCtls c,
     ia32eVmxExitCtls := vmxExitCtls c, ia32eVmxEntryCtls := vmxEntryCtls c, flags := cpuFlags.truncate (cpuFlagsOf c)\<rparr>"

theorem vm_controls_kept_witness:
  "let c = fst (ia32eCpuVtxInit exConfig True 1 (exCpu, glob exSetup))
   in bit (ia32eVmread 12 CTRL_PROCBASED_CTLS2 (setup_controls (exOn c) 12 exVm)) 1"
proof -
  let ?r = "ia32eCpuVtxInit exConfig True 1 (exCpu, glob exSetup)"
  have c: "f_vcpuCapable (cpuFlagsOf (fst ?r))" "\<not> f_vcpuCapable (cpuFlagsOf exCpu)"
    by (simp_all add: ia32eCpuVtxInit_def exCpu_def exFlags_def exConfig_def cpuFlags.extend_def vtx_controls_ok_def vtx_controls2_ok_def
        testBitLe_bit vtx_enter_def vtx_record_def vtx_cr4_secure_def vtx_lose_features_def Let_def)
  have o: "runs_on exConfig (fst ?r) (exOn (fst ?r))" "vmwriteOk (exOn (fst ?r)) f" for f
    by (simp_all add: runs_on_def exOn_def exVtx_def exConfig_def)
  show ?thesis
    using vm_controls_kept[OF surjective_pairing c o(1) o(2) ex_vm_ok(2), of 12] by (simp add: Let_def)
qed

text \<open>
  C34. The topology tells CPUs apart and is found in finite time: two CPUs of one machine, whose processors report an end
  of the levels, get their places, and only one and the same CPU has the same thread, core and package.
\<close>

theorem cpu_topology_unique:
  assumes "same_machine A B" and "level_type (A 0x1f (word_of_nat m)) = 0"
  shows "\<exists>S T. ia32eThisTopology A = Some S \<and> ia32eThisTopology B = Some T \<and> (same_place S T \<longrightarrow> lapicId S = lapicId T)"
proof -
  have "level_type (B 0x1f (word_of_nat m)) = 0" using assms by (simp add: same_machine_def level_type_def)
  then obtain S T where "ia32eThisTopology A = Some S" "ia32eThisTopology B = Some T"
    using topology_returns[of A m] topology_returns[of B m] assms(2) by auto
  then show ?thesis using topology_unique[OF assms(1)] by blast
qed

definition exCpuid :: "u32 \<Rightarrow> cpuidFn" where
  "exCpuid i leaf sub = (if leaf = 0 then (0x1f, 0, 0, 0)
     else if leaf = 0x1f \<and> sub = 0 then (1, 2, 0x100, i)
     else if leaf = 0x1f \<and> sub = 1 then (4, 8, 0x201, i)
     else if leaf = 7 then (0, push_bit 7 1, 0, 0) else (0, 0, 0, 0))"

theorem cpu_topology_unique_witness:
  "\<exists>S T. ia32eThisTopology (exCpuid 9) = Some S \<and> ia32eThisTopology (exCpuid 24) = Some T \<and> (same_place S T \<longrightarrow> lapicId S = lapicId T)"
  by (rule cpu_topology_unique[where m = 2]) (auto simp: same_machine_def exCpuid_def level_type_def)

text \<open>
  C35. The start of a CPU switches on only what the processor reports: every bit of the control register \<open>CR4\<close> that it sets
  is reported by \<open>cpuid\<close> and wanted by the configuration, or demanded by the processor for virtual machines, and every
  bit that the guests of the CPU may set later is reported. When the processor leaves a guest, it loads the kernel's
  own registers for system calls.
\<close>

theorem cpu_features_reported:
  fixes cfg :: vtxConfig and cpuid :: cpuidFn
  assumes "\<not> f_de (startFlagsOf c)" "\<not> f_pcid (startFlagsOf c)" "\<not> f_fsgsbase (startFlagsOf c)" "\<not> f_smep (startFlagsOf c)"
    "\<not> f_smap (startFlagsOf c)" "\<not> f_umip (startFlagsOf c)" "\<not> f_vcpuCapable (startFlagsOf c)"
    and "ia32eCpuInit cfg cpuid entry guards vmxonOk cpu (c, v, g) = (c', v', g')" and "runs_on cfg v' V"
  shows "(bit (regCr4 v') k \<longrightarrow> bit (startCr4 c) k \<or> bit (msrOf v 0x488) k \<or> (cr4_reported cpuid k \<and> (k = 2 \<longrightarrow> cfgTsd cfg)
      \<and> (k = 11 \<longrightarrow> cfgUmip cfg) \<and> (k = 17 \<longrightarrow> cfgPcid cfg) \<and> (k = 20 \<longrightarrow> cfgSmep cfg) \<and> (k = 21 \<longrightarrow> cfgSmap cfg)))
    \<and> (bit (guest_cr4_bits V) k \<longrightarrow> cr4_reported cpuid k)
    \<and> (f_vcpuCapable (cpuFlagsOf v') \<longrightarrow> {(IA32E_STAR, startStar c'), (IA32E_LSTAR, entry), (IA32E_FMASK, NOT 2)} \<subseteq> set (vmexitLoadArea v'))"
proof -
  define v1 where "v1 = v\<lparr>cpuFlagsOf := vtxCpuFlags.truncate (startFlagsOf c'), regCr4 := startCr4 c',
      msrOf := (msrOf v)(IA32E_EFER := startEfer c', IA32E_STAR := startStar c', IA32E_LSTAR := entry, IA32E_FMASK := startFmask c'),
      regDr := (regDr v)(1 := fst guards, 2 := fst (snd guards), 3 := snd (snd guards), 7 := startDr7 c')\<rparr>"
  have c': "c' = cpu_registers cfg cpuid c" and r: "(v', g') = (v1, g) \<or> ia32eCpuVtxInit cfg vmxonOk cpu (v1, g) = (v', g')"
    using assms(8) by (auto simp: ia32eCpuInit_def v1_def Let_def split: if_splits)
  have v1: "regCr4 v1 = startCr4 c'" "msrOf v1 0x488 = msrOf v 0x488" "msrOf v1 IA32E_STAR = startStar c'" "msrOf v1 IA32E_LSTAR = entry"
      "msrOf v1 IA32E_FMASK = NOT 2" "\<not> f_vcpuCapable (cpuFlagsOf v1)"
    using assms(7) by (simp_all add: v1_def vtxCpuFlags.truncate_def c' cpu_registers_def cpu_features_def cpu_extended_features_def Let_def)
  have t: "f_vme (flags V) = f_vme (cpuFlagsOf v')" "f_de (flags V) = f_de (cpuFlagsOf v')" "f_umip (flags V) = f_umip (cpuFlagsOf v')"
      "f_fsgsbase (flags V) = f_fsgsbase (cpuFlagsOf v')" "f_pcid (flags V) = f_pcid (cpuFlagsOf v')"
      "f_smep (flags V) = f_smep (cpuFlagsOf v')" "f_smap (flags V) = f_smap (cpuFlagsOf v')"
    using assms(9) by (simp_all add: runs_on_def cpuFlags.truncate_def)
  have l: "f_vme (cpuFlagsOf v') = f_vme (startFlagsOf c')" "f_umip (cpuFlagsOf v') = f_umip (startFlagsOf c')"
      "f_de (cpuFlagsOf v') \<Longrightarrow> f_de (startFlagsOf c')" "f_fsgsbase (cpuFlagsOf v') \<Longrightarrow> f_fsgsbase (startFlagsOf c')"
      "f_pcid (cpuFlagsOf v') \<Longrightarrow> f_pcid (startFlagsOf c')" "f_smep (cpuFlagsOf v') \<Longrightarrow> f_smep (startFlagsOf c')"
      "f_smap (cpuFlagsOf v') \<Longrightarrow> f_smap (startFlagsOf c')"
    using r vtx_init_flags[of cfg vmxonOk cpu v1 g v' g'] by (auto simp: v1_def vtxCpuFlags.truncate_def)
  note f = start_flags[OF assms(1-6), of cfg cpuid, folded c']
  have b: "bit (guest_cr4_bits V) k \<longrightarrow> cr4_reported cpuid k"
    using guest_cr4_reported[of V k cpuid] f l unfolding t by blast
  have "regCr4 v' = startCr4 c' \<or> regCr4 v' = (startCr4 c' OR msrOf v 0x488) AND msrOf v1 0x489"
    using r vtx_init_flags(8)[of cfg vmxonOk cpu v1 g v' g'] v1 by auto
  then have "bit (regCr4 v') k \<Longrightarrow> bit (startCr4 c') k \<or> bit (msrOf v 0x488) k" by (auto simp: bit_simps)
  moreover have "{(IA32E_STAR, startStar c'), (IA32E_LSTAR, entry), (IA32E_FMASK, NOT 2)} \<subseteq> set (vmexitLoadArea v')"
    if "f_vcpuCapable (cpuFlagsOf v')"
    using r that v1(3-6) vtx_init_area[of cfg vmxonOk cpu v1 g v' g'] by (auto simp: ia32eVtxVmcsMsrCtxList_def)
  ultimately show ?thesis using start_cr4[of cfg cpuid c k] b unfolding c' by blast
qed

definition exCpuStart :: cpuStart where
  "exCpuStart = \<lparr>startFlagsOf = cpuFlags.extend (exFlags\<lparr>f_umip := False, f_de := False, f_fsgsbase := False, f_pcid := False,
       f_smep := False, f_smap := False\<rparr>)
       \<lparr>f_rtm = False, f_monitorMwait = False, f_sgx = False, f_vcpuCapable = False, f_ept2mb = False, f_ept1gb = False,
        f_eptUc = False, f_eptAd = False, f_rtmAbort = False, f_invTsc = False\<rparr>,
     startCr4 = 0x20, startEfer = 0x500, startStar = 0, startFmask = 0, startDr7 = 0x400, startVersion = 0, startSubleafMax = 0,
     startEsigMax = 0, pcidCapableExists = False\<rparr>"

theorem cpu_features_reported_witness:
  "let (c, v, g) = ia32eCpuInit exConfig (exCpuid 9) 0x1000 (1, 2, 3) True 0 (exCpuStart, exCpu, glob exSetup)
   in \<not> bit (regCr4 v) 21 \<and> \<not> bit (guest_cr4_bits (exOn v :: rrState vtxEnv)) 21"
proof -
  have f: "\<not> f_de (startFlagsOf exCpuStart)" "\<not> f_pcid (startFlagsOf exCpuStart)" "\<not> f_fsgsbase (startFlagsOf exCpuStart)"
      "\<not> f_smep (startFlagsOf exCpuStart)" "\<not> f_smap (startFlagsOf exCpuStart)" "\<not> f_umip (startFlagsOf exCpuStart)"
      "\<not> f_vcpuCapable (startFlagsOf exCpuStart)"
    by (simp_all add: exCpuStart_def cpuFlags.extend_def)
  have n: "\<not> cr4_reported (exCpuid 9) 21" "\<not> bit (startCr4 exCpuStart) 21" "\<not> bit (msrOf exCpu 0x488) 21"
    by (simp_all add: cr4_reported_def exCpuid_def exCpuStart_def exCpu_def)
  have o: "runs_on exConfig v (exOn v :: rrState vtxEnv)" for v by (simp add: runs_on_def exOn_def exVtx_def exConfig_def)
  obtain c v g where r: "ia32eCpuInit exConfig (exCpuid 9) 0x1000 (1, 2, 3) True 0 (exCpuStart, exCpu, glob exSetup) = (c, v, g)"
    using prod_cases3 by blast
  show ?thesis using cpu_features_reported[OF f r o, of 21] n unfolding r by simp
qed

section \<open>The lock\<close>

text \<open>For the witnesses: the nodes 1 and 2 have arrived, and 1 has the lock.\<close>

definition exLock :: mcsState where
  "exLock = \<lparr>tail = Some 2, node_next = (\<lambda>_. None), node_state = (\<lambda>_. 0),
     pc = (\<lambda>_. Outside)(1 := Holding, 2 := Linking 1)\<rparr>"

lemma ex_lock: "mcs_run [Arrive 1, Enter 1, Arrive 2] exLock"
proof -
  let ?s1 = "goto 1 Fresh mcs_start"
  let ?s2 = "goto 1 Holding (mcs_start\<lparr>tail := Some 1\<rparr>)"
  let ?s3 = "goto 2 Fresh ?s2"
  have z: "(\<lambda>_. None)(x := None) = (\<lambda>_. None)" "(\<lambda>_. 0)(x := 0) = (\<lambda>_. 0 :: u32)" for x :: addr by auto
  have 1: "mcs_step mcs_start [] ?s1"
    using mcs_step.step[of ?s1 1 mcs_start] by (simp add: mcsNodeInit_def mcs_start_def goto_def mcs_events_def z)
  have 2: "mcs_step ?s1 [Arrive 1, Enter 1] ?s2"
    using mcs_step.step[of ?s2 1 ?s1] by (simp add: mcsAcquire_def mcs_start_def goto_def mcs_events_def)
  have 3: "mcs_step ?s2 [] ?s3"
    using mcs_step.step[of ?s3 2 ?s2] by (simp add: mcsNodeInit_def mcs_start_def goto_def mcs_events_def z)
  have 4: "mcs_step ?s3 [Arrive 2] exLock"
    using mcs_step.step[of exLock 2 ?s3] by (simp add: mcsAcquire_def mcs_start_def goto_def mcs_events_def exLock_def)
  show ?thesis
    using mcs_run.step[OF mcs_run.step[OF mcs_run.step[OF mcs_run.step[OF mcs_run.start 1] 2] 3] 4] by simp
qed

lemma mcs_one_holder:
  assumes "mcs_run es s" and "has_lock (pc s x)" and "has_lock (pc s y)"
  shows "x = y"
proof -
  obtain Q where "mcs_inv Q s" using mcs_run_refines[OF assms(1)] by blast
  then show ?thesis using mcs_holder_head[of Q s x] mcs_holder_head[of Q s y] assms(2,3) by auto
qed

lemma mcs_goes_on:
  assumes "mcs_run es s" and "in_queue (pc s x)"
  shows "(\<exists>y. pc s y = Holding) \<or> (\<exists>y. in_queue (pc s y) \<and> (mcsAcquire y s \<noteq> None \<or> mcsRelease y s \<noteq> None))"
proof -
  obtain Q where Q: "mcs_inv Q s" using mcs_run_refines[OF assms(1)] by blast
  then have "x \<in> set Q" using assms(2) by (simp add: mcs_inv_def)
  then obtain y ys where q: "Q = y # ys" by (cases Q) auto
  show ?thesis
  proof (cases "pc s y = Holding")
    case False
    obtain z where "z \<in> set Q" "mcsAcquire z s \<noteq> None \<or> mcsRelease z s \<noteq> None"
      using mcs_first_goes_on[of y ys s] Q q False by blast
    then show ?thesis using Q by (auto simp: mcs_inv_def)
  qed blast
qed

text \<open>
  C36. Mutual exclusion without deadlock: whatever the interleaving of any number of CPUs that initialise nodes, take
  the lock, try it and release it, at most one of them has it; and as long as a CPU is in the queue, one CPU is in its
  critical section, or one that is in the code of the lock can take its next step.
\<close>

theorem mcs_exclusive_live:
  assumes "mcs_run es s" and "in_queue (pc s x)"
  shows "(\<forall>y z. has_lock (pc s y) \<longrightarrow> has_lock (pc s z) \<longrightarrow> y = z)
    \<and> ((\<exists>y. pc s y = Holding) \<or> (\<exists>y. in_queue (pc s y) \<and> (mcsAcquire y s \<noteq> None \<or> mcsRelease y s \<noteq> None)))"
  using mcs_one_holder[OF assms(1)] mcs_goes_on[OF assms] by blast

theorem mcs_exclusive_live_witness: "has_lock (pc exLock 1) \<and> (\<forall>y. has_lock (pc exLock y) \<longleftrightarrow> 1 = y)"
proof -
  have "in_queue (pc exLock 2)" "has_lock (pc exLock 1)" by (simp_all add: exLock_def)
  then show ?thesis using mcs_exclusive_live[OF ex_lock, of 2] by blast
qed

text \<open>
  C37. The lock is fair: every run of its code is a run of a queue, and so CPUs get the lock in the order
  in which they arrived.
\<close>

theorem mcs_fifo:
  assumes "mcs_run es s"
  shows "\<exists>Q. queue_lock es = Some (Q, \<exists>x. has_lock (pc s x)) \<and> set Q = {x. in_queue (pc s x)}
    \<and> prefix (entered es) (arrived es)"
proof -
  obtain Q where Q: "mcs_inv Q s" "queue_lock es = Some (Q, held Q s)" using mcs_run_refines[OF assms] by blast
  have "held Q s = (\<exists>x. has_lock (pc s x))"
  proof
    show "held Q s \<Longrightarrow> \<exists>x. has_lock (pc s x)" by (cases Q) (auto simp: held_def)
    show "held Q s" if "\<exists>x. has_lock (pc s x)"
    proof -
      from that obtain x where "has_lock (pc s x)" by blast
      then show ?thesis using mcs_holder_head[OF Q(1), of x] by (auto simp: held_def)
    qed
  qed
  moreover have "set Q = {x. in_queue (pc s x)}" using Q(1) by (auto simp: mcs_inv_def)
  moreover have "prefix (entered es) (arrived es)" using queue_lock_fifo[OF Q(2)] by simp
  ultimately show ?thesis using Q(2) by (intro exI[of _ Q]) simp
qed

theorem mcs_fifo_witness: "prefix [1] [1, 2 :: addr] \<and> {x. in_queue (pc exLock x)} = {1, 2}"
  using mcs_fifo[OF ex_lock] by (auto simp: queue_lock_def entered_def arrived_def)
section \<open>Timer chains\<close>

lemma chain_insert:
  assumes "chain_refines m ns c" and "chain_wf ns c" and "node \<notin> set (chain_dq c)"
  shows "\<exists>m' ns' c'. deltaChainInsertP m node d = Some m' \<and> chain_refines m' ns' c'
    \<and> chain_wf ns' c' \<and> currentEpoch c' = currentEpoch c
    \<and> chain_timers ns' c' = insert_timer (node, unat d) (chain_timers ns c)
    \<and> sorted (map snd (chain_timers ns' c'))"
proof -
  obtain ns' c' where i: "deltaChainInsert ns c node d = (ns', c')" by fastforce
  obtain m' where m: "deltaChainInsertP m node d = Some m'" "chain_refines m' ns' c'"
    using insert_refines[OF assms(1,3), of d] i by auto
  have "sorted (map snd (chain_timers ns' c'))" by (simp add: chain_timers_def timers_sorted)
  then show ?thesis
    using m deltaChainInsert_spec[OF i assms(2,3)] deltaChainInsert_frame(2)[OF i] by blast
qed

lemma chain_tick:
  assumes "chain_refines m ns c" and "chain_wf ns c"
  shows "\<exists>m' ns' c'. deltaChainTickP m = Some m' \<and> chain_refines m' ns' c' \<and> chain_wf ns' c'
    \<and> chain_dq c' = chain_dq c
    \<and> chain_timers ns' c' = map (apsnd (\<lambda>r. r - 1)) (chain_timers ns c)"
proof -
  obtain ns' c' where t: "deltaChainTick ns c = (ns', c')" by fastforce
  obtain m' where m: "deltaChainTickP m = Some m'" "chain_refines m' ns' c'"
    using tick_refines[OF assms(1)] t by auto
  then show ?thesis using deltaChainTick_spec[OF t assms(2)] by blast
qed

abbreviation example_chain :: chain_mem where
  "example_chain \<equiv> ((\<lambda>_. \<lparr>expectedEpoch = 0, delta = 5\<rparr>),
     (\<lambda>_. \<lparr>dqn_next = None, dqn_prev = None\<rparr>),
     \<lparr>cpEpoch = 9, cpDq = \<lparr>dq_front = Some 7, dq_back = Some 7\<rparr>\<rparr>)"

lemma chain_pops:
  assumes "chain_refines m ns c" and "chain_wf ns c"
    and "deltaChainPopExpiredP m = (r, m')" and "deltaChainPopP m = (q, m'')"
  shows "(case r of
      None \<Rightarrow> chain_refines m' ns c \<and> (\<forall>tr \<in> set (chain_timers ns c). snd tr > 0)
    | Some t \<Rightarrow> \<exists>c'. chain_refines m' ns c' \<and> chain_timers ns c = (t, 0) # chain_timers ns c')
   \<and> (\<exists>ns' c'. chain_refines m'' ns' c' \<and> chain_wf ns' c' \<and> q = opt_hd (chain_dq c)
    \<and> chain_timers ns' c' = tl (chain_timers ns c))"
proof -
  obtain r' c' where p: "deltaChainPopExpired ns c = (r', c')" by fastforce
  have m: "r' = r" "chain_refines m' ns c'"
    using popExpired_refines[OF assms(1)] assms(3) p by auto
  obtain q' ns' c'' where o: "deltaChainPop ns c = (q', ns', c'')" using prod_cases3 by blast
  have k: "q' = q" "chain_refines m'' ns' c''"
    using pop_refines[OF assms(1)] assms(4) o by auto
  have e: "case r of
      None \<Rightarrow> chain_refines m' ns c \<and> (\<forall>tr \<in> set (chain_timers ns c). snd tr > 0)
    | Some t \<Rightarrow> \<exists>c'. chain_refines m' ns c' \<and> chain_timers ns c = (t, 0) # chain_timers ns c'"
    using m(2) deltaChainPopExpired_spec[OF p] pop_none_expired[of ns c c'] p
    by (cases r) (auto simp: m(1) simp del: chain_refines.simps)
  show ?thesis using e k deltaChainPop_spec[OF o assms(2)] by blast
qed

text \<open>
  C38. Chains of timers on linked nodes: every operation returns and leaves a well linked chain. The insertion puts
  the timer behind all timers that expire no later and before all that expire later; the tick keeps the order of the
  nodes and takes one tick off every timer that has not expired. \<open>deltaChainPopExpired\<close> takes the first node out exactly
  when its timer has expired, \<open>deltaChainPop\<close> whether it has or not. All keep the remaining times of the other timers.
\<close>

theorem delta_chain_exact:
  assumes "chain_refines m ns c" and "chain_wf ns c" and "node \<notin> set (chain_dq c)"
  shows "(\<exists>m' ns' c'. deltaChainInsertP m node d = Some m' \<and> chain_refines m' ns' c'
      \<and> chain_wf ns' c' \<and> currentEpoch c' = currentEpoch c
      \<and> chain_timers ns' c' = insert_timer (node, unat d) (chain_timers ns c)
      \<and> sorted (map snd (chain_timers ns' c')))
    \<and> (\<exists>m' ns' c'. deltaChainTickP m = Some m' \<and> chain_refines m' ns' c' \<and> chain_wf ns' c'
      \<and> chain_dq c' = chain_dq c
      \<and> chain_timers ns' c' = map (apsnd (\<lambda>r. r - 1)) (chain_timers ns c))
    \<and> (case deltaChainPopExpiredP m of
        (None, m') \<Rightarrow> chain_refines m' ns c \<and> (\<forall>tr \<in> set (chain_timers ns c). snd tr > 0)
      | (Some t, m') \<Rightarrow> \<exists>c'. chain_refines m' ns c' \<and> chain_timers ns c = (t, 0) # chain_timers ns c')
    \<and> (\<exists>ns' c'. chain_refines (snd (deltaChainPopP m)) ns' c' \<and> chain_wf ns' c' \<and> fst (deltaChainPopP m) = opt_hd (chain_dq c)
      \<and> chain_timers ns' c' = tl (chain_timers ns c))"
proof -
  obtain r n where r: "deltaChainPopExpiredP m = (r, n)" by (rule prod.exhaust)
  note p = chain_pops[OF assms(1,2) r surjective_pairing]
  have e: "case deltaChainPopExpiredP m of
        (None, m') \<Rightarrow> chain_refines m' ns c \<and> (\<forall>tr \<in> set (chain_timers ns c). snd tr > 0)
      | (Some t, m') \<Rightarrow> \<exists>c'. chain_refines m' ns c' \<and> chain_timers ns c = (t, 0) # chain_timers ns c'"
    using conjunct1[OF p] unfolding r by (cases r) (simp_all del: chain_refines.simps)
  show ?thesis using chain_insert[OF assms] chain_tick[OF assms(1,2)] e conjunct2[OF p] by (intro conjI)
qed

theorem delta_chain_exact_witness:
  "(\<exists>m' ns' c'. deltaChainInsertP example_chain 3 2 = Some m'
      \<and> chain_refines m' ns' c' \<and> chain_wf ns' c' \<and> chain_timers ns' c' = [(3, 2), (7, 5)])
   \<and> (\<exists>m' ns' c'. deltaChainTickP example_chain = Some m' \<and> chain_refines m' ns' c' \<and> chain_timers ns' c' = [(7, 4)])"
proof -
  note t = delta_chain_exact[of example_chain "\<lambda>_. \<lparr>expectedEpoch = 0, delta = 5\<rparr>"
      "\<lparr>currentEpoch = 9, chain_dq = [7]\<rparr>" 3 2]
  show ?thesis using t
    by (simp add: chain_wf_def chain_timers_def del: chain_refines.simps deltaChainInsertP.simps deltaChainTickP.simps)
      (simp only: chain_refines.simps dq_rep.simps, fastforce)
qed

section \<open>Containers and helpers\<close>

text \<open>
  C39. \<open>sq_t\<close> and \<open>dq_t\<close> are first in, first out: nodes pushed at the back come out at the front
  after the nodes already queued, in the order of the pushes, and the queue is empty then. \<open>stackq_t\<close> is
  last in, first out, and what lay below is left as it was.
\<close>

theorem queues_fifo:
  assumes "sq_rep m xs" and "dq_rep m' xs" and "stackq_rep m'' xs" and "distinct (xs @ as)"
  shows "fst (sq.pop_n (length xs + length as) (sq.push_all m as)) = xs @ as
    \<and> sqIsEmpty (snd (sq.pop_n (length xs + length as) (sq.push_all m as)))
    \<and> fst (dq.pop_n (length xs + length as) (dq.push_all m' as)) = xs @ as
    \<and> dqIsEmpty (snd (dq.pop_n (length xs + length as) (dq.push_all m' as)))
    \<and> fst (stackq.drain (length as) (stackq.push_list m'' as)) = rev as
    \<and> stackq_rep (snd (stackq.drain (length as) (stackq.push_list m'' as))) xs"
  using sq.fifo_order[OF assms(1,4)] dq.fifo_order[OF assms(2,4)] stackq.lifo_order[OF assms(3,4)] by blast

theorem queues_fifo_witness:
  "fst (sq.pop_n (length [5, 3, 9])
     (sq.push_all ((\<lambda>_. \<lparr>sqn_next = None\<rparr>), \<lparr>sqq_front = None, sqq_back = None\<rparr>) [5, 3, 9])) = [5, 3, 9]
   \<and> fst (stackq.drain (length [5, 3, 9]) (stackq.push_list ((\<lambda>_. \<lparr>sn_under = None\<rparr>), \<lparr>sq_top = None\<rparr>) [5, 3, 9])) = [9, 3, 5]"
  using queues_fifo[of "((\<lambda>_. \<lparr>sqn_next = None\<rparr>), \<lparr>sqq_front = None, sqq_back = None\<rparr>)" "[]"
      "((\<lambda>_. \<lparr>dqn_next = None, dqn_prev = None\<rparr>), \<lparr>dq_front = None, dq_back = None\<rparr>)"
      "((\<lambda>_. \<lparr>sn_under = None\<rparr>), \<lparr>sq_top = None\<rparr>)" "[5, 3, 9]"]
  by (simp del: sq.push_all.simps sq.pop_n.simps dq.push_all.simps dq.pop_n.simps stackq.push_list.simps stackq.drain.simps)

text \<open>
  C40. Bitmaps: the searches return the highest and the lowest set bit that lies between the lower bound and
  the size, and -1 exactly when there is none; setting and clearing changes exactly the bits it names; and
  \<open>bitmapIsEmpty\<close> answers whether any bit of the bytes it covers is set, for every size whose byte count does
  not wrap in 32 bits.
\<close>

theorem bitmap_exact:
  assumes "unat cnt + 7 < 2 ^ 32" and "sz < 2 ^ 64"
  shows "(let S = {b. unat low \<le> b \<and> b < unat cnt \<and> bm_test bm b}
     in bitmapFls bm cnt low = (if S = {} then -1 else int (Max S)) \<and> bitmapFfs bm cnt low = (if S = {} then -1 else int (Min S)))
    \<and> bm_test (bm_set bm a) b = (a = b \<or> bm_test bm b)
    \<and> bm_test (bm_unset bm a) b = (a \<noteq> b \<and> bm_test bm b)
    \<and> bm_test (bm_set_all bm sz) b = (b < 8 * sz \<or> bm_test bm b)
    \<and> bm_test (bm_unset_all bm sz) b = (8 * sz \<le> b \<and> bm_test bm b)
    \<and> bitmapIsEmpty bm cnt = (\<forall>b < 8 * ((unat cnt + 7) div 8). \<not> bm_test bm b)"
  unfolding bitmapFls_Max bitmapFfs_Min bm_test_set bm_test_unset bm_test_set_all[OF assms(2)]
    bm_test_unset_all[OF assms(2)] bitmapIsEmpty_spec[OF assms(1)] by (simp add: Let_def)

theorem bitmap_exact_witness:
  "bitmapIsEmpty (\<lambda>_. 0) 12 \<and> bm_test (bm_set (\<lambda>_. 0) 11) 11"
  using bitmap_exact[of 12 0 0 "\<lambda>_. 0" 11 11] by (simp add: bm_test_def)

end
